(* ===== verification/Prelude.thy ===== *)
theory Prelude
  imports Main "HOL-Library.Word" "HOL-Library.Monad_Syntax" "HOL-Library.Multiset"
begin

text \<open>
  What the components share: the C integer types as words, byte buffers with checked reads
  and writes, little- and big-endian access, the xor of two buffers, and the collections of
  facts the component proofs use.

  A buffer is a \<open>byte list\<close>.  A read or a write outside it is undefined behaviour in C; the
  checked accesses return \<open>None\<close> there, so that a function of the model that returns
  \<open>Some\<close> has touched nothing outside its buffers.
\<close>

unbundle bit_operations_syntax

type_synonym byte = "8 word"
type_synonym u16 = "16 word"
type_synonym u32 = "32 word"
type_synonym u64 = "64 word"

named_theorems buf_simps \<open>length and content of the buffer operations\<close>
named_theorems len_simps \<open>lengths of the byte lists the operations build\<close>

section \<open>Checked access to a buffer\<close>

definition rd :: "byte list \<Rightarrow> nat \<Rightarrow> byte option" where
  "rd m i = (if i < length m then Some (m ! i) else None)"

definition rd_slice :: "byte list \<Rightarrow> nat \<Rightarrow> nat \<Rightarrow> byte list option" where
  "rd_slice m i n = (if i + n \<le> length m then Some (take n (drop i m)) else None)"

definition wr_slice :: "byte list \<Rightarrow> nat \<Rightarrow> byte list \<Rightarrow> byte list option" where
  "wr_slice m i bs =
     (if i + length bs \<le> length m
      then Some (take i m @ bs @ drop (i + length bs) m) else None)"

lemma rd_Some_iff: "rd m i = Some b \<longleftrightarrow> i < length m \<and> b = m ! i"
  by (auto simp: rd_def)

lemma rd_in [buf_simps]: "i < length m \<Longrightarrow> rd m i = Some (m ! i)"
  by (simp add: rd_def)

lemma rd_out [buf_simps]: "length m \<le> i \<Longrightarrow> rd m i = None"
  by (simp add: rd_def)

lemma rd_slice_in [buf_simps]:
  "i + n \<le> length m \<Longrightarrow> rd_slice m i n = Some (take n (drop i m))"
  by (simp add: rd_slice_def)

lemma rd_slice_out [buf_simps]: "length m < i + n \<Longrightarrow> rd_slice m i n = None"
  by (simp add: rd_slice_def)

lemma rd_slice_length: "rd_slice m i n = Some bs \<Longrightarrow> length bs = n"
  by (auto simp: rd_slice_def split: if_splits)

lemma wr_slice_in [buf_simps]:
  "i + length bs \<le> length m \<Longrightarrow>
   wr_slice m i bs = Some (take i m @ bs @ drop (i + length bs) m)"
  by (simp add: wr_slice_def)

lemma wr_slice_out [buf_simps]: "length m < i + length bs \<Longrightarrow> wr_slice m i bs = None"
  by (simp add: wr_slice_def)

lemma wr_slice_length: "wr_slice m i bs = Some m' \<Longrightarrow> length m' = length m"
  by (auto simp: wr_slice_def split: if_splits)

lemma rd_slice_wr_slice_same:
  assumes "wr_slice m i bs = Some m'"
  shows "rd_slice m' i (length bs) = Some bs"
  using assms by (auto simp: wr_slice_def rd_slice_def split: if_splits)

lemma nth_wr_slice:
  assumes "wr_slice m i bs = Some m'" and "k < length m"
  shows "m' ! k = (if i \<le> k \<and> k < i + length bs then bs ! (k - i) else m ! k)"
  using assms by (auto simp: wr_slice_def nth_append min_def split: if_splits)

lemma slice_eqI:
  assumes "length m = length m'" and "\<And>k. i \<le> k \<Longrightarrow> k < i + n \<Longrightarrow> k < length m \<Longrightarrow> m ! k = m' ! k"
  shows "take n (drop i m) = take n (drop i m')"
  using assms by (intro nth_equalityI) auto

lemma rd_slice_wr_slice_other:
  assumes "wr_slice m i bs = Some m'" and "j + n \<le> i \<or> i + length bs \<le> j"
  shows "rd_slice m' j n = rd_slice m j n"
proof -
  have "length m' = length m" using assms(1) by (rule wr_slice_length)
  moreover have "take n (drop j m') = take n (drop j m)"
    using assms by (intro slice_eqI) (auto simp: wr_slice_length nth_wr_slice)
  ultimately show ?thesis by (simp add: rd_slice_def)
qed

section \<open>The xor of two buffers\<close>

definition xor_bytes :: "byte list \<Rightarrow> byte list \<Rightarrow> byte list" where
  "xor_bytes a b = map2 (XOR) a b"

lemma length_xor_bytes [len_simps]: "length (xor_bytes a b) = min (length a) (length b)"
  by (simp add: xor_bytes_def)

lemma xor_bytes_Nil [simp]: "xor_bytes [] b = []" "xor_bytes a [] = []"
  by (simp_all add: xor_bytes_def)

lemma xor_bytes_Cons [simp]: "xor_bytes (x # a) (y # b) = (x XOR y) # xor_bytes a b"
  by (simp add: xor_bytes_def)

lemma nth_xor_bytes:
  "i < length a \<Longrightarrow> i < length b \<Longrightarrow> xor_bytes a b ! i = a ! i XOR b ! i"
  by (simp add: xor_bytes_def)

lemma word_xor_cancel [simp]: "(a XOR b) XOR b = (a :: 'a::len word)"
  "a XOR (a XOR b) = (b :: 'a::len word)" "b XOR (a XOR b) = a"
  by (simp_all add: xor.assoc xor.left_commute)

lemma xor_bytes_cancel: "length a \<le> length k \<Longrightarrow> xor_bytes (xor_bytes a k) k = a"
  by (rule nth_equalityI) (simp_all add: len_simps nth_xor_bytes)

lemma xor_bytes_commute: "xor_bytes a b = xor_bytes b a"
  by (rule nth_equalityI) (simp_all add: len_simps nth_xor_bytes xor.commute)

lemma xor_bytes_append:
  "length a = length b \<Longrightarrow> xor_bytes (a @ c) (b @ d) = xor_bytes a b @ xor_bytes c d"
  by (simp add: xor_bytes_def)

section \<open>Little- and big-endian words\<close>

definition le32_bytes :: "u32 \<Rightarrow> byte list" where
  "le32_bytes w = [ucast w, ucast (drop_bit 8 w), ucast (drop_bit 16 w), ucast (drop_bit 24 w)]"

definition get_be32 :: "byte \<Rightarrow> byte \<Rightarrow> byte \<Rightarrow> byte \<Rightarrow> u32" where
  "get_be32 a b c d =
     push_bit 24 (ucast a) OR push_bit 16 (ucast b) OR push_bit 8 (ucast c) OR ucast d"

definition be32_bytes :: "u32 \<Rightarrow> byte list" where
  "be32_bytes w = [ucast (drop_bit 24 w), ucast (drop_bit 16 w), ucast (drop_bit 8 w), ucast w]"

lemma length_le32_bytes [len_simps, simp]: "length (le32_bytes w) = 4"
  by (simp add: le32_bytes_def)

lemma length_be32_bytes [len_simps, simp]: "length (be32_bytes w) = 4"
  by (simp add: be32_bytes_def)

lemma bit_byte_ge: "bit (b :: byte) k \<Longrightarrow> k < 8"
  using bit_imp_le_length [of b k] by simp

lemma le32_bytes_inj: "le32_bytes v = le32_bytes w \<longleftrightarrow> v = w"
proof
  assume eq: "le32_bytes v = le32_bytes w"
  have b: "bit v (8 * i + k) \<longleftrightarrow> bit w (8 * i + k)" if "i < 4" "k < 8" for i k
  proof -
    have "(ucast (drop_bit (8 * i) v) :: byte) = le32_bytes v ! i" for v
    proof -
      have "i = 0 \<or> i = 1 \<or> i = 2 \<or> i = 3" using that(1) by arith
      then show ?thesis by (auto simp: le32_bytes_def)
    qed
    then have "bit (ucast (drop_bit (8 * i) v) :: byte) k = bit (ucast (drop_bit (8 * i) w) :: byte) k"
      using eq by simp
    then show ?thesis using that(2) by (simp add: bit_simps)
  qed
  show "v = w"
  proof (rule bit_word_eqI)
    fix n assume "n < LENGTH(32)"
    then show "bit v n \<longleftrightarrow> bit w n" using b [of "n div 8" "n mod 8"] by simp
  qed
qed simp

lemma ucast_byte_inj:
  assumes "(ucast (x :: byte) :: u32) = ucast y"
  shows "x = y"
proof (rule bit_word_eqI)
  fix n assume "n < LENGTH(8)"
  then show "bit x n \<longleftrightarrow> bit y n"
    using arg_cong [OF assms, of "\<lambda>w. bit w n"] by (simp add: bit_ucast_iff)
qed

section \<open>Lists\<close>

lemma swap_mset:
  assumes "i < length xs" and "j < length xs"
  shows "mset (xs[j := xs ! i, i := xs ! j]) = mset xs"
  using assms mset_swap [of j xs i]
  by (cases "i = j") (auto simp: list_update_swap)

section \<open>Transition systems\<close>

text \<open>
  What a component with state promises: its transitions keep the invariant \<open>inv\<close>, and \<open>obs\<close>,
  what it neither creates nor destroys, stays the same.
\<close>

locale invariant_system =
  fixes step :: "'s \<Rightarrow> 's \<Rightarrow> bool" and inv :: "'s \<Rightarrow> bool" and obs :: "'s \<Rightarrow> 'a"
  assumes step_inv: "step s s' \<Longrightarrow> inv s \<Longrightarrow> inv s'"
    and step_obs: "step s s' \<Longrightarrow> inv s \<Longrightarrow> obs s' = obs s"
begin

lemma run_keeps: "step\<^sup>*\<^sup>* s s' \<Longrightarrow> inv s \<Longrightarrow> inv s' \<and> obs s' = obs s"
proof (induction rule: rtranclp_induct)
  case (step s1 s2)
  then show ?case using step_inv step_obs by auto
qed simp

lemmas run_inv = run_keeps [THEN conjunct1]
lemmas run_obs = run_keeps [THEN conjunct2]

end

end
