(* ===== verification/Types.thy ===== *)
theory Types
  imports Prelude
begin

text \<open>
  The structures of \<open>include/\<close> the components share, with the fields they use: the receive
  and transmit attributes, the frames, the station entry, the station table, the security
  settings and the adapter.  A pointer to an element of a static pool is its index; a queue
  or a list head is the list of what it links, in order.
\<close>

section \<open>Return codes and MAC addresses\<close>

definition FAIL :: nat where "FAIL = 0"
definition SUCCESS :: nat where "SUCCESS = 1"

lemma codes_distinct [simp]: "SUCCESS \<noteq> FAIL" "FAIL \<noteq> SUCCESS"
  by (simp_all add: FAIL_def SUCCESS_def)

type_synonym mac = "byte list"

definition is_mac :: "mac \<Rightarrow> bool" where
  "is_mac a \<longleftrightarrow> length a = 6"

definition IS_MCAST :: "mac \<Rightarrow> bool" where
  "IS_MCAST da \<longleftrightarrow> (da ! 0) AND 0x01 \<noteq> 0"

definition bc_addr :: mac where
  "bc_addr = [0xff, 0xff, 0xff, 0xff, 0xff, 0xff]"

section \<open>Encryption algorithms (\<open>include/rtw_security.h\<close>)\<close>

datatype enc_alg = NO_PRIVACY | WEP40 | TKIP | TKIP_WTMIC | AES | WEP104

section \<open>Receive side (\<open>include/rtw_recv.h\<close>)\<close>

record rx_pkt_attrib =
  rx_hdrlen :: nat
  rx_iv_len :: nat
  rx_icv_len :: nat
  rx_encrypt :: enc_alg
  rx_bdecrypted :: bool
  rx_amsdu :: nat
  rx_qos :: nat
  rx_priority :: nat
  rx_seq_num :: u16
  rx_frag_num :: nat
  rx_mfrag :: nat
  rx_key_index :: nat
  rx_privacy :: bool
  rx_dst :: mac
  rx_src :: mac
  rx_ta :: mac
  rx_ra :: mac
  rx_bssid :: mac
  rx_to_fr_ds :: nat
  rx_ack_policy :: nat
  rx_pw_save :: bool
  rx_mdata :: bool
  rx_order :: bool

text \<open>
  A received frame: which frame of the pool it is, its attributes, the bytes from \<open>rx_head\<close> to
  \<open>rx_data\<close>, those from \<open>rx_data\<close> to \<open>rx_tail\<close> (\<open>len\<close> of them), the room between \<open>rx_tail\<close> and \<open>rx_end\<close>, and
  \<open>preorder_ctrl\<close>: the station and the traffic identifier whose reordering control it is.
\<close>

record recv_frame =
  rf_id :: nat
  rf_attrib :: rx_pkt_attrib
  rf_head :: "byte list"
  rf_data :: "byte list"
  rf_tailroom :: nat
  rf_ctrl :: "nat \<times> nat"

text \<open>The reordering control; \<open>ro_timer\<close> says whether \<open>reordering_ctrl_timer\<close> is armed.\<close>

record recv_reorder_ctrl =
  ro_enable :: bool
  ro_indicate_seq :: u16
  ro_wend_b :: u16
  ro_wsize_b :: byte
  ro_pending :: "recv_frame list"
  ro_timer :: bool

section \<open>Transmit side (\<open>include/rtw_xmit.h\<close>)\<close>

record pkt_attrib =
  px_hdrlen :: nat
  px_iv_len :: nat
  px_icv_len :: nat
  px_nr_frags :: nat
  px_last_txcmdsz :: nat
  px_encrypt :: enc_alg
  px_ta :: mac
  px_ra :: mac
  px_psta :: "nat option"
  px_priority :: nat
  px_triggered :: bool
  px_mdata :: bool
  px_eosp :: bool
  px_qsel :: nat
  px_ether_type :: nat
  px_dhcp_pkt :: bool
  px_subtype :: byte
  px_bswenc :: bool
  px_seqnum :: u16
  px_pkt_hdrlen :: nat
  px_pktlen :: nat
  px_iv :: "byte list"
  px_icv :: "byte list"
  px_ack_policy :: nat
  px_mac_id :: nat
  px_vcs_mode :: nat
  px_dst :: mac
  px_src :: mac
  px_key_idx :: nat
  px_qos_en :: bool
  px_ht_en :: bool
  px_raid :: nat
  px_bwmode :: nat
  px_ch_offset :: nat
  px_sgi :: bool
  px_ampdu_en :: bool
  px_pctrl :: bool
  px_retry_ctrl :: bool

text \<open>
  A frame on a transmit queue; \<open>xf_pkt\<close> is the packet of the network stack.  \<open>ext_tag\<close> is set to
  0 or 1 where the pools are set up and never changed, so it is a truth value here.
\<close>

record xmit_frame =
  xf_id :: nat
  xf_alloc_addr :: bool
  xf_ext_tag :: bool
  xf_attrib :: pkt_attrib
  xf_pkt :: "byte list option"
  xf_frame_tag :: nat
  xf_pkt_offset :: nat
  xf_agg_num :: nat
  xf_ack_report :: bool

text \<open>
  A service queue of a station.  Its \<open>tx_pending\<close> entry on the list \<open>sta_queue\<close> of an access
  category is the station's index on \<open>hw_sta_queue\<close>; \<open>xp_irp_cnt\<close> are \<open>voq_cnt\<close>, \<open>viq_cnt\<close>,
  \<open>beq_cnt\<close> and \<open>bkq_cnt\<close>.
\<close>

record tx_servq =
  sv_pending :: "xmit_frame list"
  sv_qcnt :: int

record xmit_priv =
  xp_frag_len :: nat
  free_xmit_queue :: "xmit_frame list"
  free_xmitframe_cnt :: int
  free_xframe_ext_queue :: "xmit_frame list"
  free_xframe_ext_cnt :: int
  hwxmits_accnt :: "nat \<Rightarrow> int"
  hw_sta_queue :: "nat \<Rightarrow> nat list"
  xp_irp_cnt :: "nat \<Rightarrow> int"
  free_xmitbuf_queue :: "nat list"
  free_xmitbuf_cnt :: int

section \<open>Stations (\<open>include/sta_info.h\<close>)\<close>

text \<open>What a station can do in HT mode (\<open>include/rtw_ht.h\<close>).\<close>

record ht_priv =
  hp_ht_option :: bool
  hp_ampdu_enable :: bool
  hp_bwmode :: nat
  hp_ch_offset :: nat
  hp_sgi :: bool
  hp_agg_enable_bitmap :: byte
  hp_candidate_tid_bitmap :: byte

record sta_info =
  si_state :: u32
  si_aid :: nat
  si_mac_id :: nat
  si_hwaddr :: mac
  si_UncstKey :: "byte list"
  si_sleep_q :: "xmit_frame list"
  si_sleepq_len :: u32
  si_vo_q :: tx_servq
  si_vi_q :: tx_servq
  si_be_q :: tx_servq
  si_bk_q :: tx_servq
  si_tid_rxseq :: "nat \<Rightarrow> u16"
  si_rx_iv :: "nat \<Rightarrow> byte list"
  si_reorder :: "nat \<Rightarrow> recv_reorder_ctrl"
  si_defrag_q :: "recv_frame list"
  si_tkiprxmickey :: "byte list"
  si_expire_to :: nat
  si_sleepq_ac_len :: u32
  si_qos_option :: bool
  si_qos_info :: byte
  si_max_sp_len :: nat
  si_uapsd_bk :: byte
  si_uapsd_be :: byte
  si_uapsd_vi :: byte
  si_uapsd_vo :: byte
  si_has_legacy_ac :: bool
  si_under_exist_checking :: bool
  si_pairwise_key_installed :: bool
  si_ieee8021x_blocked :: bool
  si_dot118021XPrivacy :: enc_alg
  si_UndecoratedSmoothedPWDB :: int
  si_UndecoratedSmoothedCCK :: int
  si_RxMgmtFrameSeqNum :: u16
  si_htpriv :: ht_priv
  si_txseq_tid :: "nat \<Rightarrow> u16"
  si_BA_starting_seqctrl :: "nat \<Rightarrow> u16"
  si_dot11txpn :: u64
  si_tkiptxmickey :: "byte list"
  si_raid :: nat
  si_rtsen :: bool
  si_cts2self :: bool

record wlan_acl_node =
  acl_addr :: mac
  acl_valid :: bool

text \<open>
  The station table: the pool of \<open>NUM_STA\<close> entries, the free queue, and the hash lists,
  whose elements are indices into the pool.
\<close>

record sta_priv =
  sta_buf :: "nat \<Rightarrow> sta_info"
  free_sta_queue :: "nat list"
  sta_hash :: "nat \<Rightarrow> nat list"
  asoc_sta_count :: int
  asoc_list_cnt :: nat
  sp_auth_list :: "nat list"
  sp_auth_list_cnt :: int
  auth_to :: nat
  assoc_to :: nat
  sp_expire_to :: nat
  sta_aid :: "nat \<Rightarrow> nat option"
  sta_dz_bitmap :: u16
  tim_bitmap :: u16
  max_num_sta :: nat
  acl_mode :: nat
  acl_nodes :: "wlan_acl_node list"

section \<open>Security settings and the adapter (\<open>include/rtw_security.h\<close>, \<open>include/drv_types.h\<close>)\<close>

record security_priv =
  sec_PrivacyKeyIndex :: nat
  sec_DefKey :: "nat \<Rightarrow> byte list"
  sec_DefKeylen :: "nat \<Rightarrow> nat"
  sec_GrpKeyid :: nat
  sec_GrpKey :: "nat \<Rightarrow> byte list"
  sec_Grprxmickey :: "nat \<Rightarrow> byte list"
  sec_binstallGrpkey :: bool
  sec_bcheck_grpkey :: bool
  sec_iv_seq :: "nat \<Rightarrow> u64"
  sec_btkip_countermeasure :: bool
  sec_btkip_countermeasure_time :: nat
  sec_dot11AuthAlgrthm :: nat
  sec_busetkipkey :: bool
  sec_sw_decrypt :: bool
  sec_hw_decrypted :: bool
  sec_last_mic_err_time :: u32
  sec_dot11PrivacyAlgrthm :: enc_alg
  sec_dot118021XGrpPrivacy :: enc_alg
  sec_ndisauthtype :: nat
  sec_Grptxmickey :: "nat \<Rightarrow> byte list"
  sec_sw_encrypt :: bool

text \<open>
  What the modelled operations ask of parts that are not modelled: beacon updates, commands
  queued for the command thread, the transmit tasklet, frames the MLME builds, and the scan and
  power-save control.
\<close>

datatype request = UpdateBeaconTim | ChkBmcSleepq | ChkHiQueue | XmitTasklet
  | Deauth mac nat | Nulldata mac | QosNulldata mac nat
  | ScanDeny nat | LpsSpecialPacket | AddbaReq mac nat

text \<open>
  \<open>skb_ok\<close> is the kernel's allocator, one answer per call, \<open>skb_cnt\<close> counts the calls;
  \<open>netif_out\<close> are the packets handed to \<open>rtw_netif_rx\<close> and \<open>xmit_out\<close> those handed to
  \<open>_rtw_xmit_entry\<close>, oldest first; \<open>fw_state\<close> is \<open>mlmepriv.fw_state\<close>; \<open>jiffies\<close>
  and \<open>kernel_HZ\<close> are the kernel's clock and its ticks per second; \<open>cur_bssid\<close> is \<open>get_bssid\<close>;
  \<open>requests\<close> are what was asked of other parts, oldest first; \<open>usb_out\<close> are the transfers given to
  \<open>rtw_write_port\<close>, each with its endpoint.
\<close>

record adapter =
  stapriv :: sta_priv
  xmitpriv :: xmit_priv
  securitypriv :: security_priv
  free_recv_queue :: "recv_frame list"
  free_recvframe_cnt :: int
  uc_swdec_pending_queue :: "recv_frame list"
  rx_drop :: nat
  bDriverStopped :: bool
  bSurpriseRemoved :: bool
  fw_state :: u32
  ht_option :: bool
  mlmeinfo_key_index :: nat
  eeprom_mac :: mac
  jiffies :: u32
  kernel_HZ :: u32
  skb_ok :: "nat \<Rightarrow> bool"
  skb_cnt :: nat
  netif_out :: "byte list list"
  xmit_out :: "byte list list"
  cur_bssid :: mac
  bIsAnyNonBEPkts :: bool
  wifi_spec :: bool
  hiq_filter :: nat
  requests :: "request list"
  qos_option :: bool
  acm_mask :: byte
  cur_wireless_mode :: byte
  cur_bwmode :: nat
  assoc_AP_vendor :: nat
  HT_protection :: nat
  rts_thresh :: nat
  usb_out :: "(nat \<times> byte list) list"

definition FW_LINKED :: u32 where "FW_LINKED = 0x1"
definition WIFI_SLEEP_STATE :: u32 where "WIFI_SLEEP_STATE = 0x4"
definition WIFI_STATION_STATE :: u32 where "WIFI_STATION_STATE = 0x8"
definition WIFI_AP_STATE :: u32 where "WIFI_AP_STATE = 0x10"
definition WIFI_ADHOC_STATE :: u32 where "WIFI_ADHOC_STATE = 0x20"
definition WIFI_ADHOC_MASTER_STATE :: u32 where "WIFI_ADHOC_MASTER_STATE = 0x40"
definition WIFI_UNDER_LINKING :: u32 where "WIFI_UNDER_LINKING = 0x80"
definition WIFI_STA_ALIVE_CHK_STATE :: u32 where "WIFI_STA_ALIVE_CHK_STATE = 0x400"
definition WIFI_SITE_MONITOR :: u32 where "WIFI_SITE_MONITOR = 0x800"
definition WIFI_MP_STATE :: u32 where "WIFI_MP_STATE = 0x10000"

definition check_fwstate :: "adapter \<Rightarrow> u32 \<Rightarrow> bool" where
  "check_fwstate ad state \<longleftrightarrow> fw_state ad AND state \<noteq> 0"

end
