(* ===== verification/StaMgt.thy ===== *)
theory StaMgt
  imports Types
begin

text \<open>
  The station table of \<open>core/rtw_sta_mgt.c\<close>: the pool of \<open>NUM_STA\<close> entries with its free
  queue and its hash lists, allocation, release, lookup, and the access-control list.  The
  spin locks serialise the operations, so each one is a single step here.

  The theory proves the table's well-formedness invariant, and refines the table to a
  partial map from addresses to entries (the locale \<open>station_table\<close>).
\<close>

section \<open>The operations\<close>

definition NUM_STA :: nat where "NUM_STA = 32"

text \<open>\<open>wifi_mac_hash\<close> of \<open>include/sta_info.h\<close>.\<close>

definition wifi_mac_hash :: "mac \<Rightarrow> nat" where
  "wifi_mac_hash m =
     (let x = (ucast (m ! 0) :: u32);
          x = push_bit 2 x XOR ucast (m ! 1);
          x = push_bit 2 x XOR ucast (m ! 2);
          x = push_bit 2 x XOR ucast (m ! 3);
          x = push_bit 2 x XOR ucast (m ! 4);
          x = push_bit 2 x XOR ucast (m ! 5);
          x = x XOR drop_bit 8 x
      in unat (x AND of_nat (NUM_STA - 1)))"

definition empty_servq :: tx_servq where
  "empty_servq = \<lparr>sv_pending = [], sv_qcnt = 0\<rparr>"

definition zero_reorder :: recv_reorder_ctrl where
  "zero_reorder = \<lparr>ro_enable = False, ro_indicate_seq = 0, ro_wend_b = 0, ro_wsize_b = 0,
     ro_pending = [], ro_timer = False\<rparr>"

definition rtw_init_stainfo :: sta_info where
  "rtw_init_stainfo = \<lparr>si_state = 0, si_aid = 0, si_mac_id = 0, si_hwaddr = replicate 6 0,
     si_UncstKey = replicate 16 0, si_sleep_q = [], si_sleepq_len = 0,
     si_vo_q = empty_servq, si_vi_q = empty_servq, si_be_q = empty_servq, si_bk_q = empty_servq,
     si_tid_rxseq = (\<lambda>_. 0), si_rx_iv = (\<lambda>_. replicate 8 0), si_reorder = (\<lambda>_. zero_reorder),
     si_defrag_q = [], si_tkiprxmickey = replicate 16 0,
     si_expire_to = 0, si_sleepq_ac_len = 0, si_qos_option = False, si_qos_info = 0, si_max_sp_len = 0,
     si_uapsd_bk = 0, si_uapsd_be = 0, si_uapsd_vi = 0, si_uapsd_vo = 0, si_has_legacy_ac = False, si_under_exist_checking = False,
     si_pairwise_key_installed = False,
     si_ieee8021x_blocked = False, si_dot118021XPrivacy = NO_PRIVACY, si_UndecoratedSmoothedPWDB = 0,
     si_UndecoratedSmoothedCCK = 0, si_RxMgmtFrameSeqNum = 0,
     si_htpriv = \<lparr>hp_ht_option = False, hp_ampdu_enable = False, hp_bwmode = 0, hp_ch_offset = 0, hp_sgi = False,
       hp_agg_enable_bitmap = 0, hp_candidate_tid_bitmap = 0\<rparr>,
     si_txseq_tid = (\<lambda>_. 0), si_BA_starting_seqctrl = (\<lambda>_. 0), si_dot11txpn = 0, si_tkiptxmickey = replicate 16 0,
     si_raid = 0, si_rtsen = False, si_cts2self = False\<rparr>"

text \<open>
  \<open>_rtw_init_sta_priv\<close>: the argument says whether \<open>rtw_zvmalloc\<close> succeeds, the result is the
  return code and the table.
\<close>

definition rtw_init_sta_priv :: "bool \<Rightarrow> sta_priv \<Rightarrow> nat \<times> sta_priv" where
  "rtw_init_sta_priv alloc_ok s =
     (if \<not> alloc_ok then (FAIL, s)
      else (SUCCESS,
        s\<lparr>sta_buf := (\<lambda>_. rtw_init_stainfo), free_sta_queue := [0..<NUM_STA],
          sta_hash := (\<lambda>_. []), asoc_sta_count := 0, sta_dz_bitmap := 0, tim_bitmap := 0,
          asoc_list_cnt := 0, sp_auth_list := [], sp_auth_list_cnt := 0, auth_to := 3,
          assoc_to := 3, sp_expire_to := 3, max_num_sta := NUM_STA\<rparr>))"

definition alloc_init_reorder :: recv_reorder_ctrl where
  "alloc_init_reorder = \<lparr>ro_enable = False, ro_indicate_seq = 0xffff, ro_wend_b = 0xffff,
     ro_wsize_b = 64, ro_pending = [], ro_timer = False\<rparr>"

text \<open>The entry \<open>rtw_alloc_stainfo\<close> hands out for an address.\<close>

definition alloc_stainfo_entry :: "mac \<Rightarrow> sta_info" where
  "alloc_stainfo_entry hwaddr = rtw_init_stainfo\<lparr>si_hwaddr := hwaddr,
     si_tid_rxseq := (\<lambda>i. if i < 16 then 0xffff else 0),
     si_rx_iv := (\<lambda>_. replicate 8 0),
     si_reorder := (\<lambda>i. if i < 16 then alloc_init_reorder else zero_reorder),
     si_UndecoratedSmoothedPWDB := 0, si_UndecoratedSmoothedCCK := -1,
     si_RxMgmtFrameSeqNum := 0xffff\<rparr>"

definition rtw_alloc_stainfo :: "sta_priv \<Rightarrow> mac \<Rightarrow> nat option \<times> sta_priv" where
  "rtw_alloc_stainfo s hwaddr =
     (case free_sta_queue s of
        [] \<Rightarrow> (None, s)
      | psta # rest \<Rightarrow>
          let s1 = s\<lparr>free_sta_queue := rest,
                     sta_buf := (sta_buf s)(psta := rtw_init_stainfo\<lparr>si_hwaddr := hwaddr\<rparr>)\<rparr>;
              index = wifi_mac_hash hwaddr
          in if index \<ge> NUM_STA then (None, s1)
             else (Some psta,
               s1\<lparr>sta_hash := (sta_hash s1)(index := sta_hash s1 index @ [psta]),
                  asoc_sta_count := asoc_sta_count s1 + 1,
                  sta_buf := (sta_buf s1)(psta := alloc_stainfo_entry hwaddr)\<rparr>))"

text \<open>\<open>rtw_free_xmitframe\<close> and \<open>rtw_free_xmitframe_queue\<close> of \<open>core/rtw_xmit.c\<close>.\<close>

definition rtw_free_xmitframe :: "xmit_priv \<Rightarrow> xmit_frame \<Rightarrow> xmit_priv" where
  "rtw_free_xmitframe xp f =
     (if xf_alloc_addr f then xp
      else if \<not> xf_ext_tag f
      then xp\<lparr>free_xmit_queue := free_xmit_queue xp @ [f],
              free_xmitframe_cnt := free_xmitframe_cnt xp + 1\<rparr>
      else xp\<lparr>free_xframe_ext_queue := free_xframe_ext_queue xp @ [f],
              free_xframe_ext_cnt := free_xframe_ext_cnt xp + 1\<rparr>)"

definition rtw_free_xmitframe_queue :: "xmit_priv \<Rightarrow> xmit_frame list \<Rightarrow> xmit_priv" where
  "rtw_free_xmitframe_queue xp q = foldl rtw_free_xmitframe xp q"

text \<open>One of the four blocks of \<open>rtw_free_stainfo\<close> that flush a service queue.\<close>

definition free_servq :: "nat \<Rightarrow> nat \<Rightarrow> xmit_priv \<Rightarrow> tx_servq \<Rightarrow> xmit_priv \<times> tx_servq" where
  "free_servq p hw xp q =
     (let xp1 = rtw_free_xmitframe_queue xp (sv_pending q)
      in (xp1\<lparr>hwxmits_accnt := (hwxmits_accnt xp1)(hw := hwxmits_accnt xp1 hw - sv_qcnt q),
              hw_sta_queue := (hw_sta_queue xp1)(hw := removeAll p (hw_sta_queue xp1 hw))\<rparr>,
          q\<lparr>sv_pending := [], sv_qcnt := 0\<rparr>))"

text \<open>The reordering queues of a station, emptied into the free receive queue.\<close>

definition free_reorder_frames :: "sta_info \<Rightarrow> recv_frame list" where
  "free_reorder_frames si = concat (map (\<lambda>i. ro_pending (si_reorder si i)) [0..<16])"

definition rtw_free_stainfo :: "adapter \<Rightarrow> nat option \<Rightarrow> nat \<times> adapter" where
  "rtw_free_stainfo ad psta =
     (case psta of None \<Rightarrow> (SUCCESS, ad)
      | Some p \<Rightarrow>
        let s = stapriv ad;
            si = (sta_buf s p)\<lparr>si_state := si_state (sta_buf s p) AND NOT FW_LINKED\<rparr>;
            xp = rtw_free_xmitframe_queue (xmitpriv ad) (si_sleep_q si);
            (xp, vo) = free_servq p 0 xp (si_vo_q si);
            (xp, vi) = free_servq p 1 xp (si_vi_q si);
            (xp, be) = free_servq p 2 xp (si_be_q si);
            (xp, bk) = free_servq p 3 xp (si_bk_q si);
            frames = free_reorder_frames si;
            own_aid = (si_aid si > 0 \<and> sta_aid s (si_aid si - 1) = Some p);
            si' = si\<lparr>si_sleep_q := [], si_sleepq_len := 0, si_vo_q := vo, si_vi_q := vi,
                     si_be_q := be, si_bk_q := bk,
                     si_reorder := (\<lambda>i. if i < 16 then (si_reorder si i)\<lparr>ro_pending := [], ro_timer := False\<rparr>
                                        else si_reorder si i),
                     si_expire_to := 0, si_sleepq_ac_len := 0, si_qos_info := 0,
                     si_max_sp_len := 0, si_uapsd_bk := 0, si_uapsd_be := 0,
                     si_uapsd_vi := 0, si_uapsd_vo := 0, si_has_legacy_ac := False,
                     si_aid := (if own_aid then 0 else si_aid si),
                     si_under_exist_checking := False\<rparr>;
            s' = s\<lparr>sta_buf := (sta_buf s)(p := si'),
                   sta_hash := (\<lambda>i. removeAll p (sta_hash s i)),
                   asoc_sta_count := asoc_sta_count s - 1,
                   sp_auth_list := removeAll p (sp_auth_list s),
                   sp_auth_list_cnt := (if p \<in> set (sp_auth_list s)
                     then sp_auth_list_cnt s - 1 else sp_auth_list_cnt s),
                   sta_dz_bitmap := sta_dz_bitmap s AND NOT (push_bit (si_aid si) 1),
                   tim_bitmap := tim_bitmap s AND NOT (push_bit (si_aid si) 1),
                   sta_aid := (if own_aid then (sta_aid s)(si_aid si - 1 := None) else sta_aid s),
                   free_sta_queue := free_sta_queue s @ [p]\<rparr>
        in (SUCCESS, ad\<lparr>stapriv := s', xmitpriv := xp,
              free_recv_queue := free_recv_queue ad @ frames,
              free_recvframe_cnt := free_recvframe_cnt ad + int (length frames)\<rparr>))"

definition rtw_get_stainfo :: "sta_priv \<Rightarrow> mac \<Rightarrow> nat option" where
  "rtw_get_stainfo s hwaddr =
     (let addr = (if IS_MCAST hwaddr then bc_addr else hwaddr)
      in find (\<lambda>p. si_hwaddr (sta_buf s p) = addr) (sta_hash s (wifi_mac_hash addr)))"

definition rtw_get_bcmc_stainfo :: "sta_priv \<Rightarrow> nat option" where
  "rtw_get_bcmc_stainfo s = rtw_get_stainfo s bc_addr"

text \<open>
  \<open>rtw_free_all_stainfo\<close>: the loop over the hash lists reads the next element before it frees
  the current one, so it visits the elements the list had on entry.
\<close>

definition free_unless :: "nat option \<Rightarrow> adapter \<Rightarrow> nat \<Rightarrow> adapter" where
  "free_unless bcmc ad p = (if bcmc \<noteq> Some p then snd (rtw_free_stainfo ad (Some p)) else ad)"

definition free_hash_list :: "nat option \<Rightarrow> adapter \<Rightarrow> nat \<Rightarrow> adapter" where
  "free_hash_list bcmc ad index = foldl (free_unless bcmc) ad (sta_hash (stapriv ad) index)"

definition rtw_free_all_stainfo :: "adapter \<Rightarrow> adapter" where
  "rtw_free_all_stainfo ad =
     (let bcmc = rtw_get_bcmc_stainfo (stapriv ad)
      in if asoc_sta_count (stapriv ad) = 1 then ad
         else foldl (free_hash_list bcmc) ad [0..<NUM_STA])"

text \<open>
  \<open>rtw_init_bcmc_stainfo\<close>: \<open>res\<close> is set to \<open>_FAIL\<close> when no entry is free, but the function
  returns \<open>_SUCCESS\<close>.
\<close>

definition rtw_init_bcmc_stainfo :: "sta_priv \<Rightarrow> nat \<times> sta_priv" where
  "rtw_init_bcmc_stainfo s =
     (case rtw_alloc_stainfo s bc_addr of
        (None, s1) \<Rightarrow> (SUCCESS, s1)
      | (Some p, s1) \<Rightarrow>
          (SUCCESS, s1\<lparr>sta_buf := (sta_buf s1)(p := (sta_buf s1 p)\<lparr>si_mac_id := 1\<rparr>)\<rparr>))"

definition rtw_access_ctrl :: "sta_priv \<Rightarrow> mac \<Rightarrow> bool" where
  "rtw_access_ctrl s mac_addr =
     (let match = (\<exists>n \<in> set (acl_nodes s). acl_addr n = mac_addr \<and> acl_valid n)
      in if acl_mode s = 1 then \<not> match
         else if acl_mode s = 2 then match
         else True)"

section \<open>Well-formedness\<close>

text \<open>
  Every entry of the pool is on the free queue or on one hash list, once; it is on the list
  of its address's hash; the count is the number of entries in use; and no two entries in
  use have the same address (the callers of \<open>rtw_alloc_stainfo\<close> look the address up first).
\<close>

definition hash_mset :: "sta_priv \<Rightarrow> nat multiset" where
  "hash_mset s = (\<Sum>i<NUM_STA. mset (sta_hash s i))"

definition in_use :: "sta_priv \<Rightarrow> nat \<Rightarrow> bool" where
  "in_use s p \<longleftrightarrow> p \<in># hash_mset s"

definition sta_wf :: "sta_priv \<Rightarrow> bool" where
  "sta_wf s \<longleftrightarrow>
     mset (free_sta_queue s) + hash_mset s = mset [0..<NUM_STA] \<and>
     (\<forall>i p. p \<in> set (sta_hash s i) \<longrightarrow> i < NUM_STA \<and> wifi_mac_hash (si_hwaddr (sta_buf s p)) = i) \<and>
     asoc_sta_count s = int (size (hash_mset s)) \<and>
     (\<forall>p q. in_use s p \<longrightarrow> in_use s q \<longrightarrow>
        si_hwaddr (sta_buf s p) = si_hwaddr (sta_buf s q) \<longrightarrow> p = q)"

definition norm_addr :: "mac \<Rightarrow> mac" where
  "norm_addr a = (if IS_MCAST a then bc_addr else a)"

lemma norm_addr_idem [simp]: "norm_addr (norm_addr a) = norm_addr a"
  by (simp add: norm_addr_def IS_MCAST_def bc_addr_def)

lemma norm_bc_addr [simp]: "norm_addr bc_addr = bc_addr"
  by (simp add: norm_addr_def)

lemma wifi_mac_hash_bound: "wifi_mac_hash m < NUM_STA"
proof -
  have "unat (w AND 31 :: u32) < 32" for w
    using word_and_le1 [of w 31] by (simp add: word_le_nat_alt)
  then show ?thesis by (simp add: wifi_mac_hash_def NUM_STA_def Let_def)
qed

lemma in_mset_sum: "p \<in># (\<Sum>i<n. mset (f i)) \<longleftrightarrow> (\<exists>i < (n::nat). p \<in> set (f i))"
  by (induction n) (auto simp: less_Suc_eq)

lemma in_use_iff: "in_use s p \<longleftrightarrow> (\<exists>i < NUM_STA. p \<in> set (sta_hash s i))"
  by (simp add: in_use_def hash_mset_def in_mset_sum)

lemma get_alt:
  "rtw_get_stainfo s a =
     find (\<lambda>p. si_hwaddr (sta_buf s p) = norm_addr a) (sta_hash s (wifi_mac_hash (norm_addr a)))"
  by (simp add: rtw_get_stainfo_def norm_addr_def Let_def)

lemma sta_wf_hash:
  "sta_wf s \<Longrightarrow> p \<in> set (sta_hash s i) \<Longrightarrow> wifi_mac_hash (si_hwaddr (sta_buf s p)) = i"
  by (simp add: sta_wf_def)

text \<open>In a well-formed table a lookup finds the entry in use with that address.\<close>

lemma get_Some_iff:
  assumes "sta_wf s"
  shows "rtw_get_stainfo s a = Some p \<longleftrightarrow> in_use s p \<and> si_hwaddr (sta_buf s p) = norm_addr a"
proof
  assume "rtw_get_stainfo s a = Some p"
  then show "in_use s p \<and> si_hwaddr (sta_buf s p) = norm_addr a"
    unfolding get_alt find_Some_iff in_use_iff using wifi_mac_hash_bound by (metis nth_mem)
next
  assume p: "in_use s p \<and> si_hwaddr (sta_buf s p) = norm_addr a"
  then have "p \<in> set (sta_hash s (wifi_mac_hash (norm_addr a)))"
    using sta_wf_hash [OF assms] by (metis in_use_iff)
  then obtain q where q: "rtw_get_stainfo s a = Some q"
    using p unfolding get_alt by (cases "find (\<lambda>p. si_hwaddr (sta_buf s p) = norm_addr a)
      (sta_hash s (wifi_mac_hash (norm_addr a)))") (auto simp: find_None_iff)
  then have "in_use s q" "si_hwaddr (sta_buf s q) = norm_addr a"
    unfolding get_alt find_Some_iff in_use_iff using wifi_mac_hash_bound by (metis nth_mem)+
  then show "rtw_get_stainfo s a = Some p" using p q assms by (auto simp: sta_wf_def)
qed

lemma get_None_iff:
  assumes "sta_wf s"
  shows "rtw_get_stainfo s a = None \<longleftrightarrow> (\<forall>p. in_use s p \<longrightarrow> si_hwaddr (sta_buf s p) \<noteq> norm_addr a)"
  using get_Some_iff [OF assms, of a] by (metis option.exhaust option.distinct(1))

lemma option_eqI: "(\<And>v. x = Some v \<longleftrightarrow> y = Some v) \<Longrightarrow> x = y"
  by (metis not_Some_eq)

lemma free_not_in_use:
  assumes "sta_wf s" and "p \<in> set (free_sta_queue s)"
  shows "\<not> in_use s p" and "p < NUM_STA"
proof -
  have m: "mset (free_sta_queue s) + hash_mset s = mset [0..<NUM_STA]"
    using assms by (simp add: sta_wf_def)
  then have "count (mset [0..<NUM_STA]) p = count (mset (free_sta_queue s)) p + count (hash_mset s) p"
    by (metis count_union)
  moreover have "count (mset [0..<NUM_STA]) p \<le> 1"
    by (metis distinct_upt distinct_count_atmost_1 le_numeral_extra(4) zero_le_one)
  moreover have "count (mset (free_sta_queue s)) p \<ge> 1"
    using assms(2) by (metis count_greater_eq_one_iff set_mset_mset)
  ultimately have "count (hash_mset s) p = 0" by linarith
  then show "\<not> in_use s p" by (simp add: in_use_def not_in_iff)
  have "p \<in># mset [0..<NUM_STA]" using m assms(2) by (metis set_mset_mset union_iff)
  then show "p < NUM_STA" by simp
qed

subsection \<open>Initialisation\<close>

lemma hash_mset_empty: "sta_hash s = (\<lambda>_. []) \<Longrightarrow> hash_mset s = {#}"
  by (simp add: hash_mset_def)

lemma rtw_init_sta_priv_wf: "sta_wf (snd (rtw_init_sta_priv True s))"
  by (simp add: rtw_init_sta_priv_def sta_wf_def hash_mset_empty in_use_def)

subsection \<open>Allocation\<close>

lemma alloc_Some:
  assumes "rtw_alloc_stainfo s a = (Some p, s')"
  obtains rest where "free_sta_queue s = p # rest"
    and "s' = s\<lparr>free_sta_queue := rest,
      sta_hash := (sta_hash s)(wifi_mac_hash a := sta_hash s (wifi_mac_hash a) @ [p]),
      asoc_sta_count := asoc_sta_count s + 1,
      sta_buf := (sta_buf s)(p := alloc_stainfo_entry a)\<rparr>"
  using assms wifi_mac_hash_bound [of a]
  by (auto simp: rtw_alloc_stainfo_def Let_def split: list.splits if_splits)

lemma alloc_None:
  assumes "rtw_alloc_stainfo s a = (None, s')"
  shows "free_sta_queue s = []" and "s' = s"
  using assms wifi_mac_hash_bound [of a]
  by (auto simp: rtw_alloc_stainfo_def Let_def split: list.splits if_splits)

lemma hash_mset_insert:
  assumes "i < NUM_STA"
  shows "hash_mset (s\<lparr>sta_hash := (sta_hash s)(i := sta_hash s i @ [p])\<rparr>) = add_mset p (hash_mset s)"
proof -
  have "(\<Sum>j<NUM_STA. mset (((sta_hash s)(i := sta_hash s i @ [p])) j)) =
        (\<Sum>j<NUM_STA. mset (sta_hash s j) + (if i = j then {#p#} else {#}))"
    by (rule sum.cong) auto
  then show ?thesis using assms by (simp add: hash_mset_def sum.distrib)
qed

lemma hash_mset_cong: "sta_hash s = sta_hash t \<Longrightarrow> hash_mset s = hash_mset t"
  by (simp add: hash_mset_def)

lemma alloc_effect:
  assumes "sta_wf s" and "rtw_alloc_stainfo s a = (Some p, s')"
  shows "hash_mset s' = add_mset p (hash_mset s)" and "\<not> in_use s p" and "p < NUM_STA"
    and "si_hwaddr (sta_buf s' p) = a"
    and "\<And>q. q \<noteq> p \<Longrightarrow> sta_buf s' q = sta_buf s q"
    and "\<And>q. in_use s' q \<longleftrightarrow> q = p \<or> in_use s q"
proof -
  obtain rest where f: "free_sta_queue s = p # rest"
    and s': "s' = s\<lparr>free_sta_queue := rest,
      sta_hash := (sta_hash s)(wifi_mac_hash a := sta_hash s (wifi_mac_hash a) @ [p]),
      asoc_sta_count := asoc_sta_count s + 1,
      sta_buf := (sta_buf s)(p := alloc_stainfo_entry a)\<rparr>"
    using assms(2) by (rule alloc_Some)
  show h: "hash_mset s' = add_mset p (hash_mset s)"
    unfolding hash_mset_insert [OF wifi_mac_hash_bound, of s a p, symmetric]
    by (rule hash_mset_cong) (simp add: s')
  show "\<not> in_use s p" "p < NUM_STA" using free_not_in_use [OF assms(1), of p] f by simp_all
  show "si_hwaddr (sta_buf s' p) = a" by (simp add: s' alloc_stainfo_entry_def)
  show "sta_buf s' q = sta_buf s q" if "q \<noteq> p" for q using that by (simp add: s')
  show "in_use s' q \<longleftrightarrow> q = p \<or> in_use s q" for q by (simp add: in_use_def h)
qed

lemma alloc_wf:
  assumes wf: "sta_wf s" and none: "rtw_get_stainfo s a = None" and a: "norm_addr a = a"
  shows "sta_wf (snd (rtw_alloc_stainfo s a))"
proof (cases "fst (rtw_alloc_stainfo s a)")
  case None
  then show ?thesis using wf alloc_None [of s a] by (metis prod.collapse)
next
  case (Some p)
  then obtain s' where al: "rtw_alloc_stainfo s a = (Some p, s')" by (metis prod.collapse)
  note e = alloc_effect [OF wf al]
  obtain rest where f: "free_sta_queue s = p # rest"
    and s': "s' = s\<lparr>free_sta_queue := rest,
      sta_hash := (sta_hash s)(wifi_mac_hash a := sta_hash s (wifi_mac_hash a) @ [p]),
      asoc_sta_count := asoc_sta_count s + 1,
      sta_buf := (sta_buf s)(p := alloc_stainfo_entry a)\<rparr>"
    using al by (rule alloc_Some)
  have lists: "i < NUM_STA \<and> wifi_mac_hash (si_hwaddr (sta_buf s' q)) = i"
    if "q \<in> set (sta_hash s' i)" for i q
  proof (cases "q = p")
    case True
    have "p \<notin> set (sta_hash s i)"
      using e(2) wf that by (auto simp: in_use_iff sta_wf_def)
    then have "i = wifi_mac_hash a" using that True by (auto simp: s' split: if_splits)
    then show ?thesis using True e(4) wifi_mac_hash_bound by simp
  next
    case False
    then have "q \<in> set (sta_hash s i)" using that by (auto simp: s' split: if_splits)
    then show ?thesis using wf False e(5) by (simp add: sta_wf_def)
  qed
  have none': "si_hwaddr (sta_buf s q) \<noteq> a" if "in_use s q" for q
    using none that get_None_iff [OF wf, of a] a by auto
  have "sta_wf s'"
    unfolding sta_wf_def
  proof (intro conjI allI impI)
    show "mset (free_sta_queue s') + hash_mset s' = mset [0..<NUM_STA]"
      using wf e(1) by (simp add: s' f sta_wf_def)
    show "asoc_sta_count s' = int (size (hash_mset s'))"
      using wf e(1) by (simp add: s' sta_wf_def)
  next
    fix q r assume "in_use s' q" "in_use s' r"
      and "si_hwaddr (sta_buf s' q) = si_hwaddr (sta_buf s' r)"
    then show "q = r"
      using e(2,4,5,6) none' wf by (metis sta_wf_def)
  qed (use lists in auto)
  then show ?thesis by (simp add: al)
qed

lemma alloc_lookup:
  assumes wf: "sta_wf s" and none: "rtw_get_stainfo s a = None" and a: "norm_addr a = a"
    and al: "rtw_alloc_stainfo s a = (Some p, s')"
  shows "rtw_get_stainfo s' b = (if norm_addr b = a then Some p else rtw_get_stainfo s b)"
proof (rule option_eqI)
  fix q
  have wf': "sta_wf s'" using alloc_wf [OF wf none a] al by simp
  note e = alloc_effect [OF wf al]
  have "\<not> (in_use s q \<and> si_hwaddr (sta_buf s q) = a)"
    using none get_None_iff [OF wf, of a] a by auto
  then show "rtw_get_stainfo s' b = Some q \<longleftrightarrow>
      (if norm_addr b = a then Some p else rtw_get_stainfo s b) = Some q"
    unfolding get_Some_iff [OF wf'] using e(2,4,5,6) get_Some_iff [OF wf, of b q]
    by (cases "q = p") auto
qed

subsection \<open>Release\<close>

lemma free_servq_parts [simp]:
  "snd (free_servq p hw xp q) = q\<lparr>sv_pending := [], sv_qcnt := 0\<rparr>"
  by (simp add: free_servq_def Let_def)

text \<open>What \<open>rtw_free_stainfo\<close> does to the table.\<close>

lemma free_table:
  fixes ad p
  defines "s \<equiv> stapriv ad" and "s' \<equiv> stapriv (snd (rtw_free_stainfo ad (Some p)))"
  shows "free_sta_queue s' = free_sta_queue s @ [p]"
    and "sta_hash s' = (\<lambda>i. removeAll p (sta_hash s i))"
    and "asoc_sta_count s' = asoc_sta_count s - 1"
    and "si_hwaddr (sta_buf s' q) = si_hwaddr (sta_buf s q)"
    and "q \<noteq> p \<Longrightarrow> sta_buf s' q = sta_buf s q"
  by (simp_all add: s_def s'_def rtw_free_stainfo_def Let_def split_beta)

lemma sum_removeAll:
  "(\<Sum>i<n. mset (removeAll p (f i))) = filter_mset (\<lambda>q. q \<noteq> p) (\<Sum>i<(n::nat). mset (f i))"
proof -
  have "mset (removeAll p xs) = filter_mset (\<lambda>q. q \<noteq> p) (mset xs)" for xs
    by (induction xs) auto
  then show ?thesis by (induction n) simp_all
qed

lemma in_use_once:
  assumes "sta_wf s" and "in_use s p"
  shows "count (hash_mset s) p = 1" and "p < NUM_STA"
proof -
  have m: "mset (free_sta_queue s) + hash_mset s = mset [0..<NUM_STA]"
    using assms by (simp add: sta_wf_def)
  have c: "count (mset [0..<NUM_STA]) p \<le> 1"
    by (metis distinct_upt distinct_count_atmost_1 le_numeral_extra(4) zero_le_one)
  show "count (hash_mset s) p = 1"
  proof -
    have "count (mset (free_sta_queue s)) p + count (hash_mset s) p = count (mset [0..<NUM_STA]) p"
      by (metis m count_union)
    moreover have "count (hash_mset s) p > 0" using assms(2) by (simp add: in_use_def)
    ultimately show ?thesis using c by linarith
  qed
  have "p \<in># mset [0..<NUM_STA]" using m assms(2) by (metis in_use_def union_iff)
  then show "p < NUM_STA" by simp
qed

lemma filter_once:
  assumes "count M p = 1"
  shows "filter_mset (\<lambda>q. q \<noteq> p) M = M - {#p#}"
  using assms by (intro multiset_eqI) auto

lemma free_hash_mset:
  assumes "sta_wf (stapriv ad)" and "in_use (stapriv ad) p"
  shows "hash_mset (stapriv (snd (rtw_free_stainfo ad (Some p)))) = hash_mset (stapriv ad) - {#p#}"
  using filter_once [OF in_use_once(1) [OF assms]]
  by (simp add: hash_mset_def free_table sum_removeAll)

lemma free_in_use:
  assumes "sta_wf (stapriv ad)" and "in_use (stapriv ad) p"
  shows "in_use (stapriv (snd (rtw_free_stainfo ad (Some p)))) q \<longleftrightarrow> q \<noteq> p \<and> in_use (stapriv ad) q"
  by (auto simp: in_use_iff free_table)

lemma free_wf:
  assumes wf: "sta_wf (stapriv ad)" and u: "in_use (stapriv ad) p"
  shows "sta_wf (stapriv (snd (rtw_free_stainfo ad (Some p))))"
  unfolding sta_wf_def
proof (intro conjI allI impI)
  let ?s = "stapriv ad" and ?s' = "stapriv (snd (rtw_free_stainfo ad (Some p)))"
  have p: "p \<in># hash_mset ?s" using u by (simp add: in_use_def)
  have m: "mset (free_sta_queue ?s) + hash_mset ?s = mset [0..<NUM_STA]"
    using wf by (simp add: sta_wf_def)
  show "mset (free_sta_queue ?s') + hash_mset ?s' = mset [0..<NUM_STA]"
    unfolding m [symmetric] using p by (simp add: free_hash_mset [OF wf u] free_table)
  obtain M where "hash_mset ?s = add_mset p M" using p by (metis mset_add)
  then show "asoc_sta_count ?s' = int (size (hash_mset ?s'))"
    using wf by (simp add: free_table free_hash_mset [OF wf u] sta_wf_def)
  show "i < NUM_STA" "wifi_mac_hash (si_hwaddr (sta_buf ?s' q)) = i"
    if "q \<in> set (sta_hash ?s' i)" for i q
    using wf that by (auto simp: free_table sta_wf_def)
  show "q = r" if "in_use ?s' q" "in_use ?s' r"
    "si_hwaddr (sta_buf ?s' q) = si_hwaddr (sta_buf ?s' r)" for q r
    using that wf by (simp add: free_in_use [OF wf u] free_table sta_wf_def)
qed

lemma free_lookup:
  assumes wf: "sta_wf (stapriv ad)" and look: "rtw_get_stainfo (stapriv ad) a = Some p"
  shows "rtw_get_stainfo (stapriv (snd (rtw_free_stainfo ad (Some p)))) b =
         (if norm_addr b = norm_addr a then None else rtw_get_stainfo (stapriv ad) b)"
proof (rule option_eqI)
  fix q
  have u: "in_use (stapriv ad) p" "si_hwaddr (sta_buf (stapriv ad) p) = norm_addr a"
    using get_Some_iff [OF wf] look by auto
  have uniq: "\<And>q. in_use (stapriv ad) q \<Longrightarrow> si_hwaddr (sta_buf (stapriv ad) q) = norm_addr a \<Longrightarrow> q = p"
    using u wf unfolding sta_wf_def by metis
  let ?s' = "stapriv (snd (rtw_free_stainfo ad (Some p)))"
  have new: "rtw_get_stainfo ?s' b = Some q \<longleftrightarrow>
      q \<noteq> p \<and> in_use (stapriv ad) q \<and> si_hwaddr (sta_buf (stapriv ad) q) = norm_addr b"
    unfolding get_Some_iff [OF free_wf [OF wf u(1)]] free_in_use [OF wf u(1)] free_table by blast
  show "rtw_get_stainfo ?s' b = Some q \<longleftrightarrow>
      (if norm_addr b = norm_addr a then None else rtw_get_stainfo (stapriv ad) b) = Some q"
  proof (cases "norm_addr b = norm_addr a")
    case True
    then show ?thesis using uniq [of q] unfolding new by auto
  next
    case False
    then show ?thesis using u(2) unfolding new by (auto simp: get_Some_iff [OF wf])
  qed
qed

section \<open>The contract of the table\<close>

text \<open>
  What the other components rely on: looking up, allocating for an address that is not in
  the table, releasing an entry that is.  A multicast address stands for the broadcast
  entry (\<open>norm_addr\<close>).
\<close>

locale station_table =
  fixes lookup :: "'s \<Rightarrow> mac \<Rightarrow> nat option"
    and alloc :: "'s \<Rightarrow> mac \<Rightarrow> nat option \<times> 's"
    and release :: "'s \<Rightarrow> nat \<Rightarrow> 's"
    and wf :: "'s \<Rightarrow> bool"
  assumes alloc_keeps: "wf s \<Longrightarrow> lookup s a = None \<Longrightarrow> norm_addr a = a \<Longrightarrow> wf (snd (alloc s a))"
    and alloc_finds: "wf s \<Longrightarrow> lookup s a = None \<Longrightarrow> norm_addr a = a \<Longrightarrow>
      alloc s a = (Some p, s') \<Longrightarrow>
      lookup s' b = (if norm_addr b = a then Some p else lookup s b)"
    and alloc_full: "alloc s a = (None, s') \<Longrightarrow> s' = s"
    and lookup_norm: "lookup s (norm_addr b) = lookup s b"
    and release_keeps: "wf s \<Longrightarrow> lookup s a = Some p \<Longrightarrow> wf (release s p)"
    and release_forgets: "wf s \<Longrightarrow> lookup s a = Some p \<Longrightarrow>
      lookup (release s p) b = (if norm_addr b = norm_addr a then None else lookup s b)"
begin

text \<open>Different addresses have different entries.\<close>

lemma lookup_injective:
  assumes "wf s" and "lookup s a = Some p" and "lookup s b = Some p"
  shows "norm_addr a = norm_addr b"
proof (rule ccontr)
  assume n: "norm_addr a \<noteq> norm_addr b"
  have "lookup (release s p) b = None" using release_forgets [OF assms(1,3), of b] by simp
  moreover have "lookup (release s p) b = Some p"
    using release_forgets [OF assms(1,2), of b] n assms(3) by simp
  ultimately show False by simp
qed

text \<open>A fresh entry was nobody's before.\<close>

lemma alloc_fresh:
  assumes "wf s" and "lookup s a = None" and "norm_addr a = a" and "alloc s a = (Some p, s')"
  shows "lookup s b \<noteq> Some p"
proof
  assume b: "lookup s b = Some p"
  have wf': "wf s'" using alloc_keeps [OF assms(1-3)] assms(4) by simp
  show False
  proof (cases "norm_addr b = a")
    case True
    then have "lookup s b = None" using lookup_norm [of s b] assms(2) by simp
    then show False using b by simp
  next
    case False
    have "lookup s' b = Some p" "lookup s' a = Some p"
      using alloc_finds [OF assms, of b] alloc_finds [OF assms, of a] False b assms(3) by simp_all
    then have "norm_addr b = norm_addr a" using lookup_injective [OF wf'] by blast
    with False assms(3) show False by simp
  qed
qed

text \<open>Releasing what was just allocated restores every lookup.\<close>

lemma alloc_release:
  assumes "wf s" and "lookup s a = None" and "norm_addr a = a" and "alloc s a = (Some p, s')"
    and "norm_addr b \<noteq> a"
  shows "lookup (release s' p) b = lookup s b" and "lookup (release s' p) a = None"
proof -
  have wf': "wf s'" using alloc_keeps [OF assms(1-3)] assms(4) by simp
  have la: "lookup s' a = Some p" using alloc_finds [OF assms(1-4), of a] assms(3) by simp
  show "lookup (release s' p) b = lookup s b"
    using release_forgets [OF wf' la, of b] alloc_finds [OF assms(1-4), of b] assms(3,5) by simp
  show "lookup (release s' p) a = None" using release_forgets [OF wf' la, of a] by simp
qed

end

text \<open>The driver's table: the lookups of the adapter's \<open>stapriv\<close>.\<close>

definition adapter_alloc :: "adapter \<Rightarrow> mac \<Rightarrow> nat option \<times> adapter" where
  "adapter_alloc ad a = (let (r, s) = rtw_alloc_stainfo (stapriv ad) a in (r, ad\<lparr>stapriv := s\<rparr>))"

interpretation sta: station_table
  "\<lambda>ad. rtw_get_stainfo (stapriv ad)" adapter_alloc
  "\<lambda>ad p. snd (rtw_free_stainfo ad (Some p))" "\<lambda>ad. sta_wf (stapriv ad)"
proof unfold_locales
  fix ad :: adapter and a b p ad'
  assume wf: "sta_wf (stapriv ad)"
  { assume n: "rtw_get_stainfo (stapriv ad) a = None" "norm_addr a = a"
    show "sta_wf (stapriv (snd (adapter_alloc ad a)))"
      using alloc_wf [OF wf n] by (simp add: adapter_alloc_def split_beta Let_def)
    assume "adapter_alloc ad a = (Some p, ad')"
    then have "rtw_alloc_stainfo (stapriv ad) a = (Some p, stapriv ad')"
      by (auto simp: adapter_alloc_def split: prod.splits)
    then show "rtw_get_stainfo (stapriv ad') b =
        (if norm_addr b = a then Some p else rtw_get_stainfo (stapriv ad) b)"
      by (rule alloc_lookup [OF wf n]) }
  assume look: "rtw_get_stainfo (stapriv ad) a = Some p"
  then show "sta_wf (stapriv (snd (rtw_free_stainfo ad (Some p))))"
    using get_Some_iff [OF wf, of a p] by (blast intro: free_wf [OF wf])
  show "rtw_get_stainfo (stapriv (snd (rtw_free_stainfo ad (Some p)))) b =
      (if norm_addr b = norm_addr a then None else rtw_get_stainfo (stapriv ad) b)"
    by (rule free_lookup [OF wf look])
next
  fix ad ad' :: adapter and a
  assume "adapter_alloc ad a = (None, ad')"
  then show "ad' = ad" using alloc_None(2) [of "stapriv ad" a]
    by (auto simp: adapter_alloc_def split: prod.splits)
next
  show "rtw_get_stainfo (stapriv ad) (norm_addr b) = rtw_get_stainfo (stapriv ad) b"
    for ad :: adapter and b
    by (simp add: get_alt)
qed

section \<open>Properties\<close>

text \<open>A sequence of operations as the driver issues them.\<close>

datatype table_op = Alloc mac | Free mac

fun table_step :: "adapter \<Rightarrow> table_op \<Rightarrow> adapter" where
  "table_step ad (Alloc a) =
     (if rtw_get_stainfo (stapriv ad) a = None then snd (adapter_alloc ad (norm_addr a)) else ad)"
| "table_step ad (Free a) = snd (rtw_free_stainfo ad (rtw_get_stainfo (stapriv ad) a))"

lemma table_step_wf: "sta_wf (stapriv ad) \<Longrightarrow> sta_wf (stapriv (table_step ad opr))"
proof (cases opr)
  case (Alloc a)
  assume wf: "sta_wf (stapriv ad)"
  then show ?thesis
    using sta.alloc_keeps [OF wf, of "norm_addr a"] sta.lookup_norm [of ad a] Alloc by auto
next
  case (Free a)
  assume wf: "sta_wf (stapriv ad)"
  show ?thesis
  proof (cases "rtw_get_stainfo (stapriv ad) a")
    case None
    then show ?thesis using wf Free by (simp add: rtw_free_stainfo_def)
  next
    case (Some p)
    then show ?thesis using sta.release_keeps [OF wf Some] Free by simp
  qed
qed


text \<open>The zeroed memory an adapter starts in (\<open>rtw_zvmalloc\<close>), for the witnesses.\<close>

definition zero_sta_priv :: sta_priv where
  "zero_sta_priv = \<lparr>sta_buf = (\<lambda>_. rtw_init_stainfo), free_sta_queue = [], sta_hash = (\<lambda>_. []),
     asoc_sta_count = 0, asoc_list_cnt = 0, sp_auth_list = [], sp_auth_list_cnt = 0, auth_to = 0,
     assoc_to = 0, sp_expire_to = 0, sta_aid = (\<lambda>_. None), sta_dz_bitmap = 0, tim_bitmap = 0,
     max_num_sta = 0, acl_mode = 0, acl_nodes = []\<rparr>"

definition zero_adapter :: adapter where
  "zero_adapter = \<lparr>stapriv = zero_sta_priv,
     xmitpriv = \<lparr>xp_frag_len = 0, free_xmit_queue = [], free_xmitframe_cnt = 0,
       free_xframe_ext_queue = [], free_xframe_ext_cnt = 0, hwxmits_accnt = (\<lambda>_. 0), hw_sta_queue = (\<lambda>_. []),
       xp_irp_cnt = (\<lambda>_. 0), free_xmitbuf_queue = [], free_xmitbuf_cnt = 0\<rparr>,
     securitypriv = \<lparr>sec_PrivacyKeyIndex = 0, sec_DefKey = (\<lambda>_. replicate 16 0),
       sec_DefKeylen = (\<lambda>_. 0), sec_GrpKeyid = 0, sec_GrpKey = (\<lambda>_. replicate 16 0),
       sec_Grprxmickey = (\<lambda>_. replicate 16 0), sec_binstallGrpkey = False, sec_bcheck_grpkey = False,
       sec_iv_seq = (\<lambda>_. 0), sec_btkip_countermeasure = False,
       sec_btkip_countermeasure_time = 0, sec_dot11AuthAlgrthm = 0, sec_busetkipkey = False,
       sec_sw_decrypt = False, sec_hw_decrypted = False, sec_last_mic_err_time = 0,
       sec_dot11PrivacyAlgrthm = NO_PRIVACY, sec_dot118021XGrpPrivacy = NO_PRIVACY, sec_ndisauthtype = 0,
       sec_Grptxmickey = (\<lambda>_. replicate 16 0), sec_sw_encrypt = False\<rparr>,
     free_recv_queue = [], free_recvframe_cnt = 0, uc_swdec_pending_queue = [], rx_drop = 0,
     bDriverStopped = False, bSurpriseRemoved = False, fw_state = 0, ht_option = False,
     mlmeinfo_key_index = 0, eeprom_mac = replicate 6 0, jiffies = 0, kernel_HZ = 250, skb_ok = (\<lambda>_. True), skb_cnt = 0,
     netif_out = [], xmit_out = [], cur_bssid = replicate 6 0, bIsAnyNonBEPkts = False,
     wifi_spec = False, hiq_filter = 0, requests = [], qos_option = False, acm_mask = 0, cur_wireless_mode = 0,
     cur_bwmode = 0, assoc_AP_vendor = 0, HT_protection = 0, rts_thresh = 2347, usb_out = []\<rparr>"

definition init_sta_table :: sta_priv where
  "init_sta_table = snd (rtw_init_sta_priv True zero_sta_priv)"

definition sample_mac :: mac where "sample_mac = [2, 0, 0, 0, 0, 1]"

definition one_sta_table :: sta_priv where
  "one_sta_table = snd (rtw_alloc_stainfo init_sta_table sample_mac)"

definition one_sta_adapter :: adapter where
  "one_sta_adapter = zero_adapter\<lparr>stapriv := one_sta_table\<rparr>"

lemma init_sta_table_wf: "sta_wf init_sta_table"
  by (simp add: init_sta_table_def rtw_init_sta_priv_wf)

lemma init_sta_table_get: "rtw_get_stainfo init_sta_table a = None"
  by (simp add: init_sta_table_def rtw_init_sta_priv_def rtw_get_stainfo_def Let_def)

lemma init_sta_table_free: "free_sta_queue init_sta_table = [0..<NUM_STA]"
  by (simp add: init_sta_table_def rtw_init_sta_priv_def)

lemma sample_mac_norm: "norm_addr sample_mac = sample_mac"
  by (simp add: norm_addr_def sample_mac_def IS_MCAST_def)

lemma one_sta_table_alloc: "rtw_alloc_stainfo init_sta_table sample_mac = (Some 0, one_sta_table)"
proof -
  have "free_sta_queue init_sta_table = 0 # [1..<NUM_STA]"
    by (simp add: init_sta_table_free NUM_STA_def upt_rec)
  then have "fst (rtw_alloc_stainfo init_sta_table sample_mac) = Some 0"
    using wifi_mac_hash_bound [of sample_mac] by (simp add: rtw_alloc_stainfo_def Let_def)
  then show ?thesis by (simp add: one_sta_table_def prod_eq_iff)
qed

lemma one_sta_table_wf: "sta_wf one_sta_table"
  unfolding one_sta_table_def
  by (rule alloc_wf [OF init_sta_table_wf init_sta_table_get sample_mac_norm])

lemma one_sta_table_get: "rtw_get_stainfo one_sta_table sample_mac = Some 0"
  using alloc_lookup [OF init_sta_table_wf init_sta_table_get sample_mac_norm one_sta_table_alloc,
      of sample_mac]
  by (simp add: sample_mac_norm)

text \<open>
  C5: the table implements a partial map from addresses to entries: releasing the station
  of one address makes exactly that address (and, for the broadcast entry, every multicast
  address) unknown and changes no other lookup.
\<close>

theorem free_stainfo_refines_map_delete:
  assumes "sta_wf (stapriv ad)" and "rtw_get_stainfo (stapriv ad) a = Some p"
  shows "rtw_get_stainfo (stapriv (snd (rtw_free_stainfo ad (Some p)))) b =
         (if norm_addr b = norm_addr a then None else rtw_get_stainfo (stapriv ad) b)"
  using assms by (rule sta.release_forgets)

theorem free_stainfo_refines_map_delete_witness:
  "rtw_get_stainfo (stapriv (snd (rtw_free_stainfo one_sta_adapter (Some 0)))) sample_mac = None"
  using free_stainfo_refines_map_delete [of one_sta_adapter sample_mac 0 sample_mac]
  by (simp add: one_sta_adapter_def one_sta_table_wf one_sta_table_get)

text \<open>
  Allocating for an address that is not in the table, when the pool is not exhausted,
  makes that address known, under an entry no other address has, and changes no other
  lookup.
\<close>

theorem alloc_stainfo_refines_map_update:
  assumes "sta_wf s" and "rtw_get_stainfo s a = None" and "norm_addr a = a"
    and "free_sta_queue s \<noteq> []"
  shows "\<exists>p s'. rtw_alloc_stainfo s a = (Some p, s') \<and> (\<forall>b. rtw_get_stainfo s b \<noteq> Some p) \<and>
           (\<forall>b. rtw_get_stainfo s' b = (if norm_addr b = a then Some p else rtw_get_stainfo s b))"
proof -
  obtain p s' where al: "rtw_alloc_stainfo s a = (Some p, s')"
    using alloc_None(1) [of s a] assms(4) by (metis not_None_eq prod.collapse)
  have "\<not> in_use s p" by (rule alloc_effect(2) [OF assms(1) al])
  then have "rtw_get_stainfo s b \<noteq> Some p" for b by (simp add: get_Some_iff [OF assms(1)])
  then show ?thesis using al alloc_lookup [OF assms(1-3) al] by blast
qed

theorem alloc_stainfo_refines_map_update_witness:
  "\<exists>p s'. rtw_alloc_stainfo init_sta_table sample_mac = (Some p, s') \<and>
     (\<forall>b. rtw_get_stainfo init_sta_table b \<noteq> Some p) \<and>
     (\<forall>b. rtw_get_stainfo s' b =
        (if norm_addr b = sample_mac then Some p else rtw_get_stainfo init_sta_table b))"
  by (rule alloc_stainfo_refines_map_update)
    (simp_all add: init_sta_table_wf init_sta_table_get sample_mac_norm init_sta_table_free
      NUM_STA_def)

section \<open>Frames are not lost\<close>

definition frame_counters_ok :: "adapter \<Rightarrow> bool" where
  "frame_counters_ok ad \<longleftrightarrow>
     free_xmitframe_cnt (xmitpriv ad) = int (length (free_xmit_queue (xmitpriv ad))) \<and>
     free_xframe_ext_cnt (xmitpriv ad) = int (length (free_xframe_ext_queue (xmitpriv ad))) \<and>
     free_recvframe_cnt ad = int (length (free_recv_queue ad))"

definition xmit_pool :: "xmit_priv \<Rightarrow> xmit_frame multiset" where
  "xmit_pool xp = mset (free_xmit_queue xp) + mset (free_xframe_ext_queue xp)"

definition sta_frames :: "sta_info \<Rightarrow> xmit_frame list" where
  "sta_frames si = si_sleep_q si @ sv_pending (si_vo_q si) @ sv_pending (si_vi_q si) @
     sv_pending (si_be_q si) @ sv_pending (si_bk_q si)"

definition xmit_counters_ok :: "xmit_priv \<Rightarrow> bool" where
  "xmit_counters_ok xp \<longleftrightarrow>
     free_xmitframe_cnt xp = int (length (free_xmit_queue xp)) \<and>
     free_xframe_ext_cnt xp = int (length (free_xframe_ext_queue xp))"

lemma free_queue_pool:
  "xmit_pool (rtw_free_xmitframe_queue xp q) = xmit_pool xp + mset (filter (\<lambda>f. \<not> xf_alloc_addr f) q)"
  unfolding rtw_free_xmitframe_queue_def
  by (induction q arbitrary: xp) (simp_all add: rtw_free_xmitframe_def xmit_pool_def)

lemma free_queue_counters:
  "xmit_counters_ok xp \<Longrightarrow> xmit_counters_ok (rtw_free_xmitframe_queue xp q)"
  unfolding rtw_free_xmitframe_queue_def
  by (induction q arbitrary: xp) (simp_all add: rtw_free_xmitframe_def xmit_counters_ok_def)

lemma free_servq_pool:
  "xmit_pool (fst (free_servq p hw xp q)) =
     xmit_pool xp + mset (filter (\<lambda>f. \<not> xf_alloc_addr f) (sv_pending q))"
  using free_queue_pool [of xp "sv_pending q"] by (simp add: free_servq_def xmit_pool_def Let_def)

lemma free_servq_counters:
  "xmit_counters_ok xp \<Longrightarrow> xmit_counters_ok (fst (free_servq p hw xp q))"
  using free_queue_counters [of xp "sv_pending q"]
  by (simp add: free_servq_def xmit_counters_ok_def Let_def)

lemma free_stainfo_frames:
  assumes "frame_counters_ok ad"
  shows "frame_counters_ok (snd (rtw_free_stainfo ad (Some p)))"
    and "free_recv_queue (snd (rtw_free_stainfo ad (Some p))) =
         free_recv_queue ad @ free_reorder_frames (sta_buf (stapriv ad) p)"
    and "xmit_pool (xmitpriv (snd (rtw_free_stainfo ad (Some p)))) =
         xmit_pool (xmitpriv ad) +
         mset (filter (\<lambda>f. \<not> xf_alloc_addr f) (sta_frames (sta_buf (stapriv ad) p)))"
proof -
  have c: "xmit_counters_ok (xmitpriv ad)"
    using assms by (simp add: frame_counters_ok_def xmit_counters_ok_def)
  have "xmit_counters_ok (xmitpriv (snd (rtw_free_stainfo ad (Some p))))"
    using c by (simp add: rtw_free_stainfo_def Let_def split_beta free_queue_counters
        free_servq_counters)
  then show "frame_counters_ok (snd (rtw_free_stainfo ad (Some p)))"
    using assms by (simp add: frame_counters_ok_def xmit_counters_ok_def rtw_free_stainfo_def
        Let_def split_beta)
  show "free_recv_queue (snd (rtw_free_stainfo ad (Some p))) =
        free_recv_queue ad @ free_reorder_frames (sta_buf (stapriv ad) p)"
    by (simp add: rtw_free_stainfo_def Let_def split_beta free_reorder_frames_def)
  show "xmit_pool (xmitpriv (snd (rtw_free_stainfo ad (Some p)))) =
        xmit_pool (xmitpriv ad) +
        mset (filter (\<lambda>f. \<not> xf_alloc_addr f) (sta_frames (sta_buf (stapriv ad) p)))"
    by (simp add: rtw_free_stainfo_def Let_def split_beta free_servq_pool free_queue_pool
        sta_frames_def)
qed

text \<open>
  Releasing a station returns its frames: the receive frames of its sixteen reordering
  queues go to the free receive queue, the pooled transmit frames of its sleep queue and
  its four service queues to the transmit pools, nothing else is added, and the counters of
  the three pools stay equal to their lengths.
\<close>

theorem free_stainfo_returns_frames:
  assumes "frame_counters_ok ad"
  shows "frame_counters_ok (snd (rtw_free_stainfo ad (Some p))) \<and>
    free_recv_queue (snd (rtw_free_stainfo ad (Some p))) =
      free_recv_queue ad @ free_reorder_frames (sta_buf (stapriv ad) p) \<and>
    xmit_pool (xmitpriv (snd (rtw_free_stainfo ad (Some p)))) =
      xmit_pool (xmitpriv ad) +
      mset (filter (\<lambda>f. \<not> xf_alloc_addr f) (sta_frames (sta_buf (stapriv ad) p)))"
  using free_stainfo_frames [OF assms, of p] by blast

theorem free_stainfo_returns_frames_witness:
  "frame_counters_ok (snd (rtw_free_stainfo one_sta_adapter (Some 0)))"
  using free_stainfo_returns_frames [of one_sta_adapter 0]
  by (simp add: frame_counters_ok_def one_sta_adapter_def zero_adapter_def)

text \<open>
  \<open>rtw_init_bcmc_stainfo\<close> reports success although no entry could be allocated: with
  the pool exhausted it returns \<open>_SUCCESS\<close> and the broadcast entry is not in the table.
\<close>

theorem init_bcmc_stainfo_hides_failure:
  assumes "free_sta_queue s = []"
  shows "rtw_init_bcmc_stainfo s = (SUCCESS, s)"
  using assms by (simp add: rtw_init_bcmc_stainfo_def rtw_alloc_stainfo_def)

theorem init_bcmc_stainfo_hides_failure_witness:
  "rtw_init_bcmc_stainfo zero_sta_priv = (SUCCESS, zero_sta_priv) \<and>
   rtw_get_bcmc_stainfo zero_sta_priv = None"
  using init_bcmc_stainfo_hides_failure [of zero_sta_priv]
  by (simp add: zero_sta_priv_def rtw_get_bcmc_stainfo_def rtw_get_stainfo_def Let_def)

end
