(* ===== verification/Arc4.thy ===== *)
theory Arc4
  imports Prelude
begin

text \<open>
  The ARC4 stream cipher of \<open>core/rtw_security.c\<close> (\<open>struct arc4context\<close>, \<open>arcfour_init\<close>,
  \<open>arcfour_byte\<close>, \<open>arcfour_encrypt\<close>), used by the WEP and the TKIP frames.  The theory
  proves that the state stays a permutation of the 256 byte values, and states what the
  frame code relies on as the locale \<open>stream_cipher\<close>: the output is the input xored with a
  keystream that depends on the context only, and the context left behind continues it.
\<close>

section \<open>The context and its operations\<close>

record arc4context =
  arc4_x :: u32
  arc4_y :: u32
  arc4_state :: "byte list"

text \<open>
  One round of the second loop of \<open>arcfour_init\<close>: the loop's variables are the key index,
  the state index and the state.
\<close>

definition arcfour_init_step ::
  "byte list \<Rightarrow> nat \<Rightarrow> nat \<Rightarrow> nat \<times> u32 \<times> byte list \<Rightarrow> nat \<times> u32 \<times> byte list" where
  "arcfour_init_step key key_len counter = (\<lambda>(keyindex, stateindex, state).
     let t = state ! counter;
         stateindex' = (stateindex + ucast (key ! keyindex) + ucast t) AND 0xff;
         u = state ! unat stateindex';
         state' = state[unat stateindex' := t, counter := u];
         keyindex' = keyindex + 1
     in (if keyindex' \<ge> key_len then 0 else keyindex', stateindex', state'))"

definition arcfour_init :: "byte list \<Rightarrow> nat \<Rightarrow> arc4context" where
  "arcfour_init key key_len =
     (let st0 = map of_nat [0..<256];
          (_, _, st) = fold (arcfour_init_step key key_len) [0..<256] (0, 0, st0)
      in \<lparr>arc4_x = 0, arc4_y = 0, arc4_state = st\<rparr>)"

definition arcfour_byte :: "arc4context \<Rightarrow> byte \<times> arc4context" where
  "arcfour_byte ctx =
     (let state = arc4_state ctx;
          x = (arc4_x ctx + 1) AND 0xff;
          sx = state ! unat x;
          y = (ucast sx + arc4_y ctx) AND 0xff;
          sy = state ! unat y;
          state' = state[unat y := sx, unat x := sy]
      in (state' ! unat ((ucast sx + ucast sy :: u32) AND 0xff),
          ctx\<lparr>arc4_x := x, arc4_y := y, arc4_state := state'\<rparr>))"

fun arcfour_encrypt :: "arc4context \<Rightarrow> byte list \<Rightarrow> byte list \<times> arc4context" where
  "arcfour_encrypt ctx [] = ([], ctx)"
| "arcfour_encrypt ctx (b # src) =
     (let (k, ctx1) = arcfour_byte ctx;
          (dest, ctx2) = arcfour_encrypt ctx1 src
      in ((b XOR k) # dest, ctx2))"

section \<open>The state is a permutation of the bytes\<close>

definition arc4_perm :: "byte list \<Rightarrow> bool" where
  "arc4_perm st \<longleftrightarrow> mset st = mset (map of_nat [0..<256])"

definition arc4_wf :: "arc4context \<Rightarrow> bool" where
  "arc4_wf ctx \<longleftrightarrow> arc4_x ctx \<le> 0xff \<and> arc4_y ctx \<le> 0xff \<and> arc4_perm (arc4_state ctx)"

lemma arc4_perm_length: "arc4_perm st \<Longrightarrow> length st = 256"
  by (metis arc4_perm_def length_map length_upt minus_nat.diff_0 mset_eq_length)

lemma and_ff_le: "(w :: u32) AND 0xff \<le> 0xff"
  by (rule word_and_le1)

lemma unat_and_ff [simp]: "unat ((w :: u32) AND 0xff) < 256"
proof -
  have "unat (w AND 0xff) \<le> unat (0xff :: u32)"
    using and_ff_le by (simp add: word_le_nat_alt)
  then show ?thesis by simp
qed

lemma arc4_perm_swap:
  assumes "arc4_perm st" and "i < 256" and "j < 256"
  shows "arc4_perm (st[j := st ! i, i := st ! j])"
  using assms swap_mset [of i st j] by (simp add: arc4_perm_def arc4_perm_length [OF assms(1)])

lemma arcfour_init_step_perm:
  assumes "arc4_perm st" and "counter < 256"
  shows "arc4_perm (snd (snd (arcfour_init_step key key_len counter (k, j, st))))"
  using assms arc4_perm_swap [of st counter]
  by (simp add: arcfour_init_step_def Let_def)

lemma arcfour_init_fold_perm:
  assumes "arc4_perm (snd (snd s))" and "\<forall>c \<in> set cs. c < 256"
  shows "arc4_perm (snd (snd (fold (arcfour_init_step key key_len) cs s)))"
  using assms
proof (induction cs arbitrary: s)
  case (Cons c cs)
  have "arc4_perm (snd (snd (arcfour_init_step key key_len c s)))"
    using Cons.prems by (cases s) (simp add: arcfour_init_step_perm)
  then show ?case using Cons by simp
qed simp

lemma arcfour_init_wf: "arc4_wf (arcfour_init key key_len)"
proof -
  let ?s = "fold (arcfour_init_step key key_len) [0..<256] (0, 0, map of_nat [0..<256])"
  have "arc4_perm (snd (snd ?s))"
    by (rule arcfour_init_fold_perm) (simp_all add: arc4_perm_def)
  then show ?thesis
    by (simp add: arcfour_init_def arc4_wf_def Let_def split_beta)
qed

lemma arcfour_byte_wf: "arc4_wf ctx \<Longrightarrow> arc4_wf (snd (arcfour_byte ctx))"
  by (simp add: arcfour_byte_def arc4_wf_def Let_def and_ff_le arc4_perm_swap)

lemma arcfour_encrypt_wf: "arc4_wf ctx \<Longrightarrow> arc4_wf (snd (arcfour_encrypt ctx src))"
proof (induction ctx src rule: arcfour_encrypt.induct)
  case (2 ctx b src)
  have "arc4_wf (snd (arcfour_byte ctx))" using 2 by (simp add: arcfour_byte_wf)
  then show ?case using "2.IH" by (auto split: prod.splits)
qed simp

section \<open>The contract the frame code relies on\<close>

text \<open>
  The keystream of a context: what \<open>arcfour_encrypt\<close> xors the data with.
\<close>

fun arcfour_keystream :: "arc4context \<Rightarrow> nat \<Rightarrow> byte list" where
  "arcfour_keystream ctx 0 = []"
| "arcfour_keystream ctx (Suc n) =
     (let (k, ctx1) = arcfour_byte ctx in k # arcfour_keystream ctx1 n)"

locale stream_cipher =
  fixes crypt :: "'ctx \<Rightarrow> byte list \<Rightarrow> byte list \<times> 'ctx"
    and stream :: "'ctx \<Rightarrow> nat \<Rightarrow> byte list"
  assumes stream_length: "length (stream ctx n) = n"
    and crypt_xor: "fst (crypt ctx src) = xor_bytes src (stream ctx (length src))"
    and crypt_append:
      "crypt ctx (a @ b) =
         (let (c, ctx1) = crypt ctx a; (d, ctx2) = crypt ctx1 b in (c @ d, ctx2))"
begin

lemma crypt_length: "length (fst (crypt ctx src)) = length src"
  by (simp add: crypt_xor stream_length len_simps)

text \<open>Running the cipher twice from the same context gives the input back.\<close>

lemma crypt_involution: "fst (crypt ctx (fst (crypt ctx src))) = src"
  by (simp add: crypt_xor stream_length len_simps xor_bytes_cancel)

text \<open>Encrypting in two pieces, then decrypting in one.\<close>

lemma crypt_pieces:
  shows "fst (crypt ctx (fst (crypt ctx a) @ fst (crypt (snd (crypt ctx a)) b))) = a @ b"
proof -
  have "fst (crypt ctx (a @ b)) = fst (crypt ctx a) @ fst (crypt (snd (crypt ctx a)) b)"
    by (simp add: crypt_append split_beta Let_def)
  then show ?thesis using crypt_involution [of ctx "a @ b"] by simp
qed

end

lemma length_arcfour_keystream: "length (arcfour_keystream ctx n) = n"
  by (induction ctx n rule: arcfour_keystream.induct) (auto split: prod.splits)

lemma arcfour_encrypt_xor:
  "fst (arcfour_encrypt ctx src) = xor_bytes src (arcfour_keystream ctx (length src))"
  by (induction ctx src rule: arcfour_encrypt.induct) (auto split: prod.splits)

lemma arcfour_encrypt_append:
  "arcfour_encrypt ctx (a @ b) =
     (let (c, ctx1) = arcfour_encrypt ctx a; (d, ctx2) = arcfour_encrypt ctx1 b in (c @ d, ctx2))"
  by (induction ctx a rule: arcfour_encrypt.induct) (auto split: prod.splits)

interpretation arc4: stream_cipher arcfour_encrypt arcfour_keystream
  by unfold_locales
    (rule length_arcfour_keystream arcfour_encrypt_xor arcfour_encrypt_append)+

section \<open>Properties\<close>

text \<open>
  Whatever the key, the ARC4 state is a permutation of the 256 byte values after
  \<open>arcfour_init\<close> and after any amount of data has been encrypted, and the indices \<open>x\<close> and
  \<open>y\<close> stay below 256: every access to \<open>state\<close> is inside the array.
\<close>

theorem arcfour_state_permutation:
  "arc4_wf (snd (arcfour_encrypt (arcfour_init key key_len) src))"
  by (rule arcfour_encrypt_wf [OF arcfour_init_wf])

text \<open>
  A text encrypted in two pieces with one context (as the frame code does with the
  payload and the ICV) is decrypted by one pass with a fresh context for the same key.
\<close>

theorem arcfour_roundtrip:
  "fst (arcfour_encrypt (arcfour_init key key_len)
     (fst (arcfour_encrypt (arcfour_init key key_len) a) @
      fst (arcfour_encrypt (snd (arcfour_encrypt (arcfour_init key key_len) a)) b))) = a @ b"
  by (rule arc4.crypt_pieces)

end
