(* ===== verification/Crc32.thy ===== *)
theory Crc32
  imports Prelude
begin

text \<open>
  The CRC-32 of \<open>core/rtw_security.c\<close> (\<open>crc32_reverseBit\<close>, \<open>crc32_init\<close>, \<open>getcrc32\<close>): the
  lookup table is the one \<open>crc32_init\<close> builds at run time, with the byte swap through
  the pointers \<open>p\<close> and \<open>p1\<close> on a little-endian machine.  The theory proves that the
  table-driven loop computes the CRC defined bit by bit.
\<close>

section \<open>The code\<close>

definition CRC32_POLY :: u32 where
  "CRC32_POLY = 0x04c11db7"

definition crc32_reverseBit :: "byte \<Rightarrow> byte" where
  "crc32_reverseBit data =
     (push_bit 7 data AND 0x80) OR (push_bit 5 data AND 0x40) OR (push_bit 3 data AND 0x20) OR
     (push_bit 1 data AND 0x10) OR (drop_bit 1 data AND 0x08) OR (drop_bit 3 data AND 0x04) OR
     (drop_bit 5 data AND 0x02) OR (drop_bit 7 data AND 0x01)"

text \<open>The inner loop of \<open>crc32_init\<close>: \<open>j\<close> from 8 down to 1.\<close>

fun crc32_shift :: "nat \<Rightarrow> u32 \<Rightarrow> u32" where
  "crc32_shift 0 c = c"
| "crc32_shift (Suc j) c =
     crc32_shift j (if c AND 0x80000000 \<noteq> 0 then push_bit 1 c XOR CRC32_POLY else push_bit 1 c)"

definition crc32_table_entry :: "nat \<Rightarrow> u32" where
  "crc32_table_entry i =
     (let k = crc32_reverseBit (of_nat i);
          c = crc32_shift 8 (push_bit 24 (ucast k));
          p = le32_bytes c
      in push_bit 24 (ucast (crc32_reverseBit (p ! 0))) OR
         push_bit 16 (ucast (crc32_reverseBit (p ! 1))) OR
         push_bit 8 (ucast (crc32_reverseBit (p ! 2))) OR
         ucast (crc32_reverseBit (p ! 3)))"

definition crc32_table :: "u32 list" where
  "crc32_table = map crc32_table_entry [0..<256]"

definition crc32_update :: "u32 \<Rightarrow> byte \<Rightarrow> u32" where
  "crc32_update crc b = (crc32_table ! unat ((crc XOR ucast b) AND 0xff)) XOR drop_bit 8 crc"

definition getcrc32 :: "byte list \<Rightarrow> u32" where
  "getcrc32 buf = NOT (foldl crc32_update 0xffffffff buf)"

section \<open>The CRC bit by bit\<close>

text \<open>
  The reflected register of the CRC-32 specification: one bit of the message is shifted in
  at the low end, and the reversed polynomial is subtracted when the bit shifted out is 1.
\<close>

definition crc_bit :: "u32 \<Rightarrow> u32" where
  "crc_bit c = (if bit c 0 then drop_bit 1 c XOR 0xedb88320 else drop_bit 1 c)"

definition crc_byte_spec :: "u32 \<Rightarrow> byte \<Rightarrow> u32" where
  "crc_byte_spec crc b = (crc_bit ^^ 8) (crc XOR ucast b)"

definition crc32_spec :: "byte list \<Rightarrow> u32" where
  "crc32_spec buf = NOT (foldl crc_byte_spec 0xffffffff buf)"

lemma crc_bit_xor: "crc_bit (a XOR b) = crc_bit a XOR crc_bit b"
  by (auto simp: crc_bit_def bit_xor_iff ac_simps)

lemma crc_bits_xor: "(crc_bit ^^ n) (a XOR b) = (crc_bit ^^ n) a XOR (crc_bit ^^ n) b"
  by (induction n) (simp_all add: crc_bit_xor)

lemma crc_bits_high:
  assumes "\<forall>k < n. \<not> bit c k"
  shows "(crc_bit ^^ n) c = drop_bit n c"
  using assms
proof (induction n)
  case (Suc n)
  then have "(crc_bit ^^ n) c = drop_bit n c" by simp
  then show ?case using Suc.prems by (simp add: crc_bit_def [of "drop_bit n c"] bit_drop_bit_eq)
qed simp

lemma ff_mask: "(0xff :: u32) = mask 8"
  by (simp add: mask_eq_exp_minus_1)

lemma word_split_low8: "(c :: u32) = (c AND 0xff) XOR (c AND NOT 0xff)"
  by (rule bit_word_eqI) (auto simp: bit_simps)

lemma crc_bits_8: "(crc_bit ^^ 8) c = (crc_bit ^^ 8) (c AND 0xff) XOR drop_bit 8 c"
proof -
  have "(crc_bit ^^ 8) c = (crc_bit ^^ 8) (c AND 0xff) XOR (crc_bit ^^ 8) (c AND NOT 0xff)"
    by (metis crc_bits_xor word_split_low8)
  also have "(crc_bit ^^ 8) (c AND NOT 0xff) = drop_bit 8 (c AND NOT 0xff)"
    by (rule crc_bits_high) (auto simp: ff_mask bit_simps)
  also have "\<dots> = drop_bit 8 c"
    by (rule bit_word_eqI) (auto simp: ff_mask bit_simps dest: bit_imp_le_length)
  finally show ?thesis .
qed


section \<open>Bit reversal turns the table's shifts into the specification's\<close>

lemma less_8_cases:
  assumes "k < (8::nat)" and "P 0" "P 1" "P 2" "P 3" "P 4" "P 5" "P 6" "P 7"
  shows "P k"
  using assms by (auto simp: less_Suc_eq numeral_eq_Suc)

lemma bit_reverseBit: "bit (crc32_reverseBit d) k \<longleftrightarrow> k < 8 \<and> bit d (7 - k)"
proof (cases "k < 8")
  case True
  then show ?thesis
    by (rule less_8_cases) (simp_all add: crc32_reverseBit_def bit_simps bit_numeral_rec del: push_bit_Suc)
next
  case False
  then show ?thesis using bit_byte_ge by blast
qed

definition rev32 :: "u32 \<Rightarrow> u32" where
  "rev32 c =
     push_bit 24 (ucast (crc32_reverseBit (ucast c))) OR
     push_bit 16 (ucast (crc32_reverseBit (ucast (drop_bit 8 c)))) OR
     push_bit 8 (ucast (crc32_reverseBit (ucast (drop_bit 16 c)))) OR
     ucast (crc32_reverseBit (ucast (drop_bit 24 c)))"

lemma bit_rev32: "bit (rev32 c) k \<longleftrightarrow> k < 32 \<and> bit c (31 - k)"
proof (cases "k < 32")
  case True
  then consider "k < 8" | "8 \<le> k" "k < 16" | "16 \<le> k" "k < 24" | "24 \<le> k" "k < 32" by linarith
  then show ?thesis
    by cases (auto simp: rev32_def bit_simps bit_reverseBit add.commute)
next
  case False
  then show ?thesis using bit_imp_le_length [of "rev32 c" k] by auto
qed

lemma rev32_xor: "rev32 (a XOR b) = rev32 a XOR rev32 b"
  by (rule bit_word_eqI) (auto simp: bit_rev32 bit_xor_iff)

lemma rev32_poly: "rev32 CRC32_POLY = 0xedb88320"
  by (simp add: CRC32_POLY_def rev32_def crc32_reverseBit_def)

lemma rev32_push: "rev32 (push_bit 1 c) = drop_bit 1 (rev32 c)"
  by (rule bit_word_eqI) (auto simp: bit_rev32 bit_simps simp del: push_bit_Suc)

lemma top_bit: "(c :: u32) AND 0x80000000 \<noteq> 0 \<longleftrightarrow> bit c 31"
  using and_exp_eq_0_iff_not_bit [of c 31] by simp

lemma rev32_shift1:
  "rev32 (if c AND 0x80000000 \<noteq> 0 then push_bit 1 c XOR CRC32_POLY else push_bit 1 c) =
   crc_bit (rev32 c)"
  unfolding top_bit crc_bit_def
  by (simp only: rev32_xor rev32_poly rev32_push bit_rev32 if_distrib) simp

lemma rev32_shift: "rev32 (crc32_shift n c) = (crc_bit ^^ n) (rev32 c)"
  by (induction n c rule: crc32_shift.induct)
    (simp_all add: rev32_shift1 funpow_Suc_right del: funpow.simps(2) split del: if_split)

lemma rev32_byte: "rev32 (push_bit 24 (ucast (crc32_reverseBit b))) = ucast b"
proof (rule bit_word_eqI)
  fix n assume "n < LENGTH(32)"
  then show "bit (rev32 (push_bit 24 (ucast (crc32_reverseBit b)))) n \<longleftrightarrow> bit (ucast b :: u32) n"
    using bit_byte_ge [of b n]
    by (cases "n < 8") (auto simp: bit_rev32 bit_simps bit_reverseBit)
qed

lemma crc32_table_entry: "crc32_table_entry i = (crc_bit ^^ 8) (ucast (of_nat i :: byte))"
proof -
  have "crc32_table_entry i = rev32 (crc32_shift 8 (push_bit 24 (ucast (crc32_reverseBit (of_nat i)))))"
    by (simp only: crc32_table_entry_def rev32_def Let_def le32_bytes_def nth_Cons_0 nth_Cons_numeral
        list.size) (simp add: nth_Cons')
  then show ?thesis by (simp add: rev32_shift rev32_byte)
qed

lemma crc32_table_lookup:
  "crc32_table ! unat ((w :: u32) AND 0xff) = (crc_bit ^^ 8) (w AND 0xff)"
proof -
  have u: "unat (w AND 0xff) < 256"
    using word_and_le1 [of w "0xff"] by (simp add: word_le_nat_alt)
  have "ucast (of_nat (unat (w AND 0xff)) :: byte) = w AND 0xff"
    by (rule bit_word_eqI) (auto simp: ff_mask bit_simps)
  then show ?thesis using u by (simp add: crc32_table_def crc32_table_entry)
qed

lemma crc32_update_spec: "crc32_update crc b = crc_byte_spec crc b"
proof -
  let ?w = "crc XOR ucast b"
  have "drop_bit 8 ?w = drop_bit 8 crc"
    by (rule bit_word_eqI) (auto simp: bit_simps dest: bit_byte_ge)
  then show ?thesis
    by (simp add: crc32_update_def crc_byte_spec_def crc32_table_lookup crc_bits_8 [of ?w])
qed

lemma getcrc32_spec: "getcrc32 buf = crc32_spec buf"
proof -
  have "crc32_update = crc_byte_spec" by (intro ext) (rule crc32_update_spec)
  then show ?thesis by (simp add: getcrc32_def crc32_spec_def)
qed

text \<open>
  C8: the table-driven \<open>getcrc32\<close> computes the CRC-32 of its buffer as the specification
  defines it, bit by bit.
\<close>

theorem getcrc32_correct: "getcrc32 buf = crc32_spec buf"
  by (rule getcrc32_spec)

section \<open>What the checksum detects\<close>

lemma crc_bit_top: "bit (crc_bit c) 31 \<longleftrightarrow> bit c 0"
  using bit_imp_le_length [of c 32] by (auto simp: crc_bit_def bit_simps)

lemma crc_bit_inj: "crc_bit a = crc_bit b \<Longrightarrow> a = b"
proof -
  assume eq: "crc_bit a = crc_bit b"
  then have b0: "bit a 0 \<longleftrightarrow> bit b 0" by (metis crc_bit_top)
  with eq have d: "drop_bit 1 a = drop_bit 1 b"
    by (metis crc_bit_def word_xor_cancel(1))
  show "a = b"
  proof (rule bit_word_eqI)
    fix n assume "n < LENGTH(32)"
    show "bit a n \<longleftrightarrow> bit b n"
    proof (cases n)
      case 0 then show ?thesis using b0 by simp
    next
      case (Suc m) then show ?thesis
        using arg_cong [OF d, of "\<lambda>w. bit w m"] by (simp add: bit_drop_bit_eq)
    qed
  qed
qed

lemma crc_bits_inj: "(crc_bit ^^ n) a = (crc_bit ^^ n) b \<Longrightarrow> a = b"
  by (induction n) (auto dest: crc_bit_inj)

lemma xor_left_cancel: "x XOR a = x XOR b \<longleftrightarrow> a = (b :: 'a::len word)"
  by (metis word_xor_cancel(2))

lemma crc_fold_inj: "foldl crc_byte_spec c buf = foldl crc_byte_spec d buf \<Longrightarrow> c = d"
proof (induction buf arbitrary: c d)
  case (Cons b buf)
  then have "crc_byte_spec c b = crc_byte_spec d b" by simp
  then show ?case
    by (metis crc_byte_spec_def crc_bits_inj word_xor_cancel(1))
qed simp

lemma getcrc32_byte_error:
  assumes "x \<noteq> y"
  shows "getcrc32 (pre @ x # post) \<noteq> getcrc32 (pre @ y # post)"
proof
  assume "getcrc32 (pre @ x # post) = getcrc32 (pre @ y # post)"
  then have "crc_byte_spec (foldl crc_byte_spec 0xffffffff pre) x =
             crc_byte_spec (foldl crc_byte_spec 0xffffffff pre) y"
    by (auto simp: getcrc32_spec crc32_spec_def dest: crc_fold_inj)
  then have "(ucast x :: u32) = ucast y"
    unfolding crc_byte_spec_def by (auto dest!: crc_bits_inj simp: xor_left_cancel)
  then have "x = y" by (rule ucast_byte_inj)
  with assms show False by simp
qed

text \<open>
  Two messages that differ in one byte only never have the same CRC: the ICV detects
  every error confined to a byte, at whatever position.
\<close>

theorem getcrc32_detects_byte_error:
  assumes "x \<noteq> y"
  shows "getcrc32 (pre @ x # post) \<noteq> getcrc32 (pre @ y # post)"
  using assms by (rule getcrc32_byte_error)

theorem getcrc32_detects_byte_error_witness:
  "getcrc32 ([1, 2] @ 3 # [4]) \<noteq> getcrc32 ([1, 2] @ 0x43 # [4 :: byte])"
  by (rule getcrc32_detects_byte_error) simp

end
