(* ===== verification/Fragments.thy ===== *)
theory Fragments
  imports Types
begin

text \<open>
  The loop over the fragments of a transmit frame that \<open>rtw_wep_encrypt\<close>, \<open>rtw_tkip_encrypt\<close>
  and \<open>rtw_aes_encrypt\<close> of \<open>core/rtw_security.c\<close> share: where the fragments start in the
  transmit buffer, how long each one's payload is, and which calls are made on them.  What a
  cipher promises for one fragment is the locale \<open>fragment_cipher\<close>; inside it the loop is
  proved to protect every fragment so that the receiver's function undoes it.
\<close>

section \<open>The transmit buffer\<close>

definition TXDESC_SIZE :: nat where "TXDESC_SIZE = 32"
definition PACKET_OFFSET_SZ :: nat where "PACKET_OFFSET_SZ = 8"

text \<open>\<open>RND4\<close> of \<open>include/osdep_service.h\<close>; it is applied to an address, not to an offset.\<close>

definition RND4 :: "nat \<Rightarrow> nat" where
  "RND4 x = (x div 4 + (if x mod 4 = 0 then 0 else 1)) * 4"

text \<open>A transmit buffer: its address and its content.\<close>

record xmit_buf =
  xb_addr :: nat
  xb_mem :: "byte list"

definition first_pframe :: "nat \<Rightarrow> nat" where
  "first_pframe pkt_offset = TXDESC_SIZE + pkt_offset * PACKET_OFFSET_SZ"

definition next_pframe :: "nat \<Rightarrow> nat \<Rightarrow> nat \<Rightarrow> nat" where
  "next_pframe addr frag_len pframe = RND4 (addr + (pframe + frag_len)) - addr"

text \<open>The payload lengths, as the signed \<open>length\<close> of the code.\<close>

definition last_frag_length :: "pkt_attrib \<Rightarrow> int" where
  "last_frag_length px =
     int (px_last_txcmdsz px) - int (px_hdrlen px) - int (px_iv_len px) - int (px_icv_len px)"

definition mid_frag_length :: "nat \<Rightarrow> pkt_attrib \<Rightarrow> int" where
  "mid_frag_length frag_len px =
     int frag_len - int (px_hdrlen px) - int (px_iv_len px) - int (px_icv_len px)"

text \<open>
  The loop: \<open>n\<close> fragments are left, so \<open>n = 1\<close> is \<open>curfragnum + 1 == nr_frags\<close>.  \<open>body\<close>
  protects the fragment at an offset, given the length of its payload.
\<close>

fun frags_loop ::
  "(nat \<Rightarrow> int \<Rightarrow> byte list \<Rightarrow> byte list option) \<Rightarrow> nat \<Rightarrow> nat \<Rightarrow> pkt_attrib \<Rightarrow> nat \<Rightarrow> nat \<Rightarrow>
   byte list \<Rightarrow> byte list option" where
  "frags_loop body addr frag_len px 0 pframe m = Some m"
| "frags_loop body addr frag_len px (Suc n) pframe m =
     (if n = 0 then body pframe (last_frag_length px) m
      else do {
        m1 \<leftarrow> body pframe (mid_frag_length frag_len px) m;
        frags_loop body addr frag_len px n (next_pframe addr frag_len pframe) m1
      })"

section \<open>Where the fragments are\<close>

fun frag_start :: "nat \<Rightarrow> nat \<Rightarrow> nat \<Rightarrow> nat \<Rightarrow> nat" where
  "frag_start addr frag_len pframe 0 = pframe"
| "frag_start addr frag_len pframe (Suc k) =
     frag_start addr frag_len (next_pframe addr frag_len pframe) k"

definition frag_length :: "nat \<Rightarrow> pkt_attrib \<Rightarrow> nat \<Rightarrow> nat \<Rightarrow> int" where
  "frag_length frag_len px n k = (if k + 1 = n then last_frag_length px else mid_frag_length frag_len px)"

lemma RND4_ge: "x \<le> RND4 x"
  unfolding RND4_def by (cases "x mod 4 = 0") presburger+

lemma RND4_bound: "RND4 x < x + 4"
  unfolding RND4_def by (cases "x mod 4 = 0") presburger+

lemma RND4_aligned: "4 dvd RND4 x"
  by (simp add: RND4_def)

lemma next_pframe_ge: "pframe + frag_len \<le> next_pframe addr frag_len pframe"
  using RND4_ge [of "addr + (pframe + frag_len)"] by (simp add: next_pframe_def)

lemma frag_start_ge: "pframe \<le> frag_start addr frag_len pframe k"
proof (induction addr frag_len pframe k rule: frag_start.induct)
  case (2 addr frag_len pframe k)
  then show ?case using next_pframe_ge [of pframe frag_len addr] by simp
qed simp

lemma frag_start_Suc_ge: "pframe + frag_len \<le> frag_start addr frag_len pframe (Suc k)"
  using next_pframe_ge [of pframe frag_len addr]
    frag_start_ge [of "next_pframe addr frag_len pframe" addr frag_len k]
  by simp

definition slice :: "nat \<Rightarrow> nat \<Rightarrow> byte list \<Rightarrow> byte list" where
  "slice i n m = take n (drop i m)"

lemma length_slice [len_simps]: "length (slice i n m) = min n (length m - i)"
  by (simp add: slice_def)

lemma slice_cong:
  assumes "length m = length m'" and "\<And>k. i \<le> k \<Longrightarrow> k < i + n \<Longrightarrow> k < length m \<Longrightarrow> m ! k = m' ! k"
  shows "slice i n m = slice i n m'"
  unfolding slice_def using assms by (rule slice_eqI)

lemma nth_slice: "k < n \<Longrightarrow> i + k < length m \<Longrightarrow> slice i n m ! k = m ! (i + k)"
  by (simp add: slice_def)

section \<open>What a cipher promises for one fragment\<close>

text \<open>
  \<open>seal\<close> protects the fragment at an offset in place, \<open>unseal\<close> is the receiver's view of
  the protected frame alone; \<open>hdr\<close> is the length of the MAC header and the IV, \<open>tail\<close> of
  the check value \<open>seal\<close> appends.  \<open>ok\<close> is a condition on the header the cipher needs, and
  \<open>small\<close> says which frames the receiver has room for.
\<close>

locale fragment_cipher =
  fixes seal :: "nat \<Rightarrow> int \<Rightarrow> byte list \<Rightarrow> byte list option"
    and unseal :: "byte list \<Rightarrow> byte list option"
    and hdr :: nat and tail :: nat
    and ok :: "byte list \<Rightarrow> bool"
    and small :: "nat \<Rightarrow> bool"
  assumes seal_total: "0 \<le> len \<Longrightarrow> pf + hdr + nat len + tail \<le> length m \<Longrightarrow> ok (slice pf hdr m) \<Longrightarrow>
      \<exists>m'. seal pf len m = Some m'"
    and seal_length: "seal pf len m = Some m' \<Longrightarrow> ok (slice pf hdr m) \<Longrightarrow> length m' = length m"
    and seal_local: "seal pf len m = Some m' \<Longrightarrow> ok (slice pf hdr m) \<Longrightarrow> k < length m \<Longrightarrow>
      k < pf + hdr \<or> pf + hdr + nat len + tail \<le> k \<Longrightarrow> m' ! k = m ! k"
    and unseal_seal: "seal pf len m = Some m' \<Longrightarrow> ok (slice pf hdr m) \<Longrightarrow> 0 \<le> len \<Longrightarrow>
      pf + hdr + nat len + tail \<le> length m \<Longrightarrow> small (hdr + nat len + tail) \<Longrightarrow>
      unseal (slice pf (hdr + nat len + tail) m') = Some (slice pf (hdr + nat len) m)"
begin

lemma seal_slice_other:
  assumes "seal pf len m = Some m'" and "ok (slice pf hdr m)" and "0 \<le> len"
    and "j + n \<le> pf \<or> pf + hdr + nat len + tail \<le> j"
  shows "slice j n m' = slice j n m"
  using assms by (intro slice_cong) (auto simp: seal_length intro!: seal_local)

text \<open>
  The loop protects every fragment, provided each fits between its start and the next one:
  the receiver's function applied to fragment \<open>k\<close> alone gives back its header and payload.
\<close>

lemma frags_loop_roundtrip:
  assumes fit: "hdr + nat (mid_frag_length frag_len px) + tail \<le> frag_len"
    and len: "0 \<le> mid_frag_length frag_len px" "0 \<le> last_frag_length px"
    and room: "\<forall>k < n. frag_start addr frag_len pf k + hdr + nat (frag_length frag_len px n k) + tail \<le> length m"
    and hd: "\<forall>k < n. ok (slice (frag_start addr frag_len pf k) hdr m)"
    and sm: "\<forall>k < n. small (hdr + nat (frag_length frag_len px n k) + tail)"
  shows "\<exists>m'. frags_loop seal addr frag_len px n pf m = Some m' \<and> length m' = length m \<and>
    (\<forall>j < length m. j < pf \<longrightarrow> m' ! j = m ! j) \<and>
    (\<forall>k < n. unseal (slice (frag_start addr frag_len pf k)
                      (hdr + nat (frag_length frag_len px n k) + tail) m') =
              Some (slice (frag_start addr frag_len pf k) (hdr + nat (frag_length frag_len px n k)) m))"
  using room hd sm
proof (induction n arbitrary: pf m)
  case (Suc n)
  let ?L = "frag_length frag_len px (Suc n) 0"
  have L0: "0 \<le> ?L" using len by (simp add: frag_length_def)
  have ok0: "ok (slice pf hdr m)" using Suc.prems(2) by force
  have room0: "pf + hdr + nat ?L + tail \<le> length m" using Suc.prems(1) by force
  obtain m1 where m1: "seal pf ?L m = Some m1" using seal_total [OF L0 room0 ok0] by blast
  have un0: "unseal (slice pf (hdr + nat ?L + tail) m1) = Some (slice pf (hdr + nat ?L) m)"
    by (rule unseal_seal [OF m1 ok0 L0 room0]) (use Suc.prems(3) in blast)
  have l1: "length m1 = length m" by (rule seal_length [OF m1 ok0])
  have low1: "m1 ! j = m ! j" if "j < length m" "j < pf" for j
    by (rule seal_local [OF m1 ok0 that(1)]) (use that in simp)
  show ?case
  proof (cases n)
    case 0
    then show ?thesis using m1 l1 low1 un0 by (simp add: frag_length_def)
  next
    case (Suc n')
    let ?np = "next_pframe addr frag_len pf"
    have L: "?L = mid_frag_length frag_len px" using Suc by (simp add: frag_length_def)
    have np: "pf + frag_len \<le> ?np" by (rule next_pframe_ge)
    have out: "slice j w m1 = slice j w m" if "?np \<le> j" for j w
      by (rule seal_slice_other [OF m1 ok0 L0]) (use that np fit L in simp)
    have fl: "frag_length frag_len px (Suc n) (Suc k) = frag_length frag_len px n k" for k
      by (simp add: frag_length_def)
    have room1: "\<forall>k < n. frag_start addr frag_len ?np k + hdr + nat (frag_length frag_len px n k) + tail \<le> length m1"
      using Suc.prems(1) l1 fl by (metis Suc_less_eq frag_start.simps(2))
    have ok1: "\<forall>k < n. ok (slice (frag_start addr frag_len ?np k) hdr m1)"
      using Suc.prems(2) out frag_start_ge by (metis Suc_less_eq frag_start.simps(2))
    have sm1: "\<forall>k < n. small (hdr + nat (frag_length frag_len px n k) + tail)"
      using Suc.prems(3) fl by (metis Suc_less_eq)
    obtain m2 where m2: "frags_loop seal addr frag_len px n ?np m1 = Some m2" "length m2 = length m1"
      and low2: "\<forall>j < length m1. j < ?np \<longrightarrow> m2 ! j = m1 ! j"
      and un2: "\<forall>k < n. unseal (slice (frag_start addr frag_len ?np k)
                    (hdr + nat (frag_length frag_len px n k) + tail) m2) =
                  Some (slice (frag_start addr frag_len ?np k) (hdr + nat (frag_length frag_len px n k)) m1)"
      using Suc.IH [OF room1 ok1 sm1] by blast
    have first: "slice pf (hdr + nat ?L + tail) m2 = slice pf (hdr + nat ?L + tail) m1"
      by (rule slice_cong) (use m2(2) low2 np fit L in auto)
    have all: "unseal (slice (frag_start addr frag_len pf k)
            (hdr + nat (frag_length frag_len px (Suc n) k) + tail) m2) =
          Some (slice (frag_start addr frag_len pf k) (hdr + nat (frag_length frag_len px (Suc n) k)) m)"
      if "k < Suc n" for k
    proof (cases k)
      case 0
      then show ?thesis using un0 first by simp
    next
      case (Suc j)
      then have "j < n" using that by simp
      then show ?thesis using un2 out frag_start_ge [of ?np addr frag_len j] Suc fl by simp
    qed
    have loop: "frags_loop seal addr frag_len px (Suc n) pf m = Some m2"
      using m1 m2(1) L \<open>n = Suc n'\<close> by simp
    have low: "\<forall>j < length m. j < pf \<longrightarrow> m2 ! j = m ! j"
    proof (intro allI impI)
      fix j assume j: "j < length m" "j < pf"
      have "m2 ! j = m1 ! j" by (rule low2 [rule_format]) (use j l1 np in linarith)+
      then show "m2 ! j = m ! j" using low1 [OF j] by simp
    qed
    show ?thesis
      by (intro exI [of _ m2] conjI loop low allI impI all) (simp add: m2(2) l1)
  qed
qed simp

end

section \<open>Fragments that fit, and the transmitter's key\<close>

text \<open>
  The conditions under which a frame of fragments fits its buffer: each fragment, with a
  check value of \<open>tail\<close> bytes, ends before the next one starts and inside the buffer.
\<close>

definition frags_fit :: "nat \<Rightarrow> nat \<Rightarrow> pkt_attrib \<Rightarrow> nat \<Rightarrow> nat \<Rightarrow> byte list \<Rightarrow> bool" where
  "frags_fit tail frag_len px addr pf m \<longleftrightarrow>
     0 \<le> mid_frag_length frag_len px \<and> 0 \<le> last_frag_length px \<and> tail \<le> px_icv_len px \<and>
     (\<forall>k < px_nr_frags px.
        frag_start addr frag_len pf k + (px_iv_len px + px_hdrlen px) +
        nat (frag_length frag_len px (px_nr_frags px) k) + tail \<le> length m)"

lemma frags_fit_mid:
  assumes "frags_fit tail frag_len px addr pf m"
  shows "px_iv_len px + px_hdrlen px + nat (mid_frag_length frag_len px) + tail \<le> frag_len"
  using assms by (simp add: frags_fit_def mid_frag_length_def) linarith

text \<open>The key \<open>rtw_tkip_encrypt\<close> and \<open>rtw_aes_encrypt\<close> take for a station.\<close>

definition tx_key :: "adapter \<Rightarrow> pkt_attrib \<Rightarrow> nat \<Rightarrow> byte list" where
  "tx_key ad px p =
     (if IS_MCAST (px_ra px)
      then sec_GrpKey (securitypriv ad) (sec_GrpKeyid (securitypriv ad))
      else si_UncstKey (sta_buf (stapriv ad) p))"

end
