(* ===== verification/Samples.thy ===== *)
theory Samples
  imports StaMgt Fragments
begin

text \<open>
  Concrete frames and adapters, on which the witnesses of the frame properties evaluate.
\<close>

text \<open>A frame of two fragments, for the witnesses.\<close>

definition sample_px :: "enc_alg \<Rightarrow> nat \<Rightarrow> nat \<Rightarrow> pkt_attrib" where
  "sample_px alg iv_len icv_len = \<lparr>px_hdrlen = 24, px_iv_len = iv_len, px_icv_len = icv_len,
     px_nr_frags = 2, px_last_txcmdsz = 50, px_encrypt = alg, px_ta = [2, 0, 0, 0, 0, 1],
     px_ra = [2, 0, 0, 0, 0, 2], px_psta = Some 0, px_priority = 0, px_triggered = False,
     px_mdata = False, px_eosp = False, px_qsel = 0, px_ether_type = 0, px_dhcp_pkt = False,
     px_subtype = 8, px_bswenc = True, px_seqnum = 0,
     px_pkt_hdrlen = 14, px_pktlen = 0, px_iv = replicate 8 0, px_icv = replicate 8 0, px_ack_policy = 0,
     px_mac_id = 0, px_vcs_mode = 0, px_dst = [2, 0, 0, 0, 0, 2], px_src = [2, 0, 0, 0, 0, 1], px_key_idx = 0,
     px_qos_en = False, px_ht_en = False, px_raid = 0, px_bwmode = 0, px_ch_offset = 0, px_sgi = False,
     px_ampdu_en = False, px_pctrl = False, px_retry_ctrl = False\<rparr>"

definition sample_xb :: xmit_buf where
  "sample_xb = \<lparr>xb_addr = 4096, xb_mem = replicate 200 0\<rparr>"

definition sample_sec :: security_priv where
  "sample_sec = \<lparr>sec_PrivacyKeyIndex = 0, sec_DefKey = (\<lambda>_. replicate 16 7),
       sec_DefKeylen = (\<lambda>_. 5), sec_GrpKeyid = 1, sec_GrpKey = (\<lambda>_. replicate 16 9),
       sec_Grprxmickey = (\<lambda>_. replicate 16 8), sec_binstallGrpkey = True, sec_bcheck_grpkey = True,
       sec_iv_seq = (\<lambda>_. 0), sec_btkip_countermeasure = False,
       sec_btkip_countermeasure_time = 0, sec_dot11AuthAlgrthm = 0, sec_busetkipkey = False,
       sec_sw_decrypt = False, sec_hw_decrypted = False, sec_last_mic_err_time = 0,
       sec_dot11PrivacyAlgrthm = NO_PRIVACY, sec_dot118021XGrpPrivacy = NO_PRIVACY, sec_ndisauthtype = 0,
       sec_Grptxmickey = (\<lambda>_. replicate 16 6), sec_sw_encrypt = True\<rparr>"

lemma less_2_cases: "(\<forall>k < Suc (Suc 0). P k) \<longleftrightarrow> P 0 \<and> P (Suc 0)"
  by (auto simp: less_Suc_eq)

lemma sample_fit:
  "iv_len + icv_len \<le> 20 \<Longrightarrow> tail \<le> icv_len \<Longrightarrow>
   frags_fit tail 60 (sample_px alg iv_len icv_len) 4096 (first_pframe 0) (replicate 200 (0 :: byte))"
  by (simp add: frags_fit_def sample_px_def mid_frag_length_def last_frag_length_def frag_length_def
      first_pframe_def TXDESC_SIZE_def next_pframe_def RND4_def less_2_cases numeral_2_eq_2) arith

text \<open>A station that is linked, for the witnesses.\<close>

definition linked_adapter :: adapter where
  "linked_adapter = zero_adapter\<lparr>
     stapriv := (stapriv zero_adapter)\<lparr>
       sta_buf := (\<lambda>_. rtw_init_stainfo\<lparr>si_state := FW_LINKED, si_UncstKey := replicate 16 3\<rparr>)\<rparr>,
     xmitpriv := (xmitpriv zero_adapter)\<lparr>xp_frag_len := 60\<rparr>, securitypriv := sample_sec\<rparr>"

text \<open>A received frame with a three-address header and an 8-byte IV.\<close>

definition sample_rf :: "enc_alg \<Rightarrow> byte list \<Rightarrow> recv_frame" where
  "sample_rf alg bytes = \<lparr>rf_id = 0, rf_attrib = \<lparr>rx_hdrlen = 24, rx_iv_len = 8, rx_icv_len = 4,
     rx_encrypt = alg, rx_bdecrypted = False, rx_amsdu = 0, rx_qos = 0, rx_priority = 0,
     rx_seq_num = 0, rx_frag_num = 0, rx_mfrag = 0, rx_key_index = 0, rx_privacy = True,
     rx_dst = [2, 0, 0, 0, 0, 2], rx_src = [2, 0, 0, 0, 0, 1],
     rx_ta = [2, 0, 0, 0, 0, 1], rx_ra = [2, 0, 0, 0, 0, 2],
     rx_bssid = [2, 0, 0, 0, 0, 1], rx_to_fr_ds = 1, rx_ack_policy = 0, rx_pw_save = False,
     rx_mdata = False, rx_order = False\<rparr>, rf_head = [], rf_data = bytes, rf_tailroom = 0,
     rf_ctrl = (0, 0)\<rparr>"

end
