(* ===== verification/Wep.thy ===== *)
theory Wep
  imports Arc4 Crc32 Samples
begin

text \<open>
  The WEP frames of \<open>core/rtw_security.c\<close>: \<open>rtw_wep_encrypt\<close> and \<open>rtw_wep_decrypt\<close>, and the
  part they share with TKIP (a payload and its CRC-32 encrypted with one ARC4 context).
  \<open>None\<close> is an access outside a buffer.
\<close>

section \<open>A payload and its ICV under ARC4\<close>

text \<open>
  The body of the fragment loops: the ICV is computed over the payload, the payload is
  encrypted in place, and the ICV is encrypted into the four bytes after it.  The signed
  \<open>length\<close> is passed to \<open>arcfour_encrypt\<close> as a \<open>u32\<close>, so a negative one runs off the buffer.
\<close>

definition arc4_seal ::
  "byte list \<Rightarrow> nat \<Rightarrow> int \<Rightarrow> byte list \<Rightarrow> nat \<Rightarrow> byte list option" where
  "arc4_seal m payload len key keylen =
     (if len < 0 then None
      else do {
        data \<leftarrow> rd_slice m payload (nat len);
        let crc = le32_bytes (getcrc32 data);
        let (c, ctx) = arcfour_encrypt (arcfour_init key keylen) data;
        m1 \<leftarrow> wr_slice m payload c;
        let (d, _) = arcfour_encrypt ctx crc;
        wr_slice m1 (payload + nat len) d
      })"

text \<open>
  The receive side: everything from the payload to the end of the frame is decrypted in
  place; the second component is the outcome of the comparison of the ICV.
\<close>

definition arc4_open ::
  "byte list \<Rightarrow> nat \<Rightarrow> byte list \<Rightarrow> nat \<Rightarrow> (byte list \<times> bool) option" where
  "arc4_open m payload key keylen =
     (if length m < payload then None
      else let plain = fst (arcfour_encrypt (arcfour_init key keylen) (drop payload m));
               m1 = take payload m @ plain;
               crc = le32_bytes (getcrc32 (take (length plain - 4) plain))
           in if length m1 < 4 then None
              else Some (m1, drop (length m1 - 4) m1 = crc))"

lemma arc4_seal_Some:
  fixes key m :: "byte list" and keylen payload :: nat and len :: int
  assumes "0 \<le> len" and "payload + nat len + 4 \<le> length m"
  defines "data \<equiv> take (nat len) (drop payload m)"
  defines "c \<equiv> fst (arcfour_encrypt (arcfour_init key keylen) data)"
  defines "ctx \<equiv> snd (arcfour_encrypt (arcfour_init key keylen) data)"
  defines "d \<equiv> fst (arcfour_encrypt ctx (le32_bytes (getcrc32 data)))"
  shows "arc4_seal m payload len key keylen =
     Some (take payload m @ c @ d @ drop (payload + nat len + 4) m)"
    and "length c = nat len" and "length d = 4"
proof -
  have ld: "length data = nat len" using assms(2) by (simp add: data_def)
  show lc: "length c = nat len" and l4: "length d = 4"
    by (simp_all add: c_def d_def arc4.crypt_length ld)
  have rd: "rd_slice m payload (nat len) = Some data"
    using assms(2) by (simp add: buf_simps data_def)
  have w1: "wr_slice m payload c = Some (take payload m @ c @ drop (payload + nat len) m)"
    using assms(2) by (simp add: buf_simps lc)
  have w2: "wr_slice (take payload m @ c @ drop (payload + nat len) m) (payload + nat len) d =
      Some (take payload m @ c @ d @ drop (payload + nat len + 4) m)"
    using assms(2) by (simp add: wr_slice_def lc l4 add.commute add.left_commute)
  show "arc4_seal m payload len key keylen =
     Some (take payload m @ c @ d @ drop (payload + nat len + 4) m)"
    using assms(1) rd w1 w2 by (simp add: arc4_seal_def Let_def split_beta c_def d_def ctx_def)
qed

lemma arc4_open_seal:
  assumes "0 \<le> len" and "payload + nat len + 4 \<le> length m"
    and "arc4_seal m payload len key keylen = Some m'"
  shows "arc4_open (take (payload + nat len + 4) m') payload key keylen =
     Some (take (payload + nat len) m @ le32_bytes (getcrc32 (take (nat len) (drop payload m))), True)"
proof -
  note s = arc4_seal_Some [OF assms(1,2), where key = key and keylen = keylen]
  let ?data = "take (nat len) (drop payload m)" and ?ctx = "arcfour_init key keylen"
  let ?crc = "le32_bytes (getcrc32 ?data)"
  let ?c = "fst (arcfour_encrypt ?ctx ?data)"
  let ?d = "fst (arcfour_encrypt (snd (arcfour_encrypt ?ctx ?data)) ?crc)"
  have "m' = take payload m @ ?c @ ?d @ drop (payload + nat len + 4) m"
    using assms(3) s(1) by simp
  then have m': "take (payload + nat len + 4) m' = take payload m @ ?c @ ?d"
    using assms(2) s(2,3) by simp
  have plain: "fst (arcfour_encrypt ?ctx (?c @ ?d)) = ?data @ ?crc"
    by (rule arc4.crypt_pieces)
  have l: "length (take payload m) = payload" "length ?data = nat len" using assms(2) by simp_all
  have t: "take payload m @ ?data = take (payload + nat len) m"
    by (simp add: take_add)
  show ?thesis
    unfolding m' arc4_open_def using l plain t by (simp add: Let_def)
qed

text \<open>
  A frame whose ICV matches no longer does when one byte of its payload or ICV is changed.
\<close>

lemma xor_bytes_update:
  "xor_bytes (a[j := b]) ks = (if j < length ks then (xor_bytes a ks)[j := b XOR ks ! j]
                               else xor_bytes a ks)"
proof (rule nth_equalityI)
  fix i assume "i < length (xor_bytes (a[j := b]) ks)"
  then show "xor_bytes (a[j := b]) ks ! i = (if j < length ks then (xor_bytes a ks)[j := b XOR ks ! j]
                               else xor_bytes a ks) ! i"
    by (cases "i = j") (auto simp: len_simps nth_xor_bytes)
qed (simp add: len_simps)

lemma arc4_open_byte_error:
  assumes open_ok: "arc4_open m payload key keylen = Some (d, True)"
    and i: "payload \<le> i" "i < length m" and b: "b \<noteq> m ! i"
  shows "\<exists>d'. arc4_open (m[i := b]) payload key keylen = Some (d', False)"
proof -
  let ?n = "length m - payload" and ?j = "i - payload"
  define ks where "ks = arcfour_keystream (arcfour_init key keylen) ?n"
  define plain where "plain = xor_bytes (drop payload m) ks"
  define x where "x = b XOR ks ! ?j"
  have lk: "length ks = ?n" by (simp add: ks_def arc4.stream_length)
  have lp: "length plain = ?n" by (simp add: plain_def len_simps lk)
  have j: "?j < ?n" using i by simp
  have x: "x \<noteq> plain ! ?j"
    using b i j lk by (simp add: x_def plain_def nth_xor_bytes) (metis word_xor_cancel(1))
  have lm: "4 \<le> length m" and icv: "drop (length m - 4) (take payload m @ plain) =
      le32_bytes (getcrc32 (take (?n - 4) plain))"
    using open_ok i lp by (auto simp: arc4_open_def arc4.crypt_xor ks_def [symmetric] plain_def
        [symmetric] Let_def split: if_splits)
  have upd: "xor_bytes (drop payload (m[i := b])) ks = plain[?j := x]"
    using i j lk by (simp add: drop_update_swap xor_bytes_update plain_def x_def)
  let ?m1 = "take payload m @ plain[?j := x]"
  have op: "arc4_open (m[i := b]) payload key keylen = Some (?m1,
      drop (length m - 4) ?m1 = le32_bytes (getcrc32 (take (?n - 4) (plain[?j := x]))))"
    using i lm lp upd
    by (simp add: arc4_open_def arc4.crypt_xor ks_def [symmetric] Let_def take_update_cancel)
  have m1: "?m1 = (take payload m @ plain)[i := x]"
    using i by (simp add: list_update_append)
  have "drop (length m - 4) ?m1 \<noteq> le32_bytes (getcrc32 (take (?n - 4) (plain[?j := x])))"
  proof (cases "?j < ?n - 4")
    case True
    let ?data = "take (?n - 4) plain"
    have l: "?j < length ?data" using True lp by simp
    have "?data = take ?j ?data @ plain ! ?j # drop (Suc ?j) ?data"
      using id_take_nth_drop [OF l] True by simp
    moreover have "take (?n - 4) (plain[?j := x]) = take ?j ?data @ x # drop (Suc ?j) ?data"
      using upd_conv_take_nth_drop [OF l, of x] by (simp add: take_update_swap)
    ultimately have "getcrc32 (take (?n - 4) (plain[?j := x])) \<noteq> getcrc32 (take (?n - 4) plain)"
      using x getcrc32_byte_error by metis
    moreover have "drop (length m - 4) ?m1 = drop (length m - 4) (take payload m @ plain)"
      unfolding m1 using True i by (intro drop_update_cancel) simp
    ultimately show ?thesis using icv by (metis le32_bytes_inj)
  next
    case False
    then have t: "take (?n - 4) (plain[?j := x]) = take (?n - 4) plain"
      by (simp add: take_update_cancel)
    have l: "length m - 4 \<le> i" using False i by simp
    have "drop (length m - 4) ?m1 ! (i - (length m - 4)) = x"
      unfolding m1 using i l lp by (simp add: drop_update_swap)
    moreover have "drop (length m - 4) (take payload m @ plain) ! (i - (length m - 4)) =
        (take payload m @ plain) ! i"
      using i l lp nth_drop [of "length m - 4" "take payload m @ plain" "i - (length m - 4)"]
      by (simp del: drop_append)
    moreover have "(take payload m @ plain) ! i = plain ! ?j"
      using i lp by (simp add: nth_append)
    ultimately show ?thesis using x icv t by metis
  qed
  then show ?thesis using op by simp
qed

text \<open>
  A cipher of this kind is given by how it derives the key from the header and the IV; it
  is a fragment cipher in the sense of the fragment loop.
\<close>

definition icv_seal ::
  "(byte list \<Rightarrow> nat \<Rightarrow> (byte list \<times> nat) option) \<Rightarrow> nat \<Rightarrow> nat \<Rightarrow> int \<Rightarrow> byte list \<Rightarrow> byte list option"
  where
  "icv_seal kd hdr pf len m = do {
     (key, keylen) \<leftarrow> kd m pf;
     arc4_seal m (pf + hdr) len key keylen
   }"

definition icv_open ::
  "(byte list \<Rightarrow> nat \<Rightarrow> (byte list \<times> nat) option) \<Rightarrow> nat \<Rightarrow> byte list \<Rightarrow> (byte list \<times> bool) option" where
  "icv_open kd hdr f = do {
     (key, keylen) \<leftarrow> kd f 0;
     arc4_open f hdr key keylen
   }"

definition icv_unseal ::
  "(byte list \<Rightarrow> nat \<Rightarrow> (byte list \<times> nat) option) \<Rightarrow> nat \<Rightarrow> byte list \<Rightarrow> byte list option" where
  "icv_unseal kd hdr f =
     (case icv_open kd hdr f of
        Some (d, icv_ok) \<Rightarrow> if icv_ok then Some (take (length d - 4) d) else None
      | None \<Rightarrow> None)"

locale icv_cipher =
  fixes kd :: "byte list \<Rightarrow> nat \<Rightarrow> (byte list \<times> nat) option"
    and hdr :: nat
    and ok :: "byte list \<Rightarrow> bool"
  assumes kd_header: "ok h \<Longrightarrow> length h = hdr \<Longrightarrow> length pre = pf \<Longrightarrow>
      kd (pre @ h @ rest) pf = kd h 0"
    and kd_total: "ok h \<Longrightarrow> length h = hdr \<Longrightarrow> \<exists>k. kd h 0 = Some k"
begin

lemma split_at_header:
  "pf + hdr \<le> length m \<Longrightarrow> m = take pf m @ slice pf hdr m @ drop (pf + hdr) m"
  by (simp add: slice_def add.commute flip: drop_drop)

lemma kd_slice:
  assumes "ok (slice pf hdr m)" and "pf + hdr \<le> length m"
  shows "kd m pf = kd (slice pf hdr m) 0"
  using kd_header [of "slice pf hdr m" "take pf m" pf "drop (pf + hdr) m"] assms
    split_at_header [OF assms(2)]
  by (simp add: len_simps)

lemma seal_as_arc4:
  assumes "ok (slice pf hdr m)" and "pf + hdr \<le> length m"
  obtains key keylen where "kd (slice pf hdr m) 0 = Some (key, keylen)"
    and "icv_seal kd hdr pf len m = arc4_seal m (pf + hdr) len key keylen"
proof -
  have "length (slice pf hdr m) = hdr" using assms(2) by (simp add: len_simps)
  then obtain key keylen where "kd (slice pf hdr m) 0 = Some (key, keylen)"
    using kd_total [OF assms(1)] by (metis prod.collapse)
  then show thesis using that kd_slice [OF assms] by (simp add: icv_seal_def)
qed

end

lemma arc4_seal_None: "length m < payload \<Longrightarrow> arc4_seal m payload len key keylen = None"
  by (simp add: arc4_seal_def rd_slice_def Let_def)

lemma arc4_seal_fits:
  assumes "arc4_seal m payload len key keylen = Some m'"
  shows "0 \<le> len" and "payload + nat len + 4 \<le> length m"
proof -
  show "0 \<le> len" using assms by (simp add: arc4_seal_def split: if_splits)
  then show "payload + nat len + 4 \<le> length m" using assms
    by (auto simp: arc4_seal_def Let_def split_beta rd_slice_def wr_slice_def bind_eq_Some_conv
        arc4.crypt_length split: if_splits)
qed

text \<open>Hence a cipher that derives its key from the header is a fragment cipher.\<close>

sublocale icv_cipher \<subseteq> fragment_cipher "icv_seal kd hdr" "icv_unseal kd hdr" hdr 4 ok "\<lambda>_. True"
proof
  fix len :: int and pf k and m m' :: "byte list"
  assume ok: "ok (slice pf hdr m)"
  { assume "0 \<le> len" and fit: "pf + hdr + nat len + 4 \<le> length m"
    then obtain key keylen where "icv_seal kd hdr pf len m = arc4_seal m (pf + hdr) len key keylen"
      using seal_as_arc4 [OF ok, of len] by (metis add_leD1 group_cancel.add1)
    then show "\<exists>m'. icv_seal kd hdr pf len m = Some m'"
      using arc4_seal_Some(1) [OF \<open>0 \<le> len\<close> fit] by metis }
  assume seal: "icv_seal kd hdr pf len m = Some m'"
  then obtain key0 keylen0 where "arc4_seal m (pf + hdr) len key0 keylen0 = Some m'"
    by (auto simp: icv_seal_def bind_eq_Some_conv)
  note fits = arc4_seal_fits [OF this]
  then obtain key keylen where key: "kd (slice pf hdr m) 0 = Some (key, keylen)"
    and arc: "arc4_seal m (pf + hdr) len key keylen = Some m'"
    using seal_as_arc4 [OF ok, of len] seal by (metis add_leD1 group_cancel.add1)
  note s = arc4_seal_Some [OF fits, where key = key and keylen = keylen]
  let ?data = "take (nat len) (drop (pf + hdr) m)"
  let ?c = "fst (arcfour_encrypt (arcfour_init key keylen) ?data)"
  let ?d = "fst (arcfour_encrypt (snd (arcfour_encrypt (arcfour_init key keylen) ?data))
    (le32_bytes (getcrc32 ?data)))"
  have m': "m' = take (pf + hdr) m @ ?c @ ?d @ drop (pf + hdr + nat len + 4) m"
    using s(1) arc by simp
  show l: "length m' = length m" using fits(2) s(2,3) unfolding m' by simp
  { assume "k < length m" and "k < pf + hdr \<or> pf + hdr + nat len + 4 \<le> k"
    then show "m' ! k = m ! k" using fits(2) s(2,3) unfolding m'
      by (auto simp: nth_append) }
  let ?f = "slice pf (hdr + nat len + 4) m'"
  have fdrop: "?f = drop pf (take (pf + hdr + nat len + 4) m')"
    by (simp add: slice_def take_drop ac_simps)
  have hdr': "slice pf hdr m' = slice pf hdr m"
    using fits(2) unfolding m' by (simp add: slice_def take_drop)
  have f: "?f = slice pf hdr m @ ?c @ ?d"
    using fits(2) s(2,3) unfolding fdrop m' by (simp add: slice_def take_drop ac_simps)
  have kd: "kd ?f 0 = Some (key, keylen)"
    using kd_header [of "slice pf hdr m" "[]" 0 "?c @ ?d"] ok fits(2) key f by (simp add: len_simps)
  have arcf: "arc4_seal (slice pf (hdr + nat len + 4) m) hdr len key keylen = Some ?f"
  proof -
    have d: "take (nat len) (drop hdr (slice pf (hdr + nat len + 4) m)) = ?data"
      by (simp add: slice_def drop_take add.commute add.left_commute)
    have "take hdr (slice pf (hdr + nat len + 4) m) = slice pf hdr m"
      by (simp add: slice_def min_def)
    then show ?thesis
      using arc4_seal_Some(1) [OF fits(1), of hdr "slice pf (hdr + nat len + 4) m" key keylen] fits(2) f
      unfolding d by (simp add: len_simps)
  qed
  have op: "arc4_open ?f hdr key keylen =
      Some (take (hdr + nat len) (slice pf (hdr + nat len + 4) m) @ le32_bytes (getcrc32 ?data), True)"
    using arc4_open_seal [OF fits(1) _ arcf] fits(2)
    by (simp add: len_simps slice_def drop_take add.commute add.left_commute)
  show "icv_unseal kd hdr ?f = Some (slice pf (hdr + nat len) m)"
    using kd op fits(2)
    by (simp add: icv_unseal_def icv_open_def len_simps slice_def min_def)
qed

section \<open>The WEP functions\<close>

definition is_wep :: "enc_alg \<Rightarrow> bool" where
  "is_wep alg \<longleftrightarrow> alg = WEP40 \<or> alg = WEP104"

text \<open>
  The 16-byte \<open>wepkey\<close>: three bytes of IV, then \<open>keylength\<close> bytes of the default key; more
  than 13 of them do not fit.
\<close>

definition wep_key :: "byte list \<Rightarrow> nat \<Rightarrow> nat \<Rightarrow> byte list \<Rightarrow> nat \<Rightarrow> (byte list \<times> nat) option" where
  "wep_key skey keylength hdrlen m pframe = do {
     iv \<leftarrow> rd_slice m (pframe + hdrlen) 3;
     wk \<leftarrow> wr_slice (replicate 16 0) 0 iv;
     k \<leftarrow> rd_slice skey 0 keylength;
     wk' \<leftarrow> wr_slice wk 3 k;
     Some (wk', 3 + keylength)
   }"

definition rtw_wep_encrypt ::
  "security_priv \<Rightarrow> nat \<Rightarrow> pkt_attrib \<Rightarrow> nat \<Rightarrow> xmit_buf option \<Rightarrow> xmit_buf option option" where
  "rtw_wep_encrypt sec frag_len px pkt_offset buf =
     (case buf of
        None \<Rightarrow> Some None
      | Some xb \<Rightarrow>
          if is_wep (px_encrypt px) then
            let keyid = sec_PrivacyKeyIndex sec;
                kd = wep_key (sec_DefKey sec keyid) (sec_DefKeylen sec keyid) (px_hdrlen px)
            in do {
              m \<leftarrow> frags_loop (icv_seal kd (px_iv_len px + px_hdrlen px)) (xb_addr xb) frag_len px
                     (px_nr_frags px) (first_pframe pkt_offset) (xb_mem xb);
              Some (Some (xb\<lparr>xb_mem := m\<rparr>))
            }
          else Some (Some xb))"

text \<open>
  The receive side.  The outcome of the ICV comparison is only traced by the code; it is the
  second component here, \<open>None\<close> when nothing was decrypted.
\<close>

definition rtw_wep_decrypt :: "security_priv \<Rightarrow> recv_frame \<Rightarrow> (recv_frame \<times> bool option) option" where
  "rtw_wep_decrypt sec rf =
     (let rx = rf_attrib rf in
      if is_wep (rx_encrypt rx) then
        let kd = wep_key (sec_DefKey sec (rx_key_index rx)) (sec_DefKeylen sec (rx_key_index rx))
                   (rx_hdrlen rx)
        in do {
          (d, icv_ok) \<leftarrow> icv_open kd (rx_iv_len rx + rx_hdrlen rx) (rf_data rf);
          Some (rf\<lparr>rf_data := d\<rparr>, Some icv_ok)
        }
      else Some (rf, None))"

definition wep_ok :: "byte list \<Rightarrow> nat \<Rightarrow> nat \<Rightarrow> byte list \<Rightarrow> bool" where
  "wep_ok skey keylength iv_len h \<longleftrightarrow>
     3 \<le> iv_len \<and> keylength \<le> 13 \<and> keylength \<le> length skey"

interpretation wep: icv_cipher "wep_key skey keylength hdrlen" "iv_len + hdrlen"
  "wep_ok skey keylength iv_len"
  for skey keylength hdrlen iv_len
proof
  fix h pre rest :: "byte list" and pf
  assume ok: "wep_ok skey keylength iv_len h" and lh: "length h = iv_len + hdrlen"
  have l: "hdrlen + 3 \<le> length h" using ok lh by (simp add: wep_ok_def)
  show "length pre = pf \<Longrightarrow>
      wep_key skey keylength hdrlen (pre @ h @ rest) pf = wep_key skey keylength hdrlen h 0"
    using l by (auto simp: wep_key_def rd_slice_def)
  show "\<exists>k. wep_key skey keylength hdrlen h 0 = Some k"
    using l ok by (simp add: wep_key_def rd_slice_def wr_slice_def wep_ok_def min_def)
qed

section \<open>Properties\<close>

text \<open>The received frame a fragment becomes: its bytes, and the attributes of its header.\<close>

definition wep_rx :: "security_priv \<Rightarrow> pkt_attrib \<Rightarrow> rx_pkt_attrib \<Rightarrow> bool" where
  "wep_rx sec px rx \<longleftrightarrow> rx_encrypt rx = px_encrypt px \<and> rx_hdrlen rx = px_hdrlen px \<and>
     rx_iv_len rx = px_iv_len px \<and> rx_key_index rx = sec_PrivacyKeyIndex sec"

text \<open>
  C7: WEP round trip.  When the fragments fit their buffer and the default key has at most 13
  bytes, \<open>rtw_wep_encrypt\<close> touches nothing outside the buffer, and every fragment it
  produces is turned back by \<open>rtw_wep_decrypt\<close>, on a receiver with the same keys, into the
  original header, IV and payload, with a matching ICV.
\<close>

theorem wep_roundtrip:
  assumes "is_wep (px_encrypt px)" and "3 \<le> px_iv_len px"
    and "sec_DefKeylen sec (sec_PrivacyKeyIndex sec) \<le> 13"
    and "length (sec_DefKey sec (sec_PrivacyKeyIndex sec)) = 16"
    and "frags_fit 4 frag_len px (xb_addr xb) (first_pframe pkt_offset) (xb_mem xb)"
  shows "\<exists>xb'. rtw_wep_encrypt sec frag_len px pkt_offset (Some xb) = Some (Some xb') \<and>
    (\<forall>k < px_nr_frags px. \<forall>rf. wep_rx sec px (rf_attrib rf) \<longrightarrow>
       rf_data rf = slice (frag_start (xb_addr xb) frag_len (first_pframe pkt_offset) k)
         (px_iv_len px + px_hdrlen px + nat (frag_length frag_len px (px_nr_frags px) k) + 4)
         (xb_mem xb') \<longrightarrow>
       (\<exists>rf'. rtw_wep_decrypt sec rf = Some (rf', Some True) \<and>
          take (length (rf_data rf') - 4) (rf_data rf') =
          slice (frag_start (xb_addr xb) frag_len (first_pframe pkt_offset) k)
            (px_iv_len px + px_hdrlen px + nat (frag_length frag_len px (px_nr_frags px) k))
            (xb_mem xb)))"
proof -
  let ?kd = "wep_key (sec_DefKey sec (sec_PrivacyKeyIndex sec))
    (sec_DefKeylen sec (sec_PrivacyKeyIndex sec)) (px_hdrlen px)"
  let ?hdr = "px_iv_len px + px_hdrlen px" and ?pf = "first_pframe pkt_offset"
  have ok: "wep_ok (sec_DefKey sec (sec_PrivacyKeyIndex sec))
      (sec_DefKeylen sec (sec_PrivacyKeyIndex sec)) (px_iv_len px) h" for h
    using assms by (simp add: wep_ok_def)
  obtain m' where m': "frags_loop (icv_seal ?kd ?hdr) (xb_addr xb) frag_len px (px_nr_frags px) ?pf
        (xb_mem xb) = Some m'"
    and un: "\<forall>k < px_nr_frags px. icv_unseal ?kd ?hdr
        (slice (frag_start (xb_addr xb) frag_len ?pf k)
          (?hdr + nat (frag_length frag_len px (px_nr_frags px) k) + 4) m') =
        Some (slice (frag_start (xb_addr xb) frag_len ?pf k)
          (?hdr + nat (frag_length frag_len px (px_nr_frags px) k)) (xb_mem xb))"
    using wep.frags_loop_roundtrip [OF frags_fit_mid [OF assms(5)], of "px_nr_frags px" "xb_addr xb"
        ?pf "xb_mem xb"] ok assms(5)
    unfolding frags_fit_def by metis
  show ?thesis
  proof (intro exI [of _ "xb\<lparr>xb_mem := m'\<rparr>"] conjI allI impI)
    show "rtw_wep_encrypt sec frag_len px pkt_offset (Some xb) = Some (Some (xb\<lparr>xb_mem := m'\<rparr>))"
      using assms(1) m' by (simp add: rtw_wep_encrypt_def Let_def)
  next
    fix k and rf :: recv_frame
    assume k: "k < px_nr_frags px" and rx: "wep_rx sec px (rf_attrib rf)"
      and data: "rf_data rf = slice (frag_start (xb_addr xb) frag_len ?pf k)
         (?hdr + nat (frag_length frag_len px (px_nr_frags px) k) + 4) (xb_mem (xb\<lparr>xb_mem := m'\<rparr>))"
    then obtain d where d: "icv_open ?kd ?hdr (rf_data rf) = Some (d, True)"
      "take (length d - 4) d = slice (frag_start (xb_addr xb) frag_len ?pf k)
          (?hdr + nat (frag_length frag_len px (px_nr_frags px) k)) (xb_mem xb)"
      using un [rule_format, OF k] by (auto simp: icv_unseal_def split: option.splits if_splits)
    then show "\<exists>rf'. rtw_wep_decrypt sec rf = Some (rf', Some True) \<and>
          take (length (rf_data rf') - 4) (rf_data rf') =
          slice (frag_start (xb_addr xb) frag_len ?pf k)
            (?hdr + nat (frag_length frag_len px (px_nr_frags px) k)) (xb_mem xb)"
      using assms(1) rx
      by (intro exI [of _ "rf\<lparr>rf_data := d\<rparr>"]) (simp add: rtw_wep_decrypt_def wep_rx_def Let_def)
  qed
qed

theorem wep_roundtrip_witness:
  "\<exists>xb'. rtw_wep_encrypt sample_sec 60 (sample_px WEP40 4 4) 0 (Some sample_xb) = Some (Some xb')"
  using wep_roundtrip [of "sample_px WEP40 4 4" sample_sec 60 sample_xb 0]
    sample_fit [of 4 4 4 WEP40]
  by (auto simp: sample_px_def sample_sec_def sample_xb_def is_wep_def)

end
