(* ===== verification/Michael.thy ===== *)
theory Michael
  imports Prelude
begin

text \<open>
  The Michael message integrity code of TKIP in \<open>core/rtw_security.c\<close>: the byte-at-a-time
  state machine (\<open>rtw_secmicsetkey\<close>, \<open>rtw_secmicappendbyte\<close>, \<open>rtw_secmicappend\<close>,
  \<open>rtw_secgetmic\<close>) and \<open>rtw_seccalctkipmic\<close>.  The theory proves that it computes Michael as
  the standard defines it, over the words of the padded message, and that the padding loop
  ends.
\<close>

section \<open>The code\<close>

text \<open>\<open>ROL32\<close> and \<open>ROR32\<close> of \<open>include/rtw_security.h\<close>.\<close>

definition ROL32 :: "u32 \<Rightarrow> nat \<Rightarrow> u32" where
  "ROL32 A n = push_bit n A OR (drop_bit (32 - n) A AND (push_bit n 1 - 1))"

definition ROR32 :: "u32 \<Rightarrow> nat \<Rightarrow> u32" where
  "ROR32 A n = ROL32 A (32 - n)"

record mic_data =
  mic_K0 :: u32
  mic_K1 :: u32
  mic_L :: u32
  mic_R :: u32
  mic_M :: u32
  mic_nBytesInM :: nat

definition secmicgetuint32 :: "byte list \<Rightarrow> u32" where
  "secmicgetuint32 p =
     fold (\<lambda>i res. res OR push_bit (8 * i) (ucast (p ! i))) [0..<4] 0"

definition secmicputuint32 :: "u32 \<Rightarrow> byte list" where
  "secmicputuint32 val = map (\<lambda>i. ucast (drop_bit (8 * i) val AND 0xff)) [0..<4]"

definition secmicclear :: "mic_data \<Rightarrow> mic_data" where
  "secmicclear d = d\<lparr>mic_L := mic_K0 d, mic_R := mic_K1 d, mic_nBytesInM := 0, mic_M := 0\<rparr>"

definition rtw_secmicsetkey :: "mic_data \<Rightarrow> byte list \<Rightarrow> mic_data" where
  "rtw_secmicsetkey d key =
     secmicclear (d\<lparr>mic_K0 := secmicgetuint32 (take 4 key),
                    mic_K1 := secmicgetuint32 (take 4 (drop 4 key))\<rparr>)"

definition rtw_secmicappendbyte :: "mic_data \<Rightarrow> byte \<Rightarrow> mic_data" where
  "rtw_secmicappendbyte d b =
     (let M = mic_M d OR push_bit (8 * mic_nBytesInM d) (ucast b);
          n = mic_nBytesInM d + 1
      in if n \<ge> 4 then
           let L = mic_L d XOR M;
               R = mic_R d XOR ROL32 L 17;
               L = L + R;
               R = R XOR (drop_bit 8 (L AND 0xff00ff00) OR push_bit 8 (L AND 0x00ff00ff));
               L = L + R;
               R = R XOR ROL32 L 3;
               L = L + R;
               R = R XOR ROR32 L 2;
               L = L + R
           in d\<lparr>mic_L := L, mic_R := R, mic_M := 0, mic_nBytesInM := 0\<rparr>
         else d\<lparr>mic_M := M, mic_nBytesInM := n\<rparr>)"

definition rtw_secmicappend :: "mic_data \<Rightarrow> byte list \<Rightarrow> mic_data" where
  "rtw_secmicappend d src = foldl rtw_secmicappendbyte d src"

text \<open>
  \<open>rtw_secgetmic\<close>: the loop appends zeroes until the accumulator is empty; the fuel bounds
  the number of turns (\<open>secmic_pad_enough\<close>: three are enough, as the byte count is below 4
  whenever the function is called).
\<close>

fun secmic_pad :: "nat \<Rightarrow> mic_data \<Rightarrow> mic_data option" where
  "secmic_pad 0 d = (if mic_nBytesInM d \<noteq> 0 then None else Some d)"
| "secmic_pad (Suc fuel) d =
     (if mic_nBytesInM d \<noteq> 0 then secmic_pad fuel (rtw_secmicappendbyte d 0) else Some d)"

definition rtw_secgetmic :: "mic_data \<Rightarrow> (byte list \<times> mic_data) option" where
  "rtw_secgetmic d = do {
     d1 \<leftarrow> secmic_pad 3 (foldl rtw_secmicappendbyte d [0x5a, 0, 0, 0, 0]);
     Some (secmicputuint32 (mic_L d1) @ secmicputuint32 (mic_R d1), secmicclear d1)
   }"

definition zero_mic :: mic_data where
  "zero_mic = \<lparr>mic_K0 = 0, mic_K1 = 0, mic_L = 0, mic_R = 0, mic_M = 0, mic_nBytesInM = 0\<rparr>"

text \<open>
  \<open>rtw_seccalctkipmic\<close>: the pseudo header DA, SA, priority, three zeroes, then the data.  The
  addresses are read from the frame header.
\<close>

definition tkip_pseudo_header :: "byte list \<Rightarrow> byte \<Rightarrow> byte list" where
  "tkip_pseudo_header header pri =
     (if header ! 1 AND 1 \<noteq> 0 then
        take 6 (drop 16 header) @
        (if header ! 1 AND 2 \<noteq> 0 then take 6 (drop 24 header) else take 6 (drop 10 header))
      else
        take 6 (drop 4 header) @
        (if header ! 1 AND 2 \<noteq> 0 then take 6 (drop 16 header) else take 6 (drop 10 header)))
     @ [pri, 0, 0, 0]"

definition rtw_seccalctkipmic ::
  "byte list \<Rightarrow> byte list \<Rightarrow> byte list \<Rightarrow> byte \<Rightarrow> byte list option" where
  "rtw_seccalctkipmic key header data pri =
     (let d = rtw_secmicsetkey zero_mic key;
          d = rtw_secmicappend d (tkip_pseudo_header header pri);
          d = rtw_secmicappend d data
      in map_option fst (rtw_secgetmic d))"

section \<open>Michael over words\<close>

text \<open>
  The standard's definition: the message is padded with \<open>0x5a\<close> and four to seven zeroes to
  a multiple of four bytes, read as little-endian words, and each word goes through the
  block function.
\<close>

definition michael_swap :: "u32 \<Rightarrow> u32" where
  "michael_swap x = drop_bit 8 (x AND 0xff00ff00) OR push_bit 8 (x AND 0x00ff00ff)"

definition michael_block :: "u32 \<times> u32 \<Rightarrow> u32 \<times> u32" where
  "michael_block = (\<lambda>(l, r).
     let r1 = r XOR ROL32 l 17; l1 = l + r1;
         r2 = r1 XOR michael_swap l1; l2 = l1 + r2;
         r3 = r2 XOR ROL32 l2 3; l3 = l2 + r3;
         r4 = r3 XOR ROR32 l3 2; l4 = l3 + r4
     in (l4, r4))"

definition le_word :: "byte \<Rightarrow> byte \<Rightarrow> byte \<Rightarrow> byte \<Rightarrow> u32" where
  "le_word a b c d =
     ucast a OR push_bit 8 (ucast b) OR push_bit 16 (ucast c) OR push_bit 24 (ucast d)"

fun michael_words :: "u32 \<times> u32 \<Rightarrow> byte list \<Rightarrow> u32 \<times> u32" where
  "michael_words lr (a # b # c # d # rest) =
     michael_words (michael_block (fst lr XOR le_word a b c d, snd lr)) rest"
| "michael_words lr _ = lr"

definition michael_pad :: "byte list \<Rightarrow> byte list" where
  "michael_pad msg =
     msg @ [0x5a, 0, 0, 0, 0] @ replicate ((4 - (length msg + 5) mod 4) mod 4) 0"

definition michael_spec :: "byte list \<Rightarrow> byte list \<Rightarrow> byte list" where
  "michael_spec key msg =
     (let (l, r) = michael_words (secmicgetuint32 (take 4 key), secmicgetuint32 (take 4 (drop 4 key)))
                     (michael_pad msg)
      in secmicputuint32 l @ secmicputuint32 r)"

lemma pad4: "(n + (4 - n mod 4) mod 4) mod 4 = (0 :: nat)"
proof -
  have "(n + (4 - n mod 4) mod 4) mod 4 = (n mod 4 + (4 - n mod 4) mod 4) mod 4"
    by (simp only: mod_add_left_eq)
  moreover have "n mod 4 \<in> {0, 1, 2, 3}" by auto
  ultimately show ?thesis by auto
qed

lemma michael_pad_length: "length (michael_pad msg) mod 4 = 0"
proof -
  have "length (michael_pad msg) = (length msg + 5) + (4 - (length msg + 5) mod 4) mod 4"
    by (simp add: michael_pad_def)
  then show ?thesis using pad4 [of "length msg + 5"] by (simp only:)
qed

section \<open>The byte machine computes the word function\<close>

lemma appendbyte_partial:
  "mic_nBytesInM d < 3 \<Longrightarrow> rtw_secmicappendbyte d b =
     d\<lparr>mic_M := mic_M d OR push_bit (8 * mic_nBytesInM d) (ucast b),
       mic_nBytesInM := mic_nBytesInM d + 1\<rparr>"
  by (simp add: rtw_secmicappendbyte_def Let_def)

lemma appendbyte_full:
  "mic_nBytesInM d = 3 \<Longrightarrow> rtw_secmicappendbyte d b =
     (let (l, r) = michael_block (mic_L d XOR (mic_M d OR push_bit 24 (ucast b)), mic_R d)
      in d\<lparr>mic_L := l, mic_R := r, mic_M := 0, mic_nBytesInM := 0\<rparr>)"
  by (simp add: rtw_secmicappendbyte_def michael_block_def michael_swap_def Let_def)

lemma append_four:
  assumes "mic_nBytesInM d = 0" and "mic_M d = 0"
  shows "foldl rtw_secmicappendbyte d [a, b, c, e] =
    (let (l, r) = michael_block (mic_L d XOR le_word a b c e, mic_R d)
     in d\<lparr>mic_L := l, mic_R := r, mic_M := 0, mic_nBytesInM := 0\<rparr>)"
  using assms by (simp add: appendbyte_partial appendbyte_full le_word_def or.assoc)

text \<open>Appending whole words from an empty accumulator.\<close>

lemma append_words:
  assumes "mic_nBytesInM d = 0" and "mic_M d = 0" and "length msg mod 4 = 0"
  shows "foldl rtw_secmicappendbyte d msg =
    (let (l, r) = michael_words (mic_L d, mic_R d) msg in d\<lparr>mic_L := l, mic_R := r\<rparr>)"
  using assms
proof (induction "(mic_L d, mic_R d)" msg arbitrary: d rule: michael_words.induct)
  case (1 a b c e rest)
  let ?lr = "michael_block (mic_L d XOR le_word a b c e, mic_R d)"
  let ?d = "d\<lparr>mic_L := fst ?lr, mic_R := snd ?lr, mic_M := 0, mic_nBytesInM := 0\<rparr>"
  have "foldl rtw_secmicappendbyte d (a # b # c # e # rest) = foldl rtw_secmicappendbyte ?d rest"
    using append_four [OF 1(2,3), of a b c e] by (simp add: Let_def split_beta)
  also have "\<dots> = (let (l, r) = michael_words (mic_L ?d, mic_R ?d) rest in ?d\<lparr>mic_L := l, mic_R := r\<rparr>)"
    by (rule "1.hyps") (use "1.prems" in simp_all)
  finally show ?case using 1(2,3) by (simp add: Let_def split_beta)
qed (auto simp: Let_def)

lemma count_append:
  "mic_nBytesInM d < 4 \<Longrightarrow>
   mic_nBytesInM (foldl rtw_secmicappendbyte d msg) = (mic_nBytesInM d + length msg) mod 4"
proof (induction msg arbitrary: d)
  case (Cons b msg)
  have "mic_nBytesInM (rtw_secmicappendbyte d b) = (mic_nBytesInM d + 1) mod 4"
    using Cons.prems by (cases "mic_nBytesInM d = 3") (simp_all add: rtw_secmicappendbyte_def Let_def)
  then show ?case using Cons by (simp add: mod_simps)
qed simp

text \<open>The padding loop stops after at most three turns, having appended that many zeroes.\<close>

lemma secmic_pad_enough:
  assumes "mic_nBytesInM d < 4"
  shows "secmic_pad 3 d =
    Some (foldl rtw_secmicappendbyte d (replicate ((4 - mic_nBytesInM d) mod 4) 0))"
proof -
  have n: "mic_nBytesInM (rtw_secmicappendbyte e 0) = Suc 0" if "mic_nBytesInM e = 0" for e
    using that by (simp add: appendbyte_partial)
  have n1: "mic_nBytesInM (rtw_secmicappendbyte e 0) = 2" if "mic_nBytesInM e = Suc 0" for e
    using that by (simp add: appendbyte_partial)
  have n2: "mic_nBytesInM (rtw_secmicappendbyte e 0) = 3" if "mic_nBytesInM e = 2" for e
    using that by (simp add: appendbyte_partial)
  have n3: "mic_nBytesInM (rtw_secmicappendbyte e 0) = 0" if "mic_nBytesInM e = 3" for e
    using that by (simp add: appendbyte_full Let_def split_beta)
  have fuel: "secmic_pad 3 d = secmic_pad (Suc (Suc (Suc 0))) d" by (simp add: numeral_3_eq_3)
  from assms consider "mic_nBytesInM d = 0" | "mic_nBytesInM d = Suc 0" | "mic_nBytesInM d = 2"
    | "mic_nBytesInM d = 3" by linarith
  then show ?thesis
  proof cases
    case 2
    have r: "replicate 3 (0 :: byte) = [0, 0, 0]" by code_simp
    show ?thesis unfolding fuel by (simp add: 2 n1 [OF 2] n2 [OF n1 [OF 2]] n3 [OF n2 [OF n1 [OF 2]]] r)
  next
    case 3
    have r: "replicate 2 (0 :: byte) = [0, 0]" by code_simp
    show ?thesis unfolding fuel by (simp add: 3 n2 [OF 3] n3 [OF n2 [OF 3]] r)
  next
    case 4
    show ?thesis unfolding fuel by (simp add: 4 n3 [OF 4])
  qed (simp add: fuel)
qed

lemma secmic_pad_count:
  assumes "mic_nBytesInM d = 0"
  shows "secmic_pad 3 (foldl rtw_secmicappendbyte d (msg @ [0x5a, 0, 0, 0, 0])) =
    Some (foldl rtw_secmicappendbyte d (michael_pad msg))"
proof -
  let ?e = "foldl rtw_secmicappendbyte d (msg @ [0x5a, 0, 0, 0, 0])"
  have c: "mic_nBytesInM ?e = (length msg + 5) mod 4"
    using count_append [of d "msg @ [0x5a, 0, 0, 0, 0]"] assms by (simp add: add.commute)
  have "michael_pad msg = (msg @ [0x5a, 0, 0, 0, 0]) @ replicate ((4 - (length msg + 5) mod 4) mod 4) 0"
    by (simp add: michael_pad_def)
  then have "foldl rtw_secmicappendbyte d (michael_pad msg) =
      foldl rtw_secmicappendbyte ?e (replicate ((4 - (length msg + 5) mod 4) mod 4) 0)"
    by (simp only: foldl_append)
  moreover have "mic_nBytesInM ?e < 4" unfolding c by simp
  then have "secmic_pad 3 ?e =
      Some (foldl rtw_secmicappendbyte ?e (replicate ((4 - (length msg + 5) mod 4) mod 4) 0))"
    using secmic_pad_enough [of ?e] unfolding c by blast
  ultimately show ?thesis by (simp only:)
qed

section \<open>Properties\<close>

lemma calctkipmic_spec:
  "rtw_seccalctkipmic key header data pri =
     Some (michael_spec key (tkip_pseudo_header header pri @ data))"
proof -
  let ?d = "rtw_secmicsetkey zero_mic key"
  let ?msg = "tkip_pseudo_header header pri @ data"
  have z: "mic_nBytesInM ?d = 0" "mic_M ?d = 0"
    by (simp_all add: rtw_secmicsetkey_def secmicclear_def)
  have w: "foldl rtw_secmicappendbyte ?d (michael_pad ?msg) =
     (let (l, r) = michael_words (mic_L ?d, mic_R ?d) (michael_pad ?msg) in ?d\<lparr>mic_L := l, mic_R := r\<rparr>)"
    by (rule append_words [OF z michael_pad_length])
  have p: "secmic_pad 3 (foldl rtw_secmicappendbyte ?d (?msg @ [0x5a, 0, 0, 0, 0])) =
     Some (foldl rtw_secmicappendbyte ?d (michael_pad ?msg))"
    by (rule secmic_pad_count [OF z(1)])
  have "rtw_secgetmic (rtw_secmicappend (rtw_secmicappend ?d (tkip_pseudo_header header pri)) data) =
      (let e = foldl rtw_secmicappendbyte ?d (michael_pad ?msg)
       in Some (secmicputuint32 (mic_L e) @ secmicputuint32 (mic_R e), secmicclear e))"
    using p by (simp only: rtw_secgetmic_def rtw_secmicappend_def foldl_append [symmetric]
        append_assoc bind.bind_lunit Let_def)
  then show ?thesis
    unfolding w
    by (simp add: rtw_seccalctkipmic_def Let_def split_beta
        michael_spec_def rtw_secmicsetkey_def secmicclear_def)
qed

text \<open>
  C6: \<open>rtw_seccalctkipmic\<close> returns, and its result is the Michael code of the pseudo header
  and the data as the standard defines it over 32-bit words.
\<close>

theorem seccalctkipmic_correct:
  "rtw_seccalctkipmic key header data pri =
     Some (michael_spec key (tkip_pseudo_header header pri @ data))"
  by (rule calctkipmic_spec)

lemma michael_block_inj: "michael_block x = michael_block y \<Longrightarrow> x = y"
proof -
  have r: "r XOR a = s XOR a \<Longrightarrow> r = s" for r s a :: u32
    by (metis word_xor_cancel(1))
  assume "michael_block x = michael_block y"
  then show "x = y"
    by (cases x; cases y) (auto simp: michael_block_def Let_def dest!: r)
qed

text \<open>
  The block function loses no information: two accumulators that agree after the same four
  bytes agreed before them.
\<close>

lemma secmicappend_word_injective:
  assumes "mic_nBytesInM d = 0" and "mic_M d = 0" and "mic_nBytesInM e = 0" and "mic_M e = 0"
    and "foldl rtw_secmicappendbyte d [a, b, c, f] = foldl rtw_secmicappendbyte e [a, b, c, f]"
  shows "mic_L d = mic_L e \<and> mic_R d = mic_R e"
proof -
  let ?w = "le_word a b c f"
  have "michael_block (mic_L d XOR ?w, mic_R d) = michael_block (mic_L e XOR ?w, mic_R e)"
    using arg_cong [OF assms(5), of "\<lambda>s. (mic_L s, mic_R s)"]
    unfolding append_four [OF assms(1,2)] append_four [OF assms(3,4)]
    by (simp add: Let_def split_beta)
  then show ?thesis by (metis michael_block_inj prod.inject word_xor_cancel(1))
qed

end
