(* ===== verification/Tkip.thy ===== *)
theory Tkip
  imports Wep StaMgt
begin

text \<open>
  TKIP in \<open>core/rtw_security.c\<close>: the key mixing (\<open>phase1\<close>, \<open>phase2\<close> with the table \<open>Sbox1\<close>),
  the packet number, \<open>rtw_tkip_encrypt\<close>, \<open>rtw_tkip_decrypt\<close> with their choice of key, and the
  countermeasures.  The theory proves what the comment at \<open>phase2\<close> claims, that distinct
  \<open>{TA, IV32, IV16}\<close> give distinct RC4 keys, and the round trip of the frames of a linked
  station.
\<close>

section \<open>The substitution table\<close>

definition Sbox1_0 :: "u16 list" where
  "Sbox1_0 = [
     0xC6A5, 0xF884, 0xEE99, 0xF68D, 0xFF0D, 0xD6BD, 0xDEB1, 0x9154,
     0x6050, 0x0203, 0xCEA9, 0x567D, 0xE719, 0xB562, 0x4DE6, 0xEC9A,
     0x8F45, 0x1F9D, 0x8940, 0xFA87, 0xEF15, 0xB2EB, 0x8EC9, 0xFB0B,
     0x41EC, 0xB367, 0x5FFD, 0x45EA, 0x23BF, 0x53F7, 0xE496, 0x9B5B,
     0x75C2, 0xE11C, 0x3DAE, 0x4C6A, 0x6C5A, 0x7E41, 0xF502, 0x834F,
     0x685C, 0x51F4, 0xD134, 0xF908, 0xE293, 0xAB73, 0x6253, 0x2A3F,
     0x080C, 0x9552, 0x4665, 0x9D5E, 0x3028, 0x37A1, 0x0A0F, 0x2FB5,
     0x0E09, 0x2436, 0x1B9B, 0xDF3D, 0xCD26, 0x4E69, 0x7FCD, 0xEA9F,
     0x121B, 0x1D9E, 0x5874, 0x342E, 0x362D, 0xDCB2, 0xB4EE, 0x5BFB,
     0xA4F6, 0x764D, 0xB761, 0x7DCE, 0x527B, 0xDD3E, 0x5E71, 0x1397,
     0xA6F5, 0xB968, 0x0000, 0xC12C, 0x4060, 0xE31F, 0x79C8, 0xB6ED,
     0xD4BE, 0x8D46, 0x67D9, 0x724B, 0x94DE, 0x98D4, 0xB0E8, 0x854A,
     0xBB6B, 0xC52A, 0x4FE5, 0xED16, 0x86C5, 0x9AD7, 0x6655, 0x1194,
     0x8ACF, 0xE910, 0x0406, 0xFE81, 0xA0F0, 0x7844, 0x25BA, 0x4BE3,
     0xA2F3, 0x5DFE, 0x80C0, 0x058A, 0x3FAD, 0x21BC, 0x7048, 0xF104,
     0x63DF, 0x77C1, 0xAF75, 0x4263, 0x2030, 0xE51A, 0xFD0E, 0xBF6D,
     0x814C, 0x1814, 0x2635, 0xC32F, 0xBEE1, 0x35A2, 0x88CC, 0x2E39,
     0x9357, 0x55F2, 0xFC82, 0x7A47, 0xC8AC, 0xBAE7, 0x322B, 0xE695,
     0xC0A0, 0x1998, 0x9ED1, 0xA37F, 0x4466, 0x547E, 0x3BAB, 0x0B83,
     0x8CCA, 0xC729, 0x6BD3, 0x283C, 0xA779, 0xBCE2, 0x161D, 0xAD76,
     0xDB3B, 0x6456, 0x744E, 0x141E, 0x92DB, 0x0C0A, 0x486C, 0xB8E4,
     0x9F5D, 0xBD6E, 0x43EF, 0xC4A6, 0x39A8, 0x31A4, 0xD337, 0xF28B,
     0xD532, 0x8B43, 0x6E59, 0xDAB7, 0x018C, 0xB164, 0x9CD2, 0x49E0,
     0xD8B4, 0xACFA, 0xF307, 0xCF25, 0xCAAF, 0xF48E, 0x47E9, 0x1018,
     0x6FD5, 0xF088, 0x4A6F, 0x5C72, 0x3824, 0x57F1, 0x73C7, 0x9751,
     0xCB23, 0xA17C, 0xE89C, 0x3E21, 0x96DD, 0x61DC, 0x0D86, 0x0F85,
     0xE090, 0x7C42, 0x71C4, 0xCCAA, 0x90D8, 0x0605, 0xF701, 0x1C12,
     0xC2A3, 0x6A5F, 0xAEF9, 0x69D0, 0x1791, 0x9958, 0x3A27, 0x27B9,
     0xD938, 0xEB13, 0x2BB3, 0x2233, 0xD2BB, 0xA970, 0x0789, 0x33A7,
     0x2DB6, 0x3C22, 0x1592, 0xC920, 0x8749, 0xAAFF, 0x5078, 0xA57A,
     0x038F, 0x59F8, 0x0980, 0x1A17, 0x65DA, 0xD731, 0x84C6, 0xD0B8,
     0x82C3, 0x29B0, 0x5A77, 0x1E11, 0x7BCB, 0xA8FC, 0x6DD6, 0x2C3A]"

definition Sbox1_1 :: "u16 list" where
  "Sbox1_1 = [
     0xA5C6, 0x84F8, 0x99EE, 0x8DF6, 0x0DFF, 0xBDD6, 0xB1DE, 0x5491,
     0x5060, 0x0302, 0xA9CE, 0x7D56, 0x19E7, 0x62B5, 0xE64D, 0x9AEC,
     0x458F, 0x9D1F, 0x4089, 0x87FA, 0x15EF, 0xEBB2, 0xC98E, 0x0BFB,
     0xEC41, 0x67B3, 0xFD5F, 0xEA45, 0xBF23, 0xF753, 0x96E4, 0x5B9B,
     0xC275, 0x1CE1, 0xAE3D, 0x6A4C, 0x5A6C, 0x417E, 0x02F5, 0x4F83,
     0x5C68, 0xF451, 0x34D1, 0x08F9, 0x93E2, 0x73AB, 0x5362, 0x3F2A,
     0x0C08, 0x5295, 0x6546, 0x5E9D, 0x2830, 0xA137, 0x0F0A, 0xB52F,
     0x090E, 0x3624, 0x9B1B, 0x3DDF, 0x26CD, 0x694E, 0xCD7F, 0x9FEA,
     0x1B12, 0x9E1D, 0x7458, 0x2E34, 0x2D36, 0xB2DC, 0xEEB4, 0xFB5B,
     0xF6A4, 0x4D76, 0x61B7, 0xCE7D, 0x7B52, 0x3EDD, 0x715E, 0x9713,
     0xF5A6, 0x68B9, 0x0000, 0x2CC1, 0x6040, 0x1FE3, 0xC879, 0xEDB6,
     0xBED4, 0x468D, 0xD967, 0x4B72, 0xDE94, 0xD498, 0xE8B0, 0x4A85,
     0x6BBB, 0x2AC5, 0xE54F, 0x16ED, 0xC586, 0xD79A, 0x5566, 0x9411,
     0xCF8A, 0x10E9, 0x0604, 0x81FE, 0xF0A0, 0x4478, 0xBA25, 0xE34B,
     0xF3A2, 0xFE5D, 0xC080, 0x8A05, 0xAD3F, 0xBC21, 0x4870, 0x04F1,
     0xDF63, 0xC177, 0x75AF, 0x6342, 0x3020, 0x1AE5, 0x0EFD, 0x6DBF,
     0x4C81, 0x1418, 0x3526, 0x2FC3, 0xE1BE, 0xA235, 0xCC88, 0x392E,
     0x5793, 0xF255, 0x82FC, 0x477A, 0xACC8, 0xE7BA, 0x2B32, 0x95E6,
     0xA0C0, 0x9819, 0xD19E, 0x7FA3, 0x6644, 0x7E54, 0xAB3B, 0x830B,
     0xCA8C, 0x29C7, 0xD36B, 0x3C28, 0x79A7, 0xE2BC, 0x1D16, 0x76AD,
     0x3BDB, 0x5664, 0x4E74, 0x1E14, 0xDB92, 0x0A0C, 0x6C48, 0xE4B8,
     0x5D9F, 0x6EBD, 0xEF43, 0xA6C4, 0xA839, 0xA431, 0x37D3, 0x8BF2,
     0x32D5, 0x438B, 0x596E, 0xB7DA, 0x8C01, 0x64B1, 0xD29C, 0xE049,
     0xB4D8, 0xFAAC, 0x07F3, 0x25CF, 0xAFCA, 0x8EF4, 0xE947, 0x1810,
     0xD56F, 0x88F0, 0x6F4A, 0x725C, 0x2438, 0xF157, 0xC773, 0x5197,
     0x23CB, 0x7CA1, 0x9CE8, 0x213E, 0xDD96, 0xDC61, 0x860D, 0x850F,
     0x90E0, 0x427C, 0xC471, 0xAACC, 0xD890, 0x0506, 0x01F7, 0x121C,
     0xA3C2, 0x5F6A, 0xF9AE, 0xD069, 0x9117, 0x5899, 0x273A, 0xB927,
     0x38D9, 0x13EB, 0xB32B, 0x3322, 0xBBD2, 0x70A9, 0x8907, 0xA733,
     0xB62D, 0x223C, 0x9215, 0x20C9, 0x4987, 0xFFAA, 0x7850, 0x7AA5,
     0x8F03, 0xF859, 0x8009, 0x171A, 0xDA65, 0x31D7, 0xC684, 0xB8D0,
     0xC382, 0xB029, 0x775A, 0x111E, 0xCB7B, 0xFCA8, 0xD66D, 0x3A2C]"

section \<open>Key mixing\<close>

definition RotR1 :: "u16 \<Rightarrow> u16" where
  "RotR1 v = (drop_bit 1 v AND 0x7FFF) XOR push_bit 15 (v AND 1)"

definition Lo8 :: "u16 \<Rightarrow> byte" where "Lo8 v = ucast (v AND 0x00FF)"

definition Hi8 :: "u16 \<Rightarrow> byte" where "Hi8 v = ucast (drop_bit 8 v AND 0x00FF)"

definition Lo16 :: "u32 \<Rightarrow> u16" where "Lo16 v = ucast (v AND 0xFFFF)"

definition Hi16 :: "u32 \<Rightarrow> u16" where "Hi16 v = ucast (drop_bit 16 v AND 0xFFFF)"

definition Mk16 :: "byte \<Rightarrow> byte \<Rightarrow> u16" where
  "Mk16 hi lo = ucast lo XOR push_bit 8 (ucast hi)"

definition TK16 :: "byte list \<Rightarrow> nat \<Rightarrow> u16" where
  "TK16 tk n = Mk16 (tk ! (2 * n + 1)) (tk ! (2 * n))"

definition S_box :: "u16 \<Rightarrow> u16" where
  "S_box v = Sbox1_0 ! unat (Lo8 v) XOR Sbox1_1 ! unat (Hi8 v)"

text \<open>The five words of \<open>p1k\<close> and the six of \<open>PPK\<close> are tuples.\<close>

type_synonym p1k = "u16 \<times> u16 \<times> u16 \<times> u16 \<times> u16"

definition phase1_round :: "byte list \<Rightarrow> nat \<Rightarrow> p1k \<Rightarrow> p1k" where
  "phase1_round tk i = (\<lambda>(p0, p1, p2, p3, p4).
     let p0 = p0 + S_box (p4 XOR TK16 tk (i mod 2 + 0));
         p1 = p1 + S_box (p0 XOR TK16 tk (i mod 2 + 2));
         p2 = p2 + S_box (p1 XOR TK16 tk (i mod 2 + 4));
         p3 = p3 + S_box (p2 XOR TK16 tk (i mod 2 + 6));
         p4 = p4 + S_box (p3 XOR TK16 tk (i mod 2 + 0));
         p4 = p4 + of_nat i
     in (p0, p1, p2, p3, p4))"

definition PHASE1_LOOP_CNT :: nat where "PHASE1_LOOP_CNT = 8"

definition phase1 :: "byte list \<Rightarrow> byte list \<Rightarrow> u32 \<Rightarrow> p1k" where
  "phase1 tk ta iv32 =
     fold (phase1_round tk) [0..<PHASE1_LOOP_CNT]
       (Lo16 iv32, Hi16 iv32, Mk16 (ta ! 1) (ta ! 0), Mk16 (ta ! 3) (ta ! 2), Mk16 (ta ! 5) (ta ! 4))"

definition phase2 :: "byte list \<Rightarrow> p1k \<Rightarrow> u16 \<Rightarrow> byte list" where
  "phase2 tk = (\<lambda>(q0, q1, q2, q3, q4) iv16.
     let q5 = q4 + iv16;
         q0 = q0 + S_box (q5 XOR TK16 tk 0);
         q1 = q1 + S_box (q0 XOR TK16 tk 1);
         q2 = q2 + S_box (q1 XOR TK16 tk 2);
         q3 = q3 + S_box (q2 XOR TK16 tk 3);
         q4 = q4 + S_box (q3 XOR TK16 tk 4);
         q5 = q5 + S_box (q4 XOR TK16 tk 5);
         q0 = q0 + RotR1 (q5 XOR TK16 tk 6);
         q1 = q1 + RotR1 (q0 XOR TK16 tk 7);
         q2 = q2 + RotR1 q1;
         q3 = q3 + RotR1 q2;
         q4 = q4 + RotR1 q3;
         q5 = q5 + RotR1 q4
     in [Hi8 iv16, (Hi8 iv16 OR 0x20) AND 0x7F, Lo8 iv16, Lo8 (drop_bit 1 (q5 XOR TK16 tk 0)),
         Lo8 q0, Hi8 q0, Lo8 q1, Hi8 q1, Lo8 q2, Hi8 q2, Lo8 q3, Hi8 q3, Lo8 q4, Hi8 q4,
         Lo8 q5, Hi8 q5])"

text \<open>The IV carries the packet number; \<open>pnl\<close> is its low 16 bits, \<open>pnh\<close> the next 32.\<close>

definition GET_TKIP_PN :: "byte list \<Rightarrow> u64" where
  "GET_TKIP_PN iv =
     ucast (iv ! 2) OR push_bit 8 (ucast (iv ! 0)) OR push_bit 16 (ucast (iv ! 4)) OR
     push_bit 24 (ucast (iv ! 5)) OR push_bit 32 (ucast (iv ! 6)) OR push_bit 40 (ucast (iv ! 7))"

definition tkip_rc4key :: "byte list \<Rightarrow> mac \<Rightarrow> u64 \<Rightarrow> byte list" where
  "tkip_rc4key tk ta pn = phase2 tk (phase1 tk ta (ucast (drop_bit 16 pn))) (ucast pn)"

section \<open>The frames\<close>

definition tkip_key :: "byte list \<Rightarrow> mac \<Rightarrow> nat \<Rightarrow> byte list \<Rightarrow> nat \<Rightarrow> (byte list \<times> nat) option" where
  "tkip_key tk ta hdrlen m pframe = do {
     iv \<leftarrow> rd_slice m (pframe + hdrlen) 8;
     Some (tkip_rc4key tk ta (GET_TKIP_PN iv), 16)
   }"

definition rtw_tkip_encrypt ::
  "adapter \<Rightarrow> pkt_attrib \<Rightarrow> nat \<Rightarrow> xmit_buf option \<Rightarrow> (nat \<times> xmit_buf option) option" where
  "rtw_tkip_encrypt ad px pkt_offset buf =
     (case buf of
        None \<Rightarrow> Some (FAIL, None)
      | Some xb \<Rightarrow>
          if px_encrypt px = TKIP then
            case (case px_psta px of Some p \<Rightarrow> Some p | None \<Rightarrow> rtw_get_stainfo (stapriv ad) (px_ra px)) of
              None \<Rightarrow> Some (FAIL, Some xb)
            | Some p \<Rightarrow>
                let si = sta_buf (stapriv ad) p; sec = securitypriv ad in
                if si_state si AND FW_LINKED = 0 then Some (FAIL, Some xb)
                else
                  let prwskey = (if IS_MCAST (px_ra px) then sec_GrpKey sec (sec_GrpKeyid sec)
                                 else si_UncstKey si)
                  in do {
                    m \<leftarrow> frags_loop
                           (icv_seal (tkip_key prwskey (px_ta px) (px_hdrlen px))
                                     (px_iv_len px + px_hdrlen px))
                           (xb_addr xb) (xp_frag_len (xmitpriv ad)) px (px_nr_frags px)
                           (first_pframe pkt_offset) (xb_mem xb);
                    Some (SUCCESS, Some (xb\<lparr>xb_mem := m\<rparr>))
                  }
          else Some (SUCCESS, Some xb))"

definition rtw_tkip_decrypt :: "adapter \<Rightarrow> recv_frame \<Rightarrow> (nat \<times> recv_frame) option" where
  "rtw_tkip_decrypt ad rf =
     (let rx = rf_attrib rf; sec = securitypriv ad in
      if rx_encrypt rx = TKIP then
        case rtw_get_stainfo (stapriv ad) (rx_ta rx) of
          None \<Rightarrow> Some (FAIL, rf)
        | Some p \<Rightarrow>
            if IS_MCAST (rx_ra rx) \<and> \<not> sec_binstallGrpkey sec then Some (FAIL, rf)
            else
              let prwskey = (if IS_MCAST (rx_ra rx) then sec_GrpKey sec (rx_key_index rx)
                             else si_UncstKey (sta_buf (stapriv ad) p))
              in do {
                (d, icv_ok) \<leftarrow> icv_open (tkip_key prwskey (rx_ta rx) (rx_hdrlen rx))
                                 (rx_iv_len rx + rx_hdrlen rx) (rf_data rf);
                Some (if icv_ok then SUCCESS else FAIL, rf\<lparr>rf_data := d\<rparr>)
              }
      else Some (SUCCESS, rf))"

section \<open>Countermeasures\<close>

text \<open>\<open>passing_ms\<close> is the time since \<open>btkip_countermeasure_time\<close>, which the kernel's clock gives.\<close>

definition rtw_handle_tkip_countermeasure ::
  "security_priv \<Rightarrow> u32 \<Rightarrow> nat \<times> security_priv" where
  "rtw_handle_tkip_countermeasure sec passing_ms =
     (if sec_btkip_countermeasure sec then
        if passing_ms > 60 * 1000
        then (SUCCESS, sec\<lparr>sec_btkip_countermeasure := False, sec_btkip_countermeasure_time := 0\<rparr>)
        else (FAIL, sec)
      else (SUCCESS, sec))"

section \<open>The key mixing is injective\<close>

lemma phase1_round_inj: "phase1_round tk i p = phase1_round tk i q \<Longrightarrow> p = q"
  by (cases p, cases q) (auto simp: phase1_round_def Let_def)

lemma phase1_rounds_inj: "fold (phase1_round tk) is p = fold (phase1_round tk) is q \<Longrightarrow> p = q"
proof (induction "is" arbitrary: p q)
  case (Cons i "is")
  then have "phase1_round tk i p = phase1_round tk i q" by simp
  then show ?case by (rule phase1_round_inj)
qed simp

lemma u16_bytes_eq:
  assumes "Lo8 v = Lo8 w" and "Hi8 v = Hi8 w"
  shows "v = w"
proof (rule bit_word_eqI)
  fix n assume n: "n < LENGTH(16)"
  have ff: "(0x00FF :: u16) = mask 8" by (simp add: mask_eq_exp_minus_1)
  have l: "bit v k \<longleftrightarrow> bit w k" if "k < 8" for k
    using arg_cong [OF assms(1), of "\<lambda>x. bit x k"] that
    by (simp add: Lo8_def ff bit_simps)
  have h: "bit v (8 + k) \<longleftrightarrow> bit w (8 + k)" if "k < 8" for k
    using arg_cong [OF assms(2), of "\<lambda>x. bit x k"] that
    by (simp add: Hi8_def ff bit_simps)
  show "bit v n \<longleftrightarrow> bit w n"
    using l [of n] h [of "n - 8"] n by (cases "n < 8") auto
qed

lemma Mk16_inj: "Mk16 a b = Mk16 c d \<longleftrightarrow> a = c \<and> b = d"
proof
  assume eq: "Mk16 a b = Mk16 c d"
  have b: "bit b k \<longleftrightarrow> bit d k" if "k < 8" for k
    using arg_cong [OF eq, of "\<lambda>x. bit x k"] that by (simp add: Mk16_def bit_simps)
  have a: "bit a k \<longleftrightarrow> bit c k" if "k < 8" for k
    using arg_cong [OF eq, of "\<lambda>x. bit x (8 + k)"] that
    by (simp add: Mk16_def bit_simps) (meson bit_byte_ge not_add_less1)
  show "a = c \<and> b = d" using a b by (auto intro: bit_word_eqI)
qed simp

lemma u32_halves_eq:
  assumes "Lo16 v = Lo16 w" and "Hi16 v = Hi16 w"
  shows "v = w"
proof (rule bit_word_eqI)
  fix n assume n: "n < LENGTH(32)"
  have ff: "(0xFFFF :: u32) = mask 16" by (simp add: mask_eq_exp_minus_1)
  have l: "bit v k \<longleftrightarrow> bit w k" if "k < 16" for k
    using arg_cong [OF assms(1), of "\<lambda>x. bit x k"] that
    by (simp add: Lo16_def ff bit_simps)
  have h: "bit v (16 + k) \<longleftrightarrow> bit w (16 + k)" if "k < 16" for k
    using arg_cong [OF assms(2), of "\<lambda>x. bit x k"] that
    by (simp add: Hi16_def ff bit_simps)
  show "bit v n \<longleftrightarrow> bit w n"
    using l [of n] h [of "n - 16"] n by (cases "n < 16") auto
qed

lemma phase1_inj:
  assumes "phase1 tk ta iv32 = phase1 tk ta' iv32'" and "is_mac ta" and "is_mac ta'"
  shows "ta = ta'" and "iv32 = iv32'"
proof -
  have eq: "Lo16 iv32 = Lo16 iv32'" "Hi16 iv32 = Hi16 iv32'"
    and ta: "ta ! 0 = ta' ! 0" "ta ! 1 = ta' ! 1" "ta ! 2 = ta' ! 2" "ta ! 3 = ta' ! 3"
      "ta ! 4 = ta' ! 4" "ta ! 5 = ta' ! 5"
    using phase1_rounds_inj [OF assms(1) [unfolded phase1_def]] by (simp_all add: Mk16_inj)
  show "iv32 = iv32'" by (rule u32_halves_eq) (fact eq)+
  have "\<forall>i < 6. ta ! i = ta' ! i"
    using ta by (auto simp: numeral_eq_Suc less_Suc_eq)
  then show "ta = ta'" using assms(2,3) by (intro nth_equalityI) (auto simp: is_mac_def)
qed

lemma phase2_inj:
  assumes "phase2 tk p iv16 = phase2 tk p' iv16'"
  shows "p = p'" and "iv16 = iv16'"
proof -
  obtain a b c d e where p: "p = (a, b, c, d, e)" by (metis prod.collapse)
  obtain a' b' c' d' e' where p': "p' = (a', b', c', d', e')" by (metis prod.collapse)
  show iv: "iv16 = iv16'"
    by (rule u16_bytes_eq) (use assms in \<open>simp_all add: phase2_def p p' Let_def\<close>)
  show "p = p'"
    using assms unfolding p p' iv phase2_def Let_def by (auto dest!: u16_bytes_eq)
qed

text \<open>
  C2: what the comments at \<open>phase1\<close> and \<open>phase2\<close> of \<open>core/rtw_security.c\<close> claim: under one
  temporal key, two packets get the same RC4 key only if transmitter address, \<open>IV32\<close> and
  \<open>IV16\<close> all agree.
\<close>

theorem tkip_rc4key_unique:
  assumes "phase2 tk (phase1 tk ta iv32) iv16 = phase2 tk (phase1 tk ta' iv32') iv16'"
    and "is_mac ta" and "is_mac ta'"
  shows "ta = ta' \<and> iv32 = iv32' \<and> iv16 = iv16'"
  using phase2_inj [OF assms(1)] phase1_inj [OF _ assms(2,3)] by blast

theorem tkip_rc4key_unique_witness:
  "phase2 (replicate 16 5) (phase1 (replicate 16 5) [1, 2, 3, 4, 5, 6] 7) 8 \<noteq>
   phase2 (replicate 16 5) (phase1 (replicate 16 5) [1, 2, 3, 4, 5, 6] 7) 9 \<and> is_mac [1, 2, 3, 4, 5, 6]"
  using tkip_rc4key_unique [of "replicate 16 5" "[1, 2, 3, 4, 5, 6]" 7 8 "[1, 2, 3, 4, 5, 6]" 7 9]
  by (auto simp: is_mac_def)

section \<open>Frames\<close>

definition tkip_ok :: "nat \<Rightarrow> byte list \<Rightarrow> bool" where
  "tkip_ok iv_len h \<longleftrightarrow> 8 \<le> iv_len"

interpretation tkip: icv_cipher "tkip_key tk ta hdrlen" "iv_len + hdrlen" "tkip_ok iv_len"
  for tk ta hdrlen iv_len
proof
  fix h pre rest :: "byte list" and pf
  assume ok: "tkip_ok iv_len h" and lh: "length h = iv_len + hdrlen"
  then have l: "hdrlen + 8 \<le> length h" by (simp add: tkip_ok_def)
  show "length pre = pf \<Longrightarrow> tkip_key tk ta hdrlen (pre @ h @ rest) pf = tkip_key tk ta hdrlen h 0"
    using l by (auto simp: tkip_key_def rd_slice_def)
  show "\<exists>k. tkip_key tk ta hdrlen h 0 = Some k"
    using l by (simp add: tkip_key_def rd_slice_def)
qed

text \<open>
  A receiver that shares the transmitter's key: the pairwise key for a unicast frame, the
  group key under the frame's key index for a multicast one.
\<close>

definition tkip_peer :: "byte list \<Rightarrow> pkt_attrib \<Rightarrow> adapter \<Rightarrow> rx_pkt_attrib \<Rightarrow> bool" where
  "tkip_peer key px ad' rx \<longleftrightarrow>
     rx_encrypt rx = TKIP \<and> rx_hdrlen rx = px_hdrlen px \<and> rx_iv_len rx = px_iv_len px \<and>
     rx_ta rx = px_ta px \<and> rx_ra rx = px_ra px \<and>
     (\<exists>p'. rtw_get_stainfo (stapriv ad') (rx_ta rx) = Some p' \<and>
        (if IS_MCAST (rx_ra rx)
         then sec_binstallGrpkey (securitypriv ad') \<and>
              sec_GrpKey (securitypriv ad') (rx_key_index rx) = key
         else si_UncstKey (sta_buf (stapriv ad') p') = key))"

text \<open>
  C1: TKIP round trip.  For a linked station and fragments that fit their buffer,
  \<open>rtw_tkip_encrypt\<close> succeeds without touching anything outside the buffer, and a receiver
  with the same keys turns every fragment back into its header, IV and payload and accepts
  its ICV.
\<close>

theorem tkip_roundtrip:
  assumes "px_encrypt px = TKIP" and "8 \<le> px_iv_len px" and "px_psta px = Some p"
    and "si_state (sta_buf (stapriv ad) p) AND FW_LINKED \<noteq> 0"
    and "frags_fit 4 (xp_frag_len (xmitpriv ad)) px (xb_addr xb) (first_pframe pkt_offset) (xb_mem xb)"
  shows "\<exists>xb'. rtw_tkip_encrypt ad px pkt_offset (Some xb) = Some (SUCCESS, Some xb') \<and>
    (\<forall>k < px_nr_frags px. \<forall>ad' rf. tkip_peer (tx_key ad px p) px ad' (rf_attrib rf) \<longrightarrow>
       rf_data rf = slice (frag_start (xb_addr xb) (xp_frag_len (xmitpriv ad)) (first_pframe pkt_offset) k)
         (px_iv_len px + px_hdrlen px +
          nat (frag_length (xp_frag_len (xmitpriv ad)) px (px_nr_frags px) k) + 4) (xb_mem xb') \<longrightarrow>
       (\<exists>rf'. rtw_tkip_decrypt ad' rf = Some (SUCCESS, rf') \<and>
          take (length (rf_data rf') - 4) (rf_data rf') =
          slice (frag_start (xb_addr xb) (xp_frag_len (xmitpriv ad)) (first_pframe pkt_offset) k)
            (px_iv_len px + px_hdrlen px +
             nat (frag_length (xp_frag_len (xmitpriv ad)) px (px_nr_frags px) k)) (xb_mem xb)))"
proof -
  let ?fl = "xp_frag_len (xmitpriv ad)" and ?pf = "first_pframe pkt_offset"
  let ?kd = "tkip_key (tx_key ad px p) (px_ta px) (px_hdrlen px)"
  let ?hdr = "px_iv_len px + px_hdrlen px"
  have ok: "tkip_ok (px_iv_len px) h" for h using assms(2) by (simp add: tkip_ok_def)
  obtain m' where m': "frags_loop (icv_seal ?kd ?hdr) (xb_addr xb) ?fl px (px_nr_frags px) ?pf
        (xb_mem xb) = Some m'"
    and un: "\<forall>k < px_nr_frags px. icv_unseal ?kd ?hdr
        (slice (frag_start (xb_addr xb) ?fl ?pf k)
          (?hdr + nat (frag_length ?fl px (px_nr_frags px) k) + 4) m') =
        Some (slice (frag_start (xb_addr xb) ?fl ?pf k)
          (?hdr + nat (frag_length ?fl px (px_nr_frags px) k)) (xb_mem xb))"
    using tkip.frags_loop_roundtrip [OF frags_fit_mid [OF assms(5)], of "px_nr_frags px" "xb_addr xb"
        ?pf "xb_mem xb"] ok assms(5)
    unfolding frags_fit_def by metis
  show ?thesis
  proof (intro exI [of _ "xb\<lparr>xb_mem := m'\<rparr>"] conjI allI impI)
    show "rtw_tkip_encrypt ad px pkt_offset (Some xb) = Some (SUCCESS, Some (xb\<lparr>xb_mem := m'\<rparr>))"
      using assms(1,3,4) m' by (simp add: rtw_tkip_encrypt_def Let_def tx_key_def)
  next
    fix k ad' and rf :: recv_frame
    assume k: "k < px_nr_frags px" and rx: "tkip_peer (tx_key ad px p) px ad' (rf_attrib rf)"
      and data: "rf_data rf = slice (frag_start (xb_addr xb) ?fl ?pf k)
         (?hdr + nat (frag_length ?fl px (px_nr_frags px) k) + 4) (xb_mem (xb\<lparr>xb_mem := m'\<rparr>))"
    then obtain d where d: "icv_open ?kd ?hdr (rf_data rf) = Some (d, True)"
      "take (length d - 4) d = slice (frag_start (xb_addr xb) ?fl ?pf k)
          (?hdr + nat (frag_length ?fl px (px_nr_frags px) k)) (xb_mem xb)"
      using un [rule_format, OF k] by (auto simp: icv_unseal_def split: option.splits if_splits)
    have "rtw_tkip_decrypt ad' rf = Some (SUCCESS, rf\<lparr>rf_data := d\<rparr>)"
      using rx d(1) by (auto simp: rtw_tkip_decrypt_def tkip_peer_def Let_def)
    then show "\<exists>rf'. rtw_tkip_decrypt ad' rf = Some (SUCCESS, rf') \<and>
          take (length (rf_data rf') - 4) (rf_data rf') =
          slice (frag_start (xb_addr xb) ?fl ?pf k)
            (?hdr + nat (frag_length ?fl px (px_nr_frags px) k)) (xb_mem xb)"
      using d(2) by auto
  qed
qed

theorem tkip_roundtrip_witness:
  "\<exists>xb'. rtw_tkip_encrypt linked_adapter (sample_px TKIP 8 4) 0 (Some sample_xb) =
     Some (SUCCESS, Some xb')"
  using tkip_roundtrip [of "sample_px TKIP 8 4" 0 linked_adapter sample_xb 0]
    sample_fit [of 8 4 4 TKIP]
  by (auto simp: sample_px_def sample_xb_def linked_adapter_def FW_LINKED_def)

text \<open>
  The frames TKIP refuses.  A frame from a station that is not in the table, or a group
  frame before a group key is installed, is refused and left as it was; \<open>rtw_tkip_encrypt\<close>
  refuses, without writing to it, a frame for a station that is unknown or not linked.
\<close>

theorem tkip_refusals:
  "(rx_encrypt (rf_attrib rf) = TKIP \<and>
    (rtw_get_stainfo (stapriv ad) (rx_ta (rf_attrib rf)) = None \<or>
     IS_MCAST (rx_ra (rf_attrib rf)) \<and> sec_binstallGrpkey (securitypriv ad) = False) \<longrightarrow>
    rtw_tkip_decrypt ad rf = Some (FAIL, rf)) \<and>
   (px_encrypt px = TKIP \<and>
    (px_psta px = None \<and> rtw_get_stainfo (stapriv ad) (px_ra px) = None \<or>
     (\<exists>p. px_psta px = Some p \<and> si_state (sta_buf (stapriv ad) p) AND FW_LINKED = 0)) \<longrightarrow>
    rtw_tkip_encrypt ad px pkt_offset (Some xb) = Some (FAIL, Some xb))"
  by (auto simp: rtw_tkip_decrypt_def rtw_tkip_encrypt_def Let_def split: option.splits)

theorem tkip_refusals_witness:
  "rtw_tkip_decrypt zero_adapter (sample_rf TKIP [1, 2]) = Some (FAIL, sample_rf TKIP [1, 2]) \<and>
   rtw_tkip_encrypt zero_adapter (sample_px TKIP 8 4) 0 (Some sample_xb) = Some (FAIL, Some sample_xb)"
  using tkip_refusals [of "sample_rf TKIP [1, 2]" zero_adapter "sample_px TKIP 8 4" 0 sample_xb]
  by (simp add: sample_rf_def sample_px_def zero_adapter_def zero_sta_priv_def rtw_get_stainfo_def
      rtw_init_stainfo_def)

text \<open>
  C3: the ICV rejects a damaged frame.  If \<open>rtw_tkip_decrypt\<close> accepts a TKIP frame, then it
  answers \<open>_FAIL\<close> on the same frame with any one byte of the encrypted payload or ICV
  changed.
\<close>

theorem tkip_rejects_byte_error:
  assumes "rx_encrypt (rf_attrib rf) = TKIP"
    and "rtw_tkip_decrypt ad rf = Some (SUCCESS, rf1)"
    and "rx_iv_len (rf_attrib rf) + rx_hdrlen (rf_attrib rf) \<le> i" and "i < length (rf_data rf)"
    and "8 \<le> rx_iv_len (rf_attrib rf)" and "b \<noteq> rf_data rf ! i"
  shows "\<exists>rf2. rtw_tkip_decrypt ad (rf\<lparr>rf_data := (rf_data rf)[i := b]\<rparr>) = Some (FAIL, rf2)"
proof -
  let ?rx = "rf_attrib rf" and ?m = "rf_data rf"
  let ?hdr = "rx_iv_len ?rx + rx_hdrlen ?rx"
  obtain p where p: "rtw_get_stainfo (stapriv ad) (rx_ta ?rx) = Some p"
    using assms(1,2) by (auto simp: rtw_tkip_decrypt_def Let_def split: option.splits)
  have grp: "\<not> (IS_MCAST (rx_ra ?rx) \<and> \<not> sec_binstallGrpkey (securitypriv ad))"
    using assms(1,2) p by (auto simp: rtw_tkip_decrypt_def Let_def split: if_splits)
  define tk where "tk = (if IS_MCAST (rx_ra ?rx) then sec_GrpKey (securitypriv ad) (rx_key_index ?rx)
                         else si_UncstKey (sta_buf (stapriv ad) p))"
  let ?kd = "tkip_key tk (rx_ta ?rx) (rx_hdrlen ?rx)"
  have run: "rtw_tkip_decrypt ad (rf\<lparr>rf_data := m\<rparr>) = do {
      (d, icv_ok) \<leftarrow> icv_open ?kd ?hdr m;
      Some (if icv_ok then SUCCESS else FAIL, rf\<lparr>rf_data := d\<rparr>)}" for m
    using assms(1) p grp by (auto simp: rtw_tkip_decrypt_def Let_def tk_def)
  have "do { (d, icv_ok) \<leftarrow> icv_open ?kd ?hdr ?m;
             Some (if icv_ok then SUCCESS else FAIL, rf\<lparr>rf_data := d\<rparr>)} = Some (SUCCESS, rf1)"
    unfolding run [symmetric] using assms(2) by simp
  then obtain d where d: "icv_open ?kd ?hdr ?m = Some (d, True)"
    by (auto simp: bind_eq_Some_conv split: if_splits)
  then obtain key n where key: "?kd ?m 0 = Some (key, n)" "arc4_open ?m ?hdr key n = Some (d, True)"
    by (auto simp: icv_open_def bind_eq_Some_conv)
  have "?kd (?m[i := b]) 0 = ?kd ?m 0"
  proof -
    have "slice (rx_hdrlen ?rx) 8 (?m[i := b]) = slice (rx_hdrlen ?rx) 8 ?m"
      by (rule slice_cong) (use assms(3,5) in auto)
    then show ?thesis by (simp add: tkip_key_def rd_slice_def slice_def)
  qed
  moreover obtain d' where "arc4_open (?m[i := b]) ?hdr key n = Some (d', False)"
    using arc4_open_byte_error [OF key(2) assms(3,4,6)] by blast
  ultimately show ?thesis using key(1) by (simp add: run icv_open_def)
qed

lemma tkip_accepts_sample:
  "\<exists>f rf1. length f = 46 \<and> rtw_tkip_decrypt one_sta_adapter (sample_rf TKIP f) = Some (SUCCESS, rf1)"
proof -
  let ?m = "replicate 46 0 :: byte list"
  define key where "key = tkip_rc4key (si_UncstKey (sta_buf one_sta_table 0)) sample_mac
    (GET_TKIP_PN (replicate 8 0))"
  obtain m' where m': "arc4_seal ?m 32 10 key 16 = Some m'"
    using arc4_seal_Some(1) [of 10 32 ?m key 16] by auto
  obtain rest where seal: "m' = replicate 32 0 @ rest" and l: "length rest = 14"
    using arc4_seal_Some [of 10 32 ?m key 16] m' by auto
  have op: "\<exists>d. arc4_open m' 32 key 16 = Some (d, True)"
    using arc4_open_seal [OF _ _ m'] seal l by simp
  have "take 8 (drop 24 m') = replicate 8 0" unfolding seal by (simp add: numeral_eq_Suc)
  then have kd: "tkip_key (si_UncstKey (sta_buf one_sta_table 0)) sample_mac 24 m' 0 = Some (key, 16)"
    using seal l by (simp add: tkip_key_def rd_slice_def key_def)
  have "\<exists>rf1. rtw_tkip_decrypt one_sta_adapter (sample_rf TKIP m') = Some (SUCCESS, rf1)"
    using op kd one_sta_table_get
    by (auto simp: rtw_tkip_decrypt_def sample_rf_def Let_def icv_open_def one_sta_adapter_def
        IS_MCAST_def sample_mac_def)
  moreover have "length m' = 46" using seal l by simp
  ultimately show ?thesis by blast
qed

theorem tkip_rejects_byte_error_witness:
  "\<exists>f rf1 rf2 b. rtw_tkip_decrypt one_sta_adapter (sample_rf TKIP f) = Some (SUCCESS, rf1) \<and>
     rtw_tkip_decrypt one_sta_adapter (sample_rf TKIP (f[40 := b])) = Some (FAIL, rf2)"
proof -
  obtain f rf1 where f: "length f = 46"
    "rtw_tkip_decrypt one_sta_adapter (sample_rf TKIP f) = Some (SUCCESS, rf1)"
    using tkip_accepts_sample by blast
  have "f ! 40 + 1 \<noteq> f ! 40" by simp
  then have "\<exists>rf2. rtw_tkip_decrypt one_sta_adapter (sample_rf TKIP (f[40 := f ! 40 + 1])) =
      Some (FAIL, rf2)"
    using tkip_rejects_byte_error [of "sample_rf TKIP f" one_sta_adapter rf1 40 "f ! 40 + 1"] f
    by (simp add: sample_rf_def)
  then show ?thesis using f(2) by blast
qed

end
