(* ===== verification/Aes.thy ===== *)
theory Aes
  imports Prelude
begin

text \<open>
  The AES-128 encryption of \<open>core/rtw_security.c\<close> (\<open>aes128k128d\<close> and its helpers), the
  byte-wise implementation CCMP uses.  The theory proves \<open>mix_column\<close> to be the
  multiplication by the MixColumns matrix over GF(2^8), the S-box table to be the affine
  image of the inverse in that field, and the cipher to be injective under every key.
\<close>

section \<open>The code\<close>

definition sbox_table :: "byte list" where
  "sbox_table = [
     0x63, 0x7C, 0x77, 0x7B, 0xF2, 0x6B, 0x6F, 0xC5,
     0x30, 0x01, 0x67, 0x2B, 0xFE, 0xD7, 0xAB, 0x76,
     0xCA, 0x82, 0xC9, 0x7D, 0xFA, 0x59, 0x47, 0xF0,
     0xAD, 0xD4, 0xA2, 0xAF, 0x9C, 0xA4, 0x72, 0xC0,
     0xB7, 0xFD, 0x93, 0x26, 0x36, 0x3F, 0xF7, 0xCC,
     0x34, 0xA5, 0xE5, 0xF1, 0x71, 0xD8, 0x31, 0x15,
     0x04, 0xC7, 0x23, 0xC3, 0x18, 0x96, 0x05, 0x9A,
     0x07, 0x12, 0x80, 0xE2, 0xEB, 0x27, 0xB2, 0x75,
     0x09, 0x83, 0x2C, 0x1A, 0x1B, 0x6E, 0x5A, 0xA0,
     0x52, 0x3B, 0xD6, 0xB3, 0x29, 0xE3, 0x2F, 0x84,
     0x53, 0xD1, 0x00, 0xED, 0x20, 0xFC, 0xB1, 0x5B,
     0x6A, 0xCB, 0xBE, 0x39, 0x4A, 0x4C, 0x58, 0xCF,
     0xD0, 0xEF, 0xAA, 0xFB, 0x43, 0x4D, 0x33, 0x85,
     0x45, 0xF9, 0x02, 0x7F, 0x50, 0x3C, 0x9F, 0xA8,
     0x51, 0xA3, 0x40, 0x8F, 0x92, 0x9D, 0x38, 0xF5,
     0xBC, 0xB6, 0xDA, 0x21, 0x10, 0xFF, 0xF3, 0xD2,
     0xCD, 0x0C, 0x13, 0xEC, 0x5F, 0x97, 0x44, 0x17,
     0xC4, 0xA7, 0x7E, 0x3D, 0x64, 0x5D, 0x19, 0x73,
     0x60, 0x81, 0x4F, 0xDC, 0x22, 0x2A, 0x90, 0x88,
     0x46, 0xEE, 0xB8, 0x14, 0xDE, 0x5E, 0x0B, 0xDB,
     0xE0, 0x32, 0x3A, 0x0A, 0x49, 0x06, 0x24, 0x5C,
     0xC2, 0xD3, 0xAC, 0x62, 0x91, 0x95, 0xE4, 0x79,
     0xE7, 0xC8, 0x37, 0x6D, 0x8D, 0xD5, 0x4E, 0xA9,
     0x6C, 0x56, 0xF4, 0xEA, 0x65, 0x7A, 0xAE, 0x08,
     0xBA, 0x78, 0x25, 0x2E, 0x1C, 0xA6, 0xB4, 0xC6,
     0xE8, 0xDD, 0x74, 0x1F, 0x4B, 0xBD, 0x8B, 0x8A,
     0x70, 0x3E, 0xB5, 0x66, 0x48, 0x03, 0xF6, 0x0E,
     0x61, 0x35, 0x57, 0xB9, 0x86, 0xC1, 0x1D, 0x9E,
     0xE1, 0xF8, 0x98, 0x11, 0x69, 0xD9, 0x8E, 0x94,
     0x9B, 0x1E, 0x87, 0xE9, 0xCE, 0x55, 0x28, 0xDF,
     0x8C, 0xA1, 0x89, 0x0D, 0xBF, 0xE6, 0x42, 0x68,
     0x41, 0x99, 0x2D, 0x0F, 0xB0, 0x54, 0xBB, 0x16]"

definition sbox :: "byte \<Rightarrow> byte" where
  "sbox a = sbox_table ! unat a"

definition xor_128 :: "byte list \<Rightarrow> byte list \<Rightarrow> byte list" where
  "xor_128 a b = map (\<lambda>i. a ! i XOR b ! i) [0..<16]"

definition xor_32 :: "byte list \<Rightarrow> byte list \<Rightarrow> byte list" where
  "xor_32 a b = map (\<lambda>i. a ! i XOR b ! i) [0..<4]"

definition rcon_table :: "byte list" where
  "rcon_table = [0x01, 0x02, 0x04, 0x08, 0x10, 0x20, 0x40, 0x80, 0x1b, 0x36, 0x36, 0x36]"

definition next_key :: "byte list \<Rightarrow> nat \<Rightarrow> byte list" where
  "next_key key round =
     (let sbox_key = [sbox (key ! 13), sbox (key ! 14), sbox (key ! 15), sbox (key ! 12)];
          rcon = rcon_table ! round;
          k0 = xor_32 (take 4 key) sbox_key;
          k0 = k0[0 := k0 ! 0 XOR rcon];
          k4 = xor_32 (take 4 (drop 4 key)) k0;
          k8 = xor_32 (take 4 (drop 8 key)) k4;
          k12 = xor_32 (take 4 (drop 12 key)) k8
      in k0 @ k4 @ k8 @ k12)"

definition byte_sub :: "byte list \<Rightarrow> byte list" where
  "byte_sub inp = map (\<lambda>i. sbox (inp ! i)) [0..<16]"

definition shift_row :: "byte list \<Rightarrow> byte list" where
  "shift_row inp =
     [inp ! 0, inp ! 5, inp ! 10, inp ! 15, inp ! 4, inp ! 9, inp ! 14, inp ! 3,
      inp ! 8, inp ! 13, inp ! 2, inp ! 7, inp ! 12, inp ! 1, inp ! 6, inp ! 11]"

definition mix_column :: "byte list \<Rightarrow> byte list" where
  "mix_column inp =
     (let add1b = map (\<lambda>i. if inp ! i AND 0x80 = 0x80 then 0x1b else 0x00) [0..<4];
          swap_halfs = [inp ! 2, inp ! 3, inp ! 0, inp ! 1];
          rotl = [inp ! 3, inp ! 0, inp ! 1, inp ! 2];
          a0 = inp ! 0 AND 0x7f; a1 = inp ! 1 AND 0x7f; a2 = inp ! 2 AND 0x7f; a3 = inp ! 3 AND 0x7f;
          a3 = push_bit 1 a3; a3 = (if a2 AND 0x80 = 0x80 then a3 OR 0x01 else a3);
          a2 = push_bit 1 a2; a2 = (if a1 AND 0x80 = 0x80 then a2 OR 0x01 else a2);
          a1 = push_bit 1 a1; a1 = (if a0 AND 0x80 = 0x80 then a1 OR 0x01 else a1);
          a0 = push_bit 1 a0; a0 = a0 AND 0xfe;
          andf7 = [a0, a1, a2, a3];
          add1bf7 = xor_32 add1b andf7;
          rotr = xor_32 inp add1bf7;
          rotr = [rotr ! 1, rotr ! 2, rotr ! 3, rotr ! 0];
          temp = xor_32 add1bf7 rotr;
          tempb = xor_32 swap_halfs rotl
      in xor_32 temp tempb)"

definition mix_columns :: "byte list \<Rightarrow> byte list" where
  "mix_columns b =
     mix_column (take 4 b) @ mix_column (take 4 (drop 4 b)) @
     mix_column (take 4 (drop 8 b)) @ mix_column (take 4 (drop 12 b))"

text \<open>One turn of the loop; the state is the round key and \<open>ciphertext\<close>.\<close>

definition aes_round :: "byte list \<Rightarrow> nat \<Rightarrow> byte list \<times> byte list \<Rightarrow> byte list \<times> byte list" where
  "aes_round data round = (\<lambda>(round_key, ciphertext).
     if round = 0 then (next_key round_key round, xor_128 round_key data)
     else if round = 10 then
       (round_key, xor_128 (shift_row (byte_sub ciphertext)) round_key)
     else
       (next_key round_key round,
        xor_128 (mix_columns (shift_row (byte_sub ciphertext))) round_key))"

definition aes128k128d :: "byte list \<Rightarrow> byte list \<Rightarrow> byte list" where
  "aes128k128d key data =
     snd (fold (aes_round data) [0..<11] (map (\<lambda>i. key ! i) [0..<16], replicate 16 0))"

section \<open>MixColumns\<close>

text \<open>Multiplication by \<open>x\<close> in GF(2^8).\<close>

definition xtime :: "byte \<Rightarrow> byte" where
  "xtime b = push_bit 1 b XOR (if bit b 7 then 0x1b else 0)"

definition mix_spec :: "byte list \<Rightarrow> byte list" where
  "mix_spec v =
     [xtime (v ! 0) XOR (xtime (v ! 1) XOR v ! 1) XOR v ! 2 XOR v ! 3,
      v ! 0 XOR xtime (v ! 1) XOR (xtime (v ! 2) XOR v ! 2) XOR v ! 3,
      v ! 0 XOR v ! 1 XOR xtime (v ! 2) XOR (xtime (v ! 3) XOR v ! 3),
      (xtime (v ! 0) XOR v ! 0) XOR v ! 1 XOR v ! 2 XOR xtime (v ! 3)]"

lemma upt4: "[0..<4] = [0, 1, 2, 3 :: nat]"
  by (simp add: upt_rec numeral_eq_Suc)

lemma upt16: "[0..<16] = [0, 1, 2, 3, 4, 5, 6, 7, 8, 9, 10, 11, 12, 13, 14, 15 :: nat]"
  by code_simp

lemma and_80: "(b :: byte) AND 0x80 = 0x80 \<longleftrightarrow> bit b 7"
proof -
  have e: "(0x80 :: byte) = 2 ^ 7" by simp
  have "b AND 2 ^ 7 = 2 ^ 7 \<longleftrightarrow> bit b 7"
  proof
    assume "b AND 2 ^ 7 = 2 ^ 7"
    from arg_cong [OF this, of "\<lambda>w. bit w 7"] show "bit b 7" by (simp add: bit_and_iff bit_exp_iff del: power_numeral)
  next
    assume "bit b 7"
    then show "b AND 2 ^ 7 = 2 ^ 7" by (intro bit_word_eqI) (auto simp: bit_and_iff bit_exp_iff simp del: power_numeral)
  qed
  then show ?thesis by (simp only: e)
qed

lemma bit_7f: "\<not> bit ((b :: byte) AND 0x7f) 7"
  by (simp add: bit_and_iff)

lemma shift_7f: "push_bit 1 ((b :: byte) AND 0x7f) = push_bit 1 b"
proof -
  have m: "(0x7f :: byte) = mask 7" by (simp add: mask_eq_exp_minus_1)
  show ?thesis unfolding m
    by (rule bit_word_eqI) (auto simp: bit_push_bit_iff bit_and_iff bit_mask_iff simp del: push_bit_Suc)
qed

lemma shift_fe: "push_bit 1 (b :: byte) AND 0xfe = push_bit 1 b"
proof -
  have m: "(0xfe :: byte) = push_bit 1 (mask 7)" by (simp add: mask_eq_exp_minus_1)
  show ?thesis unfolding m
    by (rule bit_word_eqI) (auto simp: bit_push_bit_iff bit_and_iff bit_mask_iff simp del: push_bit_Suc)
qed

lemma mix_column_spec: "mix_column v = mix_spec v"
  unfolding mix_column_def mix_spec_def xor_32_def upt4 Let_def and_80 xtime_def
  by (simp only: bit_7f if_False shift_7f shift_fe) (simp add: ac_simps del: push_bit_Suc)

lemma xtime_xor: "xtime (a XOR b) = xtime a XOR xtime b"
  by (simp add: xtime_def push_bit_xor bit_xor_iff ac_simps del: push_bit_Suc)

text \<open>The matrix is a fourth root of the identity, so the column mixing is injective.\<close>

lemma mix_spec_4: "length v = 4 \<Longrightarrow> mix_spec (mix_spec (mix_spec (mix_spec v))) = v"
proof -
  have sq: "mix_spec (mix_spec [a, b, c, d]) =
      [xtime (xtime (a XOR c)) XOR a, xtime (xtime (b XOR d)) XOR b,
       xtime (xtime (a XOR c)) XOR c, xtime (xtime (b XOR d)) XOR d]" for a b c d
    by (simp add: mix_spec_def xtime_xor ac_simps)
  assume "length v = 4"
  then obtain a b c d where "v = [a, b, c, d]"
    by (auto simp: numeral_eq_Suc length_Suc_conv)
  then show ?thesis by (simp add: sq xtime_xor ac_simps)
qed

lemma mix_column_inj:
  "mix_column v = mix_column w \<Longrightarrow> length v = 4 \<Longrightarrow> length w = 4 \<Longrightarrow> v = w"
  by (metis mix_spec_4 mix_column_spec)

section \<open>The S-box\<close>

text \<open>
  GF(2^8) over integers below 256: multiplication modulo \<open>0x11b\<close>, the affine map of the
  standard, and its inverse.
\<close>

definition gf_xtime :: "int \<Rightarrow> int" where
  "gf_xtime a = (if a < 128 then 2 * a else (2 * a) XOR 0x11b)"

fun gf_mul :: "nat \<Rightarrow> int \<Rightarrow> int \<Rightarrow> int" where
  "gf_mul 0 a b = 0"
| "gf_mul (Suc n) a b =
     (if b mod 2 = 1 then a XOR gf_mul n (gf_xtime a) (b div 2) else gf_mul n (gf_xtime a) (b div 2))"

text \<open>Rotation of a byte to the left; \<open>p\<close> is the power of two of the distance.\<close>

definition gf_rotl :: "int \<Rightarrow> int \<Rightarrow> int" where
  "gf_rotl p b = (b * p) mod 256 + (b * p) div 256"

definition gf_affine :: "int \<Rightarrow> int" where
  "gf_affine b = b XOR gf_rotl 2 b XOR gf_rotl 4 b XOR gf_rotl 8 b XOR gf_rotl 16 b XOR 0x63"

definition gf_unaffine :: "int \<Rightarrow> int" where
  "gf_unaffine s = gf_rotl 2 s XOR gf_rotl 8 s XOR gf_rotl 64 s XOR 0x05"

lemma length_sbox_table: "length sbox_table = 256"
  by (simp add: sbox_table_def)

lemma sbox_table_inverse:
  "list_all2 (\<lambda>x s. gf_mul 8 x (gf_unaffine s) = 1) [1..255] (tl (map uint sbox_table))"
  by code_simp

lemma sbox_table_affine: "list_all (\<lambda>s. gf_affine (gf_unaffine s) = s) (map uint sbox_table)"
  by code_simp

lemma sbox_table_sorted: "sort (map uint sbox_table) = [0..255]"
  by code_simp

lemma sbox_nth: "uint (sbox x) = map uint sbox_table ! unat x"
proof -
  have "unat x < 256" using unsigned_less [of x] by simp
  then show ?thesis by (simp add: sbox_def length_sbox_table)
qed

lemma sbox_inj: "sbox x = sbox y \<Longrightarrow> x = y"
proof -
  have "distinct (sort (map uint sbox_table))" unfolding sbox_table_sorted by (rule distinct_upto)
  then have d: "distinct (map uint sbox_table)" by simp
  have l: "unat x < 256" "unat y < 256" using unsigned_less [of x] unsigned_less [of y] by simp_all
  assume "sbox x = sbox y"
  then have "map uint sbox_table ! unat x = map uint sbox_table ! unat y" by (metis sbox_nth)
  then have "unat x = unat y"
    using d l by (simp add: nth_eq_iff_index_eq length_sbox_table del: nth_map)
  then show "x = y" by (simp add: word_unat_eq_iff)
qed

section \<open>The cipher is injective\<close>

lemma length_xor_128 [simp]: "length (xor_128 a b) = 16"
  by (simp add: xor_128_def)

lemma length_byte_sub [simp]: "length (byte_sub a) = 16"
  by (simp add: byte_sub_def)

lemma length_shift_row [simp]: "length (shift_row a) = 16"
  by (simp add: shift_row_def)

lemma length_mix_column [simp]: "length (mix_column a) = 4"
  by (simp add: mix_column_spec mix_spec_def)

lemma length_mix_columns [simp]: "length (mix_columns a) = 16"
  by (simp add: mix_columns_def)

lemma nth_xor_128: "i < 16 \<Longrightarrow> xor_128 a b ! i = a ! i XOR b ! i"
  by (simp add: xor_128_def)

lemma xor_128_alt: "length a = 16 \<Longrightarrow> length b = 16 \<Longrightarrow> xor_128 a b = xor_bytes a b"
  by (rule nth_equalityI) (simp_all add: nth_xor_128 nth_xor_bytes len_simps)

lemma xor_128_inj:
  assumes "xor_128 a k = xor_128 b k" and "length a = 16" and "length b = 16"
  shows "a = b"
proof (rule nth_equalityI)
  fix i assume "i < length a"
  then have "a ! i XOR k ! i = b ! i XOR k ! i"
    using assms nth_xor_128 [of i] by metis
  then show "a ! i = b ! i" by (metis word_xor_cancel(1))
qed (use assms in simp)

lemma xor_128_inj_right:
  "xor_128 k a = xor_128 k b \<Longrightarrow> length a = 16 \<Longrightarrow> length b = 16 \<Longrightarrow> a = b"
  by (rule xor_128_inj [of a k b]) (simp_all add: xor_128_def xor.commute)

lemma byte_sub_inj:
  assumes "byte_sub a = byte_sub b" and "length a = 16" and "length b = 16"
  shows "a = b"
proof (rule nth_equalityI)
  fix i assume "i < length a"
  then have "sbox (a ! i) = sbox (b ! i)"
    using arg_cong [OF assms(1), of "\<lambda>l. l ! i"] assms(2,3) by (simp add: byte_sub_def)
  then show "a ! i = b ! i" by (rule sbox_inj)
qed (use assms in simp)

lemma less_16: "(i :: nat) < 16 \<longleftrightarrow> i \<in> {0, 1, 2, 3, 4, 5, 6, 7, 8, 9, 10, 11, 12, 13, 14, 15}"
  using upt16 by (metis atLeastLessThan_upt atLeastLessThan_iff le0 list.set(1,2))

lemma shift_row_inj:
  assumes "shift_row a = shift_row b" and "length a = 16" and "length b = 16"
  shows "a = b"
proof (rule nth_equalityI)
  fix i assume "i < length a"
  then show "a ! i = b ! i" using assms unfolding shift_row_def by (auto simp: less_16)
qed (use assms in simp)

lemma mix_columns_inj:
  assumes "mix_columns a = mix_columns b" and "length a = 16" and "length b = 16"
  shows "a = b"
proof -
  have eq: "mix_column (take 4 (drop i a)) = mix_column (take 4 (drop i b))" if "i \<in> {0, 4, 8, 12}" for i
    using assms(1) that by (auto simp: mix_columns_def)
  have col: "take 4 (drop i a) = take 4 (drop i b)" if "i \<in> {0, 4, 8, 12}" for i
    by (rule mix_column_inj [OF eq [OF that]]) (use that assms(2,3) in auto)
  show ?thesis
  proof (rule nth_equalityI)
    fix i assume i: "i < length a"
    define j k where "j = 4 * (i div 4)" and "k = i mod 4"
    have "i div 4 < 4" using i assms(2) by simp
    then have "i div 4 \<in> {0, 1, 2, 3}" by auto
    then have j: "j \<in> {0, 4, 8, 12}" by (auto simp: j_def)
    have k: "k < 4" "j + k = i" by (simp_all add: j_def k_def)
    have "take 4 (drop j a) ! k = take 4 (drop j b) ! k" using col [OF j] by simp
    then show "a ! i = b ! i" using k i assms(2,3) by simp
  qed (use assms in simp)
qed

lemma aes_round_inj:
  assumes "aes_round d r (k, c) = aes_round d' r (k, c')" and "r \<noteq> 0"
    and "length c = 16" and "length c' = 16"
  shows "c = c'"
  using assms
  by (auto simp: aes_round_def split: if_splits dest!: xor_128_inj shift_row_inj byte_sub_inj mix_columns_inj)

lemma aes_round_fst: "fst (aes_round d r (k, c)) = fst (aes_round d' r (k, c'))"
  by (simp add: aes_round_def)

lemma aes_round_length: "length (snd (aes_round d r s)) = 16"
  by (cases s) (simp add: aes_round_def)

lemma aes_rounds_inj:
  assumes "fold (aes_round d) rs s = fold (aes_round d') rs s'" and "fst s = fst s'" and "0 \<notin> set rs"
    and "length (snd s) = 16" and "length (snd s') = 16"
  shows "snd s = snd s'"
  using assms
proof (induction rs arbitrary: s s')
  case (Cons r rs)
  obtain k c c' where s: "s = (k, c)" "s' = (k, c')" using Cons.prems(2) by (metis prod.collapse)
  have "fst (aes_round d r s) = fst (aes_round d' r s')" unfolding s by (rule aes_round_fst)
  moreover then have "snd (aes_round d r s) = snd (aes_round d' r s')"
    using Cons.IH [of "aes_round d r s" "aes_round d' r s'"] Cons.prems(1,3) aes_round_length by simp
  ultimately have "aes_round d r (k, c) = aes_round d' r (k, c')"
    unfolding s by (simp add: prod_eq_iff)
  then show ?case using aes_round_inj Cons.prems(3-5) s by fastforce
qed simp

lemma aes128k128d_length [simp]: "length (aes128k128d key data) = 16"
proof -
  have "length (snd (fold (aes_round data) rs s)) = 16" if "length (snd s) = 16" for rs s
    using that by (induction rs arbitrary: s) (simp_all add: aes_round_length)
  then show ?thesis by (simp add: aes128k128d_def)
qed

text \<open>
  The cipher is a permutation of the 16-byte blocks: under one key, different blocks have
  different ciphertexts.
\<close>

theorem aes128k128d_injective:
  assumes "aes128k128d key a = aes128k128d key b" and "length a = 16" and "length b = 16"
  shows "a = b"
proof -
  let ?k = "map (\<lambda>i. key ! i) [0..<16]"
  have up: "[0..<11] = 0 # [1..<11 :: nat]" by (simp add: upt_rec)
  let ?s = "\<lambda>d. aes_round d 0 (?k, replicate 16 0)"
  have run: "aes128k128d key d = snd (fold (aes_round d) [1..<11] (?s d))" for d
    unfolding aes128k128d_def up by simp
  have keys: "fst (fold (aes_round d) rs s) = fst (fold (aes_round d') rs s')" if "fst s = fst s'"
    for rs d d' s s'
    using that
  proof (induction rs arbitrary: s s')
    case (Cons r rs)
    have "fst (aes_round d r s) = fst (aes_round d' r s')"
      using Cons.prems aes_round_fst by (metis prod.collapse)
    then show ?case using Cons.IH by simp
  qed simp
  have k0: "fst (?s a) = fst (?s b)" by (rule aes_round_fst)
  have "fold (aes_round a) [1..<11] (?s a) = fold (aes_round b) [1..<11] (?s b)"
    using assms(1) keys [OF k0] unfolding run by (simp add: prod_eq_iff)
  then have "snd (?s a) = snd (?s b)"
    by (rule aes_rounds_inj) (simp_all add: k0 aes_round_length)
  then show ?thesis using assms(2,3) by (simp add: aes_round_def xor_128_inj_right)
qed

theorem aes128k128d_injective_witness:
  "aes128k128d (replicate 16 7) (replicate 16 1) \<noteq> aes128k128d (replicate 16 7) (replicate 16 2)"
proof
  assume "aes128k128d (replicate 16 7) (replicate 16 1) =
    aes128k128d (replicate 16 7) (replicate 16 (2 :: byte))"
  then have "replicate 16 (1 :: byte) = replicate 16 2"
    by (rule aes128k128d_injective) simp_all
  then show False by (simp add: replicate_eq_replicate)
qed

text \<open>
  \<open>sbox_table\<close> is the S-box of the standard: each entry is the affine image of the
  multiplicative inverse of its index in GF(2^8), zero standing for the inverse of zero.
\<close>

theorem sbox_table_correct:
  "\<exists>y. (if x = 0 then y = 0 else gf_mul 8 (uint x) y = 1) \<and> uint (sbox x) = gf_affine y"
proof (cases "x = 0")
  case True
  have "uint (sbox 0) = 0x63" by (simp add: sbox_def sbox_table_def)
  moreover have "gf_affine 0 = 0x63" by code_simp
  ultimately show ?thesis using True by (intro exI [of _ 0]) simp
next
  case False
  have lx: "unat x < 256" using unsigned_less [of x] by simp
  have "unat x \<noteq> 0" using False by (simp add: unat_eq_zero)
  then obtain i where "unat x = Suc i" by (cases "unat x") auto
  with lx have i: "unat x = Suc i" "i < 255" by simp_all
  have "gf_mul 8 ([1..255] ! i) (gf_unaffine (tl (map uint sbox_table) ! i)) = 1"
    using sbox_table_inverse i(2) by (auto simp: list_all2_conv_all_nth)
  moreover have "[1..255] ! i = uint x"
    using i by (simp add: nth_upto uint_nat)
  moreover have "tl (map uint sbox_table) ! i = uint (sbox x)"
    using i by (simp add: sbox_nth nth_tl length_sbox_table)
  ultimately have "gf_mul 8 (uint x) (gf_unaffine (uint (sbox x))) = 1" by simp
  moreover have "gf_affine (gf_unaffine (uint (sbox x))) = uint (sbox x)"
    using sbox_table_affine lx unfolding list_all_length sbox_nth by (simp add: length_sbox_table)
  ultimately have "(if x = 0 then gf_unaffine (uint (sbox x)) = 0
      else gf_mul 8 (uint x) (gf_unaffine (uint (sbox x))) = 1) \<and>
    uint (sbox x) = gf_affine (gf_unaffine (uint (sbox x)))"
    using False by simp
  then show ?thesis by (rule exI)
qed

end
