(* ===== verification/Wifi.thy ===== *)
theory Wifi
  imports Types
begin

text \<open>
  The macros and inline functions of \<open>include/wifi.h\<close> that read an 802.11 header.  A header is
  the byte list it starts; fields behind its end are \<open>None\<close>.  The frame control field is read
  as a little-endian 16-bit word.
\<close>

section \<open>Frame control\<close>

definition WIFI_MGT_TYPE :: byte where "WIFI_MGT_TYPE = 0"
definition WIFI_CTRL_TYPE :: byte where "WIFI_CTRL_TYPE = 4"
definition WIFI_DATA_TYPE :: byte where "WIFI_DATA_TYPE = 8"
definition WIFI_QOS_DATA_TYPE :: byte where "WIFI_QOS_DATA_TYPE = 0x88"
definition WIFI_PSPOLL :: byte where "WIFI_PSPOLL = 0xa4"

text \<open>\<open>GetFrameType\<close> and \<open>GetFrameSubType\<close>: the mask selects bits of the first byte only.\<close>

definition GetFrameType :: "byte \<Rightarrow> byte" where
  "GetFrameType fc0 = fc0 AND 0x0c"

definition GetFrameSubType :: "byte \<Rightarrow> byte" where
  "GetFrameSubType fc0 = fc0 AND 0xfc"

definition get_le16 :: "byte list \<Rightarrow> nat \<Rightarrow> u16 option" where
  "get_le16 b i = do { s \<leftarrow> rd_slice b i 2; Some (ucast (s ! 0) OR push_bit 8 (ucast (s ! 1))) }"

definition fc_bit :: "u16 \<Rightarrow> byte list \<Rightarrow> bool option" where
  "fc_bit m b = map_option (\<lambda>fc. fc AND m \<noteq> 0) (get_le16 b 0)"

definition GetToDs :: "byte list \<Rightarrow> bool option" where "GetToDs = fc_bit 0x0100"
definition GetFrDs :: "byte list \<Rightarrow> bool option" where "GetFrDs = fc_bit 0x0200"
definition GetMFrag :: "byte list \<Rightarrow> bool option" where "GetMFrag = fc_bit 0x0400"
definition GetRetry :: "byte list \<Rightarrow> bool option" where "GetRetry = fc_bit 0x0800"
definition GetPwrMgt :: "byte list \<Rightarrow> bool option" where "GetPwrMgt = fc_bit 0x1000"
definition GetMData :: "byte list \<Rightarrow> bool option" where "GetMData = fc_bit 0x2000"
definition GetPrivacy :: "byte list \<Rightarrow> bool option" where "GetPrivacy = fc_bit 0x4000"
definition GetOrder :: "byte list \<Rightarrow> bool option" where "GetOrder = fc_bit 0x8000"

definition get_tofr_ds :: "byte list \<Rightarrow> nat option" where
  "get_tofr_ds b = do {
     t \<leftarrow> GetToDs b; f \<leftarrow> GetFrDs b; Some ((if t then 2 else 0) + (if f then 1 else 0)) }"

section \<open>Other fields\<close>

definition GetSequence :: "byte list \<Rightarrow> u16 option" where
  "GetSequence b = map_option (drop_bit 4) (get_le16 b 22)"

definition GetFragNum :: "byte list \<Rightarrow> nat option" where
  "GetFragNum b = map_option (\<lambda>w. unat (w AND 0x0f)) (get_le16 b 22)"

text \<open>The three fields of the QoS control word at the pointer.\<close>

definition GetPriority :: "byte list \<Rightarrow> nat \<Rightarrow> nat option" where
  "GetPriority b i = map_option (\<lambda>w. unat (w AND 0xf)) (get_le16 b i)"

definition GetAckpolicy :: "byte list \<Rightarrow> nat \<Rightarrow> nat option" where
  "GetAckpolicy b i = map_option (\<lambda>w. unat (drop_bit 5 w AND 0x3)) (get_le16 b i)"

definition GetAMsdu :: "byte list \<Rightarrow> nat \<Rightarrow> nat option" where
  "GetAMsdu b i = map_option (\<lambda>w. unat (drop_bit 7 w AND 0x1)) (get_le16 b i)"

definition GetAid :: "byte list \<Rightarrow> nat option" where
  "GetAid b = map_option (\<lambda>w. unat (w AND 0x3fff)) (get_le16 b 2)"

definition GetAddr1Ptr :: "byte list \<Rightarrow> mac option" where "GetAddr1Ptr b = rd_slice b 4 6"
definition GetAddr2Ptr :: "byte list \<Rightarrow> mac option" where "GetAddr2Ptr b = rd_slice b 10 6"
definition GetAddr3Ptr :: "byte list \<Rightarrow> mac option" where "GetAddr3Ptr b = rd_slice b 16 6"
definition GetAddr4Ptr :: "byte list \<Rightarrow> mac option" where "GetAddr4Ptr b = rd_slice b 24 6"

definition get_da :: "byte list \<Rightarrow> mac option" where
  "get_da b = do {
     ds \<leftarrow> get_tofr_ds b;
     if ds = 0 then GetAddr1Ptr b else if ds = 1 then GetAddr1Ptr b
     else if ds = 2 then GetAddr3Ptr b else GetAddr3Ptr b }"

definition get_sa :: "byte list \<Rightarrow> mac option" where
  "get_sa b = do {
     ds \<leftarrow> get_tofr_ds b;
     if ds = 0 then GetAddr2Ptr b else if ds = 1 then GetAddr3Ptr b
     else if ds = 2 then GetAddr2Ptr b else GetAddr4Ptr b }"

definition get_hdr_bssid :: "byte list \<Rightarrow> mac option" where
  "get_hdr_bssid b = do {
     ds \<leftarrow> get_tofr_ds b;
     if ds = 0 then GetAddr3Ptr b else if ds = 1 then GetAddr2Ptr b
     else GetAddr1Ptr b }"

section \<open>Headers as they are sent\<close>

text \<open>
  The three-address header a peer builds: frame control, duration, addresses and sequence
  control, and the QoS control word in QoS data frames.
\<close>

definition le16_bytes :: "u16 \<Rightarrow> byte list" where
  "le16_bytes w = [ucast w, ucast (drop_bit 8 w)]"

definition hdr3 :: "u16 \<Rightarrow> u16 \<Rightarrow> mac \<Rightarrow> mac \<Rightarrow> mac \<Rightarrow> u16 \<Rightarrow> byte list" where
  "hdr3 fc dur a1 a2 a3 sc =
     le16_bytes fc @ le16_bytes dur @ a1 @ a2 @ a3 @ le16_bytes sc"

lemma length_le16_bytes [simp, len_simps]: "length (le16_bytes w) = 2"
  by (simp add: le16_bytes_def)

lemma le16_bytes_join: "ucast (ucast w :: byte) OR push_bit 8 (ucast (ucast (drop_bit 8 w) :: byte)) = (w :: u16)"
  by (rule bit_word_eqI) (auto simp: bit_simps)

lemma get_le16_bytes: "length pre = i \<Longrightarrow> get_le16 (pre @ le16_bytes w @ rest) i = Some w"
  by (simp add: get_le16_def rd_slice_def le16_bytes_def le16_bytes_join)

lemma get_le16_0: "get_le16 (le16_bytes w @ rest) 0 = Some w"
  using get_le16_bytes [of "[]" 0 w rest] by simp

lemma rd_slice_at:
  "length pre = i \<Longrightarrow> length x = n \<Longrightarrow> rd_slice (pre @ x @ rest) i n = Some x"
  by (simp add: rd_slice_def)

text \<open>Reading a header back.\<close>

lemma hdr3_fields:
  assumes "is_mac a1" and "is_mac a2" and "is_mac a3"
  shows "get_le16 (hdr3 fc dur a1 a2 a3 sc @ rest) 0 = Some fc"
    and "get_le16 (hdr3 fc dur a1 a2 a3 sc @ rest) 2 = Some dur"
    and "GetAddr1Ptr (hdr3 fc dur a1 a2 a3 sc @ rest) = Some a1"
    and "GetAddr2Ptr (hdr3 fc dur a1 a2 a3 sc @ rest) = Some a2"
    and "GetAddr3Ptr (hdr3 fc dur a1 a2 a3 sc @ rest) = Some a3"
    and "get_le16 (hdr3 fc dur a1 a2 a3 sc @ rest) 22 = Some sc"
  using assms get_le16_bytes [of "le16_bytes fc" 2 dur "a1 @ a2 @ a3 @ le16_bytes sc @ rest"]
    get_le16_bytes [of "le16_bytes fc @ le16_bytes dur @ a1 @ a2 @ a3" 22 sc rest]
    rd_slice_at [of "le16_bytes fc @ le16_bytes dur" 4 a1 6 "a2 @ a3 @ le16_bytes sc @ rest"]
    rd_slice_at [of "le16_bytes fc @ le16_bytes dur @ a1" 10 a2 6 "a3 @ le16_bytes sc @ rest"]
    rd_slice_at [of "le16_bytes fc @ le16_bytes dur @ a1 @ a2" 16 a3 6 "le16_bytes sc @ rest"]
  by (simp_all add: hdr3_def is_mac_def get_le16_0 GetAddr1Ptr_def GetAddr2Ptr_def GetAddr3Ptr_def)

end
