(* ===== verification/Ccmp.thy ===== *)
theory Ccmp
  imports Aes Wifi Samples "HOL-Library.Signed_Division"
begin

text \<open>
  CCMP in \<open>core/rtw_security.c\<close>: the blocks built from the frame header, the CBC-MAC over the
  payload and the counter mode (\<open>aes_cipher\<close>, \<open>aes_decipher\<close>), and \<open>rtw_aes_encrypt\<close> and
  \<open>rtw_aes_decrypt\<close>.  The loops take the block function as an argument; what they need of it
  is the locale \<open>block_cipher\<close>, interpreted on \<open>aes128k128d\<close>.  \<open>None\<close> is an access outside
  a buffer, among them the 2048-byte \<open>message\<close> of \<open>aes_decipher\<close>.
\<close>

section \<open>The frame header\<close>

definition WLAN_HDR_A3_LEN :: nat where "WLAN_HDR_A3_LEN = 24"
definition WLAN_HDR_A3_QOS_LEN :: nat where "WLAN_HDR_A3_QOS_LEN = 26"

definition WIFI_DATA :: byte where "WIFI_DATA = 0x08"
definition WIFI_DATA_CFACK :: byte where "WIFI_DATA_CFACK = 0x18"
definition WIFI_DATA_CFPOLL :: byte where "WIFI_DATA_CFPOLL = 0x28"
definition WIFI_DATA_CFACKPOLL :: byte where "WIFI_DATA_CFACKPOLL = 0x38"

text \<open>
  \<open>a4_exists\<close>, \<open>qc_exists\<close> and the adjusted \<open>hdrlen\<close>, as both functions compute them.
\<close>

definition frame_kind :: "byte \<Rightarrow> nat \<Rightarrow> bool \<times> bool \<times> nat" where
  "frame_kind fc0 hdrlen =
     (let frtype = GetFrameType fc0; frsubtype = drop_bit 4 (GetFrameSubType fc0);
          a4 = \<not> (hdrlen = WLAN_HDR_A3_LEN \<or> hdrlen = WLAN_HDR_A3_QOS_LEN);
          hdrlen2 = (if hdrlen \<noteq> WLAN_HDR_A3_QOS_LEN then hdrlen + 2 else hdrlen)
      in if (frtype OR frsubtype) = WIFI_DATA_CFACK \<or> (frtype OR frsubtype) = WIFI_DATA_CFPOLL \<or>
            (frtype OR frsubtype) = WIFI_DATA_CFACKPOLL
         then (a4, True, hdrlen2)
         else if frtype = WIFI_DATA \<and>
            (frsubtype = 0x08 \<or> frsubtype = 0x09 \<or> frsubtype = 0x0a \<or> frsubtype = 0x0b)
         then (a4, True, hdrlen2)
         else (a4, False, hdrlen))"

definition ccmp_pn :: "byte list \<Rightarrow> nat \<Rightarrow> byte list option" where
  "ccmp_pn mpdu hdrlen = do {
     b \<leftarrow> rd_slice mpdu hdrlen 8;
     Some [b ! 0, b ! 1, b ! 4, b ! 5, b ! 6, b ! 7]
   }"

text \<open>The masked QoS control byte, zero when the frame has none.\<close>

definition qos_tc :: "bool \<Rightarrow> bool \<Rightarrow> byte list \<Rightarrow> byte option" where
  "qos_tc qc a4 mpdu =
     (if qc \<and> a4 then map_option (\<lambda>b. b AND 0x0f) (rd mpdu 30)
      else if qc \<and> \<not> a4 then map_option (\<lambda>b. b AND 0x0f) (rd mpdu 24)
      else Some 0x00)"

definition construct_mic_iv ::
  "bool \<Rightarrow> bool \<Rightarrow> byte list \<Rightarrow> nat \<Rightarrow> byte list \<Rightarrow> byte list option" where
  "construct_mic_iv qc a4 mpdu payload_length pn = do {
     tc \<leftarrow> qos_tc qc a4 mpdu;
     a2 \<leftarrow> rd_slice mpdu 10 6;
     Some ([0x59, tc] @ a2 @ rev pn @
           [of_nat (payload_length div 256), of_nat (payload_length mod 256)])
   }"

definition construct_mic_header1 :: "nat \<Rightarrow> byte list \<Rightarrow> byte list option" where
  "construct_mic_header1 header_length mpdu = do {
     fc \<leftarrow> rd_slice mpdu 0 2;
     a \<leftarrow> rd_slice mpdu 4 12;
     Some ([of_int ((int header_length - 2) sdiv 256), of_int ((int header_length - 2) smod 256),
            fc ! 0 AND 0xcf, fc ! 1 AND 0xc7] @ a)
   }"

definition construct_mic_header2 :: "byte list \<Rightarrow> bool \<Rightarrow> bool \<Rightarrow> byte list option" where
  "construct_mic_header2 mpdu a4 qc = do {
     a3 \<leftarrow> rd_slice mpdu 16 6;
     rest \<leftarrow> (if \<not> qc \<and> a4 then map_option (\<lambda>a. a @ [0x00, 0x00]) (rd_slice mpdu 24 6)
             else if qc \<and> \<not> a4 then
               map_option (\<lambda>q. [q ! 0 AND 0x0f, q ! 1 AND 0x00] @ replicate 6 0x00) (rd_slice mpdu 24 2)
             else if qc \<and> a4 then do {
               a \<leftarrow> rd_slice mpdu 24 6;
               q \<leftarrow> rd_slice mpdu 30 2;
               Some (a @ [q ! 0 AND 0x0f, q ! 1 AND 0x00])
             }
             else Some (replicate 8 0x00));
     Some (a3 @ [0x00, 0x00] @ rest)
   }"

definition construct_ctr_preload ::
  "bool \<Rightarrow> bool \<Rightarrow> byte list \<Rightarrow> byte list \<Rightarrow> nat \<Rightarrow> byte list option" where
  "construct_ctr_preload a4 qc mpdu pn c = do {
     tc \<leftarrow> qos_tc qc a4 mpdu;
     a2 \<leftarrow> rd_slice mpdu 10 6;
     Some ([0x01, tc] @ a2 @ rev pn @ [of_nat (c div 256), of_nat (c mod 256)])
   }"

definition bitwise_xor :: "byte list \<Rightarrow> byte list \<Rightarrow> byte list" where
  "bitwise_xor ina inb = map (\<lambda>i. ina ! i XOR inb ! i) [0..<16]"

section \<open>The MIC\<close>

text \<open>
  \<open>E\<close> is the block function under the key.  The frame starts at \<open>pf\<close> in the buffer \<open>m\<close>.
\<close>

fun mic_blocks ::
  "(byte list \<Rightarrow> byte list) \<Rightarrow> byte list \<Rightarrow> nat \<Rightarrow> nat \<Rightarrow> byte list \<Rightarrow> byte list option" where
  "mic_blocks E m payload_index 0 aes_out = Some aes_out"
| "mic_blocks E m payload_index (Suc n) aes_out = do {
     b \<leftarrow> rd_slice m payload_index 16;
     mic_blocks E m (payload_index + 16) n (E (bitwise_xor aes_out b))
   }"

definition ccm_mic ::
  "(byte list \<Rightarrow> byte list) \<Rightarrow> bool \<Rightarrow> bool \<Rightarrow> nat \<Rightarrow> byte list \<Rightarrow> nat \<Rightarrow> nat \<Rightarrow> byte list \<Rightarrow>
   byte list option" where
  "ccm_mic E qc a4 hdrlen m pf plen pn = do {
     mic_iv \<leftarrow> construct_mic_iv qc a4 (drop pf m) plen pn;
     mic_header1 \<leftarrow> construct_mic_header1 hdrlen (drop pf m);
     mic_header2 \<leftarrow> construct_mic_header2 (drop pf m) a4 qc;
     aes_out \<leftarrow> mic_blocks E m (pf + hdrlen + 8) (plen div 16)
       (E (bitwise_xor (E (bitwise_xor (E mic_iv) mic_header1)) mic_header2));
     if plen mod 16 > 0 then do {
       p \<leftarrow> rd_slice m (pf + hdrlen + 8 + 16 * (plen div 16)) (plen mod 16);
       Some (take 8 (E (bitwise_xor aes_out (p @ replicate (16 - plen mod 16) 0x00))))
     }
     else Some (take 8 aes_out)
   }"

section \<open>Counter mode\<close>

fun ctr_blocks ::
  "(byte list \<Rightarrow> byte list) \<Rightarrow> bool \<Rightarrow> bool \<Rightarrow> byte list \<Rightarrow> nat \<Rightarrow> nat \<Rightarrow> nat \<Rightarrow> nat \<Rightarrow> byte list \<Rightarrow>
   byte list option" where
  "ctr_blocks E a4 qc pn pf payload_index i 0 m = Some m"
| "ctr_blocks E a4 qc pn pf payload_index i (Suc n) m = do {
     ctr \<leftarrow> construct_ctr_preload a4 qc (drop pf m) pn (i + 1);
     b \<leftarrow> rd_slice m payload_index 16;
     m1 \<leftarrow> wr_slice m payload_index (bitwise_xor (E ctr) b);
     ctr_blocks E a4 qc pn pf (payload_index + 16) (i + 1) n m1
   }"

text \<open>A block of which only the first \<open>r\<close> bytes are read and written back.\<close>

definition ctr_short ::
  "(byte list \<Rightarrow> byte list) \<Rightarrow> bool \<Rightarrow> bool \<Rightarrow> byte list \<Rightarrow> nat \<Rightarrow> nat \<Rightarrow> nat \<Rightarrow> nat \<Rightarrow> byte list \<Rightarrow>
   byte list option" where
  "ctr_short E a4 qc pn pf payload_index c r m = do {
     ctr \<leftarrow> construct_ctr_preload a4 qc (drop pf m) pn c;
     p \<leftarrow> rd_slice m payload_index r;
     wr_slice m payload_index (take r (bitwise_xor (E ctr) (p @ replicate (16 - r) 0x00)))
   }"

definition ctr_payload ::
  "(byte list \<Rightarrow> byte list) \<Rightarrow> bool \<Rightarrow> bool \<Rightarrow> byte list \<Rightarrow> nat \<Rightarrow> nat \<Rightarrow> nat \<Rightarrow> byte list \<Rightarrow>
   byte list option" where
  "ctr_payload E a4 qc pn pf payload_index plen m = do {
     m1 \<leftarrow> ctr_blocks E a4 qc pn pf payload_index 0 (plen div 16) m;
     if plen mod 16 > 0
     then ctr_short E a4 qc pn pf (payload_index + 16 * (plen div 16)) (plen div 16 + 1) (plen mod 16) m1
     else Some m1
   }"

section \<open>Encryption and decryption of a frame\<close>

definition aes_cipher ::
  "(byte list \<Rightarrow> byte list) \<Rightarrow> nat \<Rightarrow> nat \<Rightarrow> nat \<Rightarrow> byte list \<Rightarrow> byte list option" where
  "aes_cipher E hdrlen0 pf plen m = do {
     fc0 \<leftarrow> rd m pf;
     let (a4, qc, hdrlen) = frame_kind fc0 hdrlen0;
     pn \<leftarrow> ccmp_pn (drop pf m) hdrlen;
     mic \<leftarrow> ccm_mic E qc a4 hdrlen m pf plen pn;
     m1 \<leftarrow> wr_slice m (pf + hdrlen + 8 + plen) mic;
     m2 \<leftarrow> ctr_payload E a4 qc pn pf (pf + hdrlen + 8) plen m1;
     ctr_short E a4 qc pn pf (pf + hdrlen + 8 + plen) 0 8 m2
   }"

definition MAX_MSG_SIZE :: nat where "MAX_MSG_SIZE = 2048"

text \<open>
  The second half of \<open>aes_decipher\<close>: the decrypted frame is copied, its MIC is computed and
  encrypted in the copy, and compared with the received one.  \<open>plen\<close> counts the payload and
  the MIC.
\<close>

definition decipher_check ::
  "(byte list \<Rightarrow> byte list) \<Rightarrow> bool \<Rightarrow> bool \<Rightarrow> nat \<Rightarrow> nat \<Rightarrow> byte list \<Rightarrow> nat option" where
  "decipher_check E a4 qc hdrlen plen f = do {
     message \<leftarrow> (if hdrlen + plen + 8 \<le> MAX_MSG_SIZE then rd_slice f 0 (hdrlen + plen + 8) else None);
     pn \<leftarrow> ccmp_pn f hdrlen;
     mic \<leftarrow> ccm_mic E qc a4 hdrlen message 0 (plen - 8) pn;
     message1 \<leftarrow> wr_slice message (hdrlen + 8 + (plen - 8)) mic;
     message2 \<leftarrow> ctr_payload E a4 qc pn 0 (hdrlen + 8) (plen - 8) message1;
     message3 \<leftarrow> ctr_short E a4 qc pn 0 (hdrlen + 8 + (plen - 8)) 0 8 message2;
     mic_f \<leftarrow> rd_slice f (hdrlen + 8 + (plen - 8)) 8;
     mic_m \<leftarrow> rd_slice message3 (hdrlen + 8 + (plen - 8)) 8;
     Some (if mic_f = mic_m then SUCCESS else FAIL)
   }"

text \<open>
  The packet number is read once with the unadjusted header length, for the decryption, and
  once with the adjusted one, for the MIC.  Below 8 the unsigned \<open>plen - 8\<close> wraps and the
  loop runs off the frame.
\<close>

definition aes_decipher ::
  "(byte list \<Rightarrow> byte list) \<Rightarrow> nat \<Rightarrow> nat \<Rightarrow> byte list \<Rightarrow> (nat \<times> byte list) option" where
  "aes_decipher E hdrlen0 plen f =
     (if plen < 8 then None
      else do {
        fc0 \<leftarrow> rd f 0;
        pn0 \<leftarrow> ccmp_pn f hdrlen0;
        let (a4, qc, hdrlen) = frame_kind fc0 hdrlen0;
        f1 \<leftarrow> ctr_payload E a4 qc pn0 0 (hdrlen + 8) (plen - 8) f;
        res \<leftarrow> decipher_check E a4 qc hdrlen plen f1;
        Some (res, f1)
      })"

text \<open>The signed \<open>length\<close> becomes the unsigned \<open>plen\<close>; a negative one runs off the buffer.\<close>

definition ccmp_seal ::
  "byte list \<Rightarrow> nat \<Rightarrow> nat \<Rightarrow> int \<Rightarrow> byte list \<Rightarrow> byte list option" where
  "ccmp_seal key hdrlen pf len m =
     (if len < 0 then None else aes_cipher (aes128k128d key) hdrlen pf (nat len) m)"

definition rtw_aes_encrypt ::
  "adapter \<Rightarrow> pkt_attrib \<Rightarrow> nat \<Rightarrow> xmit_buf option \<Rightarrow> (nat \<times> xmit_buf option) option" where
  "rtw_aes_encrypt ad px pkt_offset buf =
     (case buf of
        None \<Rightarrow> Some (FAIL, None)
      | Some xb \<Rightarrow>
          if px_encrypt px = AES then
            case (case px_psta px of Some p \<Rightarrow> Some p | None \<Rightarrow> rtw_get_stainfo (stapriv ad) (px_ra px)) of
              None \<Rightarrow> Some (FAIL, Some xb)
            | Some p \<Rightarrow>
                let si = sta_buf (stapriv ad) p; sec = securitypriv ad in
                if si_state si AND FW_LINKED = 0 then Some (FAIL, Some xb)
                else
                  let prwskey = (if IS_MCAST (px_ra px) then sec_GrpKey sec (sec_GrpKeyid sec)
                                 else si_UncstKey si)
                  in do {
                    m \<leftarrow> frags_loop (ccmp_seal prwskey (px_hdrlen px))
                           (xb_addr xb) (xp_frag_len (xmitpriv ad)) px (px_nr_frags px)
                           (first_pframe pkt_offset) (xb_mem xb);
                    Some (SUCCESS, Some (xb\<lparr>xb_mem := m\<rparr>))
                  }
          else Some (SUCCESS, Some xb))"

definition rtw_aes_decrypt :: "adapter \<Rightarrow> recv_frame \<Rightarrow> (nat \<times> recv_frame) option" where
  "rtw_aes_decrypt ad rf =
     (let rx = rf_attrib rf; sec = securitypriv ad in
      if rx_encrypt rx = AES then
        case rtw_get_stainfo (stapriv ad) (rx_ta rx) of
          None \<Rightarrow> Some (FAIL, rf)
        | Some p \<Rightarrow>
            if IS_MCAST (rx_ra rx) \<and> \<not> sec_binstallGrpkey sec then Some (FAIL, rf)
            else if IS_MCAST (rx_ra rx) \<and> sec_GrpKeyid sec \<noteq> rx_key_index rx then Some (FAIL, rf)
            else
              let prwskey = (if IS_MCAST (rx_ra rx) then sec_GrpKey sec (rx_key_index rx)
                             else si_UncstKey (sta_buf (stapriv ad) p));
                  len = int (length (rf_data rf)) - int (rx_hdrlen rx) - int (rx_iv_len rx)
              in if len < 0 then None
                 else do {
                   (res, d) \<leftarrow> aes_decipher (aes128k128d prwskey) (rx_hdrlen rx) (nat len) (rf_data rf);
                   Some (res, rf\<lparr>rf_data := d\<rparr>)
                 }
      else Some (SUCCESS, rf))"

section \<open>What the header blocks depend on\<close>

lemma bitwise_xor_eq: "bitwise_xor = xor_128"
  by (simp add: fun_eq_iff bitwise_xor_def xor_128_def)

lemma length_bitwise_xor [simp]: "length (bitwise_xor a b) = 16"
  by (simp add: bitwise_xor_def)

lemma nth_bitwise_xor: "i < 16 \<Longrightarrow> bitwise_xor a b ! i = a ! i XOR b ! i"
  by (simp add: bitwise_xor_def)

lemma rd_take: "n \<le> i \<or> i < n \<and> rd (take n m) i = rd m i"
  by (auto simp: rd_def)

lemma rd_take_in: "i < n \<Longrightarrow> rd (take n m) i = rd m i"
  by (simp add: rd_def)

lemma rd_slice_take: "i + k \<le> n \<Longrightarrow> rd_slice (take n m) i k = rd_slice m i k"
  by (auto simp: rd_slice_def drop_take)

lemma qos_tc_take: "31 \<le> n \<Longrightarrow> qos_tc qc a4 (take n mpdu) = qos_tc qc a4 mpdu"
  by (simp add: qos_tc_def rd_take_in)

lemma ctr_take:
  "31 \<le> n \<Longrightarrow> construct_ctr_preload a4 qc (take n mpdu) pn c = construct_ctr_preload a4 qc mpdu pn c"
  by (simp add: construct_ctr_preload_def qos_tc_take rd_slice_take)

lemma mic_iv_take:
  "31 \<le> n \<Longrightarrow> construct_mic_iv qc a4 (take n mpdu) plen pn = construct_mic_iv qc a4 mpdu plen pn"
  by (simp add: construct_mic_iv_def qos_tc_take rd_slice_take)

lemma header1_take:
  "16 \<le> n \<Longrightarrow> construct_mic_header1 h (take n mpdu) = construct_mic_header1 h mpdu"
  by (simp add: construct_mic_header1_def rd_slice_take)

lemma header2_take:
  "32 \<le> n \<Longrightarrow> construct_mic_header2 (take n mpdu) a4 qc = construct_mic_header2 mpdu a4 qc"
  by (simp add: construct_mic_header2_def rd_slice_take)

lemma qos_tc_Some: "31 \<le> length mpdu \<Longrightarrow> \<exists>tc. qos_tc qc a4 mpdu = Some tc"
  by (simp add: qos_tc_def rd_def)

lemma ctr_Some:
  "31 \<le> length mpdu \<Longrightarrow> \<exists>ctr. construct_ctr_preload a4 qc mpdu pn c = Some ctr"
  using qos_tc_Some [of mpdu qc a4] by (auto simp: construct_ctr_preload_def rd_slice_def)

lemma mic_iv_Some:
  "31 \<le> length mpdu \<Longrightarrow> \<exists>iv. construct_mic_iv qc a4 mpdu plen pn = Some iv"
  using qos_tc_Some [of mpdu qc a4] by (auto simp: construct_mic_iv_def rd_slice_def)

lemma header1_Some: "16 \<le> length mpdu \<Longrightarrow> \<exists>h. construct_mic_header1 n mpdu = Some h"
  by (simp add: construct_mic_header1_def rd_slice_def)

lemma header2_Some: "32 \<le> length mpdu \<Longrightarrow> \<exists>h. construct_mic_header2 mpdu a4 qc = Some h"
  by (simp add: construct_mic_header2_def rd_slice_def)

section \<open>Counter mode is an involution\<close>

text \<open>The keystream byte \<open>k\<close> of the payload, given the first bytes of the frame.\<close>

definition ctr_of :: "(byte list \<Rightarrow> byte list) \<Rightarrow> bool \<Rightarrow> bool \<Rightarrow> byte list \<Rightarrow> byte list \<Rightarrow> nat \<Rightarrow> byte list" where
  "ctr_of E a4 qc pn mpdu c = E (the (construct_ctr_preload a4 qc mpdu pn c))"

definition keystream :: "(byte list \<Rightarrow> byte list) \<Rightarrow> bool \<Rightarrow> bool \<Rightarrow> byte list \<Rightarrow> byte list \<Rightarrow> nat \<Rightarrow> byte" where
  "keystream E a4 qc pn mpdu k = ctr_of E a4 qc pn mpdu (k div 16 + 1) ! (k mod 16)"

locale block_cipher =
  fixes E :: "byte list \<Rightarrow> byte list"
  assumes E_length: "length (E x) = 16"
begin

lemma ctr_head_cong:
  "take 31 mpdu = take 31 mpdu' \<Longrightarrow> ctr_of E a4 qc pn mpdu c = ctr_of E a4 qc pn mpdu' c"
  unfolding ctr_of_def by (metis ctr_take order_refl)

lemma keystream_head_cong:
  "take 31 mpdu = take 31 mpdu' \<Longrightarrow> keystream E a4 qc pn mpdu k = keystream E a4 qc pn mpdu' k"
  unfolding keystream_def by (metis ctr_head_cong)

lemma head_wr_slice:
  assumes "wr_slice m i bs = Some m'" and "pf + 31 \<le> i"
  shows "take 31 (drop pf m') = take 31 (drop pf m)"
  using assms by (intro slice_eqI) (auto simp: wr_slice_length nth_wr_slice)

text \<open>One block, or the beginning of one, written back xored with the keystream.\<close>

lemma ctr_block_step:
  assumes "pf + 31 \<le> idx" and "idx + r \<le> length m" and "r \<le> 16"
    and "bs = take r (bitwise_xor (ctr_of E a4 qc pn (drop pf m) c) (take r (drop idx m) @ replicate (16 - r) 0))"
  obtains m1 where "wr_slice m idx bs = Some m1"
    and "length m1 = length m" and "take 31 (drop pf m1) = take 31 (drop pf m)"
    and "\<And>k. k < length m \<Longrightarrow> m1 ! k =
      (if idx \<le> k \<and> k < idx + r then m ! k XOR ctr_of E a4 qc pn (drop pf m) c ! (k - idx) else m ! k)"
proof -
  have l: "length bs = r" using assms(3,4) by simp
  then obtain m1 where m1: "wr_slice m idx bs = Some m1" using assms(2) by (simp add: buf_simps)
  have b: "bs ! j = m ! (idx + j) XOR ctr_of E a4 qc pn (drop pf m) c ! j" if "j < r" for j
    using that assms(2,3) by (simp add: assms(4) nth_bitwise_xor nth_append xor.commute)
  show thesis
  proof (rule that [OF m1])
    show "length m1 = length m" using m1 by (rule wr_slice_length)
    show "take 31 (drop pf m1) = take 31 (drop pf m)" by (rule head_wr_slice [OF m1 assms(1)])
    show "m1 ! k = (if idx \<le> k \<and> k < idx + r then m ! k XOR ctr_of E a4 qc pn (drop pf m) c ! (k - idx)
        else m ! k)" if "k < length m" for k
      using nth_wr_slice [OF m1 that] l b [of "k - idx"] by auto
  qed
qed

lemma ctr_short_Some:
  assumes "pf + 31 \<le> idx" and "idx + r \<le> length m" and "r \<le> 16"
  obtains m1 where "ctr_short E a4 qc pn pf idx c r m = Some m1" and "length m1 = length m"
    and "take 31 (drop pf m1) = take 31 (drop pf m)"
    and "\<And>k. k < length m \<Longrightarrow> m1 ! k =
      (if idx \<le> k \<and> k < idx + r then m ! k XOR ctr_of E a4 qc pn (drop pf m) c ! (k - idx) else m ! k)"
proof -
  obtain ctr where ctr: "construct_ctr_preload a4 qc (drop pf m) pn c = Some ctr"
    using ctr_Some [of "drop pf m"] assms(1,2) by fastforce
  obtain m1 where m1: "wr_slice m idx (take r (bitwise_xor (ctr_of E a4 qc pn (drop pf m) c)
      (take r (drop idx m) @ replicate (16 - r) 0))) = Some m1" "length m1 = length m"
    "take 31 (drop pf m1) = take 31 (drop pf m)"
    and n: "\<And>k. k < length m \<Longrightarrow> m1 ! k = (if idx \<le> k \<and> k < idx + r
        then m ! k XOR ctr_of E a4 qc pn (drop pf m) c ! (k - idx) else m ! k)"
    using ctr_block_step [OF assms refl] by metis
  have "ctr_short E a4 qc pn pf idx c r m = Some m1"
    using ctr m1(1) assms(2) by (simp add: ctr_short_def ctr_of_def buf_simps)
  then show thesis using that m1(2,3) n by blast
qed

text \<open>The whole blocks, from counter \<open>i + 1\<close> on.\<close>

lemma ctr_blocks_Some:
  assumes "pf + 31 \<le> idx" and "idx + 16 * n \<le> length m"
  shows "\<exists>m1. ctr_blocks E a4 qc pn pf idx i n m = Some m1 \<and> length m1 = length m \<and>
    take 31 (drop pf m1) = take 31 (drop pf m) \<and>
    (\<forall>k < length m. m1 ! k = (if idx \<le> k \<and> k < idx + 16 * n
       then m ! k XOR ctr_of E a4 qc pn (drop pf m) (i + (k - idx) div 16 + 1) ! ((k - idx) mod 16)
       else m ! k))"
  using assms
proof (induction n arbitrary: idx i m)
  case (Suc n)
  let ?c = "ctr_of E a4 qc pn (drop pf m)"
  have room: "idx + 16 \<le> length m" using Suc.prems(2) by simp
  have full: "take 16 (bitwise_xor x (b @ replicate (16 - 16) 0)) = bitwise_xor x b" for x b
    by simp
  obtain m1 where w: "wr_slice m idx (bitwise_xor (?c (i + 1)) (take 16 (drop idx m))) = Some m1"
    and l1: "length m1 = length m" and h1: "take 31 (drop pf m1) = take 31 (drop pf m)"
    and n1: "\<And>k. k < length m \<Longrightarrow> m1 ! k =
      (if idx \<le> k \<and> k < idx + 16 then m ! k XOR ?c (i + 1) ! (k - idx) else m ! k)"
    using ctr_block_step [OF Suc.prems(1) room order_refl refl, of a4 qc pn "i + 1"]
    unfolding full by metis
  obtain ctr where ctr: "construct_ctr_preload a4 qc (drop pf m) pn (i + 1) = Some ctr"
    using ctr_Some [of "drop pf m"] Suc.prems by fastforce
  have step: "ctr_blocks E a4 qc pn pf idx i (Suc n) m = ctr_blocks E a4 qc pn pf (idx + 16) (i + 1) n m1"
    using ctr w room by (simp add: buf_simps ctr_of_def)
  have "pf + 31 \<le> idx + 16" "idx + 16 + 16 * n \<le> length m1" using Suc.prems l1 by simp_all
  then obtain m2 where m2: "ctr_blocks E a4 qc pn pf (idx + 16) (i + 1) n m1 = Some m2"
    "length m2 = length m1" "take 31 (drop pf m2) = take 31 (drop pf m1)"
    and n2: "\<forall>k < length m1. m2 ! k = (if idx + 16 \<le> k \<and> k < idx + 16 + 16 * n
       then m1 ! k XOR ctr_of E a4 qc pn (drop pf m1) (i + 1 + (k - (idx + 16)) div 16 + 1) !
              ((k - (idx + 16)) mod 16) else m1 ! k)"
    using Suc.IH [of "idx + 16" m1 "i + 1"] by metis
  have c: "ctr_of E a4 qc pn (drop pf m1) = ?c"
    by (rule ext) (rule ctr_head_cong [OF h1])
  have "m2 ! k = (if idx \<le> k \<and> k < idx + 16 * Suc n
       then m ! k XOR ?c (i + (k - idx) div 16 + 1) ! ((k - idx) mod 16) else m ! k)"
    if k: "k < length m" for k
  proof (cases "idx + 16 \<le> k")
    case True
    then have "k - idx = (k - (idx + 16)) + 16" by simp
    then have "(k - idx) div 16 = (k - (idx + 16)) div 16 + 1" "(k - idx) mod 16 = (k - (idx + 16)) mod 16"
      by (metis div_add_self2 mod_add_self2 zero_neq_numeral)+
    then show ?thesis using n2 [rule_format, of k] n1 [OF k] k l1 c True by (auto simp: ac_simps)
  next
    case False
    then show ?thesis using n2 [rule_format, of k] n1 [OF k] k l1 by auto
  qed
  then show ?case using step m2 l1 h1 by auto
qed auto

text \<open>The payload as a whole: every byte is xored with the keystream, nothing else changes.\<close>

lemma ctr_payload_Some:
  assumes "pf + 31 \<le> idx" and "idx + plen \<le> length m"
  obtains m1 where "ctr_payload E a4 qc pn pf idx plen m = Some m1" and "length m1 = length m"
    and "take 31 (drop pf m1) = take 31 (drop pf m)"
    and "\<And>k. k < length m \<Longrightarrow> m1 ! k =
      (if idx \<le> k \<and> k < idx + plen then m ! k XOR keystream E a4 qc pn (drop pf m) (k - idx) else m ! k)"
proof -
  let ?n = "plen div 16" and ?r = "plen mod 16" and ?ks = "keystream E a4 qc pn (drop pf m)"
  have pl: "plen = 16 * ?n + ?r" by simp
  have "idx + 16 * ?n \<le> length m" using assms(2) pl by linarith
  then obtain m1 where m1: "ctr_blocks E a4 qc pn pf idx 0 ?n m = Some m1" "length m1 = length m"
    "take 31 (drop pf m1) = take 31 (drop pf m)"
    and n1: "\<forall>k < length m. m1 ! k = (if idx \<le> k \<and> k < idx + 16 * ?n
       then m ! k XOR ctr_of E a4 qc pn (drop pf m) (0 + (k - idx) div 16 + 1) ! ((k - idx) mod 16)
       else m ! k)"
    using ctr_blocks_Some [OF assms(1)] by meson
  have n1': "m1 ! k = (if idx \<le> k \<and> k < idx + 16 * ?n then m ! k XOR ?ks (k - idx) else m ! k)"
    if "k < length m" for k
    using n1 that by (simp add: keystream_def)
  show thesis
  proof (cases "?r > 0")
    case False
    then have "plen = 16 * ?n" using pl by simp
    then have "m1 ! k = (if idx \<le> k \<and> k < idx + plen then m ! k XOR ?ks (k - idx) else m ! k)"
      if "k < length m" for k using n1' [OF that] by metis
    then show ?thesis using that [of m1] m1 False by (simp add: ctr_payload_def)
  next
    case True
    have a: "pf + 31 \<le> idx + 16 * ?n" "idx + 16 * ?n + ?r \<le> length m1" "?r \<le> 16"
      using assms m1(2) pl by (simp_all add: less_imp_le)
    obtain m2 where m2: "ctr_short E a4 qc pn pf (idx + 16 * ?n) (?n + 1) ?r m1 = Some m2"
      "length m2 = length m1" "take 31 (drop pf m2) = take 31 (drop pf m1)"
      and n2: "\<And>k. k < length m1 \<Longrightarrow> m2 ! k = (if idx + 16 * ?n \<le> k \<and> k < idx + 16 * ?n + ?r
        then m1 ! k XOR ctr_of E a4 qc pn (drop pf m1) (?n + 1) ! (k - (idx + 16 * ?n)) else m1 ! k)"
      using ctr_short_Some [OF a] by metis
    have "m2 ! k = (if idx \<le> k \<and> k < idx + plen then m ! k XOR ?ks (k - idx) else m ! k)"
      if k: "k < length m" for k
    proof (cases "idx + 16 * ?n \<le> k \<and> k < idx + 16 * ?n + ?r")
      case True
      define j where "j = k - (idx + 16 * ?n)"
      have j: "k - idx = 16 * ?n + j" "j < 16" using True by (auto simp: j_def)
      then have "(k - idx) div 16 = ?n" "(k - idx) mod 16 = j" by simp_all
      then have "?ks (k - idx) = ctr_of E a4 qc pn (drop pf m1) (?n + 1) ! j"
        unfolding keystream_def using ctr_head_cong [OF m1(3)] by simp
      then show ?thesis using n2 [of k] n1' [OF k] k m1(2) True pl by (auto simp: j_def)
    next
      case False
      then show ?thesis using n2 [of k] n1' [OF k] k m1(2) pl by auto
    qed
    then show ?thesis using that [of m2] m1 m2 True by (simp add: ctr_payload_def)
  qed
qed

text \<open>The MIC depends on the frame only, wherever it is in the buffer.\<close>

lemma rd_slice_slice:
  "j + n \<le> L \<Longrightarrow> pf + L \<le> length m \<Longrightarrow> rd_slice (slice pf L m) j n = rd_slice m (pf + j) n"
  by (auto simp: rd_slice_def slice_def drop_take add.commute)

lemma mic_blocks_slice:
  "j + 16 * n \<le> L \<Longrightarrow> pf + L \<le> length m \<Longrightarrow>
   mic_blocks E (slice pf L m) j n x = mic_blocks E m (pf + j) n x"
proof (induction n arbitrary: j x)
  case (Suc n)
  have "rd_slice (slice pf L m) j 16 = rd_slice m (pf + j) 16"
    by (rule rd_slice_slice) (use Suc.prems in auto)
  moreover have "mic_blocks E (slice pf L m) (j + 16) n y = mic_blocks E m (pf + (j + 16)) n y" for y
    by (rule Suc.IH) (use Suc.prems in auto)
  ultimately show ?case by (simp add: add.assoc)
qed simp

lemma ccm_mic_slice:
  assumes "24 \<le> hdrlen" and "hdrlen + 8 + plen \<le> L" and "pf + L \<le> length m"
  shows "ccm_mic E qc a4 hdrlen (slice pf L m) 0 plen pn = ccm_mic E qc a4 hdrlen m pf plen pn"
proof -
  have d: "drop 0 (slice pf L m) = take L (drop pf m)" by (simp add: slice_def)
  have b: "mic_blocks E (slice pf L m) (0 + hdrlen + 8) (plen div 16) x =
      mic_blocks E m (pf + hdrlen + 8) (plen div 16) x" for x
    using mic_blocks_slice [of "hdrlen + 8" "plen div 16" L pf m x] assms(2,3)
    by (simp add: add.assoc)
  have r: "rd_slice (slice pf L m) (0 + hdrlen + 8 + 16 * (plen div 16)) (plen mod 16) =
      rd_slice m (pf + hdrlen + 8 + 16 * (plen div 16)) (plen mod 16)"
    using rd_slice_slice [of "hdrlen + 8 + 16 * (plen div 16)" "plen mod 16" L pf m] assms(2,3)
    by (simp add: add.assoc)
  have "31 \<le> L" "16 \<le> L" "32 \<le> L" using assms(1,2) by simp_all
  then show ?thesis
    unfolding ccm_mic_def d b r by (simp add: mic_iv_take header1_take header2_take)
qed

lemma mic_blocks_Some:
  "idx + 16 * n \<le> length m \<Longrightarrow> length x = 16 \<Longrightarrow>
   \<exists>y. mic_blocks E m idx n x = Some y \<and> length y = 16"
proof (induction n arbitrary: idx x)
  case (Suc n)
  then show ?case using Suc.IH [of "idx + 16" "E (bitwise_xor x (take 16 (drop idx m)))"]
    by (simp add: buf_simps E_length)
qed simp

lemma ccm_mic_Some:
  assumes "24 \<le> hdrlen" and "pf + hdrlen + 8 + plen \<le> length m"
  shows "\<exists>mic. ccm_mic E qc a4 hdrlen m pf plen pn = Some mic \<and> length mic = 8"
proof -
  have l: "32 \<le> length (drop pf m)" using assms by simp
  obtain iv h1 h2 where h: "construct_mic_iv qc a4 (drop pf m) plen pn = Some iv"
    "construct_mic_header1 hdrlen (drop pf m) = Some h1" "construct_mic_header2 (drop pf m) a4 qc = Some h2"
    using mic_iv_Some [of "drop pf m"] header1_Some [of "drop pf m"] header2_Some [OF l] l by fastforce
  have le: "pf + hdrlen + 8 + 16 * (plen div 16) \<le> length m" using assms(2) by simp
  obtain y where "mic_blocks E m (pf + hdrlen + 8) (plen div 16)
      (E (bitwise_xor (E (bitwise_xor (E iv) h1)) h2)) = Some y" "length y = 16"
    using mic_blocks_Some [OF le E_length] by blast
  then show ?thesis
    using h assms(2) by (auto simp: ccm_mic_def E_length rd_slice_def)
qed

text \<open>What \<open>aes_cipher\<close> does to the frame, byte by byte.\<close>

lemma aes_cipher_Some:
  assumes hd: "24 \<le> hdrlen" and kind: "frame_kind (m ! pf) hdrlen = (a4, qc, hdrlen)"
    and room: "pf + hdrlen + 8 + n + 8 \<le> length m"
  obtains m' pn mic where "aes_cipher E hdrlen pf n m = Some m'" and "length m' = length m"
    and "ccmp_pn (drop pf m) hdrlen = Some pn"
    and "ccm_mic E qc a4 hdrlen m pf n pn = Some mic" and "length mic = 8"
    and "\<And>k. k < length m \<Longrightarrow> m' ! k =
      (if pf + hdrlen + 8 \<le> k \<and> k < pf + hdrlen + 8 + n
       then m ! k XOR keystream E a4 qc pn (drop pf m) (k - (pf + hdrlen + 8))
       else if pf + hdrlen + 8 + n \<le> k \<and> k < pf + hdrlen + 8 + n + 8
       then mic ! (k - (pf + hdrlen + 8 + n)) XOR
            ctr_of E a4 qc pn (drop pf m) 0 ! (k - (pf + hdrlen + 8 + n))
       else m ! k)"
proof -
  let ?idx = "pf + hdrlen + 8"
  have far: "pf + 31 \<le> ?idx" "pf + 31 \<le> ?idx + n" using hd by simp_all
  obtain pn where pn: "ccmp_pn (drop pf m) hdrlen = Some pn"
    using room that by (simp add: ccmp_pn_def rd_slice_in)
  obtain mic where mic: "ccm_mic E qc a4 hdrlen m pf n pn = Some mic" "length mic = 8"
    using ccm_mic_Some [OF hd, of pf n m qc a4 pn] room by auto
  obtain m1 where m1: "wr_slice m (?idx + n) mic = Some m1"
    using room mic(2) by (simp add: buf_simps)
  note l1 = wr_slice_length [OF m1] and h1 = head_wr_slice [OF m1 far(2)]
  obtain m2 where m2: "ctr_payload E a4 qc pn pf ?idx n m1 = Some m2" "length m2 = length m1"
    "take 31 (drop pf m2) = take 31 (drop pf m1)"
    and n2: "\<And>k. k < length m1 \<Longrightarrow> m2 ! k = (if ?idx \<le> k \<and> k < ?idx + n
      then m1 ! k XOR keystream E a4 qc pn (drop pf m1) (k - ?idx) else m1 ! k)"
    using ctr_payload_Some [OF far(1), of n m1] room l1 by (metis add_leD1)
  have r8: "?idx + n + 8 \<le> length m2" "(8 :: nat) \<le> 16" using room l1 m2(2) by simp_all
  obtain m3 where m3: "ctr_short E a4 qc pn pf (?idx + n) 0 8 m2 = Some m3" "length m3 = length m2"
    and n3: "\<And>k. k < length m2 \<Longrightarrow> m3 ! k = (if ?idx + n \<le> k \<and> k < ?idx + n + 8
      then m2 ! k XOR ctr_of E a4 qc pn (drop pf m2) 0 ! (k - (?idx + n)) else m2 ! k)"
    using ctr_short_Some [OF far(2) r8, of a4 qc pn 0] by metis
  have ks: "keystream E a4 qc pn (drop pf m1) k = keystream E a4 qc pn (drop pf m) k" for k
    by (rule keystream_head_cong [OF h1])
  have c0: "ctr_of E a4 qc pn (drop pf m2) 0 = ctr_of E a4 qc pn (drop pf m) 0"
    by (rule ctr_head_cong) (simp add: m2(3) h1)
  show thesis
  proof (rule that [OF _ _ pn mic])
    show "aes_cipher E hdrlen pf n m = Some m3"
      using room kind pn mic(1) m1 m2(1) m3(1) by (simp add: aes_cipher_def rd_def)
    show "length m3 = length m" using m3(2) m2(2) l1 by simp
    fix k assume k: "k < length m"
    have b1: "m1 ! k = (if ?idx + n \<le> k \<and> k < ?idx + n + 8 then mic ! (k - (?idx + n)) else m ! k)"
      using nth_wr_slice [OF m1 k] mic(2) by simp
    have b2: "m2 ! k = (if ?idx \<le> k \<and> k < ?idx + n
      then m1 ! k XOR keystream E a4 qc pn (drop pf m) (k - ?idx) else m1 ! k)"
      using n2 [of k] k l1 ks by simp
    have b3: "m3 ! k = (if ?idx + n \<le> k \<and> k < ?idx + n + 8
      then m2 ! k XOR ctr_of E a4 qc pn (drop pf m) 0 ! (k - (?idx + n)) else m2 ! k)"
      using n3 [of k] k l1 m2(2) c0 by simp
    show "m3 ! k = (if ?idx \<le> k \<and> k < ?idx + n
       then m ! k XOR keystream E a4 qc pn (drop pf m) (k - ?idx)
       else if ?idx + n \<le> k \<and> k < ?idx + n + 8
       then mic ! (k - (?idx + n)) XOR ctr_of E a4 qc pn (drop pf m) 0 ! (k - (?idx + n))
       else m ! k)"
      unfolding b3 b2 b1 by auto
  qed
qed

text \<open>The receiver undoes it and accepts the MIC.\<close>

lemma ccmp_pn_slice:
  "hdrlen + 8 \<le> L \<Longrightarrow> pf + L \<le> length m \<Longrightarrow> ccmp_pn (slice pf L m) hdrlen = ccmp_pn (drop pf m) hdrlen"
  by (simp add: ccmp_pn_def slice_def rd_slice_take)

lemma aes_decipher_cipher:
  assumes hd: "24 \<le> hdrlen" and kind: "frame_kind (m ! pf) hdrlen = (a4, qc, hdrlen)"
    and room: "pf + hdrlen + 8 + n + 8 \<le> length m" and small: "hdrlen + 8 + n + 8 \<le> MAX_MSG_SIZE"
    and enc: "aes_cipher E hdrlen pf n m = Some m'"
  shows "\<exists>d. aes_decipher E hdrlen (n + 8) (slice pf (hdrlen + 8 + n + 8) m') = Some (SUCCESS, d) \<and>
    length d = hdrlen + 8 + n + 8 \<and> take (hdrlen + 8 + n) d = slice pf (hdrlen + 8 + n) m"
proof -
  let ?L = "hdrlen + 8 + n + 8" and ?idx = "hdrlen + 8"
  define f where "f = slice pf ?L m'"
  obtain pn mic where l': "length m' = length m" and pn: "ccmp_pn (drop pf m) hdrlen = Some pn"
    and mic: "ccm_mic E qc a4 hdrlen m pf n pn = Some mic" "length mic = 8"
    and m': "\<And>k. k < length m \<Longrightarrow> m' ! k =
      (if pf + hdrlen + 8 \<le> k \<and> k < pf + hdrlen + 8 + n
       then m ! k XOR keystream E a4 qc pn (drop pf m) (k - (pf + hdrlen + 8))
       else if pf + hdrlen + 8 + n \<le> k \<and> k < pf + hdrlen + 8 + n + 8
       then mic ! (k - (pf + hdrlen + 8 + n)) XOR
            ctr_of E a4 qc pn (drop pf m) 0 ! (k - (pf + hdrlen + 8 + n))
       else m ! k)"
    using aes_cipher_Some [OF hd kind room] enc by (metis option.inject)
  have lf: "length f = ?L" using room l' by (simp add: f_def len_simps)
  let ?ks = "keystream E a4 qc pn (drop pf m)" and ?c0 = "ctr_of E a4 qc pn (drop pf m) 0"
  have fk: "f ! k = (if ?idx \<le> k \<and> k < ?idx + n then m ! (pf + k) XOR ?ks (k - ?idx)
      else if ?idx + n \<le> k then mic ! (k - (?idx + n)) XOR ?c0 ! (k - (?idx + n)) else m ! (pf + k))"
    if "k < ?L" for k
  proof -
    have "f ! k = m' ! (pf + k)" unfolding f_def using that room l' by (intro nth_slice) auto
    also have "\<dots> = (if ?idx \<le> k \<and> k < ?idx + n then m ! (pf + k) XOR ?ks (k - ?idx)
      else if ?idx + n \<le> k then mic ! (k - (?idx + n)) XOR ?c0 ! (k - (?idx + n)) else m ! (pf + k))"
    proof -
      have s: "pf + k - (pf + hdrlen + 8) = k - ?idx" "pf + k - (pf + hdrlen + 8 + n) = k - (?idx + n)"
        by simp_all
      show ?thesis using m' [of "pf + k"] that room unfolding s by (simp add: ac_simps)
    qed
    finally show ?thesis .
  qed
  have head: "take 31 (drop 0 f) = take 31 (drop pf m)"
  proof (rule nth_equalityI)
    fix k assume "k < length (take 31 (drop 0 f))"
    then show "take 31 (drop 0 f) ! k = take 31 (drop pf m) ! k"
      using fk [of k] hd room lf by simp
  qed (use lf room hd in simp)
  have far: "0 + 31 \<le> ?idx" "0 + 31 \<le> ?idx + n" using hd by simp_all
  obtain f1 where f1: "ctr_payload E a4 qc pn 0 ?idx n f = Some f1" "length f1 = length f"
    "take 31 (drop 0 f1) = take 31 (drop 0 f)"
    and n1: "\<And>k. k < length f \<Longrightarrow> f1 ! k = (if ?idx \<le> k \<and> k < ?idx + n
      then f ! k XOR keystream E a4 qc pn (drop 0 f) (k - ?idx) else f ! k)"
    using ctr_payload_Some [OF far(1), of n f] lf by (metis le_add1)
  have ks: "keystream E a4 qc pn (drop 0 f) k = ?ks k" for k
    by (rule keystream_head_cong [OF head])
  have f1k: "f1 ! k = m ! (pf + k)" if "k < ?idx + n" for k
    using n1 [of k] fk [of k] ks that lf by (auto simp: not_le)
  have tail: "f1 ! (?idx + n + j) = mic ! j XOR ?c0 ! j" if "j < 8" for j
    using n1 [of "?idx + n + j"] fk [of "?idx + n + j"] that lf by simp
  have plain: "take (?idx + n) f1 = slice pf (?idx + n) m"
    by (rule nth_equalityI) (use lf f1(2) room f1k in \<open>auto simp: len_simps nth_slice\<close>)
  have pn0: "ccmp_pn f hdrlen = Some pn"
  proof -
    have "take 8 (drop hdrlen f) = take 8 (drop hdrlen (drop pf m))"
      by (rule nth_equalityI) (use lf room fk in \<open>auto simp: ac_simps\<close>)
    then have "rd_slice f hdrlen 8 = rd_slice (drop pf m) hdrlen 8"
      using lf room by (simp add: rd_slice_def)
    then show ?thesis using pn by (simp add: ccmp_pn_def)
  qed
  have pn1: "ccmp_pn f1 hdrlen = Some pn"
    using ccmp_pn_slice [of hdrlen "?idx + n" 0 f1] ccmp_pn_slice [of hdrlen "?idx + n" pf m]
      pn plain lf f1(2) room by (simp add: slice_def)
  have mic1: "ccm_mic E qc a4 hdrlen f1 0 n pn = Some mic"
    using ccm_mic_slice [OF hd, of n "?idx + n" 0 f1] ccm_mic_slice [OF hd, of n "?idx + n" pf m]
      mic(1) plain lf f1(2) room by (simp add: slice_def)
  obtain g1 where g1: "wr_slice f1 (?idx + n) mic = Some g1"
    using lf f1(2) mic(2) by (simp add: buf_simps)
  note lg1 = wr_slice_length [OF g1] and hg1 = head_wr_slice [OF g1 far(2)]
  obtain g2 where g2: "ctr_payload E a4 qc pn 0 ?idx n g1 = Some g2" "length g2 = length g1"
    "take 31 (drop 0 g2) = take 31 (drop 0 g1)"
    and ng2: "\<And>k. k < length g1 \<Longrightarrow> g2 ! k = (if ?idx \<le> k \<and> k < ?idx + n
      then g1 ! k XOR keystream E a4 qc pn (drop 0 g1) (k - ?idx) else g1 ! k)"
    using ctr_payload_Some [OF far(1), of n g1] lf f1(2) lg1 by (metis le_add1)
  have r8: "?idx + n + 8 \<le> length g2" "(8 :: nat) \<le> 16" using g2(2) lg1 f1(2) lf by simp_all
  obtain g3 where g3: "ctr_short E a4 qc pn 0 (?idx + n) 0 8 g2 = Some g3" "length g3 = length g2"
    and ng3: "\<And>k. k < length g2 \<Longrightarrow> g3 ! k = (if ?idx + n \<le> k \<and> k < ?idx + n + 8
      then g2 ! k XOR ctr_of E a4 qc pn (drop 0 g2) 0 ! (k - (?idx + n)) else g2 ! k)"
    using ctr_short_Some [OF far(2) r8, of a4 qc pn 0] by metis
  have c0: "ctr_of E a4 qc pn (drop 0 g2) 0 = ?c0"
    by (rule ctr_head_cong) (simp only: g2(3) hg1 f1(3) head)
  have g3k: "g3 ! (?idx + n + j) = mic ! j XOR ?c0 ! j" if "j < 8" for j
    using ng3 [of "?idx + n + j"] ng2 [of "?idx + n + j"] nth_wr_slice [OF g1, of "?idx + n + j"]
      that lf f1(2) lg1 g2(2) c0 mic(2) by simp
  have same: "take 8 (drop (?idx + n) f1) = take 8 (drop (?idx + n) g3)"
    by (rule nth_equalityI) (use lf f1(2) lg1 g2(2) g3(2) tail g3k in auto)
  have k0: "f ! 0 = m ! pf" using fk [of 0] hd by simp
  have "aes_decipher E hdrlen (n + 8) f = Some (SUCCESS, f1)"
    using small lf f1(1,2) pn0 pn1 kind k0 mic1 g1 g2 g3 lg1 same
    by (simp add: aes_decipher_def decipher_check_def rd_def rd_slice_def MAX_MSG_SIZE_def)
  then show ?thesis using plain f1(2) lf f_def by auto
qed

text \<open>A frame that was protected had room for its MIC.\<close>

lemma mic_blocks_length: "mic_blocks E m idx n x = Some y \<Longrightarrow> length x = 16 \<Longrightarrow> length y = 16"
  by (induction n arbitrary: idx x) (auto simp: bind_eq_Some_conv E_length)

lemma ccm_mic_length: "ccm_mic E qc a4 hdrlen m pf plen pn = Some mic \<Longrightarrow> length mic = 8"
  by (auto simp: ccm_mic_def bind_eq_Some_conv E_length split: if_splits dest: mic_blocks_length)

lemma aes_cipher_room:
  assumes "aes_cipher E hdrlen pf n m = Some m'" and "frame_kind (m ! pf) hdrlen = (a4, qc, hdrlen)"
  shows "pf + hdrlen + 8 + n + 8 \<le> length m"
proof -
  obtain pn mic m1 where "ccm_mic E qc a4 hdrlen m pf n pn = Some mic"
    "wr_slice m (pf + hdrlen + 8 + n) mic = Some m1"
    using assms by (auto simp: aes_cipher_def bind_eq_Some_conv rd_Some_iff)
  then show ?thesis using ccm_mic_length by (auto simp: wr_slice_def split: if_splits)
qed

lemma aes_cipher_local:
  assumes hd: "24 \<le> hdrlen" and kind: "frame_kind (m ! pf) hdrlen = (a4, qc, hdrlen)"
    and enc: "aes_cipher E hdrlen pf n m = Some m'"
  shows "length m' = length m"
    and "k < length m \<Longrightarrow> k < pf + hdrlen + 8 \<or> pf + hdrlen + 8 + n + 8 \<le> k \<Longrightarrow> m' ! k = m ! k"
proof -
  obtain m'' pn mic where m'': "aes_cipher E hdrlen pf n m = Some m''" and l: "length m'' = length m"
    and b: "\<And>k. k < length m \<Longrightarrow> m'' ! k =
      (if pf + hdrlen + 8 \<le> k \<and> k < pf + hdrlen + 8 + n
       then m ! k XOR keystream E a4 qc pn (drop pf m) (k - (pf + hdrlen + 8))
       else if pf + hdrlen + 8 + n \<le> k \<and> k < pf + hdrlen + 8 + n + 8
       then mic ! (k - (pf + hdrlen + 8 + n)) XOR
            ctr_of E a4 qc pn (drop pf m) 0 ! (k - (pf + hdrlen + 8 + n))
       else m ! k)"
    using aes_cipher_Some [OF hd kind aes_cipher_room [OF enc kind]] by metis
  have "m'' = m'" using m'' enc by simp
  then show "length m' = length m" using l by simp
  show "k < length m \<Longrightarrow> k < pf + hdrlen + 8 \<or> pf + hdrlen + 8 + n + 8 \<le> k \<Longrightarrow> m' ! k = m ! k"
    using b [of k] \<open>m'' = m'\<close> by auto
qed

end

interpretation aes: block_cipher "aes128k128d key" for key
  by unfold_locales simp

section \<open>CCMP as a fragment cipher\<close>

text \<open>
  The header of a frame whose length the code takes over unchanged: at least a three-address
  header, and 26 bytes exactly when the frame control says QoS data.
\<close>

definition ccmp_ok :: "nat \<Rightarrow> byte list \<Rightarrow> bool" where
  "ccmp_ok hdrlen h \<longleftrightarrow> 24 \<le> hdrlen \<and> snd (snd (frame_kind (h ! 0) hdrlen)) = hdrlen"

definition ccmp_unseal :: "byte list \<Rightarrow> nat \<Rightarrow> byte list \<Rightarrow> byte list option" where
  "ccmp_unseal key hdrlen f =
     (case aes_decipher (aes128k128d key) hdrlen (length f - (8 + hdrlen)) f of
        Some (res, d) \<Rightarrow> if res = SUCCESS then Some (take (length d - 8) d) else None
      | None \<Rightarrow> None)"

lemma frame_kind_ok:
  assumes "ccmp_ok hdrlen (slice pf (8 + hdrlen) m)" and "pf < length m"
  obtains a4 qc where "frame_kind (m ! pf) hdrlen = (a4, qc, hdrlen)" and "24 \<le> hdrlen"
proof -
  have "slice pf (8 + hdrlen) m ! 0 = m ! pf" using nth_slice [of 0 "8 + hdrlen" pf m] assms(2) by simp
  then show thesis using assms(1) that by (metis ccmp_ok_def prod.collapse)
qed

interpretation ccmp: fragment_cipher "ccmp_seal key hdrlen" "ccmp_unseal key hdrlen" "8 + hdrlen" 8
  "ccmp_ok hdrlen" "\<lambda>n. n \<le> MAX_MSG_SIZE"
  for key hdrlen
proof
  fix len :: int and pf k and m m' :: "byte list"
  assume ok: "ccmp_ok hdrlen (slice pf (8 + hdrlen) m)"
  let ?E = "aes128k128d key"
  { assume len: "0 \<le> len" and fit: "pf + (8 + hdrlen) + nat len + 8 \<le> length m"
    then obtain a4 qc where kind: "frame_kind (m ! pf) hdrlen = (a4, qc, hdrlen)" "24 \<le> hdrlen"
      using frame_kind_ok [OF ok] by auto
    have room: "pf + hdrlen + 8 + nat len + 8 \<le> length m" using fit by simp
    show "\<exists>m'. ccmp_seal key hdrlen pf len m = Some m'"
    proof -
      obtain m' where "aes_cipher ?E hdrlen pf (nat len) m = Some m'"
        using aes.aes_cipher_Some [OF kind(2,1) room, where key = key] by metis
      then show ?thesis using len by (simp add: ccmp_seal_def)
    qed
  }
  assume "ccmp_seal key hdrlen pf len m = Some m'"
  then have len: "0 \<le> len" and enc: "aes_cipher ?E hdrlen pf (nat len) m = Some m'"
    by (auto simp: ccmp_seal_def split: if_splits)
  have "pf < length m" using enc by (auto simp: aes_cipher_def rd_def split: if_splits)
  then obtain a4 qc where kind: "frame_kind (m ! pf) hdrlen = (a4, qc, hdrlen)" "24 \<le> hdrlen"
    using frame_kind_ok [OF ok] by auto
  note room = aes.aes_cipher_room [OF enc kind(1)]
  note loc = aes.aes_cipher_local [OF kind(2,1) enc]
  show l: "length m' = length m" by (rule loc(1))
  show "m' ! k = m ! k" if "k < length m"
    and "k < pf + (8 + hdrlen) \<or> pf + (8 + hdrlen) + nat len + 8 \<le> k"
    by (rule loc(2)) (use that in auto)
  assume small: "8 + hdrlen + nat len + 8 \<le> MAX_MSG_SIZE"
  obtain d where d: "aes_decipher ?E hdrlen (nat len + 8) (slice pf (hdrlen + 8 + nat len + 8) m') =
      Some (SUCCESS, d)" "length d = hdrlen + 8 + nat len + 8"
    "take (hdrlen + 8 + nat len) d = slice pf (hdrlen + 8 + nat len) m"
    using aes.aes_decipher_cipher [OF kind(2,1) room _ enc] small by auto
  have lf: "length (slice pf (8 + hdrlen + nat len + 8) m') = 8 + hdrlen + nat len + 8"
    using room l by (simp add: len_simps)
  show "ccmp_unseal key hdrlen (slice pf (8 + hdrlen + nat len + 8) m') =
      Some (slice pf (8 + hdrlen + nat len) m)"
    using d lf by (simp add: ccmp_unseal_def ac_simps)
qed

section \<open>Properties\<close>

text \<open>A receiver that shares the transmitter's key.\<close>

definition ccmp_peer :: "byte list \<Rightarrow> pkt_attrib \<Rightarrow> adapter \<Rightarrow> rx_pkt_attrib \<Rightarrow> bool" where
  "ccmp_peer key px ad' rx \<longleftrightarrow>
     rx_encrypt rx = AES \<and> rx_hdrlen rx = px_hdrlen px \<and> rx_iv_len rx = 8 \<and>
     rx_ta rx = px_ta px \<and> rx_ra rx = px_ra px \<and>
     (\<exists>p'. rtw_get_stainfo (stapriv ad') (rx_ta rx) = Some p' \<and>
        (if IS_MCAST (rx_ra rx)
         then sec_binstallGrpkey (securitypriv ad') \<and>
              sec_GrpKeyid (securitypriv ad') = rx_key_index rx \<and>
              sec_GrpKey (securitypriv ad') (rx_key_index rx) = key
         else si_UncstKey (sta_buf (stapriv ad') p') = key))"

text \<open>
  C9: CCMP round trip.  For a linked station and fragments that fit their buffer, whose header
  length agrees with their frame control and which are at most 2048 bytes long,
  \<open>rtw_aes_encrypt\<close> succeeds without touching anything outside the buffer, and a receiver
  with the same key turns every fragment back into its header, IV and payload and accepts its
  MIC.
\<close>

theorem ccmp_roundtrip:
  fixes xb :: xmit_buf and pkt_offset :: nat and px :: pkt_attrib and ad :: adapter
  defines "start k \<equiv> frag_start (xb_addr xb) (xp_frag_len (xmitpriv ad)) (first_pframe pkt_offset) k"
    and "len k \<equiv> nat (frag_length (xp_frag_len (xmitpriv ad)) px (px_nr_frags px) k)"
  assumes "px_encrypt px = AES" and "px_iv_len px = 8" and "px_psta px = Some p"
    and "si_state (sta_buf (stapriv ad) p) AND FW_LINKED \<noteq> 0"
    and "frags_fit 8 (xp_frag_len (xmitpriv ad)) px (xb_addr xb) (first_pframe pkt_offset) (xb_mem xb)"
    and "\<forall>k < px_nr_frags px. ccmp_ok (px_hdrlen px) (slice (start k) (8 + px_hdrlen px) (xb_mem xb)) \<and>
           8 + px_hdrlen px + len k + 8 \<le> MAX_MSG_SIZE"
  shows "\<exists>xb'. rtw_aes_encrypt ad px pkt_offset (Some xb) = Some (SUCCESS, Some xb') \<and>
    (\<forall>k < px_nr_frags px. \<forall>ad' rf. ccmp_peer (tx_key ad px p) px ad' (rf_attrib rf) \<longrightarrow>
       rf_data rf = slice (start k) (8 + px_hdrlen px + len k + 8) (xb_mem xb') \<longrightarrow>
       (\<exists>rf'. rtw_aes_decrypt ad' rf = Some (SUCCESS, rf') \<and>
          take (length (rf_data rf') - 8) (rf_data rf') =
          slice (start k) (8 + px_hdrlen px + len k) (xb_mem xb)))"
proof -
  let ?fl = "xp_frag_len (xmitpriv ad)" and ?pf = "first_pframe pkt_offset"
  let ?key = "tx_key ad px p" and ?h = "px_hdrlen px"
  have fit: "0 \<le> mid_frag_length ?fl px" "0 \<le> last_frag_length px"
    "\<forall>k < px_nr_frags px. start k + (8 + ?h) + len k + 8 \<le> length (xb_mem xb)"
    using assms(4,7) by (simp_all add: frags_fit_def start_def len_def)
  have mid: "8 + ?h + nat (mid_frag_length ?fl px) + 8 \<le> ?fl"
    using frags_fit_mid [OF assms(7)] assms(4) by simp
  obtain m' where m': "frags_loop (ccmp_seal ?key ?h) (xb_addr xb) ?fl px (px_nr_frags px) ?pf
        (xb_mem xb) = Some m'" and lm: "length m' = length (xb_mem xb)"
    and un: "\<forall>k < px_nr_frags px. ccmp_unseal ?key ?h (slice (start k) (8 + ?h + len k + 8) m') =
        Some (slice (start k) (8 + ?h + len k) (xb_mem xb))"
    using ccmp.frags_loop_roundtrip [OF mid fit(1,2), of "px_nr_frags px" "xb_addr xb" ?pf "xb_mem xb" ?key]
      fit(3) assms(8)
    unfolding start_def len_def by metis
  show ?thesis
  proof (intro exI [of _ "xb\<lparr>xb_mem := m'\<rparr>"] conjI allI impI)
    show "rtw_aes_encrypt ad px pkt_offset (Some xb) = Some (SUCCESS, Some (xb\<lparr>xb_mem := m'\<rparr>))"
      using assms(3,5,6) m' by (simp add: rtw_aes_encrypt_def Let_def tx_key_def)
  next
    fix k ad' and rf :: recv_frame
    assume k: "k < px_nr_frags px" and rx: "ccmp_peer ?key px ad' (rf_attrib rf)"
      and data: "rf_data rf = slice (start k) (8 + ?h + len k + 8) (xb_mem (xb\<lparr>xb_mem := m'\<rparr>))"
    have l: "length (rf_data rf) = 8 + ?h + len k + 8"
      using fit(3) [rule_format, OF k] lm data by (simp add: len_simps)
    obtain d where d: "aes_decipher (aes128k128d ?key) ?h (length (rf_data rf) - (8 + ?h)) (rf_data rf) =
        Some (SUCCESS, d)" "take (length d - 8) d = slice (start k) (8 + ?h + len k) (xb_mem xb)"
      using un [rule_format, OF k] data by (auto simp: ccmp_unseal_def split: option.splits if_splits)
    have n: "nat (int (length (rf_data rf)) - int ?h - 8) = length (rf_data rf) - (8 + ?h)"
      using l by simp
    have "rtw_aes_decrypt ad' rf = Some (SUCCESS, rf\<lparr>rf_data := d\<rparr>)"
      using rx d(1) l n by (auto simp: rtw_aes_decrypt_def ccmp_peer_def Let_def)
    then show "\<exists>rf'. rtw_aes_decrypt ad' rf = Some (SUCCESS, rf') \<and>
          take (length (rf_data rf') - 8) (rf_data rf') = slice (start k) (8 + ?h + len k) (xb_mem xb)"
      using d(2) by auto
  qed
qed

lemma sample_ccmp_ok: "ccmp_ok 24 h \<longleftrightarrow> snd (snd (frame_kind (h ! 0) 24)) = 24"
  by (simp add: ccmp_ok_def)

theorem ccmp_roundtrip_witness:
  "\<exists>xb'. rtw_aes_encrypt linked_adapter (sample_px AES 8 8) 0 (Some sample_xb) =
     Some (SUCCESS, Some xb')"
proof -
  have z: "slice i (8 + 24) (replicate 200 0) ! 0 = (0 :: byte)" if "i < 168" for i
    using that by (simp add: slice_def)
  have "ccmp_ok 24 (slice (frag_start 4096 60 (first_pframe 0) k) (8 + 24) (replicate 200 0))"
    if "k < 2" for k
  proof -
    have "k = 0 \<or> k = 1" using that by auto
    then have "frag_start 4096 60 (first_pframe 0) k < 168"
      by (auto simp: first_pframe_def TXDESC_SIZE_def next_pframe_def RND4_def)
    then show ?thesis
      by (simp only: sample_ccmp_ok z)
        (simp add: frame_kind_def GetFrameType_def GetFrameSubType_def WIFI_DATA_def WIFI_DATA_CFACK_def
          WIFI_DATA_CFPOLL_def WIFI_DATA_CFACKPOLL_def)
  qed
  moreover have "8 + 24 + nat (frag_length 60 (sample_px AES 8 8) 2 k) + 8 \<le> MAX_MSG_SIZE" for k
    by (simp add: frag_length_def sample_px_def last_frag_length_def mid_frag_length_def MAX_MSG_SIZE_def)
  ultimately show ?thesis
    using ccmp_roundtrip [of "sample_px AES 8 8" 0 linked_adapter sample_xb 0]
      sample_fit [of 8 8 8 AES]
    by (auto simp: sample_px_def sample_xb_def linked_adapter_def FW_LINKED_def)
qed

text \<open>
  The frames CCMP refuses.  A frame from a station that is not in the table, a group frame
  before a group key is installed or under another key index than the installed one is
  refused and left as it was; \<open>rtw_aes_encrypt\<close> refuses, without writing to it, a frame for a
  station that is unknown or not linked.
\<close>

theorem ccmp_refusals:
  "(rx_encrypt (rf_attrib rf) = AES \<and>
    (rtw_get_stainfo (stapriv ad) (rx_ta (rf_attrib rf)) = None \<or>
     IS_MCAST (rx_ra (rf_attrib rf)) \<and>
       (sec_binstallGrpkey (securitypriv ad) = False \<or>
        sec_GrpKeyid (securitypriv ad) \<noteq> rx_key_index (rf_attrib rf))) \<longrightarrow>
    rtw_aes_decrypt ad rf = Some (FAIL, rf)) \<and>
   (px_encrypt px = AES \<and>
    (px_psta px = None \<and> rtw_get_stainfo (stapriv ad) (px_ra px) = None \<or>
     (\<exists>p. px_psta px = Some p \<and> si_state (sta_buf (stapriv ad) p) AND FW_LINKED = 0)) \<longrightarrow>
    rtw_aes_encrypt ad px pkt_offset (Some xb) = Some (FAIL, Some xb))"
  by (auto simp: rtw_aes_decrypt_def rtw_aes_encrypt_def Let_def split: option.splits)

theorem ccmp_refusals_witness:
  "rtw_aes_decrypt zero_adapter (sample_rf AES [1, 2]) = Some (FAIL, sample_rf AES [1, 2]) \<and>
   rtw_aes_encrypt zero_adapter (sample_px AES 8 8) 0 (Some sample_xb) = Some (FAIL, Some sample_xb)"
  using ccmp_refusals [of "sample_rf AES [1, 2]" zero_adapter "sample_px AES 8 8" 0 sample_xb]
  by (simp add: sample_rf_def sample_px_def zero_adapter_def zero_sta_priv_def rtw_get_stainfo_def
      rtw_init_stainfo_def)

section \<open>Frames that overrun a buffer\<close>

lemma frame_kind_hdrlen: "hdrlen \<le> snd (snd (frame_kind fc0 hdrlen))"
  by (simp add: frame_kind_def Let_def)

text \<open>
  The receive path overruns its 2048-byte \<open>message\<close>.  No access is checked against
  \<open>MAX_MSG_SIZE\<close>, so \<open>rtw_aes_decrypt\<close> on a frame of a known station (group frames with the
  installed key) that is longer, as an A-MSDU may be, writes outside the array.
\<close>

theorem ccmp_message_overflow:
  assumes "rx_encrypt (rf_attrib rf) = AES"
    and "rtw_get_stainfo (stapriv ad) (rx_ta (rf_attrib rf)) = Some p"
    and "\<not> IS_MCAST (rx_ra (rf_attrib rf))"
    and "rx_iv_len (rf_attrib rf) = 8" and "MAX_MSG_SIZE < length (rf_data rf)"
  shows "rtw_aes_decrypt ad rf = None"
proof -
  have "aes_decipher E hdrlen (nat (int (length f) - int hdrlen - 8)) f = None"
    if "MAX_MSG_SIZE < length f" for E hdrlen and f :: "byte list"
  proof -
    let ?n = "nat (int (length f) - int hdrlen - 8)"
    have "\<not> snd (snd (frame_kind fc0 hdrlen)) + ?n + 8 \<le> MAX_MSG_SIZE" for fc0
      using that frame_kind_hdrlen [of hdrlen fc0] by linarith
    then show ?thesis by (auto simp: aes_decipher_def decipher_check_def Let_def split_beta bind_eq_None_conv)
  qed
  then show ?thesis using assms by (simp add: rtw_aes_decrypt_def Let_def)
qed

theorem ccmp_message_overflow_witness:
  "rtw_aes_decrypt one_sta_adapter (sample_rf AES (replicate 2049 0)) = None"
  by (rule ccmp_message_overflow [where p = 0])
    (use one_sta_table_get in \<open>simp_all add: sample_rf_def one_sta_adapter_def sample_mac_def
      IS_MCAST_def MAX_MSG_SIZE_def\<close>)

end
