(* ===== verification/Decache.thy ===== *)
theory Decache
  imports StaMgt Samples
begin

text \<open>
  Duplicate and replay detection in \<open>core/rtw_recv.c\<close>: \<open>recv_decache\<close> on sequence numbers,
  \<open>recv_ucast_pn_decache\<close> and \<open>recv_bcast_pn_decache\<close> on CCMP packet numbers.  \<open>None\<close> is a
  read outside the frame.  The eight bytes of \<open>iv_seq\<close> are kept as the number they encode on a
  little-endian machine.
\<close>

section \<open>The code\<close>

definition recv_decache :: "recv_frame \<Rightarrow> (nat \<Rightarrow> u16) \<Rightarrow> nat \<times> (nat \<Rightarrow> u16)" where
  "recv_decache rf tid_rxseq =
     (let tid = rx_priority (rf_attrib rf);
          seq_ctrl = push_bit 4 (rx_seq_num (rf_attrib rf) AND 0xffff) OR
                     (of_nat (rx_frag_num (rf_attrib rf)) AND 0xf)
      in if tid > 15 then (FAIL, tid_rxseq)
         else if seq_ctrl = tid_rxseq tid then (FAIL, tid_rxseq)
         else (SUCCESS, tid_rxseq(tid := seq_ctrl)))"

definition PN_LESS_CHK :: "u64 \<Rightarrow> u64 \<Rightarrow> bool" where
  "PN_LESS_CHK a b \<longleftrightarrow> (a - b) AND 0x800000000000 \<noteq> 0"

definition PN_EQUAL_CHK :: "u64 \<Rightarrow> u64 \<Rightarrow> bool" where
  "PN_EQUAL_CHK a b \<longleftrightarrow> a = b"

text \<open>\<open>memcpy\<close> of eight bytes and \<open>le64_to_cpu\<close>.\<close>

definition le64 :: "byte list \<Rightarrow> u64" where
  "le64 b = ucast (b ! 0) OR push_bit 8 (ucast (b ! 1)) OR push_bit 16 (ucast (b ! 2)) OR
     push_bit 24 (ucast (b ! 3)) OR push_bit 32 (ucast (b ! 4)) OR push_bit 40 (ucast (b ! 5)) OR
     push_bit 48 (ucast (b ! 6)) OR push_bit 56 (ucast (b ! 7))"

definition ccmp_hdr_pn :: "u64 \<Rightarrow> u64" where
  "ccmp_hdr_pn tmp_iv_hdr =
     (tmp_iv_hdr AND 0x000000000000ffff) OR drop_bit 16 (tmp_iv_hdr AND 0xffffffff00000000)"

definition recv_ucast_pn_decache ::
  "recv_frame \<Rightarrow> (nat \<Rightarrow> byte list) \<Rightarrow> (nat \<times> (nat \<Rightarrow> byte list)) option" where
  "recv_ucast_pn_decache rf iv =
     (let tid = rx_priority (rf_attrib rf) in
      if tid > 15 then Some (FAIL, iv)
      else if rx_encrypt (rf_attrib rf) = AES then do {
        hdr \<leftarrow> rd_slice (rf_data rf) (rx_hdrlen (rf_attrib rf)) 8;
        let pkt_pn = ccmp_hdr_pn (le64 hdr);
        let curr_pn = ccmp_hdr_pn (le64 (iv tid));
        if curr_pn = 0 then Some (SUCCESS, iv(tid := hdr))
        else if PN_LESS_CHK pkt_pn curr_pn \<or> PN_EQUAL_CHK pkt_pn curr_pn then Some (SUCCESS, iv)
        else Some (SUCCESS, iv(tid := hdr))
      }
      else Some (SUCCESS, iv))"

text \<open>\<open>station\<close> is \<open>check_fwstate(pmlmepriv, WIFI_STATION_STATE)\<close>.\<close>

definition recv_bcast_pn_decache ::
  "bool \<Rightarrow> recv_frame \<Rightarrow> (nat \<Rightarrow> u64) \<Rightarrow> (nat \<times> (nat \<Rightarrow> u64)) option" where
  "recv_bcast_pn_decache station rf iv_seq =
     (if rx_encrypt (rf_attrib rf) = AES \<and> station then do {
        hdr \<leftarrow> rd_slice (rf_data rf) (rx_hdrlen (rf_attrib rf)) 8;
        let tmp_iv_hdr = le64 hdr;
        let key_id = unat (drop_bit 30 (tmp_iv_hdr AND 0x00000000c0000000));
        let pkt_pn = ccmp_hdr_pn tmp_iv_hdr;
        if key_id \<ge> 4 then Some (FAIL, iv_seq)
        else
          let curr_pn = iv_seq key_id AND 0x0000ffffffffffff in
          if curr_pn = 0 then Some (SUCCESS, iv_seq(key_id := pkt_pn))
          else if PN_LESS_CHK pkt_pn curr_pn \<or> PN_EQUAL_CHK pkt_pn curr_pn then Some (FAIL, iv_seq)
          else Some (SUCCESS, iv_seq(key_id := pkt_pn))
      }
      else Some (SUCCESS, iv_seq))"

section \<open>Sequence numbers\<close>

lemma recv_decache_accepts:
  "recv_decache rf c = (SUCCESS, c') \<Longrightarrow> recv_decache rf c' = (FAIL, c')"
  by (auto simp: recv_decache_def Let_def split: if_splits)

section \<open>Packet numbers\<close>

lemma pn_ffff: "(0xffff :: u64) = mask 16" "(0x0000ffffffffffff :: u64) = mask 48"
  "(0xffffffff00000000 :: u64) = push_bit 32 (mask 32)" "(0x800000000000 :: u64) = 2 ^ 47"
  by (simp_all add: mask_eq_exp_minus_1)

lemma and_mask_less: "(w :: u64) AND mask n = w \<longleftrightarrow> take_bit n w = w"
  by (simp add: take_bit_eq_mask)

lemma ccmp_hdr_pn_48: "take_bit 48 (ccmp_hdr_pn w) = ccmp_hdr_pn w"
  by (rule bit_word_eqI)
    (auto simp: ccmp_hdr_pn_def pn_ffff bit_simps dest: bit_imp_le_length)

lemma ccmp_hdr_pn_mask: "ccmp_hdr_pn w AND 0x0000ffffffffffff = ccmp_hdr_pn w"
  unfolding pn_ffff by (simp add: and_mask_less ccmp_hdr_pn_48)

text \<open>Below \<open>2 ^ 47\<close> the comparison is the one of numbers.\<close>

lemma and_exp_bit: "(w :: u64) AND 2 ^ n \<noteq> 0 \<longleftrightarrow> bit w n"
  by (metis and_exp_eq_0_iff_not_bit)

lemma PN_LESS_CHK_iff:
  assumes "unat a < 2 ^ 47" and "unat b < 2 ^ 47"
  shows "PN_LESS_CHK a b \<longleftrightarrow> a < b"
proof -
  have b: "PN_LESS_CHK a b \<longleftrightarrow> odd (unat (a - b) div 2 ^ 47)"
    unfolding PN_LESS_CHK_def pn_ffff and_exp_bit
    using bit_iff_odd [of "unat (a - b)" 47] by (simp add: bit_unsigned_iff)
  show ?thesis
  proof (cases "a < b")
    case True
    then have "unat (a - b) = 2 ^ 64 + unat a - unat b"
      by (simp add: unat_sub_if_size word_less_nat_alt size_word_def)
    moreover have "unat a < unat b" using True by (simp add: word_less_nat_alt)
    ultimately have "unat (a - b) div 2 ^ 47 = 2 ^ 17 - 1"
      using assms by (intro div_nat_eqI) simp_all
    then show ?thesis using b True by simp
  next
    case False
    then have "unat (a - b) = unat a - unat b" by (simp add: unat_sub not_less)
    then have "unat (a - b) div 2 ^ 47 = 0" using assms by simp
    then show ?thesis using b False by simp
  qed
qed

text \<open>The packet number and key index of a frame, and a run over a sequence of group frames.\<close>

definition frame_hdr :: "recv_frame \<Rightarrow> u64" where
  "frame_hdr rf = le64 (take 8 (drop (rx_hdrlen (rf_attrib rf)) (rf_data rf)))"

definition frame_pn :: "recv_frame \<Rightarrow> u64" where
  "frame_pn rf = ccmp_hdr_pn (frame_hdr rf)"

definition frame_key :: "recv_frame \<Rightarrow> nat" where
  "frame_key rf = unat (drop_bit 30 (frame_hdr rf AND 0x00000000c0000000))"

fun bcast_run :: "(nat \<Rightarrow> u64) \<Rightarrow> recv_frame list \<Rightarrow> (recv_frame list \<times> (nat \<Rightarrow> u64)) option" where
  "bcast_run iv [] = Some ([], iv)"
| "bcast_run iv (f # fs) = do {
     (r, iv1) \<leftarrow> recv_bcast_pn_decache True f iv;
     (acc, iv2) \<leftarrow> bcast_run iv1 fs;
     Some (if r = SUCCESS then f # acc else acc, iv2)
   }"

lemma bcast_step:
  assumes "recv_bcast_pn_decache True f iv = Some (r, iv1)" and "rx_encrypt (rf_attrib f) = AES"
    and "unat (frame_pn f) < 2 ^ 47" and "frame_pn f \<noteq> 0" and small: "\<forall>k. unat (iv k) < 2 ^ 47"
  shows "r = SUCCESS \<and> iv1 = iv(frame_key f := frame_pn f) \<and> iv (frame_key f) < frame_pn f \<or>
         r = FAIL \<and> iv1 = iv"
proof -
  have m: "iv k AND 0x0000ffffffffffff = iv k" for k
  proof -
    have "int (unat (iv k)) < int (2 ^ 47)"
      using small [rule_format, of k] by (simp only: of_nat_less_iff)
    then have "uint (iv k) < 2 ^ 48" by simp
    then show ?thesis unfolding pn_ffff by (simp only: mask_eq_iff)
  qed
  have gt: "iv k < frame_pn f"
    if "\<not> (PN_LESS_CHK (frame_pn f) (iv k) \<or> PN_EQUAL_CHK (frame_pn f) (iv k))" for k
    using that PN_LESS_CHK_iff [OF assms(3) small [rule_format, of k]]
    by (auto simp: PN_EQUAL_CHK_def)
  have key: "unat (drop_bit 30 (frame_hdr f) AND 3) = frame_key f" by (simp add: frame_key_def)
  have z: "iv k = 0 \<Longrightarrow> iv k < frame_pn f" for k using assms(4) by (simp add: word_neq_0_conv)
  show ?thesis
    using assms(1,2) gt z
    by (auto simp: recv_bcast_pn_decache_def bind_eq_Some_conv rd_slice_def Let_def m
        key frame_pn_def [symmetric] frame_hdr_def [symmetric] split: if_splits)
qed

lemma bcast_run_sorted:
  assumes "bcast_run iv fs = Some (acc, iv')"
    and "\<forall>f \<in> set fs. rx_encrypt (rf_attrib f) = AES \<and> unat (frame_pn f) < 2 ^ 47 \<and> frame_pn f \<noteq> 0"
    and "\<forall>k. unat (iv k) < 2 ^ 47"
  shows "(\<forall>f \<in> set acc. iv (frame_key f) < frame_pn f) \<and>
         sorted_wrt (<) (map frame_pn (filter (\<lambda>f. frame_key f = k) acc))"
  using assms
proof (induction fs arbitrary: iv acc)
  case (Cons f fs)
  obtain r iv1 acc1 where st: "recv_bcast_pn_decache True f iv = Some (r, iv1)"
    and run: "bcast_run iv1 fs = Some (acc1, iv')" and acc: "acc = (if r = SUCCESS then f # acc1 else acc1)"
    using Cons.prems(1) by (auto simp: bind_eq_Some_conv)
  have f: "rx_encrypt (rf_attrib f) = AES" "unat (frame_pn f) < 2 ^ 47" "frame_pn f \<noteq> 0"
    using Cons.prems(2) by simp_all
  from bcast_step [OF st f Cons.prems(3)] show ?case
  proof
    assume s: "r = SUCCESS \<and> iv1 = iv(frame_key f := frame_pn f) \<and> iv (frame_key f) < frame_pn f"
    then have "\<forall>k. unat (iv1 k) < 2 ^ 47" using f(2) Cons.prems(3) by simp
    then have IH: "\<forall>g \<in> set acc1. iv1 (frame_key g) < frame_pn g"
      "sorted_wrt (<) (map frame_pn (filter (\<lambda>g. frame_key g = k) acc1))"
      using Cons.IH [OF run] Cons.prems(2) by simp_all
    have "iv (frame_key g) < frame_pn g" if "g \<in> set acc1" for g
      using IH(1) that s by (cases "frame_key g = frame_key f") (auto intro: less_trans)
    then show ?thesis using IH s acc by auto
  next
    assume s: "r = FAIL \<and> iv1 = iv"
    then show ?thesis using Cons.IH [OF run] Cons.prems(2,3) acc by simp
  qed
qed simp


definition pn_frame :: "byte \<Rightarrow> recv_frame" where
  "pn_frame b = sample_rf AES (replicate 24 0 @ [b, 0, 0, 0x60, 0, 0, 0, 0] @ replicate 16 0)"

lemma pn_frame_facts:
  "frame_hdr (pn_frame b) = ucast b OR 0x60000000" "rx_encrypt (rf_attrib (pn_frame b)) = AES"
  by (simp_all add: frame_hdr_def pn_frame_def sample_rf_def le64_def)


text \<open>
  The unicast check rejects no replay.  \<open>recv_ucast_pn_decache\<close> compares the packet number
  with the last one and then answers \<open>_SUCCESS\<close> in every case: a CCMP frame whose packet
  number was already seen, or is older, is accepted and the stored number stays.
\<close>

theorem ucast_pn_accepts_replay:
  assumes "recv_ucast_pn_decache rf iv = Some (r, iv1)" and "rx_priority (rf_attrib rf) \<le> 15"
  shows "r = SUCCESS \<and> recv_ucast_pn_decache rf iv1 = Some (SUCCESS, iv1)"
  using assms
  by (auto simp: recv_ucast_pn_decache_def PN_EQUAL_CHK_def bind_eq_Some_conv Let_def fun_upd_idem_iff
      split: if_splits)

theorem ucast_pn_accepts_replay_witness:
  "\<exists>r iv1. recv_ucast_pn_decache (pn_frame 5) (\<lambda>_. replicate 8 0) = Some (r, iv1) \<and>
     recv_ucast_pn_decache (pn_frame 5) iv1 = Some (SUCCESS, iv1)"
proof -
  have "\<exists>x. recv_ucast_pn_decache (pn_frame 5) (\<lambda>_. replicate 8 0) = Some x"
    by (simp add: recv_ucast_pn_decache_def pn_frame_def sample_rf_def rd_slice_def Let_def)
  then obtain r iv1 where s: "recv_ucast_pn_decache (pn_frame 5) (\<lambda>_. replicate 8 0) = Some (r, iv1)"
    by (metis prod.collapse)
  have "rx_priority (rf_attrib (pn_frame 5)) \<le> 15" by (simp add: pn_frame_def sample_rf_def)
  from ucast_pn_accepts_replay [OF s this] show ?thesis using s by blast
qed

text \<open>
  A retransmission is detected.  A frame \<open>recv_decache\<close> accepts is refused when it arrives
  again right after, the refusal changes nothing, and the cache of no other traffic class is
  touched; a traffic class above 15 is refused.
\<close>

theorem decache_rejects_duplicate:
  "(\<forall>c'. recv_decache rf c = (SUCCESS, c') \<longrightarrow>
      recv_decache rf c' = (FAIL, c') \<and>
      (\<forall>tid. tid \<noteq> rx_priority (rf_attrib rf) \<longrightarrow> c' tid = c tid)) \<and>
   (\<forall>c'. recv_decache rf c = (FAIL, c') \<longrightarrow> c' = c) \<and>
   (rx_priority (rf_attrib rf) > 15 \<longrightarrow> fst (recv_decache rf c) = FAIL)"
  by (auto simp: recv_decache_def Let_def split: if_splits)

theorem decache_rejects_duplicate_witness:
  "\<exists>c'. recv_decache (pn_frame 5) (\<lambda>_. 0xffff) = (SUCCESS, c') \<and>
     recv_decache (pn_frame 5) c' = (FAIL, c')"
proof -
  have "recv_decache (pn_frame 5) (\<lambda>_. 0xffff) = (SUCCESS, (\<lambda>_. 0xffff)(0 := 0))"
    by (simp add: recv_decache_def pn_frame_def sample_rf_def Let_def)
  with decache_rejects_duplicate [of "pn_frame 5" "\<lambda>_. 0xffff"] show ?thesis by blast
qed

end
