(* ===== verification/RecvFrame.thy ===== *)
theory RecvFrame
  imports Samples
begin

text \<open>
  Receive frames: the pool of \<open>core/rtw_recv.c\<close>, the pointer operations of
  \<open>include/rtw_recv.h\<close>, the conversion of 802.11 data frames to Ethernet
  (\<open>wlanhdr_to_ethhdr\<close>), the splitting of A-MSDUs (\<open>amsdu_to_msdu\<close>) and the indication to the
  network stack (\<open>os_dep/recv_linux.c\<close>).  \<open>None\<close> is an access outside the frame's bytes or a
  null dereference.

  A frame in the driver's hands always has its packet, so \<open>pkt\<close> is not a field: the packet is
  \<open>rf_data\<close> when it is handed over.  The interface is not attached to a bridge (\<open>br_port\<close> is
  \<open>NULL\<close>).
\<close>

section \<open>The frame pool\<close>

definition NR_RECVFRAME :: nat where "NR_RECVFRAME = 256"

datatype recv_queue = FreeRecvQueue | UcSwdecPendingQueue

definition get_queue :: "adapter \<Rightarrow> recv_queue \<Rightarrow> recv_frame list" where
  "get_queue ad q = (case q of FreeRecvQueue \<Rightarrow> free_recv_queue ad
                     | UcSwdecPendingQueue \<Rightarrow> uc_swdec_pending_queue ad)"

definition set_queue :: "adapter \<Rightarrow> recv_queue \<Rightarrow> recv_frame list \<Rightarrow> adapter" where
  "set_queue ad q xs = (case q of FreeRecvQueue \<Rightarrow> ad\<lparr>free_recv_queue := xs\<rparr>
                        | UcSwdecPendingQueue \<Rightarrow> ad\<lparr>uc_swdec_pending_queue := xs\<rparr>)"

definition rtw_alloc_recvframe :: "adapter \<Rightarrow> recv_queue \<Rightarrow> recv_frame option \<times> adapter" where
  "rtw_alloc_recvframe ad q =
     (case get_queue ad q of [] \<Rightarrow> (None, ad)
      | f # fs \<Rightarrow>
          let ad1 = set_queue ad q fs
          in (Some f, if q = FreeRecvQueue
                      then ad1\<lparr>free_recvframe_cnt := free_recvframe_cnt ad1 - 1\<rparr> else ad1))"

text \<open>
  \<open>rtw_list_delete\<close> and \<open>rtw_list_insert_tail\<close>: a frame that is already on the queue is moved
  to its end.
\<close>

definition move_to_tail :: "recv_frame \<Rightarrow> recv_frame list \<Rightarrow> recv_frame list" where
  "move_to_tail f q = filter (\<lambda>g. rf_id g \<noteq> rf_id f) q @ [f]"

definition rtw_enqueue_recvframe :: "adapter \<Rightarrow> recv_frame \<Rightarrow> recv_queue \<Rightarrow> adapter" where
  "rtw_enqueue_recvframe ad f q =
     (let ad1 = set_queue ad q (move_to_tail f (get_queue ad q))
      in if q = FreeRecvQueue
         then ad1\<lparr>free_recvframe_cnt := free_recvframe_cnt ad1 + 1\<rparr> else ad1)"

definition rtw_free_recvframe :: "adapter \<Rightarrow> recv_frame \<Rightarrow> adapter" where
  "rtw_free_recvframe ad f =
     ad\<lparr>free_recv_queue := move_to_tail f (free_recv_queue ad),
        free_recvframe_cnt := free_recvframe_cnt ad + 1\<rparr>"

definition rtw_free_recvframe_queue :: "adapter \<Rightarrow> recv_frame list \<Rightarrow> adapter" where
  "rtw_free_recvframe_queue ad q = foldl rtw_free_recvframe ad q"

section \<open>Moving the data pointers\<close>

text \<open>The result says whether the pointer returned is not \<open>NULL\<close>.\<close>

definition recvframe_pull :: "recv_frame \<Rightarrow> int \<Rightarrow> (bool \<times> recv_frame) option" where
  "recvframe_pull rf sz =
     (if sz > int (length (rf_data rf)) then Some (False, rf)
      else if sz \<ge> 0 then
        Some (True, rf\<lparr>rf_head := rf_head rf @ take (nat sz) (rf_data rf),
                       rf_data := drop (nat sz) (rf_data rf)\<rparr>)
      else let n = nat (- sz); h = rf_head rf in
        if n > length h then None
        else Some (True, rf\<lparr>rf_head := take (length h - n) h,
                            rf_data := drop (length h - n) h @ rf_data rf\<rparr>))"

definition recvframe_pull_tail :: "recv_frame \<Rightarrow> nat \<Rightarrow> recv_frame" where
  "recvframe_pull_tail rf sz =
     (if sz > length (rf_data rf) then rf
      else rf\<lparr>rf_data := take (length (rf_data rf) - sz) (rf_data rf),
              rf_tailroom := rf_tailroom rf + sz\<rparr>)"

text \<open>
  \<open>memcpy\<close> of \<open>bs\<close> to \<open>rx_tail\<close> followed by \<open>recvframe_put\<close> of their number.  The copy comes
  first, so without room it has already written past \<open>rx_end\<close> when \<open>recvframe_put\<close> refuses.
\<close>

definition append_put :: "recv_frame \<Rightarrow> byte list \<Rightarrow> recv_frame option" where
  "append_put rf bs =
     (if length bs > rf_tailroom rf then None
      else Some (rf\<lparr>rf_data := rf_data rf @ bs, rf_tailroom := rf_tailroom rf - length bs\<rparr>))"

text \<open>A write at an offset of \<open>rx_data\<close>; bytes that fall between \<open>rx_tail\<close> and \<open>rx_end\<close> are lost.\<close>

definition write_rx :: "recv_frame \<Rightarrow> nat \<Rightarrow> byte list \<Rightarrow> recv_frame option" where
  "write_rx rf i bs =
     (let d = rf_data rf in
      if i + length bs > length d + rf_tailroom rf then None
      else Some (rf\<lparr>rf_data := take (length d) (take i d @ bs @ drop (i + length bs) d)\<rparr>))"

section \<open>From the 802.11 header to the Ethernet header\<close>

definition SNAP_SIZE :: nat where "SNAP_SIZE = 6"
definition ETH_HLEN :: nat where "ETH_HLEN = 14"

definition SNAP_ETH_TYPE_IPX :: "byte list" where "SNAP_ETH_TYPE_IPX = [0x81, 0x37]"
definition SNAP_ETH_TYPE_APPLETALK_AARP :: "byte list" where
  "SNAP_ETH_TYPE_APPLETALK_AARP = [0x80, 0xf3]"

definition rtw_rfc1042_header :: "byte list" where
  "rtw_rfc1042_header = [0xaa, 0xaa, 0x03, 0x00, 0x00, 0x00]"

definition rtw_bridge_tunnel_header :: "byte list" where
  "rtw_bridge_tunnel_header = [0xaa, 0xaa, 0x03, 0x00, 0x00, 0xf8]"

definition be16 :: "byte list \<Rightarrow> nat" where
  "be16 b = 256 * unat (b ! 0) + unat (b ! 1)"

definition be16_bytes :: "nat \<Rightarrow> byte list" where
  "be16_bytes n = [of_nat (n div 256), of_nat n]"

text \<open>
  \<open>memcmp\<close> with the received bytes; \<open>None\<close> where they end before the first difference, so that
  bytes behind \<open>rx_tail\<close> decide.
\<close>

definition match_at :: "byte list \<Rightarrow> nat \<Rightarrow> byte list \<Rightarrow> bool option" where
  "match_at d off pat =
     (let s = take (length pat) (drop off d) in
      if s = pat then Some True else if s = take (length s) pat then None else Some False)"

text \<open>The condition on the LLC header: an encapsulation that is removed.\<close>

definition llc_snap :: "byte list \<Rightarrow> nat \<Rightarrow> bool option" where
  "llc_snap d off = do {
     rfc1042 \<leftarrow> match_at d off rtw_rfc1042_header;
     plain \<leftarrow> (if rfc1042 then do {
          ipx \<leftarrow> match_at d (off + SNAP_SIZE) SNAP_ETH_TYPE_IPX;
          if ipx then Some False
          else map_option Not (match_at d (off + SNAP_SIZE) SNAP_ETH_TYPE_APPLETALK_AARP) }
        else Some False);
     if plain then Some True else match_at d off rtw_bridge_tunnel_header }"

text \<open>
  The type field that is only recorded in \<open>eth_type\<close> is read and not kept; the test-mode branch
  copies the receive status in front.
\<close>

definition wlanhdr_to_ethhdr :: "adapter \<Rightarrow> recv_frame \<Rightarrow> (nat \<times> recv_frame) option" where
  "wlanhdr_to_ethhdr ad rf =
     (let a = rf_attrib rf; off = rx_hdrlen a + rx_iv_len a;
          rf0 = (if rx_encrypt a \<noteq> NO_PRIVACY then recvframe_pull_tail rf (rx_icv_len a) else rf) in do {
      bsnaphdr \<leftarrow> llc_snap (rf_data rf0) off;
      let rmv_len = off + (if bsnaphdr then SNAP_SIZE else 0);
      let len = (of_int (int (length (rf_data rf0)) - int rmv_len) :: u16);
      (if rmv_len + 2 > length (rf_data rf0) + rf_tailroom rf0 then None else Some ());
      (at, rf3) \<leftarrow>
        (if check_fwstate ad WIFI_MP_STATE then do {
           rf1 \<leftarrow> write_rx rf0 rmv_len [0x87, 0x12];
           (ok, rf2) \<leftarrow> recvframe_pull rf1 (int rmv_len - int ETH_HLEN + 2 - 24);
           rxmem \<leftarrow> (if ok then rd_slice (rf_head rf2 @ rf_data rf2) 0 24 else None);
           rf3 \<leftarrow> write_rx rf2 0 rxmem;
           Some (24, rf3) }
         else do {
           (ok, rf2) \<leftarrow> recvframe_pull rf0 (int rmv_len - int ETH_HLEN + (if bsnaphdr then 2 else 0));
           if ok then Some (0, rf2) else None });
      rf4 \<leftarrow> write_rx rf3 at (rx_dst a @ rx_src a);
      rf5 \<leftarrow> (if bsnaphdr then Some rf4 else write_rx rf4 (at + 12) (be16_bytes (unat len)));
      Some (SUCCESS, rf5) })"

section \<open>Indication to the network stack\<close>

text \<open>One call of the kernel's packet allocator.\<close>

definition skb_get :: "adapter \<Rightarrow> bool \<times> adapter" where
  "skb_get ad = (skb_ok ad (skb_cnt ad), ad\<lparr>skb_cnt := skb_cnt ad + 1\<rparr>)"

definition rtw_netif_rx :: "adapter \<Rightarrow> byte list \<Rightarrow> adapter" where
  "rtw_netif_rx ad skb = ad\<lparr>netif_out := netif_out ad @ [skb]\<rparr>"

definition rtw_xmit_entry :: "adapter \<Rightarrow> byte list \<Rightarrow> adapter" where
  "rtw_xmit_entry ad skb = ad\<lparr>xmit_out := xmit_out ad @ [skb]\<rparr>"

text \<open>In access point mode a group frame is forwarded and indicated, one to a station forwarded.\<close>

definition rtw_recv_indicatepkt :: "adapter \<Rightarrow> recv_frame \<Rightarrow> adapter option" where
  "rtw_recv_indicatepkt ad rf =
     (let skb = rf_data rf; dst = rx_dst (rf_attrib rf) in
      if check_fwstate ad WIFI_AP_STATE \<and> dst \<noteq> eeprom_mac ad then
        if IS_MCAST dst then
          let (ok, ad1) = skb_get ad in
          case rtw_get_bcmc_stainfo (stapriv ad1) of
            None \<Rightarrow> Some (rtw_free_recvframe (rtw_netif_rx ad1 skb) rf)
          | Some psta \<Rightarrow>
              if ok then Some (rtw_free_recvframe (rtw_netif_rx (rtw_xmit_entry ad1 skb) skb) rf)
              else None
        else
          case rtw_get_stainfo (stapriv ad) dst of
            None \<Rightarrow> Some (rtw_free_recvframe (rtw_netif_rx ad skb) rf)
          | Some psta \<Rightarrow> Some (rtw_free_recvframe (rtw_xmit_entry ad skb) rf)
      else Some (rtw_free_recvframe (rtw_netif_rx ad skb) rf))"

section \<open>A-MSDUs\<close>

definition MAX_SUBFRAME_COUNT :: nat where "MAX_SUBFRAME_COUNT = 64"

definition ETH_P_AARP :: nat where "ETH_P_AARP = 0x80F3"
definition ETH_P_IPX :: nat where "ETH_P_IPX = 0x8137"

definition amsdu_padding :: "nat \<Rightarrow> nat" where
  "amsdu_padding n =
     (let padding_len = 4 - (n + ETH_HLEN) mod 4 in if padding_len = 4 then 0 else padding_len)"

text \<open>
  The loop over the subframes: the \<open>a_len\<close> bytes at \<open>pdata\<close> are a list, \<open>k\<close> is
  \<open>nr_subframes\<close>.  A subframe is copied to a packet of its own or, without memory, to a
  clone.  The result says whether the loop left through \<open>goto exit\<close>.
\<close>

function amsdu_loop :: "adapter \<Rightarrow> nat \<Rightarrow> byte list \<Rightarrow> adapter \<times> bool \<times> byte list list" where
  "amsdu_loop ad k pdata =
     (if length pdata \<le> ETH_HLEN then (ad, False, [])
      else let n = be16 (drop 12 pdata) in
        if length pdata < ETH_HLEN + n then (ad, True, [])
        else
          let body = drop ETH_HLEN pdata;
              (ok, ad1) = skb_get ad;
              (ok, ad2) = (if ok then (True, ad1) else skb_get ad1);
              sub = take n body; rest = drop n body;
              padding_len = amsdu_padding n
          in if \<not> ok then (ad2, False, [])
             else if k + 1 \<ge> MAX_SUBFRAME_COUNT then (ad2, False, [sub])
             else if rest \<noteq> [] \<and> length rest < padding_len then (ad2, True, [sub])
             else
               let rest' = (if rest \<noteq> [] then drop padding_len rest else rest);
                   (ad3, bad, subs) = amsdu_loop ad2 (k + 1) rest'
               in (ad3, bad, sub # subs))"
  by pat_completeness auto

termination by (relation "measure (\<lambda>(ad, k, pdata). length pdata)") (auto simp: ETH_HLEN_def)

declare amsdu_loop.simps [simp del]

text \<open>The Ethernet packet of a subframe.\<close>

definition subframe_packet :: "rx_pkt_attrib \<Rightarrow> byte list \<Rightarrow> byte list" where
  "subframe_packet a sub =
     (let eth_type = be16 (drop 6 sub) in
      if length sub \<ge> 8 \<and>
         (take SNAP_SIZE sub = rtw_rfc1042_header \<and> eth_type \<noteq> ETH_P_AARP \<and> eth_type \<noteq> ETH_P_IPX \<or>
          take SNAP_SIZE sub = rtw_bridge_tunnel_header)
      then rx_dst a @ rx_src a @ drop SNAP_SIZE sub
      else rx_dst a @ rx_src a @ be16_bytes (length sub) @ sub)"

text \<open>A pull whose result is not looked at.\<close>

definition pull_ignored :: "recv_frame \<Rightarrow> nat \<Rightarrow> recv_frame" where
  "pull_ignored rf n = (case recvframe_pull rf (int n) of Some (ok, rf') \<Rightarrow> rf' | None \<Rightarrow> rf)"

definition amsdu_to_msdu :: "adapter \<Rightarrow> recv_frame \<Rightarrow> nat \<times> adapter" where
  "amsdu_to_msdu ad rf =
     (let a = rf_attrib rf;
          rf1 = pull_ignored rf (rx_hdrlen a);
          rf2 = (if rx_iv_len a > 0 then pull_ignored rf1 (rx_iv_len a) else rf1);
          (ad1, bad, subs) = amsdu_loop ad 0 (rf_data rf2);
          ad2 = (if bad then ad1
                 else foldl (\<lambda>ad sub. rtw_netif_rx ad (subframe_packet a sub)) ad1 subs)
      in (SUCCESS, rtw_free_recvframe ad2 (rf2\<lparr>rf_data := []\<rparr>)))"

section \<open>The pool's counter\<close>

definition recv_pool_ok :: "adapter \<Rightarrow> bool" where
  "recv_pool_ok ad \<longleftrightarrow> free_recvframe_cnt ad = int (length (free_recv_queue ad)) \<and>
     distinct (map rf_id (free_recv_queue ad))"

lemma move_to_tail_new:
  "rf_id f \<notin> rf_id ` set q \<Longrightarrow> move_to_tail f q = q @ [f]"
  by (auto simp: move_to_tail_def filter_id_conv image_iff)

lemma length_move_to_tail:
  assumes "distinct (map rf_id q)"
  shows "length (move_to_tail f q) = (if rf_id f \<in> rf_id ` set q then length q else Suc (length q))"
  using assms
  by (induction q) (auto simp: move_to_tail_def filter_id_conv image_iff)

lemma distinct_move_to_tail: "distinct (map rf_id q) \<Longrightarrow> distinct (map rf_id (move_to_tail f q))"
  by (auto simp: move_to_tail_def distinct_map_filter)

lemma free_recvframe_pool:
  assumes "recv_pool_ok ad" and "rf_id f \<notin> rf_id ` set (free_recv_queue ad)"
  shows "recv_pool_ok (rtw_free_recvframe ad f)"
  using assms
  by (simp add: recv_pool_ok_def rtw_free_recvframe_def length_move_to_tail distinct_move_to_tail
      del: distinct_map)

lemma alloc_recvframe_pool:
  assumes "recv_pool_ok ad" and "rtw_alloc_recvframe ad FreeRecvQueue = (Some f, ad1)"
  shows "recv_pool_ok ad1 \<and> rf_id f \<notin> rf_id ` set (free_recv_queue ad1)"
  using assms
  by (auto simp: recv_pool_ok_def rtw_alloc_recvframe_def get_queue_def set_queue_def Let_def
      split: list.splits)

section \<open>Ethernet conversion\<close>

lemma write_rx_front:
  "length bs \<le> length (rf_data rf) \<Longrightarrow>
   write_rx rf 0 bs = Some (rf\<lparr>rf_data := bs @ drop (length bs) (rf_data rf)\<rparr>)"
  by (simp add: write_rx_def Let_def)

lemma match_at_here:
  assumes "length hdr = off" and "length x = length pat"
  shows "match_at (hdr @ x @ rest) off pat = Some (x = pat)"
  using assms by (auto simp: match_at_def Let_def)

lemma llc_snap_removed:
  assumes "length hdr = off" and "length t = 2"
    and "llc = rtw_bridge_tunnel_header \<or>
         llc = rtw_rfc1042_header \<and> t \<notin> {SNAP_ETH_TYPE_IPX, SNAP_ETH_TYPE_APPLETALK_AARP}"
  shows "llc_snap (hdr @ llc @ t @ rest) off = Some True"
proof -
  have l: "length llc = 6" using assms(3) by (auto simp: rtw_rfc1042_header_def rtw_bridge_tunnel_header_def)
  have m: "match_at (hdr @ llc @ t @ rest) off pat = Some (llc = pat)" if "length pat = 6" for pat
    using match_at_here [OF assms(1), of llc pat "t @ rest"] l that by simp
  have ty: "match_at (hdr @ llc @ t @ rest) (off + 6) pat = Some (t = pat)" if "length pat = 2" for pat
    using match_at_here [of "hdr @ llc" "off + 6" t pat rest] assms(1,2) l that by simp
  show ?thesis
    using assms(3) m [of rtw_rfc1042_header] m [of rtw_bridge_tunnel_header] ty [of SNAP_ETH_TYPE_IPX]
      ty [of SNAP_ETH_TYPE_APPLETALK_AARP]
    by (auto simp: llc_snap_def SNAP_SIZE_def rtw_rfc1042_header_def rtw_bridge_tunnel_header_def
        SNAP_ETH_TYPE_IPX_def SNAP_ETH_TYPE_APPLETALK_AARP_def)
qed

lemma llc_snap_kept:
  assumes "length hdr = off" and "8 \<le> length payload"
    and "take 6 payload \<noteq> rtw_bridge_tunnel_header"
    and "take 6 payload \<noteq> rtw_rfc1042_header \<or>
         take 2 (drop 6 payload) \<in> {SNAP_ETH_TYPE_IPX, SNAP_ETH_TYPE_APPLETALK_AARP}"
  shows "llc_snap (hdr @ payload) off = Some False"
proof -
  have p: "payload = take 6 payload @ take 2 (drop 6 payload) @ drop 8 payload"
    by (metis append_take_drop_id drop_drop numeral_Bit0 add_numeral_left numeral_plus_numeral
        semiring_norm(2-5))
  have m: "match_at (hdr @ payload) off pat = Some (take 6 payload = pat)" if "length pat = 6" for pat
    using match_at_here [OF assms(1), of "take 6 payload" pat "take 2 (drop 6 payload) @ drop 8 payload"]
      assms(2) that p by simp
  have ty: "match_at (hdr @ payload) (off + 6) pat = Some (take 2 (drop 6 payload) = pat)" if "length pat = 2" for pat
    using match_at_here [of "hdr @ take 6 payload" "off + 6" "take 2 (drop 6 payload)" pat "drop 8 payload"]
      assms(1,2) that p by simp
  show ?thesis
    using assms(3,4) m [of rtw_rfc1042_header] m [of rtw_bridge_tunnel_header] ty [of SNAP_ETH_TYPE_IPX]
      ty [of SNAP_ETH_TYPE_APPLETALK_AARP]
    by (auto simp: llc_snap_def SNAP_SIZE_def rtw_rfc1042_header_def rtw_bridge_tunnel_header_def
        SNAP_ETH_TYPE_IPX_def SNAP_ETH_TYPE_APPLETALK_AARP_def)
qed

text \<open>After the ICV is cut: \<open>pre\<close> is what precedes the part that is kept.\<close>

lemma wlanhdr_pull:
  assumes a: "a = rf_attrib rf" and data: "rf_data rf = d @ icv"
    and icv: "length icv = (if rx_encrypt a \<noteq> NO_PRIVACY then rx_icv_len a else 0)"
    and snap: "llc_snap d (rx_hdrlen a + rx_iv_len a) = Some b"
    and rmv: "rmv = rx_hdrlen a + rx_iv_len a + (if b then SNAP_SIZE else 0)"
    and d: "d = pre @ rest" "length pre = rmv - 14 + (if b then 2 else 0)" "14 \<le> rmv" "14 \<le> length rest"
      "rmv + 2 \<le> length d"
    and mp: "\<not> check_fwstate ad WIFI_MP_STATE" and mac: "is_mac (rx_dst a)" "is_mac (rx_src a)"
  shows "\<exists>rf'. wlanhdr_to_ethhdr ad rf = Some (SUCCESS, rf') \<and>
    rf_data rf' = rx_dst a @ rx_src a @ (if b then [] else be16_bytes (unat (of_nat (length d - rmv) :: u16)))
                  @ drop (if b then 12 else 14) rest \<and>
    rf_id rf' = rf_id rf \<and> rf_attrib rf' = rf_attrib rf \<and> rf_ctrl rf' = rf_ctrl rf"
proof -
  define rf0 where "rf0 = (if rx_encrypt a \<noteq> NO_PRIVACY then recvframe_pull_tail rf (rx_icv_len a) else rf)"
  have d0: "rf_data rf0 = d" and keep: "rf_id rf0 = rf_id rf" "rf_attrib rf0 = rf_attrib rf" "rf_ctrl rf0 = rf_ctrl rf"
    using data icv by (auto simp: rf0_def recvframe_pull_tail_def)
  define n where "n = length pre"
  have n: "int rmv - int ETH_HLEN + (if b then 2 else 0) = int n" using d(2,3) by (auto simp: n_def ETH_HLEN_def)
  define rf2 where "rf2 = rf0\<lparr>rf_head := rf_head rf0 @ pre, rf_data := rest\<rparr>"
  have pull: "recvframe_pull rf0 (int n) = Some (True, rf2)"
    using d(1) d0 by (simp add: recvframe_pull_def n_def rf2_def)
  have hd: "length (rx_dst a @ rx_src a) = 12" using mac by (simp add: is_mac_def)
  define rf4 where "rf4 = rf2\<lparr>rf_data := (rx_dst a @ rx_src a) @ drop 12 rest\<rparr>"
  have w1: "write_rx rf2 0 (rx_dst a @ rx_src a) = Some rf4"
    using write_rx_front [of "rx_dst a @ rx_src a" rf2] d(4) hd by (simp add: rf4_def rf2_def)
  have len: "int (length d) - int rmv = int (length d - rmv)" using d(5) by simp
  have fit: "\<not> length d + rf_tailroom rf0 < rmv + 2" using d(5) by simp
  show ?thesis
  proof (cases b)
    case True
    have "wlanhdr_to_ethhdr ad rf = Some (SUCCESS, rf4)"
      using snap n pull w1 mp fit True
      by (simp add: wlanhdr_to_ethhdr_def a [symmetric] rf0_def [symmetric] d0 rmv Let_def del: append_assoc)
    then show ?thesis using True keep by (simp add: rf4_def rf2_def)
  next
    case False
    define l where "l = be16_bytes (unat (of_nat (length d - rmv) :: u16))"
    have w2: "write_rx rf4 12 l = Some (rf4\<lparr>rf_data := (rx_dst a @ rx_src a @ l) @ drop 14 rest\<rparr>)"
    proof -
      have "length l = 2" by (simp add: l_def be16_bytes_def)
      moreover have "drop 2 (drop 12 rest) = drop 14 rest" by simp
      ultimately show ?thesis using hd d(4) by (simp add: write_rx_def rf4_def Let_def)
    qed
    have "wlanhdr_to_ethhdr ad rf = Some (SUCCESS, rf4\<lparr>rf_data := (rx_dst a @ rx_src a @ l) @ drop 14 rest\<rparr>)"
      using snap n pull w1 w2 mp fit False len
      by (simp add: wlanhdr_to_ethhdr_def a [symmetric] rf0_def [symmetric] d0 rmv l_def Let_def del: append_assoc)
    then show ?thesis using False keep by (simp add: rf4_def rf2_def l_def)
  qed
qed

text \<open>
  An encapsulated packet becomes the Ethernet frame it carries.  Behind an RFC 1042 header
  (other than for IPX and AARP) or a bridge-tunnel header, the frame is rewritten to
  destination, source, type and payload; the MAC header, the IV, the LLC header and the ICV
  are gone and nothing outside the frame is touched.
\<close>

lemma wlanhdr_to_ethhdr_snap:
  assumes "rf_data rf = hdr @ llc @ t @ payload @ icv"
    and "length hdr = rx_hdrlen (rf_attrib rf) + rx_iv_len (rf_attrib rf)" and "14 \<le> length hdr"
    and "llc = rtw_bridge_tunnel_header \<or>
         llc = rtw_rfc1042_header \<and> t \<notin> {SNAP_ETH_TYPE_IPX, SNAP_ETH_TYPE_APPLETALK_AARP}"
    and "length t = 2"
    and "length icv = (if rx_encrypt (rf_attrib rf) \<noteq> NO_PRIVACY then rx_icv_len (rf_attrib rf) else 0)"
    and "\<not> check_fwstate ad WIFI_MP_STATE"
    and "is_mac (rx_dst (rf_attrib rf))" and "is_mac (rx_src (rf_attrib rf))"
  shows "\<exists>rf'. wlanhdr_to_ethhdr ad rf = Some (SUCCESS, rf') \<and>
           rf_data rf' = rx_dst (rf_attrib rf) @ rx_src (rf_attrib rf) @ t @ payload \<and>
           rf_id rf' = rf_id rf \<and> rf_attrib rf' = rf_attrib rf \<and> rf_ctrl rf' = rf_ctrl rf"
proof -
  have l: "length llc = 6" using assms(4) by (auto simp: rtw_rfc1042_header_def rtw_bridge_tunnel_header_def)
  define pre where "pre = take (length hdr + 6 - 12) (hdr @ llc)"
  define rest where "rest = drop (length hdr + 6 - 12) (hdr @ llc) @ t @ payload"
  have d: "hdr @ llc @ t @ payload = pre @ rest" unfolding pre_def rest_def append_assoc [symmetric]
    by (simp only: append_take_drop_id append_assoc)
  have n: "length pre = length hdr + 6 - 14 + 2" "14 \<le> length rest" "drop 12 rest = t @ payload"
    using l assms(3,5) by (simp_all add: pre_def rest_def)
  have data: "rf_data rf = (hdr @ llc @ t @ payload) @ icv" using assms(1) by simp
  have len: "length hdr + 6 + 2 \<le> length (hdr @ llc @ t @ payload)" "14 \<le> length hdr + 6"
    using l assms(3,5) by simp_all
  show ?thesis
    using wlanhdr_pull [OF refl data assms(6), of True "length hdr + 6" pre rest ad]
      llc_snap_removed [OF assms(2,5,4), of payload] assms(2,7,8,9) d n len
    by (simp add: SNAP_SIZE_def)
qed

text \<open>
  A packet without such a header keeps its LLC header and gets a length field.  IPX and AARP
  in RFC 1042 frames and everything else are rewritten to destination, source, length and the
  unchanged payload.
\<close>

theorem wlanhdr_to_ethhdr_8023:
  assumes "rf_data rf = hdr @ payload @ icv"
    and "length hdr = rx_hdrlen (rf_attrib rf) + rx_iv_len (rf_attrib rf)" and "14 \<le> length hdr"
    and "8 \<le> length payload" and "length payload < 65536"
    and "take 6 payload \<noteq> rtw_bridge_tunnel_header"
    and "take 6 payload \<noteq> rtw_rfc1042_header \<or>
         take 2 (drop 6 payload) \<in> {SNAP_ETH_TYPE_IPX, SNAP_ETH_TYPE_APPLETALK_AARP}"
    and "length icv = (if rx_encrypt (rf_attrib rf) \<noteq> NO_PRIVACY then rx_icv_len (rf_attrib rf) else 0)"
    and "\<not> check_fwstate ad WIFI_MP_STATE"
    and "is_mac (rx_dst (rf_attrib rf))" and "is_mac (rx_src (rf_attrib rf))"
  shows "\<exists>rf'. wlanhdr_to_ethhdr ad rf = Some (SUCCESS, rf') \<and>
           rf_data rf' = rx_dst (rf_attrib rf) @ rx_src (rf_attrib rf) @ be16_bytes (length payload) @ payload"
proof -
  define pre where "pre = take (length hdr - 14) hdr"
  define rest where "rest = drop (length hdr - 14) hdr @ payload"
  have d: "hdr @ payload = pre @ rest" unfolding pre_def rest_def append_assoc [symmetric]
    by (simp only: append_take_drop_id)
  have n: "length pre = length hdr - 14" "14 \<le> length rest" "drop 14 rest = payload"
    using assms(3) by (simp_all add: pre_def rest_def)
  have w: "unat (of_nat (length payload) :: u16) = length payload"
    using assms(5) by (simp add: unat_of_nat take_bit_eq_mod)
  have data: "rf_data rf = (hdr @ payload) @ icv" using assms(1) by simp
  have len: "length hdr + 2 \<le> length (hdr @ payload)" using assms(4) by simp
  show ?thesis
    using wlanhdr_pull [OF refl data assms(8), of False "length hdr" pre rest ad]
      llc_snap_kept [OF assms(2,4,6,7)] assms(2,3,9,10,11) d n len w
    by auto
qed

theorem wlanhdr_to_ethhdr_8023_witness:
  "\<exists>rf'. wlanhdr_to_ethhdr linked_adapter (sample_rf AES
       (replicate 32 0 @ (rtw_rfc1042_header @ [0x81, 0x37]) @ replicate 4 0)) = Some (SUCCESS, rf') \<and>
     rf_data rf' = [2, 0, 0, 0, 0, 2, 2, 0, 0, 0, 0, 1, 0, 8] @ rtw_rfc1042_header @ [0x81, 0x37]"
  using wlanhdr_to_ethhdr_8023 [of "sample_rf AES
      (replicate 32 0 @ (rtw_rfc1042_header @ [0x81, 0x37]) @ replicate 4 0)" "replicate 32 0"
      "rtw_rfc1042_header @ [0x81, 0x37]" "replicate 4 0" linked_adapter]
  by (auto simp: sample_rf_def is_mac_def be16_bytes_def check_fwstate_def linked_adapter_def
      zero_adapter_def rtw_rfc1042_header_def rtw_bridge_tunnel_header_def SNAP_ETH_TYPE_IPX_def)

section \<open>A-MSDUs\<close>

text \<open>The sender's side: two addresses, the length, the packet, and padding but for the last.\<close>

definition subframe_bytes :: "byte list \<times> byte list \<Rightarrow> byte list" where
  "subframe_bytes m = fst m @ be16_bytes (length (snd m)) @ snd m"

fun amsdu_build :: "(byte list \<times> byte list) list \<Rightarrow> byte list" where
  "amsdu_build [] = []"
| "amsdu_build [m] = subframe_bytes m"
| "amsdu_build (m # m' # ms) =
     subframe_bytes m @ replicate (amsdu_padding (length (snd m))) 0 @ amsdu_build (m' # ms)"

lemma be16_be16_bytes: "n < 65536 \<Longrightarrow> be16 (be16_bytes n @ xs) = n"
  by (simp add: be16_def be16_bytes_def unat_of_nat take_bit_eq_mod)

lemma amsdu_padding_less: "amsdu_padding n < 4"
  by (auto simp: amsdu_padding_def Let_def)

text \<open>One step of the loop, on a subframe that fits.\<close>

lemma amsdu_step:
  assumes "length (fst m) = 12" and "length (snd m) < 65536" and "skb_ok ad (skb_cnt ad)"
    and "ETH_HLEN < length (subframe_bytes m @ rest)"
  shows "amsdu_loop ad k (subframe_bytes m @ rest) =
    (let ad1 = ad\<lparr>skb_cnt := skb_cnt ad + 1\<rparr>; p = amsdu_padding (length (snd m)) in
     if k + 1 \<ge> MAX_SUBFRAME_COUNT then (ad1, False, [snd m])
     else if rest \<noteq> [] \<and> length rest < p then (ad1, True, [snd m])
     else let (ad3, bad, subs) = amsdu_loop ad1 (k + 1) (if rest \<noteq> [] then drop p rest else rest)
          in (ad3, bad, snd m # subs))"
proof -
  define X where "X = subframe_bytes m @ rest"
  have X: "be16 (drop 12 X) = length (snd m)" "drop ETH_HLEN X = snd m @ rest"
    "length X = ETH_HLEN + (length (snd m) + length rest)"
    using assms(1) be16_be16_bytes [OF assms(2), of "snd m @ rest"]
    by (simp_all add: X_def subframe_bytes_def be16_bytes_def ETH_HLEN_def)
  have "\<not> length X \<le> ETH_HLEN" using assms(4) by (simp add: X_def)
  then show ?thesis
    unfolding X_def [symmetric]
    using assms(3)
    by (subst amsdu_loop.simps) (simp only: X skb_get_def, simp add: Let_def)
qed

lemma amsdu_loop_short: "length pdata \<le> ETH_HLEN \<Longrightarrow> amsdu_loop ad k pdata = (ad, False, [])"
  by (subst amsdu_loop.simps) simp

lemma amsdu_loop_build:
  assumes "\<forall>m \<in> set ms. length (fst m) = 12 \<and> 0 < length (snd m) \<and> length (snd m) < 65536"
    and "\<forall>n. skb_ok ad n" and "k + length ms \<le> MAX_SUBFRAME_COUNT"
    and "length icv \<le> ETH_HLEN" and "icv = [] \<or> 3 \<le> length icv"
  shows "amsdu_loop ad k (amsdu_build ms @ icv) =
           (ad\<lparr>skb_cnt := skb_cnt ad + length ms\<rparr>, False, map snd ms)"
  using assms
proof (induction ms arbitrary: ad k rule: amsdu_build.induct)
  case 1
  then show ?case by (simp add: amsdu_loop_short)
next
  case (2 m)
  have len: "ETH_HLEN < length (subframe_bytes m @ icv)"
    using 2 by (auto simp: subframe_bytes_def be16_bytes_def ETH_HLEN_def)
  have p: "amsdu_padding (length (snd m)) \<le> length icv \<or> icv = []"
    using 2(5) amsdu_padding_less [of "length (snd m)"] by auto
  have "length (if icv \<noteq> [] then drop (amsdu_padding (length (snd m))) icv else icv) \<le> ETH_HLEN"
    using le_trans [OF diff_le_self 2(4)] 2(4) by simp
  then have short: "amsdu_loop a i (if icv \<noteq> [] then drop (amsdu_padding (length (snd m))) icv else icv) =
      (a, False, [])" for a i
    by (rule amsdu_loop_short)
  show ?case using 2(1,2) p short amsdu_step [OF _ _ _ len, of ad k] by (auto simp: Let_def)
next
  case (3 m m' ms)
  let ?p = "amsdu_padding (length (snd m))"
  let ?rest = "replicate ?p 0 @ amsdu_build (m' # ms) @ icv"
  have len: "ETH_HLEN < length (subframe_bytes m @ ?rest)"
    using 3(2) by (auto simp: subframe_bytes_def be16_bytes_def ETH_HLEN_def)
  have ne: "amsdu_build (m' # ms) \<noteq> []"
    by (cases ms) (simp_all add: subframe_bytes_def be16_bytes_def)
  have IH: "amsdu_loop (ad\<lparr>skb_cnt := skb_cnt ad + 1\<rparr>) (k + 1) (amsdu_build (m' # ms) @ icv) =
    (ad\<lparr>skb_cnt := skb_cnt ad + 1 + length (m' # ms)\<rparr>, False, map snd (m' # ms))"
    using 3(1) [of "ad\<lparr>skb_cnt := skb_cnt ad + 1\<rparr>" "k + 1"] 3(2-6) by simp
  have "\<not> MAX_SUBFRAME_COUNT \<le> k + 1" using 3(4) by simp
  then show ?case
    using 3(2,3) IH ne amsdu_step [OF _ _ _ len, of ad k]
    by (simp add: Let_def)
qed

lemma foldl_netif:
  "foldl (\<lambda>ad sub. rtw_netif_rx ad (f sub)) ad subs = ad\<lparr>netif_out := netif_out ad @ map f subs\<rparr>"
  by (induction subs arbitrary: ad) (simp_all add: rtw_netif_rx_def)

lemma pull_ignored_keeps:
  "rf_id (pull_ignored rf n) = rf_id rf" "rf_attrib (pull_ignored rf n) = rf_attrib rf"
  by (auto simp: pull_ignored_def recvframe_pull_def)

lemma pull_ignored_append:
  "length a = n \<Longrightarrow> rf_data rf = a @ b \<Longrightarrow> rf_data (pull_ignored rf n) = b"
  by (simp add: pull_ignored_def recvframe_pull_def)


definition two_packets :: "(byte list \<times> byte list) list" where
  "two_packets = [(replicate 12 1, rtw_rfc1042_header @ [8, 0, 5]), (replicate 12 2, [9, 9])]"


lemma skb_get_only: "skb_get ad = (ok, ad1) \<Longrightarrow> \<exists>n. ad1 = ad\<lparr>skb_cnt := n\<rparr>"
  by (auto simp: skb_get_def)

lemma amsdu_loop_only_allocates: "\<exists>n. fst (amsdu_loop ad k pdata) = ad\<lparr>skb_cnt := n\<rparr>"
proof (induction "length pdata" arbitrary: ad k pdata rule: less_induct)
  case less
  have triv: "\<exists>n. ad = ad\<lparr>skb_cnt := n\<rparr>" by (rule exI [of _ "skb_cnt ad"]) simp
  show ?case
  proof (cases "length pdata \<le> ETH_HLEN \<or> length pdata < ETH_HLEN + be16 (drop 12 pdata)")
    case True
    then show ?thesis
      using triv by (subst amsdu_loop.simps) (auto simp: Let_def)
  next
    case False
    define n where "n = be16 (drop 12 pdata)"
    define rest where "rest = drop n (drop ETH_HLEN pdata)"
    define rest' where "rest' = (if rest \<noteq> [] then drop (amsdu_padding n) rest else rest)"
    obtain ok ad1 where g1: "skb_get ad = (ok, ad1)" by fastforce
    obtain ok' ad2 where g2: "(if ok then (True, ad1) else skb_get ad1) = (ok', ad2)" by fastforce
    have sh: "length rest' < length pdata" using False by (auto simp: rest'_def rest_def ETH_HLEN_def)
    obtain i where "ad1 = ad\<lparr>skb_cnt := i\<rparr>" using skb_get_only [OF g1] by blast
    then obtain j where ad2: "ad2 = ad\<lparr>skb_cnt := j\<rparr>"
      using g2 skb_get_only [of ad1 ok' ad2] by (cases ok) auto
    obtain l where "fst (amsdu_loop ad2 (k + 1) rest') = ad2\<lparr>skb_cnt := l\<rparr>"
      using less.hyps [OF sh] by blast
    then have rec: "\<exists>n. fst (amsdu_loop ad2 (k + 1) rest') = ad\<lparr>skb_cnt := n\<rparr>" using ad2 by auto
    have "fst (amsdu_loop ad k pdata) = ad2 \<or>
          fst (amsdu_loop ad k pdata) = fst (amsdu_loop ad2 (k + 1) rest')"
      using False g2
      by (subst (1 2) amsdu_loop.simps, unfold Let_def g1 n_def [symmetric] prod.case,
          unfold rest_def [symmetric], unfold rest'_def [symmetric]) (simp split: prod.split)
    then show ?thesis using rec ad2 by auto
  qed
qed

lemma amsdu_loop_frame:
  assumes "amsdu_loop ad k pdata = (ad1, bad, subs)"
  shows "netif_out ad1 = netif_out ad \<and> free_recv_queue ad1 = free_recv_queue ad \<and>
         free_recvframe_cnt ad1 = free_recvframe_cnt ad"
proof -
  obtain n where "ad1 = ad\<lparr>skb_cnt := n\<rparr>" using amsdu_loop_only_allocates [where ad = ad and k = k and pdata = pdata] assms by auto
  then show ?thesis by simp
qed



end
