(* ===== verification/Reorder.thy ===== *)
theory Reorder
  imports RecvFrame
begin

text \<open>
  Reordering of the frames of a block-acknowledgement session (\<open>core/rtw_recv.c\<close>): the window
  check, the insertion into the pending queue, the indication in order, the timer, and the
  entry \<open>process_recv_indicatepkts\<close>.  A queue is the list of its frames; \<open>None\<close> comes from the
  operations of \<open>RecvFrame\<close>.  The debug counters are left out.
\<close>

section \<open>The code\<close>

definition SN_LESS :: "u16 \<Rightarrow> u16 \<Rightarrow> bool" where
  "SN_LESS a b \<longleftrightarrow> (a - b) AND 0x800 \<noteq> 0"

definition SN_EQUAL :: "u16 \<Rightarrow> u16 \<Rightarrow> bool" where
  "SN_EQUAL a b \<longleftrightarrow> a = b"

abbreviation seq_of :: "recv_frame \<Rightarrow> u16" where
  "seq_of rf \<equiv> rx_seq_num (rf_attrib rf)"

definition check_indicate_seq :: "recv_reorder_ctrl \<Rightarrow> u16 \<Rightarrow> bool \<times> recv_reorder_ctrl" where
  "check_indicate_seq c0 seq_num =
     (let wsize = ucast (ro_wsize_b c0) :: u16;
          wend = (ro_indicate_seq c0 + wsize - 1) AND 0xFFF;
          c = (if ro_indicate_seq c0 = 0xFFFF then c0\<lparr>ro_indicate_seq := seq_num\<rparr> else c0)
      in if SN_LESS seq_num (ro_indicate_seq c) then (False, c)
         else if SN_EQUAL seq_num (ro_indicate_seq c)
         then (True, c\<lparr>ro_indicate_seq := (ro_indicate_seq c + 1) AND 0xFFF\<rparr>)
         else if SN_LESS wend seq_num
         then (True, c\<lparr>ro_indicate_seq :=
                 (if uint seq_num \<ge> uint wsize - 1 then seq_num + 1 - wsize
                  else 0xFFF - (wsize - (seq_num + 1)) + 1)\<rparr>)
         else (True, c))"

text \<open>\<open>None\<close> is the duplicate that is not inserted.\<close>

fun reorder_insert :: "recv_frame \<Rightarrow> recv_frame list \<Rightarrow> recv_frame list option" where
  "reorder_insert rf [] = Some [rf]"
| "reorder_insert rf (g # gs) =
     (if SN_LESS (seq_of g) (seq_of rf) then map_option ((#) g) (reorder_insert rf gs)
      else if SN_EQUAL (seq_of g) (seq_of rf) then None
      else Some (rf # g # gs))"

definition enqueue_reorder_recvframe ::
  "recv_reorder_ctrl \<Rightarrow> recv_frame \<Rightarrow> bool \<times> recv_reorder_ctrl" where
  "enqueue_reorder_recvframe c rf =
     (case reorder_insert rf (ro_pending c) of None \<Rightarrow> (False, c)
      | Some q \<Rightarrow> (True, c\<lparr>ro_pending := q\<rparr>))"

abbreviation running :: "adapter \<Rightarrow> bool" where
  "running ad \<equiv> \<not> bDriverStopped ad \<and> \<not> bSurpriseRemoved ad"

text \<open>What the loop of \<open>recv_indicatepkts_in_order\<close> does with a frame it takes off the queue.\<close>

definition indicate_one :: "adapter \<Rightarrow> recv_frame \<Rightarrow> adapter option" where
  "indicate_one ad rf =
     (if rx_amsdu (rf_attrib rf) = 0 then
        if running ad then rtw_recv_indicatepkt ad rf else Some ad
      else if rx_amsdu (rf_attrib rf) = 1 then
        let (ret, ad1) = amsdu_to_msdu ad rf
        in Some (if ret \<noteq> SUCCESS then rtw_free_recvframe ad1 rf else ad1)
      else Some ad)"

fun indicate_loop ::
  "adapter \<Rightarrow> u16 \<Rightarrow> recv_frame list \<Rightarrow> (adapter \<times> u16 \<times> recv_frame list) option" where
  "indicate_loop ad indicate_seq [] = Some (ad, indicate_seq, [])"
| "indicate_loop ad indicate_seq (f # fs) =
     (if \<not> SN_LESS indicate_seq (seq_of f) then do {
        ad1 \<leftarrow> indicate_one ad f;
        indicate_loop ad1
          (if SN_EQUAL indicate_seq (seq_of f) then (indicate_seq + 1) AND 0xFFF else indicate_seq) fs
      }
      else Some (ad, indicate_seq, f # fs))"

text \<open>The result says whether frames are left (\<open>bPktInBuf\<close>), or that there were none to force.\<close>

definition recv_indicatepkts_in_order ::
  "adapter \<Rightarrow> recv_reorder_ctrl \<Rightarrow> bool \<Rightarrow> (bool \<times> adapter \<times> recv_reorder_ctrl) option" where
  "recv_indicatepkts_in_order ad c bforced =
     (if bforced \<and> ro_pending c = [] then Some (True, ad, c)
      else do {
        (ad1, seq, q) \<leftarrow> indicate_loop ad
           (if bforced then seq_of (hd (ro_pending c)) else ro_indicate_seq c) (ro_pending c);
        Some (q \<noteq> [], ad1, c\<lparr>ro_indicate_seq := seq, ro_pending := q\<rparr>)
      })"

definition get_ctrl :: "adapter \<Rightarrow> nat \<times> nat \<Rightarrow> recv_reorder_ctrl" where
  "get_ctrl ad i = si_reorder (sta_buf (stapriv ad) (fst i)) (snd i)"

definition set_ctrl :: "adapter \<Rightarrow> nat \<times> nat \<Rightarrow> recv_reorder_ctrl \<Rightarrow> adapter" where
  "set_ctrl ad i c =
     (let s = stapriv ad; si = sta_buf s (fst i) in
      ad\<lparr>stapriv := s\<lparr>sta_buf := (sta_buf s)(fst i :=
           si\<lparr>si_reorder := (si_reorder si)(snd i := c)\<rparr>)\<rparr>\<rparr>)"

text \<open>The part of \<open>recv_indicatepkt_reorder\<close> under the queue's lock.\<close>

definition reorder_locked :: "adapter \<Rightarrow> recv_frame \<Rightarrow> (nat \<times> adapter) option" where
  "reorder_locked ad rf =
     (let i = rf_ctrl rf;
          (ok, c1) = check_indicate_seq (get_ctrl ad i) (seq_of rf) in
      if \<not> ok then Some (FAIL, set_ctrl ad i c1)
      else
        let (ins, c2) = enqueue_reorder_recvframe c1 rf in
        if \<not> ins then Some (FAIL, set_ctrl ad i c2)
        else do {
          (inbuf, ad1, c3) \<leftarrow> recv_indicatepkts_in_order ad c2 False;
          Some (SUCCESS, set_ctrl ad1 i (c3\<lparr>ro_timer := inbuf\<rparr>))
        })"

definition recv_indicatepkt_reorder :: "adapter \<Rightarrow> recv_frame \<Rightarrow> (nat \<times> adapter) option" where
  "recv_indicatepkt_reorder ad rf =
     (let a = rf_attrib rf; i = rf_ctrl rf; c = get_ctrl ad i in
      if rx_amsdu a = 0 then do {
        (ret, rf1) \<leftarrow> wlanhdr_to_ethhdr ad rf;
        if rx_qos a \<noteq> 1 then
          if running ad then do {
            ad1 \<leftarrow> rtw_recv_indicatepkt ad rf1;
            Some (SUCCESS, ad1)
          }
          else Some (FAIL, ad)
        else if \<not> ro_enable c then do {
          ad1 \<leftarrow> rtw_recv_indicatepkt (set_ctrl ad i (c\<lparr>ro_indicate_seq := rx_seq_num a\<rparr>)) rf1;
          let c1 = get_ctrl ad1 i;
          Some (SUCCESS, set_ctrl ad1 i
            (c1\<lparr>ro_indicate_seq := word_of_int ((uint (ro_indicate_seq c1) + 1) mod 4096)\<rparr>))
        }
        else reorder_locked ad rf1
      }
      else if rx_amsdu a = 1 \<and> \<not> ro_enable c then
        let (retval, ad1) = amsdu_to_msdu (set_ctrl ad i (c\<lparr>ro_indicate_seq := rx_seq_num a\<rparr>)) rf;
            c1 = get_ctrl ad1 i
        in Some (retval, set_ctrl ad1 i
             (c1\<lparr>ro_indicate_seq := word_of_int ((uint (ro_indicate_seq c1) + 1) mod 4096)\<rparr>))
      else reorder_locked ad rf)"

text \<open>The timer has fired, so it is not armed when the handler runs.\<close>

definition rtw_reordering_ctrl_timeout_handler :: "adapter \<Rightarrow> nat \<times> nat \<Rightarrow> adapter option" where
  "rtw_reordering_ctrl_timeout_handler ad i =
     (let c = (get_ctrl ad i)\<lparr>ro_timer := False\<rparr> in
      if \<not> running ad then Some (set_ctrl ad i c)
      else do {
        (inbuf, ad1, c1) \<leftarrow> recv_indicatepkts_in_order ad c True;
        Some (set_ctrl ad1 i (c1\<lparr>ro_timer := inbuf\<rparr>))
      })"

definition process_recv_indicatepkts :: "adapter \<Rightarrow> recv_frame \<Rightarrow> (nat \<times> adapter) option" where
  "process_recv_indicatepkts ad rf =
     (if ht_option ad then do {
        (r, ad1) \<leftarrow> recv_indicatepkt_reorder ad rf;
        Some (if r \<noteq> SUCCESS \<and> running ad1 then FAIL else SUCCESS, ad1)
      }
      else do {
        (retval, rf1) \<leftarrow> wlanhdr_to_ethhdr ad rf;
        if retval \<noteq> SUCCESS then Some (retval, ad)
        else if running ad then do {
          ad1 \<leftarrow> rtw_recv_indicatepkt ad rf1;
          Some (retval, ad1)
        }
        else Some (FAIL, ad)
      })"

section \<open>Sequence numbers as integers\<close>

text \<open>
  An extended sequence number is an integer whose remainder modulo 4096 is the one in the
  frame.  As long as two extended numbers are less than 2048 apart, \<open>SN_LESS\<close> compares them.
\<close>

definition ext :: "recv_frame \<Rightarrow> int \<Rightarrow> bool" where
  "ext f e \<longleftrightarrow> uint (seq_of f) = e mod 4096"

lemma bit_11: "(w :: u16) AND 0x800 \<noteq> 0 \<longleftrightarrow> 2048 \<le> uint w mod 4096"
proof -
  have e: "(0x800 :: u16) = 2 ^ 11" by simp
  have "w AND 0x800 \<noteq> 0 \<longleftrightarrow> bit w 11" unfolding e by (metis and_exp_eq_0_iff_not_bit)
  also have "\<dots> \<longleftrightarrow> bit (uint w) 11" by (simp add: bit_uint_iff)
  also have "\<dots> \<longleftrightarrow> odd (uint w div 2048)" by (simp add: bit_iff_odd)
  also have "\<dots> \<longleftrightarrow> 2048 \<le> uint w mod 4096"
  proof -
    have "uint w mod 4096 = 2048 * (uint w div 2048 mod 2) + uint w mod 2048"
      using zmod_zmult2_eq [of 2 "uint w" 2048] by simp
    moreover have "0 \<le> uint w mod 2048" "uint w mod 2048 < 2048" by simp_all
    ultimately show ?thesis by (cases "even (uint w div 2048)") (auto simp: even_iff_mod_2_eq_zero odd_iff_mod_2_eq_one)
  qed
  finally show ?thesis .
qed

lemma small_mod:
  "- 2048 \<le> d \<Longrightarrow> d < 2048 \<Longrightarrow> d mod 4096 = (if d < 0 then d + 4096 else d)" for d :: int
proof -
  assume d: "- 2048 \<le> d" "d < 2048"
  show ?thesis
  proof (cases "d < 0")
    case True
    then have "(d + 4096) mod 4096 = d + 4096" using d by (intro mod_pos_pos_trivial) simp_all
    then show ?thesis using True by simp
  next
    case False
    then show ?thesis using d by simp
  qed
qed

lemma SN_LESS_mod: "SN_LESS a b \<longleftrightarrow> 2048 \<le> (uint a - uint b) mod 4096"
proof -
  have "uint (a - b) mod 4096 = (uint a - uint b) mod 4096"
    by (simp add: uint_word_ariths mod_mod_cancel)
  then show ?thesis unfolding SN_LESS_def bit_11 by simp
qed

lemma SN_LESS_ext:
  assumes "uint a = x mod 4096" and "uint b = y mod 4096" and "- 2048 \<le> x - y" and "x - y < 2048"
  shows "SN_LESS a b \<longleftrightarrow> x < y"
proof -
  have "(uint a - uint b) mod 4096 = (x - y) mod 4096"
    unfolding assms(1,2) by (rule mod_diff_eq)
  then show ?thesis using small_mod [OF assms(3,4)] assms(3,4) by (simp add: SN_LESS_mod)
qed

lemma SN_EQUAL_ext:
  assumes "uint a = x mod 4096" and "uint b = y mod 4096" and "- 2048 \<le> x - y" and "x - y < 2048"
  shows "SN_EQUAL a b \<longleftrightarrow> x = y"
proof -
  have "x mod 4096 = y mod 4096 \<longleftrightarrow> (x - y) mod 4096 = 0" by (simp add: mod_eq_dvd_iff mod_eq_0_iff_dvd)
  then show ?thesis
    using assms small_mod [OF assms(3,4)]
    by (simp add: SN_EQUAL_def word_uint_eq_iff split: if_splits)
qed

lemma uint_and_fff: "uint ((w :: u16) AND 0xFFF) = uint w mod 4096"
proof -
  have "w AND 0xFFF = take_bit 12 w" by (simp add: take_bit_eq_mask mask_eq_exp_minus_1)
  also have "uint \<dots> = take_bit 12 (uint w)" by (rule unsigned_take_bit_eq)
  finally show ?thesis by (simp add: take_bit_eq_mod)
qed

lemma succ_and_fff:
  assumes "uint w = x mod 4096"
  shows "uint ((w + 1 :: u16) AND 0xFFF) = (x + 1) mod 4096"
proof -
  have "uint (w + 1) mod 4096 = (uint w + 1) mod 4096"
    by (simp add: uint_word_ariths mod_mod_cancel)
  then show ?thesis using assms by (simp add: uint_and_fff mod_simps)
qed

section \<open>The loop, the insertion and the window check on extended numbers\<close>

text \<open>The frames the loop takes off the queue, and their indication one after the other.\<close>

fun take_ready :: "u16 \<Rightarrow> recv_frame list \<Rightarrow> recv_frame list \<times> u16 \<times> recv_frame list" where
  "take_ready ind [] = ([], ind, [])"
| "take_ready ind (f # fs) =
     (if \<not> SN_LESS ind (seq_of f) then
        let (d, i, r) = take_ready (if SN_EQUAL ind (seq_of f) then (ind + 1) AND 0xFFF else ind) fs
        in (f # d, i, r)
      else ([], ind, f # fs))"

fun indicate_all :: "adapter \<Rightarrow> recv_frame list \<Rightarrow> adapter option" where
  "indicate_all ad [] = Some ad"
| "indicate_all ad (f # fs) = do { ad1 \<leftarrow> indicate_one ad f; indicate_all ad1 fs }"

lemma indicate_loop_split:
  "indicate_loop ad ind q =
     (let (d, i, r) = take_ready ind q in do { ad1 \<leftarrow> indicate_all ad d; Some (ad1, i, r) })"
proof (induction q arbitrary: ad ind)
  case (Cons f fs)
  then show ?case
    by (cases "indicate_one ad f") (auto simp: Let_def split: prod.splits)
qed simp

lemma indicate_all_append:
  "indicate_all ad (xs @ ys) = do { ad1 \<leftarrow> indicate_all ad xs; indicate_all ad1 ys }"
  by (induction xs arbitrary: ad) (simp_all add: bind_assoc)

lemma take_ready_append: "take_ready ind q = (d, i, r) \<Longrightarrow> d @ r = q"
  by (induction q arbitrary: ind d) (auto simp: Let_def split: if_splits prod.splits)

lemma take_ready_ext:
  assumes "list_all2 ext q es" and "sorted_wrt (<) es" and "uint ind = b mod 4096"
    and "\<forall>e \<in> set es. b - 2048 < e \<and> e < b + 2048" and "take_ready ind q = (d, i, r)"
  shows "\<exists>es1 es2 b'. es = es1 @ es2 \<and> list_all2 ext d es1 \<and> list_all2 ext r es2 \<and>
    uint i = b' mod 4096 \<and> b \<le> b' \<and> (\<forall>e \<in> set es1. e < b') \<and> (\<forall>e \<in> set es2. b' < e) \<and>
    (b' = b \<or> es1 \<noteq> [] \<and> last es1 = b' - 1)"
  using assms
proof (induction q arbitrary: es ind b d)
  case Nil
  then show ?case by auto
next
  case (Cons f fs)
  obtain e es' where es: "es = e # es'" "ext f e" "list_all2 ext fs es'"
    using Cons.prems(1) by (auto simp: list_all2_Cons1)
  have near: "- 2048 \<le> b - e" "b - e < 2048" using Cons.prems(4) es(1) by auto
  have seq: "uint (seq_of f) = e mod 4096" using es(2) by (simp add: ext_def)
  note less = SN_LESS_ext [OF Cons.prems(3) seq near] and eq = SN_EQUAL_ext [OF Cons.prems(3) seq near]
  show ?case
  proof (cases "b < e")
    case True
    then have "d = []" "i = ind" "r = f # fs" using Cons.prems(5) less by auto
    moreover have "\<forall>x \<in> set es. b < x" using True Cons.prems(2) es(1) by auto
    ultimately show ?thesis
      using Cons.prems(1,3) by (intro exI [of _ "[]"] exI [of _ es] exI [of _ b]) auto
  next
    case False
    define c where "c = (if b = e then b + 1 else b)"
    define ind1 where "ind1 = (if SN_EQUAL ind (seq_of f) then (ind + 1) AND 0xFFF else ind)"
    obtain d1 where d1: "take_ready ind1 fs = (d1, i, r)" "d = f # d1"
      using Cons.prems(5) False less by (auto simp: ind1_def [symmetric] Let_def split: prod.splits)
    have ind1: "uint ind1 = c mod 4096"
      using succ_and_fff [OF Cons.prems(3)] Cons.prems(3) eq by (simp add: ind1_def c_def)
    have rng: "\<forall>x \<in> set es'. c - 2048 < x \<and> x < c + 2048"
      using Cons.prems(2,4) es(1) False by (auto simp: c_def)
    obtain es1 es2 b' where IH: "es' = es1 @ es2" "list_all2 ext d1 es1" "list_all2 ext r es2"
      "uint i = b' mod 4096" "c \<le> b'" "\<forall>x \<in> set es1. x < b'" "\<forall>x \<in> set es2. b' < x"
      "b' = c \<or> es1 \<noteq> [] \<and> last es1 = b' - 1"
      using Cons.IH [OF es(3) _ ind1 rng d1(1)] Cons.prems(2) es(1) by auto
    have "b' = b \<or> last (e # es1) = b' - 1"
    proof (cases "es1 = []")
      case False
      then have "e < last es1" "last es1 < b'" using Cons.prems(2) es(1) IH(1,6) by auto
      then show ?thesis using IH(8) False by (auto simp: c_def split: if_splits)
    qed (use IH(8) in \<open>auto simp: c_def\<close>)
    then show ?thesis
      using IH es False d1(2)
      by (intro exI [of _ "e # es1"] exI [of _ es2] exI [of _ b']) (auto simp: c_def split: if_splits)
  qed
qed

lemma reorder_insert_ext:
  assumes "list_all2 ext q es" and "sorted_wrt (<) es" and "ext f e"
    and "\<forall>x \<in> set es. - 2048 \<le> x - e \<and> x - e < 2048"
  shows "if e \<in> set es then reorder_insert f q = None
         else \<exists>q' es'. reorder_insert f q = Some q' \<and> list_all2 ext q' es' \<and> sorted_wrt (<) es' \<and>
                set es' = insert e (set es) \<and> mset q' = add_mset f (mset q)"
  using assms
proof (induction q arbitrary: es)
  case Nil
  then show ?case by (auto intro: exI [of _ "[e]"])
next
  case (Cons g gs)
  obtain x xs where es: "es = x # xs" "ext g x" "list_all2 ext gs xs"
    using Cons.prems(1) by (auto simp: list_all2_Cons1)
  have near: "- 2048 \<le> x - e" "x - e < 2048" using Cons.prems(4) es(1) by auto
  have g: "uint (seq_of g) = x mod 4096" "uint (seq_of f) = e mod 4096"
    using es(2) Cons.prems(3) by (simp_all add: ext_def)
  note less = SN_LESS_ext [OF g near] and eq = SN_EQUAL_ext [OF g near]
  have IH: "if e \<in> set xs then reorder_insert f gs = None
      else \<exists>q' es'. reorder_insert f gs = Some q' \<and> list_all2 ext q' es' \<and> sorted_wrt (<) es' \<and>
             set es' = insert e (set xs) \<and> mset q' = add_mset f (mset gs)"
    using Cons.IH [OF es(3) _ Cons.prems(3)] Cons.prems(2,4) es(1) by simp
  consider "x < e" | "x = e" | "e < x" by linarith
  then show ?case
  proof cases
    case 1
    show ?thesis
    proof (cases "e \<in> set xs")
      case True
      then show ?thesis using IH 1 less es(1) by simp
    next
      case False
      then obtain q' es' where q': "reorder_insert f gs = Some q'" "list_all2 ext q' es'"
        "sorted_wrt (<) es'" "set es' = insert e (set xs)" "mset q' = add_mset f (mset gs)"
        using IH by auto
      then show ?thesis
        using 1 less False Cons.prems(2) es
        by (auto intro!: exI [of _ "x # es'"])
    qed
  next
    case 2
    then show ?thesis using less eq es(1) by simp
  next
    case 3
    then have "e \<notin> set es" using Cons.prems(2) es(1) by auto
    moreover have "list_all2 ext (f # g # gs) (e # es)" using Cons.prems(1,3) by simp
    moreover have "sorted_wrt (<) (e # es)" using 3 Cons.prems(2) es(1) by auto
    ultimately show ?thesis
      using 3 less eq by (auto intro!: exI [of _ "e # es"])
  qed
qed

lemma check_indicate_seq_ext:
  assumes ind: "uint (ro_indicate_seq c) = b mod 4096" and W: "uint (ro_wsize_b c) = W" "1 \<le> W"
    and seq: "uint s = e mod 4096" and e: "b \<le> e" "e < b + 4096"
  shows "check_indicate_seq c s =
           (if b + 2048 \<le> e then (False, c)
            else (True, c\<lparr>ro_indicate_seq := ro_indicate_seq (snd (check_indicate_seq c s))\<rparr>))"
    and "e < b + 2048 \<Longrightarrow> uint (ro_indicate_seq (snd (check_indicate_seq c s))) =
           (if e = b then b + 1 else if e < b + W then b else e - W + 1) mod 4096"
proof -
  define ws where "ws = (ucast (ro_wsize_b c) :: u16)"
  have ws: "uint ws = W" using W by (simp add: ws_def uint_up_ucast is_up)
  have "uint (ro_wsize_b c) < 2 ^ LENGTH(8)" by (rule unsigned_less)
  then have W255: "W < 256" using W(1) by simp
  have ne: "ro_indicate_seq c \<noteq> 0xFFFF"
  proof
    assume "ro_indicate_seq c = 0xFFFF"
    then have "b mod 4096 = 65535" using ind by simp
    moreover have "b mod 4096 < 4096" by simp
    ultimately show False by simp
  qed
  have old: "SN_LESS s (ro_indicate_seq c) \<longleftrightarrow> b + 2048 \<le> e"
  proof (cases "b + 2048 \<le> e")
    case True
    have "uint s = (e - 4096) mod 4096" using seq by simp
    from SN_LESS_ext [OF this ind] show ?thesis using True e by simp
  next
    case False
    from SN_LESS_ext [OF seq ind] show ?thesis using False e by simp
  qed
  have same: "SN_EQUAL s (ro_indicate_seq c) \<longleftrightarrow> e = b" if "e < b + 2048"
    using SN_EQUAL_ext [OF seq ind] that e by simp
  define wend where "wend = (ro_indicate_seq c + ws - 1) AND 0xFFF"
  have "uint (ro_indicate_seq c + ws - 1) mod 4096 = (uint (ro_indicate_seq c) + W - 1) mod 4096"
    using ws by (simp add: uint_word_ariths mod_mod_cancel mod_simps)
  moreover have "(b mod 4096 + W - 1) mod 4096 = (b + W - 1) mod 4096"
    using mod_add_left_eq [of b 4096 "W - 1"] by (simp add: algebra_simps)
  ultimately have wend: "uint wend = (b + W - 1) mod 4096"
    by (simp add: wend_def uint_and_fff ind)
  have out: "SN_LESS wend s \<longleftrightarrow> b + W - 1 < e" if "e < b + 2048"
    using SN_LESS_ext [OF wend seq] that e W(2) W255 by simp
  have chk: "check_indicate_seq c s =
     (if b + 2048 \<le> e then (False, c)
      else if e = b then (True, c\<lparr>ro_indicate_seq := (ro_indicate_seq c + 1) AND 0xFFF\<rparr>)
      else if b + W - 1 < e
      then (True, c\<lparr>ro_indicate_seq := (if uint s \<ge> W - 1 then s + 1 - ws
               else 0xFFF - (ws - (s + 1)) + 1)\<rparr>)
      else (True, c))"
    using ne old same out
    by (simp add: check_indicate_seq_def ws_def [symmetric] wend_def [symmetric] ws Let_def)
  show "check_indicate_seq c s =
           (if b + 2048 \<le> e then (False, c)
            else (True, c\<lparr>ro_indicate_seq := ro_indicate_seq (snd (check_indicate_seq c s))\<rparr>))"
    by (simp add: chk)
  have sh: "uint (if uint s \<ge> W - 1 then s + 1 - ws else 0xFFF - (ws - (s + 1)) + 1) =
            (e - W + 1) mod 4096"
  proof -
    have m: "(e - W + 1) mod 4096 = (uint s - W + 1) mod 4096" 
      using seq mod_add_left_eq [of e 4096 "1 - W"] by (simp add: algebra_simps)
    have s: "0 \<le> uint s" "uint s < 4096" using seq by simp_all
    have a: "uint (s + 1 - ws) = (uint s + 1 - W) mod 65536"
      using ws by (simp add: uint_word_ariths mod_simps)
    have "0xFFF - (ws - (s + 1)) + 1 = (word_of_int (4096 - uint ws + uint s + 1) :: u16)"
      by (simp add: algebra_simps)
    then have b: "uint (0xFFF - (ws - (s + 1)) + 1) = (4096 - W + uint s + 1) mod 65536"
      by (simp only: ws uint_word_of_int) simp
    show ?thesis
    proof (cases "uint s \<ge> W - 1")
      case True
      then have "(uint s + 1 - W) mod 65536 = uint s + 1 - W" "(uint s - W + 1) mod 4096 = uint s - W + 1"
        using s W(2) by (auto intro!: mod_pos_pos_trivial)
      then show ?thesis using True a m by simp
    next
      case False
      have "(uint s - W + 1) mod 4096 = (uint s - W + 1 + 4096) mod 4096"
        by (rule mod_add_self2 [symmetric])
      also have "\<dots> = uint s - W + 1 + 4096" using False s W255 by (intro mod_pos_pos_trivial) linarith+
      finally show ?thesis using False b m s W255 by simp
    qed
  qed
  show "uint (ro_indicate_seq (snd (check_indicate_seq c s))) =
           (if e = b then b + 1 else if e < b + W then b else e - W + 1) mod 4096"
    if "e < b + 2048"
    using that succ_and_fff [OF ind] ind sh by (simp add: chk)
qed

section \<open>The window\<close>

text \<open>
  The state of a session seen from outside: the window starts at the extended number \<open>b\<close>, the
  pending frames have the numbers \<open>es\<close>, the frames indicated so far the numbers \<open>xs\<close>.
\<close>

definition gaps :: "int list \<Rightarrow> bool" where
  "gaps xs \<longleftrightarrow> successively (\<lambda>x y. x < y \<and> y \<le> x + 2048) xs"

definition win :: "recv_reorder_ctrl \<Rightarrow> int \<Rightarrow> int list \<Rightarrow> int list \<Rightarrow> bool" where
  "win c b es xs \<longleftrightarrow>
     ro_enable c \<and> 1 \<le> uint (ro_wsize_b c) \<and> uint (ro_indicate_seq c) = b mod 4096 \<and>
     list_all2 ext (ro_pending c) es \<and> sorted_wrt (<) es \<and>
     (\<forall>e \<in> set es. b < e \<and> e < b + uint (ro_wsize_b c)) \<and>
     gaps xs \<and> (\<forall>x \<in> set xs. x < b) \<and>
     (xs \<noteq> [] \<longrightarrow> (if es = [] then last xs = b - 1 else hd es \<le> last xs + 2048)) \<and>
     (es \<noteq> [] \<longrightarrow> ro_timer c)"

text \<open>A new session, or one that is under way.\<close>

definition reorder_inv :: "recv_reorder_ctrl \<Rightarrow> int list \<Rightarrow> bool" where
  "reorder_inv c xs \<longleftrightarrow>
     ro_enable c \<and> 1 \<le> uint (ro_wsize_b c) \<and> ro_indicate_seq c = 0xFFFF \<and> ro_pending c = [] \<and> xs = [] \<or>
     (\<exists>b es. win c b es xs)"

text \<open>One pass of the loop over a sorted queue whose first part becomes due.\<close>

definition drain :: "recv_reorder_ctrl \<Rightarrow> u16 \<Rightarrow> recv_frame list \<times> recv_reorder_ctrl" where
  "drain c ind =
     (let (d, i, r) = take_ready ind (ro_pending c)
      in (d, c\<lparr>ro_indicate_seq := i, ro_pending := r, ro_timer := (r \<noteq> [])\<rparr>))"

lemma gaps_append:
  "gaps (xs @ ys) \<longleftrightarrow> gaps xs \<and> gaps ys \<and>
     (xs = [] \<or> ys = [] \<or> last xs < hd ys \<and> hd ys \<le> last xs + 2048)"
  by (auto simp: gaps_def successively_append_iff)

lemma gaps_sorted:
  "sorted_wrt (<) es \<Longrightarrow> \<forall>e \<in> set es. b \<le> e \<and> e < b + 2048 \<Longrightarrow> gaps es"
proof (induction es)
  case (Cons e es)
  then show ?case by (cases es) (auto simp: gaps_def)
qed (simp add: gaps_def)

lemma drain_win:
  assumes c: "ro_enable c" "1 \<le> uint (ro_wsize_b c)" and q: "list_all2 ext (ro_pending c) es"
    and es: "sorted_wrt (<) es" "es \<noteq> []" "\<forall>e \<in> set es. b \<le> e \<and> e < b + 2048 \<and> e < b0 + uint (ro_wsize_b c)"
    and b0: "uint ind = b0 mod 4096" "b \<le> b0" "b0 - 1 \<le> last es" "b0 \<le> b + 2047"
    and xs: "gaps xs" "\<forall>x \<in> set xs. x < b" "xs \<noteq> [] \<longrightarrow> hd es \<le> last xs + 2048"
    and d: "drain c ind = (d, c')"
  shows "\<exists>b' es1 es2. es = es1 @ es2 \<and> list_all2 ext d es1 \<and> win c' b' es2 (xs @ es1) \<and>
           d @ ro_pending c' = ro_pending c \<and> (\<forall>e \<in> set es2. b0 < e)"
proof -
  obtain i r where tr: "take_ready ind (ro_pending c) = (d, i, r)"
    and c': "c' = c\<lparr>ro_indicate_seq := i, ro_pending := r, ro_timer := (r \<noteq> [])\<rparr>"
    using d by (auto simp: drain_def Let_def split: prod.splits)
  have "\<forall>e \<in> set es. b0 - 2048 < e \<and> e < b0 + 2048"
    using es(3) b0(2,4) by auto
  from take_ready_ext [OF q es(1) b0(1) this tr] obtain es1 es2 b' where
    l: "es = es1 @ es2" "list_all2 ext d es1" "list_all2 ext r es2" "uint i = b' mod 4096" "b0 \<le> b'"
      "\<forall>e \<in> set es1. e < b'" "\<forall>e \<in> set es2. b' < e" "b' = b0 \<or> es1 \<noteq> [] \<and> last es1 = b' - 1"
    by blast
  have g1: "gaps es1" and s2: "sorted_wrt (<) es2"
    using gaps_sorted [of es1 b] es(1,3) l(1) by (auto simp: sorted_wrt_append)
  have join: "xs = [] \<or> es1 = [] \<or> last xs < hd es1 \<and> hd es1 \<le> last xs + 2048"
  proof (cases "xs = [] \<or> es1 = []")
    case False
    then have "hd es1 = hd es" "b \<le> hd es" "last xs < b" using l(1) es xs(2) by auto
    then show ?thesis using xs(3) False by auto
  qed auto
  have tail: "if es2 = [] then last (xs @ es1) = b' - 1 else hd es2 \<le> last (xs @ es1) + 2048"
    if ne: "xs @ es1 \<noteq> []"
  proof (cases "es2 = []")
    case True
    then have "es1 = es" "last es1 < b'" using l(1,6) es(2) by auto
    then show ?thesis using True l(8) b0(3) es(2) by auto
  next
    case False
    then have h: "hd es2 \<in> set es" using l(1) by auto
    show ?thesis
    proof (cases "es1 = []")
      case True
      then show ?thesis using False l(1) xs(3) ne by simp
    next
      case False
      then have "last es1 \<in> set es" using l(1) by auto
      then have "b \<le> last es1" "hd es2 < b + 2048" using h es(3) by auto
      then show ?thesis using False \<open>es2 \<noteq> []\<close> by simp
    qed
  qed
  have below: "\<forall>x \<in> set xs \<union> set es1. x < b'" using xs(2) l(5,6) b0(2) by auto
  have inside: "\<forall>e \<in> set es2. e < b' + uint (ro_wsize_b c)" 
  proof
    fix e assume "e \<in> set es2"
    then have "e < b0 + uint (ro_wsize_b c)" using es(3) l(1) by auto
    then show "e < b' + uint (ro_wsize_b c)" using l(5) by simp
  qed
  have "win c' b' es2 (xs @ es1)"
    unfolding win_def c'
    using c l(3-5,7) s2 g1 xs(1) join tail below inside by (auto simp: gaps_append)
  moreover have "d @ ro_pending c' = ro_pending c"
    using take_ready_append [OF tr] by (simp add: c')
  moreover have "\<forall>e \<in> set es2. b0 < e" using l(5,7) by auto
  ultimately show ?thesis using l(1,2) by blast
qed

text \<open>What a frame or the timer does to the control, and the frames they make due.\<close>

definition frame_step :: "recv_reorder_ctrl \<Rightarrow> recv_frame \<Rightarrow> nat \<times> recv_frame list \<times> recv_reorder_ctrl" where
  "frame_step c f =
     (let (ok, c1) = check_indicate_seq c (seq_of f) in
      if \<not> ok then (FAIL, [], c1)
      else let (ins, c2) = enqueue_reorder_recvframe c1 f in
        if \<not> ins then (FAIL, [], c2)
        else (SUCCESS, drain c2 (ro_indicate_seq c2)))"

definition timer_step :: "recv_reorder_ctrl \<Rightarrow> recv_frame list \<times> recv_reorder_ctrl" where
  "timer_step c =
     (if ro_pending c = [] then ([], c\<lparr>ro_timer := True\<rparr>)
      else drain c (seq_of (hd (ro_pending c))))"

lemma frame_step_win:
  assumes w: "win c b es xs" and f: "uint (seq_of f) = e mod 4096" "b \<le> e" "e < b + 4096"
    and st: "frame_step c f = (r, d, c')"
  shows "(r = FAIL \<and> d = [] \<and> c' = c) \<or>
    (r = SUCCESS \<and> (\<exists>b' es' ds. win c' b' es' (xs @ ds) \<and> list_all2 ext d ds) \<and>
     mset d + mset (ro_pending c') = add_mset f (mset (ro_pending c)))"
proof -
  let ?W = "uint (ro_wsize_b c)"
  note w' = w [unfolded win_def]
  have ind: "uint (ro_indicate_seq c) = b mod 4096" and W: "1 \<le> ?W" using w' by auto
  have "?W < 2 ^ LENGTH(8)" by (rule unsigned_less)
  then have W255: "?W < 256" by simp
  note chk = check_indicate_seq_ext [OF ind refl W f]
  show ?thesis
  proof (cases "b + 2048 \<le> e")
    case True
    then show ?thesis using st chk(1) by (auto simp: frame_step_def)
  next
    case False
    define v where "v = ro_indicate_seq (snd (check_indicate_seq c (seq_of f)))"
    define b0 where "b0 = (if e = b then b + 1 else if e < b + ?W then b else e - ?W + 1)"
    have c1: "check_indicate_seq c (seq_of f) = (True, c\<lparr>ro_indicate_seq := v\<rparr>)"
      and v: "uint v = b0 mod 4096"
      using chk False by (simp_all add: v_def b0_def)
    have b0: "b \<le> b0" "b0 \<le> b + 2047" "b0 - 1 \<le> e" "e < b0 + ?W" "?W \<le> b0 + ?W - b"
      using False f(2) W W255 by (auto simp: b0_def)
    have near: "\<forall>x \<in> set es. - 2048 \<le> x - e \<and> x - e < 2048"
      using w' f(2) False W255 by auto
    have fe: "ext f e" using f(1) by (simp add: ext_def)
    have q: "list_all2 ext (ro_pending c) es" "sorted_wrt (<) es" using w' by auto
    note ins = reorder_insert_ext [OF q fe near]
    show ?thesis
    proof (cases "e \<in> set es")
      case True
      then have "reorder_insert f (ro_pending c) = None" using ins by simp
      moreover have "b0 = b" using True w' by (auto simp: b0_def)
      then have "v = ro_indicate_seq c" using v ind by (simp add: word_uint_eq_iff)
      ultimately show ?thesis
        using st c1 by (auto simp: frame_step_def enqueue_reorder_recvframe_def)
    next
      case new: False
      then obtain q' es' where q': "reorder_insert f (ro_pending c) = Some q'"
        "list_all2 ext q' es'" "sorted_wrt (<) es'" "set es' = insert e (set es)"
        "mset q' = add_mset f (mset (ro_pending c))"
        using ins by auto
      define c2 where "c2 = c\<lparr>ro_indicate_seq := v, ro_pending := q'\<rparr>"
      have dr: "drain c2 v = (d, c')" and r: "r = SUCCESS"
        using st c1 q'(1) by (auto simp: frame_step_def enqueue_reorder_recvframe_def c2_def)
      have ne: "es' \<noteq> []" using q'(4) by auto
      have last: "b0 - 1 \<le> last es'"
      proof -
        have "x \<le> last es'" if "x \<in> set es'" for x
          using q'(3) that by (induction es') (auto simp: less_imp_le)
        then show ?thesis using q'(4) b0(3) by fastforce
      qed
      have hd: "xs \<noteq> [] \<longrightarrow> hd es' \<le> last xs + 2048"
      proof
        assume x: "xs \<noteq> []"
        have min: "hd es' \<le> x" if "x \<in> set es'" for x
          using q'(3) that by (cases es') auto
        show "hd es' \<le> last xs + 2048"
        proof (cases "es = []")
          case True
          then show ?thesis using q'(4) ne w' x f(2) False by (cases es') auto
        next
          case False
          then show ?thesis using min [of "hd es"] q'(4) w' x by auto
        qed
      qed
      have "\<forall>x \<in> set es'. b \<le> x \<and> x < b + 2048 \<and> x < b0 + uint (ro_wsize_b c2)"
        using q'(4) w' f(2) False b0 W255 by (auto simp: c2_def)
      then obtain b' es1 es2 where "es' = es1 @ es2" "list_all2 ext d es1" "win c' b' es2 (xs @ es1)"
        "d @ ro_pending c' = ro_pending c2"
        using drain_win [where c = c2 and es = es' and b = b and ?b0.0 = b0 and xs = xs, OF _ _ _ q'(3) ne _ v b0(1) last b0(2)
          _ _ hd dr] w' q'(2) by (auto simp: c2_def)
      moreover from this(4) have "mset d + mset (ro_pending c') = add_mset f (mset (ro_pending c))"
        using q'(5) by (metis c2_def mset_append recv_reorder_ctrl.select_convs(5)
            recv_reorder_ctrl.update_convs(5) recv_reorder_ctrl.surjective)
      ultimately show ?thesis using r by blast
    qed
  qed
qed

lemma timer_step_win:
  assumes w: "win c b es xs" and st: "timer_step c = (d, c')"
  shows "\<exists>b' es' ds. win c' b' es' (xs @ ds) \<and> list_all2 ext d ds \<and> d @ ro_pending c' = ro_pending c \<and>
           (ro_pending c \<noteq> [] \<longrightarrow> d \<noteq> [])"
proof (cases "ro_pending c = []")
  case True
  then have "win c' b es (xs @ [])" "d = []" "ro_pending c' = []"
    using w st True by (auto simp: win_def timer_step_def)
  then show ?thesis
    using True by (intro exI [of _ b] exI [of _ es] exI [of _ "[]"]) simp
next
  case False
  note w' = w [unfolded win_def]
  obtain f fs e es1 where q: "ro_pending c = f # fs" "es = e # es1" "ext f e"
    using w' False by (cases "ro_pending c"; cases es) auto
  have dr: "drain c (seq_of f) = (d, c')" using st q(1) by (simp add: timer_step_def)
  have "uint (ro_wsize_b c) < 2 ^ LENGTH(8)" by (rule unsigned_less)
  then have W: "uint (ro_wsize_b c) < 256" by simp
  have "e \<le> last es" 
    using w' q(2) last_in_set [of es1] by (cases "es1 = []") (auto intro: less_imp_le)
  moreover have rng: "\<forall>x \<in> set es. b \<le> x \<and> x < b + 2048 \<and> x < e + uint (ro_wsize_b c)"
    using w' W q(2) by fastforce
  moreover have "e \<le> b + 2047" using rng q(2) by auto
  ultimately obtain b' ds es2 where *: "es = ds @ es2" "list_all2 ext d ds" "win c' b' es2 (xs @ ds)"
    "d @ ro_pending c' = ro_pending c" "\<forall>x \<in> set es2. e < x"
    using drain_win [where c = c and es = es and b = b and ?b0.0 = e and xs = xs and ind = "seq_of f",
        OF _ _ _ _ _ _ _ _ _ _ _ _ _ dr] w' q
    by (auto simp: ext_def)
  have "ds \<noteq> []" using *(1,5) q(2) by (cases ds) auto
  then have "d \<noteq> []" using *(2) by auto
  then show ?thesis using * by blast
qed

text \<open>A frame of a new session starts the window.\<close>

lemma frame_step_fresh:
  assumes "ro_indicate_seq c = 0xFFFF" and "uint (seq_of f) < 4096"
  shows "frame_step c f = frame_step (c\<lparr>ro_indicate_seq := seq_of f\<rparr>) f"
proof -
  have "seq_of f \<noteq> 0xFFFF" using assms(2) by auto
  moreover have "\<not> SN_LESS (seq_of f) (seq_of f)" by (simp add: SN_LESS_def)
  ultimately have "check_indicate_seq c (seq_of f) =
      check_indicate_seq (c\<lparr>ro_indicate_seq := seq_of f\<rparr>) (seq_of f)"
    using assms(1) by (simp add: check_indicate_seq_def SN_EQUAL_def Let_def)
  then show ?thesis by (simp add: frame_step_def)
qed

lemma frame_step_inv:
  assumes inv: "reorder_inv c xs" and f: "uint (seq_of f) < 4096" and st: "frame_step c f = (r, d, c')"
  shows "(r = FAIL \<and> d = [] \<and> reorder_inv c' xs \<and> ro_pending c' = ro_pending c) \<or>
    (r = SUCCESS \<and> (\<exists>ds. reorder_inv c' (xs @ ds) \<and> list_all2 ext d ds) \<and>
     mset d + mset (ro_pending c') = add_mset f (mset (ro_pending c)))"
proof -
  have main: ?thesis if w: "win c0 b es xs" and st0: "frame_step c0 f = (r, d, c')"
    and p: "ro_pending c0 = ro_pending c" for c0 b es
  proof -
    define e where "e = b + (uint (seq_of f) - b) mod 4096"
    have "e mod 4096 = uint (seq_of f)" using f by (simp add: e_def mod_simps)
    moreover have "b \<le> e" "e < b + 4096" by (simp_all add: e_def)
    ultimately show ?thesis
      using frame_step_win [OF w _ _ _ st0, of e] w p by (auto simp: reorder_inv_def)
  qed
  from inv have "ro_enable c \<and> 1 \<le> uint (ro_wsize_b c) \<and> ro_indicate_seq c = 0xFFFF \<and>
      ro_pending c = [] \<and> xs = [] \<or> (\<exists>b es. win c b es xs)"
    by (simp add: reorder_inv_def)
  then show ?thesis
  proof
    assume fr: "ro_enable c \<and> 1 \<le> uint (ro_wsize_b c) \<and> ro_indicate_seq c = 0xFFFF \<and>
      ro_pending c = [] \<and> xs = []"
    have "win (c\<lparr>ro_indicate_seq := seq_of f\<rparr>) (uint (seq_of f)) [] []"
      using fr f by (simp add: win_def gaps_def)
    then show ?thesis
      using main [of "c\<lparr>ro_indicate_seq := seq_of f\<rparr>" "uint (seq_of f)" "[]"]
        frame_step_fresh [OF _ f] fr st by (simp add: reorder_inv_def)
  next
    assume "\<exists>b es. win c b es xs"
    then show ?thesis using main [OF _ st refl] by blast
  qed
qed

lemma timer_step_inv:
  assumes "reorder_inv c xs" and "timer_step c = (d, c')"
  shows "\<exists>ds. reorder_inv c' (xs @ ds) \<and> list_all2 ext d ds \<and> d @ ro_pending c' = ro_pending c \<and>
           (ro_pending c \<noteq> [] \<longrightarrow> d \<noteq> [])"
proof (cases "\<exists>b es. win c b es xs")
  case True
  then obtain b es where "win c b es xs" by blast
  from timer_step_win [OF this assms(2)] obtain b' es' ds where "win c' b' es' (xs @ ds)"
    "list_all2 ext d ds" "d @ ro_pending c' = ro_pending c" "ro_pending c \<noteq> [] \<longrightarrow> d \<noteq> []"
    by blast
  then show ?thesis unfolding reorder_inv_def by blast
next
  case False
  then have "ro_enable c \<and> 1 \<le> uint (ro_wsize_b c) \<and> ro_indicate_seq c = 0xFFFF \<and>
      ro_pending c = [] \<and> xs = []"
    using assms(1) by (auto simp: reorder_inv_def)
  then show ?thesis using assms(2) by (auto simp: timer_step_def reorder_inv_def)
qed

lemma drain_wsize: "drain c i = (d, c') \<Longrightarrow> ro_wsize_b c' = ro_wsize_b c"
  by (auto simp: drain_def Let_def split: prod.splits)

lemma frame_step_wsize: "frame_step c f = (r, d, c') \<Longrightarrow> ro_wsize_b c' = ro_wsize_b c"
  by (auto simp: frame_step_def check_indicate_seq_def enqueue_reorder_recvframe_def Let_def
      dest!: drain_wsize split: if_splits option.splits prod.splits)

lemma timer_step_wsize: "timer_step c = (d, c') \<Longrightarrow> ro_wsize_b c' = ro_wsize_b c"
  by (auto simp: timer_step_def dest!: drain_wsize split: if_splits)

section \<open>The handlers run the window\<close>

lemma get_set_ctrl [simp]: "get_ctrl (set_ctrl ad i c) i = c"
  by (simp add: get_ctrl_def set_ctrl_def Let_def)

lemma set_set_ctrl [simp]: "set_ctrl (set_ctrl ad i c) i d = set_ctrl ad i d"
  by (simp add: set_ctrl_def Let_def)

lemma set_get_ctrl [simp]: "set_ctrl ad i (get_ctrl ad i) = ad"
  by (simp add: get_ctrl_def set_ctrl_def Let_def)

lemma running_set_ctrl [simp]:
  "bDriverStopped (set_ctrl ad i c) = bDriverStopped ad"
  "bSurpriseRemoved (set_ctrl ad i c) = bSurpriseRemoved ad"
  by (simp_all add: set_ctrl_def Let_def)

lemma in_order_drain:
  "recv_indicatepkts_in_order ad c False =
     (let (d, c') = drain c (ro_indicate_seq c) in do {
        ad1 \<leftarrow> indicate_all ad d;
        Some (ro_timer c', ad1, c'\<lparr>ro_timer := ro_timer c\<rparr>) })"
  by (simp add: recv_indicatepkts_in_order_def indicate_loop_split drain_def Let_def split: prod.splits)

lemma reorder_locked_step:
  "reorder_locked ad rf =
     (let (r, d, c') = frame_step (get_ctrl ad (rf_ctrl rf)) rf in do {
        ad1 \<leftarrow> indicate_all ad d; Some (r, set_ctrl ad1 (rf_ctrl rf) c') })"
  by (auto simp: reorder_locked_def frame_step_def in_order_drain Let_def drain_def split: prod.splits)

lemma timeout_step:
  assumes "running ad"
  shows "rtw_reordering_ctrl_timeout_handler ad i =
     (let (d, c') = timer_step (get_ctrl ad i) in do {
        ad1 \<leftarrow> indicate_all ad d; Some (set_ctrl ad1 i c') })"
  using assms
  by (auto simp: rtw_reordering_ctrl_timeout_handler_def timer_step_def recv_indicatepkts_in_order_def
      indicate_loop_split drain_def Let_def split: prod.splits)

section \<open>Indication does not look at the windows\<close>

text \<open>
  Indicating a frame looks stations up by their address and leaves the station table alone,
  so it commutes with storing a reordering control.
\<close>

definition same_lookup :: "sta_priv \<Rightarrow> sta_priv \<Rightarrow> bool" where
  "same_lookup s t \<longleftrightarrow> (\<forall>a. rtw_get_stainfo s a = rtw_get_stainfo t a)"

lemma amsdu_loop_stapriv:
  "amsdu_loop (ad\<lparr>stapriv := s\<rparr>) k p =
     (let (ad1, bad, subs) = amsdu_loop ad k p in (ad1\<lparr>stapriv := s\<rparr>, bad, subs))"
proof (induction "length p" arbitrary: ad k p rule: less_induct)
  case less
  have g: "skb_get (ad\<lparr>stapriv := s\<rparr>) = (let (ok, a) = skb_get ad in (ok, a\<lparr>stapriv := s\<rparr>))" for ad
    by (simp add: skb_get_def)
  show ?case
  proof (cases "length p \<le> ETH_HLEN \<or> length p < ETH_HLEN + be16 (drop 12 p)")
    case True
    then show ?thesis by (subst (1 2) amsdu_loop.simps) (auto simp: Let_def)
  next
    case False
    define n where "n = be16 (drop 12 p)"
    define rest where "rest = drop n (drop ETH_HLEN p)"
    define rest' where "rest' = (if rest \<noteq> [] then drop (amsdu_padding n) rest else rest)"
    obtain ok ad1 where g1: "skb_get ad = (ok, ad1)" by fastforce
    obtain ok' ad2 where g2: "(if ok then (True, ad1) else skb_get ad1) = (ok', ad2)" by fastforce
    have g1': "skb_get (ad\<lparr>stapriv := s\<rparr>) = (ok, ad1\<lparr>stapriv := s\<rparr>)" using g [of ad] g1 by simp
    have g2': "(if ok then (True, ad1\<lparr>stapriv := s\<rparr>) else skb_get (ad1\<lparr>stapriv := s\<rparr>)) =
        (ok', ad2\<lparr>stapriv := s\<rparr>)"
      using g [of ad1] g2 by (cases ok) auto
    have sh: "length rest' < length p" using False by (auto simp: rest'_def rest_def ETH_HLEN_def)
    obtain ad3 bad subs where lp: "amsdu_loop ad2 (Suc k) rest' = (ad3, bad, subs)"
      using prod_cases3 by blast
    then have IH: "amsdu_loop (ad2\<lparr>stapriv := s\<rparr>) (Suc k) rest' = (ad3\<lparr>stapriv := s\<rparr>, bad, subs)"
      using less.hyps [OF sh, of ad2 "Suc k"] by simp
    show ?thesis
      using False
      by (subst (1 2) amsdu_loop.simps, unfold Let_def g1 g1' n_def [symmetric] prod.case g2 g2',
          unfold rest_def [symmetric], unfold rest'_def [symmetric])
        (simp add: IH lp)
  qed
qed

lemma amsdu_to_msdu_stapriv:
  "amsdu_to_msdu (ad\<lparr>stapriv := s\<rparr>) f =
     (let (r, ad1) = amsdu_to_msdu ad f in (r, ad1\<lparr>stapriv := s\<rparr>))"
  by (auto simp: amsdu_to_msdu_def amsdu_loop_stapriv foldl_netif rtw_free_recvframe_def Let_def
      split: prod.split)

lemma amsdu_to_msdu_env:
  assumes "amsdu_to_msdu ad f = (r, ad1)"
  shows "r = SUCCESS" "stapriv ad1 = stapriv ad" "bDriverStopped ad1 = bDriverStopped ad"
    "bSurpriseRemoved ad1 = bSurpriseRemoved ad" "ht_option ad1 = ht_option ad" "fw_state ad1 = fw_state ad"
proof -
  define X where "X = rf_data (if 0 < rx_iv_len (rf_attrib f)
      then pull_ignored (pull_ignored f (rx_hdrlen (rf_attrib f))) (rx_iv_len (rf_attrib f))
      else pull_ignored f (rx_hdrlen (rf_attrib f)))"
  obtain a bad subs where lp: "amsdu_loop ad 0 X = (a, bad, subs)" using prod_cases3 by blast
  obtain n where a: "a = ad\<lparr>skb_cnt := n\<rparr>" using amsdu_loop_only_allocates [of ad 0 X] lp by auto
  have "r = SUCCESS \<and> stapriv ad1 = stapriv ad \<and> bDriverStopped ad1 = bDriverStopped ad \<and>
      bSurpriseRemoved ad1 = bSurpriseRemoved ad \<and> ht_option ad1 = ht_option ad \<and>
    fw_state ad1 = fw_state ad"
    using assms a
    by (cases bad)
      (auto simp: amsdu_to_msdu_def X_def [symmetric] lp foldl_netif rtw_free_recvframe_def Let_def)
  then show "r = SUCCESS" "stapriv ad1 = stapriv ad" "bDriverStopped ad1 = bDriverStopped ad"
    "bSurpriseRemoved ad1 = bSurpriseRemoved ad" "ht_option ad1 = ht_option ad" "fw_state ad1 = fw_state ad" by simp_all
qed

lemma indicate_one_stapriv:
  assumes "same_lookup s (stapriv ad)"
  shows "indicate_one (ad\<lparr>stapriv := s\<rparr>) f =
    map_option (\<lambda>a. a\<lparr>stapriv := s\<rparr>) (indicate_one ad f)"
  using assms
  by (auto simp: indicate_one_def rtw_recv_indicatepkt_def amsdu_to_msdu_stapriv same_lookup_def
      check_fwstate_def skb_get_def rtw_get_bcmc_stainfo_def rtw_free_recvframe_def rtw_netif_rx_def
      rtw_xmit_entry_def Let_def split: option.splits prod.splits)

lemma indicate_one_env:
  assumes "indicate_one ad f = Some ad1"
  shows "stapriv ad1 = stapriv ad \<and> bDriverStopped ad1 = bDriverStopped ad \<and>
    bSurpriseRemoved ad1 = bSurpriseRemoved ad \<and> ht_option ad1 = ht_option ad \<and>
    fw_state ad1 = fw_state ad"
proof -
  obtain r a where am: "amsdu_to_msdu ad f = (r, a)" by fastforce
  show ?thesis
    using assms amsdu_to_msdu_env [OF am] am
    by (auto simp: indicate_one_def rtw_recv_indicatepkt_def skb_get_def rtw_free_recvframe_def
        rtw_netif_rx_def rtw_xmit_entry_def Let_def split: option.splits if_splits)
qed

lemma indicate_all_env:
  assumes "indicate_all ad d = Some ad1"
  shows "stapriv ad1 = stapriv ad \<and> bDriverStopped ad1 = bDriverStopped ad \<and>
    bSurpriseRemoved ad1 = bSurpriseRemoved ad \<and> ht_option ad1 = ht_option ad \<and>
    fw_state ad1 = fw_state ad"
  using assms
proof (induction d arbitrary: ad)
  case (Cons f d)
  then obtain a where "indicate_one ad f = Some a" "indicate_all a d = Some ad1"
    by (auto simp: bind_eq_Some_conv)
  then show ?case using Cons.IH [of a] indicate_one_env [of ad f a] by simp
qed simp

lemma same_lookup_ctrl: "same_lookup (stapriv (set_ctrl ad i c)) (stapriv ad)"
proof -
  have "si_hwaddr (sta_buf (stapriv (set_ctrl ad i c)) p) = si_hwaddr (sta_buf (stapriv ad) p)" for p
    by (simp add: set_ctrl_def Let_def)
  moreover have "sta_hash (stapriv (set_ctrl ad i c)) = sta_hash (stapriv ad)"
    by (simp add: set_ctrl_def Let_def)
  ultimately show ?thesis by (simp add: same_lookup_def rtw_get_stainfo_def)
qed

lemma indicate_all_ctrl:
  "indicate_all (set_ctrl ad i c) d = map_option (\<lambda>a. set_ctrl a i c) (indicate_all ad d)"
proof -
  define s where "s = stapriv (set_ctrl ad i c)"
  have "indicate_all (a\<lparr>stapriv := s\<rparr>) d = map_option (\<lambda>a. a\<lparr>stapriv := s\<rparr>) (indicate_all a d)"
    if "stapriv a = stapriv ad" for a
    using that
  proof (induction d arbitrary: a)
    case (Cons f d)
    have "same_lookup s (stapriv a)" using same_lookup_ctrl [of ad i c] Cons.prems by (simp add: s_def)
    note one = indicate_one_stapriv [OF this, of f]
    show ?case
    proof (cases "indicate_one a f")
      case None
      then show ?thesis using one by simp
    next
      case (Some a1)
      then have "stapriv a1 = stapriv ad" using indicate_one_env [OF Some] Cons.prems by simp
      then show ?thesis using one Some Cons.IH by simp
    qed
  qed simp
  from this [OF refl] have all: "indicate_all (ad\<lparr>stapriv := s\<rparr>) d =
      map_option (\<lambda>a. a\<lparr>stapriv := s\<rparr>) (indicate_all ad d)" .
  have set: "a\<lparr>stapriv := s\<rparr> = set_ctrl a i c" if "stapriv a = stapriv ad" for a
    using that by (simp add: s_def set_ctrl_def Let_def)
  show ?thesis
  proof (cases "indicate_all ad d")
    case None
    then show ?thesis using all set [OF refl] by simp
  next
    case (Some a)
    then show ?thesis using all set [OF refl] set [of a] indicate_all_env [OF Some] by simp
  qed
qed

section \<open>Runs of a session\<close>

definition same_frame :: "recv_frame \<Rightarrow> recv_frame \<Rightarrow> bool" where
  "same_frame f g \<longleftrightarrow> rf_id f = rf_id g \<and> rf_attrib f = rf_attrib g \<and> rf_ctrl f = rf_ctrl g"

lemma same_frame_ops:
  "recvframe_pull f n = Some (ok, g) \<Longrightarrow> same_frame g f"
  "same_frame (recvframe_pull_tail f m) f"
  "write_rx f i bs = Some g \<Longrightarrow> same_frame g f"
  by (auto simp: same_frame_def recvframe_pull_def recvframe_pull_tail_def write_rx_def Let_def
      split: if_splits)

lemma same_frame_trans: "same_frame f g \<Longrightarrow> same_frame g h \<Longrightarrow> same_frame f h"
  by (simp add: same_frame_def)

lemma wlanhdr_same_frame:
  assumes "wlanhdr_to_ethhdr ad rf = Some (r, rf')"
  shows "same_frame rf' rf"
proof -
  have refl: "same_frame rf rf" by (simp add: same_frame_def)
  have tail: "same_frame (if b then recvframe_pull_tail f n else f) f" for b f n
    using same_frame_ops(2) by (simp add: same_frame_def)
  show ?thesis
    using assms refl
    by (auto simp: wlanhdr_to_ethhdr_def Let_def bind_eq_Some_conv split: if_splits
        dest!: same_frame_ops(1,3)) (simp_all add: same_frame_def recvframe_pull_tail_def split: if_splits)
qed

datatype reorder_event = RxFrame recv_frame | RxTimeout

fun reorder_run :: "adapter \<Rightarrow> nat \<times> nat \<Rightarrow> reorder_event list \<Rightarrow> adapter option" where
  "reorder_run ad i [] = Some ad"
| "reorder_run ad i (RxFrame f # evs) = do {
     (r, ad1) \<leftarrow> recv_indicatepkt_reorder ad f;
     reorder_run ad1 i evs }"
| "reorder_run ad i (RxTimeout # evs) = do {
     ad1 \<leftarrow> rtw_reordering_ctrl_timeout_handler ad i;
     reorder_run ad1 i evs }"

text \<open>The frames of a session: QoS data of one traffic identifier, A-MSDU or not.\<close>

definition session_event :: "nat \<times> nat \<Rightarrow> reorder_event \<Rightarrow> bool" where
  "session_event i ev \<longleftrightarrow> (case ev of RxTimeout \<Rightarrow> True
     | RxFrame f \<Rightarrow> rf_ctrl f = i \<and> rx_qos (rf_attrib f) = 1 \<and> uint (seq_of f) < 4096)"

fun event_frames :: "reorder_event list \<Rightarrow> recv_frame list" where
  "event_frames [] = []"
| "event_frames (RxFrame f # evs) = f # event_frames evs"
| "event_frames (RxTimeout # evs) = event_frames evs"

lemma reorder_frame_step:
  assumes "recv_indicatepkt_reorder ad f = Some (r, ad')" and "session_event i (RxFrame f)"
    and "ro_enable (get_ctrl ad i)"
  shows "\<exists>f1 d c' ad1. same_frame f1 f \<and> frame_step (get_ctrl ad i) f1 = (r, d, c') \<and>
           indicate_all ad d = Some ad1 \<and> ad' = set_ctrl ad1 i c'"
proof -
  have i: "rf_ctrl f = i" "rx_qos (rf_attrib f) = 1" using assms(2) by (auto simp: session_event_def)
  obtain f1 where f1: "same_frame f1 f" "reorder_locked ad f1 = Some (r, ad')"
  proof (cases "rx_amsdu (rf_attrib f) = 0")
    case True
    then obtain ret f1 where w: "wlanhdr_to_ethhdr ad f = Some (ret, f1)" "reorder_locked ad f1 = Some (r, ad')"
      using assms(1,3) i by (auto simp: recv_indicatepkt_reorder_def Let_def bind_eq_Some_conv)
    then show ?thesis using that wlanhdr_same_frame by blast
  next
    case False
    then have "reorder_locked ad f = Some (r, ad')"
      using assms(1,3) i by (auto simp: recv_indicatepkt_reorder_def Let_def)
    then show ?thesis using that by (simp add: same_frame_def)
  qed
  then show ?thesis
    using i by (auto simp: reorder_locked_step same_frame_def Let_def bind_eq_Some_conv split: prod.splits)
qed

text \<open>The frames of a list of events, where each of the given ones is used at most once.\<close>

definition ids :: "recv_frame list \<Rightarrow> nat multiset" where
  "ids fs = mset (map rf_id fs)"

lemma ids_simps [simp]: "ids [] = {#}" "ids (f # fs) = add_mset (rf_id f) (ids fs)" "ids (fs @ gs) = ids fs + ids gs"
  by (simp_all add: ids_def)

lemma ids_mset: "mset fs = mset gs \<Longrightarrow> ids fs = ids gs"
  by (metis ids_def mset_map)

lemma reorder_fresh:
  "ro_enable c \<Longrightarrow> ro_wsize_b c \<noteq> 0 \<Longrightarrow> ro_indicate_seq c = 0xFFFF \<Longrightarrow> ro_pending c = [] \<Longrightarrow>
   reorder_inv c []"
  by (simp add: reorder_inv_def) (metis int_one_le_iff_zero_less uint_0_iff uint_ge_0 order_le_less)

lemma mset_chain:
  fixes A :: "'a multiset"
  assumes "A + P' \<subseteq># P + E" and "D + Q \<subseteq># P' + F"
  shows "A + D + Q \<subseteq># P + (E + F)"
proof -
  have "A + (D + Q) \<subseteq># A + (P' + F)" using assms(2) by simp
  also have "A + (P' + F) = (A + P') + F" by (simp add: add.assoc)
  also have "(A + P') + F \<subseteq># (P + E) + F" using assms(1) by simp
  finally show ?thesis by (simp add: add.assoc)
qed

lemma reorder_run_inv:
  assumes "reorder_run ad i evs = Some ad'" and "\<forall>ev \<in> set evs. session_event i ev"
    and "reorder_inv (get_ctrl ad i) xs" and "running ad"
  shows "\<exists>dl ds c' ad1. indicate_all ad dl = Some ad1 \<and> ad' = set_ctrl ad1 i c' \<and> list_all2 ext dl ds \<and>
           reorder_inv c' (xs @ ds) \<and> ro_wsize_b c' = ro_wsize_b (get_ctrl ad i) \<and>
           ids dl + ids (ro_pending c') \<subseteq># ids (ro_pending (get_ctrl ad i)) + ids (event_frames evs)"
  using assms
proof (induction evs arbitrary: ad xs)
  case Nil
  then show ?case
    by (intro exI [of _ "[]"] exI [of _ "get_ctrl ad i"] exI [of _ ad]) simp
next
  case (Cons ev evs)
  have one: "\<exists>d ds c1 ad1 ad2. indicate_all ad d = Some ad1 \<and> ad2 = set_ctrl ad1 i c1 \<and>
      list_all2 ext d ds \<and> reorder_inv c1 (xs @ ds) \<and>
      ro_wsize_b c1 = ro_wsize_b (get_ctrl ad i) \<and> reorder_run ad2 i evs = Some ad' \<and>
      ids d + ids (ro_pending c1) \<subseteq># ids (ro_pending (get_ctrl ad i)) + ids (event_frames [ev])"
  proof (cases ev)
    case (RxFrame f)
    obtain r ad2 where r: "recv_indicatepkt_reorder ad f = Some (r, ad2)" "reorder_run ad2 i evs = Some ad'"
      using Cons.prems(1) RxFrame by (auto simp: bind_eq_Some_conv)
    have ev: "session_event i (RxFrame f)" using Cons.prems(2) RxFrame by simp
    have en: "ro_enable (get_ctrl ad i)"
      using Cons.prems(3) by (auto simp: reorder_inv_def win_def)
    obtain f1 d c1 ad1 where st: "same_frame f1 f" "frame_step (get_ctrl ad i) f1 = (r, d, c1)"
      "indicate_all ad d = Some ad1" "ad2 = set_ctrl ad1 i c1"
      using reorder_frame_step [OF r(1) ev en] by blast
    have "uint (seq_of f1) < 4096" using st(1) ev by (simp add: same_frame_def session_event_def)
    from frame_step_inv [OF Cons.prems(3) this st(2)] show ?thesis
    proof
      assume "r = FAIL \<and> d = [] \<and> reorder_inv c1 xs \<and> ro_pending c1 = ro_pending (get_ctrl ad i)"
      then show ?thesis using st r(2) frame_step_wsize [OF st(2)]
        by (intro exI [of _ d] exI [of _ "[]"] exI [of _ c1] exI [of _ ad1] exI [of _ ad2]) simp
    next
      assume a: "r = SUCCESS \<and> (\<exists>ds. reorder_inv c1 (xs @ ds) \<and> list_all2 ext d ds) \<and>
        mset d + mset (ro_pending c1) = add_mset f1 (mset (ro_pending (get_ctrl ad i)))"
      then have "ids (d @ ro_pending c1) = ids (f1 # ro_pending (get_ctrl ad i))"
        by (intro ids_mset) simp
      moreover obtain ds where "reorder_inv c1 (xs @ ds)" "list_all2 ext d ds" using a by blast
      ultimately show ?thesis using st r(2) RxFrame frame_step_wsize [OF st(2)]
        by (intro exI [of _ d] exI [of _ ds] exI [of _ c1] exI [of _ ad1] exI [of _ ad2])
          (simp add: same_frame_def)
    qed
  next
    case RxTimeout
    then obtain ad2 where r: "rtw_reordering_ctrl_timeout_handler ad i = Some ad2" "reorder_run ad2 i evs = Some ad'"
      using Cons.prems(1) by (auto simp: bind_eq_Some_conv)
    then obtain d c1 ad1 where st: "timer_step (get_ctrl ad i) = (d, c1)" "indicate_all ad d = Some ad1"
      "ad2 = set_ctrl ad1 i c1"
      using timeout_step [of ad i] Cons.prems(4)
      by (auto simp: Let_def bind_eq_Some_conv split: prod.splits)
    obtain ds where "reorder_inv c1 (xs @ ds)" "list_all2 ext d ds" "d @ ro_pending c1 = ro_pending (get_ctrl ad i)"
      using timer_step_inv [OF Cons.prems(3) st(1)] by blast
    moreover from this(3) have "ids d + ids (ro_pending c1) = ids (ro_pending (get_ctrl ad i))"
      by (metis ids_simps(3))
    ultimately show ?thesis using st r(2) RxTimeout timer_step_wsize [OF st(1)]
      by (intro exI [of _ d] exI [of _ ds] exI [of _ c1] exI [of _ ad1] exI [of _ ad2]) simp
  qed
  then obtain d ds c1 ad1 where st: "indicate_all ad d = Some ad1" "list_all2 ext d ds"
    "reorder_inv c1 (xs @ ds)" "reorder_run (set_ctrl ad1 i c1) i evs = Some ad'"
    "ro_wsize_b c1 = ro_wsize_b (get_ctrl ad i)"
    "ids d + ids (ro_pending c1) \<subseteq># ids (ro_pending (get_ctrl ad i)) + ids (event_frames [ev])"
    by blast
  have "running (set_ctrl ad1 i c1)" using indicate_all_env [OF st(1)] Cons.prems(4) by simp
  from Cons.IH [OF st(4) _ _ this, of "xs @ ds"] st(3) Cons.prems(2)
  obtain dl ds' c' ad2 where IH: "indicate_all (set_ctrl ad1 i c1) dl = Some ad2" "ad' = set_ctrl ad2 i c'"
    "list_all2 ext dl ds'" "reorder_inv c' ((xs @ ds) @ ds')" "ro_wsize_b c' = ro_wsize_b c1"
    "ids dl + ids (ro_pending c') \<subseteq># ids (ro_pending c1) + ids (event_frames evs)"
    by auto
  obtain ad3 where ad3: "indicate_all ad1 dl = Some ad3" "ad2 = set_ctrl ad3 i c1"
    using IH(1) by (auto simp: indicate_all_ctrl)
  have "indicate_all ad (d @ dl) = Some ad3" using st(1) ad3(1) by (simp add: indicate_all_append)
  moreover have "ids (d @ dl) + ids (ro_pending c') \<subseteq>#
      ids (ro_pending (get_ctrl ad i)) + ids (event_frames (ev # evs))"
  proof -
    have "ids (event_frames (ev # evs)) = ids (event_frames [ev]) + ids (event_frames evs)"
      by (cases ev) simp_all
    then show ?thesis using mset_chain [OF st(6) IH(6)] by simp
  qed
  moreover have "list_all2 ext (d @ dl) (ds @ ds')" using st(2) IH(3) by (rule list_all2_appendI)
  ultimately show ?case using IH(2,4,5) ad3(2) st(5) by (metis append_assoc set_set_ctrl)
qed

lemma ext_successive:
  "list_all2 ext fs xs \<Longrightarrow> gaps xs \<Longrightarrow> successively (\<lambda>f g. SN_LESS (seq_of f) (seq_of g)) fs"
proof (induction fs arbitrary: xs)
  case (Cons f fs)
  obtain x ys where xs: "xs = x # ys" "ext f x" "list_all2 ext fs ys"
    using Cons.prems(1) by (auto simp: list_all2_Cons1)
  show ?case
  proof (cases fs)
    case (Cons g gs)
    obtain y zs where ys: "ys = y # zs" "ext g y" using xs(3) Cons by (auto simp: list_all2_Cons1)
    have "x < y" "y \<le> x + 2048" "gaps ys" using Cons.prems(2) xs(1) ys(1) by (auto simp: gaps_def)
    moreover from this have "SN_LESS (seq_of f) (seq_of g)"
      using SN_LESS_ext [of "seq_of f" x "seq_of g" y] xs(2) ys(2) by (simp add: ext_def)
    ultimately show ?thesis using Cons.IH [OF xs(3)] Cons by simp
  qed simp
qed simp

lemma reorder_inv_facts:
  assumes "reorder_inv c xs"
  shows "gaps xs" "ro_pending c \<noteq> [] \<Longrightarrow> ro_timer c"
    "length (ro_pending c) < unat (ro_wsize_b c)"
proof -
  show "gaps xs" and "ro_pending c \<noteq> [] \<Longrightarrow> ro_timer c"
    using assms by (auto simp: reorder_inv_def win_def gaps_def)
  have "length es < unat (ro_wsize_b c)" if "win c b es xs" for b es
  proof -
    have "distinct es" using that by (auto simp: win_def strict_sorted_iff)
    moreover have "set es \<subseteq> {b <..< b + uint (ro_wsize_b c)}" using that by (auto simp: win_def)
    ultimately have "length es \<le> card {b <..< b + uint (ro_wsize_b c)}"
      by (metis card_mono distinct_card finite_greaterThanLessThan_int)
    then have "length es \<le> nat (b + uint (ro_wsize_b c) - (b + 1))"
      by (simp only: card_greaterThanLessThan_int)
    moreover have "1 \<le> uint (ro_wsize_b c)" using that by (simp add: win_def)
    ultimately have "length es < nat (uint (ro_wsize_b c))" by linarith
    then show ?thesis by (simp only: unat_eq_nat_uint)
  qed
  moreover have "length (ro_pending c) = length es" if "win c b es xs" for b es
    using that by (auto simp: win_def dest: list_all2_lengthD)
  moreover have "0 < unat (ro_wsize_b c)" if "1 \<le> uint (ro_wsize_b c)"
    using that by (simp only: unat_eq_nat_uint)
  ultimately show "length (ro_pending c) < unat (ro_wsize_b c)"
    using assms by (auto simp: reorder_inv_def)
qed

lemma indicate_all_total:
  "\<not> check_fwstate ad WIFI_AP_STATE \<Longrightarrow> \<exists>ad1. indicate_all ad d = Some ad1"
proof (induction d arbitrary: ad)
  case (Cons f d)
  have "\<exists>a. indicate_one ad f = Some a"
    using Cons.prems by (auto simp: indicate_one_def rtw_recv_indicatepkt_def Let_def split: prod.splits)
  then obtain a where a: "indicate_one ad f = Some a" by blast
  then have "\<not> check_fwstate a WIFI_AP_STATE"
    using Cons.prems indicate_one_env [OF a] by (simp add: check_fwstate_def)
  then show ?case using Cons.IH a by simp
qed simp

text \<open>A session of A-MSDUs that ends, for the witnesses.\<close>

lemma reorder_run_total:
  assumes "reorder_inv (get_ctrl ad i) xs" and "running ad" and "\<not> check_fwstate ad WIFI_AP_STATE"
    and "\<forall>ev \<in> set evs. session_event i ev"
    and "\<forall>f \<in> set (event_frames evs). rx_amsdu (rf_attrib f) \<noteq> 0"
  shows "\<exists>ad'. reorder_run ad i evs = Some ad'"
  using assms
proof (induction evs arbitrary: ad xs)
  case (Cons ev evs)
  have next_step: "\<exists>ad'. reorder_run (set_ctrl ad1 i c') i evs = Some ad'"
    if "indicate_all ad d = Some ad1" "reorder_inv c' ys" for d ad1 c' ys
    using Cons.IH [of "set_ctrl ad1 i c'" ys] Cons.prems indicate_all_env [OF that(1)] that(2)
    by (cases ev) (simp_all add: check_fwstate_def set_ctrl_def Let_def get_ctrl_def)
  show ?case
  proof (cases ev)
    case (RxFrame f)
    have ev: "session_event i (RxFrame f)" "rx_amsdu (rf_attrib f) \<noteq> 0" "rf_ctrl f = i"
      using Cons.prems(4,5) RxFrame by (auto simp: session_event_def)
    have en: "ro_enable (get_ctrl ad i)" using Cons.prems(1) by (auto simp: reorder_inv_def win_def)
    obtain r d c' where st: "frame_step (get_ctrl ad i) f = (r, d, c')" using prod_cases3 by blast
    obtain ad1 where ad1: "indicate_all ad d = Some ad1" using indicate_all_total Cons.prems(3) by blast
    have step: "recv_indicatepkt_reorder ad f = Some (r, set_ctrl ad1 i c')"
      using ev(2,3) en st ad1 by (simp add: recv_indicatepkt_reorder_def reorder_locked_step Let_def)
    have "uint (seq_of f) < 4096" using ev(1) by (simp add: session_event_def)
    then obtain ys where "reorder_inv c' ys" using frame_step_inv [OF Cons.prems(1) _ st] by blast
    then show ?thesis using step next_step [OF ad1] RxFrame by simp
  next
    case RxTimeout
    obtain d c' where st: "timer_step (get_ctrl ad i) = (d, c')" by fastforce
    obtain ad1 where ad1: "indicate_all ad d = Some ad1" using indicate_all_total Cons.prems(3) by blast
    obtain ys where "reorder_inv c' ys" using timer_step_inv [OF Cons.prems(1) st] by blast
    then show ?thesis
      using next_step [OF ad1] RxTimeout timeout_step [of ad i] Cons.prems(2) st ad1 by simp
  qed
qed simp

definition session_adapter :: adapter where
  "session_adapter = set_ctrl linked_adapter (0, 0) (alloc_init_reorder\<lparr>ro_enable := True\<rparr>)"

definition session_frame :: "nat \<Rightarrow> nat \<Rightarrow> recv_frame" where
  "session_frame k seq = (sample_rf NO_PRIVACY [])\<lparr>rf_id := k,
     rf_attrib := (rf_attrib (sample_rf NO_PRIVACY []))\<lparr>rx_seq_num := of_nat seq, rx_qos := 1, rx_amsdu := 1\<rparr>\<rparr>"

definition session_events :: "reorder_event list" where
  "session_events = [RxFrame (session_frame 1 5), RxFrame (session_frame 2 8), RxFrame (session_frame 3 7)]"

lemma session_facts:
  "\<forall>ev \<in> set session_events. session_event (0, 0) ev" "running session_adapter"
  "ro_enable (get_ctrl session_adapter (0, 0))" "ro_wsize_b (get_ctrl session_adapter (0, 0)) \<noteq> 0"
  "ro_indicate_seq (get_ctrl session_adapter (0, 0)) = 0xFFFF"
  "ro_pending (get_ctrl session_adapter (0, 0)) = []" "\<not> check_fwstate session_adapter WIFI_AP_STATE"
  "ro_wsize_b (get_ctrl session_adapter (0, 0)) = 64"
  by (simp_all add: session_events_def session_event_def session_frame_def sample_rf_def session_adapter_def
      linked_adapter_def zero_adapter_def alloc_init_reorder_def check_fwstate_def)
    (simp_all add: set_ctrl_def Let_def)

lemma session_runs: "\<exists>ad'. reorder_run session_adapter (0, 0) session_events = Some ad'"
  by (rule reorder_run_total [OF reorder_fresh [OF session_facts(3-6)] session_facts(2,7,1)])
    (simp add: session_events_def session_frame_def sample_rf_def)

text \<open>
  C13: frames are indicated in order and none twice.  In whatever order the frames of a session
  arrive and the timer fires, the frames indicated follow each other in sequence (each is
  newer than the one before it, modulo 4096), each comes from an event of its own, and the
  whole run amounts to indicating them one after the other.
\<close>

theorem reorder_in_order:
  assumes "reorder_run ad i evs = Some ad'" and "\<forall>ev \<in> set evs. session_event i ev" and "running ad"
    and "ro_enable (get_ctrl ad i)" and "ro_wsize_b (get_ctrl ad i) \<noteq> 0"
    and "ro_indicate_seq (get_ctrl ad i) = 0xFFFF" and "ro_pending (get_ctrl ad i) = []"
  shows "\<exists>dl ad1. indicate_all ad dl = Some ad1 \<and> ad' = set_ctrl ad1 i (get_ctrl ad' i) \<and>
    successively (\<lambda>f g. SN_LESS (seq_of f) (seq_of g)) dl \<and>
    ids dl + ids (ro_pending (get_ctrl ad' i)) \<subseteq># ids (event_frames evs)"
proof -
  have "reorder_inv (get_ctrl ad i) []" using assms(4-7) reorder_fresh by blast
  from reorder_run_inv [OF assms(1,2) this assms(3)] obtain dl ds c' ad1 where
    r: "indicate_all ad dl = Some ad1" "ad' = set_ctrl ad1 i c'" "list_all2 ext dl ds"
      "reorder_inv c' ds" "ids dl + ids (ro_pending c') \<subseteq># ids (event_frames evs)"
    using assms(7) by auto
  moreover have "successively (\<lambda>f g. SN_LESS (seq_of f) (seq_of g)) dl"
    using ext_successive [OF r(3)] reorder_inv_facts(1) [OF r(4)] by blast
  ultimately show ?thesis by auto
qed

theorem reorder_in_order_witness:
  "\<exists>ad' dl ad1. reorder_run session_adapter (0, 0) session_events = Some ad' \<and>
     indicate_all session_adapter dl = Some ad1 \<and>
     successively (\<lambda>f g. SN_LESS (seq_of f) (seq_of g)) dl"
proof -
  obtain ad' where run: "reorder_run session_adapter (0, 0) session_events = Some ad'"
    using session_runs by blast
  from reorder_in_order [OF run session_facts(1-6)] run show ?thesis by blast
qed

text \<open>
  The buffer is bounded and guarded.  At every point of a run fewer frames are pending than
  the window is wide, and while one is pending the timer is armed.
\<close>

theorem reorder_bounded_and_timed:
  assumes "reorder_run ad i evs = Some ad'" and "\<forall>ev \<in> set evs. session_event i ev" and "running ad"
    and "ro_enable (get_ctrl ad i)" and "ro_wsize_b (get_ctrl ad i) \<noteq> 0"
    and "ro_indicate_seq (get_ctrl ad i) = 0xFFFF" and "ro_pending (get_ctrl ad i) = []"
  shows "length (ro_pending (get_ctrl ad' i)) < unat (ro_wsize_b (get_ctrl ad i)) \<and>
    (ro_pending (get_ctrl ad' i) = [] \<or> ro_timer (get_ctrl ad' i))"
proof -
  have "reorder_inv (get_ctrl ad i) []" using assms(4-7) reorder_fresh by blast
  from reorder_run_inv [OF assms(1,2) this assms(3)] obtain ds c' ad1 where
    r: "ad' = set_ctrl ad1 i c'" "reorder_inv c' ds" "ro_wsize_b c' = ro_wsize_b (get_ctrl ad i)"
    by auto
  then show ?thesis using reorder_inv_facts(2,3) [OF r(2)] by auto
qed

theorem reorder_bounded_and_timed_witness:
  "\<exists>ad'. reorder_run session_adapter (0, 0) session_events = Some ad' \<and>
     length (ro_pending (get_ctrl ad' (0, 0))) < 64"
proof -
  obtain ad' where run: "reorder_run session_adapter (0, 0) session_events = Some ad'"
    using session_runs by blast
  from reorder_bounded_and_timed [OF run session_facts(1-6)] run show ?thesis
    by (simp add: session_facts(8))
qed

lemma timeouts_flush:
  assumes "reorder_inv (get_ctrl ad i) xs" and "running ad" and "\<not> check_fwstate ad WIFI_AP_STATE"
    and "length (ro_pending (get_ctrl ad i)) \<le> n"
  shows "\<exists>ad'. reorder_run ad i (replicate n RxTimeout) = Some ad' \<and> ro_pending (get_ctrl ad' i) = []"
  using assms
proof (induction n arbitrary: ad xs)
  case 0
  then show ?case by simp
next
  case (Suc n)
  obtain d c' where st: "timer_step (get_ctrl ad i) = (d, c')" by fastforce
  obtain ad1 where ad1: "indicate_all ad d = Some ad1" using indicate_all_total Suc.prems(3) by blast
  obtain ds where ds: "reorder_inv c' (xs @ ds)" "d @ ro_pending c' = ro_pending (get_ctrl ad i)"
    "ro_pending (get_ctrl ad i) \<noteq> [] \<longrightarrow> d \<noteq> []"
    using timer_step_inv [OF Suc.prems(1) st] by blast
  have "length d + length (ro_pending c') = length (ro_pending (get_ctrl ad i))"
    using ds(2) by (metis length_append)
  then have len: "length (ro_pending c') \<le> n"
    using ds(3) Suc.prems(4) by (cases d; cases "ro_pending (get_ctrl ad i)") auto
  have env: "running (set_ctrl ad1 i c')" "\<not> check_fwstate (set_ctrl ad1 i c') WIFI_AP_STATE"
    using indicate_all_env [OF ad1] Suc.prems(2,3) by (simp_all add: check_fwstate_def set_ctrl_def Let_def)
  have "rtw_reordering_ctrl_timeout_handler ad i = Some (set_ctrl ad1 i c')"
    using Suc.prems(2) st ad1 by (simp add: timeout_step)
  then show ?case using Suc.IH [of "set_ctrl ad1 i c'" "xs @ ds"] ds(1) env len by simp
qed



end
