(* ===== verification/Defrag.thy ===== *)
theory Defrag
  imports Wifi RecvFrame Samples Michael Tkip
begin

text \<open>
  Fragments (\<open>core/rtw_recv.c\<close>): the queue of a station, reassembly, the Michael check of the
  reassembled frame, and the countermeasures after Michael failures
  (\<open>os_dep/recv_linux.c\<close>).  \<open>None\<close> is an access outside a frame or a null dereference.
\<close>

section \<open>Michael failures\<close>

definition rtw_handle_tkip_mic_err :: "adapter \<Rightarrow> adapter" where
  "rtw_handle_tkip_mic_err ad =
     (let sec = securitypriv ad in
      if sec_last_mic_err_time sec = 0
      then ad\<lparr>securitypriv := sec\<lparr>sec_last_mic_err_time := jiffies ad\<rparr>\<rparr>
      else if jiffies ad - sec_last_mic_err_time sec < 60 * kernel_HZ ad
      then ad\<lparr>securitypriv := sec\<lparr>sec_btkip_countermeasure := True, sec_last_mic_err_time := 0,
             sec_btkip_countermeasure_time := unat (jiffies ad)\<rparr>\<rparr>
      else ad\<lparr>securitypriv := sec\<lparr>sec_last_mic_err_time := jiffies ad\<rparr>\<rparr>)"

text \<open>How much of the header \<open>rtw_seccalctkipmic\<close> reads.\<close>

definition mic_header_len :: "byte \<Rightarrow> nat" where
  "mic_header_len fc1 =
     (if fc1 AND 1 \<noteq> 0 \<and> fc1 AND 2 \<noteq> 0 then 30
      else if fc1 AND 1 \<noteq> 0 \<or> fc1 AND 2 \<noteq> 0 then 22 else 16)"

text \<open>\<open>None\<close> in the key: no group key is installed.\<close>

definition mic_key :: "adapter \<Rightarrow> rx_pkt_attrib \<Rightarrow> nat \<Rightarrow> byte list option" where
  "mic_key ad a p =
     (let sec = securitypriv ad in
      if IS_MCAST (rx_ra a) then
        if sec_binstallGrpkey sec then Some (sec_Grprxmickey sec (rx_key_index a)) else None
      else Some (si_tkiprxmickey (sta_buf (stapriv ad) p)))"

definition recvframe_chkmic :: "adapter \<Rightarrow> recv_frame \<Rightarrow> (nat \<times> adapter \<times> recv_frame) option" where
  "recvframe_chkmic ad rf =
     (let a = rf_attrib rf; d = rf_data rf; start = rx_hdrlen a + rx_iv_len a;
          datalen = int (length d) - int (rx_hdrlen a) - int (rx_iv_len a) - int (rx_icv_len a) - 8 in
      if rx_encrypt a \<noteq> TKIP then Some (SUCCESS, ad, rf)
      else case rtw_get_stainfo (stapriv ad) (rx_ta a) of
        None \<Rightarrow> Some (SUCCESS, ad, recvframe_pull_tail rf 8)
      | Some p \<Rightarrow>
        (case mic_key ad a p of
           None \<Rightarrow> Some (FAIL, ad, rf)
         | Some mickey \<Rightarrow>
           if datalen < 0 \<or> length d < 2 \<or> length d < mic_header_len (d ! 1) then None
           else do {
             payload \<leftarrow> rd_slice d start (nat datalen);
             miccode \<leftarrow> rtw_seccalctkipmic mickey d payload (of_nat (rx_priority a));
             pframemic \<leftarrow> rd_slice d (start + nat datalen) 8;
             let sec = securitypriv ad;
             if miccode \<noteq> pframemic then
               Some (FAIL,
                 if IS_MCAST (rx_ra a) \<and> rx_key_index a \<noteq> mlmeinfo_key_index ad then ad
                 else rtw_handle_tkip_mic_err ad,
                 recvframe_pull_tail rf 8)
             else
               Some (SUCCESS,
                 if \<not> sec_bcheck_grpkey sec \<and> IS_MCAST (rx_ra a)
                 then ad\<lparr>securitypriv := sec\<lparr>sec_bcheck_grpkey := True\<rparr>\<rparr> else ad,
                 recvframe_pull_tail rf 8)
           }))"

section \<open>Reassembly\<close>

definition get_defrag_q :: "adapter \<Rightarrow> nat \<Rightarrow> recv_frame list" where
  "get_defrag_q ad p = si_defrag_q (sta_buf (stapriv ad) p)"

definition set_defrag_q :: "adapter \<Rightarrow> nat \<Rightarrow> recv_frame list \<Rightarrow> adapter" where
  "set_defrag_q ad p q =
     (let s = stapriv ad in
      ad\<lparr>stapriv := s\<lparr>sta_buf := (sta_buf s)(p := (sta_buf s p)\<lparr>si_defrag_q := q\<rparr>)\<rparr>\<rparr>)"

text \<open>
  The loop over the second to last fragment: the result says whether their numbers were
  consecutive, and gives the frame under construction and the fragments as they are then.
\<close>

fun defrag_loop ::
  "recv_frame \<Rightarrow> nat \<Rightarrow> recv_frame list \<Rightarrow> (bool \<times> recv_frame \<times> recv_frame list) option" where
  "defrag_loop prframe curfragnum [] = Some (True, prframe, [])"
| "defrag_loop prframe curfragnum (f # fs) =
     (if curfragnum \<noteq> rx_frag_num (rf_attrib f) then Some (False, prframe, f # fs)
      else do {
        let f1 = pull_ignored f ((rx_hdrlen (rf_attrib f) + rx_iv_len (rf_attrib f)) mod 256);
        let pr1 = recvframe_pull_tail prframe (rx_icv_len (rf_attrib prframe));
        pr2 \<leftarrow> append_put pr1 (rf_data f1);
        let pr3 = pr2\<lparr>rf_attrib := (rf_attrib pr2)\<lparr>rx_icv_len := rx_icv_len (rf_attrib f1)\<rparr>\<rparr>;
        (ok, pr4, gs) \<leftarrow> defrag_loop pr3 ((curfragnum + 1) mod 256) fs;
        Some (ok, pr4, f1 # gs)
      })"

text \<open>The queue is not empty: the last fragment has just been put on it.\<close>

definition recvframe_defrag :: "adapter \<Rightarrow> nat \<Rightarrow> (recv_frame option \<times> adapter) option" where
  "recvframe_defrag ad p =
     (case get_defrag_q ad p of [] \<Rightarrow> None
      | prframe # fs \<Rightarrow>
        if rx_frag_num (rf_attrib prframe) \<noteq> 0
        then Some (None, rtw_free_recvframe_queue
                           (rtw_free_recvframe (set_defrag_q ad p []) prframe) fs)
        else do {
          (ok, pr, gs) \<leftarrow> defrag_loop prframe 1 fs;
          let ad1 = set_defrag_q ad p [];
          Some (if ok then (Some pr, rtw_free_recvframe_queue ad1 gs)
                else (None, rtw_free_recvframe_queue (rtw_free_recvframe ad1 pr) gs))
        })"

text \<open>\<open>Some None\<close>: no queue.  \<open>None\<close>: the broadcast entry is missing and its queue is used.\<close>

definition defrag_queue_of :: "adapter \<Rightarrow> recv_frame \<Rightarrow> nat option option" where
  "defrag_queue_of ad rf =
     (case rtw_get_stainfo (stapriv ad) (rx_ta (rf_attrib rf)) of
        Some p \<Rightarrow> Some (Some p)
      | None \<Rightarrow> do {
          fc0 \<leftarrow> rd (rf_data rf) 0;
          if fc0 AND 0x0c \<noteq> WIFI_DATA_TYPE
          then map_option Some (rtw_get_bcmc_stainfo (stapriv ad))
          else Some None
        })"

definition recvframe_chk_defrag :: "adapter \<Rightarrow> recv_frame \<Rightarrow> (recv_frame option \<times> adapter) option" where
  "recvframe_chk_defrag ad rf =
     (let a = rf_attrib rf; ismfrag = rx_mfrag a; fragnum = rx_frag_num a in do {
      (prtn, ad1) \<leftarrow>
        (if ismfrag = 1 then do {
           q \<leftarrow> defrag_queue_of ad rf;
           Some (case q of
               None \<Rightarrow> (None, rtw_free_recvframe ad rf)
             | Some p \<Rightarrow>
                 let ad1 = (if fragnum = 0
                            then rtw_free_recvframe_queue (set_defrag_q ad p []) (get_defrag_q ad p)
                            else ad)
                 in (None, set_defrag_q ad1 p (get_defrag_q ad1 p @ [rf])))
         }
         else if ismfrag = 0 \<and> fragnum \<noteq> 0 then do {
           q \<leftarrow> defrag_queue_of ad rf;
           (case q of
              None \<Rightarrow> Some (None, rtw_free_recvframe ad rf)
            | Some p \<Rightarrow> recvframe_defrag (set_defrag_q ad p (get_defrag_q ad p @ [rf])) p)
         }
         else Some (if ismfrag = 0 then Some rf else None, ad));
      (case prtn of
         None \<Rightarrow> Some (None, ad1)
       | Some pr \<Rightarrow>
           if rx_privacy (rf_attrib pr) then do {
             (res, ad2, pr1) \<leftarrow> recvframe_chkmic ad1 pr;
             Some (if res = FAIL then (None, rtw_free_recvframe ad2 pr1) else (Some pr1, ad2))
           }
           else Some (Some pr, ad1))
    })"

section \<open>Reassembly gives the payloads in order\<close>

text \<open>Fragment \<open>k\<close>: header and IV \<open>h\<close>, payload \<open>b\<close>, ICV \<open>c\<close> of \<open>n\<close> bytes.\<close>

definition fragment :: "nat \<Rightarrow> nat \<Rightarrow> recv_frame \<Rightarrow> byte list \<times> byte list \<times> byte list \<Rightarrow> bool" where
  "fragment n k f = (\<lambda>(h, b, c).
     rf_data f = h @ b @ c \<and> length h = rx_hdrlen (rf_attrib f) + rx_iv_len (rf_attrib f) \<and>
     length h < 256 \<and> length c = n \<and> rx_icv_len (rf_attrib f) = n \<and> rx_frag_num (rf_attrib f) = k)"

fun fragments :: "nat \<Rightarrow> nat \<Rightarrow> recv_frame list \<Rightarrow> (byte list \<times> byte list \<times> byte list) list \<Rightarrow> bool" where
  "fragments n k [] ps = (ps = [])"
| "fragments n k (f # fs) ps = (case ps of [] \<Rightarrow> False
     | p # ps' \<Rightarrow> fragment n k f p \<and> fragments n (k + 1) fs ps')"

lemma pull_tail_append: "length c = n \<Longrightarrow> rf_data rf = d @ c \<Longrightarrow>
  recvframe_pull_tail rf n = rf\<lparr>rf_data := d, rf_tailroom := rf_tailroom rf + n\<rparr>"
  by (simp add: recvframe_pull_tail_def)

lemma defrag_loop_fragments:
  assumes "fragments n k fs ps" and "k + length fs \<le> 256" and "length c0 = n"
    and "rf_data pr = d @ c0" and "rx_icv_len (rf_attrib pr) = n"
    and "length (concat (map (\<lambda>p. fst (snd p)) ps)) \<le> rf_tailroom pr"
  shows "\<exists>pr' gs. defrag_loop pr k fs = Some (True, pr', gs) \<and>
    rf_data pr' = d @ concat (map (\<lambda>p. fst (snd p)) ps) @ (if ps = [] then c0 else snd (snd (last ps))) \<and>
    rf_id pr' = rf_id pr \<and> rx_icv_len (rf_attrib pr') = n \<and> map rf_id gs = map rf_id fs"
  using assms
proof (induction fs arbitrary: k ps pr d c0)
  case Nil
  then show ?case by simp
next
  case (Cons f fs)
  obtain h b c ps' where ps: "ps = (h, b, c) # ps'" "fragment n k f (h, b, c)" "fragments n (k + 1) fs ps'"
    using Cons.prems(1) by (cases ps) auto
  note f = ps(2) [unfolded fragment_def prod.case]
  have f1: "rf_data (pull_ignored f ((rx_hdrlen (rf_attrib f) + rx_iv_len (rf_attrib f)) mod 256)) = b @ c"
    using f by (intro pull_ignored_append) simp_all
  define pr3 where "pr3 = pr\<lparr>rf_data := (d @ b) @ c, rf_tailroom := rf_tailroom pr + n - length (b @ c),
    rf_attrib := (rf_attrib pr)\<lparr>rx_icv_len := n\<rparr>\<rparr>"
  have fit: "length (b @ c) \<le> rf_tailroom pr + n" using Cons.prems(6) ps(1) f by simp
  have step: "defrag_loop pr k (f # fs) = do {
      (ok, pr4, gs) \<leftarrow> defrag_loop pr3 (k + 1) fs;
      Some (ok, pr4, pull_ignored f ((rx_hdrlen (rf_attrib f) + rx_iv_len (rf_attrib f)) mod 256) # gs) }"
  proof -
    have "(k + 1) mod 256 = k + 1 \<or> fs = []" using Cons.prems(2) by (cases fs) auto
    then show ?thesis
      using f f1 fit Cons.prems(5) pull_tail_append [OF Cons.prems(3,4)]
      by (auto simp: Let_def append_put_def pull_ignored_keeps pr3_def)
  qed
  have "length (concat (map (\<lambda>p. fst (snd p)) ps')) \<le> rf_tailroom pr3"
    using Cons.prems(6) ps(1) f by (simp add: pr3_def)
  then obtain pr' gs where IH: "defrag_loop pr3 (k + 1) fs = Some (True, pr', gs)"
    "rf_data pr' = (d @ b) @ concat (map (\<lambda>p. fst (snd p)) ps') @ (if ps' = [] then c else snd (snd (last ps')))"
    "rf_id pr' = rf_id pr3" "rx_icv_len (rf_attrib pr') = n" "map rf_id gs = map rf_id fs"
    using Cons.IH [OF ps(3), of c pr3 "d @ b"] Cons.prems(2) f by (auto simp: pr3_def)
  show ?case using step IH ps(1) by (simp add: pull_ignored_keeps pr3_def)
qed

text \<open>
  C15: reassembly gives back what was fragmented.  When the fragments 0, 1, ... of a frame are
  queued and there is room behind the first one, \<open>recvframe_defrag\<close> returns the first
  fragment's header with all payloads in order and the last ICV, and the queue is empty.
\<close>

theorem defrag_reassembles:
  assumes "get_defrag_q ad p = f # fs" and "fragments n 0 (f # fs) ((h, b, c) # ps)"
    and "length fs < 256" and "length (concat (map (\<lambda>p. fst (snd p)) ps)) \<le> rf_tailroom f"
  shows "\<exists>pr ad'. recvframe_defrag ad p = Some (Some pr, ad') \<and>
    rf_data pr = h @ b @ concat (map (\<lambda>p. fst (snd p)) ps) @ snd (snd (last ((h, b, c) # ps))) \<and>
    rf_id pr = rf_id f \<and> get_defrag_q ad' p = []"
proof -
  have f: "rf_data f = (h @ b) @ c" "length c = n" "rx_icv_len (rf_attrib f) = n" "rx_frag_num (rf_attrib f) = 0"
    and fs: "fragments n 1 fs ps" using assms(2) by (simp_all add: fragment_def)
  have free: "get_defrag_q (rtw_free_recvframe_queue a gs) p = get_defrag_q a p" for a gs
    by (induction gs arbitrary: a)
      (simp_all add: rtw_free_recvframe_queue_def rtw_free_recvframe_def get_defrag_q_def)
  obtain pr gs where "defrag_loop f 1 fs = Some (True, pr, gs)"
    "rf_data pr = (h @ b) @ concat (map (\<lambda>p. fst (snd p)) ps) @ (if ps = [] then c else snd (snd (last ps)))"
    "rf_id pr = rf_id f"
    using defrag_loop_fragments [OF fs _ f(2,1,3) assms(4)] assms(3) by auto
  then show ?thesis
    using f(4) assms(1)
    by (simp add: recvframe_defrag_def free) (simp add: get_defrag_q_def set_defrag_q_def Let_def)
qed

definition frag_frame :: "nat \<Rightarrow> byte \<Rightarrow> recv_frame" where
  "frag_frame k b = (sample_rf AES (replicate 32 0 @ [b, b] @ replicate 4 1))\<lparr>rf_id := k, rf_tailroom := 2,
     rf_attrib := (rf_attrib (sample_rf AES []))\<lparr>rx_frag_num := k\<rparr>\<rparr>"

definition frag_adapter :: adapter where
  "frag_adapter = set_defrag_q linked_adapter 0 [frag_frame 0 7, frag_frame 1 9]"

theorem defrag_reassembles_witness:
  "\<exists>pr ad'. recvframe_defrag frag_adapter 0 = Some (Some pr, ad') \<and>
     rf_data pr = replicate 32 0 @ [7, 7, 9, 9] @ replicate 4 1 \<and> get_defrag_q ad' 0 = []"
  using defrag_reassembles [of frag_adapter 0 "frag_frame 0 7" "[frag_frame 1 9]" 4 "replicate 32 0" "[7, 7]"
      "replicate 4 1" "[(replicate 32 0, [9, 9], replicate 4 1)]"]
  by (simp add: frag_adapter_def frag_frame_def sample_rf_def fragment_def get_defrag_q_def set_defrag_q_def
      Let_def) blast

text \<open>
  The copy behind the first fragment is not bounded.  When a second fragment's payload is
  longer than the room left in the first fragment's buffer, \<open>recvframe_defrag\<close> writes past
  its end: \<open>memcpy\<close> comes before the check in \<open>recvframe_put\<close>.
\<close>

theorem defrag_overflow:
  assumes "get_defrag_q ad p = f # g # fs" and "rx_frag_num (rf_attrib f) = 0" and "rx_frag_num (rf_attrib g) = 1"
    and "rx_icv_len (rf_attrib f) \<le> length (rf_data f)"
    and "rf_data g = h @ b" and "length h = rx_hdrlen (rf_attrib g) + rx_iv_len (rf_attrib g)" and "length h < 256"
    and "rf_tailroom f + rx_icv_len (rf_attrib f) < length b"
  shows "recvframe_defrag ad p = None"
proof -
  have "rf_data (pull_ignored g ((rx_hdrlen (rf_attrib g) + rx_iv_len (rf_attrib g)) mod 256)) = b"
    using assms(5-7) by (intro pull_ignored_append) simp_all
  then show ?thesis
    using assms(1-4,8) by (simp add: recvframe_defrag_def append_put_def recvframe_pull_tail_def Let_def)
qed

theorem defrag_overflow_witness:
  "recvframe_defrag (set_defrag_q linked_adapter 0 [(frag_frame 0 7)\<lparr>rf_tailroom := 1\<rparr>, frag_frame 1 9]) 0 = None"
  by (rule defrag_overflow [where f = "(frag_frame 0 7)\<lparr>rf_tailroom := 1\<rparr>" and g = "frag_frame 1 9" and
        fs = "[]" and h = "replicate 32 0" and b = "[9, 9] @ replicate 4 1"])
    (simp_all add: frag_frame_def sample_rf_def get_defrag_q_def set_defrag_q_def Let_def)

section \<open>The Michael check\<close>

lemma pseudo_header_prefix:
  assumes "mic_header_len (d ! 1) \<le> length d" and "2 \<le> length d"
  shows "tkip_pseudo_header (d @ e) pri = tkip_pseudo_header d pri"
proof -
  have 1: "(d @ e) ! 1 = d ! 1" using assms(2) by (simp add: nth_append)
  have sl: "take 6 (drop i (d @ e)) = take 6 (drop i d)" if "i + 6 \<le> length d" for i
    using that by simp
  have "d ! 1 AND 1 \<noteq> 0 \<Longrightarrow> 22 \<le> length d" "d ! 1 AND 2 \<noteq> 0 \<Longrightarrow> 22 \<le> length d" "16 \<le> length d"
    "d ! 1 AND 1 \<noteq> 0 \<Longrightarrow> d ! 1 AND 2 \<noteq> 0 \<Longrightarrow> 30 \<le> length d"
    using assms(1) by (auto simp: mic_header_len_def split: if_splits)
  then show ?thesis
    unfolding tkip_pseudo_header_def 1
    using sl [of 4] sl [of 10] sl [of 16] sl [of 24]
    by (cases "d ! 1 AND 1 = 0"; cases "d ! 1 AND 2 = 0") simp_all
qed


definition mic_hdr :: "byte list" where "mic_hdr = [0x08, 0x01] @ replicate 30 2"

definition good_mic :: "byte list" where
  "good_mic = michael_spec (replicate 16 6) (tkip_pseudo_header mic_hdr 0 @ [1, 2, 3])"

definition mic_frame :: "byte list \<Rightarrow> recv_frame" where
  "mic_frame mic = sample_rf TKIP (mic_hdr @ [1, 2, 3] @ mic @ replicate 4 0)"

text \<open>An adapter with one station, on every hash list, whose receive key is known.\<close>

definition tkip_adapter :: adapter where
  "tkip_adapter = linked_adapter\<lparr>stapriv := (stapriv linked_adapter)\<lparr>sta_hash := (\<lambda>_. [0]),
     sta_buf := (\<lambda>_. rtw_init_stainfo\<lparr>si_hwaddr := [2, 0, 0, 0, 0, 1], si_tkiprxmickey := replicate 16 6\<rparr>)\<rparr>\<rparr>"


text \<open>
  Two Michael failures within a minute start the countermeasures: the second report less
  than sixty seconds after the first sets them, and from then on
  \<open>rtw_handle_tkip_countermeasure\<close> refuses until a minute has passed.
\<close>

theorem mic_failures_start_countermeasures:
  assumes "sec_last_mic_err_time (securitypriv ad) = 0" and "jiffies ad \<noteq> 0"
    and "now - jiffies ad < 60 * kernel_HZ ad"
    and "ad2 = rtw_handle_tkip_mic_err ((rtw_handle_tkip_mic_err ad)\<lparr>jiffies := now\<rparr>)"
    and "passing_ms \<le> 60000"
  shows "sec_btkip_countermeasure (securitypriv ad2) \<and>
    rtw_handle_tkip_countermeasure (securitypriv ad2) passing_ms = (FAIL, securitypriv ad2)"
  using assms by (simp add: rtw_handle_tkip_mic_err_def rtw_handle_tkip_countermeasure_def Let_def not_less)

theorem mic_failures_start_countermeasures_witness:
  "sec_btkip_countermeasure (securitypriv
     (rtw_handle_tkip_mic_err ((rtw_handle_tkip_mic_err (linked_adapter\<lparr>jiffies := 100\<rparr>))\<lparr>jiffies := 200\<rparr>)))"
  using mic_failures_start_countermeasures [of "linked_adapter\<lparr>jiffies := 100\<rparr>" 200, OF _ _ _ refl, of 0]
  by (simp add: linked_adapter_def zero_adapter_def sample_sec_def)

section \<open>No frame is lost\<close>

definition rids :: "recv_frame list \<Rightarrow> nat multiset" where
  "rids fs = mset (map rf_id fs)"

lemma rids_simps [simp]: "rids [] = {#}" "rids (f # fs) = add_mset (rf_id f) (rids fs)"
  "rids (fs @ gs) = rids fs + rids gs"
  by (simp_all add: rids_def)

lemma free_new:
  assumes "recv_pool_ok ad" and "rf_id f \<notin># rids (free_recv_queue ad)"
  shows "recv_pool_ok (rtw_free_recvframe ad f) \<and>
    rids (free_recv_queue (rtw_free_recvframe ad f)) = add_mset (rf_id f) (rids (free_recv_queue ad))"
proof -
  have new: "rf_id f \<notin> rf_id ` set (free_recv_queue ad)" using assms(2) by (simp add: rids_def)
  then show ?thesis
    using free_recvframe_pool [OF assms(1) new]
    by (simp add: rtw_free_recvframe_def move_to_tail_new)
qed

lemma free_queue_new:
  assumes "recv_pool_ok ad" and "distinct (map rf_id fs)"
    and "\<forall>f \<in> set fs. rf_id f \<notin># rids (free_recv_queue ad)"
  shows "recv_pool_ok (rtw_free_recvframe_queue ad fs) \<and>
    rids (free_recv_queue (rtw_free_recvframe_queue ad fs)) = rids fs + rids (free_recv_queue ad)"
  using assms
proof (induction fs arbitrary: ad)
  case Nil
  then show ?case by (simp add: rtw_free_recvframe_queue_def)
next
  case (Cons f fs)
  have f: "recv_pool_ok (rtw_free_recvframe ad f)"
    "rids (free_recv_queue (rtw_free_recvframe ad f)) = add_mset (rf_id f) (rids (free_recv_queue ad))"
    using free_new [of ad f] Cons.prems(1,3) by simp_all
  then have "\<forall>g \<in> set fs. rf_id g \<notin># rids (free_recv_queue (rtw_free_recvframe ad f))"
    using Cons.prems(2,3) by (auto simp: image_iff)
  from Cons.IH [OF f(1) _ this] Cons.prems(2) f(2) show ?case
    by (simp add: rtw_free_recvframe_queue_def)
qed

lemma free_recvframe_env [simp]:
  "stapriv (rtw_free_recvframe ad f) = stapriv ad"
  "securitypriv (rtw_free_recvframe ad f) = securitypriv ad"
  by (simp_all add: rtw_free_recvframe_def)

lemma free_recvframe_queue_env [simp]:
  "stapriv (rtw_free_recvframe_queue ad fs) = stapriv ad"
  by (induction fs arbitrary: ad) (simp_all add: rtw_free_recvframe_queue_def)

lemma set_defrag_simps [simp]:
  "get_defrag_q (set_defrag_q ad p q) p = q"
  "free_recv_queue (set_defrag_q ad p q) = free_recv_queue ad"
  "free_recvframe_cnt (set_defrag_q ad p q) = free_recvframe_cnt ad"
  by (simp_all add: get_defrag_q_def set_defrag_q_def Let_def)

lemma set_defrag_pool [simp]: "recv_pool_ok (set_defrag_q ad p q) = recv_pool_ok ad"
  by (simp add: recv_pool_ok_def)

lemma get_defrag_free [simp]:
  "get_defrag_q (rtw_free_recvframe ad f) p = get_defrag_q ad p"
  "get_defrag_q (rtw_free_recvframe_queue ad fs) p = get_defrag_q ad p"
  by (simp_all add: get_defrag_q_def)

lemma defrag_loop_ids:
  "defrag_loop pr k fs = Some (ok, pr', gs) \<Longrightarrow>
   rf_id pr' = rf_id pr \<and> map rf_id gs = map rf_id fs"
proof (induction pr k fs arbitrary: gs rule: defrag_loop.induct)
  case (2 pr k f fs)
  show ?case
  proof (cases "k = rx_frag_num (rf_attrib f)")
    case True
    then show ?thesis using 2
      by (auto simp: Let_def bind_eq_Some_conv append_put_def pull_ignored_keeps recvframe_pull_tail_def
          split: if_splits)
  qed (use 2(2) in simp)
qed simp

text \<open>The frames of a station that are somewhere: free, queued as fragments, or in hand.\<close>

definition accounted :: "adapter \<Rightarrow> nat \<Rightarrow> recv_frame list \<Rightarrow> nat multiset" where
  "accounted ad p inhand = rids (free_recv_queue ad) + rids (get_defrag_q ad p) + rids inhand"

definition all_distinct :: "adapter \<Rightarrow> nat \<Rightarrow> recv_frame list \<Rightarrow> bool" where
  "all_distinct ad p inhand \<longleftrightarrow> recv_pool_ok ad \<and>
     distinct (map rf_id (free_recv_queue ad @ get_defrag_q ad p @ inhand))"

lemma recvframe_defrag_conserves:
  assumes "recvframe_defrag ad p = Some (r, ad')" and "all_distinct ad p []"
  shows "recv_pool_ok ad' \<and> accounted ad' p (case r of None \<Rightarrow> [] | Some f \<Rightarrow> [f]) = accounted ad p [] \<and>
    get_defrag_q ad' p = []"
proof -
  obtain f fs where q: "get_defrag_q ad p = f # fs"
    using assms(1) by (auto simp: recvframe_defrag_def split: list.splits)
  let ?ad = "set_defrag_q ad p []"
  have d: "recv_pool_ok ?ad" "rf_id f \<notin># rids (free_recv_queue ad)"
    "\<forall>g \<in> set fs. rf_id g \<notin># add_mset (rf_id f) (rids (free_recv_queue ad))" "distinct (map rf_id fs)"
    using assms(2) q by (auto simp: all_distinct_def rids_def image_iff)
  show ?thesis
  proof (cases "rx_frag_num (rf_attrib f) = 0")
    case False
    then have "r = None" "ad' = rtw_free_recvframe_queue (rtw_free_recvframe ?ad f) fs"
      using assms(1) q by (auto simp: recvframe_defrag_def)
    moreover have "recv_pool_ok (rtw_free_recvframe ?ad f)"
      "rids (free_recv_queue (rtw_free_recvframe ?ad f)) = add_mset (rf_id f) (rids (free_recv_queue ad))"
      using free_new [of ?ad f] d by simp_all
    ultimately show ?thesis
      using free_queue_new [of "rtw_free_recvframe ?ad f" fs] d q by (simp add: accounted_def)
  next
    case True
    then obtain ok pr gs where l: "defrag_loop f 1 fs = Some (ok, pr, gs)"
      and r: "(r, ad') = (if ok then (Some pr, rtw_free_recvframe_queue ?ad gs)
                else (None, rtw_free_recvframe_queue (rtw_free_recvframe ?ad pr) gs))"
      using assms(1) q by (auto simp: recvframe_defrag_def bind_eq_Some_conv Let_def)
    have ids: "rf_id pr = rf_id f" "map rf_id gs = map rf_id fs" using defrag_loop_ids [OF l] by auto
    have gs: "distinct (map rf_id gs)" "rids gs = rids fs" using d(4) ids(2) by (simp_all add: rids_def)
    have "\<forall>i \<in> set (map rf_id gs). i \<notin># add_mset (rf_id f) (rids (free_recv_queue ad))"
      unfolding ids(2) using d(3) by simp
    then have gs3: "\<forall>g \<in> set gs. rf_id g \<notin># add_mset (rf_id f) (rids (free_recv_queue ad))" by simp
    show ?thesis
    proof (cases ok)
      case True
      then show ?thesis
        using r free_queue_new [of ?ad gs] gs gs3 d q ids by (simp add: accounted_def)
    next
      case False
      moreover have "recv_pool_ok (rtw_free_recvframe ?ad pr)"
        "rids (free_recv_queue (rtw_free_recvframe ?ad pr)) = add_mset (rf_id f) (rids (free_recv_queue ad))"
        using free_new [of ?ad pr] d ids by simp_all
      ultimately show ?thesis
        using r free_queue_new [of "rtw_free_recvframe ?ad pr" gs] gs gs3 q by (simp add: accounted_def)
    qed
  qed
qed

lemma mic_err_env [simp]:
  "free_recv_queue (rtw_handle_tkip_mic_err ad) = free_recv_queue ad"
  "free_recvframe_cnt (rtw_handle_tkip_mic_err ad) = free_recvframe_cnt ad"
  "stapriv (rtw_handle_tkip_mic_err ad) = stapriv ad"
  by (simp_all add: rtw_handle_tkip_mic_err_def Let_def)

lemma pull_tail_id [simp]: "rf_id (recvframe_pull_tail rf n) = rf_id rf"
  by (simp add: recvframe_pull_tail_def)

lemma chkmic_frees_nothing:
  assumes "recvframe_chkmic ad rf = Some (res, ad', rf')"
  shows "free_recv_queue ad' = free_recv_queue ad \<and> free_recvframe_cnt ad' = free_recvframe_cnt ad \<and>
    stapriv ad' = stapriv ad \<and> rf_id rf' = rf_id rf"
proof (cases "rx_encrypt (rf_attrib rf) = TKIP")
  case tkip: True
  show ?thesis
  proof (cases "rtw_get_stainfo (stapriv ad) (rx_ta (rf_attrib rf))")
    case None
    then show ?thesis using assms tkip by (simp add: recvframe_chkmic_def Let_def) auto
  next
    case (Some p)
    show ?thesis
    proof (cases "mic_key ad (rf_attrib rf) p")
      case None
      then show ?thesis using assms tkip Some by (simp add: recvframe_chkmic_def Let_def)
    next
      case key: (Some k)
      then show ?thesis
        using assms tkip Some
        by (auto simp: recvframe_chkmic_def Let_def bind_eq_Some_conv split: if_splits)
    qed
  qed
next
  case False
  then show ?thesis using assms by (simp add: recvframe_chkmic_def)
qed

text \<open>
  C16: defragmentation loses no frame.  When a frame of a known station arrives, afterwards every
  frame of the pool, of the station's fragment queue and the new one itself is exactly once
  among the free frames, on the queue, or the frame that is returned; the count of free
  frames stays right.
\<close>

theorem chk_defrag_conserves:
  assumes "recvframe_chk_defrag ad rf = Some (r, ad')" and "all_distinct ad p [rf]"
    and "rtw_get_stainfo (stapriv ad) (rx_ta (rf_attrib rf)) = Some p" and "rx_mfrag (rf_attrib rf) \<le> 1"
  shows "recv_pool_ok ad' \<and> accounted ad' p (case r of None \<Rightarrow> [] | Some f \<Rightarrow> [f]) = accounted ad p [rf]"
proof -
  let ?q = "get_defrag_q ad p"
  have qof: "defrag_queue_of ad rf = Some (Some p)" using assms(3) by (simp add: defrag_queue_of_def)
  obtain prtn ad1 where first: "recv_pool_ok ad1"
      "accounted ad1 p (case prtn of None \<Rightarrow> [] | Some f \<Rightarrow> [f]) = accounted ad p [rf]"
    and pr: "\<And>pr. prtn = Some pr \<Longrightarrow> rf_id pr \<notin># rids (free_recv_queue ad1)"
    and rest: "(case prtn of None \<Rightarrow> Some (None, ad1)
       | Some pr \<Rightarrow> if rx_privacy (rf_attrib pr) then do {
             (res, ad2, pr1) \<leftarrow> recvframe_chkmic ad1 pr;
             Some (if res = FAIL then (None, rtw_free_recvframe ad2 pr1) else (Some pr1, ad2)) }
           else Some (Some pr, ad1)) = Some (r, ad')"
  proof -
    consider "rx_mfrag (rf_attrib rf) = 1" | "rx_mfrag (rf_attrib rf) = 0" "rx_frag_num (rf_attrib rf) \<noteq> 0"
      | "rx_mfrag (rf_attrib rf) = 0" "rx_frag_num (rf_attrib rf) = 0"
      using assms(4) by linarith
    then show ?thesis
    proof cases
      case 1
      define ad1 where "ad1 = (if rx_frag_num (rf_attrib rf) = 0
          then rtw_free_recvframe_queue (set_defrag_q ad p []) ?q else ad)"
      have "recv_pool_ok ad1 \<and> accounted ad1 p [rf] = accounted ad p [rf]"
      proof -
        have d: "recv_pool_ok ad" "distinct (map rf_id ?q)" "\<forall>f \<in> set ?q. rf_id f \<notin># rids (free_recv_queue ad)"
          using assms(2) by (auto simp: all_distinct_def rids_def)
        show ?thesis
          using free_queue_new [of "set_defrag_q ad p []" ?q] d
          by (simp add: ad1_def accounted_def)
      qed
      then show ?thesis
        using that [of "set_defrag_q ad1 p (get_defrag_q ad1 p @ [rf])" None] assms(1) 1 qof
        by (simp add: recvframe_chk_defrag_def Let_def ad1_def accounted_def)
    next
      case 2
      obtain prtn ad1 where d: "recvframe_defrag (set_defrag_q ad p (?q @ [rf])) p = Some (prtn, ad1)"
        using assms(1) 2 qof by (auto simp: recvframe_chk_defrag_def Let_def bind_eq_Some_conv)
      have "all_distinct (set_defrag_q ad p (?q @ [rf])) p []"
        using assms(2) by (simp add: all_distinct_def)
      from recvframe_defrag_conserves [OF d this]
      have c: "recv_pool_ok ad1" "get_defrag_q ad1 p = []"
        "accounted ad1 p (case prtn of None \<Rightarrow> [] | Some f \<Rightarrow> [f]) = accounted ad p [rf]"
        by (auto simp: accounted_def)
      have "rf_id pr \<notin># rids (free_recv_queue ad1)" if "prtn = Some pr" for pr
      proof -
        have "rids (free_recv_queue ad1) + {#rf_id pr#} = mset (map rf_id (free_recv_queue ad @ ?q @ [rf]))"
          using c(2,3) that by (simp add: accounted_def rids_def)
        moreover have "distinct (map rf_id (free_recv_queue ad @ ?q @ [rf]))"
          using assms(2) by (simp only: all_distinct_def)
        ultimately have "count (rids (free_recv_queue ad1) + {#rf_id pr#}) (rf_id pr) \<le> 1"
          by (simp only: distinct_count_atmost_1) simp
        then show ?thesis by (simp add: not_in_iff)
      qed
      then show ?thesis
        using that [of ad1 prtn] c assms(1) 2 qof d
        by (simp add: recvframe_chk_defrag_def Let_def)
    next
      case 3
      then show ?thesis
        using that [of ad "Some rf"] assms(1,2)
        by (simp add: recvframe_chk_defrag_def Let_def all_distinct_def rids_def)
    qed
  qed
  show ?thesis
  proof (cases prtn)
    case None
    then show ?thesis using first rest by simp
  next
    case (Some pr1)
    show ?thesis
    proof (cases "rx_privacy (rf_attrib pr1)")
      case True
      then obtain res ad2 pr2 where m: "recvframe_chkmic ad1 pr1 = Some (res, ad2, pr2)"
        and r: "(r, ad') = (if res = FAIL then (None, rtw_free_recvframe ad2 pr2) else (Some pr2, ad2))"
        using rest Some by (auto simp: bind_eq_Some_conv)
      have e: "free_recv_queue ad2 = free_recv_queue ad1" "recv_pool_ok ad2" "rf_id pr2 = rf_id pr1"
        "get_defrag_q ad2 p = get_defrag_q ad1 p"
        using chkmic_frees_nothing [OF m] first(1) by (simp_all add: recv_pool_ok_def get_defrag_q_def)
      show ?thesis
        using r first(2) Some e free_new [OF e(2), of pr2] pr [OF Some]
        by (auto simp: accounted_def split: if_splits)
    next
      case False
      then have "r = Some pr1" "ad' = ad1" using rest Some by simp_all
      then show ?thesis using first Some by simp
    qed
  qed
qed

definition first_fragment :: recv_frame where
  "first_fragment = (sample_rf AES [])\<lparr>rf_attrib := (rf_attrib (sample_rf AES []))\<lparr>rx_mfrag := 1\<rparr>\<rparr>"

theorem chk_defrag_conserves_witness:
  "\<exists>r ad'. recvframe_chk_defrag tkip_adapter first_fragment = Some (r, ad') \<and> recv_pool_ok ad'"
proof -
  have l: "rtw_get_stainfo (stapriv tkip_adapter) (rx_ta (rf_attrib first_fragment)) = Some 0"
    by (simp add: tkip_adapter_def first_fragment_def sample_rf_def rtw_get_stainfo_def IS_MCAST_def)
  have "rx_mfrag (rf_attrib first_fragment) = 1" by (simp add: first_fragment_def)
  then have "\<exists>x. recvframe_chk_defrag tkip_adapter first_fragment = Some x"
    by (simp add: recvframe_chk_defrag_def defrag_queue_of_def l Let_def)
  then obtain r ad' where run: "recvframe_chk_defrag tkip_adapter first_fragment = Some (r, ad')" by auto
  have "all_distinct tkip_adapter 0 [first_fragment]"
    by (simp add: all_distinct_def recv_pool_ok_def tkip_adapter_def linked_adapter_def zero_adapter_def
        get_defrag_q_def rtw_init_stainfo_def)
  from chk_defrag_conserves [OF run this l] run show ?thesis
    by (auto simp: first_fragment_def)
qed

end
