(* ===== verification/XmitQueue.thy ===== *)
theory XmitQueue
  imports StaMgt
begin

text \<open>
  The transmit queues of \<open>core/rtw_xmit.c\<close>: the pools of transmit frames, the service queue a
  station has for each access category, the lists of the stations with pending frames
  (\<open>hw_xmit.sta_queue\<close>), the classifier that puts a frame on its queue and the scheduler that
  takes the next frame for the hardware.  Statistics counters are left out.  All of it runs
  under \<open>pxmitpriv->lock\<close>, so each operation is one step.

  Access categories are numbered as in \<open>hwxmits\<close>: 0 voice, 1 video, 2 best effort, 3 background.
\<close>

section \<open>Access to a station\<close>

definition sta_of :: "adapter \<Rightarrow> nat \<Rightarrow> sta_info" where
  "sta_of ad p = sta_buf (stapriv ad) p"

definition set_sta :: "adapter \<Rightarrow> nat \<Rightarrow> sta_info \<Rightarrow> adapter" where
  "set_sta ad p si = ad\<lparr>stapriv := (stapriv ad)\<lparr>sta_buf := (sta_buf (stapriv ad))(p := si)\<rparr>\<rparr>"

text \<open>The service queue \<open>bk_q\<close>, \<open>be_q\<close>, \<open>vi_q\<close> or \<open>vo_q\<close> of an access category.\<close>

definition get_servq :: "sta_info \<Rightarrow> nat \<Rightarrow> tx_servq" where
  "get_servq si ac =
     (if ac = 0 then si_vo_q si else if ac = 1 then si_vi_q si
      else if ac = 2 then si_be_q si else si_bk_q si)"

definition set_servq :: "sta_info \<Rightarrow> nat \<Rightarrow> tx_servq \<Rightarrow> sta_info" where
  "set_servq si ac q =
     (if ac = 0 then si\<lparr>si_vo_q := q\<rparr> else if ac = 1 then si\<lparr>si_vi_q := q\<rparr>
      else if ac = 2 then si\<lparr>si_be_q := q\<rparr> else si\<lparr>si_bk_q := q\<rparr>)"

section \<open>Frame pools\<close>

definition zero_attrib :: pkt_attrib where
  "zero_attrib = \<lparr>px_hdrlen = 0, px_iv_len = 0, px_icv_len = 0, px_nr_frags = 0,
     px_last_txcmdsz = 0, px_encrypt = NO_PRIVACY, px_ta = replicate 6 0, px_ra = replicate 6 0,
     px_psta = None, px_priority = 0, px_triggered = False, px_mdata = False, px_eosp = False,
     px_qsel = 0, px_ether_type = 0, px_dhcp_pkt = False, px_subtype = 0, px_bswenc = False, px_seqnum = 0,
     px_pkt_hdrlen = 0, px_pktlen = 0, px_iv = replicate 8 0, px_icv = replicate 8 0, px_ack_policy = 0,
     px_mac_id = 0, px_vcs_mode = 0, px_dst = replicate 6 0, px_src = replicate 6 0, px_key_idx = 0,
     px_qos_en = False, px_ht_en = False, px_raid = 0, px_bwmode = 0, px_ch_offset = 0, px_sgi = False,
     px_ampdu_en = False, px_pctrl = False, px_retry_ctrl = False\<rparr>"

definition DATA_FRAMETAG :: nat where "DATA_FRAMETAG = 1"
definition MGNT_FRAMETAG :: nat where "MGNT_FRAMETAG = 3"

definition rtw_init_xmitframe :: "xmit_frame \<Rightarrow> xmit_frame" where
  "rtw_init_xmitframe f = f\<lparr>xf_attrib := zero_attrib, xf_frame_tag := DATA_FRAMETAG, xf_pkt := None, xf_pkt_offset := 1,
     xf_agg_num := 1, xf_ack_report := False\<rparr>"

definition rtw_alloc_xmitframe :: "xmit_priv \<Rightarrow> xmit_frame option \<times> xmit_priv" where
  "rtw_alloc_xmitframe xp =
     (case free_xmit_queue xp of [] \<Rightarrow> (None, xp)
      | f # fs \<Rightarrow> (Some (rtw_init_xmitframe f),
                   xp\<lparr>free_xmit_queue := fs, free_xmitframe_cnt := free_xmitframe_cnt xp - 1\<rparr>))"

definition rtw_alloc_xmitframe_ext :: "xmit_priv \<Rightarrow> xmit_frame option \<times> xmit_priv" where
  "rtw_alloc_xmitframe_ext xp =
     (case free_xframe_ext_queue xp of [] \<Rightarrow> (None, xp)
      | f # fs \<Rightarrow> (Some (rtw_init_xmitframe f),
                   xp\<lparr>free_xframe_ext_queue := fs, free_xframe_ext_cnt := free_xframe_ext_cnt xp - 1\<rparr>))"

section \<open>The classifier\<close>

text \<open>\<open>rtw_get_sta_pending\<close>: the access category of a user priority.\<close>

definition rtw_get_sta_pending :: "nat \<Rightarrow> nat" where
  "rtw_get_sta_pending up =
     (if up = 1 \<or> up = 2 then 3 else if up = 4 \<or> up = 5 then 1
      else if up = 6 \<or> up = 7 then 0 else 2)"

definition frame_sta :: "adapter \<Rightarrow> xmit_frame \<Rightarrow> nat option" where
  "frame_sta ad f =
     (case px_psta (xf_attrib f) of Some p \<Rightarrow> Some p
      | None \<Rightarrow> rtw_get_stainfo (stapriv ad) (px_ra (xf_attrib f)))"

definition rtw_xmit_classifier :: "adapter \<Rightarrow> xmit_frame \<Rightarrow> nat \<times> adapter" where
  "rtw_xmit_classifier ad f =
     (case frame_sta ad f of None \<Rightarrow> (FAIL, ad)
      | Some p \<Rightarrow>
          if si_state (sta_of ad p) AND FW_LINKED = 0 then (FAIL, ad)
          else
            let ac = rtw_get_sta_pending (px_priority (xf_attrib f));
                q = get_servq (sta_of ad p) ac;
                xp = xmitpriv ad;
                lst = hw_sta_queue xp ac;
                ad1 = set_sta ad p (set_servq (sta_of ad p) ac
                        (q\<lparr>sv_pending := sv_pending q @ [f], sv_qcnt := sv_qcnt q + 1\<rparr>))
            in (SUCCESS, ad1\<lparr>xmitpriv := xp\<lparr>
                  hw_sta_queue := (hw_sta_queue xp)(ac := if p \<in> set lst then lst else lst @ [p]),
                  hwxmits_accnt := (hwxmits_accnt xp)(ac := hwxmits_accnt xp ac + 1)\<rparr>\<rparr>))"

definition rtw_xmitframe_enqueue :: "adapter \<Rightarrow> xmit_frame \<Rightarrow> nat \<times> adapter" where
  "rtw_xmitframe_enqueue ad f =
     (let (res, ad1) = rtw_xmit_classifier ad f
      in if res = FAIL then (FAIL, ad1) else (SUCCESS, ad1))"

definition request_of :: "adapter \<Rightarrow> request \<Rightarrow> adapter" where
  "request_of ad r = ad\<lparr>requests := requests ad @ [r]\<rparr>"

definition rtl8192du_hal_xmitframe_enqueue :: "adapter \<Rightarrow> xmit_frame \<Rightarrow> nat \<times> adapter" where
  "rtl8192du_hal_xmitframe_enqueue ad f =
     (let (err, ad1) = rtw_xmitframe_enqueue ad f
      in if err \<noteq> SUCCESS
         then (err, ad1\<lparr>xmitpriv := rtw_free_xmitframe (xmitpriv ad1) f\<rparr>)
         else (err, request_of ad1 XmitTasklet))"

definition rtw_txframes_pending :: "adapter \<Rightarrow> bool" where
  "rtw_txframes_pending ad \<longleftrightarrow>
     hw_sta_queue (xmitpriv ad) 2 \<noteq> [] \<or> hw_sta_queue (xmitpriv ad) 3 \<noteq> [] \<or>
     hw_sta_queue (xmitpriv ad) 1 \<noteq> [] \<or> hw_sta_queue (xmitpriv ad) 0 \<noteq> []"

definition rtw_txframes_sta_ac_pending :: "adapter \<Rightarrow> xmit_frame \<Rightarrow> int" where
  "rtw_txframes_sta_ac_pending ad f =
     (case frame_sta ad f of None \<Rightarrow> 0
      | Some p \<Rightarrow>
          if si_state (sta_of ad p) AND FW_LINKED = 0 then 0
          else sv_qcnt (get_servq (sta_of ad p) (rtw_get_sta_pending (px_priority (xf_attrib f)))))"

section \<open>The scheduler\<close>

text \<open>
  The order of the access categories under \<open>wifi_spec\<close>: the nested loops sort \<open>inx\<close> by the
  number of outstanding buffers, \<open>acirp_cnt\<close>.
\<close>

definition irp_swap :: "int list \<times> nat list \<Rightarrow> nat \<times> nat \<Rightarrow> int list \<times> nat list" where
  "irp_swap s ij =
     (let (cnt, inx) = s; (i, j) = ij in
      if cnt ! j < cnt ! i
      then (cnt[i := cnt ! j, j := cnt ! i], inx[i := inx ! j, j := inx ! i])
      else (cnt, inx))"

definition irp_order :: "(nat \<Rightarrow> int) \<Rightarrow> nat list" where
  "irp_order irp =
     snd (foldl irp_swap (map irp [0..<4], [0..<4]) [(i, j). i \<leftarrow> [0..<4], j \<leftarrow> [i + 1..<4]])"

definition dequeue_one_xmitframe :: "adapter \<Rightarrow> nat \<Rightarrow> nat \<Rightarrow> xmit_frame option \<times> adapter" where
  "dequeue_one_xmitframe ad p ac =
     (let q = get_servq (sta_of ad p) ac in
      case sv_pending q of [] \<Rightarrow> (None, ad)
      | f # fs \<Rightarrow> (Some f, set_sta ad p (set_servq (sta_of ad p) ac
                             (q\<lparr>sv_pending := fs, sv_qcnt := sv_qcnt q - 1\<rparr>))))"

text \<open>The walk over the stations of one category.\<close>

fun dequeue_stas :: "adapter \<Rightarrow> nat \<Rightarrow> nat list \<Rightarrow> xmit_frame option \<times> adapter" where
  "dequeue_stas ad ac [] = (None, ad)"
| "dequeue_stas ad ac (p # ps) =
     (case dequeue_one_xmitframe ad p ac of
        (Some f, ad1) \<Rightarrow>
          let xp = xmitpriv ad1 in
          (Some f, ad1\<lparr>xmitpriv := xp\<lparr>
             hwxmits_accnt := (hwxmits_accnt xp)(ac := hwxmits_accnt xp ac - 1),
             hw_sta_queue := (if sv_pending (get_servq (sta_of ad1 p) ac) = []
               then (hw_sta_queue xp)(ac := removeAll p (hw_sta_queue xp ac))
               else hw_sta_queue xp)\<rparr>\<rparr>)
      | (None, ad1) \<Rightarrow> dequeue_stas ad1 ac ps)"

fun dequeue_acs :: "adapter \<Rightarrow> nat list \<Rightarrow> xmit_frame option \<times> adapter" where
  "dequeue_acs ad [] = (None, ad)"
| "dequeue_acs ad (ac # acs) =
     (case dequeue_stas ad ac (hw_sta_queue (xmitpriv ad) ac) of
        (Some f, ad1) \<Rightarrow> (Some f, ad1)
      | (None, ad1) \<Rightarrow> dequeue_acs ad1 acs)"

definition rtw_dequeue_xframe :: "adapter \<Rightarrow> xmit_frame option \<times> adapter" where
  "rtw_dequeue_xframe ad =
     dequeue_acs ad (if wifi_spec ad then irp_order (xp_irp_cnt (xmitpriv ad)) else [0, 1, 2, 3])"

section \<open>Access lemmas\<close>

lemma sta_of_set_sta [simp]: "sta_of (set_sta ad p si) q = (if q = p then si else sta_of ad q)"
  by (simp add: sta_of_def set_sta_def)

lemma set_sta_simps [simp]:
  "xmitpriv (set_sta ad p si) = xmitpriv ad" "fw_state (set_sta ad p si) = fw_state ad"
  "requests (set_sta ad p si) = requests ad" "hiq_filter (set_sta ad p si) = hiq_filter ad"
  "wifi_spec (set_sta ad p si) = wifi_spec ad"
  "sta_dz_bitmap (stapriv (set_sta ad p si)) = sta_dz_bitmap (stapriv ad)"
  "tim_bitmap (stapriv (set_sta ad p si)) = tim_bitmap (stapriv ad)"
  "sta_hash (stapriv (set_sta ad p si)) = sta_hash (stapriv ad)"
  by (simp_all add: set_sta_def)

lemma sta_of_updates [simp]:
  "sta_of (ad\<lparr>xmitpriv := xp\<rparr>) q = sta_of ad q" "sta_of (ad\<lparr>requests := rs\<rparr>) q = sta_of ad q"
  "sta_of (ad\<lparr>stapriv := (stapriv ad)\<lparr>sta_dz_bitmap := dz\<rparr>\<rparr>) q = sta_of ad q"
  "sta_of (ad\<lparr>stapriv := (stapriv ad)\<lparr>tim_bitmap := tim\<rparr>\<rparr>) q = sta_of ad q"
  "sta_of (ad\<lparr>stapriv := (stapriv ad)\<lparr>tim_bitmap := tim, sta_dz_bitmap := dz\<rparr>\<rparr>) q = sta_of ad q"
  by (simp_all add: sta_of_def)

lemma servq_get_set [simp]:
  "ac < 4 \<Longrightarrow> ac' < 4 \<Longrightarrow> get_servq (set_servq si ac q) ac' = (if ac' = ac then q else get_servq si ac')"
  by (auto simp: get_servq_def set_servq_def)

lemma set_servq_simps [simp]:
  "si_sleep_q (set_servq si ac q) = si_sleep_q si" "si_state (set_servq si ac q) = si_state si"
  "si_sleepq_len (set_servq si ac q) = si_sleepq_len si"
  "si_sleepq_ac_len (set_servq si ac q) = si_sleepq_ac_len si"
  "si_aid (set_servq si ac q) = si_aid si" "si_hwaddr (set_servq si ac q) = si_hwaddr si"
  "si_uapsd_bk (set_servq si ac q) = si_uapsd_bk si" "si_uapsd_be (set_servq si ac q) = si_uapsd_be si"
  "si_uapsd_vi (set_servq si ac q) = si_uapsd_vi si" "si_uapsd_vo (set_servq si ac q) = si_uapsd_vo si"
  "si_has_legacy_ac (set_servq si ac q) = si_has_legacy_ac si"
  by (simp_all add: set_servq_def)

lemma sta_pending_less [simp]: "rtw_get_sta_pending up < 4"
  by (simp add: rtw_get_sta_pending_def)

end
