(* ===== verification/PowerSave.thy ===== *)
theory PowerSave
  imports XmitQueue Wifi
begin

text \<open>
  Frames for sleeping stations in access point mode: the power-save functions of
  \<open>core/rtw_xmit.c\<close>, the reaction to the power-management bit, to trigger frames and to
  PS-Polls in \<open>core/rtw_recv.c\<close>, and the delivery of group frames after a beacon in
  \<open>core/rtw_mlme_ext.c\<close>.  The transmit lock is held throughout each of them.

  A beacon update, a command and a null frame are recorded in \<open>requests\<close>.
\<close>

section \<open>Bits of a station\<close>

text \<open>\<open>BIT(aid)\<close> cut to the 16 bits of \<open>sta_dz_bitmap\<close> and \<open>tim_bitmap\<close>.\<close>

definition aid_bit :: "nat \<Rightarrow> u16" where "aid_bit aid = push_bit aid 1"

text \<open>\<open>wmmps_ac\<close>: bit 0 says that the access category is delivery enabled, bit 1 trigger enabled.\<close>

definition wmmps_ac :: "sta_info \<Rightarrow> nat \<Rightarrow> nat \<Rightarrow> bool" where
  "wmmps_ac si up n = bit
     (if up = 1 \<or> up = 2 then si_uapsd_bk si else if up = 4 \<or> up = 5 then si_uapsd_vi si
      else if up = 6 \<or> up = 7 then si_uapsd_vo si else si_uapsd_be si) n"

definition dz_bit :: "adapter \<Rightarrow> nat \<Rightarrow> bool" where
  "dz_bit ad aid \<longleftrightarrow> sta_dz_bitmap (stapriv ad) AND aid_bit aid \<noteq> 0"

definition tim_bit :: "adapter \<Rightarrow> nat \<Rightarrow> bool" where
  "tim_bit ad aid \<longleftrightarrow> tim_bitmap (stapriv ad) AND aid_bit aid \<noteq> 0"

definition set_dz :: "adapter \<Rightarrow> nat \<Rightarrow> adapter" where
  "set_dz ad aid = ad\<lparr>stapriv := (stapriv ad)\<lparr>sta_dz_bitmap := sta_dz_bitmap (stapriv ad) OR aid_bit aid\<rparr>\<rparr>"

definition clear_dz :: "adapter \<Rightarrow> nat \<Rightarrow> adapter" where
  "clear_dz ad aid =
     ad\<lparr>stapriv := (stapriv ad)\<lparr>sta_dz_bitmap := sta_dz_bitmap (stapriv ad) AND NOT (aid_bit aid)\<rparr>\<rparr>"

definition set_tim :: "adapter \<Rightarrow> nat \<Rightarrow> adapter" where
  "set_tim ad aid = ad\<lparr>stapriv := (stapriv ad)\<lparr>tim_bitmap := tim_bitmap (stapriv ad) OR aid_bit aid\<rparr>\<rparr>"

definition clear_tim :: "adapter \<Rightarrow> nat \<Rightarrow> adapter" where
  "clear_tim ad aid =
     ad\<lparr>stapriv := (stapriv ad)\<lparr>tim_bitmap := tim_bitmap (stapriv ad) AND NOT (aid_bit aid)\<rparr>\<rparr>"

section \<open>Buffering\<close>

definition RTW_HIQ_FILTER_ALLOW_ALL :: nat where "RTW_HIQ_FILTER_ALLOW_ALL = 0"
definition RTW_HIQ_FILTER_ALLOW_SPECIAL :: nat where "RTW_HIQ_FILTER_ALLOW_SPECIAL = 1"

definition xmitframe_hiq_filter :: "adapter \<Rightarrow> xmit_frame \<Rightarrow> bool" where
  "xmitframe_hiq_filter ad f =
     (let a = xf_attrib f in
      if hiq_filter ad = RTW_HIQ_FILTER_ALLOW_SPECIAL
      then px_ether_type a = 0x0806 \<or> px_ether_type a = 0x888e \<or> px_dhcp_pkt a
      else hiq_filter ad = RTW_HIQ_FILTER_ALLOW_ALL)"

text \<open>The result: whether the frame is on a sleep queue now, and the frame otherwise.\<close>

definition xmitframe_enqueue_for_sleeping_sta ::
  "adapter \<Rightarrow> xmit_frame \<Rightarrow> bool \<times> xmit_frame \<times> adapter" where
  "xmitframe_enqueue_for_sleeping_sta ad f =
     (let a = xf_attrib f; bmcst = IS_MCAST (px_ra a) in
      if \<not> check_fwstate ad WIFI_AP_STATE then (False, f, ad)
      else case frame_sta ad f of None \<Rightarrow> (False, f, ad)
      | Some p \<Rightarrow>
        let si = sta_of ad p in
        if si_state si AND FW_LINKED = 0 then (False, f, ad)
        else if px_triggered a then
          (False, if bmcst \<and> xmitframe_hiq_filter ad f then f\<lparr>xf_attrib := a\<lparr>px_qsel := 0x11\<rparr>\<rparr> else f, ad)
        else if bmcst then
          if sta_dz_bitmap (stapriv ad) \<noteq> 0 then
            let ad1 = set_sta ad p (si\<lparr>si_sleep_q := si_sleep_q si @ [f],
                        si_sleepq_len := si_sleepq_len si + 1\<rparr>);
                update_tim = (\<not> tim_bit ad 0);
                ad2 = set_dz (set_tim ad1 0) 0
            in (True, f, request_of ad2 (if update_tim then UpdateBeaconTim else ChkBmcSleepq))
          else (False, f, ad)
        else if si_state si AND WIFI_SLEEP_STATE \<noteq> 0 \<and> dz_bit ad (si_aid si) then
          let w = wmmps_ac si (px_priority a) 0;
              ad1 = set_sta ad p (si\<lparr>si_sleep_q := si_sleep_q si @ [f],
                      si_sleepq_len := si_sleepq_len si + 1,
                      si_sleepq_ac_len := (if w then si_sleepq_ac_len si + 1 else si_sleepq_ac_len si)\<rparr>);
              update_tim = (\<not> tim_bit ad (si_aid si))
          in (True, f,
              if si_has_legacy_ac si \<and> \<not> w \<or> \<not> si_has_legacy_ac si \<and> w then
                let ad2 = set_tim ad1 (si_aid si)
                in (if update_tim then request_of ad2 UpdateBeaconTim else ad2)
              else ad1)
        else (False, f, ad))"

section \<open>A station falls asleep\<close>

text \<open>
  \<open>dequeue_xmitframes_to_sleeping_queue\<close>: the frames that are not buffered stay on the queue,
  in order; nothing reads the queue before the loop has ended.
\<close>

fun to_sleeping_loop :: "adapter \<Rightarrow> nat \<Rightarrow> xmit_frame list \<Rightarrow> xmit_frame list \<times> adapter" where
  "to_sleeping_loop ad p [] = ([], ad)"
| "to_sleeping_loop ad p (f # fs) =
     (let (ret, f1, ad1) = xmitframe_enqueue_for_sleeping_sta ad
             (f\<lparr>xf_attrib := (xf_attrib f)\<lparr>px_triggered := False\<rparr>\<rparr>)
      in if ret then
           let ac = rtw_get_sta_pending (px_priority (xf_attrib f1));
               si = sta_of ad1 p; q = get_servq si ac; xp = xmitpriv ad1;
               ad2 = set_sta ad1 p (set_servq si ac (q\<lparr>sv_qcnt := sv_qcnt q - 1\<rparr>));
               ad3 = ad2\<lparr>xmitpriv := xp\<lparr>hwxmits_accnt := (hwxmits_accnt xp)(ac := hwxmits_accnt xp ac - 1)\<rparr>\<rparr>
           in to_sleeping_loop ad3 p fs
         else let (kept, ad2) = to_sleeping_loop ad1 p fs in (f1 # kept, ad2))"

definition dequeue_xmitframes_to_sleeping_queue :: "adapter \<Rightarrow> nat \<Rightarrow> nat \<Rightarrow> adapter" where
  "dequeue_xmitframes_to_sleeping_queue ad p ac =
     (let (kept, ad1) = to_sleeping_loop ad p (sv_pending (get_servq (sta_of ad p) ac));
          si = sta_of ad1 p
      in set_sta ad1 p (set_servq si ac ((get_servq si ac)\<lparr>sv_pending := kept\<rparr>)))"

text \<open>One of the blocks of \<open>stop_sta_xmit\<close>: the queue is emptied and taken off the list.\<close>

definition stop_ac :: "nat \<Rightarrow> nat \<Rightarrow> adapter \<Rightarrow> adapter" where
  "stop_ac p ac ad =
     (let ad1 = dequeue_xmitframes_to_sleeping_queue ad p ac; xp = xmitpriv ad1
      in ad1\<lparr>xmitpriv := xp\<lparr>hw_sta_queue := (hw_sta_queue xp)(ac := removeAll p (hw_sta_queue xp ac))\<rparr>\<rparr>)"

text \<open>Without a broadcast entry its service queue is reached through a null pointer.\<close>

definition stop_sta_xmit :: "adapter \<Rightarrow> nat \<Rightarrow> adapter option" where
  "stop_sta_xmit ad p =
     (let bmc = rtw_get_bcmc_stainfo (stapriv ad);
          si = sta_of ad p;
          ad1 = set_dz (set_sta ad p (si\<lparr>si_state := si_state si OR WIFI_SLEEP_STATE\<rparr>)) (si_aid si);
          ad2 = stop_ac p 3 (stop_ac p 2 (stop_ac p 1 (stop_ac p 0 ad1)))
      in case bmc of None \<Rightarrow> None | Some b \<Rightarrow> Some (stop_ac b 2 ad2))"

section \<open>Delivery\<close>

text \<open>The loop over the sleep queue of a station in \<open>wakeup_sta_to_xmit\<close>.\<close>

fun wake_loop :: "nat \<Rightarrow> adapter \<Rightarrow> xmit_frame list \<Rightarrow> adapter" where
  "wake_loop p ad [] = ad"
| "wake_loop p ad (f # fs) =
     (let si = sta_of ad p; a = xf_attrib f;
          w = wmmps_ac si (px_priority a) 1;
          len = si_sleepq_len si - 1;
          ac_len = (if w then si_sleepq_ac_len si - 1 else si_sleepq_ac_len si);
          a1 = a\<lparr>px_mdata := (len > 0)\<rparr>;
          a2 = (if w then a1\<lparr>px_mdata := (ac_len > 0), px_eosp := \<not> (ac_len > 0)\<rparr> else a1);
          ad1 = set_sta ad p (si\<lparr>si_sleep_q := fs, si_sleepq_len := len, si_sleepq_ac_len := ac_len\<rparr>);
          ad2 = snd (rtl8192du_hal_xmitframe_enqueue ad1 (f\<lparr>xf_attrib := a2\<lparr>px_triggered := True\<rparr>\<rparr>))
      in wake_loop p ad2 fs)"

text \<open>The loops over the group frames; the flag says that the high queue may be chosen.\<close>

fun bmc_loop :: "bool \<Rightarrow> nat \<Rightarrow> adapter \<Rightarrow> xmit_frame list \<Rightarrow> adapter" where
  "bmc_loop hiq b ad [] = ad"
| "bmc_loop hiq b ad (f # fs) =
     (let si = sta_of ad b; len = si_sleepq_len si - 1;
          a = (xf_attrib f)\<lparr>px_mdata := (len > 0), px_triggered := True\<rparr>;
          a1 = (if hiq \<and> xmitframe_hiq_filter ad f then a\<lparr>px_qsel := 0x11\<rparr> else a);
          ad1 = set_sta ad b (si\<lparr>si_sleep_q := fs, si_sleepq_len := len\<rparr>);
          ad2 = snd (rtl8192du_hal_xmitframe_enqueue ad1 (f\<lparr>xf_attrib := a1\<rparr>))
      in bmc_loop hiq b ad2 fs)"

text \<open>What \<open>wakeup_sta_to_xmit\<close> does once the station's queue is empty.\<close>

definition wake_station :: "adapter \<Rightarrow> nat \<Rightarrow> adapter" where
  "wake_station ad p =
     (let si = sta_of ad p;
          si1 = si\<lparr>si_state := si_state si AND NOT WIFI_SLEEP_STATE\<rparr>;
          si2 = (if si_state si1 AND WIFI_STA_ALIVE_CHK_STATE \<noteq> 0
                 then si1\<lparr>si_expire_to := sp_expire_to (stapriv ad),
                          si_state := si_state si1 XOR WIFI_STA_ALIVE_CHK_STATE\<rparr> else si1)
      in clear_dz (set_sta (clear_tim ad (si_aid si)) p si2) (si_aid si))"

text \<open>Group frames are sent once no station sleeps.\<close>

definition wake_group :: "adapter \<Rightarrow> nat \<Rightarrow> bool \<times> adapter" where
  "wake_group ad b =
     (if sta_dz_bitmap (stapriv ad) AND 0xfffe = 0 then
        let ad1 = bmc_loop False b ad (si_sleep_q (sta_of ad b))
        in if si_sleepq_len (sta_of ad1 b) = 0
           then (tim_bit ad1 0, clear_dz (clear_tim ad1 0) 0) else (False, ad1)
      else (False, ad))"

definition wakeup_sta_to_xmit :: "adapter \<Rightarrow> nat \<Rightarrow> adapter" where
  "wakeup_sta_to_xmit ad p =
     (let bmc = rtw_get_bcmc_stainfo (stapriv ad);
          ad1 = wake_loop p ad (si_sleep_q (sta_of ad p));
          (uc, ad2) = (if si_sleepq_len (sta_of ad1 p) = 0
                       then (tim_bit ad1 (si_aid (sta_of ad1 p)), wake_station ad1 p)
                       else (False, ad1));
          (mc, ad3) = (case bmc of None \<Rightarrow> (False, ad2) | Some b \<Rightarrow> wake_group ad2 b)
      in if uc \<or> mc then request_of ad3 UpdateBeaconTim else ad3)"

text \<open>\<open>xmit_delivery_enabled_frames\<close>: \<open>kept\<close> are the frames passed over.\<close>

fun delivery_loop :: "nat \<Rightarrow> adapter \<Rightarrow> xmit_frame list \<Rightarrow> xmit_frame list \<Rightarrow> adapter" where
  "delivery_loop p ad kept [] = ad"
| "delivery_loop p ad kept (f # fs) =
     (let si = sta_of ad p; a = xf_attrib f in
      if \<not> wmmps_ac si (px_priority a) 1 then delivery_loop p ad (kept @ [f]) fs
      else
        let ac_len = si_sleepq_ac_len si - 1;
            a1 = a\<lparr>px_mdata := (ac_len > 0), px_eosp := \<not> (ac_len > 0), px_triggered := True\<rparr>;
            ad1 = set_sta ad p (si\<lparr>si_sleep_q := kept @ fs, si_sleepq_len := si_sleepq_len si - 1,
                                  si_sleepq_ac_len := ac_len\<rparr>);
            ad2 = snd (rtl8192du_hal_xmitframe_enqueue ad1 (f\<lparr>xf_attrib := a1\<rparr>));
            ad3 = (if ac_len = 0 \<and> \<not> si_has_legacy_ac si
                   then request_of (clear_tim ad2 (si_aid si)) UpdateBeaconTim else ad2)
        in delivery_loop p ad3 kept fs)"

definition xmit_delivery_enabled_frames :: "adapter \<Rightarrow> nat \<Rightarrow> adapter" where
  "xmit_delivery_enabled_frames ad p = delivery_loop p ad [] (si_sleep_q (sta_of ad p))"

text \<open>The answer to a PS-Poll of a station that may use one.\<close>

definition ps_poll :: "adapter \<Rightarrow> nat \<Rightarrow> adapter" where
  "ps_poll ad p =
     (let si = sta_of ad p in
      if si_state si AND WIFI_SLEEP_STATE \<noteq> 0 \<and> dz_bit ad (si_aid si) then
        (case si_sleep_q si of
           f # fs \<Rightarrow>
             let len = si_sleepq_len si - 1;
                 ad1 = set_sta ad p (si\<lparr>si_sleep_q := fs, si_sleepq_len := len\<rparr>);
                 ad2 = snd (rtl8192du_hal_xmitframe_enqueue ad1 (f\<lparr>xf_attrib :=
                         (xf_attrib f)\<lparr>px_mdata := (len > 0), px_triggered := True\<rparr>\<rparr>))
             in (if len = 0 then request_of (clear_tim ad2 (si_aid si)) UpdateBeaconTim else ad2)
         | [] \<Rightarrow>
             if tim_bit ad (si_aid si) then
               let ad1 = (if si_sleepq_len si = 0 then request_of ad (Nulldata (si_hwaddr si))
                          else set_sta ad p (si\<lparr>si_sleepq_len := 0\<rparr>))
               in request_of (clear_tim ad1 (si_aid si)) UpdateBeaconTim
             else ad)
      else ad)"

definition chk_bmc_sleepq_hdl :: "adapter \<Rightarrow> adapter" where
  "chk_bmc_sleepq_hdl ad =
     (case rtw_get_bcmc_stainfo (stapriv ad) of None \<Rightarrow> ad
      | Some b \<Rightarrow>
          if tim_bit ad 0 \<and> si_sleepq_len (sta_of ad b) > 0
          then request_of (bmc_loop True b ad (si_sleep_q (sta_of ad b))) ChkHiQueue
          else ad)"

text \<open>\<open>rtw_chk_hi_queue_hdl\<close>; \<open>hiq_empty\<close> is what the hardware said when the wait ended.\<close>

definition rtw_chk_hi_queue_hdl :: "adapter \<Rightarrow> bool \<Rightarrow> adapter" where
  "rtw_chk_hi_queue_hdl ad hiq_empty =
     (case rtw_get_bcmc_stainfo (stapriv ad) of None \<Rightarrow> ad
      | Some b \<Rightarrow>
          if si_sleepq_len (sta_of ad b) = 0 then
            if hiq_empty then
              let ad1 = clear_dz (clear_tim ad 0) 0
              in (if tim_bit ad 0 then request_of ad1 UpdateBeaconTim else ad1)
            else request_of ad ChkHiQueue
          else ad)"

section \<open>What the receive path asks for\<close>

definition process_pwrbit_data :: "adapter \<Rightarrow> recv_frame \<Rightarrow> adapter option" where
  "process_pwrbit_data ad rf = do {
     pwrbit \<leftarrow> GetPwrMgt (rf_data rf);
     (case rtw_get_stainfo (stapriv ad) (rx_src (rf_attrib rf)) of
        None \<Rightarrow> Some ad
      | Some p \<Rightarrow>
          let asleep = (si_state (sta_of ad p) AND WIFI_SLEEP_STATE \<noteq> 0) in
          if pwrbit then (if \<not> asleep then stop_sta_xmit ad p else Some ad)
          else Some (if asleep then wakeup_sta_to_xmit ad p else ad)) }"

definition process_wmmps_data :: "adapter \<Rightarrow> recv_frame \<Rightarrow> adapter" where
  "process_wmmps_data ad rf =
     (case rtw_get_stainfo (stapriv ad) (rx_src (rf_attrib rf)) of
        None \<Rightarrow> ad
      | Some p \<Rightarrow>
          let si = sta_of ad p; up = rx_priority (rf_attrib rf) in
          if \<not> si_qos_option si then ad
          else if si_qos_info si AND 0xf = 0 then ad
          else if si_state si AND WIFI_SLEEP_STATE \<noteq> 0 \<and> wmmps_ac si up 1 then
            if si_sleepq_ac_len si > 0 then xmit_delivery_enabled_frames ad p
            else request_of ad (QosNulldata (si_hwaddr si) up)
          else ad)"

text \<open>\<open>validate_recv_ctrl_frame\<close>: it always returns \<open>_FAIL\<close>, so only the state is the result.\<close>

definition validate_recv_ctrl_frame :: "adapter \<Rightarrow> recv_frame \<Rightarrow> adapter option" where
  "validate_recv_ctrl_frame ad rf = do {
     fc0 \<leftarrow> rd (rf_data rf) 0;
     if GetFrameType fc0 \<noteq> WIFI_CTRL_TYPE then Some ad else do {
     a1 \<leftarrow> GetAddr1Ptr (rf_data rf);
     if a1 \<noteq> eeprom_mac ad then Some ad
     else if GetFrameSubType fc0 = WIFI_PSPOLL then do {
       aid \<leftarrow> GetAid (rf_data rf);
       a2 \<leftarrow> GetAddr2Ptr (rf_data rf);
       (case rtw_get_stainfo (stapriv ad) a2 of
          None \<Rightarrow> Some ad
        | Some p \<Rightarrow>
            let si = sta_of ad p in
            if si_aid si \<noteq> aid then Some ad
            else if wmmps_ac si (rx_priority (rf_attrib rf)) 0 then Some ad
            else
              let si1 = (if si_state si AND WIFI_STA_ALIVE_CHK_STATE \<noteq> 0
                         then si\<lparr>si_expire_to := sp_expire_to (stapriv ad),
                                 si_state := si_state si XOR WIFI_STA_ALIVE_CHK_STATE\<rparr> else si)
              in Some (ps_poll (set_sta ad p si1) p)) }
     else Some ad } }"

section \<open>The transmit entry\<close>

definition do_queue_select :: "pkt_attrib \<Rightarrow> pkt_attrib" where
  "do_queue_select a = a\<lparr>px_qsel := px_priority a\<rparr>"

text \<open>
  \<open>pre_xmitframe\<close>; \<open>buf\<close> says whether a transmit buffer is free.  A frame that is sent at once
  is copied to the buffer and is back in its pool when the call ends, also when the copying
  fails.  The result says whether the frame was not queued.
\<close>

definition pre_xmitframe :: "adapter \<Rightarrow> xmit_frame \<Rightarrow> bool \<Rightarrow> bool \<times> adapter" where
  "pre_xmitframe ad f buf =
     (if rtw_txframes_sta_ac_pending ad f > 0 \<or>
         check_fwstate ad (WIFI_SITE_MONITOR OR WIFI_UNDER_LINKING) \<or> \<not> buf
      then let (res, ad1) = rtw_xmitframe_enqueue ad f in
        if res \<noteq> SUCCESS then (True, ad1\<lparr>xmitpriv := rtw_free_xmitframe (xmitpriv ad1) f\<rparr>)
        else (False, ad1)
      else (True, ad\<lparr>xmitpriv := rtw_free_xmitframe (xmitpriv ad) f\<rparr>))"

text \<open>\<open>rtw_xmit\<close>; \<open>attrib\<close> is what \<open>update_attrib\<close> makes of the packet, \<open>None\<close> when it fails.\<close>

definition rtw_xmit :: "adapter \<Rightarrow> pkt_attrib option \<Rightarrow> bool \<Rightarrow> int \<times> adapter" where
  "rtw_xmit ad attrib buf =
     (case rtw_alloc_xmitframe (xmitpriv ad) of
        (None, xp) \<Rightarrow> (-1, ad\<lparr>xmitpriv := xp\<rparr>)
      | (Some f, xp) \<Rightarrow>
          let ad1 = ad\<lparr>xmitpriv := xp\<rparr> in
          case attrib of
            None \<Rightarrow> (-1, ad1\<lparr>xmitpriv := rtw_free_xmitframe xp f\<rparr>)
          | Some a \<Rightarrow>
              let f1 = f\<lparr>xf_attrib := do_queue_select a\<rparr>;
                  (ret, f2, ad2) = xmitframe_enqueue_for_sleeping_sta ad1 f1
              in if ret then (1, ad2)
                 else let (direct, ad3) = pre_xmitframe ad2 f2 buf
                      in (if direct then 0 else 1, ad3))"

end
