(* ===== verification/PowerSaveProofs.thy ===== *)
theory PowerSaveProofs
  imports PowerSave
begin

text \<open>
  Correctness of the queues and of power saving: the invariant of the transmit queues, kept by
  every operation, and what it gives.  Each operation that releases buffered frames is a
  sequence of \<open>deliver\<close> steps, for which the invariant is proved once.
\<close>

section \<open>Views of the state\<close>

definition pend :: "adapter \<Rightarrow> nat \<Rightarrow> nat \<Rightarrow> xmit_frame list" where
  "pend ad p ac = sv_pending (get_servq (sta_of ad p) ac)"

definition slp :: "adapter \<Rightarrow> nat \<Rightarrow> xmit_frame list" where
  "slp ad p = si_sleep_q (sta_of ad p)"

definition linked :: "adapter \<Rightarrow> nat \<Rightarrow> bool" where
  "linked ad p \<longleftrightarrow> si_state (sta_of ad p) AND FW_LINKED \<noteq> 0"

definition asleep :: "adapter \<Rightarrow> nat \<Rightarrow> bool" where
  "asleep ad p \<longleftrightarrow> si_state (sta_of ad p) AND WIFI_SLEEP_STATE \<noteq> 0"

definition frame_class :: "xmit_frame \<Rightarrow> nat" where
  "frame_class f = rtw_get_sta_pending (px_priority (xf_attrib f))"

text \<open>A frame for station \<open>p\<close>, where \<open>b\<close> is the entry of the group frames.\<close>

definition frame_ok :: "nat \<Rightarrow> nat \<Rightarrow> xmit_frame \<Rightarrow> bool" where
  "frame_ok b p f \<longleftrightarrow> px_psta (xf_attrib f) = Some p \<and> \<not> xf_alloc_addr f \<and>
     (IS_MCAST (px_ra (xf_attrib f)) \<longleftrightarrow> p = b) \<and> (p = b \<longrightarrow> frame_class f = 2)"

text \<open>What no operation of power saving changes.\<close>

definition same_env :: "adapter \<Rightarrow> adapter \<Rightarrow> bool" where
  "same_env ad ad' \<longleftrightarrow> fw_state ad' = fw_state ad \<and> hiq_filter ad' = hiq_filter ad \<and>
     wifi_spec ad' = wifi_spec ad \<and> sta_hash (stapriv ad') = sta_hash (stapriv ad) \<and>
     (\<forall>q. si_hwaddr (sta_of ad' q) = si_hwaddr (sta_of ad q) \<and>
          si_aid (sta_of ad' q) = si_aid (sta_of ad q) \<and>
          si_has_legacy_ac (sta_of ad' q) = si_has_legacy_ac (sta_of ad q) \<and>
          si_uapsd_bk (sta_of ad' q) = si_uapsd_bk (sta_of ad q) \<and>
          si_uapsd_be (sta_of ad' q) = si_uapsd_be (sta_of ad q) \<and>
          si_uapsd_vi (sta_of ad' q) = si_uapsd_vi (sta_of ad q) \<and>
          si_uapsd_vo (sta_of ad' q) = si_uapsd_vo (sta_of ad q) \<and>
          linked ad' q = linked ad q)"

lemma same_env_refl [simp]: "same_env ad ad"
  by (simp add: same_env_def)

lemma same_env_trans [trans]: "same_env ad ad1 \<Longrightarrow> same_env ad1 ad2 \<Longrightarrow> same_env ad ad2"
  by (simp add: same_env_def)

lemma find_cong: "(\<And>x. x \<in> set xs \<Longrightarrow> P x = Q x) \<Longrightarrow> find P xs = find Q xs"
  by (induction xs) auto

lemma same_env_lookup: "same_env ad ad' \<Longrightarrow> rtw_get_stainfo (stapriv ad') a = rtw_get_stainfo (stapriv ad) a"
  by (auto simp: same_env_def get_alt sta_of_def intro!: find_cong)

lemma same_env_bcmc: "same_env ad ad' \<Longrightarrow> rtw_get_bcmc_stainfo (stapriv ad') = rtw_get_bcmc_stainfo (stapriv ad)"
  by (simp add: rtw_get_bcmc_stainfo_def same_env_lookup)

lemma same_env_wmm: "same_env ad ad' \<Longrightarrow> wmmps_ac (sta_of ad' p) up n = wmmps_ac (sta_of ad p) up n"
  by (simp add: wmmps_ac_def same_env_def)

section \<open>The invariant of the queues\<close>

definition sta_queues_ok :: "nat \<Rightarrow> adapter \<Rightarrow> nat \<Rightarrow> bool" where
  "sta_queues_ok b ad p \<longleftrightarrow>
     (\<forall>f \<in> set (slp ad p). frame_ok b p f) \<and>
     (\<forall>ac < 4. \<forall>f \<in> set (pend ad p ac). frame_ok b p f \<and> frame_class f = ac) \<and>
     (\<forall>ac < 4. sv_qcnt (get_servq (sta_of ad p) ac) = int (length (pend ad p ac))) \<and>
     si_sleepq_len (sta_of ad p) = of_nat (length (slp ad p)) \<and>
     (slp ad p \<noteq> [] \<or> (\<exists>ac < 4. pend ad p ac \<noteq> []) \<longrightarrow> p < NUM_STA \<and> linked ad p) \<and>
     (slp ad p \<noteq> [] \<and> p \<noteq> b \<longrightarrow> asleep ad p)"

text \<open>The scheduler's list and the counter of an access category.\<close>

definition sched_ok :: "adapter \<Rightarrow> nat \<Rightarrow> bool" where
  "sched_ok ad ac \<longleftrightarrow> distinct (hw_sta_queue (xmitpriv ad) ac) \<and>
     (\<forall>p. p \<in> set (hw_sta_queue (xmitpriv ad) ac) \<longleftrightarrow> pend ad p ac \<noteq> []) \<and>
     hwxmits_accnt (xmitpriv ad) ac = (\<Sum>p<NUM_STA. int (length (pend ad p ac)))"

definition queues_ok :: "nat \<Rightarrow> adapter \<Rightarrow> bool" where
  "queues_ok b ad \<longleftrightarrow> (\<forall>p. sta_queues_ok b ad p) \<and> (\<forall>ac < 4. sched_ok ad ac) \<and>
     rtw_get_bcmc_stainfo (stapriv ad) = Some b \<and> check_fwstate ad WIFI_AP_STATE"

text \<open>The frames the driver owns, each by its identity: in the pools and at the stations.\<close>

definition frame_key :: "xmit_frame \<Rightarrow> nat \<times> bool" where
  "frame_key f = (xf_id f, xf_alloc_addr f)"

lemma pend_frame_ok:
  "queues_ok b ad \<Longrightarrow> ac < 4 \<Longrightarrow> f \<in> set (pend ad p ac) \<Longrightarrow> frame_ok b p f \<and> frame_class f = ac"
  by (simp add: queues_ok_def sta_queues_ok_def)

lemma slp_frame_ok: "queues_ok b ad \<Longrightarrow> f \<in> set (slp ad p) \<Longrightarrow> frame_ok b p f"
  by (simp add: queues_ok_def sta_queues_ok_def)

definition ids_at :: "adapter \<Rightarrow> nat \<Rightarrow> (nat \<times> bool) multiset" where
  "ids_at ad p = image_mset frame_key (mset (slp ad p)) + (\<Sum>ac<4. image_mset frame_key (mset (pend ad p ac)))"

definition pool_ids :: "adapter \<Rightarrow> (nat \<times> bool) multiset" where
  "pool_ids ad = image_mset frame_key (xmit_pool (xmitpriv ad))"

definition all_ids :: "adapter \<Rightarrow> (nat \<times> bool) multiset" where
  "all_ids ad = pool_ids ad + (\<Sum>p<NUM_STA. ids_at ad p)"

section \<open>One frame is queued\<close>

text \<open>\<open>ad'\<close> is \<open>ad\<close> with \<open>f\<close> at the end of the service queue of its class at station \<open>p\<close>.\<close>

definition queued :: "adapter \<Rightarrow> nat \<Rightarrow> xmit_frame \<Rightarrow> adapter \<Rightarrow> bool" where
  "queued ad p f ad' \<longleftrightarrow>
     (let ac = frame_class f; q = get_servq (sta_of ad p) ac; lst = hw_sta_queue (xmitpriv ad) ac in
      (\<forall>q'. q' \<noteq> p \<longrightarrow> sta_of ad' q' = sta_of ad q') \<and>
      sta_of ad' p = set_servq (sta_of ad p) ac
        (q\<lparr>sv_pending := sv_pending q @ [f], sv_qcnt := sv_qcnt q + 1\<rparr>) \<and>
      hw_sta_queue (xmitpriv ad') = (hw_sta_queue (xmitpriv ad))(ac := if p \<in> set lst then lst else lst @ [p]) \<and>
      hwxmits_accnt (xmitpriv ad') = (hwxmits_accnt (xmitpriv ad))(ac := hwxmits_accnt (xmitpriv ad) ac + 1) \<and>
      xmit_pool (xmitpriv ad') = xmit_pool (xmitpriv ad) \<and>
      sta_dz_bitmap (stapriv ad') = sta_dz_bitmap (stapriv ad) \<and>
      tim_bitmap (stapriv ad') = tim_bitmap (stapriv ad) \<and> same_env ad ad')"

lemma hal_enqueue_queued:
  assumes "frame_sta ad f = Some p" and "linked ad p"
  shows "fst (rtl8192du_hal_xmitframe_enqueue ad f) = SUCCESS"
    and "queued ad p f (snd (rtl8192du_hal_xmitframe_enqueue ad f))"
  using assms
  by (auto simp: rtl8192du_hal_xmitframe_enqueue_def rtw_xmitframe_enqueue_def rtw_xmit_classifier_def
      linked_def Let_def queued_def frame_class_def request_of_def xmit_pool_def same_env_def sta_of_def
      set_sta_def)

lemma queued_pend:
  assumes "queued ad p f ad'" and "ac < 4"
  shows "pend ad' q ac = (if q = p \<and> ac = frame_class f then pend ad p ac @ [f] else pend ad q ac)"
  using assms by (cases "q = p") (auto simp: queued_def Let_def pend_def frame_class_def)

lemma queued_slp: "queued ad p f ad' \<Longrightarrow> slp ad' q = slp ad q"
  by (cases "q = p") (auto simp: queued_def Let_def slp_def)

lemma frame_class_less [simp]: "frame_class f < 4"
  by (simp add: frame_class_def)

lemma sum_upd_one:
  assumes "p < (n :: nat)"
  shows "(\<Sum>q<n. if q = p then g q + c else g q) = (\<Sum>q<n. g q) + (c :: 'a :: comm_monoid_add)"
proof -
  have "(\<Sum>q<n. if q = p then g q + c else g q) = (\<Sum>q<n. g q + (if q = p then c else 0))"
    by (rule sum.cong) auto
  also have "\<dots> = (\<Sum>q<n. g q) + (\<Sum>q<n. if q = p then c else 0)" by (simp add: sum.distrib)
  also have "(\<Sum>q<n. if q = p then c else 0) = c" using assms by simp
  finally show ?thesis .
qed

lemma queued_ids:
  assumes "queued ad p f ad'" and "p < NUM_STA"
  shows "all_ids ad' = add_mset (frame_key f) (all_ids ad)"
proof -
  have "ids_at ad' q = (if q = p then ids_at ad q + {#frame_key f#} else ids_at ad q)" for q
  proof -
    have "(\<Sum>ac<4. image_mset frame_key (mset (pend ad' p ac))) =
        (\<Sum>ac<4. if ac = frame_class f then image_mset frame_key (mset (pend ad p ac)) + {#frame_key f#}
                 else image_mset frame_key (mset (pend ad p ac)))"
      by (rule sum.cong) (auto simp: queued_pend [OF assms(1)])
    then have "ids_at ad' p = ids_at ad p + {#frame_key f#}"
      unfolding ids_at_def sum_upd_one [OF frame_class_less] by (simp add: queued_slp [OF assms(1)])
    moreover have "q \<noteq> p \<Longrightarrow> ids_at ad' q = ids_at ad q"
      using assms(1) by (simp add: ids_at_def queued_def Let_def slp_def pend_def)
    ultimately show ?thesis by simp
  qed
  then have "(\<Sum>q<NUM_STA. ids_at ad' q) = (\<Sum>q<NUM_STA. ids_at ad q) + {#frame_key f#}"
    using sum_upd_one [OF assms(2), of "ids_at ad" "{#frame_key f#}"] by simp
  moreover have "pool_ids ad' = pool_ids ad" using assms(1) by (simp add: pool_ids_def queued_def Let_def)
  ultimately show ?thesis by (simp add: all_ids_def)
qed

lemma queued_ok:
  assumes ok: "queues_ok b ad" and q: "queued ad p f ad'" and p: "p < NUM_STA" "linked ad p"
    and f: "frame_ok b p f"
  shows "queues_ok b ad'"
proof -
  have env: "same_env ad ad'" using q by (simp add: queued_def Let_def)
  have "sta_queues_ok b ad' r" for r
  proof (cases "r = p")
    case False
    then have "sta_of ad' r = sta_of ad r" using q by (simp add: queued_def Let_def)
    then show ?thesis using ok
      by (simp add: queues_ok_def sta_queues_ok_def slp_def pend_def linked_def asleep_def)
  next
    case True
    have o: "sta_queues_ok b ad p" using ok by (simp add: queues_ok_def)
    have sp: "sta_of ad' p = set_servq (sta_of ad p) (frame_class f)
        ((get_servq (sta_of ad p) (frame_class f))\<lparr>
           sv_pending := sv_pending (get_servq (sta_of ad p) (frame_class f)) @ [f],
           sv_qcnt := sv_qcnt (get_servq (sta_of ad p) (frame_class f)) + 1\<rparr>)"
      using q by (simp add: queued_def Let_def)
    have "sv_qcnt (get_servq (sta_of ad' p) ac) = int (length (pend ad' p ac))" if "ac < 4" for ac
      using o that sp by (auto simp: sta_queues_ok_def queued_pend [OF q that] pend_def)
    moreover have "frame_ok b p g \<and> frame_class g = ac" if "ac < 4" "g \<in> set (pend ad' p ac)" for ac g
    proof -
      have "g \<in> set (pend ad p ac) \<Longrightarrow> frame_ok b p g \<and> frame_class g = ac"
        using o that(1) by (simp add: sta_queues_ok_def)
      then show ?thesis using f that by (auto simp: queued_pend [OF q that(1)] split: if_splits)
    qed
    moreover have "si_sleepq_len (sta_of ad' p) = si_sleepq_len (sta_of ad p)" by (simp add: sp)
    moreover have "linked ad' p" "asleep ad' p = asleep ad p"
      using env p by (simp_all add: same_env_def asleep_def sp)
    ultimately show ?thesis using o p(1) True by (simp add: sta_queues_ok_def queued_slp [OF q])
  qed
  moreover have "sched_ok ad' ac" if "ac < 4" for ac
  proof -
    have o: "sched_ok ad ac" using ok that by (simp add: queues_ok_def)
    have "int (length (pend ad' r ac)) = (if r = p then int (length (pend ad r ac)) +
        (if ac = frame_class f then 1 else 0) else int (length (pend ad r ac)))" for r
      by (simp add: queued_pend [OF q that])
    then show ?thesis
      using o q p(1) by (auto simp: sched_ok_def queued_def Let_def queued_pend [OF q that] sum_upd_one)
  qed
  ultimately show ?thesis
    using ok same_env_bcmc [OF env] env by (simp add: queues_ok_def check_fwstate_def same_env_def)
qed

section \<open>The sleep queue of a station changes\<close>

definition sleep_edit :: "adapter \<Rightarrow> nat \<Rightarrow> sta_info \<Rightarrow> bool" where
  "sleep_edit ad p si \<longleftrightarrow> (\<forall>ac < 4. get_servq si ac = get_servq (sta_of ad p) ac) \<and>
     si_state si = si_state (sta_of ad p) \<and> si_hwaddr si = si_hwaddr (sta_of ad p) \<and>
     si_aid si = si_aid (sta_of ad p) \<and> si_has_legacy_ac si = si_has_legacy_ac (sta_of ad p) \<and>
     si_uapsd_bk si = si_uapsd_bk (sta_of ad p) \<and> si_uapsd_be si = si_uapsd_be (sta_of ad p) \<and>
     si_uapsd_vi si = si_uapsd_vi (sta_of ad p) \<and> si_uapsd_vo si = si_uapsd_vo (sta_of ad p)"

lemma sleep_edit_env: "sleep_edit ad p si \<Longrightarrow> same_env ad (set_sta ad p si)"
  by (simp add: sleep_edit_def same_env_def linked_def)

lemma sleep_edit_pend: "sleep_edit ad p si \<Longrightarrow> ac < 4 \<Longrightarrow> pend (set_sta ad p si) q ac = pend ad q ac"
  by (simp add: sleep_edit_def pend_def)

lemma sleep_edit_slp: "slp (set_sta ad p si) q = (if q = p then si_sleep_q si else slp ad q)"
  by (simp add: slp_def)

lemma sleep_edit_ok:
  assumes ok: "queues_ok b ad" and e: "sleep_edit ad p si"
    and len: "si_sleepq_len si = of_nat (length (si_sleep_q si))"
    and f: "\<forall>f \<in> set (si_sleep_q si). frame_ok b p f"
    and ne: "si_sleep_q si \<noteq> [] \<Longrightarrow> p < NUM_STA \<and> linked ad p \<and> (p \<noteq> b \<longrightarrow> asleep ad p)"
  shows "queues_ok b (set_sta ad p si)"
proof -
  let ?ad = "set_sta ad p si"
  have st: "linked ?ad q = linked ad q" "asleep ?ad q = asleep ad q" for q
    using e by (simp_all add: sleep_edit_def linked_def asleep_def)
  have "sta_queues_ok b ?ad q" for q
  proof -
    have o: "sta_queues_ok b ad q" using ok by (simp add: queues_ok_def)
    have "sv_qcnt (get_servq (sta_of ?ad q) ac) = int (length (pend ?ad q ac))" if "ac < 4" for ac
      using o e that by (cases "q = p") (simp_all add: sta_queues_ok_def sleep_edit_pend [OF e] sleep_edit_def)
    moreover have "(\<exists>ac<4. pend ?ad q ac \<noteq> []) \<longleftrightarrow> (\<exists>ac<4. pend ad q ac \<noteq> [])"
      by (auto simp: sleep_edit_pend [OF e])
    moreover have "\<forall>ac<4. \<forall>g\<in>set (pend ?ad q ac). frame_ok b q g \<and> frame_class g = ac"
      using o by (simp add: sta_queues_ok_def sleep_edit_pend [OF e])
    ultimately show ?thesis using o f len ne
      by (cases "q = p") (auto simp: sta_queues_ok_def st sleep_edit_slp simp del: all_simps ex_simps)
  qed
  moreover have "sched_ok ?ad ac" if "ac < 4" for ac
    using ok that by (simp add: queues_ok_def sched_ok_def sleep_edit_pend [OF e])
  moreover have "rtw_get_bcmc_stainfo (stapriv ?ad) = Some b"
    using ok same_env_bcmc [OF sleep_edit_env [OF e]] by (simp add: queues_ok_def)
  ultimately show ?thesis using ok by (simp add: queues_ok_def check_fwstate_def)
qed

lemma sleep_edit_ids:
  assumes e: "sleep_edit ad p si" and p: "p < NUM_STA"
  shows "all_ids (set_sta ad p si) + image_mset frame_key (mset (slp ad p)) =
         all_ids ad + image_mset frame_key (mset (si_sleep_q si))"
proof -
  let ?ad = "set_sta ad p si"
  have other: "ids_at ?ad q = ids_at ad q" if "q \<noteq> p" for q
    using that by (simp add: ids_at_def slp_def pend_def)
  have "(\<Sum>ac<4. image_mset frame_key (mset (pend ?ad p ac))) = (\<Sum>ac<4. image_mset frame_key (mset (pend ad p ac)))"
    by (rule sum.cong) (simp_all add: sleep_edit_pend [OF e])
  then have here: "ids_at ?ad p + image_mset frame_key (mset (slp ad p)) =
      ids_at ad p + image_mset frame_key (mset (si_sleep_q si))"
    by (simp add: ids_at_def sleep_edit_slp)
  have split: "(\<Sum>q<NUM_STA. ids_at a q) = ids_at a p + (\<Sum>q\<in>{..<NUM_STA} - {p}. ids_at a q)" for a
    using p by (simp add: sum.remove)
  have "(\<Sum>q\<in>{..<NUM_STA} - {p}. ids_at ?ad q) = (\<Sum>q\<in>{..<NUM_STA} - {p}. ids_at ad q)"
    by (rule sum.cong) (simp_all add: other)
  moreover have "pool_ids ?ad = pool_ids ad" by (simp add: pool_ids_def)
  ultimately show ?thesis using here
    unfolding all_ids_def split by (simp add: ac_simps)
qed

section \<open>A buffered frame is delivered\<close>

text \<open>
  The step the delivery loops share: a frame leaves the sleep queue of \<open>p\<close> and is queued for
  transmission.  The frame's flags change, its identity, addressee and category do not.
\<close>

lemma deliver:
  assumes ok: "queues_ok b ad" and q: "slp ad p = xs @ f # ys" and e: "sleep_edit ad p si"
    and si: "si_sleep_q si = xs @ ys" "si_sleepq_len si = si_sleepq_len (sta_of ad p) - 1"
    and f': "xf_id f' = xf_id f" "frame_class f' = frame_class f" "xf_alloc_addr f' = xf_alloc_addr f"
      "px_psta (xf_attrib f') = px_psta (xf_attrib f)" "px_ra (xf_attrib f') = px_ra (xf_attrib f)"
    and ad': "ad' = snd (rtl8192du_hal_xmitframe_enqueue (set_sta ad p si) f')"
  shows "queues_ok b ad'" and "all_ids ad' = all_ids ad" and "same_env ad ad'"
    and "queued (set_sta ad p si) p f' ad'" and "p < NUM_STA" and "linked ad p"
proof -
  have s: "sta_queues_ok b ad p" using ok by (simp add: queues_ok_def)
  then have f: "frame_ok b p f" and p: "p < NUM_STA" "linked ad p" and a: "p \<noteq> b \<Longrightarrow> asleep ad p"
    using q by (auto simp: sta_queues_ok_def)
  have fo: "frame_ok b p f'" using f f' by (simp add: frame_ok_def)
  have len: "si_sleepq_len si = of_nat (length (si_sleep_q si))"
    using s q si by (simp add: sta_queues_ok_def)
  have all: "\<forall>g \<in> set (si_sleep_q si). frame_ok b p g"
    using s q si by (auto simp: sta_queues_ok_def)
  let ?ad1 = "set_sta ad p si"
  have ok1: "queues_ok b ?ad1"
    by (rule sleep_edit_ok [OF ok e len all]) (use p a in auto)
  have l1: "linked ?ad1 p" using p(2) e by (simp add: linked_def sleep_edit_def)
  have st: "frame_sta ?ad1 f' = Some p" using fo by (simp add: frame_sta_def frame_ok_def)
  have qd: "queued ?ad1 p f' ad'" unfolding ad' by (rule hal_enqueue_queued(2) [OF st l1])
  show "queues_ok b ad'" by (rule queued_ok [OF ok1 qd p(1) l1 fo])
  have "all_ids ad' = add_mset (frame_key f) (all_ids ?ad1)"
    using queued_ids [OF qd p(1)] f'(1,3) by (simp add: frame_key_def)
  moreover have "all_ids ?ad1 + {#frame_key f#} = all_ids ad"
    using sleep_edit_ids [OF e p(1)] q si by simp
  ultimately show "all_ids ad' = all_ids ad" by simp
  show "same_env ad ad'"
    using sleep_edit_env [OF e] qd by (auto simp: queued_def Let_def intro: same_env_trans)
  show "queued ?ad1 p f' ad'" by (rule qd)
  show "p < NUM_STA" "linked ad p" by (rule p)+
qed

section \<open>The bitmaps\<close>

lemma aid_bit_and: "w AND aid_bit aid \<noteq> 0 \<longleftrightarrow> bit w aid"
  by (simp add: aid_bit_def push_bit_eq_mult and_exp_eq_0_iff_not_bit)

lemma bit_aid_bit: "bit (aid_bit a) n \<longleftrightarrow> n = a \<and> a < 16"
  by (auto simp: aid_bit_def bit_simps)

lemma dz_bit_iff: "dz_bit ad aid \<longleftrightarrow> bit (sta_dz_bitmap (stapriv ad)) aid"
  by (simp add: dz_bit_def aid_bit_and)

lemma tim_bit_iff: "tim_bit ad aid \<longleftrightarrow> bit (tim_bitmap (stapriv ad)) aid"
  by (simp add: tim_bit_def aid_bit_and)

lemma bitmap_ops [simp]:
  "dz_bit (set_dz ad a) n \<longleftrightarrow> dz_bit ad n \<or> n = a \<and> a < 16"
  "dz_bit (clear_dz ad a) n \<longleftrightarrow> dz_bit ad n \<and> n \<noteq> a"
  "tim_bit (set_tim ad a) n \<longleftrightarrow> tim_bit ad n \<or> n = a \<and> a < 16"
  "tim_bit (clear_tim ad a) n \<longleftrightarrow> tim_bit ad n \<and> n \<noteq> a"
  "dz_bit (set_tim ad a) n \<longleftrightarrow> dz_bit ad n" "dz_bit (clear_tim ad a) n \<longleftrightarrow> dz_bit ad n"
  "tim_bit (set_dz ad a) n \<longleftrightarrow> tim_bit ad n" "tim_bit (clear_dz ad a) n \<longleftrightarrow> tim_bit ad n"
  "dz_bit (set_sta ad p si) n \<longleftrightarrow> dz_bit ad n" "tim_bit (set_sta ad p si) n \<longleftrightarrow> tim_bit ad n"
  "dz_bit (request_of ad r) n \<longleftrightarrow> dz_bit ad n" "tim_bit (request_of ad r) n \<longleftrightarrow> tim_bit ad n"
  "dz_bit (ad\<lparr>xmitpriv := xp\<rparr>) n \<longleftrightarrow> dz_bit ad n" "tim_bit (ad\<lparr>xmitpriv := xp\<rparr>) n \<longleftrightarrow> tim_bit ad n"
  using bit_imp_le_length [of "sta_dz_bitmap (stapriv ad)" n] bit_imp_le_length [of "tim_bitmap (stapriv ad)" n]
  by (auto simp: dz_bit_iff tim_bit_iff set_dz_def clear_dz_def set_tim_def clear_tim_def
      request_of_def bit_or_iff bit_and_iff bit_not_iff bit_aid_bit)

text \<open>Changes that no queue depends on.\<close>

definition same_core :: "adapter \<Rightarrow> adapter \<Rightarrow> bool" where
  "same_core ad ad' \<longleftrightarrow> (\<forall>q. sta_of ad' q = sta_of ad q) \<and> xmitpriv ad' = xmitpriv ad \<and>
     fw_state ad' = fw_state ad \<and> hiq_filter ad' = hiq_filter ad \<and> wifi_spec ad' = wifi_spec ad \<and>
     sta_hash (stapriv ad') = sta_hash (stapriv ad)"

lemma same_core_ops [simp]:
  "same_core ad (set_dz ad a)" "same_core ad (clear_dz ad a)" "same_core ad (set_tim ad a)"
  "same_core ad (clear_tim ad a)" "same_core ad (request_of ad r)" "same_core ad ad"
  by (simp_all add: same_core_def set_dz_def clear_dz_def set_tim_def clear_tim_def request_of_def sta_of_def)

lemma same_core_right [simp]:
  "same_core ad (set_dz ad1 a) = same_core ad ad1" "same_core ad (clear_dz ad1 a) = same_core ad ad1"
  "same_core ad (set_tim ad1 a) = same_core ad ad1" "same_core ad (clear_tim ad1 a) = same_core ad ad1"
  "same_core ad (request_of ad1 r) = same_core ad ad1"
  by (simp_all add: same_core_def set_dz_def clear_dz_def set_tim_def clear_tim_def request_of_def sta_of_def)

lemma sta_of_ops [simp]:
  "sta_of (set_dz ad a) q = sta_of ad q" "sta_of (clear_dz ad a) q = sta_of ad q"
  "sta_of (set_tim ad a) q = sta_of ad q" "sta_of (clear_tim ad a) q = sta_of ad q"
  "sta_of (request_of ad r) q = sta_of ad q"
  by (simp_all add: set_dz_def clear_dz_def set_tim_def clear_tim_def request_of_def sta_of_def)

lemma same_core_trans [trans]: "same_core ad ad1 \<Longrightarrow> same_core ad1 ad2 \<Longrightarrow> same_core ad ad2"
  by (simp add: same_core_def)

lemma same_core_env: "same_core ad ad' \<Longrightarrow> same_env ad ad'"
  by (simp add: same_core_def same_env_def linked_def)

lemma same_core_views:
  assumes "same_core ad ad'"
  shows "pend ad' p ac = pend ad p ac" "slp ad' p = slp ad p" "linked ad' p = linked ad p"
    "asleep ad' p = asleep ad p" "all_ids ad' = all_ids ad"
proof -
  show v: "pend ad' p ac = pend ad p ac" "slp ad' p = slp ad p" "linked ad' p = linked ad p"
    "asleep ad' p = asleep ad p" for p ac
    using assms by (simp_all add: same_core_def pend_def slp_def linked_def asleep_def)
  show "all_ids ad' = all_ids ad"
    using assms by (simp add: all_ids_def ids_at_def v pool_ids_def same_core_def)
qed

lemma same_core_ok:
  assumes "same_core ad ad'" and "queues_ok b ad"
  shows "queues_ok b ad'"
  using assms same_env_bcmc [OF same_core_env [OF assms(1)]] same_core_views [OF assms(1)]
  by (simp add: queues_ok_def sta_queues_ok_def sched_ok_def check_fwstate_def same_core_def)

section \<open>A frame is buffered\<close>

text \<open>A station without U-APSD.\<close>

definition legacy :: "adapter \<Rightarrow> nat \<Rightarrow> bool" where
  "legacy ad p \<longleftrightarrow> (let si = sta_of ad p in si_has_legacy_ac si \<and> si_uapsd_bk si = 0 \<and>
     si_uapsd_be si = 0 \<and> si_uapsd_vi si = 0 \<and> si_uapsd_vo si = 0)"

lemma legacy_wmm: "legacy ad p \<Longrightarrow> \<not> wmmps_ac (sta_of ad p) up n"
  by (simp add: legacy_def wmmps_ac_def Let_def)

lemma same_env_legacy: "same_env ad ad' \<Longrightarrow> legacy ad' p = legacy ad p"
  by (simp add: legacy_def same_env_def Let_def)

text \<open>Bits of the traffic indication map: what buffering frames \<open>fs\<close> for \<open>p\<close> sets.\<close>

definition tim_set :: "adapter \<Rightarrow> nat \<Rightarrow> xmit_frame list \<Rightarrow> adapter \<Rightarrow> bool" where
  "tim_set ad p fs ad' \<longleftrightarrow> (\<forall>n. tim_bit ad n \<longrightarrow> tim_bit ad' n) \<and>
     (\<forall>n. 0 < n \<and> n \<noteq> si_aid (sta_of ad p) \<longrightarrow> tim_bit ad' n = tim_bit ad n) \<and>
     (fs = [] \<longrightarrow> (\<forall>n. tim_bit ad' n = tim_bit ad n)) \<and>
     (legacy ad p \<and> si_aid (sta_of ad p) < 16 \<and> (\<exists>ra \<in> set (map (\<lambda>f. px_ra (xf_attrib f)) fs). \<not> IS_MCAST ra) \<longrightarrow>
        tim_bit ad' (si_aid (sta_of ad p)))"

lemma tim_set_Nil [simp]: "tim_set ad p [] ad"
  by (simp add: tim_set_def)

lemma tim_set_append:
  "same_env ad ad1 \<Longrightarrow> tim_set ad p fs ad1 \<Longrightarrow> tim_set ad1 p gs ad2 \<Longrightarrow> tim_set ad p (fs @ gs) ad2"
  unfolding tim_set_def same_env_legacy [of ad ad1] by (auto simp: same_env_def)

lemma tim_set_ra:
  "map (\<lambda>f. px_ra (xf_attrib f)) fs = map (\<lambda>f. px_ra (xf_attrib f)) gs \<Longrightarrow>
   tim_set ad p fs ad' = tim_set ad p gs ad'"
proof -
  assume m: "map (\<lambda>f. px_ra (xf_attrib f)) fs = map (\<lambda>f. px_ra (xf_attrib f)) gs"
  then have "(fs = []) = (gs = [])" by (metis map_is_Nil_conv)
  then show ?thesis unfolding tim_set_def m by (simp only:)
qed

lemma tim_set_cong:
  "\<forall>n. tim_bit ad2 n = tim_bit ad1 n \<Longrightarrow> tim_set ad p fs ad2 = tim_set ad p fs ad1"
  by (simp add: tim_set_def)

definition buffered :: "adapter \<Rightarrow> nat \<Rightarrow> xmit_frame \<Rightarrow> adapter \<Rightarrow> bool" where
  "buffered ad p f ad' \<longleftrightarrow>
     (\<exists>si. sleep_edit ad p si \<and> si_sleep_q si = slp ad p @ [f] \<and>
        si_sleepq_len si = si_sleepq_len (sta_of ad p) + 1 \<and> same_core (set_sta ad p si) ad') \<and>
     (\<forall>n. 0 < n \<longrightarrow> dz_bit ad' n = dz_bit ad n) \<and> (dz_bit ad 0 \<longrightarrow> dz_bit ad' 0) \<and>
     tim_set ad p [f] ad'"

definition will_buffer :: "nat \<Rightarrow> adapter \<Rightarrow> nat \<Rightarrow> bool" where
  "will_buffer b ad p \<longleftrightarrow> (if p = b then sta_dz_bitmap (stapriv ad) \<noteq> 0
     else asleep ad p \<and> dz_bit ad (si_aid (sta_of ad p)))"

lemma sleeping_sta_buffers:
  assumes "check_fwstate ad WIFI_AP_STATE" and "frame_ok b p f" and "linked ad p"
    and "\<not> px_triggered (xf_attrib f)" and "will_buffer b ad p"
  shows "\<exists>ad'. xmitframe_enqueue_for_sleeping_sta ad f = (True, f, ad') \<and> buffered ad p f ad'"
proof (cases "p = b")
  case True
  let ?si = "(sta_of ad p)\<lparr>si_sleep_q := si_sleep_q (sta_of ad p) @ [f], si_sleepq_len := si_sleepq_len (sta_of ad p) + 1\<rparr>"
  let ?ad' = "request_of (set_dz (set_tim (set_sta ad p ?si) 0) 0)
      (if \<not> tim_bit ad 0 then UpdateBeaconTim else ChkBmcSleepq)"
  have "xmitframe_enqueue_for_sleeping_sta ad f = (True, f, ?ad')"
    using assms True
    by (simp add: xmitframe_enqueue_for_sleeping_sta_def frame_sta_def frame_ok_def linked_def
        will_buffer_def Let_def)
  moreover have "same_core (set_sta ad p ?si) ?ad'"
    by (simp add: same_core_def set_dz_def set_tim_def request_of_def sta_of_def)
  moreover have "sleep_edit ad p ?si" by (simp add: sleep_edit_def get_servq_def)
  moreover have "tim_set ad p [f] ?ad'" using assms(2) True by (auto simp: tim_set_def frame_ok_def)
  ultimately show ?thesis unfolding buffered_def
    by (intro exI [of _ ?ad'] conjI exI [of _ ?si]) (simp_all add: slp_def)
next
  case False
  let ?w = "wmmps_ac (sta_of ad p) (px_priority (xf_attrib f)) 0"
  let ?si = "(sta_of ad p)\<lparr>si_sleep_q := si_sleep_q (sta_of ad p) @ [f],
     si_sleepq_len := si_sleepq_len (sta_of ad p) + 1,
     si_sleepq_ac_len := (if ?w then si_sleepq_ac_len (sta_of ad p) + 1 else si_sleepq_ac_len (sta_of ad p))\<rparr>"
  let ?aid = "si_aid (sta_of ad p)"
  let ?ad' = "if si_has_legacy_ac (sta_of ad p) \<and> \<not> ?w \<or> \<not> si_has_legacy_ac (sta_of ad p) \<and> ?w then
      let ad2 = set_tim (set_sta ad p ?si) ?aid
      in (if \<not> tim_bit ad ?aid then request_of ad2 UpdateBeaconTim else ad2) else set_sta ad p ?si"
  have "xmitframe_enqueue_for_sleeping_sta ad f = (True, f, ?ad')"
    using assms False
    by (simp add: xmitframe_enqueue_for_sleeping_sta_def frame_sta_def frame_ok_def linked_def
        will_buffer_def Let_def asleep_def)
  moreover have "same_core (set_sta ad p ?si) ?ad'"
    by (simp add: Let_def)
  moreover have "sleep_edit ad p ?si" by (simp add: sleep_edit_def get_servq_def)
  moreover have "tim_set ad p [f] ?ad'"
    using legacy_wmm [of ad p] by (auto simp: tim_set_def Let_def legacy_def)
  ultimately show ?thesis unfolding buffered_def
    by (intro exI [of _ ?ad'] conjI exI [of _ ?si]) (simp_all add: slp_def Let_def)
qed

lemma buffered_ok:
  assumes ok: "queues_ok b ad" and bu: "buffered ad p f ad'" and p: "p < NUM_STA" "linked ad p"
    and a: "p \<noteq> b \<Longrightarrow> asleep ad p" and f: "frame_ok b p f"
  shows "queues_ok b ad'" and "all_ids ad' = add_mset (frame_key f) (all_ids ad)"
    and "same_env ad ad'"
proof -
  obtain si where si: "sleep_edit ad p si" "si_sleep_q si = slp ad p @ [f]"
    "si_sleepq_len si = si_sleepq_len (sta_of ad p) + 1" "same_core (set_sta ad p si) ad'"
    using bu by (auto simp: buffered_def)
  have s: "sta_queues_ok b ad p" using ok by (simp add: queues_ok_def)
  have "queues_ok b (set_sta ad p si)"
    by (rule sleep_edit_ok [OF ok si(1)]) (use s si f p a in \<open>auto simp: sta_queues_ok_def\<close>)
  then show "queues_ok b ad'" by (rule same_core_ok [OF si(4)])
  show "all_ids ad' = add_mset (frame_key f) (all_ids ad)"
    using sleep_edit_ids [OF si(1) p(1)] same_core_views(5) [OF si(4)] si(2) by simp
  show "same_env ad ad'"
    using sleep_edit_env [OF si(1)] same_core_env [OF si(4)] by (rule same_env_trans)
qed

section \<open>A station falls asleep\<close>

definition untriggered :: "xmit_frame \<Rightarrow> xmit_frame" where
  "untriggered f = f\<lparr>xf_attrib := (xf_attrib f)\<lparr>px_triggered := False\<rparr>\<rparr>"

lemma untriggered_simps [simp]:
  "frame_key (untriggered f) = frame_key f" "frame_class (untriggered f) = frame_class f"
  "frame_ok b p (untriggered f) = frame_ok b p f" "\<not> px_triggered (xf_attrib (untriggered f))"
  by (simp_all add: untriggered_def frame_class_def frame_ok_def frame_key_def)

text \<open>The frames \<open>fs\<close> of station \<open>p\<close> have been appended to its sleep queue.\<close>

definition moved :: "adapter \<Rightarrow> nat \<Rightarrow> xmit_frame list \<Rightarrow> adapter \<Rightarrow> bool" where
  "moved ad p fs ad' \<longleftrightarrow>
     (\<forall>q. q \<noteq> p \<longrightarrow> sta_of ad' q = sta_of ad q) \<and> slp ad' p = slp ad p @ map untriggered fs \<and>
     si_sleepq_len (sta_of ad' p) = si_sleepq_len (sta_of ad p) + of_nat (length fs) \<and>
     si_state (sta_of ad' p) = si_state (sta_of ad p) \<and>
     (\<forall>ac<4. pend ad' p ac = pend ad p ac \<and>
        sv_qcnt (get_servq (sta_of ad' p) ac) =
          sv_qcnt (get_servq (sta_of ad p) ac) - int (length (filter (\<lambda>f. frame_class f = ac) fs))) \<and>
     hw_sta_queue (xmitpriv ad') = hw_sta_queue (xmitpriv ad) \<and>
     xmit_pool (xmitpriv ad') = xmit_pool (xmitpriv ad) \<and>
     (\<forall>ac<4. hwxmits_accnt (xmitpriv ad') ac =
        hwxmits_accnt (xmitpriv ad) ac - int (length (filter (\<lambda>f. frame_class f = ac) fs))) \<and>
     same_env ad ad' \<and> (\<forall>n. 0 < n \<longrightarrow> dz_bit ad' n = dz_bit ad n) \<and> (dz_bit ad 0 \<longrightarrow> dz_bit ad' 0) \<and>
     tim_set ad p fs ad'"

lemma moved_Nil [simp]: "moved ad p [] ad"
  by (simp add: moved_def)

lemma some_dz: "sta_dz_bitmap (stapriv ad) \<noteq> 0 \<longleftrightarrow> (\<exists>n. dz_bit ad n)"
  using bit_imp_le_length [of "sta_dz_bitmap (stapriv ad)"] by (auto simp: dz_bit_iff bit_eq_iff)

lemma moved_will_buffer:
  assumes "moved ad p fs ad'" and "will_buffer b ad p" and "p \<noteq> b \<Longrightarrow> 0 < si_aid (sta_of ad p)"
  shows "will_buffer b ad' p"
proof (cases "p = b")
  case True
  then obtain n where "dz_bit ad n" using assms(2) by (auto simp: will_buffer_def some_dz)
  then have "dz_bit ad' n" using assms(1) by (cases "n = 0") (auto simp: moved_def)
  then show ?thesis using True by (auto simp: will_buffer_def some_dz)
next
  case False
  then show ?thesis using assms by (auto simp: will_buffer_def moved_def same_env_def asleep_def)
qed

lemma move_one:
  assumes "buffered ad p (untriggered f) ad1"
  defines "ac \<equiv> frame_class f"
  defines "ad2 \<equiv> set_sta ad1 p (set_servq (sta_of ad1 p) ac ((get_servq (sta_of ad1 p) ac)\<lparr>sv_qcnt :=
      sv_qcnt (get_servq (sta_of ad1 p) ac) - 1\<rparr>))"
  shows "moved ad p [f] (ad2\<lparr>xmitpriv := (xmitpriv ad1)\<lparr>hwxmits_accnt :=
      (hwxmits_accnt (xmitpriv ad1))(ac := hwxmits_accnt (xmitpriv ad1) ac - 1)\<rparr>\<rparr>)"
proof -
  obtain si where si: "sleep_edit ad p si" "si_sleep_q si = slp ad p @ [untriggered f]"
    "si_sleepq_len si = si_sleepq_len (sta_of ad p) + 1" "same_core (set_sta ad p si) ad1"
    using assms(1) by (auto simp: buffered_def)
  have sta: "sta_of ad1 q = (if q = p then si else sta_of ad q)" for q
    using si(4) by (simp add: same_core_def)
  have rest: "xmitpriv ad1 = xmitpriv ad" "fw_state ad1 = fw_state ad" "hiq_filter ad1 = hiq_filter ad"
    "wifi_spec ad1 = wifi_spec ad" "sta_hash (stapriv ad1) = sta_hash (stapriv ad)"
    using si(4) by (simp_all add: same_core_def)
  have acl: "ac < 4" by (simp add: ac_def)
  have servq: "get_servq si ac' = get_servq (sta_of ad p) ac'" if "ac' < 4" for ac'
    using si(1) that by (simp add: sleep_edit_def)
  have e: "si_state si = si_state (sta_of ad p)" "si_hwaddr si = si_hwaddr (sta_of ad p)"
    "si_aid si = si_aid (sta_of ad p)" "si_has_legacy_ac si = si_has_legacy_ac (sta_of ad p)"
    "si_uapsd_bk si = si_uapsd_bk (sta_of ad p)" "si_uapsd_be si = si_uapsd_be (sta_of ad p)"
    "si_uapsd_vi si = si_uapsd_vi (sta_of ad p)" "si_uapsd_vo si = si_uapsd_vo (sta_of ad p)"
    using si(1) by (simp_all add: sleep_edit_def)
  have "tim_set ad p [untriggered f] ad1" using assms(1) by (simp add: buffered_def)
  then have "tim_set ad p [f] ad1" using tim_set_ra [of "[untriggered f]" "[f]"] by (simp add: untriggered_def)
  then have tim: "tim_set ad p [f] (ad2\<lparr>xmitpriv := (xmitpriv ad1)\<lparr>hwxmits_accnt :=
      (hwxmits_accnt (xmitpriv ad1))(ac := hwxmits_accnt (xmitpriv ad1) ac - 1)\<rparr>\<rparr>)"
    by (subst tim_set_cong [of _ ad1]) (simp_all add: ad2_def)
  show ?thesis
    using assms(1) acl si(2,3) tim
    unfolding moved_def ad2_def buffered_def same_env_def linked_def slp_def pend_def
    by (simp add: sta rest e servq xmit_pool_def ac_def [symmetric] slp_def)
qed

lemma moved_trans:
  assumes "moved ad p [f] ad1" and "moved ad1 p fs ad2"
  shows "moved ad p (f # fs) ad2"
  using assms tim_set_append [of ad ad1 p "[f]" fs ad2] unfolding moved_def by (auto intro: same_env_trans)

lemma to_sleeping_moves:
  assumes "\<forall>f \<in> set fs. frame_ok b p f" and "linked ad p" and "check_fwstate ad WIFI_AP_STATE"
    and "will_buffer b ad p" and "p \<noteq> b \<Longrightarrow> 0 < si_aid (sta_of ad p)"
  shows "\<exists>ad'. to_sleeping_loop ad p fs = ([], ad') \<and> moved ad p fs ad'"
  using assms
proof (induction fs arbitrary: ad)
  case Nil
  then show ?case by simp
next
  case (Cons f fs)
  obtain ad1 where q: "xmitframe_enqueue_for_sleeping_sta ad (untriggered f) = (True, untriggered f, ad1)"
    and bu: "buffered ad p (untriggered f) ad1"
    using sleeping_sta_buffers [of ad b p "untriggered f"] Cons.prems by auto
  let ?ad2 = "set_sta ad1 p (set_servq (sta_of ad1 p) (frame_class f)
      ((get_servq (sta_of ad1 p) (frame_class f))\<lparr>sv_qcnt := sv_qcnt (get_servq (sta_of ad1 p) (frame_class f)) - 1\<rparr>))"
  let ?ad3 = "?ad2\<lparr>xmitpriv := (xmitpriv ad1)\<lparr>hwxmits_accnt := (hwxmits_accnt (xmitpriv ad1))
      (frame_class f := hwxmits_accnt (xmitpriv ad1) (frame_class f) - 1)\<rparr>\<rparr>"
  have "moved ad p [f] ?ad3" by (rule move_one [OF bu])
  moreover have "to_sleeping_loop ad p (f # fs) = to_sleeping_loop ?ad3 p fs"
    using q by (simp add: untriggered_def [symmetric] Let_def frame_class_def [symmetric])
  ultimately obtain ad3 where m: "moved ad p [f] ad3"
    and loop: "to_sleeping_loop ad p (f # fs) = to_sleeping_loop ad3 p fs" by blast
  have env: "same_env ad ad3" using m by (simp add: moved_def)
  have "\<exists>ad'. to_sleeping_loop ad3 p fs = ([], ad') \<and> moved ad3 p fs ad'"
  proof (rule Cons.IH)
    show "linked ad3 p" "check_fwstate ad3 WIFI_AP_STATE" "p \<noteq> b \<Longrightarrow> 0 < si_aid (sta_of ad3 p)"
      using Cons.prems env by (simp_all add: same_env_def check_fwstate_def)
    show "will_buffer b ad3 p" by (rule moved_will_buffer [OF m Cons.prems(4,5)])
  qed (use Cons.prems(1) in simp)
  then obtain ad' where "to_sleeping_loop ad3 p fs = ([], ad')" "moved ad3 p fs ad'" by blast
  then show ?case using moved_trans [OF m] loop by auto
qed

lemma sum_swap_mset:
  assumes "ac < (4 :: nat)" and "\<And>k. k < 4 \<Longrightarrow> A k = (if k = ac then {#} else B k)"
  shows "B ac + (\<Sum>k<4. A k) = (\<Sum>k<4. B k :: 'a multiset)"
proof -
  have "(\<Sum>k<4. B k) = B ac + (\<Sum>k\<in>{..<4} - {ac}. B k)" using assms(1) by (simp add: sum.remove)
  moreover have "(\<Sum>k<4. A k) = A ac + (\<Sum>k\<in>{..<4} - {ac}. A k)" using assms(1) by (simp add: sum.remove)
  moreover have "(\<Sum>k\<in>{..<4} - {ac}. A k) = (\<Sum>k\<in>{..<4} - {ac}. B k)"
    by (rule sum.cong) (auto simp: assms(2))
  ultimately show ?thesis using assms by simp
qed

lemma all_ids_local:
  assumes "pool_ids ad' = pool_ids ad" and "\<And>q. q \<noteq> p \<Longrightarrow> sta_of ad' q = sta_of ad q"
    and "ids_at ad' p = ids_at ad p"
  shows "all_ids ad' = all_ids ad"
proof -
  have "ids_at ad' q = ids_at ad q" for q
    using assms(2,3) by (cases "q = p") (simp_all add: ids_at_def slp_def pend_def)
  then show ?thesis using assms(1) by (simp add: all_ids_def)
qed

lemma stop_ac_effect:
  assumes ok: "queues_ok b ad" and p: "p < NUM_STA" "linked ad p" and wb: "will_buffer b ad p"
    and aid: "p \<noteq> b \<Longrightarrow> 0 < si_aid (sta_of ad p) \<and> asleep ad p" and ac: "ac < 4"
  defines "ad' \<equiv> stop_ac p ac ad"
  shows "queues_ok b ad'" and "all_ids ad' = all_ids ad" and "same_env ad ad'"
    and "\<And>q k. k < 4 \<Longrightarrow> pend ad' q k = (if q = p \<and> k = ac then [] else pend ad q k)"
    and "\<And>q. slp ad' q = (if q = p then slp ad p @ map untriggered (pend ad p ac) else slp ad q)"
    and "\<And>q. si_state (sta_of ad' q) = si_state (sta_of ad q)"
    and "\<And>n. 0 < n \<Longrightarrow> dz_bit ad' n = dz_bit ad n" and "dz_bit ad 0 \<Longrightarrow> dz_bit ad' 0"
    and "tim_set ad p (pend ad p ac) ad'"
proof -
  have s: "sta_queues_ok b ad p" and ap: "check_fwstate ad WIFI_AP_STATE"
    using ok by (simp_all add: queues_ok_def)
  define fs where "fs = pend ad p ac"
  have fs: "\<forall>f \<in> set fs. frame_ok b p f" "\<forall>f \<in> set fs. frame_class f = ac"
    using s ac by (simp_all add: fs_def sta_queues_ok_def)
  obtain ad1 where loop: "to_sleeping_loop ad p fs = ([], ad1)" and m: "moved ad p fs ad1"
    using to_sleeping_moves [OF fs(1) p(2) ap wb] aid by blast
  define si where "si = set_servq (sta_of ad1 p) ac ((get_servq (sta_of ad1 p) ac)\<lparr>sv_pending := []\<rparr>)"
  have ad': "ad' = (set_sta ad1 p si)\<lparr>xmitpriv := (xmitpriv ad1)\<lparr>hw_sta_queue :=
      (hw_sta_queue (xmitpriv ad1))(ac := removeAll p (hw_sta_queue (xmitpriv ad1) ac))\<rparr>\<rparr>"
    unfolding ad'_def stop_ac_def dequeue_xmitframes_to_sleeping_queue_def
    using loop by (simp add: fs_def pend_def si_def Let_def)
  have cnt: "length (filter (\<lambda>f. frame_class f = k) fs) = (if k = ac then length fs else 0)" for k
    using fs(2) by (induction fs) auto
  have sta: "sta_of ad' q = (if q = p then si else sta_of ad q)" for q
    using m by (simp add: ad' moved_def)
  have si_p: "si_state si = si_state (sta_of ad p)" "si_sleep_q si = slp ad p @ map untriggered fs"
    "si_sleepq_len si = si_sleepq_len (sta_of ad p) + of_nat (length fs)"
    using m by (simp_all add: si_def moved_def slp_def)
  have servq: "get_servq si k = (if k = ac then (get_servq (sta_of ad1 p) ac)\<lparr>sv_pending := []\<rparr>
      else get_servq (sta_of ad1 p) k)" if "k < 4" for k
    using that ac by (simp add: si_def)
  show env: "same_env ad ad'" using m by (auto simp: moved_def same_env_def ad' si_def linked_def)
  show pd: "pend ad' q k = (if q = p \<and> k = ac then [] else pend ad q k)" if "k < 4" for q k
  proof (cases "q = p")
    case True
    have "pend ad1 p k = pend ad p k" using m that by (simp add: moved_def)
    then show ?thesis using True servq [OF that] by (simp add: pend_def sta)
  qed (simp add: pend_def sta)
  show sl: "slp ad' q = (if q = p then slp ad p @ map untriggered (pend ad p ac) else slp ad q)" for q
    by (simp add: slp_def sta si_p) (simp add: slp_def fs_def)
  show st: "si_state (sta_of ad' q) = si_state (sta_of ad q)" for q by (simp add: sta si_p)
  show dz: "\<And>n. 0 < n \<Longrightarrow> dz_bit ad' n = dz_bit ad n" "dz_bit ad 0 \<Longrightarrow> dz_bit ad' 0"
    "tim_set ad p (pend ad p ac) ad'"
    using m tim_set_cong [of ad' ad1 ad p fs] by (simp_all add: ad' moved_def fs_def)
  have qc: "sv_qcnt (get_servq (sta_of ad' p) k) = int (length (pend ad' p k))" if "k < 4" for k
  proof -
    have "sv_qcnt (get_servq (sta_of ad1 p) k) =
        sv_qcnt (get_servq (sta_of ad p) k) - (if k = ac then int (length fs) else 0)"
      using m that by (simp add: moved_def cnt)
    moreover have "sv_qcnt (get_servq (sta_of ad p) k) = int (length (pend ad p k))"
      using s that by (simp add: sta_queues_ok_def)
    ultimately show ?thesis using servq [OF that] that by (cases "k = ac") (simp_all add: sta pd fs_def)
  qed
  have "sta_queues_ok b ad' q" for q
  proof (cases "q = p")
    case True
    have "linked ad' p" "asleep ad' p = asleep ad p" using p st by (simp_all add: linked_def asleep_def)
    moreover have "\<forall>k<4. \<forall>f\<in>set (pend ad' p k). frame_ok b p f \<and> frame_class f = k"
      using s by (auto simp: sta_queues_ok_def pd)
    moreover have "si_sleepq_len (sta_of ad' p) = of_nat (length (slp ad' p))"
      using s by (simp add: sta_queues_ok_def sl sta si_p fs_def)
    ultimately show ?thesis using True s p aid qc fs
      by (auto simp: sta_queues_ok_def sl fs_def simp del: all_simps ex_simps)
  next
    case False
    then show ?thesis using ok
      by (simp add: queues_ok_def sta_queues_ok_def slp_def pend_def sta linked_def asleep_def)
  qed
  moreover have "sched_ok ad' k" if k: "k < 4" for k
  proof -
    have o: "sched_ok ad k" using ok k by (simp add: queues_ok_def)
    have "(\<Sum>q<NUM_STA. int (length (pend ad' q k))) =
        (\<Sum>q<NUM_STA. int (length (pend ad q k))) - (if k = ac then int (length fs) else 0)"
    proof -
      have "(\<Sum>q<NUM_STA. int (length (pend ad q k))) = (\<Sum>q<NUM_STA. if q = p
          then int (length (pend ad' q k)) + (if k = ac then int (length fs) else 0)
          else int (length (pend ad' q k)))"
        by (rule sum.cong) (auto simp: pd [OF k] fs_def)
      then show ?thesis using sum_upd_one [OF p(1), of "\<lambda>q. int (length (pend ad' q k))"] by simp
    qed
    moreover have "hwxmits_accnt (xmitpriv ad') k =
        hwxmits_accnt (xmitpriv ad) k - (if k = ac then int (length fs) else 0)"
      using m k by (simp add: ad' moved_def cnt)
    moreover have "hw_sta_queue (xmitpriv ad') k =
        (if k = ac then removeAll p (hw_sta_queue (xmitpriv ad) ac) else hw_sta_queue (xmitpriv ad) k)"
      using m by (simp add: ad' moved_def)
    ultimately show ?thesis using o by (auto simp: sched_ok_def pd [OF k] distinct_removeAll)
  qed
  ultimately show "queues_ok b ad'"
    using ok same_env_bcmc [OF env] env by (simp add: queues_ok_def check_fwstate_def same_env_def)
  show "all_ids ad' = all_ids ad"
  proof (rule all_ids_local [of _ _ p])
    show "pool_ids ad' = pool_ids ad" using m by (simp add: ad' moved_def pool_ids_def xmit_pool_def)
    show "sta_of ad' q = sta_of ad q" if "q \<noteq> p" for q using that by (simp add: sta)
    show "ids_at ad' p = ids_at ad p"
    proof -
      have "image_mset frame_key (mset (pend ad p ac)) + (\<Sum>k<4. image_mset frame_key (mset (pend ad' p k))) =
          (\<Sum>k<4. image_mset frame_key (mset (pend ad p k)))"
        by (rule sum_swap_mset [OF ac]) (simp add: pd)
      then show ?thesis by (simp add: ids_at_def sl multiset.map_comp comp_def add.assoc)
    qed
  qed
qed

lemma state_bits:
  "linked ad p \<longleftrightarrow> bit (si_state (sta_of ad p)) 0" "asleep ad p \<longleftrightarrow> bit (si_state (sta_of ad p)) 2"
proof -
  have f: "FW_LINKED = 2 ^ 0" "WIFI_SLEEP_STATE = 2 ^ 2"
    by (simp_all add: FW_LINKED_def WIFI_SLEEP_STATE_def)
  show "linked ad p \<longleftrightarrow> bit (si_state (sta_of ad p)) 0"
    unfolding linked_def f and_exp_eq_0_iff_not_bit by simp
  show "asleep ad p \<longleftrightarrow> bit (si_state (sta_of ad p)) 2"
    unfolding asleep_def f and_exp_eq_0_iff_not_bit by simp
qed

text \<open>The state word of a station changes, its queues do not.\<close>

lemma state_edit_ok:
  assumes ok: "queues_ok b ad" and l: "bit st 0 \<longleftrightarrow> linked ad p"
    and a: "slp ad p \<noteq> [] \<and> p \<noteq> b \<Longrightarrow> bit st 2"
    and si: "get_servq si = get_servq (sta_of ad p)" "si_sleep_q si = si_sleep_q (sta_of ad p)"
      "si_sleepq_len si = si_sleepq_len (sta_of ad p)" "si_state si = st"
      "si_hwaddr si = si_hwaddr (sta_of ad p)"
      "si_aid si = si_aid (sta_of ad p)" "si_has_legacy_ac si = si_has_legacy_ac (sta_of ad p)"
      "si_uapsd_bk si = si_uapsd_bk (sta_of ad p)" "si_uapsd_be si = si_uapsd_be (sta_of ad p)"
      "si_uapsd_vi si = si_uapsd_vi (sta_of ad p)" "si_uapsd_vo si = si_uapsd_vo (sta_of ad p)"
  shows "queues_ok b (set_sta ad p si)" and "all_ids (set_sta ad p si) = all_ids ad"
    and "same_env ad (set_sta ad p si)"
    and "pend (set_sta ad p si) q k = pend ad q k" and "slp (set_sta ad p si) q = slp ad q"
    and "asleep (set_sta ad p si) q = (if q = p then bit st 2 else asleep ad q)"
proof -
  let ?ad = "set_sta ad p si"
  show pd: "pend ?ad q k = pend ad q k" for q k using si by (simp add: pend_def)
  show sl: "slp ?ad q = slp ad q" for q using si by (simp add: slp_def)
  show as: "asleep ?ad q = (if q = p then bit st 2 else asleep ad q)" for q
    using si by (simp add: state_bits)
  have li: "linked ?ad q = linked ad q" for q using l si by (simp add: state_bits)
  show env: "same_env ad ?ad" using si li by (simp add: same_env_def)
  have "sta_queues_ok b ?ad q" for q
  proof -
    have "sta_queues_ok b ad q" using ok by (simp add: queues_ok_def)
    then show ?thesis using a si
      by (cases "q = p") (simp_all add: sta_queues_ok_def pd sl li as)
  qed
  then show "queues_ok b ?ad"
    using ok same_env_bcmc [OF env] by (simp add: queues_ok_def sched_ok_def pd check_fwstate_def)
  show "all_ids ?ad = all_ids ad" by (simp add: all_ids_def ids_at_def pd sl pool_ids_def)
qed

text \<open>What the four queues of a station that falls asleep hold, in the order of the blocks.\<close>

definition all_pending :: "adapter \<Rightarrow> nat \<Rightarrow> xmit_frame list" where
  "all_pending ad p = pend ad p 0 @ pend ad p 1 @ pend ad p 2 @ pend ad p 3"

text \<open>A station power saving works for: a linked one with an association id of its own.\<close>

definition ps_sta :: "nat \<Rightarrow> adapter \<Rightarrow> nat \<Rightarrow> bool" where
  "ps_sta b ad p \<longleftrightarrow> p < NUM_STA \<and> p \<noteq> b \<and> linked ad p \<and>
     0 < si_aid (sta_of ad p) \<and> si_aid (sta_of ad p) < 16"

lemma ps_sta_env: "same_env ad ad' \<Longrightarrow> ps_sta b ad' p = ps_sta b ad p"
  by (simp add: ps_sta_def same_env_def)

lemma stop_sta_xmit_effect:
  assumes ok: "queues_ok b ad" and p: "ps_sta b ad p" and b: "b < NUM_STA" "linked ad b"
  shows "\<exists>ad'. stop_sta_xmit ad p = Some ad' \<and> queues_ok b ad' \<and> all_ids ad' = all_ids ad \<and>
    same_env ad ad' \<and>
    (\<forall>q. \<forall>k<4. pend ad' q k = (if q = p \<or> q = b \<and> k = 2 then [] else pend ad q k)) \<and>
    (\<forall>q. slp ad' q = (if q = p then slp ad p @ map untriggered (all_pending ad p)
       else if q = b then slp ad b @ map untriggered (pend ad b 2) else slp ad q)) \<and>
    (\<forall>q. asleep ad' q = (asleep ad q \<or> q = p)) \<and>
    (\<forall>n. 0 < n \<longrightarrow> dz_bit ad' n = (dz_bit ad n \<or> n = si_aid (sta_of ad p))) \<and>
    (dz_bit ad 0 \<longrightarrow> dz_bit ad' 0) \<and>
    (\<forall>n. 0 < n \<and> n \<noteq> si_aid (sta_of ad p) \<and> n \<noteq> si_aid (sta_of ad b) \<longrightarrow> tim_bit ad' n = tim_bit ad n) \<and>
    (\<forall>n. tim_bit ad n \<longrightarrow> tim_bit ad' n) \<and>
    (si_aid (sta_of ad b) = 0 \<longrightarrow> legacy ad p \<longrightarrow>
       (tim_bit ad' (si_aid (sta_of ad p)) \<longleftrightarrow> tim_bit ad (si_aid (sta_of ad p)) \<or> all_pending ad p \<noteq> []))"
proof -
  let ?aid = "si_aid (sta_of ad p)"
  have p': "p < NUM_STA" "p \<noteq> b" "linked ad p" "0 < ?aid" "?aid < 16" using p by (simp_all add: ps_sta_def)
  define si where "si = (sta_of ad p)\<lparr>si_state := si_state (sta_of ad p) OR WIFI_SLEEP_STATE\<rparr>"
  define ad0 where "ad0 = set_sta ad p si"
  define ad1 where "ad1 = set_dz ad0 ?aid"
  have st: "bit (si_state (sta_of ad p) OR WIFI_SLEEP_STATE) 0 \<longleftrightarrow> linked ad p"
    "bit (si_state (sta_of ad p) OR WIFI_SLEEP_STATE) 2"
    by (simp_all add: state_bits bit_or_iff WIFI_SLEEP_STATE_def)
  have e0: "queues_ok b ad0" "all_ids ad0 = all_ids ad" "same_env ad ad0"
    "\<And>q k. pend ad0 q k = pend ad q k" "\<And>q. slp ad0 q = slp ad q"
    "\<And>q. asleep ad0 q = (asleep ad q \<or> q = p)"
    using state_edit_ok [OF ok st(1), of si] st(2) by (auto simp: ad0_def si_def get_servq_def fun_eq_iff)
  have core: "same_core ad0 ad1" by (simp add: ad1_def)
  note v1 = same_core_views [OF core]
  have ok1: "queues_ok b ad1" by (rule same_core_ok [OF core e0(1)])
  have env1: "same_env ad ad1" using e0(3) same_core_env [OF core] by (rule same_env_trans)
  have dz1: "dz_bit ad1 n \<longleftrightarrow> dz_bit ad n \<or> n = ?aid" for n using p'(5) by (auto simp: ad1_def ad0_def)
  have tim1: "tim_bit ad1 n = tim_bit ad n" for n by (simp add: ad1_def ad0_def)
  text \<open>One block for the station.\<close>
  have pre: "p < NUM_STA" "linked a p" "will_buffer b a p" "p \<noteq> b \<Longrightarrow> 0 < si_aid (sta_of a p) \<and> asleep a p"
    if "same_env ad a" "asleep a p" "dz_bit a ?aid" for a
    using that p' by (auto simp: same_env_def will_buffer_def)
  have S: "same_env ad (stop_ac p k a) \<and> asleep (stop_ac p k a) p \<and> dz_bit (stop_ac p k a) ?aid \<and>
      queues_ok b (stop_ac p k a)"
    if "same_env ad a" "asleep a p" "dz_bit a ?aid" "queues_ok b a" "k < 4" for a k
    using stop_ac_effect(1,3,6,7) [OF that(4) pre [OF that(1-3)] that(5)] that p'(4)
    by (auto simp: asleep_def intro: same_env_trans)
  define a1 a2 a3 a4 where "a1 = stop_ac p 0 ad1" and "a2 = stop_ac p 1 a1" and "a3 = stop_ac p 2 a2"
    and "a4 = stop_ac p 3 a3"
  have r1: "same_env ad ad1" "asleep ad1 p" "dz_bit ad1 ?aid" "queues_ok b ad1"
    using env1 ok1 by (simp_all add: v1 e0 dz1)
  have r2: "same_env ad a1" "asleep a1 p" "dz_bit a1 ?aid" "queues_ok b a1" using S [OF r1, of 0] by (simp_all add: a1_def)
  have r3: "same_env ad a2" "asleep a2 p" "dz_bit a2 ?aid" "queues_ok b a2" using S [OF r2, of 1] by (simp_all add: a2_def)
  have r4: "same_env ad a3" "asleep a3 p" "dz_bit a3 ?aid" "queues_ok b a3" using S [OF r3, of 2] by (simp_all add: a3_def)
  have r5: "same_env ad a4" "asleep a4 p" "dz_bit a4 ?aid" "queues_ok b a4" using S [OF r4, of 3] by (simp_all add: a4_def)
  note e1 = stop_ac_effect [OF r1(4) pre [OF r1(1-3)], of 0, folded a1_def, simplified]
  note e2 = stop_ac_effect [OF r2(4) pre [OF r2(1-3)], of 1, folded a2_def, simplified]
  note e3 = stop_ac_effect [OF r3(4) pre [OF r3(1-3)], of 2, folded a3_def, simplified]
  note e4 = stop_ac_effect [OF r4(4) pre [OF r4(1-3)], of 3, folded a4_def, simplified]
  have lb: "linked a4 b" using b(2) r5(1) by (simp add: same_env_def)
  have wb: "will_buffer b a4 b" using r5(3) by (auto simp: will_buffer_def some_dz)
  define a5 where "a5 = stop_ac b 2 a4"
  note e5 = stop_ac_effect [OF r5(4) b(1) lb wb, of 2, folded a5_def, simplified]
  have "stop_sta_xmit ad p = Some a5"
    using ok by (simp add: stop_sta_xmit_def queues_ok_def a5_def a4_def a3_def a2_def a1_def ad1_def
        ad0_def si_def Let_def)
  moreover have "all_ids a5 = all_ids ad" by (simp add: e1(2) e2(2) e3(2) e4(2) e5(2) v1 e0)
  moreover have "same_env ad a5" using r5(1) e5(3) by (rule same_env_trans)
  moreover have "pend a5 q k = (if q = p \<or> q = b \<and> k = 2 then [] else pend ad q k)" if "k < 4" for q k
  proof -
    have "k = 0 \<or> k = 1 \<or> k = 2 \<or> k = 3" using that by arith
    then show ?thesis by (auto simp: e1(4) e2(4) e3(4) e4(4) e5(4) v1 e0)
  qed
  moreover have "slp a5 q = (if q = p then slp ad p @ map untriggered (all_pending ad p)
       else if q = b then slp ad b @ map untriggered (pend ad b 2) else slp ad q)" for q
    using p'(2) by (auto simp: e1(4,5) e2(4,5) e3(4,5) e4(4,5) e5(4,5) v1 e0 all_pending_def)
  moreover have "asleep a5 q = (asleep ad q \<or> q = p)" for q
  proof -
    have "asleep a5 q = asleep ad1 q" by (simp add: asleep_def e1(6) e2(6) e3(6) e4(6) e5(6))
    then show ?thesis by (simp add: v1 e0)
  qed
  moreover have "0 < n \<Longrightarrow> dz_bit a5 n = (dz_bit ad n \<or> n = ?aid)" for n
    by (simp add: e1(7) e2(7) e3(7) e4(7) e5(7) dz1)
  moreover have "dz_bit ad 0 \<Longrightarrow> dz_bit a5 0" by (simp add: e1(8) e2(8) e3(8) e4(8) e5(8) dz1)
  moreover have T: "tim_set ad1 p (all_pending ad p) a4"
  proof -
    have env: "same_env ad1 a1" "same_env ad1 a2" "same_env ad1 a3"
      using e1(3) e2(3) e3(3) by (blast intro: same_env_trans)+
    note t1 = e1(9)
    note t2 = tim_set_append [OF env(1) t1 e2(9)]
    note t3 = tim_set_append [OF env(2) t2 e3(9)]
    note t4 = tim_set_append [OF env(3) t3 e4(9)]
    have "pend ad1 p 0 @ pend a1 p 1 @ pend a2 p 2 @ pend a3 p 3 = all_pending ad p"
      by (simp add: all_pending_def e1(4) e2(4) e3(4) v1 e0)
    then show ?thesis using t4 by simp
  qed
  have aids: "si_aid (sta_of a q) = si_aid (sta_of ad q)" if "same_env ad a" for a q
    using that by (simp add: same_env_def)
  have T5: "tim_set a4 b (pend a4 b 2) a5" by (rule e5(9))
  moreover have "tim_bit a5 n = tim_bit ad n" if "0 < n" "n \<noteq> ?aid" "n \<noteq> si_aid (sta_of ad b)" for n
    using T T5 that aids [OF env1] aids [OF r5(1)] by (simp add: tim_set_def tim1)
  moreover have "tim_bit ad n \<Longrightarrow> tim_bit a5 n" for n using T T5 by (simp add: tim_set_def tim1)
  moreover have "tim_bit a5 ?aid \<longleftrightarrow> tim_bit ad ?aid \<or> all_pending ad p \<noteq> []"
    if "si_aid (sta_of ad b) = 0" "legacy ad p"
  proof -
    have "tim_bit a5 ?aid = tim_bit a4 ?aid"
      using T5 that(1) p'(4) aids [OF r5(1)] by (simp add: tim_set_def)
    moreover have "\<not> IS_MCAST (px_ra (xf_attrib f))" if "f \<in> set (all_pending ad p)" for f
    proof -
      have "frame_ok b p f" using that pend_frame_ok [OF ok, of 0 f p]
        pend_frame_ok [OF ok, of 1 f p] pend_frame_ok [OF ok, of 2 f p] pend_frame_ok [OF ok, of 3 f p]
        by (auto simp: all_pending_def)
      then show ?thesis using p'(2) by (simp add: frame_ok_def)
    qed
    moreover have "legacy ad1 p" using same_env_legacy [OF env1] that(2) by simp
    ultimately show ?thesis using T p'(5) aids [OF env1] tim1
      by (cases "all_pending ad p") (auto simp: tim_set_def)
  qed
  ultimately show ?thesis using e5(1) by (intro exI [of _ a5]) simp
qed

section \<open>A station wakes up\<close>

text \<open>\<open>g\<close> is \<open>f\<close> after its release: the same frame, marked.\<close>

definition released :: "xmit_frame \<Rightarrow> xmit_frame \<Rightarrow> bool" where
  "released f g \<longleftrightarrow> xf_id g = xf_id f \<and> xf_alloc_addr g = xf_alloc_addr f \<and>
     px_psta (xf_attrib g) = px_psta (xf_attrib f) \<and> px_ra (xf_attrib g) = px_ra (xf_attrib f) \<and>
     px_priority (xf_attrib g) = px_priority (xf_attrib f) \<and> px_triggered (xf_attrib g)"

lemma released_class: "released f g \<Longrightarrow> frame_class g = frame_class f"
  by (simp add: released_def frame_class_def)

text \<open>The frames \<open>gs\<close> have been queued for station \<open>p\<close>, in order.\<close>

definition delivered :: "adapter \<Rightarrow> nat \<Rightarrow> xmit_frame list \<Rightarrow> adapter \<Rightarrow> bool" where
  "delivered ad p gs ad' \<longleftrightarrow>
     (\<forall>q. q \<noteq> p \<longrightarrow> sta_of ad' q = sta_of ad q) \<and> si_state (sta_of ad' p) = si_state (sta_of ad p) \<and>
     (\<forall>k<4. pend ad' p k = pend ad p k @ filter (\<lambda>g. frame_class g = k) gs) \<and>
     sta_dz_bitmap (stapriv ad') = sta_dz_bitmap (stapriv ad) \<and> same_env ad ad'"

lemma delivered_Nil [simp]: "delivered ad p [] ad"
  by (simp add: delivered_def)

lemma delivered_trans:
  "delivered ad p [g] ad1 \<Longrightarrow> delivered ad1 p gs ad2 \<Longrightarrow> delivered ad p (g # gs) ad2"
  unfolding delivered_def by (auto intro: same_env_trans)

lemma deliver_delivered:
  assumes e: "sleep_edit ad p si" and qd: "queued (set_sta ad p si) p g ad'"
  shows "delivered ad p [g] ad'" and "slp ad' p = si_sleep_q si"
    and "tim_bitmap (stapriv ad') = tim_bitmap (stapriv ad)"
proof -
  have "same_env ad ad'"
    using sleep_edit_env [OF e] qd by (auto simp: queued_def Let_def intro: same_env_trans)
  moreover have "pend ad' p k = pend ad p k @ filter (\<lambda>g. frame_class g = k) [g]" if "k < 4" for k
    using queued_pend [OF qd that, of p] sleep_edit_pend [OF e that, of p] by auto
  ultimately show "delivered ad p [g] ad'" "tim_bitmap (stapriv ad') = tim_bitmap (stapriv ad)"
    using qd e by (auto simp: delivered_def queued_def Let_def sleep_edit_def)
  show "slp ad' p = si_sleep_q si" using queued_slp [OF qd] by (simp add: slp_def)
qed

lemma word_pos_iff: "n < 2 ^ 32 \<Longrightarrow> (0 :: u32) < of_nat n \<longleftrightarrow> 0 < n"
  by (cases "n = 0") (auto simp: word_gt_0 word_of_nat_eq_0_iff dest: dvd_imp_le)

lemma deliver_one:
  assumes "queues_ok b ad" and "slp ad p = xs @ f # ys" and "sleep_edit ad p si"
    and "si_sleep_q si = xs @ ys" and "si_sleepq_len si = si_sleepq_len (sta_of ad p) - 1"
    and "released f g" and "ad' = snd (rtl8192du_hal_xmitframe_enqueue (set_sta ad p si) g)"
  shows "queues_ok b ad'" and "all_ids ad' = all_ids ad" and "delivered ad p [g] ad'"
    and "slp ad' p = xs @ ys" and "tim_bitmap (stapriv ad') = tim_bitmap (stapriv ad)"
    and "queued (set_sta ad p si) p g ad'"
proof -
  note d = deliver [OF assms(1-5) _ _ _ _ _ assms(7)]
  show "queues_ok b ad'" "all_ids ad' = all_ids ad" and q: "queued (set_sta ad p si) p g ad'"
    using d(1,2,4) assms(6) by (simp_all add: released_def frame_class_def)
  show "delivered ad p [g] ad'" "slp ad' p = xs @ ys" "tim_bitmap (stapriv ad') = tim_bitmap (stapriv ad)"
    using deliver_delivered [OF assms(3) q] assms(4) by simp_all
qed

lemma wake_loop_effect:
  assumes "queues_ok b ad" and "slp ad p = fs"
  shows "\<exists>gs. list_all2 released fs gs \<and> delivered ad p gs (wake_loop p ad fs) \<and>
    queues_ok b (wake_loop p ad fs) \<and> all_ids (wake_loop p ad fs) = all_ids ad \<and>
    slp (wake_loop p ad fs) p = [] \<and>
    tim_bitmap (stapriv (wake_loop p ad fs)) = tim_bitmap (stapriv ad) \<and>
    (length fs < 2 ^ 32 \<longrightarrow> (\<forall>i < length fs. \<not> wmmps_ac (sta_of ad p) (px_priority (xf_attrib (fs ! i))) 1 \<longrightarrow>
       px_mdata (xf_attrib (gs ! i)) = (Suc i < length fs)))"
  using assms
proof (induction fs arbitrary: ad)
  case Nil
  then show ?case by simp
next
  case (Cons f fs)
  define a where "a = xf_attrib f"
  define w where "w = wmmps_ac (sta_of ad p) (px_priority a) 1"
  define len where "len = si_sleepq_len (sta_of ad p) - 1"
  define ac_len where "ac_len = (if w then si_sleepq_ac_len (sta_of ad p) - 1 else si_sleepq_ac_len (sta_of ad p))"
  define a2 where "a2 = (if w then a\<lparr>px_mdata := (ac_len > 0), px_eosp := \<not> (ac_len > 0)\<rparr> else a\<lparr>px_mdata := (len > 0)\<rparr>)"
  define si where "si = (sta_of ad p)\<lparr>si_sleep_q := fs, si_sleepq_len := len, si_sleepq_ac_len := ac_len\<rparr>"
  define g where "g = f\<lparr>xf_attrib := a2\<lparr>px_triggered := True\<rparr>\<rparr>"
  define ad1 where "ad1 = snd (rtl8192du_hal_xmitframe_enqueue (set_sta ad p si) g)"
  have step: "wake_loop p ad (f # fs) = wake_loop p ad1 fs"
    by (simp add: ad1_def g_def a2_def si_def ac_len_def len_def w_def a_def Let_def)
  have e: "sleep_edit ad p si" by (simp add: sleep_edit_def si_def get_servq_def)
  have rel: "released f g" by (simp add: released_def g_def a2_def a_def)
  have s: "sta_queues_ok b ad p" using Cons.prems(1) by (simp add: queues_ok_def)
  have len_fs: "len = of_nat (length fs)" using s Cons.prems(2) by (simp add: sta_queues_ok_def len_def)
  note d = deliver_one [OF Cons.prems(1) _ e _ _ rel ad1_def, of "[]" fs]
  have d1: "queues_ok b ad1" "all_ids ad1 = all_ids ad" "delivered ad p [g] ad1" "slp ad1 p = fs"
    "tim_bitmap (stapriv ad1) = tim_bitmap (stapriv ad)"
    using d Cons.prems(2) by (simp_all add: si_def len_def)
  from Cons.IH [OF d1(1,4)] obtain gs where gs: "list_all2 released fs gs"
    "delivered ad1 p gs (wake_loop p ad1 fs)" "queues_ok b (wake_loop p ad1 fs)"
    "all_ids (wake_loop p ad1 fs) = all_ids ad1" "slp (wake_loop p ad1 fs) p = []"
    "tim_bitmap (stapriv (wake_loop p ad1 fs)) = tim_bitmap (stapriv ad1)"
    "length fs < 2 ^ 32 \<longrightarrow> (\<forall>i < length fs. \<not> wmmps_ac (sta_of ad1 p) (px_priority (xf_attrib (fs ! i))) 1 \<longrightarrow>
       px_mdata (xf_attrib (gs ! i)) = (Suc i < length fs))"
    by blast
  have env: "same_env ad ad1" using d1(3) by (simp add: delivered_def)
  have "px_mdata (xf_attrib ((g # gs) ! i)) = (Suc i < length (f # fs))"
    if i: "length (f # fs) < 2 ^ 32" "i < length (f # fs)"
      "\<not> wmmps_ac (sta_of ad p) (px_priority (xf_attrib ((f # fs) ! i))) 1" for i
  proof (cases i)
    case 0
    then have "\<not> w" using i(3) by (simp add: w_def a_def)
    then have "px_mdata (xf_attrib g) \<longleftrightarrow> 0 < len" by (simp add: g_def a2_def)
    also have "\<dots> \<longleftrightarrow> 0 < length fs" unfolding len_fs using i(1) by (intro word_pos_iff) simp
    finally show ?thesis using 0 by simp
  next
    case (Suc j)
    then show ?thesis using gs(7) i same_env_wmm [OF env] by simp
  qed
  then show ?case
    using gs rel step delivered_trans [OF d1(3) gs(2)] d1(2,5) by (intro exI [of _ "g # gs"]) simp
qed

lemma bmc_loop_effect:
  assumes "queues_ok b ad" and "slp ad b = fs"
  shows "\<exists>gs. list_all2 released fs gs \<and> delivered ad b gs (bmc_loop hiq b ad fs) \<and>
    queues_ok b (bmc_loop hiq b ad fs) \<and> all_ids (bmc_loop hiq b ad fs) = all_ids ad \<and>
    slp (bmc_loop hiq b ad fs) b = [] \<and>
    tim_bitmap (stapriv (bmc_loop hiq b ad fs)) = tim_bitmap (stapriv ad)"
  using assms
proof (induction fs arbitrary: ad)
  case Nil
  then show ?case by simp
next
  case (Cons f fs)
  define len where "len = si_sleepq_len (sta_of ad b) - 1"
  define a where "a = (xf_attrib f)\<lparr>px_mdata := (len > 0), px_triggered := True\<rparr>"
  define si where "si = (sta_of ad b)\<lparr>si_sleep_q := fs, si_sleepq_len := len\<rparr>"
  define g where "g = f\<lparr>xf_attrib := if hiq \<and> xmitframe_hiq_filter ad f then a\<lparr>px_qsel := 0x11\<rparr> else a\<rparr>"
  define ad1 where "ad1 = snd (rtl8192du_hal_xmitframe_enqueue (set_sta ad b si) g)"
  have step: "bmc_loop hiq b ad (f # fs) = bmc_loop hiq b ad1 fs"
    by (simp add: ad1_def g_def si_def len_def a_def Let_def)
  have e: "sleep_edit ad b si" by (simp add: sleep_edit_def si_def get_servq_def)
  have rel: "released f g" by (simp add: released_def g_def a_def)
  note d = deliver_one [OF Cons.prems(1) _ e _ _ rel ad1_def, of "[]" fs]
  have d1: "queues_ok b ad1" "all_ids ad1 = all_ids ad" "delivered ad b [g] ad1" "slp ad1 b = fs"
    "tim_bitmap (stapriv ad1) = tim_bitmap (stapriv ad)"
    using d Cons.prems(2) by (simp_all add: si_def len_def)
  from Cons.IH [OF d1(1,4)] obtain gs where gs: "list_all2 released fs gs"
    "delivered ad1 b gs (bmc_loop hiq b ad1 fs)" "queues_ok b (bmc_loop hiq b ad1 fs)"
    "all_ids (bmc_loop hiq b ad1 fs) = all_ids ad1" "slp (bmc_loop hiq b ad1 fs) b = []"
    "tim_bitmap (stapriv (bmc_loop hiq b ad1 fs)) = tim_bitmap (stapriv ad1)"
    by blast
  then show ?case
    using rel step delivered_trans [OF d1(3) gs(2)] d1(2,5) by (intro exI [of _ "g # gs"]) simp
qed

text \<open>The frames a delivery of \<open>xmit_delivery_enabled_frames\<close> takes and those it leaves.\<close>

lemma delivery_loop_effect:
  assumes "queues_ok b ad" and "slp ad p = kept @ fs"
  shows "\<exists>gs. list_all2 released (filter (\<lambda>f. wmmps_ac (sta_of ad p) (px_priority (xf_attrib f)) 1) fs) gs \<and>
    delivered ad p gs (delivery_loop p ad kept fs) \<and>
    queues_ok b (delivery_loop p ad kept fs) \<and> all_ids (delivery_loop p ad kept fs) = all_ids ad \<and>
    slp (delivery_loop p ad kept fs) p =
      kept @ filter (\<lambda>f. \<not> wmmps_ac (sta_of ad p) (px_priority (xf_attrib f)) 1) fs \<and>
    (\<forall>n. n \<noteq> si_aid (sta_of ad p) \<or> si_has_legacy_ac (sta_of ad p) \<longrightarrow>
       tim_bit (delivery_loop p ad kept fs) n = tim_bit ad n)"
  using assms
proof (induction fs arbitrary: ad kept)
  case Nil
  then show ?case by simp
next
  case (Cons f fs)
  show ?case
  proof (cases "wmmps_ac (sta_of ad p) (px_priority (xf_attrib f)) 1")
    case False
    then show ?thesis using Cons.IH [of ad "kept @ [f]"] Cons.prems by (simp add: Let_def)
  next
    case True
    define ac_len where "ac_len = si_sleepq_ac_len (sta_of ad p) - 1"
    define si where "si = (sta_of ad p)\<lparr>si_sleep_q := kept @ fs,
       si_sleepq_len := si_sleepq_len (sta_of ad p) - 1, si_sleepq_ac_len := ac_len\<rparr>"
    define g where "g = f\<lparr>xf_attrib := (xf_attrib f)\<lparr>px_mdata := (ac_len > 0), px_eosp := \<not> (ac_len > 0),
       px_triggered := True\<rparr>\<rparr>"
    define ad1 where "ad1 = snd (rtl8192du_hal_xmitframe_enqueue (set_sta ad p si) g)"
    define ad2 where "ad2 = (if ac_len = 0 \<and> \<not> si_has_legacy_ac (sta_of ad p)
       then request_of (clear_tim ad1 (si_aid (sta_of ad p))) UpdateBeaconTim else ad1)"
    have step: "delivery_loop p ad kept (f # fs) = delivery_loop p ad2 kept fs"
      using True by (simp add: ad2_def ad1_def g_def si_def ac_len_def Let_def)
    have e: "sleep_edit ad p si" by (simp add: sleep_edit_def si_def get_servq_def)
    have rel: "released f g" by (simp add: released_def g_def)
    note d = deliver_one [OF Cons.prems(1) _ e _ _ rel ad1_def, of kept fs]
    have d1: "queues_ok b ad1" "all_ids ad1 = all_ids ad" "delivered ad p [g] ad1" "slp ad1 p = kept @ fs"
      "tim_bitmap (stapriv ad1) = tim_bitmap (stapriv ad)"
      using d Cons.prems(2) by (simp_all add: si_def)
    have core: "same_core ad1 ad2"
      by (simp add: ad2_def)
    note v = same_core_views [OF core]
    have d2: "queues_ok b ad2" "slp ad2 p = kept @ fs" "delivered ad p [g] ad2"
      using same_core_ok [OF core d1(1)] d1(3,4) v same_core_env [OF core] core
      by (auto simp: delivered_def same_core_def ad2_def request_of_def clear_tim_def intro: same_env_trans)
    have env: "same_env ad ad2" using d2(3) by (simp add: delivered_def)
    from Cons.IH [OF d2(1,2)] obtain gs where
      gs: "list_all2 released (filter (\<lambda>f. wmmps_ac (sta_of ad p) (px_priority (xf_attrib f)) 1) fs) gs"
      "delivered ad2 p gs (delivery_loop p ad2 kept fs)" "queues_ok b (delivery_loop p ad2 kept fs)"
      "all_ids (delivery_loop p ad2 kept fs) = all_ids ad2"
      "slp (delivery_loop p ad2 kept fs) p =
        kept @ filter (\<lambda>f. \<not> wmmps_ac (sta_of ad p) (px_priority (xf_attrib f)) 1) fs"
      "\<forall>n. n \<noteq> si_aid (sta_of ad2 p) \<or> si_has_legacy_ac (sta_of ad2 p) \<longrightarrow>
         tim_bit (delivery_loop p ad2 kept fs) n = tim_bit ad2 n"
      unfolding same_env_wmm [OF env] by blast
    have "tim_bit ad2 n = tim_bit ad n" if "n \<noteq> si_aid (sta_of ad p) \<or> si_has_legacy_ac (sta_of ad p)" for n
    proof -
      have "tim_bit ad1 n = tim_bit ad n" using d1(5) by (simp add: tim_bit_def)
      then show ?thesis using that by (auto simp: ad2_def)
    qed
    moreover have "si_aid (sta_of ad2 p) = si_aid (sta_of ad p)"
      "si_has_legacy_ac (sta_of ad2 p) = si_has_legacy_ac (sta_of ad p)"
      using env by (simp_all add: same_env_def)
    ultimately show ?thesis
      using gs rel step True delivered_trans [OF d2(3) gs(2)] d1(2) v(5)
      by (intro exI [of _ "g # gs"]) simp
  qed
qed

lemma empty_sleepq_len: "queues_ok b ad \<Longrightarrow> slp ad p = [] \<Longrightarrow> si_sleepq_len (sta_of ad p) = 0"
  by (simp add: queues_ok_def sta_queues_ok_def)

lemma wake_station_effect:
  assumes ok: "queues_ok b ad" and e: "slp ad p = []"
  shows "queues_ok b (wake_station ad p)" and "all_ids (wake_station ad p) = all_ids ad"
    and "same_env ad (wake_station ad p)" and "pend (wake_station ad p) q k = pend ad q k"
    and "slp (wake_station ad p) q = slp ad q"
    and "asleep (wake_station ad p) q \<longleftrightarrow> asleep ad q \<and> q \<noteq> p"
    and "dz_bit (wake_station ad p) n \<longleftrightarrow> dz_bit ad n \<and> n \<noteq> si_aid (sta_of ad p)"
    and "tim_bit (wake_station ad p) n \<longleftrightarrow> tim_bit ad n \<and> n \<noteq> si_aid (sta_of ad p)"
    and "q \<noteq> p \<Longrightarrow> sta_of (wake_station ad p) q = sta_of ad q"
proof -
  define si where "si = sta_of ad p"
  define st where "st = si_state si AND NOT WIFI_SLEEP_STATE"
  define si' where "si' = (if st AND WIFI_STA_ALIVE_CHK_STATE \<noteq> 0
     then si\<lparr>si_expire_to := sp_expire_to (stapriv ad), si_state := st XOR WIFI_STA_ALIVE_CHK_STATE\<rparr>
     else si\<lparr>si_state := st\<rparr>)"
  define ad1 where "ad1 = set_sta ad p si'"
  have w: "wake_station ad p = clear_dz (set_sta (clear_tim ad (si_aid si)) p si') (si_aid si)"
    unfolding wake_station_def si'_def st_def si_def Let_def by (simp cong: if_cong)
  have core: "same_core ad1 (wake_station ad p)"
    unfolding w ad1_def by (simp add: same_core_def clear_dz_def clear_tim_def set_sta_def sta_of_def)
  have bits: "bit (si_state si') 0 \<longleftrightarrow> linked ad p" "\<not> bit (si_state si') 2"
    unfolding state_bits si'_def st_def si_def
    by (simp_all add: bit_and_iff bit_xor_iff bit_not_iff WIFI_SLEEP_STATE_def WIFI_STA_ALIVE_CHK_STATE_def)
  have ad1: "queues_ok b ad1" "all_ids ad1 = all_ids ad" "same_env ad ad1" "pend ad1 q k = pend ad q k"
    "slp ad1 q = slp ad q" "asleep ad1 q \<longleftrightarrow> asleep ad q \<and> q \<noteq> p"
    unfolding ad1_def using state_edit_ok [OF ok bits(1), of si'] bits(2) e
    by (auto simp: si'_def si_def get_servq_def fun_eq_iff)
  note v = same_core_views [OF core]
  show "queues_ok b (wake_station ad p)" by (rule same_core_ok [OF core ad1(1)])
  show "all_ids (wake_station ad p) = all_ids ad" by (simp add: v ad1)
  show "same_env ad (wake_station ad p)" using ad1(3) same_core_env [OF core] by (rule same_env_trans)
  show "pend (wake_station ad p) q k = pend ad q k" "slp (wake_station ad p) q = slp ad q"
    "asleep (wake_station ad p) q \<longleftrightarrow> asleep ad q \<and> q \<noteq> p"
    by (simp_all add: v ad1)
  show "dz_bit (wake_station ad p) n \<longleftrightarrow> dz_bit ad n \<and> n \<noteq> si_aid (sta_of ad p)"
    "tim_bit (wake_station ad p) n \<longleftrightarrow> tim_bit ad n \<and> n \<noteq> si_aid (sta_of ad p)"
    by (simp_all add: w si_def)
  show "q \<noteq> p \<Longrightarrow> sta_of (wake_station ad p) q = sta_of ad q" by (simp add: w)
qed

lemma wake_group_effect:
  assumes ok: "queues_ok b ad"
  shows "queues_ok b (snd (wake_group ad b))" and "all_ids (snd (wake_group ad b)) = all_ids ad"
    and "same_env ad (snd (wake_group ad b))"
    and "q \<noteq> b \<Longrightarrow> sta_of (snd (wake_group ad b)) q = sta_of ad q"
    and "asleep (snd (wake_group ad b)) q = asleep ad q"
    and "0 < n \<Longrightarrow> dz_bit (snd (wake_group ad b)) n = dz_bit ad n"
    and "0 < n \<Longrightarrow> tim_bit (snd (wake_group ad b)) n = tim_bit ad n"
proof -
  obtain gs where l: "delivered ad b gs (bmc_loop False b ad (slp ad b))"
    "queues_ok b (bmc_loop False b ad (slp ad b))" "all_ids (bmc_loop False b ad (slp ad b)) = all_ids ad"
    "slp (bmc_loop False b ad (slp ad b)) b = []"
    "tim_bitmap (stapriv (bmc_loop False b ad (slp ad b))) = tim_bitmap (stapriv ad)"
    using bmc_loop_effect [OF ok refl, of False] by blast
  define ad1 where "ad1 = bmc_loop False b ad (slp ad b)"
  have w: "snd (wake_group ad b) = (if sta_dz_bitmap (stapriv ad) AND 0xfffe = 0
      then clear_dz (clear_tim ad1 0) 0 else ad)"
    using empty_sleepq_len [OF l(2,4)] by (simp add: wake_group_def ad1_def slp_def Let_def)
  have core: "same_core ad1 (clear_dz (clear_tim ad1 0) 0)" by simp
  note v = same_core_views [OF core]
  note l' = l [folded ad1_def]
  show "queues_ok b (snd (wake_group ad b))" using same_core_ok [OF core l'(2)] ok by (simp add: w)
  show "all_ids (snd (wake_group ad b)) = all_ids ad" by (simp add: w v l')
  show "same_env ad (snd (wake_group ad b))"
    using l'(1) same_core_env [OF core] by (auto simp: w delivered_def intro: same_env_trans)
  show "q \<noteq> b \<Longrightarrow> sta_of (snd (wake_group ad b)) q = sta_of ad q" using l'(1) by (simp add: w delivered_def)
  show "asleep (snd (wake_group ad b)) q = asleep ad q"
    using l'(1) by (cases "q = b") (simp_all add: w v delivered_def asleep_def)
  show "0 < n \<Longrightarrow> dz_bit (snd (wake_group ad b)) n = dz_bit ad n"
    using l'(1) by (simp add: w delivered_def) (simp add: dz_bit_def)
  show "0 < n \<Longrightarrow> tim_bit (snd (wake_group ad b)) n = tim_bit ad n"
    using l'(5) by (simp add: w) (simp add: tim_bit_def)
qed

lemma wakeup_effect:
  assumes ok: "queues_ok b ad" and p: "ps_sta b ad p"
  shows "\<exists>gs. list_all2 released (slp ad p) gs \<and> queues_ok b (wakeup_sta_to_xmit ad p) \<and>
    all_ids (wakeup_sta_to_xmit ad p) = all_ids ad \<and> same_env ad (wakeup_sta_to_xmit ad p) \<and>
    slp (wakeup_sta_to_xmit ad p) p = [] \<and>
    (\<forall>k<4. pend (wakeup_sta_to_xmit ad p) p k = pend ad p k @ filter (\<lambda>g. frame_class g = k) gs) \<and>
    (\<forall>q. q \<noteq> p \<and> q \<noteq> b \<longrightarrow> sta_of (wakeup_sta_to_xmit ad p) q = sta_of ad q) \<and>
    (\<forall>q. asleep (wakeup_sta_to_xmit ad p) q \<longleftrightarrow> asleep ad q \<and> q \<noteq> p) \<and>
    (\<forall>n. 0 < n \<longrightarrow> (dz_bit (wakeup_sta_to_xmit ad p) n \<longleftrightarrow> dz_bit ad n \<and> n \<noteq> si_aid (sta_of ad p))) \<and>
    (\<forall>n. 0 < n \<longrightarrow> (tim_bit (wakeup_sta_to_xmit ad p) n \<longleftrightarrow> tim_bit ad n \<and> n \<noteq> si_aid (sta_of ad p))) \<and>
    (length (slp ad p) < 2 ^ 32 \<longrightarrow> (\<forall>i < length (slp ad p).
       \<not> wmmps_ac (sta_of ad p) (px_priority (xf_attrib (slp ad p ! i))) 1 \<longrightarrow>
       px_mdata (xf_attrib (gs ! i)) = (Suc i < length (slp ad p))))"
proof -
  define ad1 where "ad1 = wake_loop p ad (slp ad p)"
  obtain gs where l: "list_all2 released (slp ad p) gs" "delivered ad p gs ad1" "queues_ok b ad1"
    "all_ids ad1 = all_ids ad" "slp ad1 p = []" "tim_bitmap (stapriv ad1) = tim_bitmap (stapriv ad)"
    "length (slp ad p) < 2 ^ 32 \<longrightarrow> (\<forall>i < length (slp ad p).
       \<not> wmmps_ac (sta_of ad p) (px_priority (xf_attrib (slp ad p ! i))) 1 \<longrightarrow>
       px_mdata (xf_attrib (gs ! i)) = (Suc i < length (slp ad p)))"
    unfolding ad1_def using wake_loop_effect [OF ok refl, of p] by blast
  define ad2 where "ad2 = wake_station ad1 p"
  note ws = wake_station_effect [OF l(3,5), folded ad2_def]
  define ad3 where "ad3 = snd (wake_group ad2 b)"
  note wg = wake_group_effect [OF ws(1), folded ad3_def]
  have env1: "same_env ad ad1" using l(2) by (simp add: delivered_def)
  have "rtw_get_bcmc_stainfo (stapriv ad) = Some b" using ok by (simp add: queues_ok_def)
  then have w: "wakeup_sta_to_xmit ad p = ad3 \<or> wakeup_sta_to_xmit ad p = request_of ad3 UpdateBeaconTim"
    using empty_sleepq_len [OF l(3,5)]
    by (auto simp: wakeup_sta_to_xmit_def ad1_def [unfolded slp_def, symmetric] ad2_def ad3_def Let_def
        split: prod.splits)
  have aid1: "si_aid (sta_of ad1 p) = si_aid (sta_of ad p)" using env1 by (simp add: same_env_def)
  have pb: "p \<noteq> b" using p by (simp add: ps_sta_def)
  have core: "same_core ad3 (wakeup_sta_to_xmit ad p)" using w by auto
  note v = same_core_views [OF core]
  have bits: "dz_bit (wakeup_sta_to_xmit ad p) n = dz_bit ad3 n" "tim_bit (wakeup_sta_to_xmit ad p) n = tim_bit ad3 n" for n
    using w by auto
  show ?thesis
  proof (intro exI [of _ gs] conjI allI impI)
    show "queues_ok b (wakeup_sta_to_xmit ad p)" by (rule same_core_ok [OF core wg(1)])
    show "all_ids (wakeup_sta_to_xmit ad p) = all_ids ad" by (simp add: v wg ws l)
    show "same_env ad (wakeup_sta_to_xmit ad p)"
      using env1 ws(3) wg(3) same_core_env [OF core] by (blast intro: same_env_trans)
    show "slp (wakeup_sta_to_xmit ad p) p = []"
      using wg(4) [OF pb] ws(5) [of p] l(5) by (simp add: v) (simp add: slp_def)
    show "pend (wakeup_sta_to_xmit ad p) p k = pend ad p k @ filter (\<lambda>g. frame_class g = k) gs" if "k < 4" for k
      using wg(4) [OF pb] ws(4) [of p k] l(2) that by (simp add: v delivered_def) (simp add: pend_def)
    show "sta_of (wakeup_sta_to_xmit ad p) q = sta_of ad q" if "q \<noteq> p \<and> q \<noteq> b" for q
      using that core wg(4) [of q] ws(9) [of q] l(2) by (simp add: same_core_def delivered_def)
    show "asleep (wakeup_sta_to_xmit ad p) q \<longleftrightarrow> asleep ad q \<and> q \<noteq> p" for q
    proof -
      have "asleep ad1 q = asleep ad q" using l(2) by (cases "q = p") (simp_all add: delivered_def asleep_def)
      then show ?thesis by (simp add: v wg(5) ws(6))
    qed
    show "dz_bit (wakeup_sta_to_xmit ad p) n \<longleftrightarrow> dz_bit ad n \<and> n \<noteq> si_aid (sta_of ad p)" if "0 < n" for n
      using l(2) by (simp add: bits wg(6) [OF that] ws(7) aid1) (simp add: dz_bit_def delivered_def)
    show "tim_bit (wakeup_sta_to_xmit ad p) n \<longleftrightarrow> tim_bit ad n \<and> n \<noteq> si_aid (sta_of ad p)" if "0 < n" for n
      using l(6) by (simp add: bits wg(7) [OF that] ws(8) aid1) (simp add: tim_bit_def)
  qed (use l(1,7) in blast)+
qed

end
