(* ===== verification/PowerSaveRuns.thy ===== *)
theory PowerSaveRuns
  imports PowerSaveProofs
begin

text \<open>
  The transmit queues over whole runs: the scheduler, the remaining operations, the invariant
  of power saving and the properties of the component.
\<close>

section \<open>The scheduler\<close>

lemma irp_pairs: "[(i, j). i \<leftarrow> [0..<4], j \<leftarrow> [i + 1..<4]] =
  [(0, 1), (0, 2), (0, 3), (1, 2), (1, 3), (2, 3 :: nat)]"
  by (simp add: upt_rec)

lemma irp_swap_inv:
  assumes "irp_swap (cnt, inx) (i, j) = (cnt', inx')" and "cnt = map irp inx" and "length inx = 4"
    and "i < 4" and "j < 4"
  shows "cnt' = map irp inx'" and "length inx' = 4" and "mset inx' = mset inx"
  using assms mset_swap [of j inx i] by (auto simp: irp_swap_def map_update split: if_splits)

lemma irp_order_perm: "mset (irp_order irp) = mset [0..<4]"
proof -
  have "\<forall>(i, j) \<in> set ps. i < 4 \<and> j < 4 \<Longrightarrow> cnt = map irp inx \<Longrightarrow> length inx = 4 \<Longrightarrow>
      mset (snd (foldl irp_swap (cnt, inx) ps)) = mset inx" for cnt inx ps
  proof (induction ps arbitrary: cnt inx)
    case (Cons p ps)
    obtain i j where p: "p = (i, j)" by (cases p)
    obtain cnt' inx' where s: "irp_swap (cnt, inx) (i, j) = (cnt', inx')" by (cases "irp_swap (cnt, inx) (i, j)")
    note i = irp_swap_inv [OF s Cons.prems(2,3)]
    show ?case using Cons.IH [of cnt' inx'] Cons.prems(1) i s p by simp
  qed simp
  from this [of "[(i, j). i \<leftarrow> [0..<4], j \<leftarrow> [i + 1..<4]]" "map irp [0..<4]" "[0..<4]"]
  show ?thesis by (simp only: irp_pairs irp_order_def) simp
qed

text \<open>One frame leaves the head of a queue.\<close>

definition take_one :: "adapter \<Rightarrow> nat \<Rightarrow> nat \<Rightarrow> adapter" where
  "take_one ad p ac =
     (let q = get_servq (sta_of ad p) ac;
          ad1 = set_sta ad p (set_servq (sta_of ad p) ac
            (q\<lparr>sv_pending := tl (sv_pending q), sv_qcnt := sv_qcnt q - 1\<rparr>));
          xp = xmitpriv ad
      in ad1\<lparr>xmitpriv := xp\<lparr>hwxmits_accnt := (hwxmits_accnt xp)(ac := hwxmits_accnt xp ac - 1),
           hw_sta_queue := (if tl (sv_pending q) = []
             then (hw_sta_queue xp)(ac := removeAll p (hw_sta_queue xp ac)) else hw_sta_queue xp)\<rparr>\<rparr>)"

lemma dequeue_stas_head:
  assumes "ac < 4" and "pend ad p ac = f # fs"
  shows "dequeue_stas ad ac (p # ps) = (Some f, take_one ad p ac)"
  using assms by (simp add: dequeue_one_xmitframe_def take_one_def pend_def Let_def)

lemma dequeue_acs_cases:
  assumes "queues_ok b ad" and "set acs \<subseteq> {..<4}"
  shows "dequeue_acs ad acs = (None, ad) \<and> (\<forall>ac \<in> set acs. \<forall>p. pend ad p ac = []) \<or>
    (\<exists>ac p f fs. ac < 4 \<and> pend ad p ac = f # fs \<and> dequeue_acs ad acs = (Some f, take_one ad p ac))"
  using assms(2)
proof (induction acs)
  case (Cons ac acs)
  have ac: "ac < 4" "sched_ok ad ac" using assms(1) Cons.prems by (auto simp: queues_ok_def)
  show ?case
  proof (cases "hw_sta_queue (xmitpriv ad) ac")
    case Nil
    then have "\<forall>p. pend ad p ac = []" using ac(2) by (auto simp: sched_ok_def)
    have eq: "dequeue_acs ad (ac # acs) = dequeue_acs ad acs" using Nil by simp
    have "set acs \<subseteq> {..<4}" using Cons.prems by simp
    from Cons.IH [OF this] show ?thesis unfolding eq
    proof (elim disjE)
      assume "dequeue_acs ad acs = (None, ad) \<and> (\<forall>ac \<in> set acs. \<forall>p. pend ad p ac = [])"
      then show "dequeue_acs ad acs = (None, ad) \<and> (\<forall>k \<in> set (ac # acs). \<forall>p. pend ad p k = []) \<or>
          (\<exists>ac p f fs. ac < 4 \<and> pend ad p ac = f # fs \<and> dequeue_acs ad acs = (Some f, take_one ad p ac))"
        using \<open>\<forall>p. pend ad p ac = []\<close> by (intro disjI1) simp
    qed (rule disjI2)
  next
    case (Cons p ps)
    then have "pend ad p ac \<noteq> []" using ac(2) by (auto simp: sched_ok_def)
    then obtain f fs where "pend ad p ac = f # fs" by (cases "pend ad p ac") auto
    then have "dequeue_acs ad (ac # acs) = (Some f, take_one ad p ac)"
      using dequeue_stas_head [OF ac(1)] Cons by simp
    then show ?thesis using ac(1) \<open>pend ad p ac = f # fs\<close> by blast
  qed
qed simp

lemma dequeue_xframe_cases:
  assumes "queues_ok b ad"
  shows "rtw_dequeue_xframe ad = (None, ad) \<and> (\<forall>ac < 4. \<forall>p. pend ad p ac = []) \<or>
    (\<exists>ac p f fs. ac < 4 \<and> pend ad p ac = f # fs \<and> rtw_dequeue_xframe ad = (Some f, take_one ad p ac))"
proof -
  define acs where "acs = (if wifi_spec ad then irp_order (xp_irp_cnt (xmitpriv ad)) else [0, 1, 2, 3])"
  have perm: "set (irp_order irp) = {..<4}" for irp
    using mset_eq_setD [OF irp_order_perm] by (simp only: set_upt atLeast0LessThan)
  have four: "set [0, 1, 2, 3] = {..<(4 :: nat)}" by auto
  have acs: "set acs = {..<4}" unfolding acs_def by (simp only: perm four if_cancel split: if_split) blast
  have "rtw_dequeue_xframe ad = dequeue_acs ad acs" by (simp only: rtw_dequeue_xframe_def acs_def)
  with dequeue_acs_cases [OF assms, of acs] show ?thesis
    by (simp only: acs order_refl Ball_def lessThan_iff simp_thms)
qed

lemma take_one_effect:
  assumes ok: "queues_ok b ad" and ac: "ac < 4" and q: "pend ad p ac = f # fs"
  shows "queues_ok b (take_one ad p ac)" and "all_ids ad = add_mset (frame_key f) (all_ids (take_one ad p ac))"
    and "same_env ad (take_one ad p ac)"
    and "\<And>r k. k < 4 \<Longrightarrow> pend (take_one ad p ac) r k = (if r = p \<and> k = ac then fs else pend ad r k)"
    and "slp (take_one ad p ac) r = slp ad r" and "asleep (take_one ad p ac) r = asleep ad r"
    and "dz_bit (take_one ad p ac) n = dz_bit ad n" and "tim_bit (take_one ad p ac) n = tim_bit ad n"
    and "k < 4 \<Longrightarrow> hwxmits_accnt (xmitpriv (take_one ad p ac)) k =
           hwxmits_accnt (xmitpriv ad) k - (if k = ac then 1 else 0)"
    and "frame_ok b p f" and "p < NUM_STA"
proof -
  let ?ad = "take_one ad p ac"
  have s: "sta_queues_ok b ad r" for r using ok by (simp add: queues_ok_def)
  show p: "p < NUM_STA" using s [of p] ac q by (auto simp: sta_queues_ok_def)
  show "frame_ok b p f" using s [of p] ac q by (auto simp: sta_queues_ok_def)
  have other: "sta_of ?ad r = sta_of ad r" if "r \<noteq> p" for r using that by (simp add: take_one_def Let_def)
  show pd: "pend ?ad r k = (if r = p \<and> k = ac then fs else pend ad r k)" if "k < 4" for r k
    using that ac q by (cases "r = p") (auto simp: take_one_def Let_def pend_def)
  show sl: "slp ?ad r = slp ad r" for r by (cases "r = p") (simp_all add: take_one_def Let_def slp_def)
  show as: "asleep ?ad r = asleep ad r" for r
    by (cases "r = p") (simp_all add: take_one_def Let_def asleep_def)
  show env: "same_env ad ?ad"
    by (simp add: same_env_def take_one_def Let_def linked_def)
  show "dz_bit ?ad n = dz_bit ad n" "tim_bit ?ad n = tim_bit ad n" by (simp_all add: take_one_def Let_def)
  show acc: "k < 4 \<Longrightarrow> hwxmits_accnt (xmitpriv ?ad) k = hwxmits_accnt (xmitpriv ad) k - (if k = ac then 1 else 0)" for k
    by (simp add: take_one_def Let_def)
  have "sta_queues_ok b ?ad r" for r
  proof (cases "r = p")
    case True
    have "sv_qcnt (get_servq (sta_of ?ad p) k) = int (length (pend ?ad p k))" if "k < 4" for k
    proof -
      have "sv_qcnt (get_servq (sta_of ad p) k) = int (length (pend ad p k))"
        using s [of p] that by (simp add: sta_queues_ok_def)
      then show ?thesis using that ac q
        by (cases "k = ac") (simp_all add: take_one_def Let_def pd, simp_all add: pend_def)
    qed
    moreover have "frame_ok b p g \<and> frame_class g = k" if "k < 4" "g \<in> set (pend ?ad p k)" for k g
    proof -
      have "g \<in> set (pend ad p k)" using that q by (auto simp: pd split: if_splits)
      then show ?thesis using s [of p] that(1) by (simp add: sta_queues_ok_def)
    qed
    moreover have "si_sleepq_len (sta_of ?ad p) = si_sleepq_len (sta_of ad p)"
      by (simp add: take_one_def Let_def)
    moreover have "linked ?ad p" using s [of p] ac q env by (auto simp: sta_queues_ok_def same_env_def)
    ultimately show ?thesis using s [of p] p True by (simp add: sta_queues_ok_def sl as)
  next
    case False
    then show ?thesis using s [of r]
      by (simp add: sta_queues_ok_def slp_def pend_def other linked_def asleep_def)
  qed
  moreover have "sched_ok ?ad k" if k: "k < 4" for k
  proof -
    have o: "sched_ok ad k" using ok k by (simp add: queues_ok_def)
    have "(\<Sum>r<NUM_STA. int (length (pend ad r k))) = (\<Sum>r<NUM_STA. if r = p
        then int (length (pend ?ad r k)) + (if k = ac then 1 else 0) else int (length (pend ?ad r k)))"
      by (rule sum.cong) (auto simp: pd [OF k] q)
    then have "(\<Sum>r<NUM_STA. int (length (pend ?ad r k))) =
        (\<Sum>r<NUM_STA. int (length (pend ad r k))) - (if k = ac then 1 else 0)"
      using sum_upd_one [OF p, of "\<lambda>r. int (length (pend ?ad r k))" "if k = ac then 1 else 0"] by simp
    moreover have "hw_sta_queue (xmitpriv ?ad) k = (if k = ac \<and> fs = []
        then removeAll p (hw_sta_queue (xmitpriv ad) k) else hw_sta_queue (xmitpriv ad) k)"
      using q by (simp add: take_one_def Let_def pend_def)
    ultimately show ?thesis using o q acc [OF k] by (auto simp: sched_ok_def pd [OF k] distinct_removeAll)
  qed
  ultimately show "queues_ok b ?ad"
    using ok same_env_bcmc [OF env] env by (simp add: queues_ok_def check_fwstate_def same_env_def)
  have sum_p: "(\<Sum>k<4. image_mset frame_key (mset (pend ad p k))) =
      (\<Sum>k<4. image_mset frame_key (mset (pend ?ad p k))) + {#frame_key f#}"
  proof -
    have "(\<Sum>k<4. image_mset frame_key (mset (pend ad p k))) = (\<Sum>k<4. if k = ac
        then image_mset frame_key (mset (pend ?ad p k)) + {#frame_key f#} else image_mset frame_key (mset (pend ?ad p k)))"
      by (rule sum.cong) (auto simp: pd q)
    then show ?thesis using sum_upd_one [OF ac, of "\<lambda>k. image_mset frame_key (mset (pend ?ad p k))"] by simp
  qed
  have "ids_at ad r = (if r = p then ids_at ?ad r + {#frame_key f#} else ids_at ?ad r)" for r
    by (cases "r = p") (simp_all add: ids_at_def sl sum_p, simp add: pend_def other)
  then have "(\<Sum>r<NUM_STA. ids_at ad r) = (\<Sum>r<NUM_STA. ids_at ?ad r) + {#frame_key f#}"
    using sum_upd_one [OF p, of "ids_at ?ad" "{#frame_key f#}"] by simp
  moreover have "pool_ids ?ad = pool_ids ad" by (simp add: pool_ids_def take_one_def Let_def xmit_pool_def)
  ultimately show "all_ids ad = add_mset (frame_key f) (all_ids ?ad)" by (simp add: all_ids_def)
qed

section \<open>A frame returns to its pool\<close>

text \<open>The pools of \<open>xp\<close> replace those of the adapter.\<close>

definition pool_edit :: "adapter \<Rightarrow> xmit_priv \<Rightarrow> bool" where
  "pool_edit ad xp \<longleftrightarrow> hw_sta_queue xp = hw_sta_queue (xmitpriv ad) \<and>
     hwxmits_accnt xp = hwxmits_accnt (xmitpriv ad)"

lemma pool_edit_effect:
  assumes "pool_edit ad xp"
  shows "queues_ok b ad \<Longrightarrow> queues_ok b (ad\<lparr>xmitpriv := xp\<rparr>)" and "same_env ad (ad\<lparr>xmitpriv := xp\<rparr>)"
    and "pend (ad\<lparr>xmitpriv := xp\<rparr>) p k = pend ad p k" and "slp (ad\<lparr>xmitpriv := xp\<rparr>) p = slp ad p"
    and "all_ids (ad\<lparr>xmitpriv := xp\<rparr>) + pool_ids ad = all_ids ad + image_mset frame_key (xmit_pool xp)"
proof -
  let ?ad = "ad\<lparr>xmitpriv := xp\<rparr>"
  show pd: "pend ?ad p k = pend ad p k" "slp ?ad p = slp ad p" for p k
    by (simp_all add: pend_def slp_def)
  have st: "linked ?ad p = linked ad p" "asleep ?ad p = asleep ad p" for p
    by (simp_all add: linked_def asleep_def)
  show "queues_ok b ad \<Longrightarrow> queues_ok b ?ad"
    using assms by (simp add: queues_ok_def sta_queues_ok_def sched_ok_def pool_edit_def pd st check_fwstate_def)
  show "same_env ad ?ad" by (simp add: same_env_def st)
  show "all_ids ?ad + pool_ids ad = all_ids ad + image_mset frame_key (xmit_pool xp)"
    by (simp add: all_ids_def ids_at_def pd pool_ids_def)
qed

lemma free_xmitframe_edit:
  assumes "\<not> xf_alloc_addr f"
  shows "pool_edit ad (rtw_free_xmitframe (xmitpriv ad) f)"
    and "xmit_pool (rtw_free_xmitframe (xmitpriv ad) f) = add_mset f (xmit_pool (xmitpriv ad))"
  using assms by (simp_all add: pool_edit_def rtw_free_xmitframe_def xmit_pool_def)

lemma free_xmitframe_effect:
  assumes "queues_ok b ad" and "\<not> xf_alloc_addr f"
  defines "ad' \<equiv> ad\<lparr>xmitpriv := rtw_free_xmitframe (xmitpriv ad) f\<rparr>"
  shows "queues_ok b ad'" and "same_env ad ad'" and "all_ids ad' = add_mset (frame_key f) (all_ids ad)"
    and "pend ad' p k = pend ad p k" and "slp ad' p = slp ad p" and "sta_of ad' p = sta_of ad p"
    and "dz_bit ad' n = dz_bit ad n" and "tim_bit ad' n = tim_bit ad n"
proof -
  note e = pool_edit_effect [OF free_xmitframe_edit(1) [OF assms(2), of ad], folded ad'_def]
  show "queues_ok b ad'" by (rule e(1) [OF assms(1)])
  show "same_env ad ad'" "pend ad' p k = pend ad p k" "slp ad' p = slp ad p" by (rule e)+
  show "all_ids ad' = add_mset (frame_key f) (all_ids ad)"
    using e(5) free_xmitframe_edit(2) [OF assms(2), of ad] by (simp add: pool_ids_def)
  show "sta_of ad' p = sta_of ad p" "dz_bit ad' n = dz_bit ad n" "tim_bit ad' n = tim_bit ad n"
    by (simp_all add: ad'_def)
qed

section \<open>The invariant of power saving\<close>

text \<open>
  What holds of a station: its bit in \<open>sta_dz_bitmap\<close> says whether it sleeps; while it sleeps
  its service queues hold released frames only; and, without U-APSD, its bit in the traffic
  indication map says whether frames are buffered for it.
\<close>

definition sta_ps_ok :: "adapter \<Rightarrow> nat \<Rightarrow> bool" where
  "sta_ps_ok ad p \<longleftrightarrow>
     (asleep ad p \<longleftrightarrow> dz_bit ad (si_aid (sta_of ad p))) \<and>
     (asleep ad p \<longrightarrow> (\<forall>k<4. \<forall>f \<in> set (pend ad p k). px_triggered (xf_attrib f))) \<and>
     (legacy ad p \<longrightarrow> (tim_bit ad (si_aid (sta_of ad p)) \<longleftrightarrow> slp ad p \<noteq> []))"

text \<open>
  \<open>b\<close> is the broadcast entry.  Association ids are those the bitmaps have a bit for.
\<close>

definition ps_inv :: "nat \<Rightarrow> adapter \<Rightarrow> bool" where
  "ps_inv b ad \<longleftrightarrow> queues_ok b ad \<and> b < NUM_STA \<and> linked ad b \<and> si_aid (sta_of ad b) = 0 \<and>
     (\<forall>p. linked ad p \<and> p < NUM_STA \<and> p \<noteq> b \<longrightarrow> ps_sta b ad p) \<and>
     (\<forall>p q. ps_sta b ad p \<and> ps_sta b ad q \<and> si_aid (sta_of ad p) = si_aid (sta_of ad q) \<longrightarrow> p = q) \<and>
     size (all_ids ad) < 2 ^ 32 \<and> (\<forall>x \<in># all_ids ad. \<not> snd x) \<and>
     (\<forall>p. ps_sta b ad p \<longrightarrow> sta_ps_ok ad p)"

lemma ps_invD:
  assumes "ps_inv b ad"
  shows "queues_ok b ad" and "b < NUM_STA" and "linked ad b" and "si_aid (sta_of ad b) = 0"
    and "linked ad p \<Longrightarrow> p < NUM_STA \<Longrightarrow> p \<noteq> b \<Longrightarrow> ps_sta b ad p"
    and "ps_sta b ad p \<Longrightarrow> ps_sta b ad q \<Longrightarrow> si_aid (sta_of ad p) = si_aid (sta_of ad q) \<Longrightarrow> p = q"
    and "size (all_ids ad) < 2 ^ 32" and "x \<in># all_ids ad \<Longrightarrow> \<not> snd x"
    and "ps_sta b ad p \<Longrightarrow> sta_ps_ok ad p"
  using assms unfolding ps_inv_def by blast+

lemma ps_invI:
  assumes "ps_inv b ad" and "queues_ok b ad'" and "same_env ad ad'" and "all_ids ad' = all_ids ad"
    and "\<And>p. ps_sta b ad p \<Longrightarrow> sta_ps_ok ad' p"
  shows "ps_inv b ad'"
proof -
  note e = ps_sta_env [OF assms(3)] and o = ps_invD [OF assms(1)]
  have l: "linked ad' q = linked ad q" "si_aid (sta_of ad' q) = si_aid (sta_of ad q)" for q
    using assms(3) by (simp_all add: same_env_def)
  show ?thesis unfolding ps_inv_def e l assms(4)
    using o(2-8) assms(2,5) by blast
qed

text \<open>A station the operation did not touch.\<close>

lemma sta_ps_ok_other:
  assumes "sta_ps_ok ad q" and "sta_of ad' q = sta_of ad q"
    and "dz_bit ad' (si_aid (sta_of ad q)) = dz_bit ad (si_aid (sta_of ad q))"
    and "tim_bit ad' (si_aid (sta_of ad q)) = tim_bit ad (si_aid (sta_of ad q))"
  shows "sta_ps_ok ad' q"
  using assms by (simp add: sta_ps_ok_def asleep_def pend_def slp_def legacy_def Let_def)

lemma aid_other:
  assumes "ps_inv b ad" and "ps_sta b ad p" and "ps_sta b ad q" and "q \<noteq> p"
  shows "si_aid (sta_of ad q) \<noteq> si_aid (sta_of ad p)" and "0 < si_aid (sta_of ad q)"
  using ps_invD(6) [OF assms(1,3,2)] assms(3,4) by (auto simp: ps_sta_def)

lemma slp_bound:
  assumes "ps_inv b ad" and "ps_sta b ad p"
  shows "length (slp ad p) < 2 ^ 32"
proof -
  have "p < NUM_STA" using assms(2) by (simp add: ps_sta_def)
  then have "(\<Sum>q<NUM_STA. ids_at ad q) = ids_at ad p + (\<Sum>q\<in>{..<NUM_STA} - {p}. ids_at ad q)"
    by (simp add: sum.remove)
  then have "size (ids_at ad p) \<le> size (all_ids ad)" by (simp add: all_ids_def)
  moreover have "length (slp ad p) \<le> size (ids_at ad p)" by (simp add: ids_at_def)
  ultimately show ?thesis using ps_invD(7) [OF assms(1)] by linarith
qed

section \<open>Every operation keeps the invariant\<close>

text \<open>The frames \<open>ad'\<close> may have differ from those of \<open>ad\<close> only in place.\<close>

definition ps_next :: "nat \<Rightarrow> adapter \<Rightarrow> adapter \<Rightarrow> bool" where
  "ps_next b ad ad' \<longleftrightarrow> ps_inv b ad' \<and> all_ids ad' = all_ids ad \<and> same_env ad ad'"

lemma ps_nextI:
  assumes "ps_inv b ad" and "queues_ok b ad'" and "same_env ad ad'" and "all_ids ad' = all_ids ad"
    and "\<And>q. ps_sta b ad q \<Longrightarrow> sta_ps_ok ad' q"
  shows "ps_next b ad ad'"
  using ps_invI [OF assms] assms(3,4) by (simp add: ps_next_def)

lemma ps_next_refl: "ps_inv b ad \<Longrightarrow> ps_next b ad ad"
  by (simp add: ps_next_def)

lemma awake_empty: "queues_ok b ad \<Longrightarrow> p \<noteq> b \<Longrightarrow> \<not> asleep ad p \<Longrightarrow> slp ad p = []"
  by (auto simp: queues_ok_def sta_queues_ok_def)

lemma stop_step:
  assumes inv: "ps_inv b ad" and p: "ps_sta b ad p" and a: "\<not> asleep ad p"
  shows "\<exists>ad'. stop_sta_xmit ad p = Some ad' \<and> ps_next b ad ad'"
proof -
  note o = ps_invD [OF inv]
  obtain ad' where e: "stop_sta_xmit ad p = Some ad'" "queues_ok b ad'" "all_ids ad' = all_ids ad"
    "same_env ad ad'"
    "\<forall>q. \<forall>k<4. pend ad' q k = (if q = p \<or> q = b \<and> k = 2 then [] else pend ad q k)"
    "\<forall>q. slp ad' q = (if q = p then slp ad p @ map untriggered (all_pending ad p)
       else if q = b then slp ad b @ map untriggered (pend ad b 2) else slp ad q)"
    "\<forall>q. asleep ad' q = (asleep ad q \<or> q = p)"
    "\<forall>n. 0 < n \<longrightarrow> dz_bit ad' n = (dz_bit ad n \<or> n = si_aid (sta_of ad p))"
    "\<forall>n. 0 < n \<and> n \<noteq> si_aid (sta_of ad p) \<and> n \<noteq> si_aid (sta_of ad b) \<longrightarrow> tim_bit ad' n = tim_bit ad n"
    "legacy ad p \<longrightarrow> (tim_bit ad' (si_aid (sta_of ad p)) \<longleftrightarrow>
       tim_bit ad (si_aid (sta_of ad p)) \<or> all_pending ad p \<noteq> [])"
    using stop_sta_xmit_effect [OF o(1) p o(2,3)] o(4) by blast
  have "sta_ps_ok ad' q" if q: "ps_sta b ad q" for q
  proof -
    have ok: "sta_ps_ok ad q" by (rule o(9) [OF q])
    have aid: "si_aid (sta_of ad' q) = si_aid (sta_of ad q)" "0 < si_aid (sta_of ad q)" "q \<noteq> b"
      using e(4) q by (simp_all add: same_env_def ps_sta_def)
    show ?thesis
    proof (cases "q = p")
      case True
      have "slp ad p = []" using awake_empty [OF o(1) _ a] p by (simp add: ps_sta_def)
      then show ?thesis using ok e(5-8,10) aid True same_env_legacy [OF e(4)]
        by (simp add: sta_ps_ok_def)
    next
      case False
      then show ?thesis using ok e(5-9) aid aid_other [OF inv p q] same_env_legacy [OF e(4)] o(4)
        by (simp add: sta_ps_ok_def)
    qed
  qed
  then show ?thesis using ps_nextI [OF inv e(2,4,3)] e(1) by blast
qed

lemma wake_step:
  assumes inv: "ps_inv b ad" and p: "ps_sta b ad p"
  shows "ps_next b ad (wakeup_sta_to_xmit ad p)"
proof -
  note o = ps_invD [OF inv]
  define ad' where "ad' = wakeup_sta_to_xmit ad p"
  have e: "queues_ok b ad'" "all_ids ad' = all_ids ad" "same_env ad ad'" "slp ad' p = []"
    "\<forall>q. q \<noteq> p \<and> q \<noteq> b \<longrightarrow> sta_of ad' q = sta_of ad q"
    "\<forall>q. asleep ad' q \<longleftrightarrow> asleep ad q \<and> q \<noteq> p"
    "\<forall>n. 0 < n \<longrightarrow> (dz_bit ad' n \<longleftrightarrow> dz_bit ad n \<and> n \<noteq> si_aid (sta_of ad p))"
    "\<forall>n. 0 < n \<longrightarrow> (tim_bit ad' n \<longleftrightarrow> tim_bit ad n \<and> n \<noteq> si_aid (sta_of ad p))"
    unfolding ad'_def using wakeup_effect [OF o(1) p] by blast+
  have "sta_ps_ok ad' q" if q: "ps_sta b ad q" for q
  proof (cases "q = p")
    case True
    have "si_aid (sta_of ad' p) = si_aid (sta_of ad p)" "0 < si_aid (sta_of ad p)"
      using e(3) p by (simp_all add: same_env_def ps_sta_def)
    then show ?thesis using True e(4,6-8) by (simp add: sta_ps_ok_def)
  next
    case False
    then show ?thesis
      using sta_ps_ok_other [OF o(9) [OF q], of ad'] e(5,7,8) aid_other [OF inv p q] q
      by (simp add: ps_sta_def)
  qed
  then show ?thesis using ps_nextI [OF inv e(1,3,2)] by (simp add: ad'_def)
qed

text \<open>Released frames of \<open>p\<close> are queued and its sleep queue shrinks.\<close>

lemma delivered_step:
  assumes inv: "ps_inv b ad" and d: "delivered ad p gs ad'" and rel: "list_all2 released fs gs"
    and ok: "queues_ok b ad'" and ids: "all_ids ad' = all_ids ad"
    and tim: "\<And>q. ps_sta b ad q \<Longrightarrow> q \<noteq> p \<Longrightarrow> tim_bit ad' (si_aid (sta_of ad q)) = tim_bit ad (si_aid (sta_of ad q))"
    and tim_p: "ps_sta b ad p \<Longrightarrow> legacy ad p \<Longrightarrow> tim_bit ad' (si_aid (sta_of ad p)) = (slp ad' p \<noteq> [])"
  shows "ps_next b ad ad'"
proof (rule ps_nextI [OF inv ok _ ids])
  show env: "same_env ad ad'" using d by (simp add: delivered_def)
  have dz: "dz_bit ad' n = dz_bit ad n" for n using d by (simp add: delivered_def dz_bit_def)
  show "sta_ps_ok ad' q" if q: "ps_sta b ad q" for q
  proof (cases "q = p")
    case False
    then show ?thesis
      using sta_ps_ok_other [OF ps_invD(9) [OF inv q], of ad'] d dz tim [OF q] by (simp add: delivered_def)
  next
    case True
    have trig: "px_triggered (xf_attrib g)" if "g \<in> set gs" for g
      using rel that by (auto simp: list_all2_conv_all_nth in_set_conv_nth released_def)
    have "si_aid (sta_of ad' p) = si_aid (sta_of ad p)" "asleep ad' p = asleep ad p"
      using env d by (simp_all add: same_env_def asleep_def delivered_def)
    then show ?thesis
      using ps_invD(9) [OF inv q] True d dz tim_p q trig same_env_legacy [OF env]
      by (auto simp: sta_ps_ok_def delivered_def)
  qed
qed

lemma trigger_step:
  assumes inv: "ps_inv b ad" and p: "ps_sta b ad p"
  shows "ps_next b ad (xmit_delivery_enabled_frames ad p)"
proof -
  note o = ps_invD [OF inv]
  let ?ad = "xmit_delivery_enabled_frames ad p"
  obtain gs where e:
    "list_all2 released (filter (\<lambda>f. wmmps_ac (sta_of ad p) (px_priority (xf_attrib f)) 1) (slp ad p)) gs"
    "delivered ad p gs ?ad" "queues_ok b ?ad" "all_ids ?ad = all_ids ad"
    "slp ?ad p = filter (\<lambda>f. \<not> wmmps_ac (sta_of ad p) (px_priority (xf_attrib f)) 1) (slp ad p)"
    "\<forall>n. n \<noteq> si_aid (sta_of ad p) \<or> si_has_legacy_ac (sta_of ad p) \<longrightarrow> tim_bit ?ad n = tim_bit ad n"
    using delivery_loop_effect [OF o(1), of p "[]" "slp ad p"]
    by (auto simp: xmit_delivery_enabled_frames_def slp_def)
  show ?thesis
  proof (rule delivered_step [OF inv e(2,1,3,4)])
    show "tim_bit ?ad (si_aid (sta_of ad q)) = tim_bit ad (si_aid (sta_of ad q))"
      if "ps_sta b ad q" "q \<noteq> p" for q
      using e(6) aid_other [OF inv p that] by blast
    show "tim_bit ?ad (si_aid (sta_of ad p)) = (slp ?ad p \<noteq> [])" if "ps_sta b ad p" "legacy ad p"
    proof -
      have "slp ?ad p = slp ad p" using e(5) legacy_wmm [OF that(2)] by simp
      moreover have "tim_bit ?ad (si_aid (sta_of ad p)) = tim_bit ad (si_aid (sta_of ad p))"
        using e(6) that(2) by (simp add: legacy_def Let_def)
      ultimately show ?thesis using o(9) [OF p] that(2) by (simp add: sta_ps_ok_def)
    qed
  qed
qed

lemma core_step:
  assumes "ps_inv b ad" and "ps_next b ad ad1" and "same_core ad1 ad'"
    and "\<And>q. ps_sta b ad q \<Longrightarrow> dz_bit ad' (si_aid (sta_of ad q)) = dz_bit ad1 (si_aid (sta_of ad q)) \<and>
      tim_bit ad' (si_aid (sta_of ad q)) = tim_bit ad1 (si_aid (sta_of ad q))"
  shows "ps_next b ad ad'"
proof -
  have inv1: "ps_inv b ad1" and ids: "all_ids ad1 = all_ids ad" and env: "same_env ad ad1"
    using assms(2) by (simp_all add: ps_next_def)
  have st: "ps_sta b ad1 q = ps_sta b ad q" "si_aid (sta_of ad1 q) = si_aid (sta_of ad q)" for q
    using env ps_sta_env [OF env] by (simp_all add: same_env_def)
  have "ps_next b ad1 ad'"
  proof (rule ps_nextI [OF inv1 same_core_ok [OF assms(3) ps_invD(1) [OF inv1]] same_core_env [OF assms(3)]])
    show "all_ids ad' = all_ids ad1" by (rule same_core_views(5) [OF assms(3)])
    show "sta_ps_ok ad' q" if q: "ps_sta b ad1 q" for q
      using sta_ps_ok_other [OF ps_invD(9) [OF inv1 q], of ad'] assms(3) assms(4) [of q] q st
      by (simp add: same_core_def)
  qed
  then show ?thesis using ids env same_env_trans by (auto simp: ps_next_def)
qed

lemma poll_step:
  assumes inv: "ps_inv b ad" and p: "ps_sta b ad p"
  shows "ps_next b ad (ps_poll ad p)"
proof (cases "asleep ad p \<and> dz_bit ad (si_aid (sta_of ad p))")
  case False
  then have c: "(si_state (sta_of ad p) AND WIFI_SLEEP_STATE \<noteq> 0 \<and> dz_bit ad (si_aid (sta_of ad p))) = False"
    by (simp add: asleep_def)
  have "ps_poll ad p = ad" by (simp only: ps_poll_def Let_def c if_False)
  then show ?thesis using ps_next_refl [OF inv] by simp
next
  case True
  note o = ps_invD [OF inv]
  let ?aid = "si_aid (sta_of ad p)"
  show ?thesis
  proof (cases "slp ad p")
    case Nil
    have len: "si_sleepq_len (sta_of ad p) = 0" by (rule empty_sleepq_len [OF o(1) Nil])
    show ?thesis
    proof (cases "tim_bit ad ?aid")
      case True
      define ad1 where "ad1 = clear_tim (request_of ad (Nulldata (si_hwaddr (sta_of ad p)))) ?aid"
      have e: "ps_poll ad p = request_of ad1 UpdateBeaconTim"
        using \<open>asleep ad p \<and> dz_bit ad ?aid\<close> True Nil len
        by (simp add: ps_poll_def asleep_def Let_def slp_def ad1_def)
      show ?thesis unfolding e
      proof (rule core_step [OF inv])
        have "sta_ps_ok ad1 q" if q: "ps_sta b ad q" for q
        proof (cases "q = p")
          case True
          then show ?thesis using o(9) [OF q] Nil
            by (simp add: sta_ps_ok_def ad1_def asleep_def pend_def slp_def)
        next
          case False
          then show ?thesis
            using sta_ps_ok_other [OF o(9) [OF q], of ad1] aid_other [OF inv p q] by (simp add: ad1_def)
        qed
        moreover have "same_core ad ad1" by (simp add: ad1_def)
        ultimately show "ps_next b ad ad1"
          using same_core_ok [OF _ o(1)] same_core_env same_core_views(5) by (intro ps_nextI [OF inv]) auto
      qed simp_all
    next
      case False
      then have "ps_poll ad p = ad" using True Nil by (simp add: ps_poll_def Let_def slp_def)
      then show ?thesis using ps_next_refl [OF inv] by simp
    qed
  next
    case (Cons f fs)
    define len where "len = si_sleepq_len (sta_of ad p) - 1"
    define si where "si = (sta_of ad p)\<lparr>si_sleep_q := fs, si_sleepq_len := len\<rparr>"
    define g where "g = f\<lparr>xf_attrib := (xf_attrib f)\<lparr>px_mdata := (len > 0), px_triggered := True\<rparr>\<rparr>"
    define ad1 where "ad1 = snd (rtl8192du_hal_xmitframe_enqueue (set_sta ad p si) g)"
    have e: "ps_poll ad p = (if len = 0 then request_of (clear_tim ad1 ?aid) UpdateBeaconTim else ad1)"
      using True Cons by (simp add: ps_poll_def asleep_def Let_def slp_def ad1_def g_def si_def len_def)
    have ed: "sleep_edit ad p si" by (simp add: sleep_edit_def si_def get_servq_def)
    have rel: "released f g" by (simp add: released_def g_def)
    have q: "slp ad p = [] @ f # fs" by (simp add: Cons)
    note d = deliver_one [OF o(1) q ed _ _ rel ad1_def]
    have d1: "queues_ok b ad1" "all_ids ad1 = all_ids ad" "delivered ad p [g] ad1" "slp ad1 p = fs"
      "tim_bitmap (stapriv ad1) = tim_bitmap (stapriv ad)"
      using d by (simp_all add: si_def len_def)
    have "sta_queues_ok b ad p" using o(1) by (simp add: queues_ok_def)
    then have "len = of_nat (length fs)" by (simp add: len_def sta_queues_ok_def Cons)
    moreover have "length fs < 2 ^ 32" using slp_bound [OF inv p] Cons by simp
    ultimately have len0: "len = 0 \<longleftrightarrow> fs = []" using word_pos_iff [of "length fs"] by (simp add: word_gt_0)
    define ad2 where "ad2 = (if len = 0 then request_of (clear_tim ad1 ?aid) UpdateBeaconTim else ad1)"
    have core: "same_core ad1 ad2" by (simp add: ad2_def)
    note v = same_core_views [OF core]
    have tim1: "tim_bit ad1 n = tim_bit ad n" for n using d1(5) by (simp add: tim_bit_def)
    have "ps_next b ad ad2"
    proof (rule delivered_step [OF inv])
      show "delivered ad p [g] ad2"
        using d1(3) core same_core_env [OF core] v
        by (auto simp: delivered_def same_core_def ad2_def request_of_def clear_tim_def intro: same_env_trans)
      show "list_all2 released [f] [g]" using rel by simp
      show "queues_ok b ad2" by (rule same_core_ok [OF core d1(1)])
      show "all_ids ad2 = all_ids ad" by (simp add: v d1)
      show "tim_bit ad2 (si_aid (sta_of ad q)) = tim_bit ad (si_aid (sta_of ad q))"
        if "ps_sta b ad q" "q \<noteq> p" for q
        using aid_other [OF inv p that] by (simp add: ad2_def tim1)
      show "tim_bit ad2 ?aid = (slp ad2 p \<noteq> [])" if "legacy ad p"
      proof -
        have "slp ad2 p = fs" by (simp add: v d1)
        moreover have "tim_bit ad2 ?aid = (tim_bit ad ?aid \<and> len \<noteq> 0)" by (simp add: ad2_def tim1)
        ultimately show ?thesis using o(9) [OF p] that len0 Cons by (simp add: sta_ps_ok_def)
      qed
    qed
    then show ?thesis by (simp add: e ad2_def)
  qed
qed

lemma bmc_step:
  assumes inv: "ps_inv b ad"
  shows "ps_next b ad (chk_bmc_sleepq_hdl ad)"
proof -
  note o = ps_invD [OF inv]
  let ?ad1 = "bmc_loop True b ad (slp ad b)"
  obtain gs where e: "list_all2 released (slp ad b) gs" "delivered ad b gs ?ad1" "queues_ok b ?ad1"
    "all_ids ?ad1 = all_ids ad" "tim_bitmap (stapriv ?ad1) = tim_bitmap (stapriv ad)"
    using bmc_loop_effect [OF o(1) refl, of True] by blast
  have "ps_next b ad ?ad1"
    by (rule delivered_step [OF inv e(2,1,3,4)]) (use e(5) in \<open>simp_all add: tim_bit_def ps_sta_def\<close>)
  then have "ps_next b ad (request_of ?ad1 ChkHiQueue)" by (rule core_step [OF inv]) simp_all
  moreover have "chk_bmc_sleepq_hdl ad = request_of ?ad1 ChkHiQueue \<or> chk_bmc_sleepq_hdl ad = ad"
    using o(1) by (simp add: chk_bmc_sleepq_hdl_def queues_ok_def slp_def)
  ultimately show ?thesis using ps_next_refl [OF inv] by auto
qed

lemma hiq_step:
  assumes inv: "ps_inv b ad"
  shows "ps_next b ad (rtw_chk_hi_queue_hdl ad e)"
proof -
  have "rtw_get_bcmc_stainfo (stapriv ad) = Some b" using ps_invD(1) [OF inv] by (simp add: queues_ok_def)
  then have "rtw_chk_hi_queue_hdl ad e \<in> {ad, request_of ad ChkHiQueue, clear_dz (clear_tim ad 0) 0,
      request_of (clear_dz (clear_tim ad 0) 0) UpdateBeaconTim}"
    by (simp add: rtw_chk_hi_queue_hdl_def Let_def)
  then have "same_core ad (rtw_chk_hi_queue_hdl ad e) \<and> (\<forall>n. 0 < n \<longrightarrow>
      dz_bit (rtw_chk_hi_queue_hdl ad e) n = dz_bit ad n \<and> tim_bit (rtw_chk_hi_queue_hdl ad e) n = tim_bit ad n)"
    by (elim insertE) simp_all
  then show ?thesis
    by (intro core_step [OF inv ps_next_refl [OF inv]]) (simp_all add: ps_sta_def)
qed

text \<open>\<open>rtw_dequeue_xframe\<close> and, after the copy to a transmit buffer, \<open>rtw_free_xmitframe\<close>.\<close>

definition send_one :: "adapter \<Rightarrow> adapter" where
  "send_one ad =
     (case rtw_dequeue_xframe ad of (None, ad1) \<Rightarrow> ad1
      | (Some f, ad1) \<Rightarrow> ad1\<lparr>xmitpriv := rtw_free_xmitframe (xmitpriv ad1) f\<rparr>)"

lemma send_step:
  assumes inv: "ps_inv b ad"
  shows "ps_next b ad (send_one ad)"
    and "(\<Sum>k<4. hwxmits_accnt (xmitpriv (send_one ad)) k) =
         (\<Sum>k<4. hwxmits_accnt (xmitpriv ad) k) - (if \<forall>k<4. \<forall>p. pend ad p k = [] then 0 else 1)"
proof -
  note o = ps_invD [OF inv]
  from dequeue_xframe_cases [OF o(1)]
  have "ps_next b ad (send_one ad) \<and> (\<Sum>k<4. hwxmits_accnt (xmitpriv (send_one ad)) k) =
      (\<Sum>k<4. hwxmits_accnt (xmitpriv ad) k) - (if \<forall>k<4. \<forall>p. pend ad p k = [] then 0 else 1)"
  proof (elim disjE exE conjE)
    assume "rtw_dequeue_xframe ad = (None, ad)" and "\<forall>ac<4. \<forall>p. pend ad p ac = []"
    then show ?thesis using ps_next_refl [OF inv] by (simp add: send_one_def)
  next
    fix ac p f fs
    assume ac: "ac < 4" and q: "pend ad p ac = f # fs"
      and r: "rtw_dequeue_xframe ad = (Some f, take_one ad p ac)"
    note t = take_one_effect [OF o(1) ac q]
    have al: "\<not> xf_alloc_addr f" using t(10) by (simp add: frame_ok_def)
    note fr = free_xmitframe_effect [OF t(1) al]
    have s: "send_one ad = (take_one ad p ac)\<lparr>xmitpriv := rtw_free_xmitframe (xmitpriv (take_one ad p ac)) f\<rparr>"
      by (simp add: send_one_def r)
    have "ps_next b ad (send_one ad)" unfolding s
    proof (rule ps_nextI [OF inv fr(1)])
      show env: "same_env ad ((take_one ad p ac)\<lparr>xmitpriv := rtw_free_xmitframe (xmitpriv (take_one ad p ac)) f\<rparr>)"
        using t(3) fr(2) by (rule same_env_trans)
      show "all_ids ((take_one ad p ac)\<lparr>xmitpriv := rtw_free_xmitframe (xmitpriv (take_one ad p ac)) f\<rparr>) = all_ids ad"
        by (simp add: fr(3) t(2))
      show "sta_ps_ok ((take_one ad p ac)\<lparr>xmitpriv := rtw_free_xmitframe (xmitpriv (take_one ad p ac)) f\<rparr>) r"
        if "ps_sta b ad r" for r
      proof -
        have sub: "set (pend (take_one ad p ac) r k) \<subseteq> set (pend ad r k)" if "k < 4" for k
          using t(4) [OF that, of r] q by (auto split: if_splits)
        have "asleep ((take_one ad p ac)\<lparr>xmitpriv := rtw_free_xmitframe (xmitpriv (take_one ad p ac)) f\<rparr>) r = asleep ad r"
          using t(6) [of r] by (simp add: asleep_def fr(6))
        moreover have "si_aid (sta_of ((take_one ad p ac)\<lparr>xmitpriv := rtw_free_xmitframe (xmitpriv (take_one ad p ac)) f\<rparr>) r)
            = si_aid (sta_of ad r)" using env unfolding same_env_def by blast
        moreover have "asleep ad r \<longrightarrow> (\<forall>k<4. \<forall>f \<in> set (pend (take_one ad p ac) r k). px_triggered (xf_attrib f))"
          using o(9) [OF that] sub unfolding sta_ps_ok_def by blast
        ultimately show ?thesis
          using o(9) [OF that] by (simp only: sta_ps_ok_def same_env_legacy [OF env] fr(4,5,7,8) t(5,7,8)) simp
      qed
    qed
    moreover have "(\<Sum>k<4. hwxmits_accnt (xmitpriv (send_one ad)) k) = (\<Sum>k<4. hwxmits_accnt (xmitpriv ad) k) - 1"
    proof -
      have "(\<Sum>k<4. hwxmits_accnt (xmitpriv (send_one ad)) k) =
          (\<Sum>k<4. if k = ac then hwxmits_accnt (xmitpriv ad) k + (-1) else hwxmits_accnt (xmitpriv ad) k)"
        by (rule sum.cong) (auto simp: s rtw_free_xmitframe_def t(9))
      then show ?thesis using sum_upd_one [OF ac, of "hwxmits_accnt (xmitpriv ad)" "-1"] by simp
    qed
    moreover have "\<not> (\<forall>k<4. \<forall>p. pend ad p k = [])" using ac q by force
    ultimately show ?thesis by simp
  qed
  then show "ps_next b ad (send_one ad)" and "(\<Sum>k<4. hwxmits_accnt (xmitpriv (send_one ad)) k) =
      (\<Sum>k<4. hwxmits_accnt (xmitpriv ad) k) - (if \<forall>k<4. \<forall>p. pend ad p k = [] then 0 else 1)"
    by blast+
qed

section \<open>A packet is transmitted\<close>

lemma sleeping_sta_passes:
  assumes "check_fwstate ad WIFI_AP_STATE" and "frame_ok b p f" and "linked ad p"
    and "\<not> px_triggered (xf_attrib f)" and "\<not> will_buffer b ad p"
  shows "xmitframe_enqueue_for_sleeping_sta ad f = (False, f, ad)"
  using assms
  by (simp add: xmitframe_enqueue_for_sleeping_sta_def frame_sta_def frame_ok_def linked_def
      will_buffer_def Let_def asleep_def split: if_splits)

lemma classifier_queued:
  assumes "frame_sta ad f = Some p" and "linked ad p"
  shows "fst (rtw_xmitframe_enqueue ad f) = SUCCESS" and "queued ad p f (snd (rtw_xmitframe_enqueue ad f))"
  using assms
  by (auto simp: rtw_xmitframe_enqueue_def rtw_xmit_classifier_def linked_def Let_def queued_def
      frame_class_def xmit_pool_def same_env_def sta_of_def set_sta_def)

lemma pre_xmitframe_effect:
  fixes buf :: bool
  assumes ok: "queues_ok b ad" and f: "frame_ok b p f" and p: "p < NUM_STA" "linked ad p"
  defines "ad' \<equiv> snd (pre_xmitframe ad f buf)"
  shows "queues_ok b ad'" and "same_env ad ad'" and "all_ids ad' = add_mset (frame_key f) (all_ids ad)"
    and "q \<noteq> p \<Longrightarrow> sta_of ad' q = sta_of ad q" and "slp ad' q = slp ad q"
    and "asleep ad' q = asleep ad q" and "dz_bit ad' n = dz_bit ad n" and "tim_bit ad' n = tim_bit ad n"
proof -
  have st: "frame_sta ad f = Some p" using f by (simp add: frame_sta_def frame_ok_def)
  note c = classifier_queued [OF st p(2)]
  have al: "\<not> xf_alloc_addr f" using f by (simp add: frame_ok_def)
  note fr = free_xmitframe_effect [OF ok al]
  consider "ad' = snd (rtw_xmitframe_enqueue ad f)"
    | "ad' = ad\<lparr>xmitpriv := rtw_free_xmitframe (xmitpriv ad) f\<rparr>"
  proof -
    obtain ad1 where "rtw_xmitframe_enqueue ad f = (SUCCESS, ad1)"
      using c(1) by (cases "rtw_xmitframe_enqueue ad f") simp
    then have "ad' = snd (rtw_xmitframe_enqueue ad f) \<or>
        ad' = ad\<lparr>xmitpriv := rtw_free_xmitframe (xmitpriv ad) f\<rparr>"
      by (simp add: ad'_def pre_xmitframe_def)
    then show thesis using that by blast
  qed
  then have "queues_ok b ad' \<and> same_env ad ad' \<and> all_ids ad' = add_mset (frame_key f) (all_ids ad) \<and>
    (q \<noteq> p \<longrightarrow> sta_of ad' q = sta_of ad q) \<and> slp ad' q = slp ad q \<and> asleep ad' q = asleep ad q \<and>
    dz_bit ad' n = dz_bit ad n \<and> tim_bit ad' n = tim_bit ad n"
  proof cases
    case 1
    note q = c(2) [folded 1]
    have "si_state (sta_of ad' p) = si_state (sta_of ad p)" using q by (simp add: queued_def Let_def)
    then show ?thesis
      using queued_ok [OF ok q p f] queued_ids [OF q p(1)] q queued_slp [OF q]
      by (cases "q = p") (simp_all add: queued_def Let_def dz_bit_def tim_bit_def asleep_def)
  next
    case 2
    then show ?thesis using fr by (simp add: asleep_def)
  qed
  then show "queues_ok b ad'" "same_env ad ad'" "all_ids ad' = add_mset (frame_key f) (all_ids ad)"
    "q \<noteq> p \<Longrightarrow> sta_of ad' q = sta_of ad q" "slp ad' q = slp ad q" "asleep ad' q = asleep ad q"
    "dz_bit ad' n = dz_bit ad n" "tim_bit ad' n = tim_bit ad n"
    by blast+
qed

text \<open>What \<open>update_attrib\<close> makes of a packet for a station the driver knows.\<close>

definition attrib_ok :: "nat \<Rightarrow> adapter \<Rightarrow> pkt_attrib \<Rightarrow> bool" where
  "attrib_ok b ad a \<longleftrightarrow> (\<exists>p. px_psta a = Some p \<and> p < NUM_STA \<and> linked ad p \<and>
     (IS_MCAST (px_ra a) \<longleftrightarrow> p = b) \<and> (p = b \<longrightarrow> rtw_get_sta_pending (px_priority a) = 2)) \<and> \<not> px_triggered a"

lemma xmit_step:
  assumes inv: "ps_inv b ad" and a: "\<forall>a. attrib = Some a \<longrightarrow> attrib_ok b ad a"
  shows "ps_next b ad (snd (rtw_xmit ad attrib buf))"
proof (cases "free_xmit_queue (xmitpriv ad)")
  case Nil
  then have "snd (rtw_xmit ad attrib buf) = ad" by (simp add: rtw_xmit_def rtw_alloc_xmitframe_def)
  then show ?thesis using ps_next_refl [OF inv] by simp
next
  case (Cons f0 fs)
  note o = ps_invD [OF inv]
  define f where "f = rtw_init_xmitframe f0"
  define xp where "xp = (xmitpriv ad)\<lparr>free_xmit_queue := fs, free_xmitframe_cnt := free_xmitframe_cnt (xmitpriv ad) - 1\<rparr>"
  define ad1 where "ad1 = ad\<lparr>xmitpriv := xp\<rparr>"
  have alloc: "rtw_alloc_xmitframe (xmitpriv ad) = (Some f, xp)"
    by (simp add: rtw_alloc_xmitframe_def Cons f_def xp_def)
  have key: "frame_key f = frame_key f0" by (simp add: f_def rtw_init_xmitframe_def frame_key_def)
  have ed: "pool_edit ad xp" by (simp add: pool_edit_def xp_def)
  note e = pool_edit_effect [OF ed, folded ad1_def]
  have ok1: "queues_ok b ad1" by (rule e(1) [OF o(1)])
  have ids1: "add_mset (frame_key f) (all_ids ad1) = all_ids ad"
    using e(5) Cons by (simp add: pool_ids_def xmit_pool_def xp_def key)
  have "frame_key f \<in># all_ids ad" using ids1 by (metis union_single_eq_member add_mset_add_single add.commute)
  then have "\<not> snd (frame_key f)" by (rule o(8))
  then have al: "\<not> xf_alloc_addr f" by (simp add: frame_key_def)
  have st1: "sta_of ad1 q = sta_of ad q" "dz_bit ad1 n = dz_bit ad n" "tim_bit ad1 n = tim_bit ad n" for q n
    by (simp_all add: ad1_def)
  show ?thesis
  proof (cases attrib)
    case None
    note fr = free_xmitframe_effect [OF ok1 al]
    have r: "snd (rtw_xmit ad attrib buf) = ad1\<lparr>xmitpriv := rtw_free_xmitframe (xmitpriv ad1) f\<rparr>"
      by (simp add: rtw_xmit_def alloc None ad1_def)
    show ?thesis unfolding r
    proof (rule ps_nextI [OF inv fr(1)])
      show "same_env ad (ad1\<lparr>xmitpriv := rtw_free_xmitframe (xmitpriv ad1) f\<rparr>)"
        using e(2) fr(2) by (rule same_env_trans)
      show "all_ids (ad1\<lparr>xmitpriv := rtw_free_xmitframe (xmitpriv ad1) f\<rparr>) = all_ids ad"
        by (simp add: fr(3) ids1)
      show "sta_ps_ok (ad1\<lparr>xmitpriv := rtw_free_xmitframe (xmitpriv ad1) f\<rparr>) q" if "ps_sta b ad q" for q
        using sta_ps_ok_other [OF o(9) [OF that]] by (simp add: fr(6-8) st1)
    qed
  next
    case (Some a)
    then have "attrib_ok b ad a" using a by simp
    then obtain p where p: "px_psta a = Some p" "p < NUM_STA" "linked ad p" "IS_MCAST (px_ra a) \<longleftrightarrow> p = b"
      "p = b \<longrightarrow> rtw_get_sta_pending (px_priority a) = 2" "\<not> px_triggered a"
      by (auto simp: attrib_ok_def)
    define f1 where "f1 = f\<lparr>xf_attrib := do_queue_select a\<rparr>"
    have f1: "frame_ok b p f1" "\<not> px_triggered (xf_attrib f1)" "frame_key f1 = frame_key f"
      using p al by (simp_all add: f1_def frame_ok_def do_queue_select_def frame_class_def frame_key_def)
    have l1: "linked ad1 p" using p(3) by (simp add: linked_def st1)
    have ap: "check_fwstate ad1 WIFI_AP_STATE" using ok1 by (simp add: queues_ok_def)
    have psp: "ps_sta b ad p" if "p \<noteq> b" using o(5) [OF p(3,2) that] .
    show ?thesis
    proof (cases "will_buffer b ad1 p")
      case True
      obtain ad2 where q: "xmitframe_enqueue_for_sleeping_sta ad1 f1 = (True, f1, ad2)" "buffered ad1 p f1 ad2"
        using sleeping_sta_buffers [OF ap f1(1) l1 f1(2) True] by blast
      have as: "p \<noteq> b \<Longrightarrow> asleep ad1 p" using True by (simp add: will_buffer_def)
      note bo = buffered_ok [OF ok1 q(2) p(2) l1 as f1(1)]
      have r: "snd (rtw_xmit ad attrib buf) = ad2"
        using q(1) by (simp add: rtw_xmit_def alloc Some ad1_def f1_def)
      obtain si where si: "sleep_edit ad1 p si" "si_sleep_q si = slp ad1 p @ [f1]" "same_core (set_sta ad1 p si) ad2"
        using q(2) by (auto simp: buffered_def)
      have dz: "\<And>n. 0 < n \<Longrightarrow> dz_bit ad2 n = dz_bit ad n" and tim: "tim_set ad1 p [f1] ad2"
        using q(2) by (simp_all add: buffered_def st1)
      show ?thesis unfolding r
      proof (rule ps_nextI [OF inv bo(1)])
        show env: "same_env ad ad2" using e(2) bo(3) by (rule same_env_trans)
        show "all_ids ad2 = all_ids ad" by (simp add: bo(2) f1 ids1)
        show "sta_ps_ok ad2 q" if q: "ps_sta b ad q" for q
        proof (cases "q = p")
          case False
          have "tim_bit ad2 (si_aid (sta_of ad q)) = tim_bit ad (si_aid (sta_of ad q))"
          proof (cases "p = b")
            case True
            then show ?thesis using tim q o(4) by (simp add: tim_set_def st1 ps_sta_def)
          next
            case pb: False
            then show ?thesis using tim aid_other [OF inv psp [OF pb] q False] by (simp add: tim_set_def st1)
          qed
          then show ?thesis
            using sta_ps_ok_other [OF o(9) [OF q], of ad2] False si(3) dz q
            by (simp add: same_core_def st1 ps_sta_def)
        next
          case True
          then have pb: "p \<noteq> b" and aid: "0 < si_aid (sta_of ad p)" "si_aid (sta_of ad p) < 16"
            using q by (simp_all add: ps_sta_def)
          have v: "slp ad2 p = slp ad p @ [f1]" "asleep ad2 p = asleep ad p"
            using si same_core_views [OF si(3)]
            by (simp_all add: sleep_edit_slp e(4), simp add: asleep_def sleep_edit_def st1)
          have pe: "k < 4 \<Longrightarrow> pend ad2 p k = pend ad p k" for k
            using same_core_views(1) [OF si(3)] sleep_edit_pend [OF si(1)] by (simp add: e(3))
          have "legacy ad p \<Longrightarrow> tim_bit ad2 (si_aid (sta_of ad p))"
            using tim same_env_legacy [OF e(2), of p] aid p(4) pb
            by (simp add: tim_set_def st1 f1_def do_queue_select_def)
          moreover have "si_aid (sta_of ad2 p) = si_aid (sta_of ad p)" using env by (simp add: same_env_def)
          ultimately show ?thesis
            using o(9) [OF q] True aid dz v pe same_env_legacy [OF env] by (simp add: sta_ps_ok_def)
        qed
      qed
    next
      case False
      have en: "xmitframe_enqueue_for_sleeping_sta ad1 f1 = (False, f1, ad1)"
        by (rule sleeping_sta_passes [OF ap f1(1) l1 f1(2) False])
      note pr = pre_xmitframe_effect [OF ok1 f1(1) p(2) l1, where buf = buf]
      have r: "snd (rtw_xmit ad attrib buf) = snd (pre_xmitframe ad1 f1 buf)"
        using en by (simp add: rtw_xmit_def alloc Some ad1_def f1_def Let_def split_beta)
      show ?thesis unfolding r
      proof (rule ps_nextI [OF inv pr(1)])
        show env: "same_env ad (snd (pre_xmitframe ad1 f1 buf))" using e(2) pr(2) by (rule same_env_trans)
        show "all_ids (snd (pre_xmitframe ad1 f1 buf)) = all_ids ad" by (simp add: pr(3) f1 ids1)
        show "sta_ps_ok (snd (pre_xmitframe ad1 f1 buf)) q" if q: "ps_sta b ad q" for q
        proof (cases "q = p")
          case True
          have "\<not> asleep ad p"
            using False True q o(9) [OF q] by (simp add: will_buffer_def ps_sta_def sta_ps_ok_def st1 asleep_def)
          moreover have "asleep ad1 p = asleep ad p" by (simp add: asleep_def st1)
          moreover have "si_aid (sta_of (snd (pre_xmitframe ad1 f1 buf)) p) = si_aid (sta_of ad p)"
            using env by (simp add: same_env_def)
          ultimately show ?thesis using o(9) [OF q] True same_env_legacy [OF env]
            by (simp add: sta_ps_ok_def pr(5-8) e(4) st1)
        next
          case False
          then show ?thesis
            using sta_ps_ok_other [OF o(9) [OF q], of "snd (pre_xmitframe ad1 f1 buf)"] pr(4) [of q]
            by (simp add: pr(7,8) st1)
        qed
      qed
    qed
  qed
qed

end
