(* ===== verification/PowerSaveEvents.thy ===== *)
theory PowerSaveEvents
  imports PowerSaveRuns
begin

text \<open>
  The transmit queues and power saving as a transition system: one transition for each packet,
  received frame, command and transmission, in any order, and what holds of every run.
\<close>

section \<open>Frames of stations\<close>

text \<open>A station with that address, if there is one, is one power saving works for.\<close>

definition known_sta :: "nat \<Rightarrow> adapter \<Rightarrow> mac \<Rightarrow> bool" where
  "known_sta b ad a \<longleftrightarrow> (case rtw_get_stainfo (stapriv ad) a of None \<Rightarrow> True | Some p \<Rightarrow> ps_sta b ad p)"

lemma ps_next_trans: "ps_next b ad ad1 \<Longrightarrow> ps_next b ad1 ad2 \<Longrightarrow> ps_next b ad ad2"
  by (auto simp: ps_next_def intro: same_env_trans)

lemma alive_edit_step:
  assumes inv: "ps_inv b ad" and p: "ps_sta b ad p"
    and si: "si = (sta_of ad p)\<lparr>si_expire_to := e, si_state := si_state (sta_of ad p) XOR WIFI_STA_ALIVE_CHK_STATE\<rparr>"
  shows "ps_next b ad (set_sta ad p si)"
proof -
  note o = ps_invD [OF inv]
  have f: "WIFI_STA_ALIVE_CHK_STATE = 2 ^ 10" by (simp add: WIFI_STA_ALIVE_CHK_STATE_def)
  have b: "bit (si_state si) 0 \<longleftrightarrow> linked ad p" "bit (si_state si) 2 \<longleftrightarrow> asleep ad p"
    by (simp_all add: si state_bits bit_xor_iff f bit_exp_iff)
  have sl: "slp ad p \<noteq> [] \<and> p \<noteq> b \<Longrightarrow> bit (si_state si) 2" using awake_empty [OF o(1)] b by blast
  note e = state_edit_ok [OF o(1) b(1) sl, of si]
  have v: "queues_ok b (set_sta ad p si)" "all_ids (set_sta ad p si) = all_ids ad"
    "same_env ad (set_sta ad p si)" "pend (set_sta ad p si) q k = pend ad q k"
    "slp (set_sta ad p si) q = slp ad q" "asleep (set_sta ad p si) q = asleep ad q" for q k
    using e b by (simp_all add: si get_servq_def fun_eq_iff)
  show ?thesis
  proof (rule ps_nextI [OF inv v(1,3,2)])
    show "sta_ps_ok (set_sta ad p si) q" if "ps_sta b ad q" for q
      using o(9) [OF that] same_env_legacy [OF v(3)] v
      by (simp add: sta_ps_ok_def same_env_def dz_bit_def tim_bit_def)
  qed
qed

lemma ps_next_sta: "ps_next b ad ad' \<Longrightarrow> ps_sta b ad' p = ps_sta b ad p"
  using ps_sta_env by (auto simp: ps_next_def)

lemma ctrl_frame_step:
  assumes inv: "ps_inv b ad" and v: "validate_recv_ctrl_frame ad rf = Some ad'"
    and k: "\<And>a. GetAddr2Ptr (rf_data rf) = Some a \<Longrightarrow> known_sta b ad a"
  shows "ps_next b ad ad'"
proof -
  have "ad' = ad \<or> (\<exists>p si. ps_sta b ad p \<and> ad' = ps_poll (set_sta ad p si) p \<and> (si = sta_of ad p \<or>
      si = (sta_of ad p)\<lparr>si_expire_to := sp_expire_to (stapriv ad),
             si_state := si_state (sta_of ad p) XOR WIFI_STA_ALIVE_CHK_STATE\<rparr>))"
    using v k by (auto simp: validate_recv_ctrl_frame_def known_sta_def Let_def
        split: bind_splits if_splits option.splits)
  then show ?thesis
  proof (elim disjE exE conjE)
    assume "ad' = ad" then show ?thesis using ps_next_refl [OF inv] by simp
  next
    fix p si assume p: "ps_sta b ad p" and ad': "ad' = ps_poll (set_sta ad p si) p" and "si = sta_of ad p"
    then have "ad' = ps_poll ad p" by (simp add: set_sta_def sta_of_def)
    then show ?thesis using poll_step [OF inv p] by simp
  next
    fix p si assume p: "ps_sta b ad p" and ad': "ad' = ps_poll (set_sta ad p si) p"
      and si: "si = (sta_of ad p)\<lparr>si_expire_to := sp_expire_to (stapriv ad),
             si_state := si_state (sta_of ad p) XOR WIFI_STA_ALIVE_CHK_STATE\<rparr>"
    note s = alive_edit_step [OF inv p si]
    moreover have "ps_next b (set_sta ad p si) ad'" unfolding ad'
      using s ps_next_sta [OF s] p by (intro poll_step) (simp_all add: ps_next_def)
    ultimately show ?thesis by (rule ps_next_trans)
  qed
qed

lemma pwrbit_step:
  assumes inv: "ps_inv b ad" and v: "process_pwrbit_data ad rf = Some ad'"
    and k: "known_sta b ad (rx_src (rf_attrib rf))"
  shows "ps_next b ad ad'"
proof -
  have "ad' = ad \<or> (\<exists>p. ps_sta b ad p \<and> \<not> asleep ad p \<and> stop_sta_xmit ad p = Some ad') \<or>
      (\<exists>p. ps_sta b ad p \<and> ad' = wakeup_sta_to_xmit ad p)"
    using v k by (auto simp: process_pwrbit_data_def known_sta_def Let_def asleep_def
        split: bind_splits if_splits option.splits)
  then show ?thesis
  proof (elim disjE exE conjE)
    assume "ad' = ad" then show ?thesis using ps_next_refl [OF inv] by simp
  next
    fix p assume "ps_sta b ad p" "\<not> asleep ad p" "stop_sta_xmit ad p = Some ad'"
    then show ?thesis using stop_step [OF inv] by fastforce
  next
    fix p assume "ps_sta b ad p" "ad' = wakeup_sta_to_xmit ad p"
    then show ?thesis using wake_step [OF inv] by simp
  qed
qed

lemma wmmps_step:
  assumes inv: "ps_inv b ad" and k: "known_sta b ad (rx_src (rf_attrib rf))"
  shows "ps_next b ad (process_wmmps_data ad rf)"
proof -
  have "process_wmmps_data ad rf = ad \<or>
      (\<exists>p. ps_sta b ad p \<and> process_wmmps_data ad rf = xmit_delivery_enabled_frames ad p) \<or>
      (\<exists>r. process_wmmps_data ad rf = request_of ad r)"
    using k by (auto simp: process_wmmps_data_def known_sta_def Let_def split: option.splits)
  then show ?thesis
  proof (elim disjE exE conjE)
    assume "process_wmmps_data ad rf = ad" then show ?thesis using ps_next_refl [OF inv] by simp
  next
    fix p assume "ps_sta b ad p" "process_wmmps_data ad rf = xmit_delivery_enabled_frames ad p"
    then show ?thesis using trigger_step [OF inv] by simp
  next
    fix r assume "process_wmmps_data ad rf = request_of ad r"
    then show ?thesis using core_step [OF inv ps_next_refl [OF inv], of "request_of ad r"] by simp
  qed
qed

section \<open>The transition system\<close>

inductive ps_trans :: "nat \<Rightarrow> adapter \<Rightarrow> adapter \<Rightarrow> bool" for b where
  xmit: "\<forall>a. attrib = Some a \<longrightarrow> attrib_ok b ad a \<Longrightarrow> ps_trans b ad (snd (rtw_xmit ad attrib buf))"
| pwrbit: "known_sta b ad (rx_src (rf_attrib rf)) \<Longrightarrow> process_pwrbit_data ad rf = Some ad' \<Longrightarrow> ps_trans b ad ad'"
| trigger: "known_sta b ad (rx_src (rf_attrib rf)) \<Longrightarrow> ps_trans b ad (process_wmmps_data ad rf)"
| ctrl: "\<forall>a. GetAddr2Ptr (rf_data rf) = Some a \<longrightarrow> known_sta b ad a \<Longrightarrow>
    validate_recv_ctrl_frame ad rf = Some ad' \<Longrightarrow> ps_trans b ad ad'"
| group: "ps_trans b ad (chk_bmc_sleepq_hdl ad)"
| hiq: "ps_trans b ad (rtw_chk_hi_queue_hdl ad hiq_empty)"
| send: "ps_trans b ad (send_one ad)"

lemma ps_trans_next: "ps_trans b ad ad' \<Longrightarrow> ps_inv b ad \<Longrightarrow> ps_next b ad ad'"
proof (induction rule: ps_trans.induct)
  case (ctrl rf ad ad')
  then show ?case by (intro ctrl_frame_step) auto
qed (auto intro: xmit_step pwrbit_step wmmps_step bmc_step hiq_step send_step(1))

interpretation ps: invariant_system "ps_trans b" "ps_inv b" all_ids for b
  by unfold_locales (auto dest: ps_trans_next simp: ps_next_def)

end
