(* ===== verification/PowerSaveTheorems.thy ===== *)
theory PowerSaveTheorems
  imports PowerSaveEvents Samples
begin

text \<open>
  The properties of the transmit queues and of power saving, over whole runs of the transition
  system of \<open>PowerSaveEvents\<close>, and the adapter their witnesses evaluate on.
\<close>

section \<open>An access point with one station\<close>

definition ps_mac :: mac where "ps_mac = [2, 0, 0, 0, 0, 3]"

definition ps_entry :: "nat \<Rightarrow> sta_info" where
  "ps_entry p =
     (if p = 0 then rtw_init_stainfo\<lparr>si_state := FW_LINKED, si_hwaddr := bc_addr\<rparr>
      else if p = 1 then rtw_init_stainfo\<lparr>si_state := FW_LINKED, si_aid := 1, si_hwaddr := ps_mac,
        si_has_legacy_ac := True\<rparr>
      else rtw_init_stainfo)"

definition ps_frame :: "nat \<Rightarrow> xmit_frame" where
  "ps_frame n = \<lparr>xf_id = n, xf_alloc_addr = False, xf_ext_tag = False, xf_attrib = zero_attrib,
     xf_pkt = None, xf_frame_tag = DATA_FRAMETAG, xf_pkt_offset = 1, xf_agg_num = 1,
     xf_ack_report = False\<rparr>"

definition ps_adapter :: adapter where
  "ps_adapter = zero_adapter\<lparr>
     stapriv := (stapriv zero_adapter)\<lparr>sta_buf := ps_entry,
       sta_hash := (\<lambda>i. (if i = wifi_mac_hash bc_addr then [0] else []) @
                        (if i = wifi_mac_hash ps_mac then [1] else []))\<rparr>,
     xmitpriv := (xmitpriv zero_adapter)\<lparr>free_xmit_queue := map ps_frame [0, 1, 2],
       free_xmitframe_cnt := 3\<rparr>,
     fw_state := WIFI_AP_STATE\<rparr>"

definition ps_attrib :: "nat \<Rightarrow> pkt_attrib" where
  "ps_attrib up = zero_attrib\<lparr>px_ra := ps_mac, px_psta := Some 1, px_priority := up\<rparr>"

lemma ps_adapter_empty [simp]:
  "pend ps_adapter p k = []" "slp ps_adapter p = []" "\<not> asleep ps_adapter p"
  "linked ps_adapter p \<longleftrightarrow> p = 0 \<or> p = 1" "si_aid (sta_of ps_adapter p) = (if p = 1 then 1 else 0)"
  "\<not> dz_bit ps_adapter n" "\<not> tim_bit ps_adapter n"
  by (simp_all add: pend_def slp_def asleep_def linked_def sta_of_def ps_adapter_def ps_entry_def
      rtw_init_stainfo_def get_servq_def empty_servq_def FW_LINKED_def WIFI_SLEEP_STATE_def
      dz_bit_def tim_bit_def zero_adapter_def zero_sta_priv_def)

lemma ps_adapter_sta: "ps_sta 0 ps_adapter p \<longleftrightarrow> p = 1"
  by (auto simp: ps_sta_def NUM_STA_def)

lemma ps_adapter_bcmc: "rtw_get_bcmc_stainfo (stapriv ps_adapter) = Some 0"
  by (simp add: rtw_get_bcmc_stainfo_def rtw_get_stainfo_def ps_adapter_def ps_entry_def bc_addr_def
      IS_MCAST_def Let_def)

lemma ps_adapter_lookup: "rtw_get_stainfo (stapriv ps_adapter) ps_mac = Some 1"
  by (simp add: rtw_get_stainfo_def ps_adapter_def ps_entry_def ps_mac_def bc_addr_def
      IS_MCAST_def Let_def)

lemma ps_adapter_inv: "ps_inv 0 ps_adapter"
proof -
  have "sta_queues_ok 0 ps_adapter p" for p
  proof -
    have "sv_qcnt (get_servq (sta_of ps_adapter p) k) = 0 \<and> si_sleepq_len (sta_of ps_adapter p) = 0" for k
      by (simp add: sta_of_def ps_adapter_def ps_entry_def rtw_init_stainfo_def get_servq_def empty_servq_def)
    then show ?thesis by (simp add: sta_queues_ok_def)
  qed
  moreover have "sched_ok ps_adapter ac" for ac
    by (simp add: sched_ok_def) (simp add: ps_adapter_def zero_adapter_def)
  moreover have "check_fwstate ps_adapter WIFI_AP_STATE"
    by (simp add: check_fwstate_def ps_adapter_def WIFI_AP_STATE_def)
  ultimately have q: "queues_ok 0 ps_adapter" by (simp add: queues_ok_def ps_adapter_bcmc)
  have ids: "all_ids ps_adapter = {#(0, False), (1, False), (2, False)#}"
    by (simp add: all_ids_def ids_at_def pool_ids_def xmit_pool_def)
       (simp add: ps_adapter_def zero_adapter_def ps_frame_def frame_key_def)
  have "\<forall>p. ps_sta 0 ps_adapter p \<longrightarrow> sta_ps_ok ps_adapter p" by (simp add: sta_ps_ok_def)
  then show ?thesis using q
    unfolding ps_inv_def ids ps_adapter_sta by (auto simp: NUM_STA_def)
qed

lemma ps_attrib_ok: "attrib_ok 0 ps_adapter (ps_attrib up)"
  by (simp add: attrib_ok_def ps_attrib_def zero_attrib_def NUM_STA_def IS_MCAST_def ps_mac_def)

lemma ps_adapter_xmit: "(ps_trans 0)\<^sup>*\<^sup>* ps_adapter (snd (rtw_xmit ps_adapter (Some (ps_attrib up)) buf))"
  by (rule r_into_rtranclp) (rule ps_trans.xmit, simp add: ps_attrib_ok)

lemma run_env:
  assumes "(ps_trans b)\<^sup>*\<^sup>* ad ad'" and "ps_inv b ad"
  shows "same_env ad ad'"
  using assms
proof (induction rule: rtranclp_induct)
  case (step ad1 ad2)
  then have "ps_next b ad1 ad2" using ps_trans_next ps.run_inv by blast
  with step show ?case by (auto simp: ps_next_def intro: same_env_trans)
qed simp

text \<open>A null frame with which the station says that it falls asleep.\<close>

definition doze_rf :: recv_frame where
  "doze_rf = (sample_rf NO_PRIVACY ([0x48, 0x11] @ replicate 22 0))\<lparr>
     rf_attrib := (rf_attrib (sample_rf NO_PRIVACY []))\<lparr>rx_src := ps_mac\<rparr>\<rparr>"

lemma doze_pwr_bit: "GetPwrMgt (rf_data doze_rf) = Some True"
  by (simp add: doze_rf_def GetPwrMgt_def fc_bit_def get_le16_def rd_slice_def sample_rf_def)

lemma doze_pwrbit: "\<not> asleep ad 1 \<Longrightarrow> rtw_get_stainfo (stapriv ad) ps_mac = Some 1 \<Longrightarrow>
   process_pwrbit_data ad doze_rf = stop_sta_xmit ad 1"
  by (simp add: process_pwrbit_data_def doze_pwr_bit asleep_def) (simp add: doze_rf_def)

lemma doze_run:
  "\<exists>ad'. process_pwrbit_data ps_adapter doze_rf = Some ad' \<and> (ps_trans 0)\<^sup>*\<^sup>* ps_adapter ad' \<and> asleep ad' 1"
proof -
  obtain ad' where ad': "stop_sta_xmit ps_adapter 1 = Some ad'" "\<forall>q. asleep ad' q = (asleep ps_adapter q \<or> q = 1)"
    using stop_sta_xmit_effect [OF ps_invD(1) [OF ps_adapter_inv], of 1] by (auto simp: ps_adapter_sta NUM_STA_def)
  have "process_pwrbit_data ps_adapter doze_rf = Some ad'"
    using doze_pwrbit [OF _ ps_adapter_lookup] ad'(1) by simp
  moreover have "known_sta 0 ps_adapter (rx_src (rf_attrib doze_rf))"
    by (simp add: known_sta_def doze_rf_def ps_adapter_lookup ps_adapter_sta)
  ultimately show ?thesis using ad' ps_trans.pwrbit by blast
qed

section \<open>Conservation and counters\<close>



section \<open>Sleeping stations\<close>





section \<open>The scheduler drains the queues\<close>

lemma nothing_pending:
  assumes "ps_inv b ad"
  shows "(\<Sum>k<4. hwxmits_accnt (xmitpriv ad) k) = (\<Sum>k<4. \<Sum>p<NUM_STA. int (length (pend ad p k)))"
    and "(\<Sum>k<4. hwxmits_accnt (xmitpriv ad) k) = 0 \<longleftrightarrow> (\<forall>k<4. \<forall>p. pend ad p k = [])"
proof -
  have q: "sched_ok ad k" if "k < 4" for k using ps_invD(1) [OF assms] that by (simp add: queues_ok_def)
  have out: "p < NUM_STA" if "pend ad p k \<noteq> []" "k < 4" for p k
    using ps_invD(1) [OF assms] that by (auto simp: queues_ok_def sta_queues_ok_def)
  show s: "(\<Sum>k<4. hwxmits_accnt (xmitpriv ad) k) = (\<Sum>k<4. \<Sum>p<NUM_STA. int (length (pend ad p k)))"
    using q by (intro sum.cong) (simp_all add: sched_ok_def)
  have "(\<Sum>p<NUM_STA. int (length (pend ad p k))) = 0 \<longleftrightarrow> (\<forall>p. pend ad p k = [])" if "k < 4" for k
  proof -
    have "(\<Sum>p<NUM_STA. int (length (pend ad p k))) = 0 \<longleftrightarrow> (\<forall>p<NUM_STA. pend ad p k = [])"
      by (subst sum_nonneg_eq_0_iff) (simp_all add: Ball_def)
    then show ?thesis using out [OF _ that] by blast
  qed
  moreover have "(\<Sum>k<4. \<Sum>p<NUM_STA. int (length (pend ad p k))) = 0 \<longleftrightarrow>
      (\<forall>k<4. (\<Sum>p<NUM_STA. int (length (pend ad p k))) = 0)" (is "(\<Sum>k<4. ?c k) = 0 \<longleftrightarrow> _")
  proof -
    have "(\<Sum>k\<in>{..<4}. ?c k) = 0 \<longleftrightarrow> (\<forall>k\<in>{..<4}. ?c k = 0)"
      by (rule sum_nonneg_eq_0_iff) (simp_all add: sum_nonneg)
    then show ?thesis by (simp only: Ball_def lessThan_iff)
  qed
  ultimately show "(\<Sum>k<4. hwxmits_accnt (xmitpriv ad) k) = 0 \<longleftrightarrow> (\<forall>k<4. \<forall>p. pend ad p k = [])"
    unfolding s by blast
qed

lemma sends_drain:
  assumes "ps_inv b ad" and "(\<Sum>k<4. hwxmits_accnt (xmitpriv ad) k) = int n"
  shows "ps_inv b ((send_one ^^ n) ad) \<and> (\<Sum>k<4. hwxmits_accnt (xmitpriv ((send_one ^^ n) ad)) k) = 0"
  using assms
proof (induction n arbitrary: ad)
  case (Suc n)
  have "\<not> (\<forall>k<4. \<forall>p. pend ad p k = [])" using nothing_pending(2) [OF Suc.prems(1)] Suc.prems(2) by simp
  then have "(\<Sum>k<4. hwxmits_accnt (xmitpriv (send_one ad)) k) = int n"
    using send_step(2) [OF Suc.prems(1)] Suc.prems(2) by simp
  moreover have "ps_inv b (send_one ad)" using send_step(1) [OF Suc.prems(1)] by (simp add: ps_next_def)
  ultimately show ?case using Suc.IH [of "send_one ad"] by (simp only: funpow_Suc_right o_apply)
qed simp



lemma dequeue_acs_first:
  assumes "queues_ok b ad" and "set acs \<subseteq> {..<4}" and "dequeue_acs ad acs = (Some f, ad')"
  shows "\<exists>pre ac post. acs = pre @ ac # post \<and> (\<forall>k \<in> set pre. \<forall>q. pend ad q k = []) \<and>
    (\<exists>fs. pend ad (hd (hw_sta_queue (xmitpriv ad) ac)) ac = f # fs \<and>
       ad' = take_one ad (hd (hw_sta_queue (xmitpriv ad) ac)) ac)"
  using assms(2,3)
proof (induction acs)
  case (Cons ac acs)
  have ac: "ac < 4" "sched_ok ad ac" using assms(1) Cons.prems by (auto simp: queues_ok_def)
  show ?case
  proof (cases "hw_sta_queue (xmitpriv ad) ac")
    case Nil
    then have e: "\<forall>q. pend ad q ac = []" using ac(2) by (auto simp: sched_ok_def)
    have "dequeue_acs ad acs = (Some f, ad')" "set acs \<subseteq> {..<4}" using Cons.prems Nil by simp_all
    then obtain pre k post fs where k: "acs = pre @ k # post" "\<forall>k \<in> set pre. \<forall>q. pend ad q k = []"
      "pend ad (hd (hw_sta_queue (xmitpriv ad) k)) k = f # fs"
      "ad' = take_one ad (hd (hw_sta_queue (xmitpriv ad) k)) k" using Cons.IH by blast
    then have "ac # acs = (ac # pre) @ k # post" "\<forall>k \<in> set (ac # pre). \<forall>q. pend ad q k = []"
      using e by simp_all
    then show ?thesis using k(3,4) by blast
  next
    case (Cons p ps)
    then have "pend ad p ac \<noteq> []" using ac(2) by (auto simp: sched_ok_def)
    then obtain g fs where g: "pend ad p ac = g # fs" by (cases "pend ad p ac") auto
    then have "dequeue_acs ad (ac # acs) = (Some g, take_one ad p ac)"
      using dequeue_stas_head [OF ac(1)] Cons by simp
    then have "g = f" "ad' = take_one ad p ac" using Cons.prems(2) by simp_all
    then have "ac # acs = [] @ ac # acs" "pend ad (hd (hw_sta_queue (xmitpriv ad) ac)) ac = f # fs"
      "ad' = take_one ad (hd (hw_sta_queue (xmitpriv ad) ac)) ac" using g Cons by simp_all
    then show ?thesis by fastforce
  qed
qed simp

text \<open>
  The scheduler finds a frame whenever one waits, and outside the Wi-Fi certification mode
  it serves the categories in strict priority: the frame it takes is the oldest one of the
  first station on the list of its category, and no frame waits in a category before it.
\<close>

theorem scheduler_strict_priority:
  assumes "ps_inv b ad" and "rtw_dequeue_xframe ad = (r, ad')"
  shows "(r = None \<longrightarrow> ad' = ad \<and> (\<forall>k<4. \<forall>p. pend ad p k = [])) \<and>
    (\<forall>f. r = Some f \<and> \<not> wifi_spec ad \<longrightarrow>
      (\<exists>ac<4. \<exists>p. p = hd (hw_sta_queue (xmitpriv ad) ac) \<and> pend ad p ac = f # pend ad' p ac \<and>
        (\<forall>k<ac. \<forall>q. pend ad q k = []) \<and> all_ids ad = add_mset (frame_key f) (all_ids ad')))"
proof (intro conjI allI impI; (elim conjE)?)
  note q = ps_invD(1) [OF assms(1)]
  show "ad' = ad" if "r = None" using dequeue_xframe_cases [OF q] assms(2) that by auto
  show "pend ad p k = []" if "r = None" "k < 4" for k p
    using dequeue_xframe_cases [OF q] assms(2) that by auto
  fix f assume r: "r = Some f" and "\<not> wifi_spec ad"
  then have "dequeue_acs ad [0, 1, 2, 3] = (Some f, ad')"
    using assms(2) by (simp only: rtw_dequeue_xframe_def if_False)
  from dequeue_acs_first [OF q _ this] obtain pre ac post fs where
    d: "[0, 1, 2, 3] = pre @ ac # post" "\<forall>k \<in> set pre. \<forall>q. pend ad q k = []"
      "pend ad (hd (hw_sta_queue (xmitpriv ad) ac)) ac = f # fs"
      "ad' = take_one ad (hd (hw_sta_queue (xmitpriv ad) ac)) ac" by auto
  have ac: "ac < 4 \<and> pre = [0..<ac]"
  proof -
    have l: "length pre < 4" using arg_cong [OF d(1), of length] by simp
    have u: "[0, 1, 2, 3] = [0..<4 :: nat]" by (simp add: upt_rec)
    have "ac = [0..<4] ! length pre" "pre = take (length pre) [0..<4]"
      unfolding u [symmetric] d(1) by simp_all
    then show ?thesis using l by (simp add: take_upt)
  qed
  note t = take_one_effect [OF q _ d(3), folded d(4)]
  have "pend ad (hd (hw_sta_queue (xmitpriv ad) ac)) ac =
      f # pend ad' (hd (hw_sta_queue (xmitpriv ad) ac)) ac"
    using t(4) [of ac] d(3) ac by simp
  moreover have "all_ids ad = add_mset (frame_key f) (all_ids ad')" using t(2) ac by blast
  moreover have "\<forall>k<ac. \<forall>q. pend ad q k = []" using d(2) ac by simp
  ultimately show "\<exists>ac<4. \<exists>p. p = hd (hw_sta_queue (xmitpriv ad) ac) \<and> pend ad p ac = f # pend ad' p ac \<and>
        (\<forall>k<ac. \<forall>q. pend ad q k = []) \<and> all_ids ad = add_mset (frame_key f) (all_ids ad')"
    using ac by blast
qed

theorem scheduler_strict_priority_witness:
  "rtw_dequeue_xframe ps_adapter = (None, snd (rtw_dequeue_xframe ps_adapter)) \<and>
   snd (rtw_dequeue_xframe ps_adapter) = ps_adapter"
proof -
  obtain r ad' where d: "rtw_dequeue_xframe ps_adapter = (r, ad')" by (cases "rtw_dequeue_xframe ps_adapter")
  have "r = None" using dequeue_xframe_cases [OF ps_invD(1) [OF ps_adapter_inv]] d by simp
  then show ?thesis using scheduler_strict_priority [OF ps_adapter_inv d] d by simp
qed

section \<open>Falling asleep and waking up\<close>

lemma released_filter:
  "list_all2 released fs gs \<Longrightarrow>
   map xf_id (filter (\<lambda>g. frame_class g = k) gs) = map xf_id (filter (\<lambda>f. frame_class f = k) fs)"
  by (induction rule: list_all2_induct) (auto simp: released_class, simp_all add: released_def)

lemma filter_class_pending:
  assumes "queues_ok b ad" and "k < 4"
  shows "filter (\<lambda>f. frame_class f = k) (map untriggered (all_pending ad p)) = map untriggered (pend ad p k)"
proof -
  have c: "filter (\<lambda>f. frame_class f = k) (map untriggered (pend ad p j)) =
      (if j = k then map untriggered (pend ad p k) else [])" if "j < 4" for j
    using pend_frame_ok [OF assms(1) that, of _ p]
    by (cases "j = k") (auto simp: filter_map o_def filter_empty_conv intro!: filter_True)
  from assms(2) have "k = 0 \<or> k = 1 \<or> k = 2 \<or> k = 3" by arith
  then show ?thesis unfolding all_pending_def map_append filter_append by (auto simp: c)
qed

text \<open>
  C22: a station that falls asleep and wakes up loses no frame: while it sleeps all its waiting
  frames are buffered, and after the wake-up every category has the same frames as before, in
  the same order, all of them released, and nothing is left in the sleep queue.
\<close>

theorem sleep_wake_roundtrip:
  assumes "ps_inv b ad" and "ps_sta b ad p" and "\<not> asleep ad p" and "stop_sta_xmit ad p = Some ad1"
  defines "ad2 \<equiv> wakeup_sta_to_xmit ad1 p"
  shows "map xf_id (slp ad1 p) = map xf_id (all_pending ad p) \<and> (\<forall>k<4. pend ad1 p k = []) \<and>
    (\<forall>k<4. map xf_id (pend ad2 p k) = map xf_id (pend ad p k)) \<and>
    slp ad2 p = [] \<and> \<not> asleep ad2 p \<and> all_ids ad2 = all_ids ad"
proof (intro conjI)
  note o = ps_invD [OF assms(1)]
  have pb: "p \<noteq> b" using assms(2) by (simp add: ps_sta_def)
  have e: "queues_ok b ad1 \<and> all_ids ad1 = all_ids ad \<and> same_env ad ad1 \<and>
    (\<forall>q. \<forall>k<4. pend ad1 q k = (if q = p \<or> q = b \<and> k = 2 then [] else pend ad q k)) \<and>
    (\<forall>q. slp ad1 q = (if q = p then slp ad p @ map untriggered (all_pending ad p)
       else if q = b then slp ad b @ map untriggered (pend ad b 2) else slp ad q))"
    using stop_sta_xmit_effect [OF o(1) assms(2) o(2,3)] unfolding assms(4) option.inject by blast
  have sl: "slp ad1 p = map untriggered (all_pending ad p)"
    using e awake_empty [OF o(1) pb assms(3)] by simp
  then show "map xf_id (slp ad1 p) = map xf_id (all_pending ad p)" by (simp add: untriggered_def)
  show pe: "\<forall>k<4. pend ad1 p k = []" using e by simp
  have p1: "ps_sta b ad1 p" using ps_sta_env e assms(2) by blast
  have e': "queues_ok b ad1" using e by blast
  obtain gs where w: "list_all2 released (slp ad1 p) gs" "all_ids ad2 = all_ids ad1" "slp ad2 p = []"
    "\<forall>k<4. pend ad2 p k = pend ad1 p k @ filter (\<lambda>g. frame_class g = k) gs"
    "\<forall>q. asleep ad2 q \<longleftrightarrow> asleep ad1 q \<and> q \<noteq> p"
    unfolding ad2_def using wakeup_effect [OF e' p1] by blast
  show "slp ad2 p = []" by (rule w(3))
  show "\<not> asleep ad2 p" using w(5) by blast
  show "all_ids ad2 = all_ids ad" using w(2) e by simp
  show "\<forall>k<4. map xf_id (pend ad2 p k) = map xf_id (pend ad p k)"
  proof (intro allI impI)
    fix k :: nat assume k: "k < 4"
    show "map xf_id (pend ad2 p k) = map xf_id (pend ad p k)"
      using w(4) k pe released_filter [OF w(1), of k] filter_class_pending [OF o(1) k, of p]
      by (simp add: sl untriggered_def)
  qed
qed

theorem sleep_wake_roundtrip_witness:
  "\<exists>ad1. stop_sta_xmit ps_adapter 1 = Some ad1 \<and> slp (wakeup_sta_to_xmit ad1 1) 1 = [] \<and>
     \<not> asleep (wakeup_sta_to_xmit ad1 1) 1 \<and> all_ids (wakeup_sta_to_xmit ad1 1) = all_ids ps_adapter"
proof -
  have p: "ps_sta 0 ps_adapter 1" "\<not> asleep ps_adapter 1" by (simp_all add: ps_adapter_sta)
  obtain ad1 where "stop_sta_xmit ps_adapter 1 = Some ad1" using stop_step [OF ps_adapter_inv p] by blast
  then show ?thesis using sleep_wake_roundtrip [OF ps_adapter_inv p] by blast
qed

text \<open>
  Waking a station delivers all its buffered frames in order behind what is already queued,
  each marked as released; the More Data flag of the frames of a station that does not use
  U-APSD is set on all of them but the last, and the station's bits in \<open>tim_bitmap\<close> and
  \<open>sta_dz_bitmap\<close> are cleared.
\<close>

theorem wakeup_delivers:
  assumes "ps_inv b ad" and "ps_sta b ad p" and "legacy ad p"
  defines "ad' \<equiv> wakeup_sta_to_xmit ad p" and "n \<equiv> length (slp ad p)"
  shows "(\<exists>gs. map xf_id gs = map xf_id (slp ad p) \<and> (\<forall>g \<in> set gs. px_triggered (xf_attrib g)) \<and>
      map (\<lambda>g. px_mdata (xf_attrib g)) gs = map (\<lambda>i. Suc i < n) [0..<n] \<and>
      (\<forall>k<4. pend ad' p k = pend ad p k @ filter (\<lambda>g. frame_class g = k) gs)) \<and>
    slp ad' p = [] \<and> \<not> tim_bit ad' (si_aid (sta_of ad p)) \<and> \<not> dz_bit ad' (si_aid (sta_of ad p))"
proof (intro conjI)
  obtain gs where w: "list_all2 released (slp ad p) gs" "slp ad' p = []"
    "\<forall>k<4. pend ad' p k = pend ad p k @ filter (\<lambda>g. frame_class g = k) gs"
    "\<forall>m. 0 < m \<longrightarrow> (dz_bit ad' m \<longleftrightarrow> dz_bit ad m \<and> m \<noteq> si_aid (sta_of ad p))"
    "\<forall>m. 0 < m \<longrightarrow> (tim_bit ad' m \<longleftrightarrow> tim_bit ad m \<and> m \<noteq> si_aid (sta_of ad p))"
    "length (slp ad p) < 2 ^ 32 \<longrightarrow> (\<forall>i < length (slp ad p).
       \<not> wmmps_ac (sta_of ad p) (px_priority (xf_attrib (slp ad p ! i))) 1 \<longrightarrow>
       px_mdata (xf_attrib (gs ! i)) = (Suc i < length (slp ad p)))"
    unfolding ad'_def using wakeup_effect [OF ps_invD(1) [OF assms(1)] assms(2)] by blast
  have l: "length gs = n" using w(1) by (simp add: n_def list_all2_lengthD)
  have "map xf_id gs = map xf_id (slp ad p)"
    using w(1) by (auto simp: list_all2_conv_all_nth released_def intro!: nth_equalityI)
  moreover have "\<forall>g \<in> set gs. px_triggered (xf_attrib g)"
    using w(1) by (auto simp: list_all2_conv_all_nth in_set_conv_nth released_def)
  moreover have "map (\<lambda>g. px_mdata (xf_attrib g)) gs = map (\<lambda>i. Suc i < n) [0..<n]"
    using w(6) slp_bound [OF assms(1,2)] legacy_wmm [OF assms(3)]
    by (intro nth_equalityI) (simp_all add: l n_def)
  ultimately show "\<exists>gs. map xf_id gs = map xf_id (slp ad p) \<and> (\<forall>g \<in> set gs. px_triggered (xf_attrib g)) \<and>
      map (\<lambda>g. px_mdata (xf_attrib g)) gs = map (\<lambda>i. Suc i < n) [0..<n] \<and>
      (\<forall>k<4. pend ad' p k = pend ad p k @ filter (\<lambda>g. frame_class g = k) gs)" using w(3) by blast
  show "slp ad' p = []" by (rule w(2))
  show "\<not> tim_bit ad' (si_aid (sta_of ad p))" "\<not> dz_bit ad' (si_aid (sta_of ad p))"
    using w(4,5) assms(2) by (auto simp: ps_sta_def)
qed

theorem wakeup_delivers_witness:
  "slp (wakeup_sta_to_xmit ps_adapter 1) 1 = [] \<and> \<not> tim_bit (wakeup_sta_to_xmit ps_adapter 1) 1"
proof -
  have p: "ps_sta 0 ps_adapter 1" "legacy ps_adapter 1"
    by (simp_all add: ps_adapter_sta legacy_def)
       (simp add: sta_of_def ps_adapter_def ps_entry_def rtw_init_stainfo_def)
  show ?thesis using wakeup_delivers [OF ps_adapter_inv p] by simp
qed

end
