(* ===== verification/RecvPath.thy ===== *)
theory RecvPath
  imports PowerSave Reorder Defrag Decache Ccmp
begin

text \<open>
  The way of a received frame through \<open>core/rtw_recv.c\<close>: the checks of addresses and direction,
  duplicate detection, decryption, the port of 802.1X, and the entry \<open>recv_func\<close>, which puts
  the parts of the other receive theories together.  Management frames go to
  \<open>mgt_dispatcher\<close> of \<open>core/rtw_mlme_ext.c\<close>, whose handlers are a parameter.  Statistics and the
  LED are left out.  \<open>None\<close> is an access outside a frame or through a null pointer.
\<close>

section \<open>Codes\<close>

definition RTW_RX_HANDLED :: nat where "RTW_RX_HANDLED = 2"
definition LLC_HEADER_SIZE :: nat where "LLC_HEADER_SIZE = 6"
definition dot11AuthAlgrthm_8021X :: nat where "dot11AuthAlgrthm_8021X = 2"
definition Ndis802_11AuthModeWPAPSK :: nat where "Ndis802_11AuthModeWPAPSK = 4"
definition WLAN_REASON_CLASS3_FRAME_FROM_NONASSOC_STA :: nat where
  "WLAN_REASON_CLASS3_FRAME_FROM_NONASSOC_STA = 7"
definition WEP_KEYS :: nat where "WEP_KEYS = 4"

section \<open>Decryption\<close>

definition set_sec :: "adapter \<Rightarrow> security_priv \<Rightarrow> adapter" where
  "set_sec ad sec = ad\<lparr>securitypriv := sec\<rparr>"

text \<open>The result of \<open>rtw_wep_decrypt\<close> is not looked at.\<close>

definition sw_decrypt_frame :: "adapter \<Rightarrow> recv_frame \<Rightarrow> (nat \<times> recv_frame) option" where
  "sw_decrypt_frame ad rf =
     (case rx_encrypt (rf_attrib rf) of
        WEP40 \<Rightarrow> map_option (\<lambda>(f, _). (SUCCESS, f)) (rtw_wep_decrypt (securitypriv ad) rf)
      | WEP104 \<Rightarrow> map_option (\<lambda>(f, _). (SUCCESS, f)) (rtw_wep_decrypt (securitypriv ad) rf)
      | TKIP \<Rightarrow> rtw_tkip_decrypt ad rf
      | AES \<Rightarrow> rtw_aes_decrypt ad rf
      | _ \<Rightarrow> Some (SUCCESS, rf))"

definition set_key_index :: "security_priv \<Rightarrow> recv_frame \<Rightarrow> recv_frame option" where
  "set_key_index sec rf =
     (let a = rf_attrib rf in
      if rx_encrypt a \<noteq> NO_PRIVACY then do {
        iv3 \<leftarrow> rd (rf_data rf) (rx_hdrlen a + 3);
        let key_index = unat (drop_bit 6 iv3 AND 0x3);
        Some (rf\<lparr>rf_attrib := a\<lparr>rx_key_index :=
          (if key_index > WEP_KEYS then
             (if is_wep (rx_encrypt a) then sec_PrivacyKeyIndex sec else sec_GrpKeyid sec)
           else key_index)\<rparr>\<rparr>)
      }
      else Some rf)"

definition decryptor :: "adapter \<Rightarrow> recv_frame \<Rightarrow> (recv_frame option \<times> adapter) option" where
  "decryptor ad rf = do {
     rf1 \<leftarrow> set_key_index (securitypriv ad) rf;
     let a = rf_attrib rf1;
     let sec = securitypriv ad;
     (if rx_encrypt a \<noteq> NO_PRIVACY \<and> (\<not> rx_bdecrypted a \<or> sec_sw_decrypt sec) then do {
        let ad1 = set_sec ad (sec\<lparr>sec_hw_decrypted := False\<rparr>);
        (res, rf2) \<leftarrow> sw_decrypt_frame ad1 rf1;
        Some (if res = FAIL then (None, rtw_free_recvframe ad1 rf2) else (Some rf2, ad1))
      }
      else if rx_bdecrypted a \<and> rx_encrypt a \<noteq> NO_PRIVACY \<and> (sec_busetkipkey sec \<or> rx_encrypt a \<noteq> TKIP)
      then Some (Some rf1, set_sec ad (sec\<lparr>sec_hw_decrypted := True\<rparr>))
      else Some (Some rf1, ad)) }"

section \<open>The 802.1X port\<close>

definition portctrl :: "adapter \<Rightarrow> recv_frame \<Rightarrow> (recv_frame option \<times> adapter) option" where
  "portctrl ad rf =
     (let a = rf_attrib rf; psta = rtw_get_stainfo (stapriv ad) (rx_ta a) in
      if sec_dot11AuthAlgrthm (securitypriv ad) = 2 \<and>
         (case psta of None \<Rightarrow> False | Some p \<Rightarrow> si_ieee8021x_blocked (sta_of ad p))
      then do {
        b \<leftarrow> rd_slice (rf_data rf) (rx_hdrlen a + rx_iv_len a + LLC_HEADER_SIZE) 2;
        Some (if be16 b = 0x888e then (Some rf, ad) else (None, rtw_free_recvframe ad rf))
      }
      else Some (Some rf, ad))"

section \<open>Addresses and direction\<close>

definition zero_mac :: mac where "zero_mac = [0, 0, 0, 0, 0, 0]"

text \<open>The test mode takes all addresses from the header.\<close>

definition mp_addresses :: "recv_frame \<Rightarrow> recv_frame option" where
  "mp_addresses rf = do {
     a1 \<leftarrow> GetAddr1Ptr (rf_data rf);
     a2 \<leftarrow> GetAddr2Ptr (rf_data rf);
     a3 \<leftarrow> GetAddr3Ptr (rf_data rf);
     Some (rf\<lparr>rf_attrib := (rf_attrib rf)\<lparr>rx_dst := a1, rx_src := a2, rx_bssid := a3,
             rx_ra := a1, rx_ta := a2\<rparr>\<rparr>) }"

text \<open>
  The address whose station the frame is from, or that the frame is refused (\<open>Inl\<close>); a frame
  for a group in access point mode leaves the address \<open>NULL\<close>.
\<close>

definition sta2sta_sender :: "adapter \<Rightarrow> recv_frame \<Rightarrow> (nat + mac option \<times> recv_frame) option" where
  "sta2sta_sender ad rf =
     (let a = rf_attrib rf; bmcast = IS_MCAST (rx_dst a) in
      if check_fwstate ad WIFI_ADHOC_STATE \<or> check_fwstate ad WIFI_ADHOC_MASTER_STATE then
        Some (if eeprom_mac ad = rx_src a then Inl FAIL
              else if eeprom_mac ad \<noteq> rx_dst a \<and> \<not> bmcast then Inl FAIL
              else if rx_bssid a = zero_mac \<or> cur_bssid ad = zero_mac \<or> rx_bssid a \<noteq> cur_bssid ad then Inl FAIL
              else Inr (Some (rx_src a), rf))
      else if check_fwstate ad WIFI_STATION_STATE then
        Some (if rx_bssid a \<noteq> rx_src a then Inl FAIL else Inr (Some (rx_bssid a), rf))
      else if check_fwstate ad WIFI_AP_STATE then
        Some (if bmcast then (if \<not> IS_MCAST (rx_bssid a) then Inl FAIL else Inr (None, rf))
              else if rx_bssid a \<noteq> rx_dst a then Inl FAIL
              else Inr (Some (rx_src a), rf))
      else if check_fwstate ad WIFI_MP_STATE then
        map_option (\<lambda>f. Inr (Some (cur_bssid ad), f)) (mp_addresses rf)
      else Some (Inl FAIL))"

definition sta2sta_data_frame :: "adapter \<Rightarrow> recv_frame \<Rightarrow> (nat \<times> nat option \<times> recv_frame) option" where
  "sta2sta_data_frame ad rf = do {
     r \<leftarrow> sta2sta_sender ad rf;
     Some (case r of Inl ret \<Rightarrow> (ret, None, rf)
       | Inr (sta_addr, rf1) \<Rightarrow>
           let psta = (if IS_MCAST (rx_dst (rf_attrib rf)) then rtw_get_bcmc_stainfo (stapriv ad)
                       else case sta_addr of None \<Rightarrow> None | Some m \<Rightarrow> rtw_get_stainfo (stapriv ad) m)
           in (if psta = None then FAIL else SUCCESS, psta, rf1)) }"

definition deauth_class3 :: "adapter \<Rightarrow> mac \<Rightarrow> adapter" where
  "deauth_class3 ad m = request_of ad (Deauth m WLAN_REASON_CLASS3_FRAME_FROM_NONASSOC_STA)"

definition ap2sta_data_frame ::
  "adapter \<Rightarrow> recv_frame \<Rightarrow> (nat \<times> nat option \<times> recv_frame \<times> adapter) option" where
  "ap2sta_data_frame ad rf =
     (let a = rf_attrib rf; bmcast = IS_MCAST (rx_dst a); get = rtw_get_stainfo (stapriv ad) in
      if check_fwstate ad WIFI_STATION_STATE \<and>
         (check_fwstate ad FW_LINKED \<or> check_fwstate ad WIFI_UNDER_LINKING) then
        if eeprom_mac ad = rx_src a then Some (FAIL, None, rf, ad)
        else if eeprom_mac ad \<noteq> rx_dst a \<and> \<not> bmcast then Some (FAIL, None, rf, ad)
        else if rx_bssid a = zero_mac \<or> cur_bssid ad = zero_mac \<or> rx_bssid a \<noteq> cur_bssid ad then
          Some (FAIL, None, rf, if \<not> bmcast then deauth_class3 ad (rx_bssid a) else ad)
        else
          let psta = (if bmcast then rtw_get_bcmc_stainfo (stapriv ad) else get (rx_bssid a)) in
          if psta = None then Some (FAIL, None, rf, ad)
          else do {
            fc0 \<leftarrow> rd (rf_data rf) 0;
            Some (if GetFrameSubType fc0 AND 0x40 \<noteq> 0 then RTW_RX_HANDLED else SUCCESS, psta, rf, ad)
          }
      else if check_fwstate ad WIFI_MP_STATE \<and> check_fwstate ad FW_LINKED then do {
        rf1 \<leftarrow> mp_addresses rf;
        let rf2 = rf1\<lparr>rf_attrib := (rf_attrib rf1)\<lparr>rx_bssid := cur_bssid ad\<rparr>\<rparr>;
        let psta = get (cur_bssid ad);
        Some (if psta = None then FAIL else SUCCESS, psta, rf2, ad)
      }
      else if check_fwstate ad WIFI_AP_STATE then Some (RTW_RX_HANDLED, None, rf, ad)
      else Some (FAIL, None, rf,
        if eeprom_mac ad = rx_dst a \<and> \<not> bmcast \<and> get (rx_bssid a) = None
        then deauth_class3 ad (rx_bssid a) else ad))"

definition sta2ap_data_frame ::
  "adapter \<Rightarrow> recv_frame \<Rightarrow> (nat \<times> nat option \<times> adapter) option" where
  "sta2ap_data_frame ad rf =
     (let a = rf_attrib rf in
      if check_fwstate ad WIFI_AP_STATE then
        if rx_bssid a \<noteq> cur_bssid ad then Some (FAIL, None, ad)
        else (case rtw_get_stainfo (stapriv ad) (rx_src a) of
          None \<Rightarrow> Some (RTW_RX_HANDLED, None, deauth_class3 ad (rx_src a))
        | Some p \<Rightarrow> do {
            ad1 \<leftarrow> process_pwrbit_data ad rf;
            fc0 \<leftarrow> rd (rf_data rf) 0;
            let ad2 = (if GetFrameSubType fc0 AND WIFI_QOS_DATA_TYPE = WIFI_QOS_DATA_TYPE
                       then process_wmmps_data ad1 rf else ad1);
            Some (if GetFrameSubType fc0 AND 0x40 \<noteq> 0 then RTW_RX_HANDLED else SUCCESS, Some p, ad2) })
      else if rx_ra a \<noteq> eeprom_mac ad then Some (RTW_RX_HANDLED, None, ad)
      else Some (RTW_RX_HANDLED, None, deauth_class3 ad (rx_src a)))"

section \<open>Data frames\<close>

text \<open>\<open>GET_ENCRY_ALGO\<close> and \<open>SET_ICE_IV_LEN\<close> of \<open>include/rtw_security.h\<close>.\<close>

definition GET_ENCRY_ALGO :: "security_priv \<Rightarrow> sta_info \<Rightarrow> enc_alg \<Rightarrow> bool \<Rightarrow> enc_alg" where
  "GET_ENCRY_ALGO sec si alg bmcst =
     (let auth = sec_dot11AuthAlgrthm sec in
      if auth = 0 \<or> auth = 1 \<or> auth = 3 then sec_dot11PrivacyAlgrthm sec
      else if auth = dot11AuthAlgrthm_8021X then
        (if bmcst then sec_dot118021XGrpPrivacy sec else si_dot118021XPrivacy si)
      else alg)"

definition SET_ICE_IV_LEN :: "enc_alg \<Rightarrow> nat \<times> nat" where
  "SET_ICE_IV_LEN alg =
     (case alg of WEP40 \<Rightarrow> (4, 4) | WEP104 \<Rightarrow> (4, 4) | TKIP \<Rightarrow> (8, 4) | AES \<Rightarrow> (8, 8) | _ \<Rightarrow> (0, 0))"

text \<open>The switch over \<open>to_fr_ds\<close>.\<close>

definition to_fr_ds_chk ::
  "adapter \<Rightarrow> recv_frame \<Rightarrow> (nat \<times> nat option \<times> recv_frame \<times> adapter) option" where
  "to_fr_ds_chk ad rf =
     (let a = rf_attrib rf; ds = rx_to_fr_ds a in
      if ds = 0 then
        map_option (\<lambda>(ret, p, f). (ret, p, f, ad))
          (sta2sta_data_frame ad (rf\<lparr>rf_attrib := a\<lparr>rx_ra := rx_dst a, rx_ta := rx_src a\<rparr>\<rparr>))
      else if ds = 1 then
        ap2sta_data_frame ad (rf\<lparr>rf_attrib := a\<lparr>rx_ra := rx_dst a, rx_ta := rx_bssid a\<rparr>\<rparr>)
      else if ds = 2 then
        let f = rf\<lparr>rf_attrib := a\<lparr>rx_ra := rx_bssid a, rx_ta := rx_src a\<rparr>\<rparr>
        in map_option (\<lambda>(ret, p, ad1). (ret, p, f, ad1)) (sta2ap_data_frame ad f)
      else if ds = 3 then do {
        a1 \<leftarrow> GetAddr1Ptr (rf_data rf);
        a2 \<leftarrow> GetAddr2Ptr (rf_data rf);
        Some (FAIL, None, rf\<lparr>rf_attrib := a\<lparr>rx_ra := a1, rx_ta := a2\<rparr>\<rparr>, ad)
      }
      else Some (FAIL, None, rf, ad))"

text \<open>The QoS control field and the length of the header.\<close>

definition parse_qos :: "adapter \<Rightarrow> recv_frame \<Rightarrow> (recv_frame \<times> adapter) option" where
  "parse_qos ad rf =
     (let a = (rf_attrib rf)\<lparr>rx_amsdu := 0, rx_ack_policy := 0\<rparr>; a4 = (rx_to_fr_ds a = 3);
          order = (\<lambda>b. if rx_order b then b\<lparr>rx_hdrlen := rx_hdrlen b + 4\<rparr> else b) in
      if rx_qos a = 1 then do {
        up \<leftarrow> GetPriority (rf_data rf) 24;
        ack \<leftarrow> GetAckpolicy (rf_data rf) 24;
        amsdu \<leftarrow> GetAMsdu (rf_data rf) 24;
        Some (rf\<lparr>rf_attrib := order (a\<lparr>rx_priority := up, rx_ack_policy := ack, rx_amsdu := amsdu,
                 rx_hdrlen := (if a4 then 32 else 26)\<rparr>)\<rparr>,
              if up \<noteq> 0 \<and> up \<noteq> 3 then ad\<lparr>bIsAnyNonBEPkts := True\<rparr> else ad)
      }
      else Some (rf\<lparr>rf_attrib := order (a\<lparr>rx_priority := 0, rx_hdrlen := (if a4 then 30 else 24)\<rparr>)\<rparr>, ad))"

text \<open>Sequence and packet numbers; \<open>rx_encrypt\<close> is still what the hardware reported.\<close>

definition decache_checks :: "adapter \<Rightarrow> nat \<Rightarrow> recv_frame \<Rightarrow> (nat \<times> adapter) option" where
  "decache_checks ad p rf =
     (let si = sta_of ad p; (ret, rxseq) = recv_decache rf (si_tid_rxseq si);
          ad1 = set_sta ad p (si\<lparr>si_tid_rxseq := rxseq\<rparr>) in
      if ret = FAIL then Some (FAIL, ad1)
      else if \<not> IS_MCAST (rx_ra (rf_attrib rf)) then do {
        (r, iv) \<leftarrow> recv_ucast_pn_decache rf (si_rx_iv si);
        Some (r, set_sta ad1 p ((sta_of ad1 p)\<lparr>si_rx_iv := iv\<rparr>))
      }
      else do {
        (r, iv_seq) \<leftarrow> recv_bcast_pn_decache (check_fwstate ad WIFI_STATION_STATE) rf
                         (sec_iv_seq (securitypriv ad));
        Some (r, set_sec ad1 ((securitypriv ad1)\<lparr>sec_iv_seq := iv_seq\<rparr>))
      })"

definition set_encrypt :: "adapter \<Rightarrow> nat \<Rightarrow> recv_frame \<Rightarrow> recv_frame" where
  "set_encrypt ad p rf =
     (let a = rf_attrib rf in
      if rx_privacy a then
        let alg = GET_ENCRY_ALGO (securitypriv ad) (sta_of ad p) (rx_encrypt a) (IS_MCAST (rx_ra a));
            (iv, icv) = SET_ICE_IV_LEN alg
        in rf\<lparr>rf_attrib := a\<lparr>rx_encrypt := alg, rx_iv_len := iv, rx_icv_len := icv\<rparr>\<rparr>
      else rf\<lparr>rf_attrib := a\<lparr>rx_encrypt := NO_PRIVACY, rx_iv_len := 0, rx_icv_len := 0\<rparr>\<rparr>)"

definition validate_recv_data_frame :: "adapter \<Rightarrow> recv_frame \<Rightarrow> (nat \<times> recv_frame \<times> adapter) option" where
  "validate_recv_data_frame ad rf = do {
     da \<leftarrow> get_da (rf_data rf);
     sa \<leftarrow> get_sa (rf_data rf);
     bssid \<leftarrow> get_hdr_bssid (rf_data rf);
     (ret, psta, rf1, ad1) \<leftarrow> to_fr_ds_chk ad
        (rf\<lparr>rf_attrib := (rf_attrib rf)\<lparr>rx_dst := da, rx_src := sa, rx_bssid := bssid\<rparr>\<rparr>);
     if ret = FAIL \<or> ret = RTW_RX_HANDLED then Some (ret, rf1, ad1)
     else (case psta of None \<Rightarrow> Some (FAIL, rf1, ad1)
       | Some p \<Rightarrow> do {
           (rf2, ad2) \<leftarrow> parse_qos ad1 rf1;
           let rf3 = rf2\<lparr>rf_ctrl := (p, rx_priority (rf_attrib rf2))\<rparr>;
           (r, ad3) \<leftarrow> decache_checks ad2 p rf3;
           Some (if r = FAIL then (FAIL, rf3, ad3) else (SUCCESS, set_encrypt ad3 p rf3, ad3)) }) }"

section \<open>Management frames\<close>

text \<open>
  \<open>mgt_dispatcher\<close>: \<open>handlers\<close> gives the function of a subtype, \<open>on_auth_client\<close> the one for
  authentication frames outside access point mode; they belong to the MLME.
\<close>

type_synonym mgt_handler = "adapter \<Rightarrow> recv_frame \<Rightarrow> adapter"

definition mgt_dispatcher ::
  "(nat \<Rightarrow> mgt_handler) \<Rightarrow> mgt_handler \<Rightarrow> adapter \<Rightarrow> recv_frame \<Rightarrow> adapter option" where
  "mgt_dispatcher handlers on_auth_client ad rf = do {
     fc0 \<leftarrow> rd (rf_data rf) 0;
     a1 \<leftarrow> GetAddr1Ptr (rf_data rf);
     a2 \<leftarrow> GetAddr2Ptr (rf_data rf);
     retry \<leftarrow> GetRetry (rf_data rf);
     let index = unat (drop_bit 4 (GetFrameSubType fc0));
     if GetFrameType fc0 \<noteq> WIFI_MGT_TYPE then Some ad
     else if a1 \<noteq> eeprom_mac ad \<and> a1 \<noteq> bc_addr then Some ad
     else if index > 13 then Some ad
     else
       let seq = rx_seq_num (rf_attrib rf);
           run = (if index = 11 \<and> \<not> check_fwstate ad WIFI_AP_STATE then on_auth_client else handlers index)
       in case rtw_get_stainfo (stapriv ad) a2 of
            None \<Rightarrow> Some (run ad rf)
          | Some p \<Rightarrow>
              if retry \<and> seq = si_RxMgmtFrameSeqNum (sta_of ad p) then Some ad
              else Some (run (set_sta ad p ((sta_of ad p)\<lparr>si_RxMgmtFrameSeqNum := seq\<rparr>)) rf) }"

definition validate_recv_mgnt_frame ::
  "(nat \<Rightarrow> mgt_handler) \<Rightarrow> mgt_handler \<Rightarrow> adapter \<Rightarrow> recv_frame \<Rightarrow> adapter option" where
  "validate_recv_mgnt_frame handlers on_auth_client ad rf = do {
     (r, ad1) \<leftarrow> recvframe_chk_defrag ad rf;
     (case r of None \<Rightarrow> Some ad1 | Some rf1 \<Rightarrow> mgt_dispatcher handlers on_auth_client ad1 rf1) }"

section \<open>All frames\<close>

text \<open>
  The fields of the header every frame has.  Sequence control is read from every frame, also
  from control frames that have none: \<open>stale\<close> is the word behind such a frame.
\<close>

definition header_attrib :: "u16 \<Rightarrow> recv_frame \<Rightarrow> recv_frame option" where
  "header_attrib stale rf =
     (let d = rf_data rf; sc = (case get_le16 d 22 of Some w \<Rightarrow> w | None \<Rightarrow> stale) in do {
      ds \<leftarrow> get_tofr_ds d;
      pw \<leftarrow> GetPwrMgt d;
      mf \<leftarrow> GetMFrag d;
      md \<leftarrow> GetMData d;
      pr \<leftarrow> GetPrivacy d;
      od \<leftarrow> GetOrder d;
      Some (rf\<lparr>rf_attrib := (rf_attrib rf)\<lparr>rx_to_fr_ds := ds, rx_frag_num := unat (sc AND 0x0f),
        rx_seq_num := drop_bit 4 sc, rx_pw_save := pw, rx_mfrag := (if mf then 1 else 0), rx_mdata := md,
        rx_privacy := pr, rx_order := od\<rparr>\<rparr>) })"

definition validate_recv_frame ::
  "(nat \<Rightarrow> mgt_handler) \<Rightarrow> mgt_handler \<Rightarrow> u16 \<Rightarrow> adapter \<Rightarrow> recv_frame \<Rightarrow> (nat \<times> recv_frame \<times> adapter) option" where
  "validate_recv_frame handlers on_auth_client stale ad rf = do {
     fc0 \<leftarrow> rd (rf_data rf) 0;
     if fc0 AND 0x3 \<noteq> 0 then Some (FAIL, rf, ad)
     else do {
       rf1 \<leftarrow> header_attrib stale rf;
       let type = GetFrameType fc0;
       if type = WIFI_MGT_TYPE then
         map_option (\<lambda>ad1. (FAIL, rf1, ad1)) (validate_recv_mgnt_frame handlers on_auth_client ad rf1)
       else if type = WIFI_CTRL_TYPE then
         map_option (\<lambda>ad1. (FAIL, rf1, ad1)) (validate_recv_ctrl_frame ad rf1)
       else if type = WIFI_DATA_TYPE then do {
         (ret, rf2, ad1) \<leftarrow> validate_recv_data_frame ad
            (rf1\<lparr>rf_attrib := (rf_attrib rf1)\<lparr>rx_qos := (if GetFrameSubType fc0 AND 0x80 \<noteq> 0 then 1 else 0)\<rparr>\<rparr>);
         Some (ret, rf2, if ret = FAIL then ad1\<lparr>rx_drop := rx_drop ad1 + 1\<rparr> else ad1)
       }
       else Some (FAIL, rf1, ad)
     } }"

text \<open>
  The frame is freed when it is not a data frame to go on with.  A management fragment that has
  just been put on the fragment queue of its station is taken off it again: it is on one list.
\<close>

definition unlink_fragment :: "adapter \<Rightarrow> nat \<Rightarrow> adapter" where
  "unlink_fragment ad n =
     (let s = stapriv ad in
      ad\<lparr>stapriv := s\<lparr>sta_buf := (\<lambda>p. let si = sta_buf s p in
           si\<lparr>si_defrag_q := filter (\<lambda>g. rf_id g \<noteq> n) (si_defrag_q si)\<rparr>)\<rparr>\<rparr>)"

definition recv_func_prehandle ::
  "(nat \<Rightarrow> mgt_handler) \<Rightarrow> mgt_handler \<Rightarrow> u16 \<Rightarrow> adapter \<Rightarrow> recv_frame \<Rightarrow> (nat \<times> recv_frame \<times> adapter) option" where
  "recv_func_prehandle handlers on_auth_client stale ad rf = do {
     (ret, rf1, ad1) \<leftarrow> validate_recv_frame handlers on_auth_client stale ad rf;
     Some (ret, rf1, if ret \<noteq> SUCCESS then rtw_free_recvframe (unlink_fragment ad1 (rf_id rf1)) rf1 else ad1) }"

definition drop_count :: "adapter \<Rightarrow> adapter" where
  "drop_count ad = ad\<lparr>rx_drop := rx_drop ad + 1\<rparr>"

definition recv_func_posthandle :: "adapter \<Rightarrow> recv_frame \<Rightarrow> (nat \<times> adapter) option" where
  "recv_func_posthandle ad rf = do {
     (r1, ad1) \<leftarrow> decryptor ad rf;
     (case r1 of None \<Rightarrow> Some (FAIL, drop_count ad1)
      | Some rf1 \<Rightarrow> do {
          (r2, ad2) \<leftarrow> recvframe_chk_defrag ad1 rf1;
          (case r2 of None \<Rightarrow> Some (SUCCESS, drop_count ad2)
           | Some rf2 \<Rightarrow> do {
               (r3, ad3) \<leftarrow> portctrl ad2 rf2;
               (case r3 of None \<Rightarrow> Some (FAIL, drop_count ad3)
                | Some rf3 \<Rightarrow> do {
                    (ret, ad4) \<leftarrow> process_recv_indicatepkts ad3 rf3;
                    Some (ret, if ret \<noteq> SUCCESS then drop_count (rtw_free_recvframe ad4 rf1) else ad4)
                  }) }) }) }"

end
