(* ===== verification/RecvEntry.thy ===== *)
theory RecvEntry
  imports RecvPath
begin

text \<open>
  The entry \<open>recv_func\<close> and the loops over the frames that wait for a key
  (\<open>uc_swdec_pending_queue\<close>).  The loops take frames off the queue until it is empty; that they
  end is part of their definition.
\<close>

section \<open>What handling a frame leaves alone\<close>

text \<open>The fields no part of the receive path behind the checks writes.\<close>

definition rx_keeps :: "adapter \<Rightarrow> adapter \<Rightarrow> bool" where
  "rx_keeps ad ad' \<longleftrightarrow> uc_swdec_pending_queue ad' = uc_swdec_pending_queue ad \<and> xmitpriv ad' = xmitpriv ad \<and>
     fw_state ad' = fw_state ad \<and> eeprom_mac ad' = eeprom_mac ad \<and> cur_bssid ad' = cur_bssid ad \<and>
     bDriverStopped ad' = bDriverStopped ad \<and> bSurpriseRemoved ad' = bSurpriseRemoved ad \<and>
     ht_option ad' = ht_option ad \<and> requests ad' = requests ad"

lemma rx_keeps_refl [simp]: "rx_keeps ad ad"
  by (simp add: rx_keeps_def)

lemma rx_keeps_trans [trans]: "rx_keeps ad ad1 \<Longrightarrow> rx_keeps ad1 ad2 \<Longrightarrow> rx_keeps ad ad2"
  by (simp add: rx_keeps_def)

lemma rx_keeps_edits [simp]:
  "rx_keeps ad (rtw_free_recvframe ad1 f) = rx_keeps ad ad1"
  "rx_keeps ad (set_sec ad1 sec) = rx_keeps ad ad1" "rx_keeps ad (set_defrag_q ad1 p q) = rx_keeps ad ad1"
  "rx_keeps ad (set_ctrl ad1 i c) = rx_keeps ad ad1" "rx_keeps ad (drop_count ad1) = rx_keeps ad ad1"
  "rx_keeps ad (rtw_netif_rx ad1 x) = rx_keeps ad ad1" "rx_keeps ad (rtw_xmit_entry ad1 x) = rx_keeps ad ad1"
  "rx_keeps ad (rtw_handle_tkip_mic_err ad1) = rx_keeps ad ad1"
  "rx_keeps ad (ad1\<lparr>skb_cnt := n\<rparr>) = rx_keeps ad ad1" "rx_keeps ad (ad1\<lparr>securitypriv := sec\<rparr>) = rx_keeps ad ad1"
  "rx_keeps ad (ad1\<lparr>netif_out := xs\<rparr>) = rx_keeps ad ad1"
  by (simp_all add: rx_keeps_def rtw_free_recvframe_def set_sec_def set_defrag_q_def set_ctrl_def Let_def
      drop_count_def rtw_netif_rx_def rtw_xmit_entry_def rtw_handle_tkip_mic_err_def)

lemma rx_keeps_free_queue [simp]: "rx_keeps ad (rtw_free_recvframe_queue ad1 fs) = rx_keeps ad ad1"
  unfolding rtw_free_recvframe_queue_def by (induction fs arbitrary: ad1) simp_all

lemma decryptor_keeps: "decryptor ad rf = Some (r, ad') \<Longrightarrow> rx_keeps ad ad'"
  by (auto simp: decryptor_def Let_def split: bind_splits if_splits)

lemma chkmic_keeps: "recvframe_chkmic ad rf = Some (r, ad', rf') \<Longrightarrow> rx_keeps ad ad'"
  by (auto simp: recvframe_chkmic_def Let_def split: bind_splits if_splits option.splits)

lemma defrag_keeps: "recvframe_defrag ad p = Some (r, ad') \<Longrightarrow> rx_keeps ad ad'"
  by (auto simp: recvframe_defrag_def Let_def split: bind_splits if_splits list.splits)

lemma bind_SomeE: "x \<bind> f = Some y \<Longrightarrow> (\<And>a. x = Some a \<Longrightarrow> f a = Some y \<Longrightarrow> thesis) \<Longrightarrow> thesis"
  by (cases x) auto

lemma chk_defrag_keeps:
  assumes "recvframe_chk_defrag ad rf = Some (r, ad')"
  shows "rx_keeps ad ad'"
  using assms unfolding recvframe_chk_defrag_def Let_def
proof (elim bind_SomeE)
  fix x assume x: "(if rx_mfrag (rf_attrib rf) = 1 then do {
           q \<leftarrow> defrag_queue_of ad rf;
           Some (case q of
               None \<Rightarrow> (None, rtw_free_recvframe ad rf)
             | Some p \<Rightarrow> (None, set_defrag_q
                   (if rx_frag_num (rf_attrib rf) = 0
                    then rtw_free_recvframe_queue (set_defrag_q ad p []) (get_defrag_q ad p) else ad) p
                   (get_defrag_q (if rx_frag_num (rf_attrib rf) = 0
                    then rtw_free_recvframe_queue (set_defrag_q ad p []) (get_defrag_q ad p) else ad) p @ [rf])))
         }
         else if rx_mfrag (rf_attrib rf) = 0 \<and> rx_frag_num (rf_attrib rf) \<noteq> 0 then do {
           q \<leftarrow> defrag_queue_of ad rf;
           (case q of
              None \<Rightarrow> Some (None, rtw_free_recvframe ad rf)
            | Some p \<Rightarrow> recvframe_defrag (set_defrag_q ad p (get_defrag_q ad p @ [rf])) p)
         }
         else Some (if rx_mfrag (rf_attrib rf) = 0 then Some rf else None, ad)) = Some x"
    and y: "(case x of (prtn, ad1) \<Rightarrow> (case prtn of
         None \<Rightarrow> Some (None, ad1)
       | Some pr \<Rightarrow>
           if rx_privacy (rf_attrib pr) then do {
             (res, ad2, pr1) \<leftarrow> recvframe_chkmic ad1 pr;
             Some (if res = FAIL then (None, rtw_free_recvframe ad2 pr1) else (Some pr1, ad2))
           }
           else Some (Some pr, ad1))) = Some (r, ad')"
  obtain prtn ad1 where px: "x = (prtn, ad1)" by (cases x)
  have keeps_set: "rx_keeps (set_defrag_q ad p q) ad1 = rx_keeps ad ad1" for p q
    by (simp add: rx_keeps_def set_defrag_q_def Let_def)
  have "rx_keeps ad ad1" using x unfolding px
    by (auto split: if_splits option.splits bind_splits dest!: defrag_keeps simp: keeps_set)
  then show ?thesis using y unfolding px
    by (auto split: if_splits option.splits bind_splits dest!: chkmic_keeps) (blast intro: rx_keeps_trans)+
qed

lemma portctrl_keeps: "portctrl ad rf = Some (r, ad') \<Longrightarrow> rx_keeps ad ad'"
  by (auto simp: portctrl_def Let_def split: bind_splits if_splits option.splits)

lemma amsdu_keeps: "rx_keeps ad (snd (amsdu_to_msdu ad rf))"
proof -
  define X where "X = rf_data (if 0 < rx_iv_len (rf_attrib rf)
      then pull_ignored (pull_ignored rf (rx_hdrlen (rf_attrib rf))) (rx_iv_len (rf_attrib rf))
      else pull_ignored rf (rx_hdrlen (rf_attrib rf)))"
  obtain a bad subs where lp: "amsdu_loop ad 0 X = (a, bad, subs)" using prod_cases3 by blast
  obtain n where a: "a = ad\<lparr>skb_cnt := n\<rparr>" using amsdu_loop_only_allocates [of ad 0 X] lp by auto
  have "rx_keeps ad (foldl (\<lambda>ad sub. rtw_netif_rx ad (g sub)) ad1 subs) = rx_keeps ad ad1" for g ad1
    by (induction subs arbitrary: ad1) simp_all
  then show ?thesis by (simp add: amsdu_to_msdu_def X_def [symmetric] lp a Let_def)
qed

lemma indicatepkt_keeps: "rtw_recv_indicatepkt ad rf = Some ad' \<Longrightarrow> rx_keeps ad ad'"
  by (auto simp: rtw_recv_indicatepkt_def skb_get_def Let_def split: if_splits option.splits)

lemma indicate_one_keeps: "indicate_one ad rf = Some ad' \<Longrightarrow> rx_keeps ad ad'"
  using amsdu_keeps [of ad rf]
  by (auto simp: indicate_one_def split: if_splits prod.splits dest: indicatepkt_keeps)

lemma indicate_loop_keeps: "indicate_loop ad seq fs = Some (ad', r) \<Longrightarrow> rx_keeps ad ad'"
  by (induction ad seq fs rule: indicate_loop.induct)
    (auto split: if_splits bind_splits dest: indicate_one_keeps intro: rx_keeps_trans)

lemma in_order_keeps: "recv_indicatepkts_in_order ad c forced = Some (r, ad', c') \<Longrightarrow> rx_keeps ad ad'"
  by (auto simp: recv_indicatepkts_in_order_def split: if_splits bind_splits dest: indicate_loop_keeps)

lemma reorder_locked_keeps: "reorder_locked ad rf = Some (r, ad') \<Longrightarrow> rx_keeps ad ad'"
  by (auto simp: reorder_locked_def Let_def split: prod.splits if_splits bind_splits dest: in_order_keeps)

lemma keeps_set_ctrl: "rx_keeps (set_ctrl ad i c) ad' = rx_keeps ad ad'"
  by (simp add: rx_keeps_def set_ctrl_def Let_def)

lemma reorder_keeps: "recv_indicatepkt_reorder ad rf = Some (r, ad') \<Longrightarrow> rx_keeps ad ad'"
  using amsdu_keeps [of "set_ctrl ad (rf_ctrl rf) ((get_ctrl ad (rf_ctrl rf))\<lparr>ro_indicate_seq := seq_of rf\<rparr>)" rf]
  by (auto simp: recv_indicatepkt_reorder_def Let_def keeps_set_ctrl split: prod.splits if_splits bind_splits
      dest!: indicatepkt_keeps reorder_locked_keeps)

lemma process_keeps: "process_recv_indicatepkts ad rf = Some (r, ad') \<Longrightarrow> rx_keeps ad ad'"
  by (auto simp: process_recv_indicatepkts_def split: prod.splits if_splits bind_splits
      dest: reorder_keeps indicatepkt_keeps)

lemma posthandle_keeps:
  assumes "recv_func_posthandle ad rf = Some (r, ad')"
  shows "rx_keeps ad ad'"
  using assms unfolding recv_func_posthandle_def
  by (auto split: bind_splits option.splits if_splits
      dest!: decryptor_keeps chk_defrag_keeps portctrl_keeps process_keeps) (blast intro: rx_keeps_trans)+

section \<open>The loops over the waiting frames\<close>

lemma alloc_pending:
  "rtw_alloc_recvframe ad UcSwdecPendingQueue =
     (case uc_swdec_pending_queue ad of [] \<Rightarrow> (None, ad)
      | f # fs \<Rightarrow> (Some f, ad\<lparr>uc_swdec_pending_queue := fs\<rparr>))"
  by (simp add: rtw_alloc_recvframe_def get_queue_def set_queue_def split: list.split)

text \<open>The loop of \<open>rtw_free_uc_swdec_pending_queue\<close>; \<open>cnt\<close> counts the frames.\<close>

function free_pending_loop :: "nat \<Rightarrow> adapter \<Rightarrow> nat \<times> adapter" where
  "free_pending_loop cnt ad =
     (case rtw_alloc_recvframe ad UcSwdecPendingQueue of
        (None, ad1) \<Rightarrow> (cnt, ad1)
      | (Some f, ad1) \<Rightarrow> free_pending_loop (cnt + 1) (rtw_free_recvframe ad1 f))"
  by pat_completeness auto

termination
  by (relation "measure (\<lambda>(cnt, ad). length (uc_swdec_pending_queue ad))")
    (auto simp: alloc_pending rtw_free_recvframe_def split: list.splits)

declare free_pending_loop.simps [simp del]

definition rtw_free_uc_swdec_pending_queue :: "adapter \<Rightarrow> nat \<times> adapter" where
  "rtw_free_uc_swdec_pending_queue ad = free_pending_loop 0 ad"

text \<open>The loop of \<open>recv_func\<close> once a key is there.\<close>

function post_pending_loop :: "adapter \<Rightarrow> adapter option" where
  "post_pending_loop ad =
     (case rtw_alloc_recvframe ad UcSwdecPendingQueue of
        (None, ad1) \<Rightarrow> Some ad1
      | (Some f, ad1) \<Rightarrow>
          (case recv_func_posthandle ad1 f of None \<Rightarrow> None | Some (r, ad2) \<Rightarrow> post_pending_loop ad2))"
  by pat_completeness auto

termination
  by (relation "measure (\<lambda>ad. length (uc_swdec_pending_queue ad))")
    (auto simp: alloc_pending rx_keeps_def split: list.splits dest!: posthandle_keeps)

declare post_pending_loop.simps [simp del]

section \<open>The entry\<close>

text \<open>A unicast frame for which the key has not been installed yet.\<close>

definition wait_for_key :: "adapter \<Rightarrow> recv_frame \<Rightarrow> bool" where
  "wait_for_key ad rf \<longleftrightarrow>
     (let a = rf_attrib rf; sec = securitypriv ad in
      check_fwstate ad WIFI_STATION_STATE \<and> \<not> IS_MCAST (rx_ra a) \<and> rx_encrypt a \<noteq> NO_PRIVACY \<and>
      (\<not> rx_bdecrypted a \<or> sec_sw_decrypt sec) \<and> sec_ndisauthtype sec = Ndis802_11AuthModeWPAPSK \<and>
      \<not> sec_busetkipkey sec)"

definition recv_func ::
  "(nat \<Rightarrow> mgt_handler) \<Rightarrow> mgt_handler \<Rightarrow> u16 \<Rightarrow> adapter \<Rightarrow> recv_frame \<Rightarrow> (nat \<times> adapter) option" where
  "recv_func handlers on_auth_client stale ad rf = do {
     ad1 \<leftarrow> (if check_fwstate ad WIFI_STATION_STATE \<and> sec_busetkipkey (securitypriv ad)
            then post_pending_loop ad else Some ad);
     (ret, rf1, ad2) \<leftarrow> recv_func_prehandle handlers on_auth_client stale ad1 rf;
     if ret \<noteq> SUCCESS then Some (ret, ad2)
     else if wait_for_key ad2 rf1 then
       let ad3 = rtw_enqueue_recvframe ad2 rf1 UcSwdecPendingQueue in
       if free_recvframe_cnt ad3 < int (NR_RECVFRAME div 4) then
         (case rtw_alloc_recvframe ad3 UcSwdecPendingQueue of
            (Some f, ad4) \<Rightarrow> recv_func_posthandle ad4 f
          | (None, ad4) \<Rightarrow> Some (ret, ad4))
       else Some (ret, ad3)
     else recv_func_posthandle ad2 rf1 }"

end
