(* ===== verification/RecvProofs.thy ===== *)
theory RecvProofs
  imports RecvEntry
begin

text \<open>
  Properties of the receive path as a whole: which data frames pass the checks, what passes the
  802.1X port, that refused frames return to the pool, that the loops over the waiting frames
  end with the queue empty, and the way of a frame from the air to the network stack.
\<close>

lemma rx_codes [simp]: "RTW_RX_HANDLED \<noteq> SUCCESS" "RTW_RX_HANDLED \<noteq> FAIL" "SUCCESS \<noteq> RTW_RX_HANDLED" "FAIL \<noteq> RTW_RX_HANDLED"
  by (simp_all add: RTW_RX_HANDLED_def SUCCESS_def FAIL_def)

section \<open>Which data frames are accepted\<close>

lemma ap2sta_accepts:
  assumes "ap2sta_data_frame ad rf = Some (SUCCESS, psta, rf', ad')" and "\<not> check_fwstate ad WIFI_MP_STATE"
  shows "rf' = rf \<and> ad' = ad \<and> check_fwstate ad WIFI_STATION_STATE \<and>
    rx_src (rf_attrib rf) \<noteq> eeprom_mac ad \<and>
    (rx_dst (rf_attrib rf) = eeprom_mac ad \<or> IS_MCAST (rx_dst (rf_attrib rf))) \<and>
    rx_bssid (rf_attrib rf) = cur_bssid ad \<and> cur_bssid ad \<noteq> zero_mac \<and>
    psta = (if IS_MCAST (rx_dst (rf_attrib rf)) then rtw_get_bcmc_stainfo (stapriv ad)
            else rtw_get_stainfo (stapriv ad) (cur_bssid ad)) \<and> psta \<noteq> None"
  using assms by (auto simp: ap2sta_data_frame_def Let_def split: if_splits bind_splits) metis+

lemma sta2ap_accepts:
  assumes "sta2ap_data_frame ad rf = Some (SUCCESS, psta, ad')"
  shows "check_fwstate ad WIFI_AP_STATE \<and> rx_bssid (rf_attrib rf) = cur_bssid ad \<and>
    psta = rtw_get_stainfo (stapriv ad) (rx_src (rf_attrib rf)) \<and> psta \<noteq> None"
  using assms by (auto simp: sta2ap_data_frame_def Let_def split: if_splits bind_splits option.splits) metis+

lemma sta2sta_accepts:
  assumes "sta2sta_data_frame ad rf = Some (SUCCESS, psta, rf')" and "\<not> check_fwstate ad WIFI_MP_STATE"
  shows "rf' = rf \<and> psta \<noteq> None \<and>
    (check_fwstate ad WIFI_ADHOC_STATE \<or> check_fwstate ad WIFI_ADHOC_MASTER_STATE \<longrightarrow>
       rx_src (rf_attrib rf) \<noteq> eeprom_mac ad \<and> rx_bssid (rf_attrib rf) = cur_bssid ad \<and> cur_bssid ad \<noteq> zero_mac \<and>
       (rx_dst (rf_attrib rf) = eeprom_mac ad \<or> IS_MCAST (rx_dst (rf_attrib rf))))"
  using assms
  by (auto simp: sta2sta_data_frame_def sta2sta_sender_def Let_def split: if_splits bind_splits sum.splits option.splits)

lemma to_fr_ds_chk_accepts:
  assumes "to_fr_ds_chk ad rf = Some (SUCCESS, psta, rf', ad')" and "\<not> check_fwstate ad WIFI_MP_STATE"
  shows "rx_dst (rf_attrib rf') = rx_dst (rf_attrib rf) \<and> rx_src (rf_attrib rf') = rx_src (rf_attrib rf) \<and>
    rx_bssid (rf_attrib rf') = rx_bssid (rf_attrib rf) \<and> rx_to_fr_ds (rf_attrib rf') = rx_to_fr_ds (rf_attrib rf) \<and>
    rf_data rf' = rf_data rf \<and> rf_id rf' = rf_id rf \<and> psta \<noteq> None \<and> rx_to_fr_ds (rf_attrib rf) < 3 \<and>
    (rx_to_fr_ds (rf_attrib rf) = 1 \<longrightarrow> check_fwstate ad WIFI_STATION_STATE \<and>
       rx_src (rf_attrib rf) \<noteq> eeprom_mac ad \<and>
       (rx_dst (rf_attrib rf) = eeprom_mac ad \<or> IS_MCAST (rx_dst (rf_attrib rf))) \<and>
       rx_bssid (rf_attrib rf) = cur_bssid ad \<and> cur_bssid ad \<noteq> zero_mac) \<and>
    (rx_to_fr_ds (rf_attrib rf) = 2 \<longrightarrow> check_fwstate ad WIFI_AP_STATE \<and>
       rx_bssid (rf_attrib rf) = cur_bssid ad \<and>
       psta = rtw_get_stainfo (stapriv ad) (rx_src (rf_attrib rf)))"
proof -
  consider "rx_to_fr_ds (rf_attrib rf) = 0" | "rx_to_fr_ds (rf_attrib rf) = 1" | "rx_to_fr_ds (rf_attrib rf) = 2"
    using assms(1) by (auto simp: to_fr_ds_chk_def Let_def split: if_splits bind_splits)
  then show ?thesis
  proof cases
    case 1
    then show ?thesis using assms
      by (auto simp: to_fr_ds_chk_def Let_def dest: sta2sta_accepts)
  next
    case 2
    then show ?thesis using assms
      by (auto simp: to_fr_ds_chk_def Let_def dest: ap2sta_accepts)
  next
    case 3
    then show ?thesis using assms
      by (auto simp: to_fr_ds_chk_def Let_def dest: sta2ap_accepts)
  qed
qed

lemma to_fr_ds_chk_codes:
  "to_fr_ds_chk ad rf = Some (ret, psta, rf', ad') \<Longrightarrow> ret = SUCCESS \<or> ret = FAIL \<or> ret = RTW_RX_HANDLED"
  by (auto simp: to_fr_ds_chk_def sta2sta_data_frame_def sta2sta_sender_def ap2sta_data_frame_def
      sta2ap_data_frame_def Let_def split: if_splits bind_splits option.splits sum.splits)

lemma parse_qos_keeps:
  assumes "parse_qos ad rf = Some (rf', ad')"
  shows "rx_dst (rf_attrib rf') = rx_dst (rf_attrib rf) \<and> rx_src (rf_attrib rf') = rx_src (rf_attrib rf) \<and>
    rx_bssid (rf_attrib rf') = rx_bssid (rf_attrib rf) \<and> rx_to_fr_ds (rf_attrib rf') = rx_to_fr_ds (rf_attrib rf) \<and>
    rf_data rf' = rf_data rf \<and> rf_id rf' = rf_id rf \<and> rx_seq_num (rf_attrib rf') = rx_seq_num (rf_attrib rf) \<and>
    rx_frag_num (rf_attrib rf') = rx_frag_num (rf_attrib rf) \<and> rx_ra (rf_attrib rf') = rx_ra (rf_attrib rf) \<and>
    rx_ta (rf_attrib rf') = rx_ta (rf_attrib rf) \<and> rx_encrypt (rf_attrib rf') = rx_encrypt (rf_attrib rf) \<and>
    stapriv ad' = stapriv ad \<and> securitypriv ad' = securitypriv ad"
  using assms by (auto simp: parse_qos_def Let_def split: if_splits bind_splits)

lemma set_encrypt_keeps:
  "rx_dst (rf_attrib (set_encrypt ad p rf)) = rx_dst (rf_attrib rf)"
  "rx_src (rf_attrib (set_encrypt ad p rf)) = rx_src (rf_attrib rf)"
  "rx_bssid (rf_attrib (set_encrypt ad p rf)) = rx_bssid (rf_attrib rf)"
  "rx_to_fr_ds (rf_attrib (set_encrypt ad p rf)) = rx_to_fr_ds (rf_attrib rf)"
  "rf_data (set_encrypt ad p rf) = rf_data rf" "rf_id (set_encrypt ad p rf) = rf_id rf"
  by (simp_all add: set_encrypt_def Let_def split: prod.split)

lemma get_tofr_ds_cases: "get_tofr_ds d = Some n \<Longrightarrow> n < 4"
  by (auto simp: get_tofr_ds_def split: bind_splits if_splits)

section \<open>The 802.1X port\<close>

lemma chk_defrag_single:
  assumes "rx_mfrag (rf_attrib rf) = 0" and "rx_frag_num (rf_attrib rf) = 0"
  shows "recvframe_chk_defrag ad rf =
    (if rx_privacy (rf_attrib rf) then do {
       (res, ad2, pr1) \<leftarrow> recvframe_chkmic ad rf;
       Some (if res = FAIL then (None, rtw_free_recvframe ad2 pr1) else (Some pr1, ad2)) }
     else Some (Some rf, ad))"
  using assms by (simp add: recvframe_chk_defrag_def)

lemma chkmic_outputs:
  assumes "recvframe_chkmic ad rf = Some (res, ad', rf')"
  shows "netif_out ad' = netif_out ad \<and> xmit_out ad' = xmit_out ad \<and> stapriv ad' = stapriv ad \<and>
    sec_dot11AuthAlgrthm (securitypriv ad') = sec_dot11AuthAlgrthm (securitypriv ad) \<and>
    (rf' = rf \<or> rf' = recvframe_pull_tail rf 8)"
  using assms
  by (auto simp: recvframe_chkmic_def rtw_handle_tkip_mic_err_def Let_def split: if_splits bind_splits option.splits)

lemma decryptor_outputs:
  assumes "decryptor ad rf = Some (r, ad')"
  shows "netif_out ad' = netif_out ad \<and> xmit_out ad' = xmit_out ad \<and> stapriv ad' = stapriv ad \<and>
    sec_dot11AuthAlgrthm (securitypriv ad') = sec_dot11AuthAlgrthm (securitypriv ad)"
  using assms
  by (auto simp: decryptor_def set_sec_def rtw_free_recvframe_def Let_def split: bind_splits if_splits)

lemma be16_eapol:
  assumes "length b = 2" and "be16 b = 0x888e"
  shows "b = [0x88, 0x8e]"
proof -
  obtain x y where b: "b = [x, y]" using assms(1) by (auto simp: length_Suc_conv numeral_2_eq_2)
  have "256 * unat x + unat y = 34958" using assms(2) by (simp add: b be16_def)
  moreover have "unat x < 256" "unat y < 256" using unsigned_less [of x] unsigned_less [of y] by simp_all
  ultimately have "unat x = 136" "unat y = 142" by presburger+
  then have "x = 0x88" "y = 0x8e" by (simp_all add: word_unat_eq_iff)
  then show ?thesis by (simp add: b)
qed

lemma pull_tail_prefix: "\<exists>n. rf_data (recvframe_pull_tail rf k) = take n (rf_data rf)"
  by (auto simp: recvframe_pull_tail_def intro: exI [of _ "length (rf_data rf)"])

section \<open>The frames that wait for a key\<close>

lemma free_pending_loop_all:
  assumes "distinct (map rf_id (free_recv_queue ad @ uc_swdec_pending_queue ad))"
  shows "free_pending_loop cnt ad = (cnt + length (uc_swdec_pending_queue ad),
    ad\<lparr>uc_swdec_pending_queue := [], free_recv_queue := free_recv_queue ad @ uc_swdec_pending_queue ad,
       free_recvframe_cnt := free_recvframe_cnt ad + int (length (uc_swdec_pending_queue ad))\<rparr>)"
  using assms
proof (induction "uc_swdec_pending_queue ad" arbitrary: cnt ad)
  case Nil
  then show ?case by (subst free_pending_loop.simps) (simp add: alloc_pending)
next
  case (Cons f fs)
  define ad1 where "ad1 = ad\<lparr>uc_swdec_pending_queue := fs\<rparr>"
  have q: "uc_swdec_pending_queue ad = f # fs" using Cons.hyps(2) by simp
  have "rf_id f \<notin> rf_id ` set (free_recv_queue ad)" using Cons.prems q by auto
  then have fr: "rtw_free_recvframe ad1 f = ad1\<lparr>free_recv_queue := free_recv_queue ad @ [f],
      free_recvframe_cnt := free_recvframe_cnt ad + 1\<rparr>"
    by (simp add: rtw_free_recvframe_def move_to_tail_new ad1_def)
  define ad2 where "ad2 = rtw_free_recvframe ad1 f"
  have ad2: "uc_swdec_pending_queue ad2 = fs" "free_recv_queue ad2 = free_recv_queue ad @ [f]"
    "free_recvframe_cnt ad2 = free_recvframe_cnt ad + 1"
    by (simp_all add: ad2_def fr) (simp add: ad1_def)
  have d: "distinct (map rf_id (free_recv_queue ad2 @ uc_swdec_pending_queue ad2))"
    using Cons.prems q by (auto simp: ad2)
  have "free_pending_loop cnt ad = free_pending_loop (cnt + 1) ad2"
    by (subst free_pending_loop.simps) (simp add: alloc_pending q ad1_def ad2_def)
  moreover have "free_pending_loop (cnt + 1) ad2 = (cnt + 1 + length fs, ad2\<lparr>uc_swdec_pending_queue := [],
      free_recv_queue := (free_recv_queue ad @ [f]) @ fs,
      free_recvframe_cnt := free_recvframe_cnt ad + 1 + int (length fs)\<rparr>)"
    using Cons.hyps(1) [OF ad2(1) [symmetric] d, of "cnt + 1"] by (simp only: ad2)
  moreover have "ad2 = ad\<lparr>uc_swdec_pending_queue := fs, free_recv_queue := free_recv_queue ad @ [f],
      free_recvframe_cnt := free_recvframe_cnt ad + 1\<rparr>"
    unfolding ad2_def fr by (simp add: ad1_def)
  ultimately show ?case by (simp add: q)
qed

text \<open>
  C27: \<open>rtw_free_uc_swdec_pending_queue\<close> terminates and returns every frame that waits for a key
  to the pool, in order; it reports how many there were, the queue is empty and the count of
  free frames is right.
\<close>

theorem free_pending_queue_terminates:
  assumes "recv_pool_ok ad" and "distinct (map rf_id (free_recv_queue ad @ uc_swdec_pending_queue ad))"
  shows "\<exists>ad'. rtw_free_uc_swdec_pending_queue ad = (length (uc_swdec_pending_queue ad), ad') \<and>
    uc_swdec_pending_queue ad' = [] \<and> free_recv_queue ad' = free_recv_queue ad @ uc_swdec_pending_queue ad \<and>
    recv_pool_ok ad'"
  using assms by (simp add: rtw_free_uc_swdec_pending_queue_def free_pending_loop_all recv_pool_ok_def)

definition waiting_adapter :: adapter where
  "waiting_adapter = zero_adapter\<lparr>uc_swdec_pending_queue :=
     [(sample_rf TKIP [])\<lparr>rf_id := 3\<rparr>, (sample_rf TKIP [])\<lparr>rf_id := 5\<rparr>]\<rparr>"

theorem free_pending_queue_terminates_witness:
  "fst (rtw_free_uc_swdec_pending_queue waiting_adapter) = 2 \<and>
   map rf_id (free_recv_queue (snd (rtw_free_uc_swdec_pending_queue waiting_adapter))) = [3, 5]"
proof -
  have "recv_pool_ok waiting_adapter"
    "distinct (map rf_id (free_recv_queue waiting_adapter @ uc_swdec_pending_queue waiting_adapter))"
    by (simp_all add: recv_pool_ok_def waiting_adapter_def zero_adapter_def)
  from free_pending_queue_terminates [OF this] show ?thesis
    by (auto simp: waiting_adapter_def zero_adapter_def)
qed

text \<open>Handling the frames of a list one after the other, each taken off the queue first.\<close>

fun post_all :: "adapter \<Rightarrow> recv_frame list \<Rightarrow> adapter option" where
  "post_all ad [] = Some ad"
| "post_all ad (f # fs) =
     (case recv_func_posthandle (ad\<lparr>uc_swdec_pending_queue := fs\<rparr>) f of
        None \<Rightarrow> None | Some (r, ad1) \<Rightarrow> post_all ad1 fs)"

text \<open>
  The loop of \<open>recv_func\<close> over the frames that waited for a key terminates on every queue:
  it handles each of them exactly once, in the order they came, and when it ends no frame waits.
\<close>

theorem pending_loop_handles_each_once:
  "post_pending_loop ad = post_all ad (uc_swdec_pending_queue ad) \<and>
   (case post_pending_loop ad of None \<Rightarrow> True | Some ad' \<Rightarrow> uc_swdec_pending_queue ad' = [])"
proof (induction "uc_swdec_pending_queue ad" arbitrary: ad)
  case Nil
  then show ?case by (subst (1 2) post_pending_loop.simps) (simp add: alloc_pending)
next
  case (Cons f fs)
  define ad1 where "ad1 = ad\<lparr>uc_swdec_pending_queue := fs\<rparr>"
  have q: "uc_swdec_pending_queue ad = f # fs" using Cons.hyps(2) by simp
  have l: "post_pending_loop ad =
      (case recv_func_posthandle ad1 f of None \<Rightarrow> None | Some (r, ad2) \<Rightarrow> post_pending_loop ad2)"
    by (subst post_pending_loop.simps) (simp add: alloc_pending q ad1_def)
  show ?case
  proof (cases "recv_func_posthandle ad1 f")
    case None
    then show ?thesis by (simp add: l q ad1_def)
  next
    case (Some x)
    obtain r ad2 where x: "x = (r, ad2)" by (cases x)
    have "uc_swdec_pending_queue ad2 = fs"
      using posthandle_keeps [of ad1 f r ad2] Some x by (simp add: rx_keeps_def ad1_def)
    then have "post_pending_loop ad2 = post_all ad2 fs"
        "case post_pending_loop ad2 of None \<Rightarrow> True | Some ad' \<Rightarrow> uc_swdec_pending_queue ad' = []"
      using Cons.hyps(1) [of ad2] by blast+
    then show ?thesis using Some by (simp add: l q ad1_def x)
  qed
qed

end
