(* ===== verification/RecvTheorems.thy ===== *)
theory RecvTheorems
  imports RecvProofs
begin

text \<open>
  The way of a data frame through \<open>recv_func\<close>, from the air to the network stack or back to the
  pool.
\<close>

section \<open>A frame from the access point\<close>

text \<open>
  The header of a data frame an access point sends to its station: type data, direction \<open>FrDs\<close>,
  not protected, not a fragment; body and sequence control are arbitrary.
\<close>

definition down_frame :: "u16 \<Rightarrow> mac \<Rightarrow> mac \<Rightarrow> mac \<Rightarrow> u16 \<Rightarrow> byte list \<Rightarrow> byte list" where
  "down_frame dur own bssid sa sc body = hdr3 0x0208 dur own bssid sa sc @ body"

lemma down_frame_length: "is_mac own \<Longrightarrow> is_mac bssid \<Longrightarrow> is_mac sa \<Longrightarrow>
    length (down_frame dur own bssid sa sc body) = 24 + length body"
  by (simp add: down_frame_def hdr3_def is_mac_def)

lemma down_frame_fields:
  fixes own bssid sa :: mac and dur sc :: u16 and body :: "byte list"
  assumes "is_mac own" and "is_mac bssid" and "is_mac sa"
  defines "d \<equiv> down_frame dur own bssid sa sc body"
  shows "rd d 0 = Some 0x08" "get_tofr_ds d = Some 1" "GetPwrMgt d = Some False" "GetMFrag d = Some False"
    "GetMData d = Some False" "GetPrivacy d = Some False" "GetOrder d = Some False"
    "get_le16 d 22 = Some sc" "get_da d = Some own" "get_sa d = Some sa" "get_hdr_bssid d = Some bssid"
proof -
  note f = hdr3_fields [OF assms(1-3), of "0x0208" dur sc body, folded down_frame_def d_def]
  show "rd d 0 = Some 0x08" by (simp add: d_def down_frame_def hdr3_def le16_bytes_def rd_def)
  show ds: "get_tofr_ds d = Some 1"
    by (simp add: get_tofr_ds_def GetToDs_def GetFrDs_def fc_bit_def f)
  show "GetPwrMgt d = Some False" "GetMFrag d = Some False" "GetMData d = Some False"
    "GetPrivacy d = Some False" "GetOrder d = Some False"
    by (simp_all add: GetPwrMgt_def GetMFrag_def GetMData_def GetPrivacy_def GetOrder_def fc_bit_def f)
  show "get_le16 d 22 = Some sc" by (rule f)
  show "get_da d = Some own" "get_sa d = Some sa" "get_hdr_bssid d = Some bssid"
    by (simp_all add: get_da_def get_sa_def get_hdr_bssid_def ds f)
qed

text \<open>What the checks make of the attributes of such a frame.\<close>

definition down_attrib :: "rx_pkt_attrib \<Rightarrow> mac \<Rightarrow> mac \<Rightarrow> mac \<Rightarrow> u16 \<Rightarrow> rx_pkt_attrib" where
  "down_attrib a own bssid sa sc = a\<lparr>rx_to_fr_ds := 1, rx_frag_num := unat (sc AND 0x0f), rx_seq_num := drop_bit 4 sc,
     rx_pw_save := False, rx_mfrag := 0, rx_mdata := False, rx_privacy := False, rx_order := False, rx_qos := 0,
     rx_dst := own, rx_src := sa, rx_bssid := bssid, rx_ra := own, rx_ta := bssid, rx_amsdu := 0,
     rx_ack_policy := 0, rx_priority := 0, rx_hdrlen := 24\<rparr>"

lemma seq_ctrl_join: "push_bit 4 (drop_bit 4 sc AND 0xffff) OR (of_nat (unat (sc AND 0x0f)) AND 0xf) = (sc :: u16)"
proof -
  have m: "(0xffff :: u16) = mask 16" "(0xf :: u16) = mask 4" by (simp_all add: mask_eq_exp_minus_1)
  show ?thesis unfolding m by (rule bit_word_eqI) (auto simp: bit_simps)
qed

text \<open>A station that has joined the network \<open>bssid\<close> of which \<open>p\<close> is the entry.\<close>

definition joined :: "adapter \<Rightarrow> mac \<Rightarrow> nat \<Rightarrow> bool" where
  "joined ad bssid p \<longleftrightarrow> check_fwstate ad WIFI_STATION_STATE \<and> check_fwstate ad FW_LINKED \<and>
     \<not> check_fwstate ad WIFI_MP_STATE \<and> \<not> check_fwstate ad WIFI_AP_STATE \<and>
     is_mac (eeprom_mac ad) \<and> \<not> IS_MCAST (eeprom_mac ad) \<and>
     cur_bssid ad = bssid \<and> is_mac bssid \<and> bssid \<noteq> zero_mac \<and> rtw_get_stainfo (stapriv ad) bssid = Some p"

lemma validate_down_frame:
  assumes j: "joined ad bssid p" and sa: "is_mac sa" "sa \<noteq> eeprom_mac ad"
    and d: "rf_data rf = down_frame dur (eeprom_mac ad) bssid sa sc body"
    and enc: "rx_encrypt (rf_attrib rf) = NO_PRIVACY"
  defines "a \<equiv> down_attrib (rf_attrib rf) (eeprom_mac ad) bssid sa sc" and "si \<equiv> sta_of ad p"
  shows "validate_recv_frame h oc stale ad rf =
    (if si_tid_rxseq si 0 = sc
     then Some (FAIL, rf\<lparr>rf_attrib := a, rf_ctrl := (p, 0)\<rparr>, ad\<lparr>rx_drop := rx_drop ad + 1\<rparr>)
     else Some (SUCCESS, rf\<lparr>rf_attrib := a\<lparr>rx_encrypt := NO_PRIVACY, rx_iv_len := 0, rx_icv_len := 0\<rparr>,
                            rf_ctrl := (p, 0)\<rparr>,
                set_sta ad p (si\<lparr>si_tid_rxseq := (si_tid_rxseq si)(0 := sc)\<rparr>)))"
proof -
  note jj = j [unfolded joined_def]
  have macs: "is_mac (eeprom_mac ad)" "is_mac bssid" using jj by simp_all
  note f = down_frame_fields [OF macs sa(1), of dur sc body]
  define b where "b = (rf_attrib rf)\<lparr>rx_to_fr_ds := 1, rx_frag_num := unat (sc AND 0x0f), rx_seq_num := drop_bit 4 sc,
     rx_pw_save := False, rx_mfrag := 0, rx_mdata := False, rx_privacy := False, rx_order := False\<rparr>"
  have h: "header_attrib stale rf = Some (rf\<lparr>rf_attrib := b\<rparr>)"
    unfolding header_attrib_def Let_def d f by (simp add: b_def)
  define g where "g = rf\<lparr>rf_attrib := b\<lparr>rx_qos := 0, rx_dst := eeprom_mac ad, rx_src := sa, rx_bssid := bssid\<rparr>\<rparr>"
  define g1 where "g1 = g\<lparr>rf_attrib := (rf_attrib g)\<lparr>rx_ra := eeprom_mac ad, rx_ta := bssid\<rparr>\<rparr>"
  have ga: "rf_attrib g = b\<lparr>rx_qos := 0, rx_dst := eeprom_mac ad, rx_src := sa, rx_bssid := bssid\<rparr>"
    "rx_to_fr_ds (rf_attrib g) = 1" by (simp_all add: g_def b_def)
  have g1d: "rf_data g1 = down_frame dur (eeprom_mac ad) bssid sa sc body" by (simp add: g1_def g_def d)
  have t: "to_fr_ds_chk ad g = Some (SUCCESS, Some p, g1, ad)"
  proof -
    have "to_fr_ds_chk ad g = ap2sta_data_frame ad g1" using ga by (simp add: to_fr_ds_chk_def g1_def)
    also have "\<dots> = Some (SUCCESS, Some p, g1, ad)"
      using jj sa g1d f(1) unfolding ap2sta_data_frame_def
      by (simp add: g1_def g_def GetFrameSubType_def Let_def)
    finally show ?thesis .
  qed
  define g2 where "g2 = g1\<lparr>rf_attrib := a\<rparr>"
  have q: "parse_qos ad g1 = Some (g2, ad)"
    by (simp add: parse_qos_def g2_def a_def down_attrib_def g1_def g_def b_def)
  have g2: "rf_attrib g2 = a" by (simp add: g2_def)
  have at: "rx_priority a = 0" "rx_seq_num a = drop_bit 4 sc" "rx_frag_num a = unat (sc AND 0x0f)"
    "rx_encrypt a = NO_PRIVACY" "\<not> IS_MCAST (rx_ra a)" "\<not> rx_privacy a"
    using enc jj by (simp_all add: a_def down_attrib_def)
  have c: "decache_checks ad p (g2\<lparr>rf_ctrl := (p, 0)\<rparr>) = (if si_tid_rxseq si 0 = sc then Some (FAIL, ad)
      else Some (SUCCESS, set_sta ad p (si\<lparr>si_tid_rxseq := (si_tid_rxseq si)(0 := sc)\<rparr>)))"
    using at seq_ctrl_join [of sc]
    by (auto simp: decache_checks_def recv_decache_def recv_ucast_pn_decache_def g2 si_def [symmetric] Let_def
        set_sta_def sta_of_def si_def)
  have v: "validate_recv_data_frame ad (rf\<lparr>rf_attrib := b\<lparr>rx_qos := 0\<rparr>\<rparr>) =
      (if si_tid_rxseq si 0 = sc then Some (FAIL, g2\<lparr>rf_ctrl := (p, 0)\<rparr>, ad)
       else Some (SUCCESS, (g2\<lparr>rf_ctrl := (p, 0)\<rparr>)\<lparr>rf_attrib := a\<lparr>rx_encrypt := NO_PRIVACY, rx_iv_len := 0, rx_icv_len := 0\<rparr>\<rparr>,
          set_sta ad p (si\<lparr>si_tid_rxseq := (si_tid_rxseq si)(0 := sc)\<rparr>)))"
    using t q at c d f by (simp add: validate_recv_data_frame_def g_def [symmetric] g2 set_encrypt_def)
  show ?thesis
    using d f h v
    by (simp add: validate_recv_frame_def GetFrameType_def GetFrameSubType_def WIFI_MGT_TYPE_def WIFI_CTRL_TYPE_def
        WIFI_DATA_TYPE_def Let_def g2_def g1_def g_def)
qed

section \<open>Delivery\<close>

text \<open>The port of the station lets the type \<open>t\<close> pass.\<close>

definition port_open :: "adapter \<Rightarrow> nat \<Rightarrow> byte list \<Rightarrow> bool" where
  "port_open ad p t \<longleftrightarrow> sec_dot11AuthAlgrthm (securitypriv ad) \<noteq> dot11AuthAlgrthm_8021X \<or>
     \<not> si_ieee8021x_blocked (sta_of ad p) \<or> t = [0x88, 0x8e]"

text \<open>\<open>no_key\<close>: no key makes frames wait.  \<open>fresh\<close>: the frame is on no queue.\<close>

definition no_key :: "adapter \<Rightarrow> bool" where
  "no_key ad \<longleftrightarrow> sec_busetkipkey (securitypriv ad) \<longrightarrow> uc_swdec_pending_queue ad = []"

definition fresh :: "adapter \<Rightarrow> recv_frame \<Rightarrow> bool" where
  "fresh ad rf \<longleftrightarrow> rf_id rf \<notin> rf_id ` set (free_recv_queue ad) \<and>
     (\<forall>p. rf_id rf \<notin> rf_id ` set (si_defrag_q (sta_of ad p)))"

lemma no_key_loop:
  "no_key ad \<Longrightarrow> (if check_fwstate ad WIFI_STATION_STATE \<and> sec_busetkipkey (securitypriv ad)
     then post_pending_loop ad else Some ad) = Some ad"
  by (subst post_pending_loop.simps) (simp add: no_key_def alloc_pending)

lemma post_plain:
  assumes d: "rf_data rf = hdr @ rtw_rfc1042_header @ t @ payload" "length hdr = 24"
    and a: "rf_attrib rf = a" "rx_hdrlen a = 24" "rx_iv_len a = 0" "rx_encrypt a = NO_PRIVACY" "rx_mfrag a = 0"
      "rx_frag_num a = 0" "\<not> rx_privacy a" "rx_qos a = 0" "rx_amsdu a = 0"
    and t: "length t = 2" "t \<notin> {SNAP_ETH_TYPE_IPX, SNAP_ETH_TYPE_APPLETALK_AARP}"
    and p: "rtw_get_stainfo (stapriv ad) (rx_ta a) = Some p" "port_open ad p t"
    and m: "\<not> check_fwstate ad WIFI_MP_STATE" "\<not> check_fwstate ad WIFI_AP_STATE"
      "is_mac (rx_dst a)" "is_mac (rx_src a)" "running ad"
    and n: "rf_id rf \<notin> rf_id ` set (free_recv_queue ad)"
  shows "\<exists>rf'. rf_id rf' = rf_id rf \<and> recv_func_posthandle ad rf = Some (SUCCESS,
    ad\<lparr>netif_out := netif_out ad @ [rx_dst a @ rx_src a @ t @ payload],
       free_recv_queue := free_recv_queue ad @ [rf'], free_recvframe_cnt := free_recvframe_cnt ad + 1\<rparr>)"
proof -
  have dec: "decryptor ad rf = Some (Some rf, ad)" using a by (simp add: decryptor_def set_key_index_def)
  have def: "recvframe_chk_defrag ad rf = Some (Some rf, ad)" using a by (simp add: chk_defrag_single)
  have b: "rd_slice (rf_data rf) 30 2 = Some t"
    using rd_slice_at [of "hdr @ rtw_rfc1042_header" 30 t 2 payload] d t
    by (simp add: rtw_rfc1042_header_def)
  have port: "portctrl ad rf = Some (Some rf, ad)"
    using a p b by (auto simp: portctrl_def port_open_def LLC_HEADER_SIZE_def dot11AuthAlgrthm_8021X_def be16_def)
  have "\<exists>rf'. wlanhdr_to_ethhdr ad rf = Some (SUCCESS, rf') \<and>
      rf_data rf' = rx_dst a @ rx_src a @ t @ payload \<and> rf_id rf' = rf_id rf \<and> rf_attrib rf' = a \<and> rf_ctrl rf' = rf_ctrl rf"
    using wlanhdr_to_ethhdr_snap [of rf hdr rtw_rfc1042_header t payload "[]" ad] d a t m by simp
  then obtain rf' where w: "wlanhdr_to_ethhdr ad rf = Some (SUCCESS, rf')"
    "rf_data rf' = rx_dst a @ rx_src a @ t @ payload" "rf_id rf' = rf_id rf" "rf_attrib rf' = a" by blast
  have i: "rtw_recv_indicatepkt ad rf' = Some (ad\<lparr>netif_out := netif_out ad @ [rx_dst a @ rx_src a @ t @ payload],
       free_recv_queue := free_recv_queue ad @ [rf'], free_recvframe_cnt := free_recvframe_cnt ad + 1\<rparr>)"
    using m(2) w n by (simp add: rtw_recv_indicatepkt_def rtw_netif_rx_def rtw_free_recvframe_def move_to_tail_new)
  have "process_recv_indicatepkts ad rf = Some (SUCCESS, ad\<lparr>netif_out := netif_out ad @ [rx_dst a @ rx_src a @ t @ payload],
       free_recv_queue := free_recv_queue ad @ [rf'], free_recvframe_cnt := free_recvframe_cnt ad + 1\<rparr>)"
    using w(1) i a m(5) by (simp add: process_recv_indicatepkts_def recv_indicatepkt_reorder_def)
  then show ?thesis using dec def port w(3) by (auto simp: recv_func_posthandle_def)
qed

lemma unlink_nothing: "fresh ad rf \<Longrightarrow> rf_id rf' = rf_id rf \<Longrightarrow> unlink_fragment ad (rf_id rf') = ad"
proof -
  assume f: "fresh ad rf" "rf_id rf' = rf_id rf"
  have "filter (\<lambda>g. rf_id g \<noteq> rf_id rf') (si_defrag_q (sta_buf (stapriv ad) p)) = si_defrag_q (sta_buf (stapriv ad) p)" for p
    using f by (fastforce simp: fresh_def sta_of_def filter_id_conv image_iff)
  then show ?thesis by (simp add: unlink_fragment_def Let_def)
qed

lemma recv_func_delivers:
  assumes "joined ad bssid p" and "is_mac sa" and "sa \<noteq> eeprom_mac ad" and "running ad" and "no_key ad"
    and "rf_data rf = down_frame dur (eeprom_mac ad) bssid sa sc (rtw_rfc1042_header @ t @ payload)"
    and "rx_encrypt (rf_attrib rf) = NO_PRIVACY"
    and "length t = 2" and "t \<notin> {SNAP_ETH_TYPE_IPX, SNAP_ETH_TYPE_APPLETALK_AARP}" and "port_open ad p t"
    and "sc AND 0x0f = 0" and "si_tid_rxseq (sta_of ad p) 0 \<noteq> sc" and "fresh ad rf"
  shows "\<exists>ad'. recv_func h oc stale ad rf = Some (SUCCESS, ad') \<and>
    netif_out ad' = netif_out ad @ [eeprom_mac ad @ sa @ t @ payload] \<and> xmit_out ad' = xmit_out ad \<and>
    map rf_id (free_recv_queue ad') = map rf_id (free_recv_queue ad) @ [rf_id rf] \<and>
    (\<forall>rf'. rf_data rf' = rf_data rf \<and> rx_encrypt (rf_attrib rf') = NO_PRIVACY \<longrightarrow>
       (\<exists>ad''. recv_func h oc stale ad' rf' = Some (FAIL, ad'') \<and>
          netif_out ad'' = netif_out ad' \<and> xmit_out ad'' = xmit_out ad'))"
proof -
  define a where "a = down_attrib (rf_attrib rf) (eeprom_mac ad) bssid sa sc"
  define a1 where "a1 = a\<lparr>rx_encrypt := NO_PRIVACY, rx_iv_len := 0, rx_icv_len := 0\<rparr>"
  define rf1 where "rf1 = rf\<lparr>rf_attrib := a1, rf_ctrl := (p, 0)\<rparr>"
  define ad1 where "ad1 = set_sta ad p ((sta_of ad p)\<lparr>si_tid_rxseq := (si_tid_rxseq (sta_of ad p))(0 := sc)\<rparr>)"
  note j = assms(1) [unfolded joined_def]
  have lookup: "rtw_get_stainfo (stapriv (set_sta ad p si)) m = rtw_get_stainfo (stapriv ad) m"
    if "si_hwaddr si = si_hwaddr (sta_of ad p)" for si m
    using that by (auto simp: get_alt set_sta_def sta_of_def intro!: find_cong)
  have v: "validate_recv_frame h oc stale ad rf = Some (SUCCESS, rf1, ad1)"
    using validate_down_frame [OF assms(1-3,6,7)] assms(12) by (simp add: rf1_def a1_def a_def ad1_def)
  have pre: "recv_func_prehandle h oc stale ad rf = Some (SUCCESS, rf1, ad1)"
    using v by (simp add: recv_func_prehandle_def)
  have wait: "\<not> wait_for_key ad1 rf1" by (simp add: wait_for_key_def rf1_def a1_def)
  obtain rf2 where rf2: "rf_id rf2 = rf_id rf" "recv_func_posthandle ad1 rf1 = Some (SUCCESS,
      ad1\<lparr>netif_out := netif_out ad @ [eeprom_mac ad @ sa @ t @ payload],
        free_recv_queue := free_recv_queue ad @ [rf2], free_recvframe_cnt := free_recvframe_cnt ad + 1\<rparr>)"
  proof -
    have hd: "rf_data rf1 = hdr3 0x0208 dur (eeprom_mac ad) bssid sa sc @ rtw_rfc1042_header @ t @ payload"
      "length (hdr3 0x0208 dur (eeprom_mac ad) bssid sa sc) = 24"
      using assms(2,6) j by (simp_all add: rf1_def down_frame_def hdr3_def is_mac_def)
    have at: "rf_attrib rf1 = a1" "rx_dst a1 = eeprom_mac ad" "rx_src a1 = sa" "rx_ta a1 = bssid" "rf_id rf1 = rf_id rf"
      by (simp_all add: rf1_def a1_def a_def down_attrib_def)
    have "rtw_get_stainfo (stapriv ad1) (rx_ta a1) = Some p" "port_open ad1 p t"
      "\<not> check_fwstate ad1 WIFI_MP_STATE" "\<not> check_fwstate ad1 WIFI_AP_STATE" "running ad1"
      "netif_out ad1 = netif_out ad" "free_recv_queue ad1 = free_recv_queue ad"
      "free_recvframe_cnt ad1 = free_recvframe_cnt ad"
      using j assms(4,10) lookup at(4)
      by (simp_all add: ad1_def check_fwstate_def port_open_def) (simp_all add: set_sta_def)
    note k = this
    have "\<exists>rf'. rf_id rf' = rf_id rf1 \<and> recv_func_posthandle ad1 rf1 = Some (SUCCESS,
        ad1\<lparr>netif_out := netif_out ad1 @ [rx_dst a1 @ rx_src a1 @ t @ payload],
           free_recv_queue := free_recv_queue ad1 @ [rf'], free_recvframe_cnt := free_recvframe_cnt ad1 + 1\<rparr>)"
      using assms(8,9,11,13) j at k
      by (intro post_plain [OF hd at(1)])
        (simp_all add: a1_def a_def down_attrib_def fresh_def assms(2))
    then show thesis using that k at by auto
  qed
  define ad2 where "ad2 = ad1\<lparr>netif_out := netif_out ad @ [eeprom_mac ad @ sa @ t @ payload],
        free_recv_queue := free_recv_queue ad @ [rf2], free_recvframe_cnt := free_recvframe_cnt ad + 1\<rparr>"
  have "recv_func h oc stale ad rf = Some (SUCCESS, ad2)"
    using pre wait rf2(2) unfolding recv_func_def no_key_loop [OF assms(5)] by (simp add: ad2_def)
  moreover have "xmit_out ad2 = xmit_out ad" by (simp add: ad2_def ad1_def set_sta_def)
  moreover have "\<exists>ad''. recv_func h oc stale ad2 rf' = Some (FAIL, ad'') \<and>
       netif_out ad'' = netif_out ad2 \<and> xmit_out ad'' = xmit_out ad2"
    if "rf_data rf' = rf_data rf" "rx_encrypt (rf_attrib rf') = NO_PRIVACY" for rf'
  proof -
    have e: "eeprom_mac ad2 = eeprom_mac ad" "securitypriv ad2 = securitypriv ad" "fw_state ad2 = fw_state ad"
      "uc_swdec_pending_queue ad2 = uc_swdec_pending_queue ad" "cur_bssid ad2 = cur_bssid ad"
      "stapriv ad2 = stapriv ad1" by (simp_all add: ad2_def ad1_def set_sta_def)
    have j2: "joined ad2 bssid p" using j lookup by (simp add: joined_def check_fwstate_def e ad1_def)
    have n2: "no_key ad2" using assms(5) by (simp add: no_key_def e)
    have s2: "si_tid_rxseq (sta_of ad2 p) 0 = sc" by (simp add: ad2_def ad1_def sta_of_def set_sta_def)
    show ?thesis
      using validate_down_frame [OF j2 assms(2), of rf' dur sc "rtw_rfc1042_header @ t @ payload"]
        assms(3,6) that s2 unfolding recv_func_def no_key_loop [OF n2]
      by (simp add: e recv_func_prehandle_def rtw_free_recvframe_def unlink_fragment_def Let_def)
  qed
  ultimately show ?thesis using rf2(1) by (simp add: ad2_def)
qed


text \<open>A concrete station, access point and frame.\<close>

definition joined_adapter :: adapter where
  "joined_adapter = zero_adapter\<lparr>stapriv := one_sta_table, fw_state := WIFI_STATION_STATE OR FW_LINKED,
     eeprom_mac := [2, 0, 0, 0, 0, 2], cur_bssid := sample_mac\<rparr>"

definition down_sample :: recv_frame where
  "down_sample = sample_rf NO_PRIVACY (down_frame 0 [2, 0, 0, 0, 0, 2] sample_mac [2, 0, 0, 0, 0, 9] 0x10
     (rtw_rfc1042_header @ [8, 0] @ [1, 2, 3]))"

lemma one_sta_table_buf:
  "sta_buf one_sta_table q = (if q = 0 then alloc_stainfo_entry sample_mac else rtw_init_stainfo)"
proof -
  have "free_sta_queue init_sta_table = 0 # [1..<NUM_STA]" "sta_buf init_sta_table = (\<lambda>_. rtw_init_stainfo)"
    by (simp_all add: init_sta_table_free NUM_STA_def upt_rec) (simp add: init_sta_table_def rtw_init_sta_priv_def)
  then show ?thesis
    using wifi_mac_hash_bound [of sample_mac] by (simp add: one_sta_table_def rtw_alloc_stainfo_def Let_def)
qed

lemma joined_adapter_facts:
  "joined joined_adapter sample_mac 0" "running joined_adapter" "no_key joined_adapter"
  "fresh joined_adapter down_sample" "si_tid_rxseq (sta_of joined_adapter 0) 0 = 0xffff"
  using one_sta_table_get
  by (simp_all add: joined_def no_key_def fresh_def joined_adapter_def zero_adapter_def check_fwstate_def is_mac_def
      IS_MCAST_def sta_of_def one_sta_table_buf alloc_stainfo_entry_def rtw_init_stainfo_def
      FW_LINKED_def WIFI_STATION_STATE_def WIFI_MP_STATE_def WIFI_AP_STATE_def sample_mac_def zero_mac_def)


section \<open>Refused frames\<close>

text \<open>What the checks of addresses and the power-save operations leave alone: all of the receive side.\<close>

definition tx_keeps :: "adapter \<Rightarrow> adapter \<Rightarrow> bool" where
  "tx_keeps ad ad' \<longleftrightarrow> free_recv_queue ad' = free_recv_queue ad \<and> free_recvframe_cnt ad' = free_recvframe_cnt ad \<and>
     uc_swdec_pending_queue ad' = uc_swdec_pending_queue ad \<and> netif_out ad' = netif_out ad \<and>
     xmit_out ad' = xmit_out ad \<and> (\<forall>p. si_defrag_q (sta_of ad' p) = si_defrag_q (sta_of ad p))"

lemma tx_keeps_refl [simp]: "tx_keeps ad ad"
  by (simp add: tx_keeps_def)

lemma tx_keeps_trans [trans]: "tx_keeps ad ad1 \<Longrightarrow> tx_keeps ad1 ad2 \<Longrightarrow> tx_keeps ad ad2"
  by (simp add: tx_keeps_def)

lemma tx_keeps_set_sta [simp]:
  "si_defrag_q si = si_defrag_q (sta_of ad1 p) \<Longrightarrow> tx_keeps ad (set_sta ad1 p si) = tx_keeps ad ad1"
  by (auto simp: tx_keeps_def set_sta_def sta_of_def)

lemma tx_keeps_edits [simp]:
  "tx_keeps ad (request_of ad1 r) = tx_keeps ad ad1" "tx_keeps ad (ad1\<lparr>xmitpriv := xp\<rparr>) = tx_keeps ad ad1"
  "tx_keeps ad (set_tim ad1 n) = tx_keeps ad ad1" "tx_keeps ad (set_dz ad1 n) = tx_keeps ad ad1"
  "tx_keeps ad (clear_tim ad1 n) = tx_keeps ad ad1" "tx_keeps ad (clear_dz ad1 n) = tx_keeps ad ad1"
  "tx_keeps ad (set_sec ad1 sec) = tx_keeps ad ad1" "tx_keeps ad (deauth_class3 ad1 m) = tx_keeps ad ad1"
  "tx_keeps ad (ad1\<lparr>bIsAnyNonBEPkts := v\<rparr>) = tx_keeps ad ad1" "tx_keeps ad (ad1\<lparr>rx_drop := k\<rparr>) = tx_keeps ad ad1"
  by (simp_all add: tx_keeps_def request_of_def set_tim_def set_dz_def clear_tim_def clear_dz_def set_sec_def
      deauth_class3_def sta_of_def)

lemma set_servq_defrag [simp]: "si_defrag_q (set_servq si ac q) = si_defrag_q si"
  by (simp add: set_servq_def)

lemma classifier_tx: "tx_keeps ad (snd (rtw_xmit_classifier ad f))"
  by (simp add: rtw_xmit_classifier_def Let_def split: option.split)

lemma hal_enqueue_tx: "tx_keeps ad (snd (rtl8192du_hal_xmitframe_enqueue ad f))"
  using classifier_tx [of ad f]
  by (auto simp: rtl8192du_hal_xmitframe_enqueue_def rtw_xmitframe_enqueue_def split: prod.splits)

lemma sleeping_tx: "xmitframe_enqueue_for_sleeping_sta ad f = (r, f', ad') \<Longrightarrow> tx_keeps ad ad'"
  by (auto simp: xmitframe_enqueue_for_sleeping_sta_def Let_def split: if_splits option.splits)

lemma to_sleeping_loop_tx: "tx_keeps ad (snd (to_sleeping_loop ad p fs))"
proof (induction fs arbitrary: ad)
  case (Cons f fs)
  obtain r f1 ad1 where e: "xmitframe_enqueue_for_sleeping_sta ad
      (f\<lparr>xf_attrib := (xf_attrib f)\<lparr>px_triggered := False\<rparr>\<rparr>) = (r, f1, ad1)" using prod_cases3 by blast
  have k: "tx_keeps ad ad1" using sleeping_tx [OF e] .
  then show ?case using Cons.IH [of ad1]
    by (auto simp: e Let_def split: prod.splits intro: tx_keeps_trans tx_keeps_trans [OF _ Cons.IH])
qed simp

lemma to_sleeping_queue_tx: "tx_keeps ad (dequeue_xmitframes_to_sleeping_queue ad p ac)"
  using to_sleeping_loop_tx [of ad p "sv_pending (get_servq (sta_of ad p) ac)"]
  by (auto simp: dequeue_xmitframes_to_sleeping_queue_def Let_def split: prod.splits)

lemma stop_ac_tx: "tx_keeps ad (stop_ac p ac ad)"
  using to_sleeping_queue_tx by (simp add: stop_ac_def Let_def)

lemma stop_sta_xmit_tx:
  assumes "stop_sta_xmit ad p = Some ad'"
  shows "tx_keeps ad ad'"
proof -
  define ad1 where "ad1 = set_dz (set_sta ad p ((sta_of ad p)\<lparr>si_state := si_state (sta_of ad p) OR WIFI_SLEEP_STATE\<rparr>))
    (si_aid (sta_of ad p))"
  have k: "tx_keeps ad ad1" by (simp add: ad1_def)
  obtain b where b: "ad' = stop_ac b 2 (stop_ac p 3 (stop_ac p 2 (stop_ac p 1 (stop_ac p 0 ad1))))"
    using assms by (auto simp: stop_sta_xmit_def ad1_def Let_def split: option.splits)
  show ?thesis unfolding b by (intro tx_keeps_trans [OF _ stop_ac_tx] k)
qed

lemma sta_of_bits [simp]: "sta_of (clear_tim ad n) p = sta_of ad p" "sta_of (clear_dz ad n) p = sta_of ad p"
  by (simp_all add: clear_tim_def clear_dz_def sta_of_def)

lemma hal_edit_tx:
  "si_defrag_q si = si_defrag_q (sta_of ad p) \<Longrightarrow>
   tx_keeps ad (snd (rtl8192du_hal_xmitframe_enqueue (set_sta ad p si) f))"
  by (rule tx_keeps_trans [OF _ hal_enqueue_tx]) simp

lemma wake_loop_tx: "tx_keeps ad (wake_loop p ad fs)"
proof (induction fs arbitrary: ad)
  case (Cons f fs)
  show ?case by (auto simp: Let_def intro!: tx_keeps_trans [OF _ Cons.IH] hal_edit_tx)
qed simp

lemma bmc_loop_tx: "tx_keeps ad (bmc_loop hiq b ad fs)"
proof (induction fs arbitrary: ad hiq)
  case (Cons f fs)
  show ?case by (auto simp: Let_def intro!: tx_keeps_trans [OF _ Cons.IH] hal_edit_tx)
qed simp

lemma delivery_loop_tx: "tx_keeps ad (delivery_loop p ad kept fs)"
proof (induction fs arbitrary: ad kept)
  case (Cons f fs)
  show ?case by (auto simp: Let_def intro!: tx_keeps_trans [OF _ Cons.IH] hal_edit_tx)
qed simp

lemma wakeup_tx: "tx_keeps ad (wakeup_sta_to_xmit ad p)"
proof -
  have w: "tx_keeps a (wake_station a p)" for a by (simp add: wake_station_def Let_def)
  have g: "tx_keeps a (snd (wake_group a b))" for a b
    using bmc_loop_tx by (simp add: wake_group_def Let_def)
  define ad1 where "ad1 = wake_loop p ad (si_sleep_q (sta_of ad p))"
  define ad2 where "ad2 = (if si_sleepq_len (sta_of ad1 p) = 0 then wake_station ad1 p else ad1)"
  define ad3 where "ad3 = (case rtw_get_bcmc_stainfo (stapriv ad) of None \<Rightarrow> ad2 | Some b \<Rightarrow> snd (wake_group ad2 b))"
  have "tx_keeps ad ad1" unfolding ad1_def by (rule wake_loop_tx)
  also have "tx_keeps ad1 ad2" using w by (simp add: ad2_def)
  also have "tx_keeps ad2 ad3" using g by (simp add: ad3_def split: option.split)
  finally have "tx_keeps ad ad3" .
  moreover have "wakeup_sta_to_xmit ad p = ad3 \<or> wakeup_sta_to_xmit ad p = request_of ad3 UpdateBeaconTim"
    by (auto simp: wakeup_sta_to_xmit_def ad1_def [symmetric] ad2_def ad3_def Let_def split: option.split prod.split)
  ultimately show ?thesis by auto
qed

lemma pwrbit_tx: "process_pwrbit_data ad rf = Some ad' \<Longrightarrow> tx_keeps ad ad'"
  using wakeup_tx by (auto simp: process_pwrbit_data_def Let_def split: bind_splits option.splits if_splits
      dest: stop_sta_xmit_tx)

lemma wmmps_tx: "tx_keeps ad (process_wmmps_data ad rf)"
  using delivery_loop_tx
  by (simp add: process_wmmps_data_def xmit_delivery_enabled_frames_def Let_def split: option.split)

lemma sta2ap_tx: "sta2ap_data_frame ad rf = Some (r, p, ad') \<Longrightarrow> tx_keeps ad ad'"
  by (auto simp: sta2ap_data_frame_def Let_def split: if_splits option.splits bind_splits
      dest: pwrbit_tx intro: tx_keeps_trans [OF _ wmmps_tx])

lemma ap2sta_tx: "ap2sta_data_frame ad rf = Some (r, p, rf', ad') \<Longrightarrow> tx_keeps ad ad' \<and> rf_id rf' = rf_id rf"
  by (auto simp: ap2sta_data_frame_def mp_addresses_def Let_def split: if_splits bind_splits)

lemma sta2sta_id: "sta2sta_data_frame ad rf = Some (r, p, rf') \<Longrightarrow> rf_id rf' = rf_id rf"
  by (auto simp: sta2sta_data_frame_def sta2sta_sender_def mp_addresses_def Let_def
      split: if_splits bind_splits sum.splits)

lemma to_fr_ds_tx: "to_fr_ds_chk ad rf = Some (r, p, rf', ad') \<Longrightarrow> tx_keeps ad ad' \<and> rf_id rf' = rf_id rf"
  by (auto simp: to_fr_ds_chk_def Let_def split: if_splits bind_splits
      dest: sta2ap_tx ap2sta_tx sta2sta_id)

lemma parse_qos_tx: "parse_qos ad rf = Some (rf', ad') \<Longrightarrow> tx_keeps ad ad' \<and> rf_id rf' = rf_id rf"
  by (auto simp: parse_qos_def Let_def split: if_splits bind_splits)

lemma decache_checks_tx: "decache_checks ad p rf = Some (r, ad') \<Longrightarrow> tx_keeps ad ad'"
  by (auto simp: decache_checks_def Let_def split: if_splits bind_splits prod.splits)

lemma data_frame_tx:
  assumes "validate_recv_data_frame ad rf = Some (r, rf', ad')"
  shows "tx_keeps ad ad' \<and> rf_id rf' = rf_id rf"
proof -
  obtain da sa bssid ret psta rf1 ad1 where
      t: "to_fr_ds_chk ad (rf\<lparr>rf_attrib := (rf_attrib rf)\<lparr>rx_dst := da, rx_src := sa, rx_bssid := bssid\<rparr>\<rparr>) =
        Some (ret, psta, rf1, ad1)"
    and r: "(if ret = FAIL \<or> ret = RTW_RX_HANDLED then Some (ret, rf1, ad1)
         else (case psta of None \<Rightarrow> Some (FAIL, rf1, ad1)
           | Some p \<Rightarrow> do {
               (rf2, ad2) \<leftarrow> parse_qos ad1 rf1;
               let rf3 = rf2\<lparr>rf_ctrl := (p, rx_priority (rf_attrib rf2))\<rparr>;
               (r, ad3) \<leftarrow> decache_checks ad2 p rf3;
               Some (if r = FAIL then (FAIL, rf3, ad3) else (SUCCESS, set_encrypt ad3 p rf3, ad3)) })) = Some (r, rf', ad')"
    using assms unfolding validate_recv_data_frame_def by (elim bind_SomeE) (auto elim: bind_SomeE)
  have k: "tx_keeps ad ad1" "rf_id rf1 = rf_id rf" using to_fr_ds_tx [OF t] by simp_all
  show ?thesis using r k
    by (auto simp: Let_def set_encrypt_keeps split: if_splits option.splits bind_splits
        dest!: parse_qos_tx decache_checks_tx) (blast intro: tx_keeps_trans)+
qed


text \<open>
  C24: a refused data frame returns to the pool.  When the checks of \<open>recv_func\<close> do not accept a
  data frame that is on no queue (because of its addresses, its station, its sequence or
  packet number, or because it has been handled), \<open>recv_func\<close> answers with their code, the frame
  is the last of the free queue, the pool's counter is right, no packet is handed up or
  forwarded and no frame joins the queue for a key.
\<close>

theorem refused_data_frame_returns:
  assumes "recv_func_prehandle h oc stale ad rf = Some (ret, rf', ad')" and "ret \<noteq> SUCCESS"
    and "rd (rf_data rf) 0 = Some fc0" and "GetFrameType fc0 = WIFI_DATA_TYPE"
    and "fresh ad rf" and "recv_pool_ok ad" and "no_key ad"
  shows "recv_func h oc stale ad rf = Some (ret, ad') \<and> rf_id rf' = rf_id rf \<and>
    free_recv_queue ad' = free_recv_queue ad @ [rf'] \<and> recv_pool_ok ad' \<and>
    netif_out ad' = netif_out ad \<and> xmit_out ad' = xmit_out ad \<and>
    uc_swdec_pending_queue ad' = uc_swdec_pending_queue ad"
proof -
  obtain rf1 ad1 where v: "validate_recv_frame h oc stale ad rf = Some (ret, rf1, ad1)"
    and e: "rf' = rf1" "ad' = rtw_free_recvframe (unlink_fragment ad1 (rf_id rf1)) rf1"
    using assms(1,2) by (auto simp: recv_func_prehandle_def split: bind_splits)
  have k: "tx_keeps ad ad1 \<and> rf_id rf1 = rf_id rf"
    using v assms(3,4) unfolding validate_recv_frame_def
    by (auto simp: Let_def header_attrib_def WIFI_MGT_TYPE_def WIFI_CTRL_TYPE_def WIFI_DATA_TYPE_def
        split: if_splits bind_splits option.splits dest!: data_frame_tx)
  then have f: "fresh ad1 rf" using assms(5) by (simp add: fresh_def tx_keeps_def)
  have u: "unlink_fragment ad1 (rf_id rf1) = ad1" using unlink_nothing [OF f, of rf1] k by simp
  have n: "rf_id rf1 \<notin> rf_id ` set (free_recv_queue ad)" using assms(5) k by (simp add: fresh_def)
  have ad': "ad' = ad1\<lparr>free_recv_queue := free_recv_queue ad @ [rf1], free_recvframe_cnt := free_recvframe_cnt ad + 1\<rparr>"
    unfolding e(2) u using k n by (simp add: rtw_free_recvframe_def move_to_tail_new tx_keeps_def)
  have "recv_func h oc stale ad rf = Some (ret, ad')"
    using assms(1,2) unfolding recv_func_def no_key_loop [OF assms(7)] by simp
  then show ?thesis using k n assms(6) by (auto simp: ad' e(1) tx_keeps_def recv_pool_ok_def)
qed

text \<open>The station of the other witness gets a frame with the number it has on record.\<close>

definition dup_sample :: recv_frame where
  "dup_sample = sample_rf NO_PRIVACY (down_frame 0 [2, 0, 0, 0, 0, 2] sample_mac [2, 0, 0, 0, 0, 9] 0xffff [1, 2, 3])"

theorem refused_data_frame_returns_witness:
  "\<exists>ad'. recv_func (\<lambda>_ ad _. ad) (\<lambda>ad _. ad) 0 joined_adapter dup_sample = Some (FAIL, ad') \<and>
     map rf_id (free_recv_queue ad') = [0] \<and> netif_out ad' = []"
proof -
  have v: "\<exists>rf' ad'. validate_recv_frame (\<lambda>_ ad _. ad) (\<lambda>ad _. ad) 0 joined_adapter dup_sample = Some (FAIL, rf', ad')"
    using validate_down_frame [OF joined_adapter_facts(1), where sa = "[2, 0, 0, 0, 0, 9]" and rf = dup_sample
        and dur = 0 and sc = "0xffff" and body = "[1, 2, 3]"]
      joined_adapter_facts(5)
    by (simp add: is_mac_def joined_adapter_def dup_sample_def sample_rf_def)
  then obtain rf' ad' where p: "recv_func_prehandle (\<lambda>_ ad _. ad) (\<lambda>ad _. ad) 0 joined_adapter dup_sample = Some (FAIL, rf', ad')"
    by (auto simp: recv_func_prehandle_def)
  have d: "rd (rf_data dup_sample) 0 = Some 0x08"
    using down_frame_fields(1) [of "[2, 0, 0, 0, 0, 2]" sample_mac "[2, 0, 0, 0, 0, 9]"]
    by (simp add: dup_sample_def sample_rf_def is_mac_def sample_mac_def)
  have "fresh joined_adapter dup_sample" "recv_pool_ok joined_adapter"
    using joined_adapter_facts(4)
    by (simp_all add: fresh_def dup_sample_def down_sample_def sample_rf_def recv_pool_ok_def)
      (simp_all add: joined_adapter_def zero_adapter_def)
  from refused_data_frame_returns [OF p _ d _ this joined_adapter_facts(3)] show ?thesis
    by (simp add: GetFrameType_def WIFI_DATA_TYPE_def) (simp add: joined_adapter_def zero_adapter_def dup_sample_def sample_rf_def)
qed

section \<open>What is accepted\<close>




definition blocked_adapter :: adapter where
  "blocked_adapter = joined_adapter\<lparr>
     securitypriv := (securitypriv zero_adapter)\<lparr>sec_dot11AuthAlgrthm := dot11AuthAlgrthm_8021X\<rparr>,
     stapriv := one_sta_table\<lparr>sta_buf := (\<lambda>p. (sta_buf one_sta_table p)\<lparr>si_ieee8021x_blocked := True\<rparr>)\<rparr>\<rparr>"

definition plain_sample :: recv_frame where
  "plain_sample = (sample_rf NO_PRIVACY (replicate 24 0 @ rtw_rfc1042_header @ [8, 0, 1, 2, 3]))
     \<lparr>rf_attrib := (rf_attrib (sample_rf NO_PRIVACY []))\<lparr>rx_iv_len := 0, rx_privacy := False\<rparr>\<rparr>"


end
