(* ===== verification/Ie.thy ===== *)
theory Ie
  imports Wifi
begin

text \<open>
  Information elements (\<open>core/rtw_ieee80211.c\<close>): writing them, searching a series of them, and
  removing them.  The memory behind a pointer is the byte list it starts, so a pointer into it
  is an offset; an access behind its end is \<open>None\<close>.  \<open>limit\<close> and \<open>in_len\<close> are the lengths the
  callers give, which need not be the length of the memory.  A search answers
  \<open>Some None\<close> for the null pointer.
\<close>

section \<open>Writing\<close>

text \<open>\<open>m\<close> is the memory, \<open>p\<close> the place to write to; the results are the new place and length.\<close>

definition rtw_set_fixed_ie ::
  "byte list \<Rightarrow> nat \<Rightarrow> nat \<Rightarrow> byte list \<Rightarrow> nat \<Rightarrow> (byte list \<times> nat \<times> nat) option" where
  "rtw_set_fixed_ie m p len source frlen = do {
     src \<leftarrow> rd_slice source 0 len;
     m1 \<leftarrow> wr_slice m p src;
     Some (m1, p + len, frlen + len) }"

definition rtw_set_ie ::
  "byte list \<Rightarrow> nat \<Rightarrow> nat \<Rightarrow> nat \<Rightarrow> byte list \<Rightarrow> nat \<Rightarrow> (byte list \<times> nat \<times> nat) option" where
  "rtw_set_ie m p index len source frlen = do {
     m1 \<leftarrow> wr_slice m p [of_nat index];
     m2 \<leftarrow> wr_slice m1 (p + 1) [of_nat len];
     m3 \<leftarrow> (if len > 0 then do { src \<leftarrow> rd_slice source 0 len; wr_slice m2 (p + 2) src } else Some m2);
     Some (m3, p + len + 2, frlen + (len + 2)) }"

definition WLAN_EID_CHANNEL_SWITCH :: nat where "WLAN_EID_CHANNEL_SWITCH = 37"
definition WLAN_EID_SECONDARY_CHANNEL_OFFSET :: nat where "WLAN_EID_SECONDARY_CHANNEL_OFFSET = 62"

definition rtw_set_ie_ch_switch ::
  "byte list \<Rightarrow> nat \<Rightarrow> nat \<Rightarrow> byte \<Rightarrow> byte \<Rightarrow> byte \<Rightarrow> (byte list \<times> nat \<times> nat) option" where
  "rtw_set_ie_ch_switch m p buf_len ch_switch_mode new_ch ch_switch_cnt =
     rtw_set_ie m p WLAN_EID_CHANNEL_SWITCH 3 [ch_switch_mode, new_ch, ch_switch_cnt] buf_len"

definition rtw_set_ie_secondary_ch_offset ::
  "byte list \<Rightarrow> nat \<Rightarrow> nat \<Rightarrow> byte \<Rightarrow> (byte list \<times> nat \<times> nat) option" where
  "rtw_set_ie_secondary_ch_offset m p buf_len secondary_ch_offset =
     rtw_set_ie m p WLAN_EID_SECONDARY_CHANNEL_OFFSET 1 [secondary_ch_offset] buf_len"

text \<open>The element number \<open>0x118\<close> is cut to a byte.\<close>

definition rtw_set_ie_mesh_ch_switch_parm ::
  "byte list \<Rightarrow> nat \<Rightarrow> nat \<Rightarrow> byte \<Rightarrow> byte \<Rightarrow> u16 \<Rightarrow> u16 \<Rightarrow> (byte list \<times> nat \<times> nat) option" where
  "rtw_set_ie_mesh_ch_switch_parm m p buf_len ttl flags reason precedence =
     rtw_set_ie m p 0x118 6 ([ttl, flags] @ le16_bytes reason @ le16_bytes precedence) buf_len"

section \<open>Searching\<close>

function get_ie_loop :: "byte list \<Rightarrow> nat \<Rightarrow> int \<Rightarrow> nat \<Rightarrow> (nat \<times> nat) option option" where
  "get_ie_loop m index limit i =
     (case rd m i of None \<Rightarrow> None
      | Some b \<Rightarrow>
        (case rd m (i + 1) of None \<Rightarrow> None
         | Some tmp \<Rightarrow>
             if unat b = index then Some (Some (i, unat tmp))
             else if int (i + (unat tmp + 2)) \<ge> limit then Some None
             else get_ie_loop m index limit (i + (unat tmp + 2))))"
  by pat_completeness auto

termination
  by (relation "measure (\<lambda>(m, index, limit, i). length m - i)") (auto simp: rd_def split: if_splits)

declare get_ie_loop.simps [simp del]

text \<open>The result is the place and \<open>len\<close>.\<close>

definition rtw_get_ie :: "byte list \<Rightarrow> nat \<Rightarrow> nat \<Rightarrow> int \<Rightarrow> (nat \<times> nat) option option" where
  "rtw_get_ie m p index limit =
     (if limit < 1 then Some None
      else map_option (map_option (\<lambda>(i, len). (p + i, len))) (get_ie_loop (drop p m) index limit 0))"

text \<open>
  The loop of \<open>rtw_get_ie_ex\<close>, \<open>rtw_get_wps_ie\<close>, \<open>rtw_get_p2p_ie\<close> and \<open>rtw_get_wfd_ie\<close>: \<open>match\<close> is
  the condition on the element at \<open>cnt\<close>.
\<close>

function ie_walk :: "(byte list \<Rightarrow> nat \<Rightarrow> bool option) \<Rightarrow> byte list \<Rightarrow> nat \<Rightarrow> nat \<Rightarrow> nat option option" where
  "ie_walk match m in_len cnt =
     (if cnt < in_len then
        case match m cnt of None \<Rightarrow> None
        | Some True \<Rightarrow> Some (Some cnt)
        | Some False \<Rightarrow>
            (case rd m (cnt + 1) of None \<Rightarrow> None
             | Some l \<Rightarrow> ie_walk match m in_len (cnt + (unat l + 2)))
      else Some None)"
  by pat_completeness auto

termination
  by (relation "measure (\<lambda>(match, m, in_len, cnt). in_len - cnt)") auto

declare ie_walk.simps [simp del]

text \<open>\<open>_rtw_memcmp\<close>: all bytes have to be there.\<close>

definition rtw_memcmp :: "byte list \<Rightarrow> nat \<Rightarrow> byte list \<Rightarrow> bool option" where
  "rtw_memcmp m off pat = map_option (\<lambda>s. s = pat) (rd_slice m off (length pat))"

definition ie_match :: "byte \<Rightarrow> byte list option \<Rightarrow> byte list \<Rightarrow> nat \<Rightarrow> bool option" where
  "ie_match eid oui m cnt = do {
     b \<leftarrow> rd m cnt;
     if b \<noteq> eid then Some False
     else (case oui of None \<Rightarrow> Some True | Some pat \<Rightarrow> rtw_memcmp m (cnt + 2) pat) }"

text \<open>The element at \<open>cnt\<close>: its length, and its bytes when they are copied.\<close>

definition ie_at :: "bool \<Rightarrow> byte list \<Rightarrow> nat \<Rightarrow> (nat \<times> byte list) option" where
  "ie_at copy m cnt = do {
     l \<leftarrow> rd m (cnt + 1);
     bs \<leftarrow> (if copy then rd_slice m cnt (unat l + 2) else Some []);
     Some (unat l + 2, bs) }"

text \<open>
  \<open>copy\<close> says whether \<open>ie\<close> is not \<open>NULL\<close>.  The result is the place, \<open>ielen\<close> and the copied
  bytes.
\<close>

definition rtw_get_ie_ex ::
  "byte list option \<Rightarrow> nat \<Rightarrow> byte \<Rightarrow> byte list option \<Rightarrow> bool \<Rightarrow> (nat \<times> nat \<times> byte list) option option" where
  "rtw_get_ie_ex in_ie in_len eid oui copy =
     (case in_ie of None \<Rightarrow> Some None
      | Some m \<Rightarrow> do {
          r \<leftarrow> ie_walk (ie_match eid oui) m in_len 0;
          (case r of None \<Rightarrow> Some None
           | Some cnt \<Rightarrow> do { (n, bs) \<leftarrow> ie_at copy m cnt; Some (Some (cnt, n, bs)) }) })"

section \<open>Removing\<close>

definition MAX_IE_SZ :: nat where "MAX_IE_SZ = 768"

lemma get_ie_ex_len: "rtw_get_ie_ex in_ie in_len eid oui copy = Some (Some (cnt, n, bs)) \<Longrightarrow> 2 \<le> n"
  by (auto simp: rtw_get_ie_ex_def ie_at_def split: option.splits bind_splits)

text \<open>
  The loop of \<open>rtw_ies_remove_ie\<close> over the \<open>search_len\<close> bytes at \<open>start\<close>.  The copy goes through a
  buffer of \<open>MAX_IE_SZ\<close> bytes on the stack, and \<open>remain_len\<close> is an unsigned number.
\<close>

function remove_ie_loop ::
  "byte list \<Rightarrow> nat \<Rightarrow> nat \<Rightarrow> nat \<Rightarrow> byte \<Rightarrow> byte list option \<Rightarrow> nat \<Rightarrow> (nat \<times> byte list \<times> nat) option" where
  "remove_ie_loop m ies_len start search_len eid oui ret =
     (case rtw_get_ie_ex (Some (drop start m)) search_len eid oui False of
        None \<Rightarrow> None
      | Some None \<Rightarrow> Some (ret, m, ies_len)
      | Some (Some (cnt, n, _)) \<Rightarrow>
          if search_len < cnt + n \<or> MAX_IE_SZ < search_len - (cnt + n) then None
          else (case rd_slice m (start + cnt + n) (search_len - (cnt + n)) of
                  None \<Rightarrow> None
                | Some buf \<Rightarrow>
                    (case wr_slice m (start + cnt) buf of None \<Rightarrow> None
                     | Some m1 \<Rightarrow> remove_ie_loop m1 (ies_len - n) (start + cnt) (search_len - (cnt + n)) eid oui SUCCESS)))"
  by pat_completeness auto

termination
  by (relation "measure (\<lambda>(m, ies_len, start, search_len, eid, oui, ret). search_len)")
    (auto dest!: get_ie_ex_len)

declare remove_ie_loop.simps [simp del]

text \<open>\<open>None\<close> for \<open>ies\<close> is the null pointer.\<close>

definition rtw_ies_remove_ie ::
  "byte list option \<Rightarrow> nat \<Rightarrow> nat \<Rightarrow> byte \<Rightarrow> byte list option \<Rightarrow> (nat \<times> byte list \<times> nat) option" where
  "rtw_ies_remove_ie ies ies_len offset eid oui =
     (case ies of None \<Rightarrow> Some (FAIL, [], ies_len)
      | Some m \<Rightarrow>
          if ies_len \<le> offset then Some (FAIL, m, ies_len)
          else remove_ie_loop m ies_len offset (ies_len - offset) eid oui FAIL)"

section \<open>Series of elements\<close>

text \<open>An element as it is sent, and a series of them.\<close>

type_synonym ie = "byte \<times> byte list"

definition ie_bytes :: "ie \<Rightarrow> byte list" where
  "ie_bytes e = [fst e, of_nat (length (snd e))] @ snd e"

definition ies_bytes :: "ie list \<Rightarrow> byte list" where
  "ies_bytes es = concat (map ie_bytes es)"

definition ies_ok :: "ie list \<Rightarrow> bool" where
  "ies_ok es \<longleftrightarrow> (\<forall>e \<in> set es. length (snd e) < 256)"

lemma ies_bytes_simps [simp]: "ies_bytes [] = []" "ies_bytes (e # es) = ie_bytes e @ ies_bytes es"
  "ies_bytes (es @ fs) = ies_bytes es @ ies_bytes fs"
  by (simp_all add: ies_bytes_def)

lemma ies_ok_simps [simp]: "ies_ok []" "ies_ok (e # es) \<longleftrightarrow> length (snd e) < 256 \<and> ies_ok es"
  "ies_ok (es @ fs) \<longleftrightarrow> ies_ok es \<and> ies_ok fs"
  by (auto simp: ies_ok_def)

lemma length_ie_bytes [simp]: "length (ie_bytes e) = length (snd e) + 2"
  by (simp add: ie_bytes_def)

lemma unat_of_len: "n < 256 \<Longrightarrow> unat (of_nat n :: byte) = n"
  by (simp add: unat_of_nat take_bit_eq_mod)

lemma ie_at_pos:
  assumes "length (snd e) < 256"
  shows "rd (pre @ ie_bytes e @ post) (length pre) = Some (fst e)"
    and "rd (pre @ ie_bytes e @ post) (Suc (length pre)) = Some (of_nat (length (snd e)))"
    and "rd_slice (pre @ ie_bytes e @ post) (length pre + 2) n = rd_slice (snd e @ post) 0 n"
    and "rd_slice (pre @ ie_bytes e @ post) (length pre) (length (snd e) + 2) = Some (ie_bytes e)"
  by (simp_all add: rd_def rd_slice_def ie_bytes_def nth_append)

text \<open>What a search is for: the first element that satisfies \<open>P\<close>, and where its bytes start.\<close>

fun first_ie :: "(ie \<Rightarrow> bool) \<Rightarrow> ie list \<Rightarrow> (nat \<times> ie) option" where
  "first_ie P [] = None"
| "first_ie P (e # es) =
     (if P e then Some (0, e) else map_option (\<lambda>(k, x). (length (snd e) + 2 + k, x)) (first_ie P es))"

lemma first_ie_None: "first_ie P es = None \<longleftrightarrow> (\<forall>e \<in> set es. \<not> P e)"
  by (induction es) auto

lemma first_ie_Some:
  "first_ie P es = Some (k, x) \<Longrightarrow>
   \<exists>as bs. es = as @ x # bs \<and> k = length (ies_bytes as) \<and> P x \<and> (\<forall>e \<in> set as. \<not> P e)"
proof (induction es arbitrary: k)
  case (Cons e es)
  show ?case
  proof (cases "P e")
    case True
    then have "e # es = [] @ x # es \<and> k = length (ies_bytes []) \<and> P x \<and> (\<forall>e \<in> set []. \<not> P e)"
      using Cons.prems by auto
    then show ?thesis by blast
  next
    case False
    then obtain k' where k: "first_ie P es = Some (k', x)" "k = length (snd e) + 2 + k'" using Cons.prems by auto
    then obtain as bs where "es = as @ x # bs" "k' = length (ies_bytes as)" "P x" "\<forall>e \<in> set as. \<not> P e"
      using Cons.IH by blast
    then have "e # es = (e # as) @ x # bs \<and> k = length (ies_bytes (e # as)) \<and> P x \<and> (\<forall>e \<in> set (e # as). \<not> P e)"
      using False k(2) by simp
    then show ?thesis by blast
  qed
qed simp

lemma get_ie_loop_series:
  assumes "ies_ok es" and "es \<noteq> []" and "m = pre @ ies_bytes es @ post"
    and "limit = int (length pre + length (ies_bytes es))"
  shows "get_ie_loop m index limit (length pre) =
    Some (map_option (\<lambda>(k, e). (length pre + k, length (snd e))) (first_ie (\<lambda>e. unat (fst e) = index) es))"
  using assms
proof (induction es arbitrary: pre)
  case (Cons e es)
  have e: "length (snd e) < 256" using Cons.prems(1) by simp
  have m: "m = pre @ ie_bytes e @ (ies_bytes es @ post)" using Cons.prems(3) by simp
  note at = ie_at_pos [OF e, of pre "ies_bytes es @ post", folded m]
  show ?case
  proof (cases "unat (fst e) = index \<or> es = []")
    case True
    then show ?thesis using at e Cons.prems(4)
      by (subst get_ie_loop.simps) (auto simp: unat_of_len)
  next
    case False
    have "get_ie_loop m index limit (length pre) = get_ie_loop m index limit (length (pre @ ie_bytes e))"
      using False at e Cons.prems(4) by (subst get_ie_loop.simps) (cases es, auto simp: unat_of_len)
    also have "\<dots> = Some (map_option (\<lambda>(k, x). (length (pre @ ie_bytes e) + k, length (snd x)))
        (first_ie (\<lambda>e. unat (fst e) = index) es))"
      using Cons.prems False by (intro Cons.IH) auto
    finally show ?thesis using False by (auto simp: option.map_comp comp_def case_prod_unfold add.assoc)
  qed
qed simp

lemma ie_walk_series:
  assumes "ies_ok es" and "m = pre @ ies_bytes es @ post"
    and "\<And>as e bs. es = as @ e # bs \<Longrightarrow> match m (length pre + length (ies_bytes as)) = Some (P e)"
  shows "ie_walk match m (length pre + length (ies_bytes es)) (length pre) =
    Some (map_option (\<lambda>(k, e). length pre + k) (first_ie P es))"
  using assms
proof (induction es arbitrary: pre)
  case Nil
  then show ?case by (subst ie_walk.simps) simp
next
  case (Cons e es)
  have e: "length (snd e) < 256" using Cons.prems(1) by simp
  have m: "m = pre @ ie_bytes e @ (ies_bytes es @ post)" using Cons.prems(2) by simp
  note at = ie_at_pos [OF e, of pre "ies_bytes es @ post", folded m]
  have here: "match m (length pre) = Some (P e)" using Cons.prems(3) [of "[]" e es] by simp
  show ?case
  proof (cases "P e")
    case True
    then show ?thesis using here by (subst ie_walk.simps) simp
  next
    case False
    have "ie_walk match m (length pre + length (ies_bytes (e # es))) (length pre) =
        ie_walk match m (length (pre @ ie_bytes e) + length (ies_bytes es)) (length (pre @ ie_bytes e))"
      using False here at e by (subst ie_walk.simps) (simp add: unat_of_len add.assoc)
    also have "\<dots> = Some (map_option (\<lambda>(k, x). length (pre @ ie_bytes e) + k) (first_ie P es))"
    proof (rule Cons.IH)
      show "match m (length (pre @ ie_bytes e) + length (ies_bytes as)) = Some (P x)" if "es = as @ x # bs" for as x bs
        using Cons.prems(3) [of "e # as" x bs] that by (simp add: add.assoc)
    qed (use Cons.prems in auto)
    finally show ?thesis using False by (auto simp: option.map_comp comp_def case_prod_unfold add.assoc)
  qed
qed

text \<open>The element a search by identifier and OUI is for, and that its OUI does not reach beyond it.\<close>

definition ie_is :: "byte \<Rightarrow> byte list option \<Rightarrow> ie \<Rightarrow> bool" where
  "ie_is eid oui e \<longleftrightarrow> fst e = eid \<and>
     (case oui of None \<Rightarrow> True | Some pat \<Rightarrow> take (length pat) (snd e) = pat)"

definition oui_fits :: "byte \<Rightarrow> byte list option \<Rightarrow> ie list \<Rightarrow> bool" where
  "oui_fits eid oui es \<longleftrightarrow>
     (case oui of None \<Rightarrow> True | Some pat \<Rightarrow> (\<forall>e \<in> set es. fst e = eid \<longrightarrow> length pat \<le> length (snd e)))"

lemma oui_fits_append [simp]: "oui_fits eid oui (es @ fs) \<longleftrightarrow> oui_fits eid oui es \<and> oui_fits eid oui fs"
  by (auto simp: oui_fits_def split: option.split)

lemma oui_fits_Cons [simp]: "oui_fits eid oui (e # fs) \<longleftrightarrow>
    (fst e = eid \<longrightarrow> (case oui of None \<Rightarrow> True | Some pat \<Rightarrow> length pat \<le> length (snd e))) \<and> oui_fits eid oui fs"
  by (auto simp: oui_fits_def split: option.split)

lemma oui_fits_Nil [simp]: "oui_fits eid oui []"
  by (simp add: oui_fits_def split: option.split)

lemma ie_match_here:
  assumes "length (snd e) < 256" and "oui_fits eid oui [e]" and "m = pre @ ie_bytes e @ post"
  shows "ie_match eid oui m (length pre) = Some (ie_is eid oui e)"
proof -
  note at = ie_at_pos [OF assms(1), of pre post, folded assms(3)]
  show ?thesis using assms(2) at
    by (auto simp: ie_match_def ie_is_def rtw_memcmp_def rd_slice_def split: option.splits)
qed

lemma get_ie_ex_series:
  assumes "ies_ok es" and "oui_fits eid oui es"
  shows "rtw_get_ie_ex (Some (ies_bytes es @ post)) (length (ies_bytes es)) eid oui copy =
    Some (map_option (\<lambda>(k, e). (k, length (snd e) + 2, if copy then ie_bytes e else [])) (first_ie (ie_is eid oui) es))"
proof -
  define m where "m = ies_bytes es @ post"
  have here: "ie_match eid oui m (length (ies_bytes as)) = Some (ie_is eid oui e)" if "es = as @ e # bs" for as e bs
    using assms that by (intro ie_match_here [where post = "ies_bytes bs @ post"]) (auto simp: m_def)
  have w: "ie_walk (ie_match eid oui) m (length (ies_bytes es)) 0 =
      Some (map_option (\<lambda>(k, e). k) (first_ie (ie_is eid oui) es))"
    using ie_walk_series [OF assms(1), of m "[]" post "ie_match eid oui" "ie_is eid oui"] here by (simp add: m_def)
  show ?thesis
  proof (cases "first_ie (ie_is eid oui) es")
    case None
    then show ?thesis using w by (simp add: rtw_get_ie_ex_def m_def)
  next
    case (Some x)
    obtain k e where x: "x = (k, e)" by (cases x)
    obtain as bs where es: "es = as @ e # bs" "k = length (ies_bytes as)"
      using first_ie_Some [of "ie_is eid oui" es k e] Some x by blast
    have e: "length (snd e) < 256" using assms(1) es by simp
    have m: "m = ies_bytes as @ ie_bytes e @ (ies_bytes bs @ post)" by (simp add: m_def es)
    note at = ie_at_pos [OF e, of "ies_bytes as" "ies_bytes bs @ post", folded m]
    have "ie_at copy m k = Some (length (snd e) + 2, if copy then ie_bytes e else [])"
      using at e es(2) by (simp add: ie_at_def unat_of_len)
    then show ?thesis using w Some x by (simp add: rtw_get_ie_ex_def m_def)
  qed
qed

lemma remove_ie_series:
  assumes "ies_ok es" and "oui_fits eid oui es" and "length (ies_bytes es) \<le> MAX_IE_SZ"
    and "m = pre @ ies_bytes es @ post" and "start = length pre"
  defines "P \<equiv> ie_is eid oui"
  shows "\<exists>junk. remove_ie_loop m (length pre + length (ies_bytes es)) start (length (ies_bytes es)) eid oui ret =
    Some (if \<exists>e \<in> set es. P e then SUCCESS else ret,
          pre @ ies_bytes (filter (\<lambda>e. \<not> P e) es) @ junk,
          length pre + length (ies_bytes (filter (\<lambda>e. \<not> P e) es))) \<and>
    length (pre @ ies_bytes (filter (\<lambda>e. \<not> P e) es) @ junk) = length m"
  using assms(1-5)
proof (induction "length es" arbitrary: es pre post m start ret rule: less_induct)
  case less
  have d: "drop start m = ies_bytes es @ post" using less.prems(4,5) by simp
  note g = get_ie_ex_series [OF less.prems(1,2), of post False, folded d P_def]
  show ?case
  proof (cases "first_ie P es")
    case None
    then have n: "\<forall>e \<in> set es. \<not> P e" by (simp add: first_ie_None)
    then have "filter (\<lambda>e. \<not> P e) es = es" by (simp add: filter_id_conv)
    then show ?thesis using n None g less.prems(4)
      by (subst remove_ie_loop.simps) auto
  next
    case (Some x)
    obtain k e where x: "x = (k, e)" by (cases x)
    obtain as bs where es: "es = as @ e # bs" "k = length (ies_bytes as)" "P e" "\<forall>e \<in> set as. \<not> P e"
      using first_ie_Some [of P es k e] Some x by blast
    have as: "filter (\<lambda>e. \<not> P e) as = as" using es(4) by (simp add: filter_id_conv)
    define n where "n = length (snd e) + 2"
    define tail where "tail = drop (length (ies_bytes bs)) (ie_bytes e @ ies_bytes bs) @ post"
    define m1 where "m1 = (pre @ ies_bytes as) @ ies_bytes bs @ tail"
    have len: "length (ies_bytes es) = k + n + length (ies_bytes bs)" by (simp add: es n_def)
    have m: "m = (pre @ ies_bytes as) @ (ie_bytes e @ ies_bytes bs) @ post" using less.prems(4) es(1) by simp
    have r: "rd_slice m (start + k + n) (length (ies_bytes bs)) = Some (ies_bytes bs)"
      unfolding m using less.prems(5) es(2) by (simp add: rd_slice_def n_def)
    have w: "wr_slice m (start + k) (ies_bytes bs) = Some m1"
      unfolding m m1_def tail_def using less.prems(5) es(2) by (simp add: wr_slice_def)
    have fits: "\<not> MAX_IE_SZ < length (ies_bytes bs)" using less.prems(3) len by simp
    have gs: "rtw_get_ie_ex (Some (drop start m)) (length (ies_bytes es)) eid oui False = Some (Some (k, n, []))"
      using g Some x by (simp add: n_def)
    have step: "remove_ie_loop m (length pre + length (ies_bytes es)) start (length (ies_bytes es)) eid oui ret =
        remove_ie_loop m1 (length (pre @ ies_bytes as) + length (ies_bytes bs)) (length (pre @ ies_bytes as))
          (length (ies_bytes bs)) eid oui SUCCESS"
      using gs r w fits es(2) less.prems(5)
      by (subst remove_ie_loop.simps) (simp add: len ac_simps)
    obtain junk where ih: "remove_ie_loop m1 (length (pre @ ies_bytes as) + length (ies_bytes bs)) (length (pre @ ies_bytes as))
          (length (ies_bytes bs)) eid oui SUCCESS =
        Some (SUCCESS, (pre @ ies_bytes as) @ ies_bytes (filter (\<lambda>e. \<not> P e) bs) @ junk,
          length (pre @ ies_bytes as) + length (ies_bytes (filter (\<lambda>e. \<not> P e) bs)))"
        "length ((pre @ ies_bytes as) @ ies_bytes (filter (\<lambda>e. \<not> P e) bs) @ junk) = length m1"
      using less.hyps [of bs m1 "pre @ ies_bytes as" tail "length (pre @ ies_bytes as)" SUCCESS]
        less.prems(1,2) fits es(1) by (auto simp: m1_def)
    have "length m1 = length m" using wr_slice_length [OF w] .
    then show ?thesis using step ih es(3) as by (auto simp: es(1))
  qed
qed

section \<open>Searches as a contract\<close>

text \<open>
  What the searches promise each other: on a series of elements, whatever follows it,
  \<open>search\<close> answers the place of the first element that satisfies \<open>P\<close>.  \<open>fits\<close> is the condition on
  the series that the search relies on.
\<close>

locale ie_search =
  fixes search :: "byte list \<Rightarrow> nat \<Rightarrow> nat option option" and P :: "ie \<Rightarrow> bool" and fits :: "ie list \<Rightarrow> bool"
  assumes finds_first: "ies_ok es \<Longrightarrow> fits es \<Longrightarrow>
    search (ies_bytes es @ post) (length (ies_bytes es)) = Some (map_option fst (first_ie P es))"
begin

lemma absent_iff:
  "ies_ok es \<Longrightarrow> fits es \<Longrightarrow>
   search (ies_bytes es @ post) (length (ies_bytes es)) = Some None \<longleftrightarrow> (\<forall>e \<in> set es. \<not> P e)"
  using finds_first [of es post] by (simp add: first_ie_None)

lemma found_element:
  assumes "ies_ok es" and "fits es" and "search (ies_bytes es @ post) (length (ies_bytes es)) = Some (Some k)"
  shows "\<exists>as e bs. es = as @ e # bs \<and> k = length (ies_bytes as) \<and> P e \<and> (\<forall>e' \<in> set as. \<not> P e')"
proof -
  obtain e where "first_ie P es = Some (k, e)" using finds_first [OF assms(1,2), of post] assms(3)
    by (cases "first_ie P es") auto
  then show ?thesis using first_ie_Some by blast
qed

text \<open>The bytes found are those of the element: the answer can be parsed on its own.\<close>

lemma found_bytes:
  assumes "ies_ok es" and "fits es" and "search (ies_bytes es @ post) (length (ies_bytes es)) = Some (Some k)"
  shows "\<exists>e \<in> set es. P e \<and> rd_slice (ies_bytes es @ post) k (length (snd e) + 2) = Some (ie_bytes e)"
proof -
  obtain as e bs where e: "es = as @ e # bs" "k = length (ies_bytes as)" "P e"
    using found_element [OF assms] by blast
  have "rd_slice (ies_bytes es @ post) k (length (snd e) + 2) = Some (ie_bytes e)"
    using ie_at_pos(4) [of e "ies_bytes as" "ies_bytes bs @ post"] assms(1) e by simp
  then show ?thesis using e by auto
qed

end

definition ie_ex_place :: "byte \<Rightarrow> byte list option \<Rightarrow> byte list \<Rightarrow> nat \<Rightarrow> nat option option" where
  "ie_ex_place eid oui m in_len = map_option (map_option fst) (rtw_get_ie_ex (Some m) in_len eid oui False)"

lemma ie_ex_place_series: "ies_ok es \<Longrightarrow> oui_fits eid oui es \<Longrightarrow>
    ie_ex_place eid oui (ies_bytes es @ post) (length (ies_bytes es)) = Some (map_option fst (first_ie (ie_is eid oui) es))"
  by (cases "first_ie (ie_is eid oui) es") (auto simp: ie_ex_place_def get_ie_ex_series)

interpretation get_ie_ex: ie_search "ie_ex_place eid oui" "ie_is eid oui" "oui_fits eid oui" for eid oui
  by unfold_locales (rule ie_ex_place_series)

section \<open>Properties\<close>

text \<open>A series written element by element, as the frame builders do.\<close>

fun set_ies :: "byte list \<Rightarrow> nat \<Rightarrow> nat \<Rightarrow> ie list \<Rightarrow> (byte list \<times> nat \<times> nat) option" where
  "set_ies m p frlen [] = Some (m, p, frlen)"
| "set_ies m p frlen (e # es) = do {
     (m1, p1, frlen1) \<leftarrow> rtw_set_ie m p (unat (fst e)) (length (snd e)) (snd e) frlen;
     set_ies m1 p1 frlen1 es }"

lemma rtw_set_ie_at:
  assumes "m = pre @ mid @ post" and "length mid = length d + 2" and "p = length pre"
  shows "rtw_set_ie m p (unat b) (length d) d frlen = Some (pre @ ie_bytes (b, d) @ post, p + length d + 2, frlen + (length d + 2))"
proof -
  obtain x y zs where mid: "mid = x # y # zs" "length zs = length d"
    using assms(2) by (cases mid; cases "tl mid") auto
  have w: "wr_slice m p [of_nat (unat b)] = Some (pre @ b # y # zs @ post)"
    by (simp add: wr_slice_def assms mid)
  have w1: "wr_slice (pre @ b # y # zs @ post) (Suc p) [of_nat (length d)] = Some (pre @ b # of_nat (length d) # zs @ post)"
    by (simp add: wr_slice_def assms mid)
  have w2: "wr_slice (pre @ b # of_nat (length d) # zs @ post) (p + 2) d = Some (pre @ b # of_nat (length d) # d @ post)"
    using mid(2) by (simp add: wr_slice_def assms(3))
  have r: "rd_slice d 0 (length d) = Some d" by (simp add: rd_slice_def)
  show ?thesis
    using w w1 w2 r mid(2) by (cases d) (auto simp: rtw_set_ie_def ie_bytes_def)
qed

lemma set_ies_series:
  assumes "m = pre @ mid @ post" and "length mid = length (ies_bytes es)" and "p = length pre"
  shows "set_ies m p frlen es =
    Some (pre @ ies_bytes es @ post, p + length (ies_bytes es), frlen + length (ies_bytes es))"
  using assms
proof (induction es arbitrary: m pre mid p frlen)
  case (Cons e es)
  define a where "a = take (length (snd e) + 2) mid"
  define b where "b = drop (length (snd e) + 2) mid"
  have ab: "mid = a @ b" "length a = length (snd e) + 2" "length b = length (ies_bytes es)"
    using Cons.prems(2) by (simp_all add: a_def b_def)
  have s: "rtw_set_ie m p (unat (fst e)) (length (snd e)) (snd e) frlen =
      Some (pre @ ie_bytes e @ (b @ post), p + length (snd e) + 2, frlen + (length (snd e) + 2))"
    using rtw_set_ie_at [of m pre a "b @ post" "snd e" p "fst e" frlen] Cons.prems(1,3) ab by simp
  show ?case
    using Cons.IH [of "pre @ ie_bytes e @ (b @ post)" "pre @ ie_bytes e" b "p + length (snd e) + 2"
        "frlen + (length (snd e) + 2)"] s ab(3) Cons.prems(3)
    by (simp add: add.assoc)
qed simp


definition sample_ies :: "ie list" where
  "sample_ies = [(0, [97, 98]), (1, [0x82, 0x84]), (221, [0x50, 0x6f, 0x9a, 9, 2, 2, 0, 0x25]), (3, [6]), (221, [0, 0x50, 0xf2, 4])]"

lemma sample_ies_facts: "ies_ok sample_ies" "sample_ies \<noteq> []" "length (ies_bytes sample_ies) = 27"
  "first_ie (\<lambda>e. unat (fst e) = 3) sample_ies = Some (18, 3, [6])"
  by (simp_all add: sample_ies_def ie_bytes_def)


text \<open>
  \<open>rtw_ies_remove_ie\<close> is a filter.  On a buffer that holds a fixed part of \<open>offset\<close> bytes and then
  a series of elements, the first \<open>ies_len'\<close> bytes are afterwards the fixed part and the
  elements that do not have the identifier and the OUI, in order; the result says whether one
  was removed, the buffer keeps its size, and nothing outside it is touched.
\<close>

theorem ies_remove_ie_filters:
  assumes "ies_ok es" and "oui_fits eid oui es" and "length (ies_bytes es) \<le> MAX_IE_SZ" and "es \<noteq> []"
  defines "rest \<equiv> filter (\<lambda>e. \<not> ie_is eid oui e) es"
  shows "\<exists>m'. rtw_ies_remove_ie (Some (fixed @ ies_bytes es @ post)) (length (fixed @ ies_bytes es)) (length fixed) eid oui =
      Some (if rest = es then FAIL else SUCCESS, m', length (fixed @ ies_bytes rest)) \<and>
    take (length (fixed @ ies_bytes rest)) m' = fixed @ ies_bytes rest \<and>
    length m' = length (fixed @ ies_bytes es @ post) \<and>
    rtw_get_ie_ex (Some (ies_bytes rest)) (length (ies_bytes rest)) eid oui False = Some None"
proof -
  have r: "rest = es \<longleftrightarrow> \<not> (\<exists>e \<in> set es. ie_is eid oui e)" by (auto simp: rest_def filter_id_conv)
  have l: "length fixed < length (fixed @ ies_bytes es)" using assms(4) by (cases es) auto
  obtain junk where j: "remove_ie_loop (fixed @ ies_bytes es @ post) (length fixed + length (ies_bytes es)) (length fixed)
      (length (ies_bytes es)) eid oui FAIL =
    Some (if \<exists>e \<in> set es. ie_is eid oui e then SUCCESS else FAIL, fixed @ ies_bytes rest @ junk,
      length fixed + length (ies_bytes rest))" "length (fixed @ ies_bytes rest @ junk) = length (fixed @ ies_bytes es @ post)"
    using remove_ie_series [OF assms(1-3), of "fixed @ ies_bytes es @ post" fixed post "length fixed" FAIL]
    by (auto simp: rest_def)
  have f: "ies_ok rest" "oui_fits eid oui rest" "first_ie (ie_is eid oui) rest = None"
    using assms(1,2) by (auto simp: rest_def ies_ok_def oui_fits_def first_ie_None split: option.splits)
  have "rtw_get_ie_ex (Some (ies_bytes rest)) (length (ies_bytes rest)) eid oui False = Some None"
    using get_ie_ex_series [OF f(1,2), of "[]" False] f(3) by simp
  then show ?thesis using j r l by (auto simp: rtw_ies_remove_ie_def)
qed

theorem ies_remove_ie_filters_witness:
  "\<exists>m'. rtw_ies_remove_ie (Some (replicate 12 0 @ ies_bytes sample_ies)) 39 12 221 (Some [0x50, 0x6f, 0x9a, 9]) =
      Some (SUCCESS, m', 29) \<and>
    take 29 m' = replicate 12 0 @ ies_bytes [(0, [97, 98]), (1, [0x82, 0x84]), (3, [6]), (221, [0, 0x50, 0xf2, 4])]"
proof -
  have f: "oui_fits 221 (Some [0x50, 0x6f, 0x9a, 9]) sample_ies" "length (ies_bytes sample_ies) \<le> MAX_IE_SZ"
    by (simp_all add: sample_ies_facts MAX_IE_SZ_def) (simp add: sample_ies_def)
  have r: "filter (\<lambda>e. \<not> ie_is 221 (Some [0x50, 0x6f, 0x9a, 9]) e) sample_ies =
      [(0, [97, 98]), (1, [0x82, 0x84]), (3, [6]), (221, [0, 0x50, 0xf2, 4])]"
    by (simp add: sample_ies_def ie_is_def)
  have l: "length (ies_bytes [(0, [97, 98]), (1, [0x82, 0x84]), (3, [6]), (221, [0, 0x50, 0xf2, 4])]) = 17"
    "[(0, [97, 98]), (1, [0x82, 0x84]), (3, [6]), (221, [0, 0x50, 0xf2, 4])] \<noteq> sample_ies"
    by (simp_all add: sample_ies_def)
  show ?thesis
    using ies_remove_ie_filters [OF sample_ies_facts(1) f sample_ies_facts(2), of "replicate 12 0" "[]"]
    unfolding r using l by (auto simp: sample_ies_facts(3) simp del: ies_bytes_simps)
qed

end
