(* ===== verification/IeSecurity.thy ===== *)
theory IeSecurity
  imports Ie
begin

text \<open>
  The security elements (\<open>core/rtw_ieee80211.c\<close>): finding WPA and RSN elements and reading their
  cipher suites.  Bit masks of ciphers are natural numbers.
\<close>

section \<open>Cipher suites\<close>

definition WPA_CIPHER_NONE :: nat where "WPA_CIPHER_NONE = 1"
definition WPA_CIPHER_WEP40 :: nat where "WPA_CIPHER_WEP40 = 2"
definition WPA_CIPHER_WEP104 :: nat where "WPA_CIPHER_WEP104 = 4"
definition WPA_CIPHER_TKIP :: nat where "WPA_CIPHER_TKIP = 8"
definition WPA_CIPHER_CCMP :: nat where "WPA_CIPHER_CCMP = 16"

definition WPA_SELECTOR_LEN :: nat where "WPA_SELECTOR_LEN = 4"

definition RTW_WPA_OUI_TYPE :: "byte list" where "RTW_WPA_OUI_TYPE = [0x00, 0x50, 0xf2, 1]"

text \<open>The selectors \<open>WPA_CIPHER_SUITE_*\<close> and \<open>RSN_CIPHER_SUITE_*\<close>.\<close>

definition wpa_suite :: "byte \<Rightarrow> byte list" where "wpa_suite k = [0x00, 0x50, 0xf2, k]"
definition rsn_suite :: "byte \<Rightarrow> byte list" where "rsn_suite k = [0x00, 0x0f, 0xac, k]"

text \<open>The comparisons of \<open>rtw_get_wpa_cipher_suite\<close> and \<open>rtw_get_wpa2_cipher_suite\<close>.\<close>

definition cipher_suite :: "(byte \<Rightarrow> byte list) \<Rightarrow> byte list \<Rightarrow> nat \<Rightarrow> nat option" where
  "cipher_suite suite m pos = do {
     s \<leftarrow> rd_slice m pos WPA_SELECTOR_LEN;
     Some (if s = suite 0 then WPA_CIPHER_NONE
           else if s = suite 1 then WPA_CIPHER_WEP40
           else if s = suite 2 then WPA_CIPHER_TKIP
           else if s = suite 4 then WPA_CIPHER_CCMP
           else if s = suite 5 then WPA_CIPHER_WEP104
           else 0) }"

definition rtw_get_wpa_cipher_suite :: "byte list \<Rightarrow> nat \<Rightarrow> nat option" where
  "rtw_get_wpa_cipher_suite = cipher_suite wpa_suite"

definition rtw_get_wpa2_cipher_suite :: "byte list \<Rightarrow> nat \<Rightarrow> nat option" where
  "rtw_get_wpa2_cipher_suite = cipher_suite rsn_suite"

section \<open>Reading an element\<close>

text \<open>The loop over the pairwise suites.\<close>

fun suites_loop :: "(byte list \<Rightarrow> nat \<Rightarrow> nat option) \<Rightarrow> byte list \<Rightarrow> nat \<Rightarrow> nat \<Rightarrow> nat \<Rightarrow> nat option" where
  "suites_loop suite m pos 0 pw = Some pw"
| "suites_loop suite m pos (Suc n) pw = do {
     c \<leftarrow> suite m pos;
     suites_loop suite m (pos + WPA_SELECTOR_LEN) n (pw OR c) }"

text \<open>
  What the two parsers share: the group cipher and the pairwise ciphers in the \<open>left\<close> bytes at
  \<open>pos\<close>.  The results are the return code, \<open>*group_cipher\<close> and \<open>*pairwise_cipher\<close>.
\<close>

definition parse_pairwise ::
  "(byte list \<Rightarrow> nat \<Rightarrow> nat option) \<Rightarrow> byte list \<Rightarrow> nat \<Rightarrow> int \<Rightarrow> nat \<Rightarrow> nat \<Rightarrow> (nat \<times> nat \<times> nat) option" where
  "parse_pairwise suite m pos left grp pw =
     (if left \<ge> 2 then do {
        count \<leftarrow> get_le16 m pos;
        if count = 0 \<or> left - 2 < int (unat count * WPA_SELECTOR_LEN) then Some (FAIL, grp, pw)
        else do {
          pw1 \<leftarrow> suites_loop suite m (pos + 2) (unat count) pw;
          Some (SUCCESS, grp, pw1) }
      }
      else if left = 1 then Some (FAIL, grp, pw)
      else Some (SUCCESS, grp, pw))"

definition parse_ciphers ::
  "(byte list \<Rightarrow> nat \<Rightarrow> nat option) \<Rightarrow> byte list \<Rightarrow> nat \<Rightarrow> int \<Rightarrow> nat \<Rightarrow> nat \<Rightarrow> (nat \<times> nat \<times> nat) option" where
  "parse_ciphers suite m pos left grp pw =
     (if left \<ge> int WPA_SELECTOR_LEN then do {
        g \<leftarrow> suite m pos;
        parse_pairwise suite m (pos + WPA_SELECTOR_LEN) (left - int WPA_SELECTOR_LEN) g pw
      }
      else if left > 0 then Some (FAIL, grp, pw)
      else parse_pairwise suite m pos left grp pw)"

definition rtw_parse_wpa_ie :: "byte list \<Rightarrow> int \<Rightarrow> nat \<Rightarrow> nat \<Rightarrow> (nat \<times> nat \<times> nat) option" where
  "rtw_parse_wpa_ie wpa_ie wpa_ie_len grp pw =
     (if wpa_ie_len \<le> 0 then Some (FAIL, grp, pw)
      else do {
        eid \<leftarrow> rd wpa_ie 0;
        if eid \<noteq> 0xdd then Some (FAIL, grp, pw) else do {
        l \<leftarrow> rd wpa_ie 1;
        if l \<noteq> word_of_int (wpa_ie_len - 2) then Some (FAIL, grp, pw) else do {
        oui \<leftarrow> rtw_memcmp wpa_ie 2 RTW_WPA_OUI_TYPE;
        if \<not> oui then Some (FAIL, grp, pw)
        else parse_ciphers rtw_get_wpa_cipher_suite wpa_ie 8 (wpa_ie_len - 8) grp pw } } })"

definition rtw_parse_wpa2_ie :: "byte list \<Rightarrow> int \<Rightarrow> nat \<Rightarrow> nat \<Rightarrow> (nat \<times> nat \<times> nat) option" where
  "rtw_parse_wpa2_ie rsn_ie rsn_ie_len grp pw =
     (if rsn_ie_len \<le> 0 then Some (FAIL, grp, pw)
      else do {
        eid \<leftarrow> rd rsn_ie 0;
        if eid \<noteq> 0x30 then Some (FAIL, grp, pw) else do {
        l \<leftarrow> rd rsn_ie 1;
        if l \<noteq> word_of_int (rsn_ie_len - 2) then Some (FAIL, grp, pw)
        else parse_ciphers rtw_get_wpa2_cipher_suite rsn_ie 4 (rsn_ie_len - 4) grp pw } })"

section \<open>Finding the elements\<close>

text \<open>
  \<open>rtw_get_wpa_ie\<close>.  After a vendor element that is no WPA element the loop goes on behind it,
  but takes only this element's length off \<open>limit\<close>, not that of the elements skipped before it.
\<close>

lemma get_ie_limit: "limit < 1 \<Longrightarrow> rtw_get_ie m p index limit = Some None"
  by (simp add: rtw_get_ie_def)

function rtw_get_wpa_ie :: "byte list \<Rightarrow> nat \<Rightarrow> int \<Rightarrow> (nat \<times> nat) option option" where
  "rtw_get_wpa_ie m p limit =
     (case rtw_get_ie m p 0xdd limit of None \<Rightarrow> None
      | Some None \<Rightarrow> Some None
      | Some (Some (q, len)) \<Rightarrow>
          (case (do { oui \<leftarrow> rtw_memcmp m (q + 2) RTW_WPA_OUI_TYPE;
                      if \<not> oui then Some False
                      else map_option (\<lambda>val16. val16 = 0x0001) (get_le16 m (q + 6)) }) of
             None \<Rightarrow> None
           | Some True \<Rightarrow> Some (Some (q, len))
           | Some False \<Rightarrow>
               if limit - int (2 + len) \<le> 0 then Some None
               else rtw_get_wpa_ie m (q + (2 + len)) (limit - int (2 + len))))"
  by pat_completeness auto

termination
  by (relation "measure (\<lambda>(m, p, limit). nat limit)") (auto simp: rtw_get_ie_def split: if_splits)

declare rtw_get_wpa_ie.simps [simp del]

definition rtw_get_wpa2_ie :: "byte list \<Rightarrow> nat \<Rightarrow> int \<Rightarrow> (nat \<times> nat) option option" where
  "rtw_get_wpa2_ie m p limit = rtw_get_ie m p 0x30 limit"

text \<open>
  \<open>rtw_get_sec_ie\<close> traces an element it has copied in a loop of its own, whose counter \<open>i\<close> is a byte:
  it may not end, so it is a partial function.
\<close>

partial_function (option) trace_loop :: "nat \<Rightarrow> byte \<Rightarrow> unit option" where
  "trace_loop n i = (if unat i < n then trace_loop n (i + 8) else Some ())"

text \<open>
  The loop of \<open>rtw_get_sec_ie\<close>: \<open>rsn\<close> and \<open>wpa\<close> are the copied elements, of \<open>*rsn_len\<close> and
  \<open>*wpa_len\<close> bytes; \<open>None\<close> is an access outside the memory or a loop that does not end.
\<close>

definition copy_sec_ie :: "byte list \<Rightarrow> nat \<Rightarrow> nat \<Rightarrow> byte list option" where
  "copy_sec_ie m cnt n = do { e \<leftarrow> rd_slice m cnt n; _ \<leftarrow> trace_loop n 0; Some e }"

function sec_ie_loop ::
  "byte list \<Rightarrow> nat \<Rightarrow> nat \<Rightarrow> byte list \<Rightarrow> byte list \<Rightarrow> (byte list \<times> byte list) option" where
  "sec_ie_loop m in_len cnt rsn wpa =
     (if cnt < in_len then
        case rd m cnt of None \<Rightarrow> None
        | Some authmode \<Rightarrow>
            (case (if authmode = 0xdd then rtw_memcmp m (cnt + 2) RTW_WPA_OUI_TYPE else Some False) of
               None \<Rightarrow> None
             | Some is_wpa \<Rightarrow>
                 (case rd m (cnt + 1) of None \<Rightarrow> None
                  | Some l \<Rightarrow>
                      if is_wpa then
                        (case copy_sec_ie m cnt (unat l + 2) of None \<Rightarrow> None
                         | Some e \<Rightarrow> sec_ie_loop m in_len (cnt + (unat l + 2)) rsn e)
                      else if authmode = 0x30 then
                        (case copy_sec_ie m cnt (unat l + 2) of None \<Rightarrow> None
                         | Some e \<Rightarrow> sec_ie_loop m in_len (cnt + (unat l + 2)) e wpa)
                      else sec_ie_loop m in_len (cnt + (unat l + 2)) rsn wpa))
      else Some (rsn, wpa))"
  by pat_completeness auto

termination
  by (relation "measure (\<lambda>(m, in_len, cnt, rsn, wpa). in_len - cnt)") auto

declare sec_ie_loop.simps [simp del]

text \<open>The search starts behind timestamp, beacon interval and capability.\<close>

definition rtw_get_sec_ie ::
  "byte list \<Rightarrow> nat \<Rightarrow> byte list \<Rightarrow> byte list \<Rightarrow> (nat \<times> byte list \<times> byte list) option" where
  "rtw_get_sec_ie in_ie in_len rsn wpa =
     map_option (\<lambda>(r, w). (length r + length w, r, w)) (sec_ie_loop in_ie in_len 12 rsn wpa)"

section \<open>Reading what was written\<close>

text \<open>The cipher a suite type stands for.\<close>

definition cipher_of :: "byte \<Rightarrow> nat" where
  "cipher_of k = (if k = 0 then WPA_CIPHER_NONE else if k = 1 then WPA_CIPHER_WEP40
     else if k = 2 then WPA_CIPHER_TKIP else if k = 4 then WPA_CIPHER_CCMP
     else if k = 5 then WPA_CIPHER_WEP104 else 0)"

text \<open>
  The suites as they are sent: the group suite, the number of pairwise suites, these, and what
  follows (key management and capabilities).
\<close>

definition suite_list :: "(byte \<Rightarrow> byte list) \<Rightarrow> byte \<Rightarrow> byte list \<Rightarrow> byte list \<Rightarrow> byte list" where
  "suite_list suite g ps tail = suite g @ le16_bytes (of_nat (length ps)) @ concat (map suite ps) @ tail"

definition wpa_ie_bytes :: "byte \<Rightarrow> byte list \<Rightarrow> byte list \<Rightarrow> byte list" where
  "wpa_ie_bytes g ps tail = ie_bytes (0xdd, RTW_WPA_OUI_TYPE @ [1, 0] @ suite_list wpa_suite g ps tail)"

definition rsn_ie_bytes :: "byte \<Rightarrow> byte list \<Rightarrow> byte list \<Rightarrow> byte list" where
  "rsn_ie_bytes g ps tail = ie_bytes (0x30, [1, 0] @ suite_list rsn_suite g ps tail)"

definition cipher_mask :: "byte list \<Rightarrow> nat \<Rightarrow> nat" where
  "cipher_mask ps pw = foldl (\<lambda>acc k. acc OR cipher_of k) pw ps"

lemma suite_facts [simp]: "length (wpa_suite k) = 4" "length (rsn_suite k) = 4"
  "wpa_suite k = wpa_suite j \<longleftrightarrow> k = j" "rsn_suite k = rsn_suite j \<longleftrightarrow> k = j"
  by (simp_all add: wpa_suite_def rsn_suite_def)

lemma cipher_suite_at:
  assumes "m = pre @ suite k @ post" and "length pre = pos" and "length (suite k) = 4"
    and "\<And>j. suite k = suite j \<longleftrightarrow> k = j"
  shows "cipher_suite suite m pos = Some (cipher_of k)"
proof -
  have "rd_slice m pos WPA_SELECTOR_LEN = Some (suite k)"
    unfolding assms(1) by (rule rd_slice_at) (simp_all add: assms WPA_SELECTOR_LEN_def)
  then show ?thesis by (simp add: cipher_suite_def cipher_of_def assms(4))
qed

lemma suites_loop_list:
  assumes "m = pre @ concat (map suite ps) @ post" and "length pre = pos"
    and "\<And>k. length (suite k) = 4" and "\<And>j k. suite k = suite j \<longleftrightarrow> k = j"
  shows "suites_loop (cipher_suite suite) m pos (length ps) pw = Some (cipher_mask ps pw)"
  using assms(1,2)
proof (induction ps arbitrary: pre pos pw)
  case (Cons k ps)
  have c: "cipher_suite suite m pos = Some (cipher_of k)"
    using Cons.prems assms(3,4) by (intro cipher_suite_at [of m pre suite k "concat (map suite ps) @ post"]) auto
  show ?case
    using Cons.IH [of "pre @ suite k" "pos + WPA_SELECTOR_LEN" "pw OR cipher_of k"] Cons.prems assms(3) c
    by (simp add: WPA_SELECTOR_LEN_def cipher_mask_def)
qed (simp add: cipher_mask_def)

lemma parse_suite_list:
  assumes "m = pre @ suite_list suite g ps tail" and "length pre = pos"
    and "\<And>k. length (suite k) = 4" and "\<And>j k. suite k = suite j \<longleftrightarrow> k = j"
    and "ps \<noteq> []" and "length ps < 65536"
  shows "parse_ciphers (cipher_suite suite) m pos (int (length m) - int pos) g0 pw =
    Some (SUCCESS, cipher_of g, cipher_mask ps pw)"
proof -
  have l: "int (length m) - int pos = int (6 + 4 * length ps + length tail)"
  proof -
    have "length (concat (map suite ps)) = 4 * length ps" using assms(3) by (induction ps) auto
    then show ?thesis using assms(1-3) by (simp add: suite_list_def)
  qed
  have c: "cipher_suite suite m pos = Some (cipher_of g)"
    using assms(1-4) by (intro cipher_suite_at [of m pre suite g "le16_bytes (of_nat (length ps)) @ concat (map suite ps) @ tail"])
      (auto simp: suite_list_def)
  have n: "get_le16 m (pos + 4) = Some (of_nat (length ps))"
    using get_le16_bytes [of "pre @ suite g" "pos + 4" "of_nat (length ps)" "concat (map suite ps) @ tail"] assms(1-3)
    by (simp add: suite_list_def)
  have u: "unat (of_nat (length ps) :: u16) = length ps" using assms(6) by (simp add: unat_of_nat take_bit_eq_mod)
  have ui: "uint (of_nat (length ps) :: u16) = int (length ps)" using u by (metis uint_nat)
  have nz: "(of_nat (length ps) :: u16) \<noteq> 0" using u assms(5) by (metis length_0_conv unsigned_0)
  have s: "suites_loop (cipher_suite suite) m (pos + 4 + 2) (length ps) pw = Some (cipher_mask ps pw)"
    using assms(1-4) by (intro suites_loop_list [of m "pre @ suite g @ le16_bytes (of_nat (length ps))"])
      (auto simp: suite_list_def)
  show ?thesis unfolding l using c n s nz
    by (simp add: parse_ciphers_def parse_pairwise_def WPA_SELECTOR_LEN_def u ui)
qed

text \<open>
  C30: the parsers of the security elements read what was written.  For a WPA and for an RSN
  element with the group suite \<open>g\<close>, the pairwise suites \<open>ps\<close> and anything behind them, they succeed
  and give the group cipher and the set of pairwise ciphers.
\<close>

theorem security_ie_roundtrip:
  assumes "ps \<noteq> []" and "length ps \<le> 50" and "4 * length ps + length tail \<le> 240"
  shows "rtw_parse_wpa_ie (wpa_ie_bytes g ps tail) (int (length (wpa_ie_bytes g ps tail))) g0 pw =
      Some (SUCCESS, cipher_of g, cipher_mask ps pw) \<and>
    rtw_parse_wpa2_ie (rsn_ie_bytes g ps tail) (int (length (rsn_ie_bytes g ps tail))) g0 pw =
      Some (SUCCESS, cipher_of g, cipher_mask ps pw)"
proof (intro conjI)
  have len: "length (concat (map suite ps)) = 4 * length ps" if "\<And>k. length (suite k) = 4" for suite :: "byte \<Rightarrow> byte list"
    using that by (induction ps) auto
  define d where "d = RTW_WPA_OUI_TYPE @ [1, 0] @ suite_list wpa_suite g ps tail"
  have w: "wpa_ie_bytes g ps tail = [0xdd, of_nat (length d)] @ d" by (simp add: wpa_ie_bytes_def ie_bytes_def d_def)
  have p: "parse_ciphers (cipher_suite wpa_suite) (wpa_ie_bytes g ps tail) 8
      (int (length (wpa_ie_bytes g ps tail)) - int 8) g0 pw = Some (SUCCESS, cipher_of g, cipher_mask ps pw)"
    using assms by (intro parse_suite_list [of _ "[0xdd, of_nat (length d)] @ RTW_WPA_OUI_TYPE @ [1, 0]"])
      (simp_all add: w d_def RTW_WPA_OUI_TYPE_def)
  have m: "rtw_memcmp (wpa_ie_bytes g ps tail) 2 RTW_WPA_OUI_TYPE = Some True"
    by (simp add: rtw_memcmp_def rd_slice_def w d_def RTW_WPA_OUI_TYPE_def)
  show "rtw_parse_wpa_ie (wpa_ie_bytes g ps tail) (int (length (wpa_ie_bytes g ps tail))) g0 pw =
      Some (SUCCESS, cipher_of g, cipher_mask ps pw)"
    using p m by (simp add: rtw_parse_wpa_ie_def rtw_get_wpa_cipher_suite_def) (simp add: w rd_def rtw_get_wpa_cipher_suite_def)
  define e where "e = [1, 0] @ suite_list rsn_suite g ps tail"
  have w2: "rsn_ie_bytes g ps tail = [0x30, of_nat (length e)] @ e" by (simp add: rsn_ie_bytes_def ie_bytes_def e_def)
  have p2: "parse_ciphers (cipher_suite rsn_suite) (rsn_ie_bytes g ps tail) 4
      (int (length (rsn_ie_bytes g ps tail)) - int 4) g0 pw = Some (SUCCESS, cipher_of g, cipher_mask ps pw)"
    using assms by (intro parse_suite_list [of _ "[0x30, of_nat (length e)] @ [1, 0]"]) (simp_all add: w2 e_def)
  show "rtw_parse_wpa2_ie (rsn_ie_bytes g ps tail) (int (length (rsn_ie_bytes g ps tail))) g0 pw =
      Some (SUCCESS, cipher_of g, cipher_mask ps pw)"
    using p2 by (simp add: rtw_parse_wpa2_ie_def rtw_get_wpa2_cipher_suite_def) (simp add: w2 rd_def rtw_get_wpa2_cipher_suite_def)
qed

theorem security_ie_roundtrip_witness:
  "rtw_parse_wpa2_ie (rsn_ie_bytes 2 [4, 2] [1, 0, 0, 0x0f, 0xac, 2]) 24 0 0 = Some (SUCCESS, 8, 24)"
  using security_ie_roundtrip [of "[4, 2]" "[1, 0, 0, 0x0f, 0xac, 2]" 2 0 0]
  by (simp add: rsn_ie_bytes_def suite_list_def cipher_of_def cipher_mask_def WPA_CIPHER_TKIP_def WPA_CIPHER_CCMP_def)

section \<open>Reading anything\<close>

lemma suites_loop_inside:
  "pos + 4 * n \<le> length m \<Longrightarrow> suites_loop (cipher_suite suite) m pos n pw \<noteq> None"
  by (induction n arbitrary: pos pw)
    (auto simp: cipher_suite_def WPA_SELECTOR_LEN_def rd_slice_def)

lemma parse_pairwise_inside:
  assumes "left \<le> int (length m) - int pos"
  shows "parse_pairwise (cipher_suite suite) m pos left grp pw \<noteq> None"
proof (cases "left \<ge> 2")
  case True
  then have "pos + 2 \<le> length m" using assms by simp
  then obtain count where c: "get_le16 m pos = Some count" by (auto simp: get_le16_def rd_slice_def)
  show ?thesis
  proof (cases "count = 0 \<or> left - 2 < int (unat count * WPA_SELECTOR_LEN)")
    case False
    then have "int (pos + 2 + 4 * unat count) \<le> int (length m)" using assms
      by (simp add: WPA_SELECTOR_LEN_def)
    then have "(pos + 2) + 4 * unat count \<le> length m" by linarith
    from suites_loop_inside [OF this, of suite pw] show ?thesis
      using True c False by (auto simp: parse_pairwise_def)
  qed (use True c in \<open>auto simp: parse_pairwise_def\<close>)
qed (auto simp: parse_pairwise_def)

lemma parse_ciphers_inside:
  assumes "left \<le> int (length m) - int pos"
  shows "parse_ciphers (cipher_suite suite) m pos left grp pw \<noteq> None"
proof (cases "left \<ge> int WPA_SELECTOR_LEN")
  case True
  then have "cipher_suite suite m pos \<noteq> None"
    using assms by (simp add: cipher_suite_def WPA_SELECTOR_LEN_def rd_slice_def)
  then show ?thesis
    using True assms parse_pairwise_inside [of "left - int WPA_SELECTOR_LEN" m "pos + WPA_SELECTOR_LEN" suite]
    by (auto simp: parse_ciphers_def)
next
  case False
  then show ?thesis using parse_pairwise_inside [OF assms] by (auto simp: parse_ciphers_def)
qed

text \<open>
  Whatever the bytes are, the parsers read nothing outside them.  On every memory of at least
  six bytes, given its length, both return a code, whatever counts and lengths the elements
  claim.
\<close>

theorem security_parsers_stay_inside:
  assumes "6 \<le> length m"
  shows "rtw_parse_wpa_ie m (int (length m)) g0 pw \<noteq> None \<and> rtw_parse_wpa2_ie m (int (length m)) g0 pw \<noteq> None"
  using assms parse_ciphers_inside [of "int (length m) - 8" m 8 wpa_suite g0 pw]
    parse_ciphers_inside [of "int (length m) - 4" m 4 rsn_suite g0 pw]
  by (auto simp: rtw_parse_wpa_ie_def rtw_parse_wpa2_ie_def rtw_get_wpa_cipher_suite_def rtw_get_wpa2_cipher_suite_def
      rd_def rtw_memcmp_def rd_slice_def RTW_WPA_OUI_TYPE_def)

theorem security_parsers_stay_inside_witness:
  "rtw_parse_wpa2_ie [0x30, 8, 1, 0, 0, 0x0f, 0xac, 4, 9, 0] 10 0 0 \<noteq> None"
  using security_parsers_stay_inside [of "[0x30, 8, 1, 0, 0, 0x0f, 0xac, 4, 9, 0]" 0 0] by simp

section \<open>Finding the WPA element\<close>

lemma get_ie_series_limit:
  assumes "ies_ok es" and "m = pre @ ies_bytes es @ post" and "first_ie (\<lambda>e. unat (fst e) = index) es = Some (k, e)"
    and "int (length (ies_bytes es)) \<le> limit" and "length pre = p"
  shows "rtw_get_ie m p index limit = Some (Some (p + k, length (snd e)))"
proof -
  have l: "get_ie_loop (drop p m) index limit i = Some (Some (i + k, length (snd e)))"
    if "ies_ok es" "drop p m = pre' @ ies_bytes es @ post'" "first_ie (\<lambda>e. unat (fst e) = index) es = Some (k, e)"
      "int (length pre' + length (ies_bytes es)) \<le> limit" "i = length pre'" for es k i pre' post'
    using that
  proof (induction es arbitrary: k i pre')
    case (Cons x es)
    have x: "length (snd x) < 256" using Cons.prems(1) by simp
    have d: "drop p m = pre' @ ie_bytes x @ (ies_bytes es @ post')" using Cons.prems(2) by simp
    note at = ie_at_pos [OF x, of pre' "ies_bytes es @ post'", folded d]
    show ?case
    proof (cases "unat (fst x) = index")
      case True
      then show ?thesis using at x Cons.prems(3,5) by (subst get_ie_loop.simps) (auto simp: unat_of_len)
    next
      case False
      then obtain k' where k: "first_ie (\<lambda>e. unat (fst e) = index) es = Some (k', e)" "k = length (snd x) + 2 + k'"
        using Cons.prems(3) by auto
      then have ne: "es \<noteq> []" by auto
      have lt: "int (i + (length (snd x) + 2)) < limit"
        using Cons.prems(4,5) ne by (cases es) auto
      have "get_ie_loop (drop p m) index limit i = get_ie_loop (drop p m) index limit (i + (length (snd x) + 2))"
        using False at x lt Cons.prems(5) by (subst get_ie_loop.simps) (simp add: unat_of_len)
      also have "\<dots> = Some (Some (i + (length (snd x) + 2) + k', length (snd e)))"
        using Cons.prems k by (intro Cons.IH [of "pre' @ ie_bytes x"]) auto
      finally show ?thesis using k(2) by simp
    qed
  qed simp
  have "es \<noteq> []" using assms(3) by auto
  then have "\<not> limit < 1" using assms(4) by (cases es) auto
  moreover have "get_ie_loop (drop p m) index limit 0 = Some (Some (k, length (snd e)))"
    using l [of es "[]" post k 0] assms by simp
  ultimately show ?thesis by (simp add: rtw_get_ie_def)
qed

definition is_wpa :: "ie \<Rightarrow> bool" where
  "is_wpa e \<longleftrightarrow> fst e = 0xdd \<and> take 6 (snd e) = RTW_WPA_OUI_TYPE @ [1, 0]"

definition vendor_long :: "ie list \<Rightarrow> bool" where
  "vendor_long es \<longleftrightarrow> (\<forall>e \<in> set es. fst e = 0xdd \<longrightarrow> 6 \<le> length (snd e))"

lemma le16_one: "(ucast (a :: byte) OR push_bit 8 (ucast (b :: byte)) :: u16) = 1 \<longleftrightarrow> a = 1 \<and> b = 0"
proof
  assume one: "(ucast a OR push_bit 8 (ucast b) :: u16) = 1"
  have "a = ucast (ucast a OR push_bit 8 (ucast b) :: u16)"
    by (rule bit_word_eqI) (auto simp: bit_simps)
  moreover have "b = ucast (drop_bit 8 (ucast a OR push_bit 8 (ucast b) :: u16))"
    by (rule bit_word_eqI) (auto simp: bit_simps dest: bit_byte_ge)
  ultimately show "a = 1 \<and> b = 0" unfolding one by simp
qed simp

text \<open>The condition on a vendor element that is long enough.\<close>

lemma wpa_condition:
  assumes "m = pre @ ie_bytes e @ post" and "length pre = q" and "6 \<le> length (snd e)" and "fst e = 0xdd"
  shows "(do { oui \<leftarrow> rtw_memcmp m (q + 2) RTW_WPA_OUI_TYPE;
               if \<not> oui then Some False else map_option (\<lambda>val16. val16 = 0x0001) (get_le16 m (q + 6)) }) = Some (is_wpa e)"
proof -
  obtain a b c d x y r where s: "snd e = [a, b, c, d, x, y] @ r"
  proof -
    define t where "t = take 6 (snd e)"
    have "length t = Suc (Suc (Suc (Suc (Suc (Suc 0)))))" using assms(3) by (simp add: t_def)
    then obtain a b c d x y where "t = [a, b, c, d, x, y]" by (auto simp: length_Suc_conv)
    then have "snd e = [a, b, c, d, x, y] @ drop 6 (snd e)" unfolding t_def by (metis append_take_drop_id)
    then show thesis using that by blast
  qed
  have m: "m = pre @ [fst e, of_nat (length (snd e)), a, b, c, d, x, y] @ (r @ post)"
    using assms(1) by (simp add: ie_bytes_def s)
  have 1: "rd_slice m (q + 2) 4 = Some [a, b, c, d]" "rd_slice m (q + 6) 2 = Some [x, y]"
    unfolding m using assms(2) by (simp_all add: rd_slice_def)
  have "length RTW_WPA_OUI_TYPE = 4" by (simp add: RTW_WPA_OUI_TYPE_def)
  then have "rtw_memcmp m (q + 2) RTW_WPA_OUI_TYPE = Some ([a, b, c, d] = RTW_WPA_OUI_TYPE)"
    unfolding rtw_memcmp_def using 1 by simp
  then show ?thesis
    using assms(4) 1 by (auto simp: get_le16_def RTW_WPA_OUI_TYPE_def is_wpa_def s le16_one)
qed

lemma first_ie_append:
  "\<forall>e \<in> set as. \<not> P e \<Longrightarrow> first_ie P (as @ bs) = map_option (\<lambda>(k, e). (length (ies_bytes as) + k, e)) (first_ie P bs)"
  by (induction as) (auto simp: option.map_comp comp_def case_prod_unfold add.assoc option.map_ident)

lemma get_wpa_ie_series:
  assumes "ies_ok es" and "vendor_long es" and "m = pre @ ies_bytes es @ post" and "length pre = p"
    and "first_ie is_wpa es = Some (k, e)" and "int (length (ies_bytes es)) \<le> limit"
  shows "rtw_get_wpa_ie m p limit = Some (Some (p + k, length (snd e)))"
  using assms
proof (induction "length es" arbitrary: es pre p k limit rule: less_induct)
  case less
  let ?V = "\<lambda>e :: ie. unat (fst e) = 0xdd"
  have v: "?V x \<longleftrightarrow> fst x = 0xdd" for x by (simp add: word_unat_eq_iff)
  obtain k0 e0 where f0: "first_ie ?V es = Some (k0, e0)"
  proof -
    have "e \<in> set es \<and> is_wpa e" using first_ie_Some [OF less.prems(5)] by auto
    then have "first_ie ?V es \<noteq> None" by (auto simp: first_ie_None is_wpa_def v)
    then show thesis using that by fastforce
  qed
  obtain as bs where es: "es = as @ e0 # bs" "k0 = length (ies_bytes as)" "?V e0" "\<forall>x \<in> set as. \<not> ?V x"
    using first_ie_Some [OF f0] by blast
  have g: "rtw_get_ie m p 0xdd limit = Some (Some (p + k0, length (snd e0)))"
    by (rule get_ie_series_limit [OF less.prems(1,3) f0 less.prems(6,4)])
  have c: "(do { oui \<leftarrow> rtw_memcmp m (p + k0 + 2) RTW_WPA_OUI_TYPE;
      if \<not> oui then Some False else map_option (\<lambda>val16. val16 = 0x0001) (get_le16 m (p + k0 + 6)) }) = Some (is_wpa e0)"
    using less.prems(2-4) es v
    by (intro wpa_condition [of m "pre @ ies_bytes as" e0 "ies_bytes bs @ post"]) (auto simp: vendor_long_def)
  have as: "\<forall>x \<in> set as. \<not> is_wpa x" using es(4) by (auto simp: is_wpa_def)
  show ?case
  proof (cases "is_wpa e0")
    case True
    then have "k = k0 \<and> e = e0" using less.prems(5) first_ie_append [OF as, of "e0 # bs"] es by simp
    then show ?thesis using g c True by (subst rtw_get_wpa_ie.simps) simp
  next
    case False
    obtain k' where k': "first_ie is_wpa bs = Some (k', e)" "k = k0 + (length (snd e0) + 2) + k'"
      using less.prems(5) first_ie_append [OF as, of "e0 # bs"] es False by auto
    have ne: "bs \<noteq> []" using k'(1) by auto
    have lim: "int (length (ies_bytes bs)) \<le> limit - int (2 + length (snd e0))" "0 < limit - int (2 + length (snd e0))"
      using less.prems(6) es ne by (cases bs; auto)+
    have "rtw_get_wpa_ie m p limit =
        rtw_get_wpa_ie m (p + k0 + (2 + length (snd e0))) (limit - int (2 + length (snd e0)))"
      using g c False lim by (subst rtw_get_wpa_ie.simps) simp
    also have "\<dots> = Some (Some (p + k0 + (2 + length (snd e0)) + k', length (snd e)))"
      using less.prems(1-4) es k'(1) lim
      by (intro less.hyps [of bs "pre @ ies_bytes as @ ie_bytes e0"]) (auto simp: vendor_long_def)
    finally show ?thesis using k'(2) by (simp add: ac_simps)
  qed
qed

text \<open>
  The WPA element is found.  In a series whose vendor elements have at least six bytes,
  \<open>rtw_get_wpa_ie\<close> answers the place and the length of the first WPA element, whatever vendor
  elements are before it, if there is one.
\<close>

theorem wpa_ie_found:
  assumes "ies_ok es" and "vendor_long es" and "first_ie is_wpa es = Some (k, e)"
  shows "rtw_get_wpa_ie (pre @ ies_bytes es @ post) (length pre) (int (length (ies_bytes es))) =
    Some (Some (length pre + k, length (snd e)))"
  by (rule get_wpa_ie_series [OF assms(1,2) refl refl assms(3) order_refl])

definition wpa_sample :: "ie list" where
  "wpa_sample = [(0, [97]), (221, [0, 0x50, 0xf2, 2, 1, 1]), (3, [6]), (221, RTW_WPA_OUI_TYPE @ [1, 0] @ wpa_suite 2)]"

theorem wpa_ie_found_witness:
  "rtw_get_wpa_ie (ies_bytes wpa_sample) 0 26 = Some (Some (14, 10))"
  using wpa_ie_found [of wpa_sample 14 "(221, RTW_WPA_OUI_TYPE @ [1, 0] @ wpa_suite 2)" "[]" "[]"]
  by (simp add: wpa_sample_def ies_ok_def vendor_long_def is_wpa_def RTW_WPA_OUI_TYPE_def wpa_suite_def)

text \<open>
  C31: without a WPA element the search can leave the elements.  When the only vendor element of
  the series is the last one, is no WPA element and is not the first element either,
  \<open>rtw_get_wpa_ie\<close> takes only this element's length off its limit, goes on behind the end and
  reads there: on a memory that ends with the elements it faults.
\<close>

theorem wpa_ie_search_overruns:
  assumes "ies_ok (as @ [e])" and "as \<noteq> []" and "\<forall>x \<in> set as. fst x \<noteq> 0xdd"
    and "fst e = 0xdd" and "6 \<le> length (snd e)" and "\<not> is_wpa e"
  shows "rtw_get_wpa_ie (ies_bytes (as @ [e])) 0 (int (length (ies_bytes (as @ [e])))) = None"
proof -
  define m where "m = ies_bytes (as @ [e])"
  define k where "k = length (ies_bytes as)"
  have f: "first_ie (\<lambda>e. unat (fst e) = 0xdd) (as @ [e]) = Some (k, e)"
  proof -
    have "\<forall>x \<in> set as. \<not> unat (fst x) = 0xdd" using assms(3) by (auto simp: word_unat_eq_iff)
    then show ?thesis using assms(4) by (simp add: first_ie_append k_def)
  qed
  have g: "rtw_get_ie m 0 0xdd (int (length m)) = Some (Some (k, length (snd e)))"
    using get_ie_series_limit [OF assms(1), where m = m and pre = "[]" and post = "[]" and limit = "int (length m)" and p = 0] f
    by (simp add: m_def)
  have c: "(do { oui \<leftarrow> rtw_memcmp m (k + 2) RTW_WPA_OUI_TYPE;
      if \<not> oui then Some False else map_option (\<lambda>val16. val16 = 0x0001) (get_le16 m (k + 6)) }) = Some False"
    using wpa_condition [of m "ies_bytes as" e "[]" k] assms(4-6) by (simp add: m_def k_def)
  have lim: "int (length m) - int (2 + length (snd e)) = int k" "0 < int k"
    using assms(2) by (cases as; auto simp: m_def k_def)+
  have "rtw_get_ie m (k + (2 + length (snd e))) 0xdd (int k) = None"
    using lim(2) by (simp add: rtw_get_ie_def m_def k_def) (subst get_ie_loop.simps, simp add: rd_def)
  then have "rtw_get_wpa_ie m (k + (2 + length (snd e))) (int k) = None"
    by (subst rtw_get_wpa_ie.simps) simp
  then show ?thesis using g c lim unfolding m_def [symmetric] by (subst rtw_get_wpa_ie.simps) simp
qed

theorem wpa_ie_search_overruns_witness:
  "rtw_get_wpa_ie (ies_bytes [(0, [97]), (221, [0, 0x50, 0xf2, 2, 1, 1])]) 0 11 = None"
  using wpa_ie_search_overruns [of "[(0, [97])]" "(221, [0, 0x50, 0xf2, 2, 1, 1])"]
  by (simp add: is_wpa_def RTW_WPA_OUI_TYPE_def)

section \<open>Copying the security elements\<close>

lemma trace_loop_ends:
  assumes "n \<le> 248" and "k \<le> 31"
  shows "trace_loop n (of_nat (8 * k)) = Some ()"
  using assms(2)
proof (induction "31 - k" arbitrary: k)
  case 0
  then have "k = 31" by simp
  then show ?case using assms(1) by (subst trace_loop.simps) simp
next
  case (Suc j)
  have u: "unat (of_nat (8 * k) :: byte) = 8 * k" using Suc.prems by (simp add: unsigned_of_nat take_bit_eq_mod del: of_nat_mult)
  have "trace_loop n (of_nat (8 * (k + 1))) = Some ()" using Suc.hyps(2) by (intro Suc.hyps(1)) auto
  then have "trace_loop n (of_nat (8 * k) + 8) = Some ()" by (simp add: algebra_simps)
  then show ?case using u by (subst trace_loop.simps) (simp del: of_nat_mult)
qed

lemma trace_loop_hangs:
  assumes "248 < n"
  shows "trace_loop n 0 = None"
proof -
  have "248 < n \<longrightarrow> \<not> 8 dvd unat i" if "trace_loop n i = Some y" for n i y
  proof (rule trace_loop.raw_induct [OF _ that])
    fix f n i y
    assume IH: "\<And>n i y. f n i = Some y \<Longrightarrow> 248 < n \<longrightarrow> \<not> 8 dvd unat (i :: byte)"
      and step: "(if unat i < n then f n (i + 8) else Some ()) = Some y"
    show "248 < n \<longrightarrow> \<not> 8 dvd unat i"
    proof (intro impI notI)
      assume n: "248 < n" and d: "8 dvd unat i"
      have "unat i < 256" using unsigned_less [of i] by simp
      then have "unat i \<le> 248" using d by (auto elim!: dvdE)
      then have "f n (i + 8) = Some y" using step n by (simp split: if_splits)
      moreover have "8 dvd unat (i + 8)" using d by (simp add: unat_word_ariths dvd_mod_iff)
      ultimately show False using IH n by blast
    qed
  qed
  from this [of n 0] assms show ?thesis by (cases "trace_loop n 0") auto
qed

lemma copy_sec_ie_at:
  assumes "m = pre @ e @ post" and "length pre = cnt" and "length e = n"
  shows "copy_sec_ie m cnt n = (if n \<le> 248 then Some e else None)"
  using assms trace_loop_ends [of n 0] trace_loop_hangs [of n] by (auto simp: copy_sec_ie_def rd_slice_def)

text \<open>The last element of a kind, \<open>d\<close> if there is none.\<close>

definition last_ie :: "(ie \<Rightarrow> bool) \<Rightarrow> ie list \<Rightarrow> byte list \<Rightarrow> byte list" where
  "last_ie P es d = fold (\<lambda>e d. if P e then ie_bytes e else d) es d"

definition is_wpa_oui :: "ie \<Rightarrow> bool" where
  "is_wpa_oui e \<longleftrightarrow> fst e = 0xdd \<and> take 4 (snd e) = RTW_WPA_OUI_TYPE"

lemma sec_ie_loop_series:
  assumes "ies_ok es" and "\<forall>e \<in> set es. fst e = 0xdd \<longrightarrow> 4 \<le> length (snd e)"
    and "m = pre @ ies_bytes es @ post" and "length pre = cnt" and "cnt + length (ies_bytes es) = in_len"
  shows "sec_ie_loop m in_len cnt rsn wpa =
    (if \<forall>e \<in> set es. is_wpa_oui e \<or> fst e = 0x30 \<longrightarrow> length (snd e) \<le> 246
     then Some (last_ie (\<lambda>e. fst e = 0x30) es rsn, last_ie is_wpa_oui es wpa) else None)"
  using assms
proof (induction es arbitrary: pre cnt rsn wpa)
  case Nil
  then show ?case by (subst sec_ie_loop.simps) (simp add: last_ie_def)
next
  case (Cons e es)
  let ?n = "length (snd e) + 2"
  have len: "length (snd e) < 256" using Cons.prems(1) by (simp add: ies_ok_def)
  have m: "m = pre @ ie_bytes e @ (ies_bytes es @ post)" using Cons.prems(3) by simp
  have lt: "cnt < in_len" using Cons.prems(5) by simp
  have id: "rd m cnt = Some (fst e)" and l: "rd m (cnt + 1) = Some (of_nat (length (snd e)))"
    using m Cons.prems(4) by (auto simp: ie_bytes_def rd_def nth_append)
  have u: "unat (of_nat (length (snd e)) :: byte) = length (snd e)" using len by (simp add: unsigned_of_nat take_bit_eq_mod)
  have oui: "(if fst e = 0xdd then rtw_memcmp m (cnt + 2) RTW_WPA_OUI_TYPE else Some False) = Some (is_wpa_oui e)"
  proof (cases "fst e = 0xdd")
    case True
    then have "4 \<le> length (snd e)" using Cons.prems(2) by simp
    then have "rd_slice m (cnt + 2) 4 = Some (take 4 (snd e))"
      using m Cons.prems(4) by (simp add: ie_bytes_def rd_slice_def)
    then show ?thesis using True by (simp add: rtw_memcmp_def is_wpa_oui_def RTW_WPA_OUI_TYPE_def eval_nat_numeral)
  qed (simp add: is_wpa_oui_def)
  have copy: "copy_sec_ie m cnt ?n = (if length (snd e) \<le> 246 then Some (ie_bytes e) else None)"
    using copy_sec_ie_at [OF m Cons.prems(4), of ?n] by (simp add: ie_bytes_def)
  have IH: "sec_ie_loop m in_len (cnt + ?n) rsn' wpa' =
    (if \<forall>e \<in> set es. is_wpa_oui e \<or> fst e = 0x30 \<longrightarrow> length (snd e) \<le> 246
     then Some (last_ie (\<lambda>e. fst e = 0x30) es rsn', last_ie is_wpa_oui es wpa') else None)" for rsn' wpa'
    using Cons.prems by (intro Cons.IH [of "pre @ ie_bytes e"]) (auto simp: ies_ok_def)
  have excl: "\<not> (is_wpa_oui e \<and> fst e = 0x30)" by (auto simp: is_wpa_oui_def)
  have "sec_ie_loop m in_len cnt rsn wpa =
    (if (is_wpa_oui e \<or> fst e = 0x30) \<and> 246 < length (snd e) then None
     else sec_ie_loop m in_len (cnt + ?n) (if fst e = 0x30 then ie_bytes e else rsn) (if is_wpa_oui e then ie_bytes e else wpa))"
    using excl copy by (subst sec_ie_loop.simps) (auto simp: lt id l [simplified] oui u)
  then show ?case unfolding IH by (auto simp: last_ie_def)
qed

text \<open>
  The security elements are copied.  In a series behind the fixed fields of a beacon
  \<open>rtw_get_sec_ie\<close> returns exactly when no WPA or RSN element has more than 246 bytes, and then
  copies the last RSN element and the last WPA element.  For a longer one the traces of the
  copy never end.
\<close>

theorem sec_ie_copied:
  assumes "ies_ok es" and "\<forall>e \<in> set es. fst e = 0xdd \<longrightarrow> 4 \<le> length (snd e)" and "length fixed = 12"
  shows "rtw_get_sec_ie (fixed @ ies_bytes es @ post) (12 + length (ies_bytes es)) rsn wpa =
    (if \<forall>e \<in> set es. is_wpa_oui e \<or> fst e = 0x30 \<longrightarrow> length (snd e) \<le> 246
     then Some (length (last_ie (\<lambda>e. fst e = 0x30) es rsn) + length (last_ie is_wpa_oui es wpa),
            last_ie (\<lambda>e. fst e = 0x30) es rsn, last_ie is_wpa_oui es wpa)
     else None)"
  using sec_ie_loop_series [OF assms(1,2) refl assms(3) refl] by (simp add: rtw_get_sec_ie_def)

theorem sec_ie_copied_witness:
  "rtw_get_sec_ie (replicate 12 0 @ ies_bytes [(48, replicate 247 0)]) 261 [] [] = None"
  using sec_ie_copied [of "[(48, replicate 247 0)]" "replicate 12 0" "[]" "[]" "[]"]
  by (simp add: ies_ok_def)

end
