(* ===== verification/IeParse.thy ===== *)
theory IeParse
  imports Ie
begin

text \<open>
  \<open>rtw_ieee802_11_parse_elems\<close> (\<open>core/rtw_ieee80211.c\<close>): one pass over the elements of a
  management frame that records where each known one is.  The pointer and the length that
  \<open>struct rtw_ieee802_11_elems\<close> has for an element are one entry, a place and a length; the null
  pointer is \<open>None\<close>.  Debug output is left out.
\<close>

section \<open>The code\<close>

datatype elem = Ssid | Supp_rates | Fh_params | Ds_params | Cf_params | Tim | Ibss_params | Challenge
  | Erp_info | Ext_supp_rates | Wpa_ie | Rsn_ie | Wme | Wme_tspec | Wps_ie | Power_cap | Supp_channels
  | Mdie | Ftie | Timeout_int | Ht_capabilities | Ht_operation | Vendor_ht_cap

type_synonym elems = "elem \<Rightarrow> (nat \<times> nat) option"

datatype ParseRes = ParseOK | ParseUnknown | ParseFailed

definition OUI_MICROSOFT :: u32 where "OUI_MICROSOFT = 0x0050f2"
definition OUI_BROADCOM :: u32 where "OUI_BROADCOM = 0x00904c"
definition WME_OUI_TYPE :: byte where "WME_OUI_TYPE = 2"
definition WME_OUI_SUBTYPE_INFORMATION_ELEMENT :: byte where "WME_OUI_SUBTYPE_INFORMATION_ELEMENT = 0"
definition WME_OUI_SUBTYPE_PARAMETER_ELEMENT :: byte where "WME_OUI_SUBTYPE_PARAMETER_ELEMENT = 1"
definition WME_OUI_SUBTYPE_TSPEC_ELEMENT :: byte where "WME_OUI_SUBTYPE_TSPEC_ELEMENT = 2"
definition VENDOR_HT_CAPAB_OUI_TYPE :: byte where "VENDOR_HT_CAPAB_OUI_TYPE = 0x33"

definition RTW_GET_BE24 :: "byte list \<Rightarrow> nat \<Rightarrow> u32 option" where
  "RTW_GET_BE24 m p = map_option (\<lambda>s. push_bit 16 (ucast (s ! 0)) OR push_bit 8 (ucast (s ! 1)) OR ucast (s ! 2))
     (rd_slice m p 3)"

text \<open>The result is the return value, 0 or -1, and the record.\<close>

definition rtw_ieee802_11_parse_vendor_specific ::
  "byte list \<Rightarrow> nat \<Rightarrow> nat \<Rightarrow> elems \<Rightarrow> (int \<times> elems) option" where
  "rtw_ieee802_11_parse_vendor_specific m pos elen elems =
     (if elen < 4 then Some (-1, elems)
      else do {
        oui \<leftarrow> RTW_GET_BE24 m pos;
        ty \<leftarrow> rd m (pos + 3);
        if oui = OUI_MICROSOFT then
          if ty = 1 then Some (0, elems(Wpa_ie := Some (pos, elen)))
          else if ty = WME_OUI_TYPE then
            if elen < 5 then Some (-1, elems)
            else do {
              sub \<leftarrow> rd m (pos + 4);
              Some (if sub = WME_OUI_SUBTYPE_INFORMATION_ELEMENT \<or> sub = WME_OUI_SUBTYPE_PARAMETER_ELEMENT
                    then (0, elems(Wme := Some (pos, elen)))
                    else if sub = WME_OUI_SUBTYPE_TSPEC_ELEMENT then (0, elems(Wme_tspec := Some (pos, elen)))
                    else (-1, elems)) }
          else if ty = 4 then Some (0, elems(Wps_ie := Some (pos, elen)))
          else Some (-1, elems)
        else if oui = OUI_BROADCOM then
          if ty = VENDOR_HT_CAPAB_OUI_TYPE then Some (0, elems(Vendor_ht_cap := Some (pos, elen)))
          else Some (-1, elems)
        else Some (-1, elems) })"

text \<open>The cases of the switch that only record the element.\<close>

definition plain_elem :: "nat \<Rightarrow> elem option" where
  "plain_elem eid =
     (if eid = 0 then Some Ssid else if eid = 1 then Some Supp_rates else if eid = 2 then Some Fh_params
      else if eid = 3 then Some Ds_params else if eid = 4 then Some Cf_params else if eid = 5 then Some Tim
      else if eid = 6 then Some Ibss_params else if eid = 16 then Some Challenge else if eid = 42 then Some Erp_info
      else if eid = 50 then Some Ext_supp_rates else if eid = 48 then Some Rsn_ie else if eid = 33 then Some Power_cap
      else if eid = 36 then Some Supp_channels else if eid = 54 then Some Mdie else if eid = 55 then Some Ftie
      else if eid = 56 then Some Timeout_int else if eid = 45 then Some Ht_capabilities
      else if eid = 61 then Some Ht_operation else None)"

text \<open>The switch; the result also says whether \<open>unknown\<close> is counted up.\<close>

definition record_elem :: "byte list \<Rightarrow> byte \<Rightarrow> nat \<Rightarrow> nat \<Rightarrow> elems \<Rightarrow> (bool \<times> elems) option" where
  "record_elem m eid pos elen elems =
     (if eid = 221 then map_option (\<lambda>(r, es). (r \<noteq> 0, es)) (rtw_ieee802_11_parse_vendor_specific m pos elen elems)
      else case plain_elem (unat eid) of
             Some k \<Rightarrow> Some (False, elems(k := Some (pos, elen)))
           | None \<Rightarrow> Some (True, elems))"

function parse_elems_loop ::
  "byte list \<Rightarrow> nat \<Rightarrow> nat \<Rightarrow> nat \<Rightarrow> elems \<Rightarrow> (ParseRes \<times> elems) option" where
  "parse_elems_loop m pos left unknown elems =
     (if left \<ge> 2 then
        case rd m pos of None \<Rightarrow> None
        | Some eid \<Rightarrow>
            (case rd m (pos + 1) of None \<Rightarrow> None
             | Some elen \<Rightarrow>
                 if unat elen > left - 2 then Some (ParseFailed, elems)
                 else (case record_elem m eid (pos + 2) (unat elen) elems of None \<Rightarrow> None
                       | Some (u, elems1) \<Rightarrow>
                           parse_elems_loop m (pos + 2 + unat elen) (left - 2 - unat elen)
                             (if u then unknown + 1 else unknown) elems1))
      else Some (if left \<noteq> 0 then ParseFailed else if unknown \<noteq> 0 then ParseUnknown else ParseOK, elems))"
  by pat_completeness auto

termination
  by (relation "measure (\<lambda>(m, pos, left, unknown, elems). left)") auto

declare parse_elems_loop.simps [simp del]

definition rtw_ieee802_11_parse_elems :: "byte list \<Rightarrow> nat \<Rightarrow> (ParseRes \<times> elems) option" where
  "rtw_ieee802_11_parse_elems start len = parse_elems_loop start 0 len 0 (\<lambda>_. None)"

section \<open>What it is for\<close>

text \<open>The entry an element belongs to.\<close>

definition vendor_elem :: "byte list \<Rightarrow> elem option" where
  "vendor_elem d =
     (if length d < 4 then None
      else if take 3 d = [0x00, 0x50, 0xf2] then
        if d ! 3 = 1 then Some Wpa_ie
        else if d ! 3 = 2 then
          (if length d < 5 then None else if d ! 4 = 0 \<or> d ! 4 = 1 then Some Wme
           else if d ! 4 = 2 then Some Wme_tspec else None)
        else if d ! 3 = 4 then Some Wps_ie else None
      else if take 3 d = [0x00, 0x90, 0x4c] \<and> d ! 3 = 0x33 then Some Vendor_ht_cap
      else None)"

definition elem_of :: "ie \<Rightarrow> elem option" where
  "elem_of e = (if fst e = 221 then vendor_elem (snd e) else plain_elem (unat (fst e)))"

definition note_elem :: "elem option \<Rightarrow> nat \<Rightarrow> nat \<Rightarrow> elems \<Rightarrow> elems" where
  "note_elem k pos n elems = (case k of None \<Rightarrow> elems | Some k \<Rightarrow> elems(k := Some (pos, n)))"

text \<open>The places of the elements of a series that starts at \<open>pos\<close>; of several the last counts.\<close>

fun places :: "nat \<Rightarrow> ie list \<Rightarrow> elems \<Rightarrow> elems" where
  "places pos [] elems = elems"
| "places pos (e # es) elems =
     places (pos + 2 + length (snd e)) es (note_elem (elem_of e) (pos + 2) (length (snd e)) elems)"

lemma be24_eq:
  "(push_bit 16 (ucast (a :: byte)) OR push_bit 8 (ucast (b :: byte)) OR ucast (c :: byte) :: u32) =
   push_bit 16 (ucast x) OR push_bit 8 (ucast y) OR ucast z \<longleftrightarrow> a = x \<and> b = y \<and> c = z"
proof
  define f where "f a b c = (push_bit 16 (ucast (a :: byte)) OR push_bit 8 (ucast (b :: byte)) OR ucast (c :: byte) :: u32)" for a b c
  have parts: "ucast (drop_bit 16 (f a b c)) = a" "ucast (drop_bit 8 (f a b c)) = b" "ucast (f a b c) = c" for a b c
    by (rule bit_word_eqI; auto simp: f_def bit_simps dest: bit_byte_ge)+
  assume "push_bit 16 (ucast a) OR push_bit 8 (ucast b) OR ucast c =
    (push_bit 16 (ucast x) OR push_bit 8 (ucast y) OR ucast z :: u32)"
  then have "f a b c = f x y z" by (simp add: f_def)
  then show "a = x \<and> b = y \<and> c = z" using parts by metis
qed simp

lemma oui_words:
  "OUI_MICROSOFT = push_bit 16 (ucast (0 :: byte)) OR push_bit 8 (ucast (0x50 :: byte)) OR ucast (0xf2 :: byte)"
  "OUI_BROADCOM = push_bit 16 (ucast (0 :: byte)) OR push_bit 8 (ucast (0x90 :: byte)) OR ucast (0x4c :: byte)"
  by (simp_all add: OUI_MICROSOFT_def OUI_BROADCOM_def)

lemma take_3: "3 \<le> length d \<Longrightarrow> take 3 d = [d ! 0, d ! 1, d ! 2]"
  by (rule nth_equalityI) (auto simp: less_Suc_eq numeral_3_eq_3 numeral_2_eq_2)

lemma vendor_specific_here:
  assumes "pos + length d \<le> length m" and "d = take elen (drop pos m)" and "elen = length d"
  shows "rtw_ieee802_11_parse_vendor_specific m pos elen elems =
    Some (if vendor_elem d = None then -1 else 0, note_elem (vendor_elem d) pos elen elems)"
proof (cases "length d < 4")
  case True
  then show ?thesis using assms(3) by (simp add: rtw_ieee802_11_parse_vendor_specific_def vendor_elem_def note_elem_def)
next
  case False
  have nth: "m ! (pos + i) = d ! i" if "i < length d" for i
  proof -
    have "take elen (drop pos m) ! i = m ! (pos + i)" using that assms(1,3) by simp
    then show ?thesis using assms(2) by simp
  qed
  have r: "rd m (pos + i) = Some (d ! i)" if "i < length d" for i
    using that nth [OF that] assms(1) by (simp add: rd_def)
  have s: "rd_slice m pos 3 = Some [d ! 0, d ! 1, d ! 2]"
  proof -
    have "take 3 (take elen (drop pos m)) = take 3 (drop pos m)" using False assms(3) by simp
    then have "take 3 (drop pos m) = take 3 d" using assms(2) by metis
    also have "\<dots> = [d ! 0, d ! 1, d ! 2]" using take_3 [of d] False by linarith
    finally have "take 3 (drop pos m) = [d ! 0, d ! 1, d ! 2]" .
    then show ?thesis using False assms(1) by (simp add: rd_slice_def)
  qed
  have t: "take 3 d = [x, y, z] \<longleftrightarrow> d ! 0 = x \<and> d ! 1 = y \<and> d ! 2 = z" for x y z
    using take_3 [of d] False by auto
  obtain oui where be: "RTW_GET_BE24 m pos = Some oui"
    and o: "oui = OUI_MICROSOFT \<longleftrightarrow> take 3 d = [0x00, 0x50, 0xf2]" "oui = OUI_BROADCOM \<longleftrightarrow> take 3 d = [0x00, 0x90, 0x4c]"
  proof
    show "RTW_GET_BE24 m pos = Some (push_bit 16 (ucast (d ! 0)) OR push_bit 8 (ucast (d ! 1)) OR ucast (d ! 2))"
      by (simp add: RTW_GET_BE24_def s)
  qed (unfold oui_words be24_eq t, blast+)
  have distinct: "OUI_MICROSOFT \<noteq> OUI_BROADCOM" by (simp add: OUI_MICROSOFT_def OUI_BROADCOM_def)
  have r3: "rd m (pos + 3) = Some (d ! 3)" using r [of 3] False by simp
  note v = rtw_ieee802_11_parse_vendor_specific_def vendor_elem_def note_elem_def be r3
    WME_OUI_TYPE_def WME_OUI_SUBTYPE_INFORMATION_ELEMENT_def WME_OUI_SUBTYPE_PARAMETER_ELEMENT_def
    WME_OUI_SUBTYPE_TSPEC_ELEMENT_def VENDOR_HT_CAPAB_OUI_TYPE_def
  consider (ms) "oui = OUI_MICROSOFT" | (bc) "oui \<noteq> OUI_MICROSOFT" "oui = OUI_BROADCOM"
    | (other) "oui \<noteq> OUI_MICROSOFT" "oui \<noteq> OUI_BROADCOM" by blast
  then show ?thesis
  proof cases
    case ms
    have tk: "take 3 d = [0x00, 0x50, 0xf2]" using o(1) ms by blast
    show ?thesis
    proof (cases "elen < 5")
      case True
      then show ?thesis using False assms(3) ms tk by (simp add: v)
    next
      case F: False
      then have r4: "rd m (pos + 4) = Some (d ! 4)" using r [of 4] assms(3) by simp
      show ?thesis using False F assms(3) ms tk r4 by (simp add: v)
    qed
  next
    case bc
    have tk: "take 3 d = [0x00, 0x90, 0x4c]" using o(2) bc by blast
    show ?thesis using False assms(3) bc tk distinct by (simp add: v)
  next
    case other
    have tk: "take 3 d \<noteq> [0x00, 0x50, 0xf2]" "take 3 d \<noteq> [0x00, 0x90, 0x4c]" using o other by blast+
    show ?thesis using False assms(3) other tk by (simp add: v)
  qed
qed

lemma record_elem_here:
  assumes "pos + length d \<le> length m" and "d = take (length d) (drop pos m)"
  shows "record_elem m eid pos (length d) elems =
    Some (elem_of (eid, d) = None, note_elem (elem_of (eid, d)) pos (length d) elems)"
  using vendor_specific_here [OF assms(1,2) refl, of elems]
  by (auto simp: record_elem_def elem_of_def note_elem_def split: option.split)

text \<open>One turn of the loop, on an element that is all there.\<close>

lemma parse_elems_step:
  assumes "length d < 256" and "take (length d + 2) (drop pos m) = ie_bytes (eid, d)"
    and "pos + length d + 2 \<le> length m" and "length d + 2 \<le> left"
  shows "parse_elems_loop m pos left unknown elems =
    parse_elems_loop m (pos + 2 + length d) (left - 2 - length d)
      (if elem_of (eid, d) = None then unknown + 1 else unknown) (note_elem (elem_of (eid, d)) (pos + 2) (length d) elems)"
proof -
  have n: "m ! (pos + i) = ie_bytes (eid, d) ! i" if "i < length d + 2" for i
    using that assms(3) by (simp add: assms(2) [symmetric])
  have r: "rd m pos = Some eid" "rd m (pos + 1) = Some (of_nat (length d))"
    using n [of 0] n [of 1] assms(3) by (simp_all add: rd_def ie_bytes_def)
  have d: "d = take (length d) (drop (pos + 2) m)"
  proof -
    have "drop 2 (take (length d + 2) (drop pos m)) = d" unfolding assms(2) by (simp add: ie_bytes_def)
    then show ?thesis by (simp add: drop_take add.commute)
  qed
  have e: "record_elem m eid (pos + 2) (length d) elems =
      Some (elem_of (eid, d) = None, note_elem (elem_of (eid, d)) (pos + 2) (length d) elems)"
    using assms(3) d by (intro record_elem_here) auto
  have l: "2 \<le> left" "\<not> left - 2 < length d" using assms(4) by simp_all
  show ?thesis using r e assms(1) l by (subst parse_elems_loop.simps) (simp add: unat_of_len)
qed

text \<open>On a series of elements.\<close>

lemma parse_elems_series:
  assumes "ies_ok es" and "take (length (ies_bytes es)) (drop pos m) = ies_bytes es"
    and "pos + length (ies_bytes es) \<le> length m"
  shows "parse_elems_loop m pos (length (ies_bytes es)) unknown elems =
    Some (if unknown \<noteq> 0 \<or> (\<exists>e \<in> set es. elem_of e = None) then ParseUnknown else ParseOK, places pos es elems)"
  using assms
proof (induction es arbitrary: pos unknown elems)
  case Nil
  then show ?case by (subst parse_elems_loop.simps) simp
next
  case (Cons e es)
  obtain eid d where e: "e = (eid, d)" by (cases e)
  have d: "length d < 256" using Cons.prems(1) e by simp
  have t1: "take (length d + 2) (drop pos m) = ie_bytes (eid, d)"
  proof -
    have "take (length d + 2) (take (length (ies_bytes (e # es))) (drop pos m)) = ie_bytes (eid, d)"
      unfolding Cons.prems(2) by (simp add: e)
    then show ?thesis by (simp add: e min_def split: if_splits)
  qed
  have t2: "take (length (ies_bytes es)) (drop (pos + 2 + length d) m) = ies_bytes es"
  proof -
    have "drop (length d + 2) (take (length (ies_bytes (e # es))) (drop pos m)) = ies_bytes es"
      unfolding Cons.prems(2) by (simp add: e)
    then show ?thesis by (simp add: e drop_take ac_simps)
  qed
  have s: "parse_elems_loop m pos (length (ies_bytes (e # es))) unknown elems =
      parse_elems_loop m (pos + 2 + length d) (length (ies_bytes es))
        (if elem_of (eid, d) = None then unknown + 1 else unknown) (note_elem (elem_of (eid, d)) (pos + 2) (length d) elems)"
    using parse_elems_step [OF d t1, of "length (ies_bytes (e # es))" unknown elems] Cons.prems(3) by (simp add: e)
  show ?case unfolding s
    using Cons.IH [OF _ t2] Cons.prems(1,3) by (simp add: e)
qed

text \<open>On any bytes: what is recorded lies inside, and only a series of elements is not refused.\<close>

definition elems_inside :: "byte list \<Rightarrow> nat \<Rightarrow> elems \<Rightarrow> bool" where
  "elems_inside m n elems \<longleftrightarrow>
     (\<forall>k p l. elems k = Some (p, l) \<longrightarrow> 2 \<le> p \<and> p + l \<le> n \<and> l < 256 \<and> m ! (p - 1) = of_nat l)"

lemma elems_inside_note:
  assumes "elems_inside m n elems" and "2 \<le> p" "p + l \<le> n'" "l < 256" "m ! (p - 1) = of_nat l" and "n \<le> n'"
  shows "elems_inside m n' (note_elem k p l elems)"
proof -
  have "elems_inside m n' elems" using assms(1,6) by (fastforce simp: elems_inside_def)
  then show ?thesis using assms(2-5) by (auto simp: elems_inside_def note_elem_def split: option.split)
qed

lemma parse_elems_any:
  assumes "pos + left \<le> length m" and "elems_inside m pos elems"
  shows "\<exists>res elems'. parse_elems_loop m pos left unknown elems = Some (res, elems') \<and> elems_inside m (pos + left) elems' \<and>
    (res \<noteq> ParseFailed \<longrightarrow> (\<exists>es. ies_ok es \<and> take left (drop pos m) = ies_bytes es))"
  using assms
proof (induction left arbitrary: pos unknown elems rule: less_induct)
  case (less left)
  have grow: "elems_inside m (pos + left) elems" using less.prems(2) by (fastforce simp: elems_inside_def)
  show ?case
  proof (cases "left \<ge> 2")
    case False
    have "\<exists>es. ies_ok es \<and> [] = ies_bytes es" by (rule exI [of _ "[]"]) simp
    then show ?thesis using False grow by (subst parse_elems_loop.simps) auto
  next
    case True
    define eid where "eid = m ! pos"
    define n where "n = unat (m ! (pos + 1))"
    have n: "n < 256" using unsigned_less [of "m ! (pos + 1)"] by (simp add: n_def)
    have r: "rd m pos = Some eid" "rd m (pos + 1) = Some (m ! (pos + 1))"
      using True less.prems(1) by (simp_all add: rd_def eid_def)
    show ?thesis
    proof (cases "n > left - 2")
      case True
      then show ?thesis using \<open>2 \<le> left\<close> r grow by (subst parse_elems_loop.simps) (auto simp: n_def)
    next
      case False
      define d where "d = take n (drop (pos + 2) m)"
      have ld: "length d = n" using False \<open>2 \<le> left\<close> less.prems(1) by (simp add: d_def)
      have b: "take (length d + 2) (drop pos m) = ie_bytes (eid, d)"
      proof -
        have "drop pos m = eid # m ! (pos + 1) # drop (pos + 2) m"
          using r by (simp add: rd_def eid_def Cons_nth_drop_Suc split: if_splits)
        then show ?thesis by (simp add: ie_bytes_def ld) (simp add: d_def n_def)
      qed
      have step: "parse_elems_loop m pos left unknown elems =
          parse_elems_loop m (pos + 2 + n) (left - 2 - n)
            (if elem_of (eid, d) = None then unknown + 1 else unknown) (note_elem (elem_of (eid, d)) (pos + 2) n elems)"
        using parse_elems_step [OF _ b, of left unknown elems] n False \<open>2 \<le> left\<close> less.prems(1) by (simp add: ld)
      have ins: "elems_inside m (pos + 2 + n) (note_elem (elem_of (eid, d)) (pos + 2) n elems)"
      proof (rule elems_inside_note [OF less.prems(2)])
        show "m ! (pos + 2 - 1) = of_nat n" by (simp add: n_def)
      qed (use n in linarith)+
      obtain res elems' where ih: "parse_elems_loop m (pos + 2 + n) (left - 2 - n)
            (if elem_of (eid, d) = None then unknown + 1 else unknown) (note_elem (elem_of (eid, d)) (pos + 2) n elems) =
            Some (res, elems')"
          "elems_inside m (pos + 2 + n + (left - 2 - n)) elems'"
          "res \<noteq> ParseFailed \<longrightarrow> (\<exists>es. ies_ok es \<and> take (left - 2 - n) (drop (pos + 2 + n) m) = ies_bytes es)"
        using less.IH [OF _ _ ins, of "left - 2 - n"] False \<open>2 \<le> left\<close> less.prems(1) by fastforce
      have l: "left = (length d + 2) + (left - 2 - n)" using False \<open>2 \<le> left\<close> ld by simp
      have "\<exists>es. ies_ok es \<and> take left (drop pos m) = ies_bytes es" if nf: "res \<noteq> ParseFailed"
      proof -
        obtain es where es: "ies_ok es" "take (left - 2 - n) (drop (pos + 2 + n) m) = ies_bytes es" using ih(3) nf by blast
        have "take left (drop pos m) = take (length d + 2) (drop pos m) @ take (left - 2 - n) (drop (length d + 2) (drop pos m))"
          by (subst l) (rule take_add)
        also have "\<dots> = ies_bytes ((eid, d) # es)" using b es(2) by (simp add: ld ac_simps)
        finally have "take left (drop pos m) = ies_bytes ((eid, d) # es)" .
        moreover have "ies_ok ((eid, d) # es)" using es(1) n ld by simp
        ultimately show ?thesis by blast
      qed
      moreover have "pos + 2 + n + (left - 2 - n) = pos + left" using False \<open>2 \<le> left\<close> by simp
      then have "elems_inside m (pos + left) elems'" using ih(2) by metis
      ultimately show ?thesis using ih(1) step by metis
    qed
  qed
qed

text \<open>
  C29: \<open>rtw_ieee802_11_parse_elems\<close> is right on every input.  Given a memory of at least \<open>len\<close> bytes it
  returns without reading outside them; every element it records lies inside the \<open>len\<close> bytes
  and its length is the one in front of it.  If the bytes are a series of elements, the
  records are the places of the last element of each kind, and the result says whether an
  element was unknown; if they are none, the result is \<open>ParseFailed\<close>.
\<close>

theorem parse_elems_correct:
  assumes "len \<le> length m"
  shows "\<exists>res elems. rtw_ieee802_11_parse_elems m len = Some (res, elems) \<and>
    (\<forall>k p n. elems k = Some (p, n) \<longrightarrow> 2 \<le> p \<and> p + n \<le> len \<and> n < 256 \<and> m ! (p - 1) = of_nat n) \<and>
    (\<forall>es. ies_ok es \<and> take len m = ies_bytes es \<longrightarrow> elems = places 0 es (\<lambda>_. None) \<and>
       res = (if \<exists>e \<in> set es. elem_of e = None then ParseUnknown else ParseOK)) \<and>
    ((\<nexists>es. ies_ok es \<and> take len m = ies_bytes es) \<longrightarrow> res = ParseFailed)"
proof -
  obtain res elems where any: "rtw_ieee802_11_parse_elems m len = Some (res, elems)" "elems_inside m len elems"
      "res \<noteq> ParseFailed \<longrightarrow> (\<exists>es. ies_ok es \<and> take len m = ies_bytes es)"
    using parse_elems_any [of 0 len m "\<lambda>_. None" 0] assms
    by (auto simp: rtw_ieee802_11_parse_elems_def elems_inside_def)
  have "elems = places 0 es (\<lambda>_. None) \<and> res = (if \<exists>e \<in> set es. elem_of e = None then ParseUnknown else ParseOK)"
    if "ies_ok es" "take len m = ies_bytes es" for es
  proof -
    have "length (ies_bytes es) = len" using assms that(2) by (metis length_take min.absorb2)
    then show ?thesis
      using parse_elems_series [OF that(1), of 0 m 0 "\<lambda>_. None"] that(2) any(1) assms
      by (simp add: rtw_ieee802_11_parse_elems_def)
  qed
  then show ?thesis using any by (auto simp: elems_inside_def)
qed

theorem parse_elems_correct_witness:
  "\<exists>res elems. rtw_ieee802_11_parse_elems (ies_bytes sample_ies) 27 = Some (res, elems) \<and> res = ParseUnknown \<and>
     elems Ds_params = Some (20, 1) \<and> elems Wps_ie = Some (23, 4) \<and> elems Tim = None"
proof -
  have "ies_ok sample_ies \<and> take 27 (ies_bytes sample_ies) = ies_bytes sample_ies" by (simp add: sample_ies_facts)
  moreover have "27 \<le> length (ies_bytes sample_ies)" by (simp add: sample_ies_facts)
  ultimately obtain res elems where r: "rtw_ieee802_11_parse_elems (ies_bytes sample_ies) 27 = Some (res, elems)"
      "elems = places 0 sample_ies (\<lambda>_. None)"
      "res = (if \<exists>e \<in> set sample_ies. elem_of e = None then ParseUnknown else ParseOK)"
    using parse_elems_correct [of 27 "ies_bytes sample_ies"] by blast
  have "\<exists>e \<in> set sample_ies. elem_of e = None"
    by (rule bexI [of _ "(221, [0x50, 0x6f, 0x9a, 9, 2, 2, 0, 0x25])"])
      (simp_all add: sample_ies_def elem_of_def vendor_elem_def)
  moreover have "elems Ds_params = Some (20, 1) \<and> elems Wps_ie = Some (23, 4) \<and> elems Tim = None"
    unfolding r(2) by (simp add: sample_ies_def elem_of_def plain_elem_def vendor_elem_def note_elem_def)
  ultimately show ?thesis using r by simp
qed

end
