(* ===== verification/IeAttr.thy ===== *)
theory IeAttr
  imports Ie
begin

text \<open>
  WPS, P2P and Wi-Fi Display elements and the attributes inside them
  (\<open>core/rtw_ieee80211.c\<close>).  The length of an attribute is computed in 16 bits, so a claimed
  length just below 65536 makes the step of the search wrap to zero: the searches of WPS and
  P2P attributes are partial functions, \<open>None\<close> says that they do not return, \<open>Some None\<close> that they
  access memory outside the list, and \<open>Some (Some None)\<close> is the null pointer.
\<close>

section \<open>Finding an element\<close>

definition wps_oui :: "byte list" where "wps_oui = [0x00, 0x50, 0xf2, 0x04]"
definition p2p_oui :: "byte list" where "p2p_oui = [0x50, 0x6f, 0x9a, 0x09]"
definition wfd_oui :: "byte list" where "wfd_oui = [0x50, 0x6f, 0x9a, 0x0a]"

text \<open>The result is whether the element is one and \<open>*wps_ielen\<close>, which is unchanged otherwise.\<close>

definition rtw_is_wps_ie :: "byte list option \<Rightarrow> nat \<Rightarrow> (bool \<times> nat) option" where
  "rtw_is_wps_ie ie_ptr wps_ielen =
     (case ie_ptr of None \<Rightarrow> Some (False, wps_ielen)
      | Some m \<Rightarrow> do {
          b \<leftarrow> ie_match 0xdd (Some wps_oui) m 0;
          if b then map_option (\<lambda>l. (True, unat l + 2)) (rd m 1) else Some (False, wps_ielen) })"

definition rtw_get_wps_ie :: "byte list option \<Rightarrow> nat \<Rightarrow> bool \<Rightarrow> (nat \<times> nat \<times> byte list) option option" where
  "rtw_get_wps_ie in_ie in_len copy =
     (case in_ie of None \<Rightarrow> Some None
      | Some m \<Rightarrow> do {
          r \<leftarrow> ie_walk (ie_match 0xdd (Some wps_oui)) m in_len 0;
          (case r of None \<Rightarrow> Some None
           | Some cnt \<Rightarrow> do { (n, bs) \<leftarrow> ie_at copy m cnt; Some (Some (cnt, n, bs)) }) })"

text \<open>
  The comparison of \<open>cnt\<close> with \<open>in_len\<close> is unsigned, so a negative \<open>in_len\<close> enters the loop once.
\<close>

function p2p_ie_loop :: "byte list \<Rightarrow> int \<Rightarrow> nat \<Rightarrow> nat option option" where
  "p2p_ie_loop m in_len cnt =
     (if int cnt < (if in_len < 0 then in_len + 2 ^ 32 else in_len) then
        case rd m cnt of None \<Rightarrow> None
        | Some eid \<Rightarrow>
            if in_len < 0 \<or> cnt > MAX_IE_SZ then Some None
            else
              (case (if eid = 0xdd then rtw_memcmp m (cnt + 2) p2p_oui else Some False) of
                 None \<Rightarrow> None
               | Some True \<Rightarrow> Some (Some cnt)
               | Some False \<Rightarrow>
                   (case rd m (cnt + 1) of None \<Rightarrow> None
                    | Some l \<Rightarrow> p2p_ie_loop m in_len (cnt + (unat l + 2))))
      else Some None)"
  by pat_completeness auto

termination
  by (relation "measure (\<lambda>(m, in_len, cnt). MAX_IE_SZ + 1 - cnt)") auto

declare p2p_ie_loop.simps [simp del]

definition rtw_get_p2p_ie :: "byte list \<Rightarrow> int \<Rightarrow> bool \<Rightarrow> (nat \<times> nat \<times> byte list) option option" where
  "rtw_get_p2p_ie m in_len copy = do {
     r \<leftarrow> p2p_ie_loop m in_len 0;
     (case r of None \<Rightarrow> Some None
      | Some cnt \<Rightarrow> do { (n, bs) \<leftarrow> ie_at copy m cnt; Some (Some (cnt, n, bs)) }) }"

text \<open>The result is \<open>match\<close>, the place behind the element or 0, and the element.\<close>

definition rtw_get_wfd_ie :: "byte list \<Rightarrow> int \<Rightarrow> bool \<Rightarrow> (nat \<times> (nat \<times> byte list) option) option" where
  "rtw_get_wfd_ie m in_len copy =
     (if in_len < 0 then Some (0, None)
      else do {
        r \<leftarrow> ie_walk (ie_match 0xdd (Some wfd_oui)) m (nat in_len) 0;
        (case r of None \<Rightarrow> Some (0, None)
         | Some cnt \<Rightarrow> do { (n, bs) \<leftarrow> ie_at copy m cnt; Some (cnt + n, Some (n, bs)) }) })"

text \<open>\<open>frame_type\<close> 1 and 3 are beacons and probe responses, whose elements start at 12.\<close>

definition scan_queue_offset :: "nat \<Rightarrow> nat option" where
  "scan_queue_offset frame_type =
     (if frame_type = 1 \<or> frame_type = 3 then Some 12 else if frame_type = 2 then Some 0 else None)"

definition place_moved :: "nat \<Rightarrow> (nat \<times> nat \<times> byte list) option \<Rightarrow> (nat \<times> nat \<times> byte list) option" where
  "place_moved off r = map_option (\<lambda>(cnt, x). (off + cnt, x)) r"

text \<open>\<open>in_len - 12\<close> is unsigned; a shorter \<open>in_len\<close> makes it huge.\<close>

definition rtw_get_wps_ie_from_scan_queue ::
  "byte list \<Rightarrow> nat \<Rightarrow> bool \<Rightarrow> nat \<Rightarrow> (nat \<times> nat \<times> byte list) option option" where
  "rtw_get_wps_ie_from_scan_queue m in_len copy frame_type =
     (case scan_queue_offset frame_type of None \<Rightarrow> Some None
      | Some off \<Rightarrow> map_option (place_moved off)
          (rtw_get_wps_ie (Some (drop off m)) (if in_len < off then in_len + 2 ^ 32 - off else in_len - off) copy))"

definition rtw_get_p2p_ie_from_scan_queue ::
  "byte list \<Rightarrow> int \<Rightarrow> bool \<Rightarrow> nat \<Rightarrow> (nat \<times> nat \<times> byte list) option option" where
  "rtw_get_p2p_ie_from_scan_queue m in_len copy frame_type =
     (case scan_queue_offset frame_type of None \<Rightarrow> Some None
      | Some off \<Rightarrow> map_option (place_moved off) (rtw_get_p2p_ie (drop off m) (in_len - int off) copy))"

definition rtw_get_wfd_ie_from_scan_queue ::
  "byte list \<Rightarrow> int \<Rightarrow> bool \<Rightarrow> nat \<Rightarrow> (nat \<times> (nat \<times> byte list) option) option" where
  "rtw_get_wfd_ie_from_scan_queue m in_len copy frame_type =
     (case scan_queue_offset frame_type of None \<Rightarrow> Some (0, None)
      | Some off \<Rightarrow> rtw_get_wfd_ie (drop off m) (in_len - int off) copy)"

section \<open>Attributes\<close>

definition get_be16 :: "byte list \<Rightarrow> nat \<Rightarrow> u16 option" where
  "get_be16 m p = map_option (\<lambda>s. push_bit 8 (ucast (s ! 0)) OR ucast (s ! 1)) (rd_slice m p 2)"

text \<open>Identifier and \<open>attr_len\<close> of the attribute at a place; \<open>attr_len\<close> has 16 bits.\<close>

definition wps_attr_hdr :: "byte list \<Rightarrow> nat \<Rightarrow> (u16 \<times> u16) option" where
  "wps_attr_hdr m p = do {
     attr_id \<leftarrow> get_be16 m p;
     attr_data_len \<leftarrow> get_be16 m (p + 2);
     Some (attr_id, attr_data_len + 4) }"

definition p2p_attr_hdr :: "byte list \<Rightarrow> nat \<Rightarrow> (u16 \<times> u16) option" where
  "p2p_attr_hdr m p = do {
     attr_id \<leftarrow> rd m p;
     attr_data_len \<leftarrow> get_le16 m (p + 1);
     Some (ucast attr_id, attr_data_len + 3) }"

partial_function (option) attr_walk ::
  "(nat \<Rightarrow> (u16 \<times> u16) option) \<Rightarrow> nat \<Rightarrow> u16 \<Rightarrow> nat \<Rightarrow> (nat \<times> u16) option option option" where
  "attr_walk hdr ielen target p =
     (if p < ielen then
        (case hdr p of None \<Rightarrow> Some None
         | Some h \<Rightarrow>
             if fst h = target then Some (Some (Some (p, snd h)))
             else attr_walk hdr ielen target (p + unat (snd h)))
      else Some (Some None))"

text \<open>The result is the place, \<open>*len_attr\<close> and the bytes copied to \<open>buf_attr\<close>.\<close>

definition found_attr ::
  "bool \<Rightarrow> byte list \<Rightarrow> (nat \<times> u16) option \<Rightarrow> (nat \<times> nat \<times> byte list) option option" where
  "found_attr copy m r =
     (case r of None \<Rightarrow> Some None
      | Some (p, n) \<Rightarrow> do {
          bs \<leftarrow> (if copy then rd_slice m p (unat n) else Some []);
          Some (Some (p, unat n, bs)) })"

definition rtw_get_wps_attr ::
  "byte list \<Rightarrow> nat \<Rightarrow> u16 \<Rightarrow> bool \<Rightarrow> (nat \<times> nat \<times> byte list) option option option" where
  "rtw_get_wps_attr m wps_ielen target_attr_id copy =
     (case ie_match 0xdd (Some wps_oui) m 0 of
        None \<Rightarrow> Some None
      | Some False \<Rightarrow> Some (Some None)
      | Some True \<Rightarrow>
          map_option (\<lambda>r. r \<bind> found_attr copy m) (attr_walk (wps_attr_hdr m) wps_ielen target_attr_id 6))"

definition rtw_get_p2p_attr ::
  "byte list option \<Rightarrow> nat \<Rightarrow> byte \<Rightarrow> bool \<Rightarrow> (nat \<times> nat \<times> byte list) option option option" where
  "rtw_get_p2p_attr p2p_ie p2p_ielen target_attr_id copy =
     (case p2p_ie of None \<Rightarrow> Some (Some None)
      | Some m \<Rightarrow>
          (case ie_match 0xdd (Some p2p_oui) m 0 of
             None \<Rightarrow> Some None
           | Some False \<Rightarrow> Some (Some None)
           | Some True \<Rightarrow>
               map_option (\<lambda>r. r \<bind> found_attr copy m)
                 (attr_walk (p2p_attr_hdr m) p2p_ielen (ucast target_attr_id) 6)))"

text \<open>
  The contents: \<open>hdr\<close> is the length of an attribute's header, and an attribute of length 0 is not
  taken for one.  \<open>attr_len - hdr\<close> is unsigned.
\<close>

definition attr_content ::
  "nat \<Rightarrow> bool \<Rightarrow> byte list \<Rightarrow> (nat \<times> nat \<times> byte list) option \<Rightarrow> (nat \<times> nat \<times> byte list) option option" where
  "attr_content hdr copy m r =
     (case r of None \<Rightarrow> Some None
      | Some (p, n, _) \<Rightarrow>
          if n = 0 then Some None
          else let k = (if n < hdr then n + 2 ^ 32 - hdr else n - hdr) in do {
            bs \<leftarrow> (if copy then rd_slice m (p + hdr) k else Some []);
            Some (Some (p + hdr, k, bs)) })"

definition rtw_get_wps_attr_content ::
  "byte list \<Rightarrow> nat \<Rightarrow> u16 \<Rightarrow> bool \<Rightarrow> (nat \<times> nat \<times> byte list) option option option" where
  "rtw_get_wps_attr_content m wps_ielen target_attr_id copy =
     map_option (\<lambda>r. r \<bind> attr_content 4 copy m) (rtw_get_wps_attr m wps_ielen target_attr_id False)"

definition rtw_get_p2p_attr_content ::
  "byte list option \<Rightarrow> nat \<Rightarrow> byte \<Rightarrow> bool \<Rightarrow> (nat \<times> nat \<times> byte list) option option option" where
  "rtw_get_p2p_attr_content p2p_ie p2p_ielen target_attr_id copy =
     map_option (\<lambda>r. r \<bind> attr_content 3 copy (case p2p_ie of None \<Rightarrow> [] | Some m \<Rightarrow> m))
       (rtw_get_p2p_attr p2p_ie p2p_ielen target_attr_id False)"

text \<open>The buffer after writing at \<open>p\<close>, and \<open>a_len\<close>; \<open>None\<close> for \<open>pdata_attr\<close> is \<open>NULL\<close>.\<close>

definition rtw_set_p2p_attr_content ::
  "byte list \<Rightarrow> nat \<Rightarrow> byte \<Rightarrow> u16 \<Rightarrow> byte list option \<Rightarrow> (byte list \<times> nat) option" where
  "rtw_set_p2p_attr_content m p attr_id attr_len pdata_attr = do {
     m1 \<leftarrow> wr_slice m p [attr_id];
     m2 \<leftarrow> wr_slice m1 (p + 1) (le16_bytes attr_len);
     m3 \<leftarrow> (case pdata_attr of None \<Rightarrow> Some m2
           | Some d \<Rightarrow> do { bs \<leftarrow> rd_slice d 0 (unat attr_len); wr_slice m2 (p + 3) bs });
     Some (m3, unat attr_len + 3) }"

section \<open>Removing P2P attributes\<close>

text \<open>
  The body of the loop of \<open>rtw_p2p_attr_remove\<close>: the \<open>n\<close> bytes at \<open>p\<close> are taken out, the bytes
  behind them move up, the room that is left is cleared, and the length byte of the element
  is lowered.  \<open>remain_len\<close> is unsigned.
\<close>

definition take_out_attr :: "byte list \<Rightarrow> nat \<Rightarrow> nat \<Rightarrow> nat \<Rightarrow> byte list option" where
  "take_out_attr m ielen p n =
     (if ielen < p + n then None
      else let remain_len = ielen - (p + n) in do {
        m1 \<leftarrow> wr_slice m p (replicate n 0);
        bs \<leftarrow> rd_slice m1 (p + n) remain_len;
        m2 \<leftarrow> wr_slice m1 p bs;
        m3 \<leftarrow> wr_slice m2 (p + remain_len) (replicate n 0);
        l \<leftarrow> rd m3 1;
        wr_slice m3 1 [l - of_nat n] })"

partial_function (option) rtw_p2p_attr_remove ::
  "byte list \<Rightarrow> nat \<Rightarrow> byte \<Rightarrow> (byte list \<times> nat) option option" where
  "rtw_p2p_attr_remove m ielen attr_id =
     (case rtw_get_p2p_attr (Some m) ielen attr_id False of
        None \<Rightarrow> None
      | Some r \<Rightarrow>
          (case r of None \<Rightarrow> Some None
           | Some q \<Rightarrow>
               (case q of None \<Rightarrow> Some (Some (m, ielen))
                | Some x \<Rightarrow>
                    if fst (snd x) = 0 then Some (Some (m, ielen))
                    else (case take_out_attr m ielen (fst x) (fst (snd x)) of
                            None \<Rightarrow> Some None
                          | Some m1 \<Rightarrow> rtw_p2p_attr_remove m1 (ielen - fst (snd x)) attr_id))))"

text \<open>
  \<open>rtw_WLAN_BSSID_EX_remove_p2p_attr\<close> on \<open>IEs\<close> and \<open>IELength\<close> of a BSS, whose elements start at 12.
\<close>

definition close_gap :: "byte list \<Rightarrow> nat \<Rightarrow> nat \<Rightarrow> nat \<Rightarrow> nat \<Rightarrow> (byte list \<times> nat) option" where
  "close_gap IEs IELength p n n1 =
     (if n1 = n then Some (IEs, IELength)
      else if IELength < p + n then None
      else do {
        bs \<leftarrow> rd_slice IEs (p + n) (IELength - (p + n));
        m1 \<leftarrow> wr_slice IEs (p + n1) bs;
        m2 \<leftarrow> wr_slice m1 (p + n1 + (IELength - (p + n))) (replicate (n - n1) 0);
        Some (m2, IELength - (n - n1)) })"

definition rtw_WLAN_BSSID_EX_remove_p2p_attr ::
  "byte list \<Rightarrow> nat \<Rightarrow> byte \<Rightarrow> (byte list \<times> nat) option option" where
  "rtw_WLAN_BSSID_EX_remove_p2p_attr IEs IELength attr_id =
     (case rtw_get_p2p_ie (drop 12 IEs) (int IELength - 12) False of
        None \<Rightarrow> Some None
      | Some None \<Rightarrow> Some (Some (IEs, IELength))
      | Some (Some (cnt, n, _)) \<Rightarrow>
          map_option (\<lambda>r. r \<bind> (\<lambda>(m, n1). close_gap (take (12 + cnt) IEs @ m) IELength (12 + cnt) n n1))
            (rtw_p2p_attr_remove (drop (12 + cnt) IEs) n attr_id))"

section \<open>Merging P2P elements\<close>

definition is_p2p_at :: "byte list \<Rightarrow> nat \<Rightarrow> bool option" where
  "is_p2p_at = ie_match 0xdd (Some p2p_oui)"

function merged_len_loop :: "byte list \<Rightarrow> nat \<Rightarrow> nat \<Rightarrow> int \<Rightarrow> int option" where
  "merged_len_loop m in_len i len =
     (if i < in_len then
        case is_p2p_at m i of None \<Rightarrow> None
        | Some p2p \<Rightarrow>
            (case rd m (i + 1) of None \<Rightarrow> None
             | Some l \<Rightarrow> merged_len_loop m in_len (i + (unat l + 2)) (if p2p then len + (int (unat l) - 4) else len))
      else Some len)"
  by pat_completeness auto

termination
  by (relation "measure (\<lambda>(m, in_len, i, len). in_len - i)") auto

declare merged_len_loop.simps [simp del]

definition rtw_get_p2p_merged_ies_len :: "byte list \<Rightarrow> nat \<Rightarrow> u32 option" where
  "rtw_get_p2p_merged_ies_len m in_len = map_option (\<lambda>len. word_of_int (len + 4)) (merged_len_loop m in_len 0 0)"

text \<open>
  The loop of \<open>rtw_p2p_merge_ies\<close>: \<open>d\<close> is the memory of \<open>merge_ie\<close>, \<open>q\<close> the place in it, and \<open>len\<close> has
  8 bits.  An element of less than four bytes makes the size of the copy negative.
\<close>

function merge_loop :: "byte list \<Rightarrow> nat \<Rightarrow> nat \<Rightarrow> byte list \<Rightarrow> nat \<Rightarrow> byte \<Rightarrow> (byte list \<times> byte) option" where
  "merge_loop m in_len i d q len =
     (if i < in_len then
        case is_p2p_at m i of None \<Rightarrow> None
        | Some p2p \<Rightarrow>
            (case rd m (i + 1) of None \<Rightarrow> None
             | Some l \<Rightarrow>
                 if p2p then
                   if unat l < 4 then None
                   else (case rd_slice m (i + 6) (unat l - 4) of None \<Rightarrow> None
                         | Some bs \<Rightarrow>
                             (case wr_slice d q bs of None \<Rightarrow> None
                              | Some d1 \<Rightarrow> merge_loop m in_len (i + (unat l + 2)) d1 (q + (unat l - 4)) (len + (l - 4))))
                 else merge_loop m in_len (i + (unat l + 2)) d q len)
      else Some (d, len))"
  by pat_completeness auto

termination
  by (relation "measure (\<lambda>(m, in_len, i, d, q, len). in_len - i)") auto

declare merge_loop.simps [simp del]

definition rtw_p2p_merge_ies :: "byte list \<Rightarrow> nat \<Rightarrow> byte list option \<Rightarrow> (int \<times> byte list) option" where
  "rtw_p2p_merge_ies m in_len merge_ie =
     (case merge_ie of None \<Rightarrow> Some (0, [])
      | Some d \<Rightarrow> do {
          d1 \<leftarrow> wr_slice d 0 [0xdd, 0x00, 0x50, 0x6f, 0x9a, 0x09];
          (d2, len) \<leftarrow> merge_loop m in_len 0 d1 6 0;
          Some (int (unat len) + 4, d2) })"

section \<open>Wi-Fi Display attributes\<close>

text \<open>Here the step is computed in 32 bits, so it is never zero.\<close>

function wfd_attr_loop :: "byte list \<Rightarrow> nat \<Rightarrow> byte \<Rightarrow> nat \<Rightarrow> (nat \<times> nat) option option" where
  "wfd_attr_loop m ielen target cnt =
     (if cnt < ielen then
        case get_be16 m (cnt + 1) of None \<Rightarrow> None
        | Some attrlen \<Rightarrow>
            (case rd m cnt of None \<Rightarrow> None
             | Some attr_id \<Rightarrow>
                 if attr_id = target then Some (Some (cnt, unat attrlen))
                 else wfd_attr_loop m ielen target (cnt + (unat attrlen + 3)))
      else Some None)"
  by pat_completeness auto

termination
  by (relation "measure (\<lambda>(m, ielen, target, cnt). ielen - cnt)") auto

declare wfd_attr_loop.simps [simp del]

text \<open>The result: whether there is one, its length and the bytes copied to \<open>attr_content\<close>.\<close>

definition rtw_get_wfd_attr_content ::
  "byte list \<Rightarrow> nat \<Rightarrow> byte \<Rightarrow> bool \<Rightarrow> (nat \<times> byte list) option option" where
  "rtw_get_wfd_attr_content m wfd_ielen target_attr_id copy = do {
     b \<leftarrow> ie_match 0xdd (Some wfd_oui) m 0;
     if \<not> b then Some None
     else do {
       r \<leftarrow> wfd_attr_loop m wfd_ielen target_attr_id 6;
       (case r of None \<Rightarrow> Some None
        | Some (cnt, n) \<Rightarrow> do {
            bs \<leftarrow> (if copy then rd_slice m (cnt + 3) n else Some []);
            Some (Some (n, bs)) }) } }"

section \<open>Searches of elements keep their contract\<close>

definition wps_place :: "byte list \<Rightarrow> nat \<Rightarrow> nat option option" where
  "wps_place m in_len = map_option (map_option fst) (rtw_get_wps_ie (Some m) in_len False)"

lemma get_wps_ie_ex: "rtw_get_wps_ie in_ie in_len copy = rtw_get_ie_ex in_ie in_len 0xdd (Some wps_oui) copy"
  by (simp add: rtw_get_wps_ie_def rtw_get_ie_ex_def)

interpretation wps: ie_search wps_place "ie_is 0xdd (Some wps_oui)" "oui_fits 0xdd (Some wps_oui)"
  by unfold_locales (simp add: wps_place_def get_wps_ie_ex ie_ex_place_series [unfolded ie_ex_place_def])

lemma p2p_ie_loop_walk:
  assumes "0 \<le> in_len" and "nat in_len \<le> MAX_IE_SZ + 1"
  shows "p2p_ie_loop m in_len cnt = ie_walk (ie_match 0xdd (Some p2p_oui)) m (nat in_len) cnt"
proof (induction "MAX_IE_SZ + 1 - cnt" arbitrary: cnt rule: less_induct)
  case less
  have ih: "p2p_ie_loop m in_len (cnt + (n + 2)) = ie_walk (ie_match 0xdd (Some p2p_oui)) m (nat in_len) (cnt + (n + 2))"
    if "int cnt < in_len" for n
    using less [of "cnt + (n + 2)"] that assms by (simp add: nat_less_iff)
  show ?case using assms ih
    by (subst p2p_ie_loop.simps, subst ie_walk.simps)
      (auto simp: ie_match_def zless_nat_eq_int_zless split: option.splits bool.splits)
qed

definition p2p_place :: "byte list \<Rightarrow> nat \<Rightarrow> nat option option" where
  "p2p_place m in_len = map_option (map_option fst) (rtw_get_p2p_ie m (int in_len) False)"

lemma get_p2p_ie_ex:
  "in_len \<le> MAX_IE_SZ + 1 \<Longrightarrow> rtw_get_p2p_ie m (int in_len) copy = rtw_get_ie_ex (Some m) in_len 0xdd (Some p2p_oui) copy"
  by (simp add: rtw_get_p2p_ie_def rtw_get_ie_ex_def p2p_ie_loop_walk)

interpretation p2p: ie_search p2p_place "ie_is 0xdd (Some p2p_oui)"
    "\<lambda>es. oui_fits 0xdd (Some p2p_oui) es \<and> length (ies_bytes es) \<le> MAX_IE_SZ + 1"
  by unfold_locales (simp add: p2p_place_def get_p2p_ie_ex ie_ex_place_series [unfolded ie_ex_place_def])

definition wfd_place :: "byte list \<Rightarrow> nat \<Rightarrow> nat option option" where
  "wfd_place m in_len =
     map_option (\<lambda>(mt, r). map_option (\<lambda>(n, bs). mt - n) r) (rtw_get_wfd_ie m (int in_len) False)"

lemma wfd_place_ex: "wfd_place m in_len = ie_ex_place 0xdd (Some wfd_oui) m in_len"
  by (cases "ie_walk (ie_match 0xdd (Some wfd_oui)) m in_len 0")
    (auto simp: wfd_place_def ie_ex_place_def rtw_get_wfd_ie_def rtw_get_ie_ex_def ie_at_def
      split: option.splits bind_splits)

interpretation wfd: ie_search wfd_place "ie_is 0xdd (Some wfd_oui)" "oui_fits 0xdd (Some wfd_oui)"
  by unfold_locales (simp add: wfd_place_ex ie_ex_place_series)

section \<open>Attributes in a row\<close>

type_synonym attr = "u16 \<times> byte list"

text \<open>A row of attributes, and the first one with an identifier: its place and whole length.\<close>

definition encs :: "(attr \<Rightarrow> byte list) \<Rightarrow> attr list \<Rightarrow> byte list" where
  "encs enc as = concat (map enc as)"

lemma encs_simps [simp]: "encs enc [] = []" "encs enc (a # as) = enc a @ encs enc as"
  "encs enc (as @ bs) = encs enc as @ encs enc bs"
  by (simp_all add: encs_def)

fun first_attr :: "(attr \<Rightarrow> byte list) \<Rightarrow> u16 \<Rightarrow> attr list \<Rightarrow> (nat \<times> attr) option" where
  "first_attr enc target [] = None"
| "first_attr enc target (a # as) =
     (if fst a = target then Some (0, a)
      else map_option (\<lambda>(k, x). (length (enc a) + k, x)) (first_attr enc target as))"

lemma first_attr_None: "first_attr enc target as = None \<longleftrightarrow> (\<forall>a \<in> set as. fst a \<noteq> target)"
  by (induction as) auto

lemma first_attr_Some:
  "first_attr enc target as = Some (k, x) \<Longrightarrow>
   \<exists>bs cs. as = bs @ x # cs \<and> k = length (encs enc bs) \<and> fst x = target \<and> (\<forall>a \<in> set bs. fst a \<noteq> target)"
proof (induction as arbitrary: k)
  case (Cons a as)
  show ?case
  proof (cases "fst a = target")
    case True
    then have "a # as = [] @ x # as \<and> k = length (encs enc []) \<and> fst x = target \<and> (\<forall>a \<in> set []. fst a \<noteq> target)"
      using Cons.prems by auto
    then show ?thesis by blast
  next
    case False
    then obtain k' where k: "first_attr enc target as = Some (k', x)" "k = length (enc a) + k'" using Cons.prems by auto
    then obtain bs cs where "as = bs @ x # cs" "k' = length (encs enc bs)" "fst x = target" "\<forall>a \<in> set bs. fst a \<noteq> target"
      using Cons.IH by blast
    then have "a # as = (a # bs) @ x # cs \<and> k = length (encs enc (a # bs)) \<and> fst x = target \<and>
        (\<forall>x \<in> set (a # bs). fst x \<noteq> target)" using False k(2) by simp
    then show ?thesis by blast
  qed
qed simp

text \<open>
  What the search of attributes relies on: the reader \<open>hdr\<close> of a format gives the identifier and
  the whole length of an attribute that the format's writer \<open>enc\<close> has put there, wherever it is.
\<close>

locale attr_format =
  fixes hdr :: "byte list \<Rightarrow> nat \<Rightarrow> (u16 \<times> u16) option" and enc :: "attr \<Rightarrow> byte list" and ok :: "attr \<Rightarrow> bool"
  assumes hdr_enc: "ok a \<Longrightarrow> hdr (pre @ enc a @ post) (length pre) = Some (fst a, of_nat (length (enc a)))"
    and enc_length: "ok a \<Longrightarrow> 0 < length (enc a) \<and> length (enc a) < 65536"
begin

lemma attr_len: "ok a \<Longrightarrow> unat (of_nat (length (enc a)) :: u16) = length (enc a)"
  using enc_length [of a] by (simp add: unat_of_nat take_bit_eq_mod)

text \<open>The search returns, and finds the first attribute with the identifier.\<close>

lemma walk_series:
  assumes "\<forall>a \<in> set as. ok a" and "m = pre @ encs enc as @ post"
  shows "attr_walk (hdr m) (length pre + length (encs enc as)) target (length pre) =
    Some (Some (map_option (\<lambda>(k, a). (length pre + k, of_nat (length (enc a)))) (first_attr enc target as)))"
  using assms
proof (induction as arbitrary: pre)
  case Nil
  then show ?case by (subst attr_walk.simps) simp
next
  case (Cons a as)
  have h: "hdr m (length pre) = Some (fst a, of_nat (length (enc a)))"
    using hdr_enc [of a pre "encs enc as @ post"] Cons.prems by simp
  have l: "0 < length (enc a)" "unat (of_nat (length (enc a)) :: u16) = length (enc a)"
    using enc_length [of a] attr_len [of a] Cons.prems(1) by simp_all
  show ?case
  proof (cases "fst a = target")
    case True
    then show ?thesis using h l by (subst attr_walk.simps) simp
  next
    case False
    have "attr_walk (hdr m) (length pre + length (encs enc (a # as))) target (length pre) =
        attr_walk (hdr m) (length (pre @ enc a) + length (encs enc as)) target (length (pre @ enc a))"
      using h l False by (subst attr_walk.simps) (simp add: add.assoc)
    also have "\<dots> = Some (Some (map_option (\<lambda>(k, x). (length (pre @ enc a) + k, of_nat (length (enc x)))) (first_attr enc target as)))"
      using Cons.prems by (intro Cons.IH) auto
    finally show ?thesis using False by (auto simp: option.map_comp comp_def case_prod_unfold add.assoc)
  qed
qed

text \<open>With what the callers get: place, length and, if asked for, the bytes of the attribute.\<close>

lemma walk_found:
  assumes "\<forall>a \<in> set as. ok a" and "m = pre @ encs enc as @ post" and "length pre = p"
  shows "map_option (\<lambda>r. r \<bind> found_attr copy m) (attr_walk (hdr m) (p + length (encs enc as)) target p) =
    Some (Some (map_option (\<lambda>(k, a). (p + k, length (enc a), if copy then enc a else [])) (first_attr enc target as)))"
proof (cases "first_attr enc target as")
  case None
  then show ?thesis using walk_series [OF assms(1,2), of target] assms(3) by (simp add: found_attr_def)
next
  case (Some x)
  obtain k a where x: "x = (k, a)" by (cases x)
  obtain bs cs where as: "as = bs @ a # cs" "k = length (encs enc bs)" using first_attr_Some Some x by blast
  have n: "unat (of_nat (length (enc a)) :: u16) = length (enc a)" using attr_len [of a] assms(1) as by simp
  have "rd_slice m (p + k) (length (enc a)) = Some (enc a)"
    using rd_slice_at [of "pre @ encs enc bs" "p + k" "enc a" "length (enc a)" "encs enc cs @ post"] as
    by (simp add: assms(2,3))
  then show ?thesis using walk_series [OF assms(1,2), of target] assms(3) Some x n by (simp add: found_attr_def)
qed

text \<open>Behind attributes without the identifier the search stands at their end.\<close>

lemma walk_skips:
  assumes "\<forall>a \<in> set as. ok a \<and> fst a \<noteq> target" and "m = pre @ encs enc as @ post" and "length pre + length (encs enc as) < ielen"
  shows "attr_walk (hdr m) ielen target (length pre) = attr_walk (hdr m) ielen target (length pre + length (encs enc as))"
  using assms
proof (induction as arbitrary: pre)
  case (Cons a as)
  have h: "hdr m (length pre) = Some (fst a, of_nat (length (enc a)))"
    using hdr_enc [of a pre "encs enc as @ post"] Cons.prems by simp
  have "attr_walk (hdr m) ielen target (length pre) = attr_walk (hdr m) ielen target (length (pre @ enc a))"
    using h attr_len [of a] Cons.prems by (subst attr_walk.simps) simp
  also have "\<dots> = attr_walk (hdr m) ielen target (length (pre @ enc a) + length (encs enc as))"
    using Cons.prems by (intro Cons.IH) auto
  finally show ?case by (simp add: add.assoc)
qed simp

end

text \<open>A step of length zero is never left.\<close>

lemma walk_stays:
  assumes "p < ielen" and "hdr p = Some (i, 0)" and "i \<noteq> target"
  shows "attr_walk hdr ielen target p = None"
proof (rule ccontr)
  assume "attr_walk hdr ielen target p \<noteq> None"
  then obtain r where r: "attr_walk hdr ielen target p = Some r" by blast
  have "\<not> (h = hdr \<and> n = ielen \<and> t = target \<and> q = p)" if "attr_walk h n t q = Some r" for h n t q
  proof (rule attr_walk.raw_induct [where P = "\<lambda>h n t q r. \<not> (h = hdr \<and> n = ielen \<and> t = target \<and> q = p)", OF _ that])
    fix f h n t q r
    assume ih: "\<And>h n t q r. f h n t q = Some r \<Longrightarrow> \<not> (h = hdr \<and> n = ielen \<and> t = target \<and> q = p)"
      and eq: "(if q < n then
          (case h q of None \<Rightarrow> Some None
           | Some x \<Rightarrow> if fst x = t then Some (Some (Some (q, snd x))) else f h n t (q + unat (snd x)))
        else Some (Some None)) = Some r"
    show "\<not> (h = hdr \<and> n = ielen \<and> t = target \<and> q = p)"
    proof
      assume "h = hdr \<and> n = ielen \<and> t = target \<and> q = p"
      then have "f hdr ielen target p = Some r" using eq assms by simp
      then show False using ih by blast
    qed
  qed
  then show False using r by blast
qed

section \<open>The two formats\<close>

definition be16_word :: "u16 \<Rightarrow> byte list" where
  "be16_word w = [ucast (drop_bit 8 w), ucast w]"

definition wps_attr :: "attr \<Rightarrow> byte list" where
  "wps_attr a = be16_word (fst a) @ be16_word (of_nat (length (snd a))) @ snd a"

definition wps_attr_ok :: "attr \<Rightarrow> bool" where
  "wps_attr_ok a \<longleftrightarrow> length (snd a) + 4 < 65536"

text \<open>P2P attributes are what \<open>rtw_set_p2p_attr_content\<close> writes.\<close>

definition p2p_attr :: "attr \<Rightarrow> byte list" where
  "p2p_attr a = [ucast (fst a)] @ le16_bytes (of_nat (length (snd a))) @ snd a"

definition p2p_attr_ok :: "attr \<Rightarrow> bool" where
  "p2p_attr_ok a \<longleftrightarrow> length (snd a) + 3 < 65536 \<and> fst a < 256"

lemma be16_word_join: "push_bit 8 (ucast (ucast (drop_bit 8 w) :: byte)) OR ucast (ucast w :: byte) = (w :: u16)"
  by (rule bit_word_eqI) (auto simp: bit_simps)

lemma get_be16_word: "length pre = i \<Longrightarrow> get_be16 (pre @ be16_word w @ rest) i = Some w"
  by (simp add: get_be16_def rd_slice_def be16_word_def be16_word_join)

lemma u16_of_byte_inj:
  assumes "(ucast (x :: byte) :: u16) = ucast y"
  shows "x = y"
proof (rule bit_word_eqI)
  fix n assume "n < LENGTH(8)"
  then show "bit x n \<longleftrightarrow> bit y n"
    using arg_cong [OF assms, of "\<lambda>w. bit w n"] by (simp add: bit_ucast_iff)
qed

lemma ucast_byte_back: "(w :: u16) < 256 \<Longrightarrow> ucast (ucast w :: byte) = w"
proof -
  assume "w < 256"
  then have "unat w < 256" by (simp add: word_less_nat_alt)
  then show ?thesis by (simp add: word_unat_eq_iff unsigned_ucast_eq take_bit_eq_mod unat_mod_distrib)
qed

interpretation wps_attrs: attr_format wps_attr_hdr wps_attr wps_attr_ok
proof unfold_locales
  fix a pre post assume ok: "wps_attr_ok a"
  show "wps_attr_hdr (pre @ wps_attr a @ post) (length pre) = Some (fst a, of_nat (length (wps_attr a)))"
    using get_be16_word [of pre "length pre" "fst a" "be16_word (of_nat (length (snd a))) @ snd a @ post"]
      get_be16_word [of "pre @ be16_word (fst a)" "length pre + 2" "of_nat (length (snd a))" "snd a @ post"]
    by (simp add: wps_attr_hdr_def wps_attr_def) (simp add: be16_word_def)
  show "0 < length (wps_attr a) \<and> length (wps_attr a) < 65536"
    using ok by (simp add: wps_attr_ok_def wps_attr_def be16_word_def)
qed

interpretation p2p_attrs: attr_format p2p_attr_hdr p2p_attr p2p_attr_ok
proof unfold_locales
  fix a pre post assume ok: "p2p_attr_ok a"
  have "get_le16 (pre @ p2p_attr a @ post) (length pre + 1) = Some (of_nat (length (snd a)))"
    using get_le16_bytes [of "pre @ [ucast (fst a)]" "length pre + 1" "of_nat (length (snd a))" "snd a @ post"]
    by (simp add: p2p_attr_def)
  moreover have "rd (pre @ p2p_attr a @ post) (length pre) = Some (ucast (fst a))"
    by (simp add: rd_def p2p_attr_def)
  ultimately show "p2p_attr_hdr (pre @ p2p_attr a @ post) (length pre) = Some (fst a, of_nat (length (p2p_attr a)))"
    using ok by (simp add: p2p_attr_hdr_def p2p_attr_ok_def ucast_byte_back) (simp add: p2p_attr_def)
  show "0 < length (p2p_attr a) \<and> length (p2p_attr a) < 65536"
    using ok by (simp add: p2p_attr_ok_def p2p_attr_def)
qed

text \<open>An element with its OUI and a row of attributes.\<close>

definition oui_ie :: "byte \<Rightarrow> byte list \<Rightarrow> byte list \<Rightarrow> byte list" where
  "oui_ie l oui body = [0xdd, l] @ oui @ body"

lemma oui_ie_match: "length oui = 4 \<Longrightarrow> ie_match 0xdd (Some oui) (oui_ie l oui body @ post) 0 = Some True"
  by (simp add: ie_match_def oui_ie_def rd_def rtw_memcmp_def rd_slice_def)

lemma oui_lengths [simp]: "length wps_oui = 4" "length p2p_oui = 4"
  by (simp_all add: wps_oui_def p2p_oui_def)

lemma wps_walk:
  assumes "\<forall>a \<in> set as. wps_attr_ok a"
  shows "rtw_get_wps_attr (oui_ie l wps_oui (encs wps_attr as) @ post) (6 + length (encs wps_attr as)) t copy =
    Some (Some (map_option (\<lambda>(k, a). (6 + k, length (wps_attr a), if copy then wps_attr a else [])) (first_attr wps_attr t as)))"
  using wps_attrs.walk_found [OF assms, of "oui_ie l wps_oui (encs wps_attr as) @ post" "[0xdd, l] @ wps_oui" post 6 copy t]
    oui_ie_match [of wps_oui l "encs wps_attr as" post]
  by (simp add: rtw_get_wps_attr_def) (simp add: oui_ie_def)

lemma p2p_walk:
  assumes "\<forall>a \<in> set as. p2p_attr_ok a"
  shows "rtw_get_p2p_attr (Some (oui_ie l p2p_oui (encs p2p_attr as) @ post)) (6 + length (encs p2p_attr as)) t copy =
    Some (Some (map_option (\<lambda>(k, a). (6 + k, length (p2p_attr a), if copy then p2p_attr a else [])) (first_attr p2p_attr (ucast t) as)))"
  using p2p_attrs.walk_found [OF assms, of "oui_ie l p2p_oui (encs p2p_attr as) @ post" "[0xdd, l] @ p2p_oui" post 6 copy "ucast t"]
    oui_ie_match [of p2p_oui l "encs p2p_attr as" post]
  by (simp add: rtw_get_p2p_attr_def) (simp add: oui_ie_def)

section \<open>Properties\<close>

text \<open>
  The contents of attributes are found.  In a WPS element and in a P2P element with well-formed
  attributes the searches return, and give place, length and bytes of the content of the first
  attribute with the identifier, or the null pointer if there is none.
\<close>

theorem attr_contents_found:
  assumes "\<forall>a \<in> set as. wps_attr_ok a" and "\<forall>a \<in> set bs. p2p_attr_ok a"
  shows "rtw_get_wps_attr_content (oui_ie l wps_oui (encs wps_attr as) @ post) (6 + length (encs wps_attr as)) t True =
      Some (Some (map_option (\<lambda>(k, a). (6 + k + 4, length (snd a), snd a)) (first_attr wps_attr t as))) \<and>
    rtw_get_p2p_attr_content (Some (oui_ie l p2p_oui (encs p2p_attr bs) @ post)) (6 + length (encs p2p_attr bs)) u True =
      Some (Some (map_option (\<lambda>(k, a). (6 + k + 3, length (snd a), snd a)) (first_attr p2p_attr (ucast u) bs)))"
proof (intro conjI)
  have content: "attr_content h True (pre @ hd @ d @ rest) (Some (p, h + length d, [])) = Some (Some (p + h, length d, d))"
    if "length pre = p" "length hd = h" "0 < h" for pre hd d rest :: "byte list" and p h
    using that rd_slice_at [of "pre @ hd" "p + h" d "length d" rest] by (simp add: attr_content_def)
  show "rtw_get_wps_attr_content (oui_ie l wps_oui (encs wps_attr as) @ post) (6 + length (encs wps_attr as)) t True =
      Some (Some (map_option (\<lambda>(k, a). (6 + k + 4, length (snd a), snd a)) (first_attr wps_attr t as)))"
  proof (cases "first_attr wps_attr t as")
    case None
    then show ?thesis using wps_walk [OF assms(1)] by (simp add: rtw_get_wps_attr_content_def attr_content_def)
  next
    case (Some x)
    obtain k a where x: "x = (k, a)" by (cases x)
    obtain cs ds where as: "as = cs @ a # ds" "k = length (encs wps_attr cs)" using first_attr_Some Some x by blast
    have "attr_content 4 True (oui_ie l wps_oui (encs wps_attr as) @ post) (Some (6 + k, 4 + length (snd a), [])) =
        Some (Some (6 + k + 4, length (snd a), snd a))"
      using content [of "[0xdd, l] @ wps_oui @ encs wps_attr cs" "6 + k" "be16_word (fst a) @ be16_word (of_nat (length (snd a)))" 4
          "snd a" "encs wps_attr ds @ post"]
      by (simp add: as oui_ie_def wps_attr_def be16_word_def)
    moreover have "length (wps_attr a) = 4 + length (snd a)" by (simp add: wps_attr_def be16_word_def)
    ultimately show ?thesis using wps_walk [OF assms(1)] Some x by (simp add: rtw_get_wps_attr_content_def)
  qed
  show "rtw_get_p2p_attr_content (Some (oui_ie l p2p_oui (encs p2p_attr bs) @ post)) (6 + length (encs p2p_attr bs)) u True =
      Some (Some (map_option (\<lambda>(k, a). (6 + k + 3, length (snd a), snd a)) (first_attr p2p_attr (ucast u) bs)))"
  proof (cases "first_attr p2p_attr (ucast u) bs")
    case None
    then show ?thesis using p2p_walk [OF assms(2)] by (simp add: rtw_get_p2p_attr_content_def attr_content_def)
  next
    case (Some x)
    obtain k a where x: "x = (k, a)" by (cases x)
    obtain cs ds where bs: "bs = cs @ a # ds" "k = length (encs p2p_attr cs)" using first_attr_Some Some x by blast
    have "attr_content 3 True (oui_ie l p2p_oui (encs p2p_attr bs) @ post) (Some (6 + k, 3 + length (snd a), [])) =
        Some (Some (6 + k + 3, length (snd a), snd a))"
      using content [of "[0xdd, l] @ p2p_oui @ encs p2p_attr cs" "6 + k" "[ucast (fst a)] @ le16_bytes (of_nat (length (snd a)))" 3
          "snd a" "encs p2p_attr ds @ post"]
      by (simp add: bs oui_ie_def p2p_attr_def)
    moreover have "length (p2p_attr a) = 3 + length (snd a)" by (simp add: p2p_attr_def)
    ultimately show ?thesis using p2p_walk [OF assms(2)] Some x by (simp add: rtw_get_p2p_attr_content_def)
  qed
qed

theorem attr_contents_found_witness:
  "rtw_get_p2p_attr_content (Some (oui_ie 17 p2p_oui (encs p2p_attr [(2, [0, 0x25]), (13, [1, 2, 3])]))) 17 13 True =
     Some (Some (Some (14, 3, [1, 2, 3])))"
  using attr_contents_found [of "[]" "[(2, [0, 0x25]), (13, [1, 2, 3])]" 17 "[]" 0 13]
  by (simp add: p2p_attr_ok_def p2p_attr_def)

text \<open>
  C32: a frame can make the searches run for ever.  When the search comes to an attribute that is not
  the one it looks for and that claims a length of 65532 (WPS) or 65533 (P2P), the whole length
  is cut to 16 bits and is zero, and the search does not return.
\<close>

theorem attr_search_hangs:
  assumes "\<forall>a \<in> set as. wps_attr_ok a \<and> fst a \<noteq> t" and "i \<noteq> t"
    and "\<forall>a \<in> set bs. p2p_attr_ok a \<and> fst a \<noteq> ucast u" and "j \<noteq> u"
  shows "rtw_get_wps_attr (oui_ie l wps_oui (encs wps_attr as @ be16_word i @ [0xff, 0xfc]) @ post)
        (6 + length (encs wps_attr as) + 4 + n) t copy = None \<and>
    rtw_get_p2p_attr (Some (oui_ie l p2p_oui (encs p2p_attr bs @ [j, 0xfd, 0xff]) @ post))
        (6 + length (encs p2p_attr bs) + 3 + n) u copy = None"
proof (intro conjI)
  define m where "m = oui_ie l wps_oui (encs wps_attr as @ be16_word i @ [0xff, 0xfc]) @ post"
  have m: "m = ([0xdd, l] @ wps_oui) @ encs wps_attr as @ (be16_word i @ [0xff, 0xfc] @ post)"
    by (simp add: m_def oui_ie_def)
  have h: "wps_attr_hdr m (6 + length (encs wps_attr as)) = Some (i, 0)"
  proof -
    have f: "be16_word 0xfffc = [0xff, 0xfc]" by (simp add: be16_word_def)
    have "get_be16 m (6 + length (encs wps_attr as)) = Some i"
      using get_be16_word [of "([0xdd, l] @ wps_oui) @ encs wps_attr as" "6 + length (encs wps_attr as)" i "[0xff, 0xfc] @ post"]
      by (simp add: m)
    moreover have "get_be16 m (6 + length (encs wps_attr as) + 2) = Some 0xfffc"
      using get_be16_word [of "([0xdd, l] @ wps_oui) @ encs wps_attr as @ be16_word i" "6 + length (encs wps_attr as) + 2" "0xfffc" post]
      by (simp add: m f) (simp add: be16_word_def)
    ultimately show ?thesis by (simp add: wps_attr_hdr_def)
  qed
  have "attr_walk (wps_attr_hdr m) (6 + length (encs wps_attr as) + 4 + n) t 6 =
      attr_walk (wps_attr_hdr m) (6 + length (encs wps_attr as) + 4 + n) t (6 + length (encs wps_attr as))"
    using wps_attrs.walk_skips [OF assms(1) m, where ielen = "6 + length (encs wps_attr as) + 4 + n"] by simp
  also have "\<dots> = None" using h assms(2) by (intro walk_stays) auto
  finally show "rtw_get_wps_attr m (6 + length (encs wps_attr as) + 4 + n) t copy = None"
    using oui_ie_match [of wps_oui] by (simp add: rtw_get_wps_attr_def m_def)
next
  define m where "m = oui_ie l p2p_oui (encs p2p_attr bs @ [j, 0xfd, 0xff]) @ post"
  have m: "m = ([0xdd, l] @ p2p_oui) @ encs p2p_attr bs @ ([j, 0xfd, 0xff] @ post)"
    by (simp add: m_def oui_ie_def)
  have h: "p2p_attr_hdr m (6 + length (encs p2p_attr bs)) = Some (ucast j, 0)"
  proof -
    have f: "le16_bytes 0xfffd = [0xfd, 0xff]" by (simp add: le16_bytes_def)
    have "get_le16 m (6 + length (encs p2p_attr bs) + 1) = Some 0xfffd"
      using get_le16_bytes [of "([0xdd, l] @ p2p_oui) @ encs p2p_attr bs @ [j]" "6 + length (encs p2p_attr bs) + 1" "0xfffd" post]
      by (simp add: m f)
    moreover have "rd m (6 + length (encs p2p_attr bs)) = Some j" by (simp add: m rd_def nth_append)
    ultimately show ?thesis by (simp add: p2p_attr_hdr_def)
  qed
  have jn: "(ucast j :: u16) \<noteq> ucast u" using assms(4)
    by (metis u16_of_byte_inj)
  have "attr_walk (p2p_attr_hdr m) (6 + length (encs p2p_attr bs) + 3 + n) (ucast u) 6 =
      attr_walk (p2p_attr_hdr m) (6 + length (encs p2p_attr bs) + 3 + n) (ucast u) (6 + length (encs p2p_attr bs))"
    using p2p_attrs.walk_skips [OF assms(3) m, where ielen = "6 + length (encs p2p_attr bs) + 3 + n"] by simp
  also have "\<dots> = None" using h jn by (intro walk_stays) auto
  finally show "rtw_get_p2p_attr (Some m) (6 + length (encs p2p_attr bs) + 3 + n) u copy = None"
    using oui_ie_match [of p2p_oui] by (simp add: rtw_get_p2p_attr_def m_def)
qed

theorem attr_search_hangs_witness:
  "rtw_get_wps_attr (oui_ie 15 wps_oui (be16_word 0x104a @ [0xff, 0xfc]) @ [0, 0, 0, 0, 0]) 15 0x1041 False = None"
  using attr_search_hangs [of "[]" "0x1041" "0x104a" "[]" 0 1 15 "[0, 0, 0, 0, 0]" 5 False] by simp

end
