(* ===== verification/Bss.thy ===== *)
theory Bss
  imports Ie IeParse
begin

text \<open>
  The description of a BSS (\<open>WLAN_BSSID_EX\<close>, \<open>include/wlan_bssdef.h\<close>), the rate sets and the elements
  an ad-hoc station generates for it, the MAC address of the interface, and the small
  classifications of \<open>core/rtw_ieee80211.c\<close>.
\<close>

section \<open>Data\<close>

text \<open>
  \<open>Ssid\<close> holds the \<open>SsidLength\<close> bytes of the name; \<open>Length\<close>, the frequency hopping parameters and
  the reserved bytes are left out.
\<close>

record WLAN_BSSID_EX =
  bss_MacAddress :: mac
  bss_Reserved0 :: byte
  bss_Ssid :: "byte list"
  bss_Privacy :: u32
  bss_Rssi :: int
  bss_NetworkTypeInUse :: nat
  bss_BeaconPeriod :: u32
  bss_ATIMWindow :: u32
  bss_DSConfig :: u32
  bss_InfrastructureMode :: nat
  bss_SupportedRates :: "byte list"
  bss_SignalStrength :: nat
  bss_SignalQuality :: nat
  bss_IELength :: nat
  bss_IEs :: "byte list"

definition WIRELESS_INVALID :: byte where "WIRELESS_INVALID = 0"
definition WIRELESS_11B :: byte where "WIRELESS_11B = 1"
definition WIRELESS_11G :: byte where "WIRELESS_11G = 2"
definition WIRELESS_11A :: byte where "WIRELESS_11A = 4"
definition WIRELESS_11_24N :: byte where "WIRELESS_11_24N = 8"
definition WIRELESS_11_5N :: byte where "WIRELESS_11_5N = 16"
definition WIRELESS_11BG :: byte where "WIRELESS_11BG = WIRELESS_11B OR WIRELESS_11G"
definition WIRELESS_11G_24N :: byte where "WIRELESS_11G_24N = WIRELESS_11G OR WIRELESS_11_24N"
definition WIRELESS_11A_5N :: byte where "WIRELESS_11A_5N = WIRELESS_11A OR WIRELESS_11_5N"
definition WIRELESS_11BG_24N :: byte where "WIRELESS_11BG_24N = WIRELESS_11B OR WIRELESS_11G OR WIRELESS_11_24N"
definition WIRELESS_11ABGN :: byte where
  "WIRELESS_11ABGN = WIRELESS_11A OR WIRELESS_11B OR WIRELESS_11G OR WIRELESS_11_24N OR WIRELESS_11_5N"

lemmas wireless_defs = WIRELESS_INVALID_def WIRELESS_11B_def WIRELESS_11G_def WIRELESS_11A_def WIRELESS_11_24N_def
  WIRELESS_11_5N_def WIRELESS_11BG_def WIRELESS_11G_24N_def WIRELESS_11A_5N_def WIRELESS_11BG_24N_def WIRELESS_11ABGN_def

section \<open>Rate sets\<close>

text \<open>A rate set is the memory at the pointer; the loops stop at a zero byte.\<close>

definition dot11_rate_table :: "byte list" where
  "dot11_rate_table = [2, 4, 11, 22, 12, 18, 24, 36, 48, 72, 96, 108]"

definition rtw_get_bit_value_from_ieee_value :: "byte \<Rightarrow> nat" where
  "rtw_get_bit_value_from_ieee_value v =
     (case find (\<lambda>i. dot11_rate_table ! i = v) [0..<length dot11_rate_table] of None \<Rightarrow> 0 | Some i \<Rightarrow> 2 ^ i)"

definition is_cck :: "byte \<Rightarrow> bool" where
  "is_cck r \<longleftrightarrow> r AND 0x7f \<in> {2, 4, 11, 22}"

fun rtw_is_cckrates_included :: "byte list \<Rightarrow> bool option" where
  "rtw_is_cckrates_included [] = None"
| "rtw_is_cckrates_included (r # rate) =
     (if r = 0 then Some False else if is_cck r then Some True else rtw_is_cckrates_included rate)"

fun rtw_is_cckratesonly_included :: "byte list \<Rightarrow> bool option" where
  "rtw_is_cckratesonly_included [] = None"
| "rtw_is_cckratesonly_included (r # rate) =
     (if r = 0 then Some True else if \<not> is_cck r then Some False else rtw_is_cckratesonly_included rate)"

definition rtw_check_network_type :: "byte list \<Rightarrow> int \<Rightarrow> byte option" where
  "rtw_check_network_type rate channel =
     (if channel > 14 then
        map_option (\<lambda>b. if b then WIRELESS_INVALID else WIRELESS_11A) (rtw_is_cckrates_included rate)
      else do {
        only \<leftarrow> rtw_is_cckratesonly_included rate;
        if only then Some WIRELESS_11B
        else map_option (\<lambda>b. if b then WIRELESS_11BG else WIRELESS_11G) (rtw_is_cckrates_included rate) })"

definition NDIS_802_11_LENGTH_RATES_EX :: nat where "NDIS_802_11_LENGTH_RATES_EX = 16"
definition WIFI_CCKRATES :: "byte list" where "WIFI_CCKRATES = [0x82, 0x84, 0x8b, 0x96]"
definition WIFI_OFDMRATES :: "byte list" where "WIFI_OFDMRATES = [0x0c, 0x12, 0x18, 0x24, 0x30, 0x48, 0x60, 0x6c]"

definition rtw_set_supported_rate :: "byte \<Rightarrow> byte list" where
  "rtw_set_supported_rate mode =
     (let rates =
        (if mode = WIRELESS_11B then WIFI_CCKRATES
         else if mode \<in> {WIRELESS_11G, WIRELESS_11A, WIRELESS_11_5N, WIRELESS_11A_5N} then WIFI_OFDMRATES
         else if mode \<in> {WIRELESS_11BG, WIRELESS_11G_24N, WIRELESS_11_24N, WIRELESS_11BG_24N} then WIFI_CCKRATES @ WIFI_OFDMRATES
         else [])
      in rates @ replicate (NDIS_802_11_LENGTH_RATES_EX - length rates) 0)"

function rateset_len_loop :: "byte list \<Rightarrow> nat \<Rightarrow> nat option" where
  "rateset_len_loop rateset i =
     (case rd rateset i of None \<Rightarrow> None
      | Some r \<Rightarrow> if r = 0 \<or> i > 12 then Some i else rateset_len_loop rateset (i + 1))"
  by pat_completeness auto

termination
  by (relation "measure (\<lambda>(rateset, i). 13 - i)") auto

declare rateset_len_loop.simps [simp del]

definition rtw_get_rateset_len :: "byte list \<Rightarrow> nat option" where
  "rtw_get_rateset_len rateset = rateset_len_loop rateset 0"

section \<open>The elements of an ad-hoc network\<close>

record registry_priv =
  reg_wireless_mode :: byte
  reg_preamble :: nat
  reg_dev_network :: WLAN_BSSID_EX

definition PREAMBLE_SHORT :: nat where "PREAMBLE_SHORT = 3"
definition cap_IBSS :: u16 where "cap_IBSS = 2"
definition cap_Privacy :: u16 where "cap_Privacy = 16"
definition cap_ShortPremble :: u16 where "cap_ShortPremble = 32"

text \<open>The wireless mode whose rates are used.\<close>

definition ie_wireless_mode :: "registry_priv \<Rightarrow> byte" where
  "ie_wireless_mode reg =
     (if reg_wireless_mode reg = WIRELESS_11ABGN then
        (if bss_DSConfig (reg_dev_network reg) > 14 then WIRELESS_11A_5N else WIRELESS_11BG_24N)
      else reg_wireless_mode reg)"

text \<open>The first bytes of a \<open>ULONG\<close> in memory.\<close>

definition ulong_bytes :: "u32 \<Rightarrow> byte list" where
  "ulong_bytes w = [ucast w, ucast (drop_bit 8 w), ucast (drop_bit 16 w), ucast (drop_bit 24 w)]"

definition rtw_generate_ie :: "registry_priv \<Rightarrow> (nat \<times> registry_priv) option" where
  "rtw_generate_ie reg = do {
     let net = reg_dev_network reg;
     let cap = cap_IBSS OR (if reg_preamble reg = PREAMBLE_SHORT then cap_ShortPremble else 0)
                 OR (if bss_Privacy net \<noteq> 0 then cap_Privacy else 0);
     ie1 \<leftarrow> wr_slice (bss_IEs net) 8 (le16_bytes (ucast (bss_BeaconPeriod net)));
     ie2 \<leftarrow> wr_slice ie1 10 (le16_bytes cap);
     (ie3, p3, sz3) \<leftarrow> rtw_set_ie ie2 12 0 (length (bss_Ssid net)) (bss_Ssid net) 12;
     let rates = rtw_set_supported_rate (ie_wireless_mode reg);
     rateLen \<leftarrow> rtw_get_rateset_len rates;
     (ie4, p4, sz4) \<leftarrow> rtw_set_ie ie3 p3 1 (if rateLen > 8 then 8 else rateLen) rates sz3;
     (ie5, p5, sz5) \<leftarrow> rtw_set_ie ie4 p4 3 1 (ulong_bytes (bss_DSConfig net)) sz4;
     (ie6, p6, sz6) \<leftarrow> rtw_set_ie ie5 p5 6 2 (ulong_bytes (bss_ATIMWindow net)) sz5;
     (ie7, p7, sz7) \<leftarrow> (if rateLen > 8 then rtw_set_ie ie6 p6 50 (rateLen - 8) (drop 8 rates) sz6 else Some (ie6, p6, sz6));
     Some (sz7, reg\<lparr>reg_dev_network := net\<lparr>bss_SupportedRates := rates, bss_IEs := ie7\<rparr>\<rparr>) }"

section \<open>Classifications\<close>

definition SCN :: nat where "SCN = 0"
definition SCA :: nat where "SCA = 1"
definition SCB :: nat where "SCB = 3"
definition HAL_PRIME_CHNL_OFFSET_DONT_CARE :: nat where "HAL_PRIME_CHNL_OFFSET_DONT_CARE = 0"
definition HAL_PRIME_CHNL_OFFSET_LOWER :: nat where "HAL_PRIME_CHNL_OFFSET_LOWER = 1"
definition HAL_PRIME_CHNL_OFFSET_UPPER :: nat where "HAL_PRIME_CHNL_OFFSET_UPPER = 2"

lemmas ch_offset_defs = SCN_def SCA_def SCB_def HAL_PRIME_CHNL_OFFSET_DONT_CARE_def HAL_PRIME_CHNL_OFFSET_LOWER_def
  HAL_PRIME_CHNL_OFFSET_UPPER_def

definition secondary_ch_offset_to_hal_ch_offset :: "nat \<Rightarrow> nat" where
  "secondary_ch_offset_to_hal_ch_offset ch_offset =
     (if ch_offset = SCN then HAL_PRIME_CHNL_OFFSET_DONT_CARE
      else if ch_offset = SCA then HAL_PRIME_CHNL_OFFSET_UPPER
      else if ch_offset = SCB then HAL_PRIME_CHNL_OFFSET_LOWER
      else HAL_PRIME_CHNL_OFFSET_DONT_CARE)"

definition hal_ch_offset_to_secondary_ch_offset :: "nat \<Rightarrow> nat" where
  "hal_ch_offset_to_secondary_ch_offset ch_offset =
     (if ch_offset = HAL_PRIME_CHNL_OFFSET_DONT_CARE then SCN
      else if ch_offset = HAL_PRIME_CHNL_OFFSET_LOWER then SCB
      else if ch_offset = HAL_PRIME_CHNL_OFFSET_UPPER then SCA
      else SCN)"

lemma ch_offset_roundtrip:
  "o' \<in> {SCN, SCA, SCB} \<Longrightarrow> hal_ch_offset_to_secondary_ch_offset (secondary_ch_offset_to_hal_ch_offset o') = o'"
  by (auto simp: hal_ch_offset_to_secondary_ch_offset_def secondary_ch_offset_to_hal_ch_offset_def ch_offset_defs)

text \<open>A hidden name: one space, or only zero bytes; the loop runs from the end.\<close>

definition ieee80211_is_empty_essid :: "byte list \<Rightarrow> bool" where
  "ieee80211_is_empty_essid essid \<longleftrightarrow> essid = [0x20] \<or> (\<forall>c \<in> set essid. c = 0)"

definition ieee80211_get_hdrlen :: "u16 \<Rightarrow> nat" where
  "ieee80211_get_hdrlen fc =
     (if fc AND 0x000c = 0x0008 then
        24 + (if fc AND 0x0080 \<noteq> 0 then 2 else 0) + (if fc AND 0x0200 \<noteq> 0 \<and> fc AND 0x0100 \<noteq> 0 then 6 else 0)
      else if fc AND 0x000c = 0x0004 then
        (if fc AND 0x00f0 = 0x00c0 \<or> fc AND 0x00f0 = 0x00d0 then 10 else 16)
      else 24)"

text \<open>
  The highest rate of an MCS map, in units of 100 kbit/s: the rows are the rates of the bits 7 to 0
  with 40 MHz and short guard interval, 40 MHz, 20 MHz and short guard interval, 20 MHz.
\<close>

definition mcs_rows1 :: "(nat \<times> nat \<times> nat \<times> nat) list" where
  "mcs_rows1 = [(1500, 1350, 722, 650), (1350, 1215, 650, 585), (1200, 1080, 578, 520), (900, 810, 433, 390),
     (600, 540, 289, 260), (450, 405, 217, 195), (300, 270, 144, 130), (150, 135, 72, 65)]"

definition mcs_rows2 :: "(nat \<times> nat \<times> nat \<times> nat) list" where
  "mcs_rows2 = [(3000, 2700, 1444, 1300), (2700, 2430, 1300, 1170), (2400, 2160, 1156, 1040), (1800, 1620, 867, 780),
     (1200, 1080, 578, 520), (900, 810, 433, 390), (600, 540, 289, 260), (300, 270, 144, 130)]"

fun mcs_search :: "byte \<Rightarrow> bool \<Rightarrow> bool \<Rightarrow> bool \<Rightarrow> nat \<Rightarrow> (nat \<times> nat \<times> nat \<times> nat) list \<Rightarrow> nat" where
  "mcs_search m bw40 sgi20 sgi40 b [] = 0"
| "mcs_search m bw40 sgi20 sgi40 b ((s40, l40, s20, l20) # rows) =
     (if bit m b then (if bw40 then (if sgi40 then s40 else l40) else (if sgi20 then s20 else l20))
      else mcs_search m bw40 sgi20 sgi40 (b - 1) rows)"

definition RF_1T1R :: nat where "RF_1T1R = 3"

definition rtw_mcs_rate :: "nat \<Rightarrow> bool \<Rightarrow> bool \<Rightarrow> bool \<Rightarrow> byte list \<Rightarrow> nat option" where
  "rtw_mcs_rate rf_type bw40 sgi20 sgi40 MCS_rate =
     (if rf_type = RF_1T1R then do {
        m0 \<leftarrow> rd MCS_rate 0;
        Some (mcs_search m0 bw40 sgi20 sgi40 7 mcs_rows1) }
      else do {
        m1 \<leftarrow> rd MCS_rate 1;
        if m1 \<noteq> 0 then Some (mcs_search m1 bw40 sgi20 sgi40 7 mcs_rows2)
        else do {
          m0 \<leftarrow> rd MCS_rate 0;
          Some (mcs_search m0 bw40 sgi20 sgi40 7 mcs_rows1) } })"

text \<open>
  Category and action of an action frame.  The action byte of the category P2P is not read,
  and \<open>*action\<close> is then an uninitialised byte, here \<open>junk\<close>.
\<close>

definition rtw_action_frame_parse :: "byte \<Rightarrow> byte list \<Rightarrow> (byte \<times> byte) option option" where
  "rtw_action_frame_parse junk frame = do {
     fc \<leftarrow> get_le16 frame 0;
     if fc AND 0x00fc \<noteq> 0x00d0 then Some None
     else do {
       c \<leftarrow> rd frame 24;
       a \<leftarrow> (if c = 0x7f then Some junk else rd frame 25);
       Some (Some (c, a)) } }"

section \<open>The MAC address\<close>

definition key_char2num :: "byte \<Rightarrow> byte" where
  "key_char2num ch =
     (if 0x30 \<le> ch \<and> ch \<le> 0x39 then ch - 0x30
      else if 0x61 \<le> ch \<and> ch \<le> 0x66 then ch - 0x61 + 10
      else if 0x41 \<le> ch \<and> ch \<le> 0x46 then ch - 0x41 + 10
      else 0xff)"

definition str_2char2num :: "byte \<Rightarrow> byte \<Rightarrow> byte" where
  "str_2char2num hch lch = key_char2num hch * 10 + key_char2num lch"

definition key_2char2num :: "byte \<Rightarrow> byte \<Rightarrow> byte" where
  "key_2char2num hch lch = push_bit 4 (key_char2num hch) OR key_char2num lch"

text \<open>\<open>rtw_initmac\<close> is the module parameter, a string with its final zero, if the user gave one.\<close>

definition rtw_macaddr_cfg :: "byte list option \<Rightarrow> mac \<Rightarrow> mac option" where
  "rtw_macaddr_cfg rtw_initmac mac_addr = do {
     mac \<leftarrow> (case rtw_initmac of
              Some str \<Rightarrow> those (map (\<lambda>jj. do { h \<leftarrow> rd str (3 * jj); l \<leftarrow> rd str (3 * jj + 1); Some (key_2char2num h l) }) [0..<6])
            | None \<Rightarrow> rd_slice mac_addr 0 6);
     if mac = replicate 6 0xff \<or> mac = replicate 6 0 then Some [0x00, 0xe0, 0x4c, 0x87, 0x00, 0x00]
     else Some mac }"

text \<open>A MAC address as text, its bytes as two digits with a separator.\<close>

definition hex_digit :: "byte \<Rightarrow> byte" where
  "hex_digit n = (if n < 10 then 0x30 + n else 0x57 + n)"

definition mac_text :: "mac \<Rightarrow> byte list" where
  "mac_text mac = concat (map (\<lambda>b. [hex_digit (drop_bit 4 b), hex_digit (b AND 0xf), 0x3a]) mac)"

lemma key_char2num_digit: "n < 16 \<Longrightarrow> key_char2num (hex_digit n) = n"
proof -
  assume "n < 16"
  then have "unat n < 16" by (simp add: word_less_nat_alt)
  then have "n \<in> of_nat ` {0..<16}" by (intro image_eqI [of _ _ "unat n"]) auto
  also have "of_nat ` {0..<16} = {0, 1, 2, 3, 4, 5, 6, 7, 8, 9, 10, 11, 12, 13, 14, 15 :: byte}"
    by (auto simp: eval_nat_numeral atLeastLessThanSuc)
  finally show "key_char2num (hex_digit n) = n"
    by (elim insertE emptyE; simp add: key_char2num_def hex_digit_def)
qed

lemma key_2char2num_digits: "key_2char2num (hex_digit (drop_bit 4 b)) (hex_digit (b AND 0xf)) = b"
proof -
  have and15: "b AND 0xf = take_bit 4 b" by (simp add: take_bit_eq_mask mask_eq_exp_minus_1)
  then have "unat (b AND 0xf) = unat b mod 16" by (simp only: unsigned_take_bit_eq) (simp add: take_bit_eq_mod)
  then have "unat (b AND 0xf) < 16" by simp
  then have 1: "b AND 0xf < 16" by (simp add: word_less_nat_alt)
  have "unat b < 256" using unsigned_less [of b] by simp
  then have "unat (drop_bit 4 b) < 16" by (simp add: unsigned_drop_bit_eq drop_bit_take_bit) (simp add: drop_bit_eq_div take_bit_eq_mod less_mult_imp_div_less)
  then have 2: "drop_bit 4 b < 16" by (simp add: word_less_nat_alt)
  have "push_bit 4 (drop_bit 4 b) OR (b AND 0xf) = b"
  proof (rule bit_word_eqI)
    fix n assume "n < LENGTH(8)"
    then show "bit (push_bit 4 (drop_bit 4 b) OR (b AND 0xf)) n \<longleftrightarrow> bit b n"
      unfolding and15 by (cases "n < 4") (auto simp: bit_simps)
  qed
  then show ?thesis by (simp only: key_2char2num_def key_char2num_digit [OF 1] key_char2num_digit [OF 2])
qed

lemma macaddr_cfg_text:
  assumes "is_mac mac" and "mac \<noteq> replicate 6 0xff" and "mac \<noteq> replicate 6 0"
  shows "rtw_macaddr_cfg (Some (mac_text mac)) any = Some mac"
proof -
  obtain a b c d e f where m: "mac = [a, b, c, d, e, f]"
    using assms(1) by (auto simp: is_mac_def length_Suc_conv eval_nat_numeral)
  show ?thesis
    using assms(2,3) unfolding m
    by (simp add: rtw_macaddr_cfg_def mac_text_def rd_def upt_rec key_2char2num_digits)
qed

section \<open>What the ad-hoc elements are\<close>

definition ibss_ies :: "WLAN_BSSID_EX \<Rightarrow> byte list \<Rightarrow> nat \<Rightarrow> ie list" where
  "ibss_ies net rates n =
     [(0, bss_Ssid net), (1, take (min n 8) rates), (3, [ucast (bss_DSConfig net)]), (6, take 2 (ulong_bytes (bss_ATIMWindow net)))]
     @ (if n > 8 then [(50, take (n - 8) (drop 8 rates))] else [])"

definition num_rates :: "byte \<Rightarrow> nat" where
  "num_rates mode =
     (if mode = WIRELESS_11B then 4
      else if mode \<in> {WIRELESS_11G, WIRELESS_11A, WIRELESS_11_5N, WIRELESS_11A_5N} then 8
      else if mode \<in> {WIRELESS_11BG, WIRELESS_11G_24N, WIRELESS_11_24N, WIRELESS_11BG_24N} then 12 else 0)"

lemma length_rates: "length (rtw_set_supported_rate mode) = 16"
  by (simp add: rtw_set_supported_rate_def WIFI_CCKRATES_def WIFI_OFDMRATES_def NDIS_802_11_LENGTH_RATES_EX_def Let_def)

lemma rateset_len: "rtw_get_rateset_len (rtw_set_supported_rate mode) = Some (num_rates mode)"
proof -
  have 1: "rtw_get_rateset_len ([0x82, 0x84, 0x8b, 0x96] @ replicate 12 0) = Some 4"
    by (simp add: rtw_get_rateset_len_def rateset_len_loop.simps rd_def)
  have 2: "rtw_get_rateset_len ([0x0c, 0x12, 0x18, 0x24, 0x30, 0x48, 0x60, 0x6c] @ replicate 8 0) = Some 8"
    by (simp add: rtw_get_rateset_len_def rateset_len_loop.simps rd_def)
  have 3: "rtw_get_rateset_len ([0x82, 0x84, 0x8b, 0x96, 0x0c, 0x12, 0x18, 0x24, 0x30, 0x48, 0x60, 0x6c] @ replicate 4 0) = Some 12"
    by (simp add: rtw_get_rateset_len_def rateset_len_loop.simps rd_def)
  have 4: "rtw_get_rateset_len (replicate 16 0) = Some 0"
    by (simp add: rtw_get_rateset_len_def rateset_len_loop.simps rd_def)
  show ?thesis
    using 1 2 3 4 unfolding rtw_set_supported_rate_def num_rates_def Let_def WIFI_CCKRATES_def WIFI_OFDMRATES_def
    by (simp add: NDIS_802_11_LENGTH_RATES_EX_def)
qed

lemma rtw_set_ie_take: "len \<le> length src \<Longrightarrow> rtw_set_ie m p index len src f = rtw_set_ie m p index len (take len src) f"
proof -
  assume "len \<le> length src"
  then have "rd_slice src 0 len = rd_slice (take len src) 0 len" by (simp add: rd_slice_def)
  then show ?thesis by (simp only: rtw_set_ie_def)
qed

definition ibss_cap :: "registry_priv \<Rightarrow> u16" where
  "ibss_cap reg = cap_IBSS OR (if reg_preamble reg = PREAMBLE_SHORT then cap_ShortPremble else 0)
     OR (if bss_Privacy (reg_dev_network reg) \<noteq> 0 then cap_Privacy else 0)"

lemma length_ulong_bytes [simp]: "length (ulong_bytes w) = 4"
  by (simp add: ulong_bytes_def)

lemma rtw_generate_ie_set_ies:
  fixes reg :: registry_priv
  defines "net \<equiv> reg_dev_network reg" and "rates \<equiv> rtw_set_supported_rate (ie_wireless_mode reg)"
  assumes "length (bss_IEs net) = MAX_IE_SZ"
  shows "rtw_generate_ie reg =
    map_option (\<lambda>(ies, p, sz). (sz, reg\<lparr>reg_dev_network := net\<lparr>bss_SupportedRates := rates, bss_IEs := ies\<rparr>\<rparr>))
      (set_ies (take 8 (bss_IEs net) @ le16_bytes (ucast (bss_BeaconPeriod net)) @ le16_bytes (ibss_cap reg) @ drop 12 (bss_IEs net))
        12 12 (ibss_ies net rates (num_rates (ie_wireless_mode reg))))"
proof -
  let ?m = "take 8 (bss_IEs net) @ le16_bytes (ucast (bss_BeaconPeriod net)) @ le16_bytes (ibss_cap reg) @ drop 12 (bss_IEs net)"
  let ?n = "num_rates (ie_wireless_mode reg)"
  have n: "?n \<in> {0, 4, 8, 12}" by (simp add: num_rates_def)
  have len: "length rates = 16" unfolding rates_def by (rule length_rates)
  have w: "do { ie1 \<leftarrow> wr_slice (bss_IEs net) 8 (le16_bytes (ucast (bss_BeaconPeriod net)));
      wr_slice ie1 10 (le16_bytes (ibss_cap reg)) } = Some ?m"
    using assms(3) by (simp add: wr_slice_def MAX_IE_SZ_def)
  have r: "rtw_set_ie m p 1 (if ?n > 8 then 8 else ?n) rates f = rtw_set_ie m p 1 (min ?n 8) (take (min ?n 8) rates) f"
    "rtw_set_ie m p 3 1 (ulong_bytes (bss_DSConfig net)) f = rtw_set_ie m p 3 1 [ucast (bss_DSConfig net)] f"
    "rtw_set_ie m p 6 2 (ulong_bytes (bss_ATIMWindow net)) f = rtw_set_ie m p 6 2 (take 2 (ulong_bytes (bss_ATIMWindow net))) f"
    "rtw_set_ie m p 50 (?n - 8) (drop 8 rates) f = rtw_set_ie m p 50 (?n - 8) (take (?n - 8) (drop 8 rates)) f" for m p f
    using n len rtw_set_ie_take [of "min ?n 8" rates m p 1 f] rtw_set_ie_take [of 1 "ulong_bytes (bss_DSConfig net)" m p 3 f]
      rtw_set_ie_take [of 2 "ulong_bytes (bss_ATIMWindow net)" m p 6 f] rtw_set_ie_take [of "?n - 8" "drop 8 rates" m p 50 f]
    by (auto simp: ulong_bytes_def min_def)
  have lens: "length (take (min ?n 8) rates) = min ?n 8" "length (take (?n - 8) (drop 8 rates)) = ?n - 8"
    "length (take 2 (ulong_bytes (bss_ATIMWindow net))) = 2"
    using n len by auto
  have "rtw_generate_ie reg = do { m \<leftarrow> do { ie1 \<leftarrow> wr_slice (bss_IEs net) 8 (le16_bytes (ucast (bss_BeaconPeriod net)));
      wr_slice ie1 10 (le16_bytes (ibss_cap reg)) };
     (ie3, p3, sz3) \<leftarrow> rtw_set_ie m 12 0 (length (bss_Ssid net)) (bss_Ssid net) 12;
     (ie4, p4, sz4) \<leftarrow> rtw_set_ie ie3 p3 1 (min ?n 8) (take (min ?n 8) rates) sz3;
     (ie5, p5, sz5) \<leftarrow> rtw_set_ie ie4 p4 3 1 [ucast (bss_DSConfig net)] sz4;
     (ie6, p6, sz6) \<leftarrow> rtw_set_ie ie5 p5 6 2 (take 2 (ulong_bytes (bss_ATIMWindow net))) sz5;
     (ie7, p7, sz7) \<leftarrow> (if ?n > 8 then rtw_set_ie ie6 p6 50 (?n - 8) (take (?n - 8) (drop 8 rates)) sz6 else Some (ie6, p6, sz6));
     Some (sz7, reg\<lparr>reg_dev_network := net\<lparr>bss_SupportedRates := rates, bss_IEs := ie7\<rparr>\<rparr>) }"
    unfolding rtw_generate_ie_def Let_def net_def [symmetric] rates_def [symmetric]
    by (simp add: rateset_len [of "ie_wireless_mode reg", folded rates_def] ibss_cap_def net_def [symmetric] r [unfolded One_nat_def] cong: if_cong)
  also have "\<dots> = map_option (\<lambda>(ies, p, sz). (sz, reg\<lparr>reg_dev_network := net\<lparr>bss_SupportedRates := rates, bss_IEs := ies\<rparr>\<rparr>))
      (set_ies ?m 12 12 (ibss_ies net rates ?n))"
    unfolding w ibss_ies_def using lens by (auto simp: map_option_case split: Option.bind_splits option.splits)
  finally show ?thesis .
qed


definition ibss_reg :: registry_priv where
  "ibss_reg = \<lparr>reg_wireless_mode = 11, reg_preamble = 3, reg_dev_network =
     \<lparr>bss_MacAddress = [2, 0, 0, 0, 0, 1], bss_Reserved0 = 0, bss_Ssid = [97, 98], bss_Privacy = 0, bss_Rssi = 0,
      bss_NetworkTypeInUse = 3, bss_BeaconPeriod = 100, bss_ATIMWindow = 0, bss_DSConfig = 6, bss_InfrastructureMode = 0,
      bss_SupportedRates = replicate 16 0, bss_SignalStrength = 0, bss_SignalQuality = 0, bss_IELength = 0,
      bss_IEs = replicate 768 0\<rparr>\<rparr>"


end
