(* ===== verification/TxHeader.thy ===== *)
theory TxHeader
  imports RecvPath Bss
begin

text \<open>
  The first half of the way of a packet to the air (\<open>core/rtw_xmit.c\<close>, \<open>include/wifi.h\<close>,
  \<open>include/rtw_xmit.h\<close>): the attributes a packet of the network stack gets (\<open>update_attrib\<close>), the
  MAC header (\<open>rtw_make_wlanhdr\<close>), the packet numbers and the LLC header.  A pointer into a
  memory is an offset; an access outside it is \<open>None\<close>.
\<close>

section \<open>Writing header fields\<close>

definition or16 :: "u16 \<Rightarrow> byte list \<Rightarrow> nat \<Rightarrow> byte list option" where
  "or16 x m p = do { w \<leftarrow> get_le16 m p; wr_slice m p (le16_bytes (w OR x)) }"

definition SetToDs :: "byte list \<Rightarrow> nat \<Rightarrow> byte list option" where "SetToDs = or16 0x0100"
definition SetFrDs :: "byte list \<Rightarrow> nat \<Rightarrow> byte list option" where "SetFrDs = or16 0x0200"
definition SetMFrag :: "byte list \<Rightarrow> nat \<Rightarrow> byte list option" where "SetMFrag = or16 0x0400"
definition SetMData :: "byte list \<Rightarrow> nat \<Rightarrow> byte list option" where "SetMData = or16 0x2000"
definition SetPrivacy :: "byte list \<Rightarrow> nat \<Rightarrow> byte list option" where "SetPrivacy = or16 0x4000"

definition ClearMFrag :: "byte list \<Rightarrow> nat \<Rightarrow> byte list option" where
  "ClearMFrag m p = do { w \<leftarrow> get_le16 m p; wr_slice m p (le16_bytes (w AND NOT 0x0400)) }"

definition SetFrameSubType :: "byte list \<Rightarrow> nat \<Rightarrow> byte \<Rightarrow> byte list option" where
  "SetFrameSubType m p subtype = do {
     w \<leftarrow> get_le16 m p; wr_slice m p (le16_bytes ((w AND NOT 0x00fc) OR ucast subtype)) }"

definition SetSeqNum :: "byte list \<Rightarrow> nat \<Rightarrow> u16 \<Rightarrow> byte list option" where
  "SetSeqNum m p num = do {
     w \<leftarrow> get_le16 m (p + 22); wr_slice m (p + 22) (le16_bytes ((w AND 0x000f) OR (0xfff0 AND push_bit 4 num))) }"

definition SetPriority :: "byte list \<Rightarrow> nat \<Rightarrow> nat \<Rightarrow> byte list option" where
  "SetPriority m p tid = or16 (of_nat tid AND 0xf) m p"

definition SetEOSP :: "byte list \<Rightarrow> nat \<Rightarrow> bool \<Rightarrow> byte list option" where
  "SetEOSP m p eosp = or16 (push_bit 4 (if eosp then 1 else 0)) m p"

definition SetAckpolicy :: "byte list \<Rightarrow> nat \<Rightarrow> nat \<Rightarrow> byte list option" where
  "SetAckpolicy m p ack = or16 (push_bit 5 (of_nat ack AND 3)) m p"

section \<open>Packet numbers\<close>

definition TSC :: "u64 \<Rightarrow> nat \<Rightarrow> byte" where
  "TSC pn k = ucast (drop_bit (8 * k) pn)"

text \<open>The macros write an IV and step the packet number; \<open>WEP_IV\<close> leaves the last four bytes.\<close>

definition WEP_IV :: "byte list \<Rightarrow> u64 \<Rightarrow> nat \<Rightarrow> byte list \<times> u64" where
  "WEP_IV iv pn keyidx =
     ([TSC pn 0, TSC pn 1, TSC pn 2, push_bit 6 (of_nat keyidx AND 3)] @ drop 4 iv,
      if pn = 0xffffff then 0 else pn + 1)"

definition TKIP_IV :: "u64 \<Rightarrow> nat \<Rightarrow> byte list \<times> u64" where
  "TKIP_IV pn keyidx =
     ([TSC pn 1, (TSC pn 1 OR 0x20) AND 0x7f, TSC pn 0, 0x20 OR push_bit 6 (of_nat keyidx AND 3),
       TSC pn 2, TSC pn 3, TSC pn 4, TSC pn 5],
      if pn = 0xffffffffffff then 0 else pn + 1)"

definition AES_IV :: "u64 \<Rightarrow> nat \<Rightarrow> byte list \<times> u64" where
  "AES_IV pn keyidx =
     ([TSC pn 0, TSC pn 1, 0, 0x20 OR push_bit 6 (of_nat keyidx AND 3),
       TSC pn 2, TSC pn 3, TSC pn 4, TSC pn 5],
      if pn = 0xffffffffffff then 0 else pn + 1)"

definition tx_iv :: "pkt_attrib \<Rightarrow> bool \<Rightarrow> u64 \<Rightarrow> byte list \<times> u64" where
  "tx_iv a bmcst pn =
     (case px_encrypt a of
        WEP40 \<Rightarrow> WEP_IV (px_iv a) pn (px_key_idx a)
      | WEP104 \<Rightarrow> WEP_IV (px_iv a) pn (px_key_idx a)
      | TKIP \<Rightarrow> TKIP_IV pn (if bmcst then px_key_idx a else 0)
      | AES \<Rightarrow> AES_IV pn (if bmcst then px_key_idx a else 0)
      | _ \<Rightarrow> (px_iv a, pn))"

section \<open>The LLC header\<close>

definition rtw_put_snap :: "byte list \<Rightarrow> nat \<Rightarrow> nat \<Rightarrow> (byte list \<times> nat) option" where
  "rtw_put_snap m p h_proto = do {
     let oui = (if h_proto = 0x8137 \<or> h_proto = 0x80f3 then [0x00, 0x00, 0xf8] else [0x00, 0x00, 0x00]);
     m1 \<leftarrow> wr_slice m p ([0xaa, 0xaa, 0x03] @ oui);
     m2 \<leftarrow> wr_slice m1 (p + 6) [of_nat (h_proto div 256), of_nat h_proto];
     Some (m2, 8) }"

section \<open>The attributes of a packet\<close>

definition update_attrib_phy_info :: "pkt_attrib \<Rightarrow> sta_info \<Rightarrow> pkt_attrib" where
  "update_attrib_phy_info a si =
     a\<lparr>px_mdata := False, px_eosp := False, px_triggered := False, px_qos_en := si_qos_option si,
       px_ht_en := hp_ht_option (si_htpriv si), px_raid := si_raid si, px_bwmode := hp_bwmode (si_htpriv si),
       px_ch_offset := hp_ch_offset (si_htpriv si), px_sgi := hp_sgi (si_htpriv si),
       px_ampdu_en := False, px_retry_ctrl := False\<rparr>"

definition qos_acm :: "byte \<Rightarrow> nat \<Rightarrow> nat" where
  "qos_acm acm priority =
     (if priority = 0 \<or> priority = 3 then (if bit acm 1 then 1 else priority)
      else if priority = 1 \<or> priority = 2 then priority
      else if priority = 4 \<or> priority = 5 then (if bit acm 2 then 0 else priority)
      else if priority = 6 \<or> priority = 7 then (if bit acm 3 then 5 else priority)
      else priority)"

text \<open>The second byte of the IP header is \<open>tos\<close>; of a shorter packet it is not set.\<close>

definition set_qos :: "byte list \<Rightarrow> pkt_attrib \<Rightarrow> pkt_attrib option" where
  "set_qos pkt a = do {
     up \<leftarrow> (if px_ether_type a = 0x0800 then map_option (\<lambda>tos. unat (drop_bit 5 tos)) (rd pkt 15)
           else if px_ether_type a = 0x888e then Some 7 else Some 0);
     Some (a\<lparr>px_priority := up, px_hdrlen := 26, px_subtype := WIFI_QOS_DATA_TYPE\<rparr>) }"

text \<open>A DHCP packet: more than 282 bytes behind the 24 bytes that are read, and its ports.\<close>

definition is_dhcp :: "byte list \<Rightarrow> bool" where
  "is_dhcp pkt \<longleftrightarrow> length pkt - 14 - 24 > 282 \<and>
     (pkt ! 35 = 68 \<and> pkt ! 37 = 67 \<or> pkt ! 35 = 67 \<and> pkt ! 37 = 68)"

definition tx_addresses :: "adapter \<Rightarrow> pkt_attrib \<Rightarrow> pkt_attrib" where
  "tx_addresses ad a =
     (if check_fwstate ad WIFI_ADHOC_STATE \<or> check_fwstate ad WIFI_ADHOC_MASTER_STATE
      then a\<lparr>px_ra := px_dst a, px_ta := eeprom_mac ad\<rparr>
      else if check_fwstate ad WIFI_STATION_STATE then a\<lparr>px_ra := cur_bssid ad, px_ta := eeprom_mac ad\<rparr>
      else if check_fwstate ad WIFI_AP_STATE then a\<lparr>px_ra := px_dst a, px_ta := cur_bssid ad\<rparr>
      else a)"

definition special_packet :: "pkt_attrib \<Rightarrow> adapter \<Rightarrow> adapter" where
  "special_packet a ad =
     (let ad1 = (if px_ether_type a = 0x888e \<or> px_dhcp_pkt a then request_of ad (ScanDeny 3000) else ad)
      in if px_ether_type a = 0x0806 \<or> px_ether_type a = 0x888e \<or> px_dhcp_pkt a
         then request_of ad1 LpsSpecialPacket else ad1)"

text \<open>The station entry the packet goes to; \<open>None\<close> drops it.\<close>

definition tx_station :: "adapter \<Rightarrow> pkt_attrib \<Rightarrow> nat option" where
  "tx_station ad a =
     (if IS_MCAST (px_ra a) then rtw_get_bcmc_stainfo (stapriv ad)
      else case rtw_get_stainfo (stapriv ad) (px_ra a) of None \<Rightarrow> None
           | Some p \<Rightarrow> if check_fwstate ad WIFI_AP_STATE \<and> si_state (sta_of ad p) AND FW_LINKED = 0 then None else Some p)"

text \<open>QoS: in the modes without an access point above, the station decides, else the BSS does.\<close>

definition tx_qos :: "adapter \<Rightarrow> sta_info \<Rightarrow> byte list \<Rightarrow> pkt_attrib \<Rightarrow> pkt_attrib option" where
  "tx_qos ad si pkt a =
     (if check_fwstate ad (WIFI_AP_STATE OR WIFI_ADHOC_STATE OR WIFI_ADHOC_MASTER_STATE)
      then (if si_qos_option si then set_qos pkt a else Some a)
      else if qos_option ad then do {
        a1 \<leftarrow> set_qos pkt a;
        Some (if acm_mask ad \<noteq> 0 then a1\<lparr>px_priority := qos_acm (acm_mask ad) (px_priority a1)\<rparr> else a1) }
      else Some a)"

text \<open>Cipher and key index; \<open>None\<close> says that the port is blocked for the packet.\<close>

definition tx_encrypt :: "adapter \<Rightarrow> sta_info \<Rightarrow> pkt_attrib \<Rightarrow> pkt_attrib option" where
  "tx_encrypt ad si a =
     (let sec = securitypriv ad; bmcast = IS_MCAST (px_ra a) in
      if si_ieee8021x_blocked si then
        (if px_ether_type a \<noteq> 0x888e \<and> \<not> check_fwstate ad WIFI_MP_STATE then None
         else Some (a\<lparr>px_encrypt := NO_PRIVACY\<rparr>))
      else
        let alg = GET_ENCRY_ALGO sec si (px_encrypt a) bmcast; auth = sec_dot11AuthAlgrthm sec in
        Some (a\<lparr>px_encrypt := alg,
                px_key_idx := (if auth = 0 \<or> auth = 1 \<or> auth = 3 then sec_PrivacyKeyIndex sec
                               else if auth = dot11AuthAlgrthm_8021X then (if bmcast then sec_GrpKeyid sec else 0)
                               else 0)\<rparr>))"

text \<open>
  \<open>update_attrib\<close>: the result says \<open>_SUCCESS\<close> or \<open>_FAIL\<close>.  A packet shorter than an Ethernet header
  is \<open>None\<close>: the header would be read from uninitialised memory.
\<close>

definition update_attrib :: "adapter \<Rightarrow> byte list \<Rightarrow> pkt_attrib \<Rightarrow> (nat \<times> pkt_attrib \<times> adapter) option" where
  "update_attrib ad pkt a0 =
     (if length pkt < 14 then None
      else
        let et = unat (pkt ! 12) * 256 + unat (pkt ! 13);
            a1 = tx_addresses ad (a0\<lparr>px_ether_type := et, px_dst := take 6 pkt, px_src := take 6 (drop 6 pkt), px_pctrl := False\<rparr>);
            a2 = a1\<lparr>px_pktlen := length pkt - 14, px_dhcp_pkt := (if et = 0x0800 then is_dhcp pkt else px_dhcp_pkt a1)\<rparr>;
            ad1 = special_packet a2 ad
        in case tx_station ad1 a2 of None \<Rightarrow> Some (FAIL, a2, ad1)
        | Some p \<Rightarrow>
            let si = sta_of ad1 p;
                a3 = a2\<lparr>px_mac_id := si_mac_id si, px_psta := Some p, px_ack_policy := 0, px_pkt_hdrlen := 14,
                        px_hdrlen := 24, px_subtype := WIFI_DATA_TYPE, px_priority := 0\<rparr>
            in do {
              a4 \<leftarrow> tx_qos ad1 si pkt a3;
              (case tx_encrypt ad1 si a4 of None \<Rightarrow> Some (FAIL, a4\<lparr>px_encrypt := NO_PRIVACY\<rparr>, ad1)
               | Some a5 \<Rightarrow>
                   let (iv_len, icv_len) = SET_ICE_IV_LEN (px_encrypt a5);
                       a6 = a5\<lparr>px_iv_len := iv_len, px_icv_len := icv_len\<rparr>;
                       sec = securitypriv ad1
                   in if px_encrypt a6 = TKIP \<and> \<not> sec_busetkipkey sec then Some (FAIL, a6, ad1)
                      else
                        let a7 = a6\<lparr>px_bswenc := (px_encrypt a6 \<noteq> NO_PRIVACY \<and> (sec_sw_encrypt sec \<or> \<not> sec_hw_decrypted sec))\<rparr>
                        in Some (SUCCESS, update_attrib_phy_info a7 si, ad1)) })"

section \<open>The MAC header\<close>

text \<open>The entry of the receiver, looked up if the attributes have none.\<close>

definition attr_sta :: "adapter \<Rightarrow> pkt_attrib \<Rightarrow> nat option" where
  "attr_sta ad a =
     (case px_psta a of Some p \<Rightarrow> Some p | None \<Rightarrow> rtw_get_stainfo (stapriv ad) (px_ra a))"

text \<open>
  Direction and addresses; the last component is \<open>qos_option\<close>.  \<open>None\<close> in the second place says that
  the state does not allow to send.
\<close>

definition hdr_addresses ::
  "adapter \<Rightarrow> sta_info \<Rightarrow> pkt_attrib \<Rightarrow> byte list \<Rightarrow> nat \<Rightarrow> (byte list \<times> bool option) option" where
  "hdr_addresses ad si a m p =
     (let put = (\<lambda>m a1 a2 a3. do { m1 \<leftarrow> wr_slice m (p + 4) a1; m2 \<leftarrow> wr_slice m1 (p + 10) a2; wr_slice m2 (p + 16) a3 }) in
      if check_fwstate ad WIFI_STATION_STATE then do {
        m1 \<leftarrow> SetToDs m p; m2 \<leftarrow> put m1 (cur_bssid ad) (px_ta a) (px_dst a); Some (m2, Some (qos_option ad)) }
      else if check_fwstate ad WIFI_AP_STATE then do {
        m1 \<leftarrow> SetFrDs m p; m2 \<leftarrow> put m1 (px_dst a) (cur_bssid ad) (px_src a); Some (m2, Some (si_qos_option si)) }
      else if check_fwstate ad WIFI_ADHOC_STATE \<or> check_fwstate ad WIFI_ADHOC_MASTER_STATE then do {
        m2 \<leftarrow> put m (px_dst a) (px_ta a) (cur_bssid ad); Some (m2, Some (si_qos_option si)) }
      else Some (m, None))"

definition put_qos_control :: "pkt_attrib \<Rightarrow> byte list \<Rightarrow> nat \<Rightarrow> byte list option" where
  "put_qos_control a m q = do {
     m1 \<leftarrow> (if px_priority a \<noteq> 0 then SetPriority m q (px_priority a) else Some m);
     m2 \<leftarrow> SetEOSP m1 q (px_eosp a);
     SetAckpolicy m2 q (px_ack_policy a) }"

text \<open>
  The sequence number and the choice of aggregation, with the station's state.  Only the
  numbers of a traffic identifier below 16 exist.
\<close>

definition next_seqnum :: "sta_info \<Rightarrow> nat \<Rightarrow> u16" where
  "next_seqnum si tid = (si_txseq_tid si tid + 1) AND 0xfff"

definition tx_ampdu :: "sta_info \<Rightarrow> pkt_attrib \<Rightarrow> u16 \<Rightarrow> bool \<times> sta_info" where
  "tx_ampdu si a seq =
     (let tid = px_priority a; ht = si_htpriv si;
          en = (px_ampdu_en a \<or> px_ht_en a \<and> hp_ampdu_enable ht \<and> bit (hp_agg_enable_bitmap ht) tid);
          tx_seq = si_BA_starting_seqctrl si (tid mod 16)
      in if \<not> en then (False, si)
         else if SN_LESS seq tx_seq then (False, si)
         else if SN_EQUAL seq tx_seq
         then (True, si\<lparr>si_BA_starting_seqctrl := (si_BA_starting_seqctrl si)(tid mod 16 := (tx_seq + 1) AND 0xfff)\<rparr>)
         else (True, si\<lparr>si_BA_starting_seqctrl := (si_BA_starting_seqctrl si)(tid mod 16 := (seq + 1) AND 0xfff)\<rparr>))"

definition wlanhdr_sta :: "adapter \<Rightarrow> pkt_attrib \<Rightarrow> nat option" where
  "wlanhdr_sta ad a =
     (case px_psta a of Some p \<Rightarrow> Some p
      | None \<Rightarrow> if IS_MCAST (px_ra a) then rtw_get_bcmc_stainfo (stapriv ad) else rtw_get_stainfo (stapriv ad) (px_ra a))"

definition rtw_make_wlanhdr ::
  "adapter \<Rightarrow> byte list \<Rightarrow> nat \<Rightarrow> pkt_attrib \<Rightarrow> (nat \<times> byte list \<times> pkt_attrib \<times> adapter) option" where
  "rtw_make_wlanhdr ad m p a =
     (case wlanhdr_sta ad a of None \<Rightarrow> Some (FAIL, m, a, ad)
      | Some st \<Rightarrow>
          let si = sta_of ad st in
          if si_state si AND FW_LINKED = 0 then Some (FAIL, m, a, ad)
          else do {
            m1 \<leftarrow> wr_slice m p (replicate 64 0);
            m2 \<leftarrow> SetFrameSubType m1 p (px_subtype a);
            if px_subtype a AND WIFI_DATA_TYPE = 0 then Some (SUCCESS, m2, a, ad)
            else do {
              (m3, qos) \<leftarrow> hdr_addresses ad si a m2 p;
              (case qos of None \<Rightarrow> Some (FAIL, m3, a, ad)
               | Some qos_opt \<Rightarrow> do {
                   m4 \<leftarrow> (if px_mdata a then SetMData m3 p else Some m3);
                   m5 \<leftarrow> (if px_encrypt a \<noteq> NO_PRIVACY then SetPrivacy m4 p else Some m4);
                   m6 \<leftarrow> (if qos_opt then put_qos_control a m5 (p + px_hdrlen a - 2) else Some m5);
                   let seq = next_seqnum si (px_priority a);
                   m7 \<leftarrow> SetSeqNum m6 p seq;
                   let (en, si1) = tx_ampdu (si\<lparr>si_txseq_tid := (si_txseq_tid si)(px_priority a := seq)\<rparr>) a seq;
                   Some (SUCCESS, m7, a\<lparr>px_seqnum := seq, px_ampdu_en := en\<rparr>, set_sta ad st si1) }) } })"

end
