(* ===== verification/TxFrame.thy ===== *)
theory TxFrame
  imports TxHeader
begin

text \<open>
  From a packet to the fragments of a frame in the transmit buffer (\<open>rtw_xmitframe_coalesce\<close> of
  \<open>core/rtw_xmit.c\<close>): header, IV, LLC header and payload of each fragment, the Michael code, the
  software ciphers, and the protection by RTS or CTS.  The memory starts at \<open>buf_addr\<close>; the rounding
  to multiples of four is one of addresses.
\<close>

definition TXDESC_OFFSET :: nat where "TXDESC_OFFSET = TXDESC_SIZE + PACKET_OFFSET_SZ"

section \<open>Fragments\<close>

text \<open>
  One turn of the loop: \<open>first\<close> says \<open>frg_inx = 0\<close>, \<open>rest\<close> is what is left of the packet, \<open>ms\<close> is
  \<open>mem_start\<close>.  The number of bytes asked for is unsigned, so a negative \<open>mpdu_len\<close> takes all.  The
  results are the memory, the attributes, the packet number, the place behind the fragment,
  \<open>mem_sz\<close> and the rest.
\<close>

definition frag_mpdu_len :: "nat \<Rightarrow> pkt_attrib \<Rightarrow> bool \<Rightarrow> int" where
  "frag_mpdu_len frag_len a first =
     int frag_len - 4 - int (px_hdrlen a) - int (px_iv_len a) - (if first then 8 else 0)
     - (if px_icv_len a > 0 \<and> px_bswenc a then int (px_icv_len a) else 0)"

definition put_iv ::
  "bool \<Rightarrow> pkt_attrib \<Rightarrow> u64 \<Rightarrow> byte list \<Rightarrow> nat \<Rightarrow> (byte list \<times> pkt_attrib \<times> u64) option" where
  "put_iv bmcst a pn m pf =
     (if px_iv_len a = 0 then Some (m, a, pn)
      else do {
        b \<leftarrow> rd_slice (fst (tx_iv a bmcst pn)) 0 (px_iv_len a);
        m1 \<leftarrow> wr_slice m pf b;
        Some (m1, a\<lparr>px_iv := fst (tx_iv a bmcst pn)\<rparr>, snd (tx_iv a bmcst pn)) })"

definition put_icv :: "pkt_attrib \<Rightarrow> byte list \<Rightarrow> nat \<Rightarrow> (byte list \<times> nat) option" where
  "put_icv a m pf =
     (if px_icv_len a > 0 \<and> px_bswenc a then do {
        c \<leftarrow> rd_slice (px_icv a) 0 (px_icv_len a);
        m1 \<leftarrow> wr_slice m pf c;
        Some (m1, pf + px_icv_len a) }
      else Some (m, pf))"

definition coalesce_frag ::
  "nat \<Rightarrow> bool \<Rightarrow> bool \<Rightarrow> pkt_attrib \<Rightarrow> u64 \<Rightarrow> byte list \<Rightarrow> nat \<Rightarrow> byte list \<Rightarrow>
   (byte list \<times> pkt_attrib \<times> u64 \<times> nat \<times> nat \<times> byte list) option" where
  "coalesce_frag frag_len bmcst first a pn rest ms m = do {
     m1 \<leftarrow> SetMFrag m ms;
     (m2, a1, pn1) \<leftarrow> put_iv bmcst a pn m1 (ms + px_hdrlen a);
     let pf1 = ms + px_hdrlen a + px_iv_len a;
     (m3, llc_sz) \<leftarrow> (if first then rtw_put_snap m2 pf1 (px_ether_type a) else Some (m2, 0));
     let chunk = take (if bmcst then px_pktlen a else nat (frag_mpdu_len frag_len a first mod 2 ^ 32)) rest;
     m4 \<leftarrow> wr_slice m3 (pf1 + llc_sz) chunk;
     (m5, pf4) \<leftarrow> put_icv a1 m4 (pf1 + llc_sz + length chunk);
     Some (m5, a1, pn1, pf4, length chunk, drop (length chunk) rest) }"

lemma wr_slice_len: "wr_slice m p b = Some m' \<Longrightarrow> length m' = length m"
  by (auto simp: wr_slice_def split: if_splits)

lemma or16_len: "or16 x m p = Some m' \<Longrightarrow> length m' = length m \<and> p + 2 \<le> length m"
  by (auto simp: or16_def get_le16_def rd_slice_def dest: wr_slice_len split: bind_splits if_splits)

lemma put_iv_len: "put_iv bmcst a pn m pf = Some (m', a', pn') \<Longrightarrow> length m' = length m"
  by (auto simp: put_iv_def dest: wr_slice_len split: if_splits bind_splits)

lemma rtw_put_snap_len: "rtw_put_snap m p h = Some (m', n) \<Longrightarrow> length m' = length m"
  by (auto simp: rtw_put_snap_def Let_def dest!: wr_slice_len split: bind_splits)

lemma put_icv_len: "put_icv a m pf = Some (m', pf') \<Longrightarrow> length m' = length m \<and> pf \<le> pf'"
  by (auto simp: put_icv_def dest: wr_slice_len split: if_splits bind_splits)

lemma coalesce_frag_len:
  assumes "coalesce_frag frag_len bmcst first a pn rest ms m = Some (m', a', pn', pf, n, rest')"
  shows "length m' = length m \<and> ms + 2 \<le> length m \<and> ms \<le> pf"
proof -
  let ?pf1 = "ms + px_hdrlen a + px_iv_len a"
  obtain m1 m2 m3 m4 a1 l c where steps: "SetMFrag m ms = Some m1" "put_iv bmcst a pn m1 (ms + px_hdrlen a) = Some (m2, a1, pn')"
      "(if first then rtw_put_snap m2 ?pf1 (px_ether_type a) else Some (m2, 0)) = Some (m3, l)"
      "wr_slice m3 (?pf1 + l) c = Some m4" "put_icv a1 m4 (?pf1 + l + length c) = Some (m', pf)"
    using assms unfolding coalesce_frag_def Let_def by (auto simp: bind_eq_Some_conv)
  have "length m3 = length m2" using steps(3) by (auto dest: rtw_put_snap_len split: if_splits)
  then show ?thesis
    using steps(1) put_iv_len [OF steps(2)] wr_slice_len [OF steps(4)] put_icv_len [OF steps(5)]
    by (auto simp: SetMFrag_def dest!: or16_len)
qed

text \<open>
  The loop.  \<open>nr_frags\<close> has eight bits.  The next fragment starts \<open>TXDESC_OFFSET\<close> behind the aligned
  end of this one and gets a copy of the header bytes at \<open>TXDESC_OFFSET\<close> of the buffer.
\<close>

function coalesce_loop ::
  "nat \<Rightarrow> nat \<Rightarrow> bool \<Rightarrow> pkt_attrib \<Rightarrow> u64 \<Rightarrow> nat \<Rightarrow> byte list \<Rightarrow> nat \<Rightarrow> byte list \<Rightarrow> (byte list \<times> pkt_attrib \<times> u64) option" where
  "coalesce_loop addr frag_len bmcst a pn frg_inx rest ms m =
     (case coalesce_frag frag_len bmcst (frg_inx = 0) a pn rest ms m of None \<Rightarrow> None
      | Some (m1, a1, pn1, pf, mem_sz, rest1) \<Rightarrow>
          if bmcst \<or> rest1 = [] then
            map_option (\<lambda>m2. (m2, a1\<lparr>px_nr_frags := (frg_inx + 1) mod 256,
                px_last_txcmdsz := px_hdrlen a + px_iv_len a + (if (frg_inx + 1) mod 256 = 1 then (if frg_inx = 0 then 8 else 0) else 0)
                  + (if px_bswenc a then px_icv_len a else 0) + mem_sz\<rparr>, pn1))
              (ClearMFrag m1 ms)
          else
            (case rd_slice m1 TXDESC_OFFSET (px_hdrlen a) of None \<Rightarrow> None
             | Some h \<Rightarrow>
                 (case wr_slice m1 (RND4 (addr + pf) - addr + TXDESC_OFFSET) h of None \<Rightarrow> None
                  | Some m2 \<Rightarrow> coalesce_loop addr frag_len bmcst a1 pn1 (frg_inx + 1) rest1
                                 (RND4 (addr + pf) - addr + TXDESC_OFFSET) m2)))"
  by pat_completeness auto

termination
proof (relation "measure (\<lambda>(addr, frag_len, bmcst, a, pn, frg_inx, rest, ms, m). length m - ms)", goal_cases)
  case (2 addr frag_len bmcst a pn frg_inx rest ms m x m1 y a1 z pn1 u pf v mem_sz rest1 h m2)
  then have "length m1 = length m \<and> ms + 2 \<le> length m \<and> ms \<le> pf" by (auto dest: coalesce_frag_len)
  moreover have "length m2 = length m1" using 2 by (auto dest: wr_slice_len)
  moreover have "pf \<le> RND4 (addr + pf) - addr" using RND4_ge [of "addr + pf"] by simp
  moreover have "0 < TXDESC_OFFSET" by (simp add: TXDESC_OFFSET_def TXDESC_SIZE_def)
  ultimately have "length m2 = length m" "ms < length m" "ms < RND4 (addr + pf) - addr + TXDESC_OFFSET" by linarith+
  then show ?case by simp
qed simp

declare coalesce_loop.simps [simp del]

section \<open>The Michael code\<close>

text \<open>
  The loop over the fragments: \<open>n\<close> are left, so \<open>n = 1\<close> is the last one.  A negative length would be
  taken for a huge one.
\<close>

fun addmic_loop ::
  "nat \<Rightarrow> nat \<Rightarrow> pkt_attrib \<Rightarrow> byte list \<Rightarrow> nat \<Rightarrow> nat \<Rightarrow> mic_data \<Rightarrow> (mic_data \<times> nat) option" where
  "addmic_loop addr frag_len a m 0 payload d = Some (d, payload)"
| "addmic_loop addr frag_len a m (Suc n) payload d =
     (let pl = RND4 (addr + payload) - addr + px_hdrlen a + px_iv_len a;
          len = (if n = 0 then int (px_last_txcmdsz a) else int frag_len) - int (px_hdrlen a) - int (px_iv_len a)
                - (if px_bswenc a then int (px_icv_len a) else 0)
      in if len < 0 then None
         else do {
           b \<leftarrow> rd_slice m pl (nat len);
           addmic_loop addr frag_len a m n (if n = 0 then pl + nat len else pl + nat len + px_icv_len a) (rtw_secmicappend d b) })"

definition xmitframe_addmic ::
  "adapter \<Rightarrow> pkt_attrib \<Rightarrow> nat \<Rightarrow> xmit_buf \<Rightarrow> (nat \<times> pkt_attrib \<times> xmit_buf) option" where
  "xmitframe_addmic ad a pkt_offset xb =
     (case attr_sta ad a of None \<Rightarrow> Some (FAIL, a, xb)
      | Some p \<Rightarrow>
          if si_state (sta_of ad p) AND FW_LINKED = 0 then Some (FAIL, a, xb)
          else if px_encrypt a \<noteq> TKIP then Some (SUCCESS, a, xb)
          else
            let sec = securitypriv ad; pf = first_pframe pkt_offset; m = xb_mem xb;
                key = (if IS_MCAST (px_ra a) then sec_Grptxmickey sec (sec_GrpKeyid sec) else si_tkiptxmickey (sta_of ad p))
            in if key = replicate 16 0 then Some (FAIL, a, xb)
               else do {
                 hd \<leftarrow> rd_slice m pf 30;
                 let d = rtw_secmicappend (rtw_secmicsetkey zero_mic key)
                           (tkip_pseudo_header hd (if px_qos_en a then of_nat (px_priority a) else 0));
                 (d1, payload) \<leftarrow> addmic_loop (xb_addr xb) (xp_frag_len (xmitpriv ad)) a m (px_nr_frags a) pf d;
                 (mic, _) \<leftarrow> rtw_secgetmic d1;
                 m1 \<leftarrow> wr_slice m payload mic;
                 Some (SUCCESS, a\<lparr>px_last_txcmdsz := px_last_txcmdsz a + 8\<rparr>, xb\<lparr>xb_mem := m1\<rparr>) })"

section \<open>Ciphers\<close>

text \<open>The results of the ciphers are not looked at.\<close>

definition xmitframe_swencrypt :: "adapter \<Rightarrow> pkt_attrib \<Rightarrow> nat \<Rightarrow> xmit_buf \<Rightarrow> xmit_buf option" where
  "xmitframe_swencrypt ad a pkt_offset xb =
     (if \<not> px_bswenc a then Some xb
      else case px_encrypt a of
          WEP40 \<Rightarrow> map_option the (rtw_wep_encrypt (securitypriv ad) (xp_frag_len (xmitpriv ad)) a pkt_offset (Some xb))
        | WEP104 \<Rightarrow> map_option the (rtw_wep_encrypt (securitypriv ad) (xp_frag_len (xmitpriv ad)) a pkt_offset (Some xb))
        | TKIP \<Rightarrow> map_option (the \<circ> snd) (rtw_tkip_encrypt ad a pkt_offset (Some xb))
        | AES \<Rightarrow> map_option (the \<circ> snd) (rtw_aes_encrypt ad a pkt_offset (Some xb))
        | _ \<Rightarrow> Some xb)"

section \<open>Protection\<close>

definition NONE_VCS :: nat where "NONE_VCS = 0"
definition RTS_CTS :: nat where "RTS_CTS = 1"
definition CTS_TO_SELF :: nat where "CTS_TO_SELF = 2"
definition atherosAP :: nat where "atherosAP = 0"

definition erp_vcs :: "sta_info \<Rightarrow> nat option" where
  "erp_vcs si = (if si_rtsen si then Some RTS_CTS else if si_cts2self si then Some CTS_TO_SELF else None)"

definition update_attrib_vcs_info :: "adapter \<Rightarrow> pkt_attrib \<Rightarrow> pkt_attrib" where
  "update_attrib_vcs_info ad a =
     (case attr_sta ad a of None \<Rightarrow> a
      | Some p \<Rightarrow>
          let si = sta_of ad p;
              sz = (if px_nr_frags a \<noteq> 1 then xp_frag_len (xmitpriv ad) else px_last_txcmdsz a);
              op = HT_protection ad
          in if si_state si AND FW_LINKED = 0 then a
             else a\<lparr>px_vcs_mode :=
               (if cur_wireless_mode ad < WIRELESS_11_24N \<or> wifi_spec ad then
                  (if sz > rts_thresh ad then RTS_CTS
                   else case erp_vcs si of Some v \<Rightarrow> v | None \<Rightarrow> NONE_VCS)
                else if assoc_AP_vendor ad = atherosAP \<and> px_ampdu_en a \<and> sec_dot11PrivacyAlgrthm (securitypriv ad) = AES
                then CTS_TO_SELF
                else case erp_vcs si of Some v \<Rightarrow> v
                | None \<Rightarrow>
                    if px_ht_en a \<and> (cur_bwmode ad \<noteq> 0 \<and> (op = 2 \<or> op = 3) \<or> cur_bwmode ad = 0 \<and> op = 3) then RTS_CTS
                    else if sz > rts_thresh ad then RTS_CTS
                    else if px_ampdu_en a then RTS_CTS else NONE_VCS)\<rparr>)"

section \<open>The whole frame\<close>

definition set_txpn :: "adapter \<Rightarrow> nat \<Rightarrow> u64 \<Rightarrow> adapter" where
  "set_txpn ad p pn = set_sta ad p ((sta_of ad p)\<lparr>si_dot11txpn := pn\<rparr>)"

text \<open>\<open>None\<close> for the buffer is a null pointer.\<close>

definition rtw_xmitframe_coalesce ::
  "adapter \<Rightarrow> byte list \<Rightarrow> pkt_attrib \<Rightarrow> nat \<Rightarrow> xmit_buf option \<Rightarrow> (nat \<times> pkt_attrib \<times> xmit_buf option \<times> adapter) option" where
  "rtw_xmitframe_coalesce ad pkt a pkt_offset buf =
     (case attr_sta ad a of None \<Rightarrow> Some (FAIL, a, buf, ad)
      | Some p \<Rightarrow>
          if si_state (sta_of ad p) AND FW_LINKED = 0 then Some (FAIL, a, buf, ad)
          else case buf of None \<Rightarrow> Some (FAIL, a, buf, ad)
          | Some xb \<Rightarrow>
              let bmcst = IS_MCAST (px_ra a); ms = first_pframe pkt_offset in do {
                (res, m1, a1, ad1) \<leftarrow> rtw_make_wlanhdr ad (xb_mem xb) ms a;
                if res = FAIL then Some (FAIL, a1, Some (xb\<lparr>xb_mem := m1\<rparr>), ad1)
                else do {
                  (m2, a2, pn) \<leftarrow> coalesce_loop (xb_addr xb) (xp_frag_len (xmitpriv ad1)) bmcst a1 (si_dot11txpn (sta_of ad1 p)) 0
                                    (drop (px_pkt_hdrlen a1) pkt) ms m1;
                  let ad2 = set_txpn ad1 p pn;
                  (res2, a3, xb3) \<leftarrow> xmitframe_addmic ad2 a2 pkt_offset (xb\<lparr>xb_mem := m2\<rparr>);
                  if res2 = FAIL then Some (FAIL, a3, Some xb3, ad2)
                  else do {
                    xb4 \<leftarrow> xmitframe_swencrypt ad2 a3 pkt_offset xb3;
                    Some (SUCCESS, if bmcst then a3\<lparr>px_vcs_mode := NONE_VCS\<rparr> else update_attrib_vcs_info ad2 a3, Some xb4, ad2) } } })"

definition rtw_calculate_wlan_pkt_size_by_attribue :: "pkt_attrib \<Rightarrow> nat" where
  "rtw_calculate_wlan_pkt_size_by_attribue a =
     px_hdrlen a + px_iv_len a + 8 + px_pktlen a + (if px_encrypt a = TKIP then 8 else 0) + px_icv_len a"

end
