(* ===== verification/TxProofs.thy ===== *)
theory TxProofs
  imports TxFrame
begin

text \<open>
  What the transmit functions leave in the buffer: the header \<open>rtw_make_wlanhdr\<close> writes, and the
  bytes of a fragment.
\<close>

section \<open>Memory in parts\<close>

lemma wr_at: "length pre = p \<Longrightarrow> length b \<le> length x \<Longrightarrow> wr_slice (pre @ x) p b = Some (pre @ b @ drop (length b) x)"
  by (auto simp: wr_slice_def)

lemma wr_same: "length pre = p \<Longrightarrow> length b = length x \<Longrightarrow> wr_slice (pre @ x @ post) p b = Some (pre @ b @ post)"
  by (auto simp: wr_slice_def)

lemma or16_at: "length pre = p \<Longrightarrow> or16 x (pre @ le16_bytes w @ post) p = Some (pre @ le16_bytes (w OR x) @ post)"
  by (simp add: or16_def get_le16_bytes wr_same)

lemma ClearMFrag_at:
  "length pre = p \<Longrightarrow> ClearMFrag (pre @ le16_bytes w @ post) p = Some (pre @ le16_bytes (w AND NOT 0x0400) @ post)"
  by (simp add: ClearMFrag_def get_le16_bytes wr_same)

section \<open>The header\<close>

definition zero6 :: mac where "zero6 = replicate 6 0"

lemma zero_header: "replicate 64 (0 :: byte) = hdr3 0 0 zero6 zero6 zero6 0 @ le16_bytes 0 @ replicate 38 0"
  by (simp add: hdr3_def le16_bytes_def zero6_def numeral_eq_Suc)

lemma length_hdr3: "is_mac a1 \<Longrightarrow> is_mac a2 \<Longrightarrow> is_mac a3 \<Longrightarrow> length (hdr3 fc d a1 a2 a3 sc) = 24"
  by (simp add: hdr3_def is_mac_def)

lemma is_mac_zero6 [simp]: "is_mac zero6"
  by (simp add: is_mac_def zero6_def)

lemma or16_hdr3: "length pre = p \<Longrightarrow> or16 x (pre @ hdr3 fc d a1 a2 a3 sc @ post) p = Some (pre @ hdr3 (fc OR x) d a1 a2 a3 sc @ post)"
  using or16_at [of pre p x fc "le16_bytes d @ a1 @ a2 @ a3 @ le16_bytes sc @ post"] by (simp add: hdr3_def)

lemma SetFrameSubType_hdr3:
  "length pre = p \<Longrightarrow> SetFrameSubType (pre @ hdr3 fc d a1 a2 a3 sc @ post) p t =
     Some (pre @ hdr3 ((fc AND NOT 0x00fc) OR ucast t) d a1 a2 a3 sc @ post)"
  using get_le16_bytes [of pre p fc "le16_bytes d @ a1 @ a2 @ a3 @ le16_bytes sc @ post"]
    wr_same [of pre p "le16_bytes ((fc AND NOT 0x00fc) OR ucast t)" "le16_bytes fc" "le16_bytes d @ a1 @ a2 @ a3 @ le16_bytes sc @ post"]
  by (simp add: SetFrameSubType_def hdr3_def)

lemma put_addresses_hdr3:
  assumes "length pre = p" and "is_mac a1" and "is_mac a2" and "is_mac a3" and "is_mac b1" and "is_mac b2" and "is_mac b3"
  shows "do { m1 \<leftarrow> wr_slice (pre @ hdr3 fc d a1 a2 a3 sc @ post) (p + 4) b1; m2 \<leftarrow> wr_slice m1 (p + 10) b2; wr_slice m2 (p + 16) b3 } =
    Some (pre @ hdr3 fc d b1 b2 b3 sc @ post)"
proof -
  have "wr_slice (pre @ hdr3 fc d a1 a2 a3 sc @ post) (p + 4) b1 = Some (pre @ hdr3 fc d b1 a2 a3 sc @ post)"
    using wr_same [of "pre @ le16_bytes fc @ le16_bytes d" "p + 4" b1 a1 "a2 @ a3 @ le16_bytes sc @ post"] assms
    by (simp add: hdr3_def is_mac_def)
  moreover have "wr_slice (pre @ hdr3 fc d b1 a2 a3 sc @ post) (p + 10) b2 = Some (pre @ hdr3 fc d b1 b2 a3 sc @ post)"
    using wr_same [of "pre @ le16_bytes fc @ le16_bytes d @ b1" "p + 10" b2 a2 "a3 @ le16_bytes sc @ post"] assms
    by (simp add: hdr3_def is_mac_def)
  moreover have "wr_slice (pre @ hdr3 fc d b1 b2 a3 sc @ post) (p + 16) b3 = Some (pre @ hdr3 fc d b1 b2 b3 sc @ post)"
    using wr_same [of "pre @ le16_bytes fc @ le16_bytes d @ b1 @ b2" "p + 16" b3 a3 "le16_bytes sc @ post"] assms
    by (simp add: hdr3_def is_mac_def)
  ultimately show ?thesis by simp
qed

lemma SetSeqNum_hdr3:
  assumes "length pre = p" and "is_mac a1" and "is_mac a2" and "is_mac a3"
  shows "SetSeqNum (pre @ hdr3 fc d a1 a2 a3 sc @ post) p num =
    Some (pre @ hdr3 fc d a1 a2 a3 ((sc AND 0x000f) OR (0xfff0 AND push_bit 4 num)) @ post)"
  using get_le16_bytes [of "pre @ le16_bytes fc @ le16_bytes d @ a1 @ a2 @ a3" "p + 22" sc post]
    wr_same [of "pre @ le16_bytes fc @ le16_bytes d @ a1 @ a2 @ a3" "p + 22" _ "le16_bytes sc" post] assms
  by (simp add: SetSeqNum_def hdr3_def is_mac_def)

lemma SetPriority_at:
  "length pre = q \<Longrightarrow> (if t \<noteq> 0 then SetPriority (pre @ le16_bytes 0 @ post) q t else Some (pre @ le16_bytes 0 @ post)) =
     Some (pre @ le16_bytes (of_nat t AND 0xf) @ post)"
  by (simp add: SetPriority_def or16_at)

definition tx_qc :: "pkt_attrib \<Rightarrow> u16" where
  "tx_qc a = (of_nat (px_priority a) AND 0xf) OR push_bit 4 (if px_eosp a then 1 else 0) OR push_bit 5 (of_nat (px_ack_policy a) AND 3)"

lemma put_qos_control_at:
  assumes q: "length pre = q"
  shows "put_qos_control a (pre @ le16_bytes 0 @ post) q = Some (pre @ le16_bytes (tx_qc a) @ post)"
  unfolding put_qos_control_def SetPriority_at [OF q] SetEOSP_def SetAckpolicy_def bind.bind_lunit tx_qc_def
  by (simp only: or16_at [OF q] bind.bind_lunit or.assoc)

text \<open>The fields of the header, as the modes of the interface and the attributes determine them.\<close>

datatype tx_mode = ToAp | FromAp | Adhoc

definition tx_mode :: "adapter \<Rightarrow> tx_mode option" where
  "tx_mode ad = (if check_fwstate ad WIFI_STATION_STATE then Some ToAp else if check_fwstate ad WIFI_AP_STATE then Some FromAp
     else if check_fwstate ad WIFI_ADHOC_STATE \<or> check_fwstate ad WIFI_ADHOC_MASTER_STATE then Some Adhoc else None)"

definition tx_fc :: "tx_mode \<Rightarrow> pkt_attrib \<Rightarrow> u16" where
  "tx_fc md a = ucast (px_subtype a) OR (case md of ToAp \<Rightarrow> 0x0100 | FromAp \<Rightarrow> 0x0200 | Adhoc \<Rightarrow> 0)
     OR (if px_mdata a then 0x2000 else 0) OR (if px_encrypt a \<noteq> NO_PRIVACY then 0x4000 else 0)"

fun tx_addrs :: "tx_mode \<Rightarrow> adapter \<Rightarrow> pkt_attrib \<Rightarrow> mac \<times> mac \<times> mac" where
  "tx_addrs ToAp ad a = (cur_bssid ad, px_ta a, px_dst a)"
| "tx_addrs FromAp ad a = (px_dst a, cur_bssid ad, px_src a)"
| "tx_addrs Adhoc ad a = (px_dst a, px_ta a, cur_bssid ad)"

fun tx_is_qos :: "tx_mode \<Rightarrow> adapter \<Rightarrow> sta_info \<Rightarrow> bool" where
  "tx_is_qos ToAp ad si = qos_option ad"
| "tx_is_qos FromAp ad si = si_qos_option si"
| "tx_is_qos Adhoc ad si = si_qos_option si"

definition tx_hdr :: "tx_mode \<Rightarrow> adapter \<Rightarrow> sta_info \<Rightarrow> pkt_attrib \<Rightarrow> u16 \<Rightarrow> byte list" where
  "tx_hdr md ad si a seq =
     (case tx_addrs md ad a of (a1, a2, a3) \<Rightarrow>
        hdr3 (tx_fc md a) 0 a1 a2 a3 (push_bit 4 seq) @ (if tx_is_qos md ad si then le16_bytes (tx_qc a) else []))"

text \<open>The attributes fit: addresses, data subtype, and a header length with QoS control or not.\<close>

definition tx_ok :: "tx_mode \<Rightarrow> adapter \<Rightarrow> sta_info \<Rightarrow> pkt_attrib \<Rightarrow> bool" where
  "tx_ok md ad si a \<longleftrightarrow> tx_mode ad = Some md \<and> is_mac (cur_bssid ad) \<and> is_mac (px_ta a) \<and> is_mac (px_dst a) \<and> is_mac (px_src a) \<and>
     px_subtype a AND WIFI_DATA_TYPE \<noteq> 0 \<and> px_hdrlen a = (if tx_is_qos md ad si then 26 else 24)"

lemma tx_addrs_mac: "tx_ok md ad si a \<Longrightarrow> tx_addrs md ad a = (a1, a2, a3) \<Longrightarrow> is_mac a1 \<and> is_mac a2 \<and> is_mac a3"
  by (cases md) (auto simp: tx_ok_def)

lemma length_tx_hdr: "tx_ok md ad si a \<Longrightarrow> length (tx_hdr md ad si a seq) = px_hdrlen a"
proof -
  assume ok: "tx_ok md ad si a"
  obtain a1 a2 a3 where adr: "tx_addrs md ad a = (a1, a2, a3)" by (rule prod_cases3)
  have "length (tx_hdr md ad si a seq) = 24 + (if tx_is_qos md ad si then 2 else 0)"
    using tx_addrs_mac [OF ok adr] by (simp add: tx_hdr_def adr length_hdr3)
  then show ?thesis using ok by (simp add: tx_ok_def)
qed

lemma hdr_addresses_mode:
  assumes "tx_mode ad = Some md" and "tx_addrs md ad a = (a1, a2, a3)"
  shows "hdr_addresses ad si a m p = do {
       m0 \<leftarrow> (case md of ToAp \<Rightarrow> SetToDs m p | FromAp \<Rightarrow> SetFrDs m p | Adhoc \<Rightarrow> Some m);
       m' \<leftarrow> do { m1 \<leftarrow> wr_slice m0 (p + 4) a1; m2 \<leftarrow> wr_slice m1 (p + 10) a2; wr_slice m2 (p + 16) a3 };
       Some (m', Some (tx_is_qos md ad si)) }"
proof (cases md)
  case ToAp
  then have c: "check_fwstate ad WIFI_STATION_STATE" using assms(1) by (simp add: tx_mode_def split: if_splits)
  from ToAp assms(2) have e: "a1 = cur_bssid ad" "a2 = px_ta a" "a3 = px_dst a" by simp_all
  show ?thesis unfolding ToAp e hdr_addresses_def by (simp add: c)
next
  case FromAp
  then have c: "\<not> check_fwstate ad WIFI_STATION_STATE" "check_fwstate ad WIFI_AP_STATE"
    using assms(1) by (simp_all add: tx_mode_def split: if_splits)
  from FromAp assms(2) have e: "a1 = px_dst a" "a2 = cur_bssid ad" "a3 = px_src a" by simp_all
  show ?thesis unfolding FromAp e hdr_addresses_def by (simp add: c)
next
  case Adhoc
  then have c: "\<not> check_fwstate ad WIFI_STATION_STATE" "\<not> check_fwstate ad WIFI_AP_STATE"
      "check_fwstate ad WIFI_ADHOC_STATE \<or> check_fwstate ad WIFI_ADHOC_MASTER_STATE"
    using assms(1) by (auto simp: tx_mode_def split: if_splits)
  from Adhoc assms(2) have e: "a1 = px_dst a" "a2 = px_ta a" "a3 = cur_bssid ad" by simp_all
  show ?thesis unfolding Adhoc e hdr_addresses_def using c by simp
qed

lemma hdr_addresses_hdr3:
  assumes ok: "tx_ok md ad si a" and p: "length pre = p" and adr: "tx_addrs md ad a = (a1, a2, a3)"
  shows "hdr_addresses ad si a (pre @ hdr3 fc d zero6 zero6 zero6 sc @ post) p =
    Some (pre @ hdr3 (fc OR (case md of ToAp \<Rightarrow> 0x0100 | FromAp \<Rightarrow> 0x0200 | Adhoc \<Rightarrow> 0)) d a1 a2 a3 sc @ post, Some (tx_is_qos md ad si))"
proof -
  have mode: "tx_mode ad = Some md" using ok by (simp add: tx_ok_def)
  note macs = tx_addrs_mac [OF ok adr]
  let ?dir = "(case md of ToAp \<Rightarrow> 0x0100 | FromAp \<Rightarrow> 0x0200 | Adhoc \<Rightarrow> 0) :: u16"
  have dir: "(case md of ToAp \<Rightarrow> SetToDs (pre @ hdr3 fc d zero6 zero6 zero6 sc @ post) p
      | FromAp \<Rightarrow> SetFrDs (pre @ hdr3 fc d zero6 zero6 zero6 sc @ post) p | Adhoc \<Rightarrow> Some (pre @ hdr3 fc d zero6 zero6 zero6 sc @ post)) =
    Some (pre @ hdr3 (fc OR ?dir) d zero6 zero6 zero6 sc @ post)"
    by (cases md) (simp_all add: SetToDs_def SetFrDs_def or16_hdr3 [OF p])
  have put: "do { m1 \<leftarrow> wr_slice (pre @ hdr3 (fc OR ?dir) d zero6 zero6 zero6 sc @ post) (p + 4) a1; m2 \<leftarrow> wr_slice m1 (p + 10) a2; wr_slice m2 (p + 16) a3 } =
    Some (pre @ hdr3 (fc OR ?dir) d a1 a2 a3 sc @ post)"
    using macs by (intro put_addresses_hdr3 p) auto
  show ?thesis unfolding hdr_addresses_mode [OF mode adr] dir bind.bind_lunit put ..
qed

lemma seqnum_field: "(0 AND 0x000f) OR (0xfff0 AND push_bit 4 num) = (push_bit 4 num :: u16)"
proof -
  have m: "(0xfff0 :: u16) = push_bit 4 (mask 12)" by (simp add: mask_eq_exp_minus_1)
  show ?thesis unfolding m by (rule bit_word_eqI) (auto simp: bit_simps)
qed

lemma make_wlanhdr_writes:
  assumes ok: "tx_ok md ad si a" and st: "wlanhdr_sta ad a = Some st" "si = sta_of ad st" "si_state si AND FW_LINKED \<noteq> 0"
    and m: "m = pre @ old @ post" "length pre = p" "length old = 64"
  defines "seq \<equiv> next_seqnum si (px_priority a)"
  defines "amp \<equiv> tx_ampdu (si\<lparr>si_txseq_tid := (si_txseq_tid si)(px_priority a := seq)\<rparr>) a seq"
  shows "rtw_make_wlanhdr ad m p a =
    Some (SUCCESS, pre @ tx_hdr md ad si a seq @ replicate (64 - px_hdrlen a) 0 @ post,
          a\<lparr>px_seqnum := seq, px_ampdu_en := fst amp\<rparr>, set_sta ad st (snd amp))"
proof -
  obtain a1 a2 a3 where adr: "tx_addrs md ad a = (a1, a2, a3)" by (cases "tx_addrs md ad a")
  note macs = tx_addrs_mac [OF ok adr]
  define dir :: u16 where "dir = (case md of ToAp \<Rightarrow> 0x0100 | FromAp \<Rightarrow> 0x0200 | Adhoc \<Rightarrow> 0)"
  define fc2 :: u16 where "fc2 = ucast (px_subtype a)"
  have m1: "wr_slice m p (replicate 64 0) = Some (pre @ hdr3 0 0 zero6 zero6 zero6 0 @ le16_bytes 0 @ replicate 38 0 @ post)"
  proof -
    have w: "wr_slice (pre @ old @ post) p (replicate 64 0) = Some (pre @ replicate 64 0 @ post)"
      using wr_same [OF m(2), of "replicate 64 0" old post] m(3) by simp
    show ?thesis unfolding m(1) w unfolding zero_header append_assoc ..
  qed
  have m2: "SetFrameSubType (pre @ hdr3 0 0 zero6 zero6 zero6 0 @ le16_bytes 0 @ replicate 38 0 @ post) p (px_subtype a) =
      Some (pre @ hdr3 fc2 0 zero6 zero6 zero6 0 @ le16_bytes 0 @ replicate 38 0 @ post)"
    using SetFrameSubType_hdr3 [OF m(2)] by (simp add: fc2_def)
  have m3: "hdr_addresses ad si a (pre @ hdr3 fc2 0 zero6 zero6 zero6 0 @ le16_bytes 0 @ replicate 38 0 @ post) p =
      Some (pre @ hdr3 (fc2 OR dir) 0 a1 a2 a3 0 @ le16_bytes 0 @ replicate 38 0 @ post, Some (tx_is_qos md ad si))"
    using hdr_addresses_hdr3 [OF ok m(2) adr] by (simp add: dir_def)
  have m45: "do { m4 \<leftarrow> (if px_mdata a then SetMData (pre @ hdr3 (fc2 OR dir) 0 a1 a2 a3 0 @ le16_bytes 0 @ replicate 38 0 @ post) p
        else Some (pre @ hdr3 (fc2 OR dir) 0 a1 a2 a3 0 @ le16_bytes 0 @ replicate 38 0 @ post));
      if px_encrypt a \<noteq> NO_PRIVACY then SetPrivacy m4 p else Some m4 } =
    Some (pre @ hdr3 (tx_fc md a) 0 a1 a2 a3 0 @ le16_bytes 0 @ replicate 38 0 @ post)"
    by (simp add: SetMData_def SetPrivacy_def or16_hdr3 [OF m(2)] tx_fc_def fc2_def dir_def or.assoc)
  define qb where "qb = (if tx_is_qos md ad si then le16_bytes (tx_qc a) else le16_bytes 0)"
  have m6: "(if tx_is_qos md ad si then put_qos_control a (pre @ hdr3 (tx_fc md a) 0 a1 a2 a3 0 @ le16_bytes 0 @ replicate 38 0 @ post) (p + px_hdrlen a - 2)
      else Some (pre @ hdr3 (tx_fc md a) 0 a1 a2 a3 0 @ le16_bytes 0 @ replicate 38 0 @ post)) =
    Some (pre @ hdr3 (tx_fc md a) 0 a1 a2 a3 0 @ qb @ replicate 38 0 @ post)"
    using put_qos_control_at [of "pre @ hdr3 (tx_fc md a) 0 a1 a2 a3 0" "p + 24" a "replicate 38 0 @ post"] m(2) macs ok
    by (auto simp: qb_def length_hdr3 tx_ok_def add.commute)
  have m7: "SetSeqNum (pre @ hdr3 (tx_fc md a) 0 a1 a2 a3 0 @ qb @ replicate 38 0 @ post) p seq =
      Some (pre @ hdr3 (tx_fc md a) 0 a1 a2 a3 (push_bit 4 seq) @ qb @ replicate 38 0 @ post)"
    using SetSeqNum_hdr3 [OF m(2), of a1 a2 a3 "tx_fc md a" 0 0] macs seqnum_field by simp
  have r: "qb @ replicate 38 0 = (if tx_is_qos md ad si then le16_bytes (tx_qc a) else []) @ replicate (64 - px_hdrlen a) 0"
    using ok by (simp add: qb_def tx_ok_def le16_bytes_def numeral_eq_Suc)
  have H: "pre @ hdr3 (tx_fc md a) 0 a1 a2 a3 (push_bit 4 seq) @ qb @ replicate 38 0 @ post =
      pre @ tx_hdr md ad si a seq @ replicate (64 - px_hdrlen a) 0 @ post"
    using r by (simp add: tx_hdr_def adr)
  have sub: "px_subtype a AND WIFI_DATA_TYPE \<noteq> 0" using ok by (simp add: tx_ok_def)
  have "rtw_make_wlanhdr ad m p a =
    do { m4 \<leftarrow> (if px_mdata a then SetMData (pre @ hdr3 (fc2 OR dir) 0 a1 a2 a3 0 @ le16_bytes 0 @ replicate 38 0 @ post) p
           else Some (pre @ hdr3 (fc2 OR dir) 0 a1 a2 a3 0 @ le16_bytes 0 @ replicate 38 0 @ post));
         m5 \<leftarrow> (if px_encrypt a \<noteq> NO_PRIVACY then SetPrivacy m4 p else Some m4);
         m6 \<leftarrow> (if tx_is_qos md ad si then put_qos_control a m5 (p + px_hdrlen a - 2) else Some m5);
         m7 \<leftarrow> SetSeqNum m6 p seq;
         Some (SUCCESS, m7, a\<lparr>px_seqnum := seq, px_ampdu_en := fst amp\<rparr>, set_sta ad st (snd amp)) }"
    using st sub m1 m2 m3 by (simp add: rtw_make_wlanhdr_def Let_def seq_def amp_def case_prod_unfold)
  also have "\<dots> = Some (SUCCESS, pre @ hdr3 (tx_fc md a) 0 a1 a2 a3 (push_bit 4 seq) @ qb @ replicate 38 0 @ post,
          a\<lparr>px_seqnum := seq, px_ampdu_en := fst amp\<rparr>, set_sta ad st (snd amp))"
    using m45 m6 m7 by (auto simp: bind_eq_Some_conv)
  finally show ?thesis unfolding H .
qed

end
