(* ===== verification/TxTheorems.thy ===== *)
theory TxTheorems
  imports TxProofs RecvTheorems
begin

text \<open>
  Properties of the way of a packet to the air: the bytes of a frame, the station that receives
  them, sequence numbers, packet numbers and fragments.
\<close>

section \<open>One fragment\<close>

text \<open>The parts of a fragment behind its header.\<close>

definition snap_hdr :: "nat \<Rightarrow> byte list" where
  "snap_hdr et = [0xaa, 0xaa, 0x03] @ (if et = 0x8137 \<or> et = 0x80f3 then [0x00, 0x00, 0xf8] else [0x00, 0x00, 0x00])
     @ [of_nat (et div 256), of_nat et]"

definition frag_iv :: "pkt_attrib \<Rightarrow> bool \<Rightarrow> u64 \<Rightarrow> byte list" where
  "frag_iv a bmcst pn = take (px_iv_len a) (fst (tx_iv a bmcst pn))"

definition frag_icv :: "pkt_attrib \<Rightarrow> byte list" where
  "frag_icv a = (if px_icv_len a > 0 \<and> px_bswenc a then take (px_icv_len a) (px_icv a) else [])"

definition frag_chunk :: "nat \<Rightarrow> bool \<Rightarrow> bool \<Rightarrow> pkt_attrib \<Rightarrow> byte list \<Rightarrow> byte list" where
  "frag_chunk frag_len bmcst first a rest =
     take (if bmcst then px_pktlen a else nat (frag_mpdu_len frag_len a first mod 2 ^ 32)) rest"

definition frag_body :: "nat \<Rightarrow> bool \<Rightarrow> bool \<Rightarrow> pkt_attrib \<Rightarrow> u64 \<Rightarrow> byte list \<Rightarrow> byte list" where
  "frag_body frag_len bmcst first a pn rest =
     frag_iv a bmcst pn @ (if first then snap_hdr (px_ether_type a) else []) @ frag_chunk frag_len bmcst first a rest @ frag_icv a"

definition iv_attrib :: "pkt_attrib \<Rightarrow> bool \<Rightarrow> u64 \<Rightarrow> pkt_attrib" where
  "iv_attrib a bmcst pn = (if px_iv_len a = 0 then a else a\<lparr>px_iv := fst (tx_iv a bmcst pn)\<rparr>)"

definition iv_pn :: "pkt_attrib \<Rightarrow> bool \<Rightarrow> u64 \<Rightarrow> u64" where
  "iv_pn a bmcst pn = (if px_iv_len a = 0 then pn else snd (tx_iv a bmcst pn))"

text \<open>The arrays of the attributes have the lengths of the C arrays.\<close>

definition px_arrays :: "pkt_attrib \<Rightarrow> bool" where
  "px_arrays a \<longleftrightarrow> length (px_iv a) = 8 \<and> length (px_icv a) = 8 \<and> px_iv_len a \<le> 8 \<and> px_icv_len a \<le> 8"

lemma tx_iv_length: "px_arrays a \<Longrightarrow> length (fst (tx_iv a bmcst pn)) = 8"
  by (simp add: px_arrays_def tx_iv_def WEP_IV_def TKIP_IV_def AES_IV_def split: enc_alg.split)

lemma put_iv_at:
  assumes "px_arrays a" and "length pre = pf" and "px_iv_len a \<le> length x"
  shows "put_iv bmcst a pn (pre @ x) pf =
    Some (pre @ frag_iv a bmcst pn @ drop (px_iv_len a) x, iv_attrib a bmcst pn, iv_pn a bmcst pn)"
  using assms tx_iv_length [OF assms(1), of bmcst pn] wr_at [OF assms(2), of "frag_iv a bmcst pn" x]
  by (simp add: put_iv_def frag_iv_def iv_attrib_def iv_pn_def rd_slice_def px_arrays_def)

lemma rtw_put_snap_at:
  assumes "length pre = p" and "8 \<le> length x"
  shows "rtw_put_snap (pre @ x) p et = Some (pre @ snap_hdr et @ drop 8 x, 8)"
proof -
  let ?o = "[0xaa, 0xaa, 0x03] @ (if et = 0x8137 \<or> et = 0x80f3 then [0x00, 0x00, 0xf8] else [0x00, 0x00, 0x00 :: byte])"
  have o: "length ?o = 6" by simp
  have "wr_slice (pre @ x) p ?o = Some ((pre @ ?o) @ drop 6 x)"
    using wr_at [OF assms(1), of ?o x] assms(2) o by (simp only: append_assoc)
  moreover have "wr_slice ((pre @ ?o) @ drop 6 x) (p + 6) [of_nat (et div 256), of_nat et] =
      Some ((pre @ ?o) @ [of_nat (et div 256), of_nat et] @ drop 2 (drop 6 x))"
    using wr_at [of "pre @ ?o" "p + 6" "[of_nat (et div 256), of_nat et]" "drop 6 x"] assms by simp
  ultimately show ?thesis by (simp add: rtw_put_snap_def snap_hdr_def)
qed

lemma put_icv_at:
  assumes "px_arrays a" and "length pre = pf" and "length (frag_icv a) \<le> length x"
  shows "put_icv a (pre @ x) pf = Some (pre @ frag_icv a @ drop (length (frag_icv a)) x, pf + length (frag_icv a))"
  using assms wr_at [OF assms(2), of "frag_icv a" x]
  by (auto simp: put_icv_def frag_icv_def rd_slice_def px_arrays_def split: if_splits)

lemma iv_attrib_fields [simp]:
  "frag_icv (iv_attrib a bmcst pn) = frag_icv a" "px_arrays a \<Longrightarrow> px_arrays (iv_attrib a bmcst pn)"
  using tx_iv_length [of a bmcst pn] by (simp_all add: iv_attrib_def frag_icv_def px_arrays_def)

lemma coalesce_frag_at:
  assumes arr: "px_arrays a" and ms: "length pre = ms" and T: "2 + length T = px_hdrlen a"
    and room: "length (frag_body frag_len bmcst first a pn rest) \<le> length X"
  defines "body \<equiv> frag_body frag_len bmcst first a pn rest" and "c \<equiv> frag_chunk frag_len bmcst first a rest"
  shows "coalesce_frag frag_len bmcst first a pn rest ms (pre @ (le16_bytes fc @ T) @ X) =
    Some (pre @ (le16_bytes (fc OR 0x0400) @ T) @ body @ drop (length body) X, iv_attrib a bmcst pn, iv_pn a bmcst pn,
          ms + px_hdrlen a + length body, length c, drop (length c) rest)"
proof -
  define H where "H = pre @ le16_bytes (fc OR 0x0400) @ T"
  define iv where "iv = frag_iv a bmcst pn"
  define s where "s = (if first then snap_hdr (px_ether_type a) else [])"
  define i where "i = frag_icv a"
  have lH: "length H = ms + px_hdrlen a" using ms T by (simp add: H_def)
  have liv: "length iv = px_iv_len a" using arr tx_iv_length [OF arr] by (simp add: iv_def frag_iv_def px_arrays_def)
  have ls: "length s = (if first then 8 else 0)" by (simp add: s_def snap_hdr_def)
  have body: "body = iv @ s @ c @ i" by (simp add: body_def frag_body_def iv_def s_def c_def i_def)
  have lb: "length body = px_iv_len a + length s + length c + length i" using liv by (simp add: body)
  have r: "px_iv_len a + length s + length c + length i \<le> length X" using room lb by (simp add: body_def)
  have m1: "SetMFrag (pre @ (le16_bytes fc @ T) @ X) ms = Some (H @ X)"
    using or16_at [OF ms, of "0x0400" fc "T @ X"] by (simp add: SetMFrag_def H_def)
  have m2: "put_iv bmcst a pn (H @ X) (ms + px_hdrlen a) = Some (H @ iv @ drop (px_iv_len a) X, iv_attrib a bmcst pn, iv_pn a bmcst pn)"
    using put_iv_at [OF arr lH] r by (simp add: iv_def)
  have m3: "(if first then rtw_put_snap (H @ iv @ drop (px_iv_len a) X) (ms + px_hdrlen a + px_iv_len a) (px_ether_type a)
      else Some (H @ iv @ drop (px_iv_len a) X, 0)) = Some ((H @ iv @ s) @ drop (px_iv_len a + length s) X, length s)"
    using rtw_put_snap_at [of "H @ iv" "ms + px_hdrlen a + px_iv_len a" "drop (px_iv_len a) X" "px_ether_type a"] lH liv ls r
    by (auto simp: s_def add.commute)
  have m4: "wr_slice ((H @ iv @ s) @ drop (px_iv_len a + length s) X) (ms + px_hdrlen a + px_iv_len a + length s) c =
      Some ((H @ iv @ s @ c) @ drop (px_iv_len a + length s + length c) X)"
    using wr_at [of "H @ iv @ s" "ms + px_hdrlen a + px_iv_len a + length s" c "drop (px_iv_len a + length s) X"] lH liv r
    by (simp add: add.commute add.left_commute)
  have m5: "put_icv (iv_attrib a bmcst pn) ((H @ iv @ s @ c) @ drop (px_iv_len a + length s + length c) X)
        (ms + px_hdrlen a + px_iv_len a + length s + length c) =
      Some ((H @ iv @ s @ c) @ i @ drop (length i) (drop (px_iv_len a + length s + length c) X),
        ms + px_hdrlen a + px_iv_len a + length s + length c + length i)"
  proof -
    have "length (H @ iv @ s @ c) = ms + px_hdrlen a + px_iv_len a + length s + length c" using lH liv by simp
    moreover have "length (frag_icv (iv_attrib a bmcst pn)) \<le> length (drop (px_iv_len a + length s + length c) X)"
      using r by (simp add: i_def)
    ultimately show ?thesis
      using put_icv_at [OF iv_attrib_fields(2) [OF arr, of bmcst pn], where pre = "H @ iv @ s @ c" and x = "drop (px_iv_len a + length s + length c) X"]
      by (simp only: iv_attrib_fields(1) i_def)
  qed
  have chunk: "take (if bmcst then px_pktlen a else nat (frag_mpdu_len frag_len a first mod 2 ^ 32)) rest = c"
    by (simp add: c_def frag_chunk_def)
  have dr: "drop (length i) (drop (px_iv_len a + length s + length c) X) = drop (length body) X"
    by (simp add: lb add.commute add.left_commute)
  show ?thesis
    unfolding coalesce_frag_def Let_def m1 bind.bind_lunit m2 prod.case m3 chunk m4 m5 dr
    by (simp add: body lb liv H_def)
qed

text \<open>
  A packet that fits one fragment, or any group packet: the header keeps its flags, since the
  mark \<open>MFrag\<close> is taken back.
\<close>

lemma clear_or_bit: "\<not> bit fc k \<Longrightarrow> (fc OR push_bit k 1) AND NOT (push_bit k 1) = (fc :: u16)"
  by (rule bit_word_eqI) (auto simp: bit_simps)

lemma clear_or_0400: "\<not> bit fc 10 \<Longrightarrow> (fc OR 0x0400) AND NOT 0x0400 = (fc :: u16)"
  using clear_or_bit [of fc 10] by simp

lemma coalesce_loop_single:
  assumes arr: "px_arrays a" and ms: "length pre = ms" and T: "2 + length T = px_hdrlen a"
    and room: "length (frag_body frag_len bmcst True a pn rest) \<le> length X"
    and one: "bmcst \<or> frag_chunk frag_len bmcst True a rest = rest" and fc: "\<not> bit fc 10"
  defines "body \<equiv> frag_body frag_len bmcst True a pn rest"
  shows "coalesce_loop addr frag_len bmcst a pn 0 rest ms (pre @ (le16_bytes fc @ T) @ X) =
    Some (pre @ (le16_bytes fc @ T) @ body @ drop (length body) X,
          (iv_attrib a bmcst pn)\<lparr>px_nr_frags := 1, px_last_txcmdsz := px_hdrlen a + px_iv_len a + 8
             + (if px_bswenc a then px_icv_len a else 0) + length (frag_chunk frag_len bmcst True a rest)\<rparr>,
          iv_pn a bmcst pn)"
proof -
  have d: "bmcst \<or> drop (length (frag_chunk frag_len bmcst True a rest)) rest = []" using one by auto
  have c: "ClearMFrag (pre @ (le16_bytes (fc OR 0x0400) @ T) @ body @ drop (length body) X) ms =
      Some (pre @ (le16_bytes fc @ T) @ body @ drop (length body) X)"
    using ClearMFrag_at [OF ms, of "fc OR 0x0400" "T @ body @ drop (length body) X"] clear_or_0400 [OF fc] by simp
  have at: "px_bswenc (iv_attrib a bmcst pn) = px_bswenc a" "px_icv_len (iv_attrib a bmcst pn) = px_icv_len a"
    by (simp_all add: iv_attrib_def)
  show ?thesis
    using d c coalesce_frag_at [OF arr ms T room, of fc, folded body_def]
    by (subst coalesce_loop.simps) (simp add: at)
qed

section \<open>The bytes of a frame\<close>

lemma bit_push_one: "bit (push_bit k 1 :: u16) n \<longleftrightarrow> n = k \<and> n < 16"
  by (auto simp: bit_simps)

lemma tx_fc_bit: "\<not> bit (tx_fc md a) 10"
proof -
  have "\<not> bit (px_subtype a) 10" using bit_byte_ge by fastforce
  moreover have "\<not> bit (0x0100 :: u16) 10" "\<not> bit (0x0200 :: u16) 10" "\<not> bit (0x2000 :: u16) 10" "\<not> bit (0x4000 :: u16) 10"
    using bit_push_one [of 8 10] bit_push_one [of 9 10] bit_push_one [of 13 10] bit_push_one [of 14 10] by simp_all
  ultimately show ?thesis unfolding tx_fc_def by (cases md) (auto simp: bit_simps)
qed

text \<open>What \<open>rtw_make_wlanhdr\<close> leaves of the station and the attributes.\<close>

definition hdr_sta :: "sta_info \<Rightarrow> pkt_attrib \<Rightarrow> sta_info" where
  "hdr_sta si a = snd (tx_ampdu (si\<lparr>si_txseq_tid := (si_txseq_tid si)(px_priority a := next_seqnum si (px_priority a))\<rparr>) a
     (next_seqnum si (px_priority a)))"

definition hdr_attrib :: "sta_info \<Rightarrow> pkt_attrib \<Rightarrow> pkt_attrib" where
  "hdr_attrib si a = a\<lparr>px_seqnum := next_seqnum si (px_priority a),
     px_ampdu_en := fst (tx_ampdu (si\<lparr>si_txseq_tid := (si_txseq_tid si)(px_priority a := next_seqnum si (px_priority a))\<rparr>) a
       (next_seqnum si (px_priority a)))\<rparr>"

lemma tx_ampdu_keeps:
  "si_state (snd (tx_ampdu si a seq)) = si_state si" "si_dot11txpn (snd (tx_ampdu si a seq)) = si_dot11txpn si"
  "si_txseq_tid (snd (tx_ampdu si a seq)) = si_txseq_tid si" "si_tkiptxmickey (snd (tx_ampdu si a seq)) = si_tkiptxmickey si"
  "si_UncstKey (snd (tx_ampdu si a seq)) = si_UncstKey si" "si_hwaddr (snd (tx_ampdu si a seq)) = si_hwaddr si"
  by (simp_all add: tx_ampdu_def Let_def)

lemma hdr_sta_keeps [simp]:
  "si_state (hdr_sta si a) = si_state si" "si_dot11txpn (hdr_sta si a) = si_dot11txpn si"
  "si_txseq_tid (hdr_sta si a) = (si_txseq_tid si)(px_priority a := next_seqnum si (px_priority a))"
  "si_tkiptxmickey (hdr_sta si a) = si_tkiptxmickey si" "si_UncstKey (hdr_sta si a) = si_UncstKey si"
  "si_hwaddr (hdr_sta si a) = si_hwaddr si"
  by (simp_all add: hdr_sta_def tx_ampdu_keeps)

lemma tx_fields_only:
  assumes "a' = a\<lparr>px_seqnum := sn, px_ampdu_en := en\<rparr>"
  shows "tx_iv a' b pn = tx_iv a b pn" "frag_icv a' = frag_icv a" "frag_mpdu_len fl a' first = frag_mpdu_len fl a first"
    "px_arrays a' = px_arrays a" "px_iv_len a' = px_iv_len a" "px_pktlen a' = px_pktlen a" "px_ether_type a' = px_ether_type a"
  unfolding assms by (cases "px_encrypt a"; simp add: tx_iv_def frag_icv_def frag_mpdu_len_def px_arrays_def)+

lemma hdr_attrib_keeps [simp]:
  "px_hdrlen (hdr_attrib si a) = px_hdrlen a" "px_iv_len (hdr_attrib si a) = px_iv_len a"
  "px_icv_len (hdr_attrib si a) = px_icv_len a" "px_bswenc (hdr_attrib si a) = px_bswenc a"
  "px_encrypt (hdr_attrib si a) = px_encrypt a" "px_psta (hdr_attrib si a) = px_psta a" "px_ra (hdr_attrib si a) = px_ra a"
  "px_pkt_hdrlen (hdr_attrib si a) = px_pkt_hdrlen a" "px_qos_en (hdr_attrib si a) = px_qos_en a"
  "px_priority (hdr_attrib si a) = px_priority a" "px_arrays (hdr_attrib si a) = px_arrays a"
  "frag_body fl b first (hdr_attrib si a) pn rest = frag_body fl b first a pn rest"
  "frag_chunk fl b first (hdr_attrib si a) rest = frag_chunk fl b first a rest"
  "iv_pn (hdr_attrib si a) b pn = iv_pn a b pn"
proof -
  note t = tx_fields_only [OF hdr_attrib_def]
  show "px_hdrlen (hdr_attrib si a) = px_hdrlen a" "px_iv_len (hdr_attrib si a) = px_iv_len a"
    "px_icv_len (hdr_attrib si a) = px_icv_len a" "px_bswenc (hdr_attrib si a) = px_bswenc a"
    "px_encrypt (hdr_attrib si a) = px_encrypt a" "px_psta (hdr_attrib si a) = px_psta a" "px_ra (hdr_attrib si a) = px_ra a"
    "px_pkt_hdrlen (hdr_attrib si a) = px_pkt_hdrlen a" "px_qos_en (hdr_attrib si a) = px_qos_en a"
    "px_priority (hdr_attrib si a) = px_priority a"
    by (simp_all add: hdr_attrib_def)
  show "px_arrays (hdr_attrib si a) = px_arrays a" by (rule t)
  show c: "frag_chunk fl b first (hdr_attrib si a) rest = frag_chunk fl b first a rest" by (simp only: frag_chunk_def t)
  show "frag_body fl b first (hdr_attrib si a) pn rest = frag_body fl b first a pn rest"
    by (simp only: frag_body_def frag_iv_def c t)
  show "iv_pn (hdr_attrib si a) b pn = iv_pn a b pn" by (simp only: iv_pn_def t)
qed

text \<open>
  The frame in the buffer before Michael code and cipher: \<open>tx_bytes\<close>.  The preconditions: the station
  \<open>p\<close> is linked, the attributes fit the mode, the packet goes out in one fragment and the buffer has
  room for it.
\<close>

definition tx_bytes :: "tx_mode \<Rightarrow> adapter \<Rightarrow> nat \<Rightarrow> pkt_attrib \<Rightarrow> byte list \<Rightarrow> byte list" where
  "tx_bytes md ad p a pkt =
     tx_hdr md ad (sta_of ad p) a (next_seqnum (sta_of ad p) (px_priority a)) @
     frag_body (xp_frag_len (xmitpriv ad)) (IS_MCAST (px_ra a)) True a (si_dot11txpn (sta_of ad p)) (drop (px_pkt_hdrlen a) pkt)"

definition tx_ready :: "tx_mode \<Rightarrow> adapter \<Rightarrow> nat \<Rightarrow> pkt_attrib \<Rightarrow> byte list \<Rightarrow> nat \<Rightarrow> xmit_buf \<Rightarrow> bool" where
  "tx_ready md ad p a pkt off xb \<longleftrightarrow> tx_ok md ad (sta_of ad p) a \<and> px_psta a = Some p \<and>
     si_state (sta_of ad p) AND FW_LINKED \<noteq> 0 \<and> px_arrays a \<and>
     (IS_MCAST (px_ra a) \<or> frag_chunk (xp_frag_len (xmitpriv ad)) False True a (drop (px_pkt_hdrlen a) pkt) = drop (px_pkt_hdrlen a) pkt) \<and>
     first_pframe off + max 64 (length (tx_bytes md ad p a pkt)) \<le> length (xb_mem xb)"

definition tx_attrib :: "adapter \<Rightarrow> nat \<Rightarrow> pkt_attrib \<Rightarrow> byte list \<Rightarrow> pkt_attrib" where
  "tx_attrib ad p a pkt =
     (iv_attrib (hdr_attrib (sta_of ad p) a) (IS_MCAST (px_ra a)) (si_dot11txpn (sta_of ad p)))
       \<lparr>px_nr_frags := 1, px_last_txcmdsz := px_hdrlen a + px_iv_len a + 8 + (if px_bswenc a then px_icv_len a else 0)
          + length (frag_chunk (xp_frag_len (xmitpriv ad)) (IS_MCAST (px_ra a)) True a (drop (px_pkt_hdrlen a) pkt))\<rparr>"

definition tx_adapter :: "adapter \<Rightarrow> nat \<Rightarrow> pkt_attrib \<Rightarrow> adapter" where
  "tx_adapter ad p a = set_sta ad p ((hdr_sta (sta_of ad p) a)
     \<lparr>si_dot11txpn := iv_pn a (IS_MCAST (px_ra a)) (si_dot11txpn (sta_of ad p))\<rparr>)"

definition put_frame :: "xmit_buf \<Rightarrow> nat \<Rightarrow> byte list \<Rightarrow> nat \<Rightarrow> xmit_buf" where
  "put_frame xb off f n = xb\<lparr>xb_mem := take (first_pframe off) (xb_mem xb) @ f @ replicate n 0
     @ drop (first_pframe off + length f + n) (xb_mem xb)\<rparr>"

lemma coalesce_to_loop:
  assumes ready: "tx_ready md ad p a pkt off xb"
  defines "f \<equiv> tx_bytes md ad p a pkt" and "a' \<equiv> tx_attrib ad p a pkt" and "ad' \<equiv> tx_adapter ad p a"
  shows "rtw_xmitframe_coalesce ad pkt a off (Some xb) = do {
     (res2, a3, xb3) \<leftarrow> xmitframe_addmic ad' a' off (put_frame xb off f (64 - length f));
     if res2 = FAIL then Some (FAIL, a3, Some xb3, ad')
     else do {
       xb4 \<leftarrow> xmitframe_swencrypt ad' a3 off xb3;
       Some (SUCCESS, if IS_MCAST (px_ra a) then a3\<lparr>px_vcs_mode := NONE_VCS\<rparr> else update_attrib_vcs_info ad' a3, Some xb4, ad') } }"
proof -
  note r = ready [unfolded tx_ready_def, folded f_def]
  let ?si = "sta_of ad p" and ?ms = "first_pframe off" and ?b = "IS_MCAST (px_ra a)"
  let ?seq = "next_seqnum ?si (px_priority a)" and ?rest = "drop (px_pkt_hdrlen a) pkt" and ?fl = "xp_frag_len (xmitpriv ad)"
  have ok: "tx_ok md ad ?si a" and st: "wlanhdr_sta ad a = Some p" and lk: "si_state ?si AND FW_LINKED \<noteq> 0"
    and arr: "px_arrays a" and ps: "attr_sta ad a = Some p"
    using r by (simp_all add: wlanhdr_sta_def attr_sta_def)
  define pre where "pre = take ?ms (xb_mem xb)"
  define old where "old = take 64 (drop ?ms (xb_mem xb))"
  define post where "post = drop (?ms + 64) (xb_mem xb)"
  define H where "H = tx_hdr md ad ?si a ?seq"
  define body where "body = frag_body ?fl ?b True a (si_dot11txpn ?si) ?rest"
  have f: "f = H @ body" by (simp add: f_def tx_bytes_def H_def body_def)
  have lH: "length H = px_hdrlen a" "px_hdrlen a \<le> 64" using length_tx_hdr [OF ok] ok by (simp_all add: H_def tx_ok_def)
  have mem: "xb_mem xb = pre @ old @ post" "length pre = ?ms" "length old = 64"
  proof -
    have room: "?ms + 64 \<le> length (xb_mem xb)" using r by linarith
    show "xb_mem xb = pre @ old @ post" unfolding pre_def old_def post_def by (metis add.commute append_take_drop_id drop_drop)
    show "length pre = ?ms" "length old = 64" using room by (simp_all add: pre_def old_def)
  qed
  have hdr: "rtw_make_wlanhdr ad (xb_mem xb) ?ms a = Some (SUCCESS, pre @ H @ replicate (64 - px_hdrlen a) 0 @ post,
      hdr_attrib ?si a, set_sta ad p (hdr_sta ?si a))"
    using make_wlanhdr_writes [OF ok st refl lk mem] by (simp add: hdr_attrib_def hdr_sta_def H_def)
  obtain a1 a2 a3 where adr: "tx_addrs md ad a = (a1, a2, a3)" by (rule prod_cases3)
  obtain T where T: "H = le16_bytes (tx_fc md a) @ T" by (simp add: H_def tx_hdr_def adr hdr3_def)
  have lT: "2 + length T = px_hdrlen a" using lH T by simp
  define X where "X = replicate (64 - px_hdrlen a) 0 @ post"
  have lX: "length body \<le> length X" "drop (length body) X = replicate (64 - length f) 0 @ drop (?ms + length f + (64 - length f)) (xb_mem xb)"
  proof -
    have lf: "length f = px_hdrlen a + length body" using f lH by simp
    show "length body \<le> length X" using r lf lH by (auto simp: X_def post_def)
    show "drop (length body) X = replicate (64 - length f) 0 @ drop (?ms + length f + (64 - length f)) (xb_mem xb)"
      using lf lH by (cases "length f \<le> 64") (auto simp: X_def post_def add.commute add.left_commute)
  qed
  have one: "?b \<or> frag_chunk ?fl ?b True (hdr_attrib ?si a) ?rest = ?rest" using r by (cases ?b) simp_all
  have loop: "coalesce_loop (xb_addr xb) ?fl ?b (hdr_attrib ?si a) (si_dot11txpn ?si) 0 ?rest ?ms (pre @ (le16_bytes (tx_fc md a) @ T) @ X) =
    Some (pre @ (le16_bytes (tx_fc md a) @ T) @ body @ drop (length body) X, a', iv_pn a ?b (si_dot11txpn ?si))"
    using coalesce_loop_single [OF _ mem(2), of "hdr_attrib ?si a" T ?fl ?b "si_dot11txpn ?si" ?rest X "tx_fc md a" "xb_addr xb"]
      arr lT lX(1) one tx_fc_bit
    by (simp add: a'_def tx_attrib_def body_def)
  have ad': "set_txpn (set_sta ad p (hdr_sta ?si a)) p (iv_pn a ?b (si_dot11txpn ?si)) = ad'"
    by (simp add: set_txpn_def ad'_def tx_adapter_def) (simp add: set_sta_def)
  have xm: "xmitpriv (set_sta ad p (hdr_sta ?si a)) = xmitpriv ad" by (simp add: set_sta_def)
  have M: "xb\<lparr>xb_mem := pre @ (le16_bytes (tx_fc md a) @ T) @ body @ drop (length body) X\<rparr> = put_frame xb off f (64 - length f)"
    using lX(2) T by (simp add: put_frame_def f pre_def)
  have H': "pre @ H @ replicate (64 - px_hdrlen a) 0 @ post = pre @ (le16_bytes (tx_fc md a) @ T) @ X" by (simp add: T X_def)
  show ?thesis
    unfolding rtw_xmitframe_coalesce_def ps option.case Let_def hdr bind.bind_lunit prod.case H' hdr_attrib_keeps xm sta_of_set_sta
      if_P [OF refl] hdr_sta_keeps loop ad' M
    using lk by simp
qed

section \<open>The frame on the air\<close>

lemma put_frame_at:
  assumes "first_pframe off + length f + n \<le> length (xb_mem xb)"
  shows "rd_slice (xb_mem (put_frame xb off f n)) (first_pframe off) (length f) = Some f"
    "length (xb_mem (put_frame xb off f n)) = length (xb_mem xb)"
    "take (first_pframe off) (xb_mem (put_frame xb off f n)) = take (first_pframe off) (xb_mem xb)"
    "drop (first_pframe off + length f + n) (xb_mem (put_frame xb off f n)) = drop (first_pframe off + length f + n) (xb_mem xb)"
  using assms by (simp_all add: put_frame_def rd_slice_def)

lemma addmic_other: "px_psta a = Some p \<Longrightarrow> si_state (sta_of ad p) AND FW_LINKED \<noteq> 0 \<Longrightarrow> px_encrypt a \<noteq> TKIP \<Longrightarrow>
    xmitframe_addmic ad a off xb = Some (SUCCESS, a, xb)"
  by (simp add: xmitframe_addmic_def attr_sta_def)

lemma tx_attrib_keeps [simp]:
  "px_psta (tx_attrib ad p a pkt) = px_psta a" "px_encrypt (tx_attrib ad p a pkt) = px_encrypt a"
  "px_bswenc (tx_attrib ad p a pkt) = px_bswenc a" "px_hdrlen (tx_attrib ad p a pkt) = px_hdrlen a"
  "px_iv_len (tx_attrib ad p a pkt) = px_iv_len a" "px_icv_len (tx_attrib ad p a pkt) = px_icv_len a"
  "px_nr_frags (tx_attrib ad p a pkt) = 1" "px_ra (tx_attrib ad p a pkt) = px_ra a"
  "px_seqnum (tx_attrib ad p a pkt) = next_seqnum (sta_of ad p) (px_priority a)"
  by (simp_all add: tx_attrib_def iv_attrib_def hdr_attrib_def)

lemma tx_adapter_keeps [simp]:
  "si_state (sta_of (tx_adapter ad p a) q) = si_state (sta_of ad q)" "securitypriv (tx_adapter ad p a) = securitypriv ad"
  "xmitpriv (tx_adapter ad p a) = xmitpriv ad"
  by (simp_all add: tx_adapter_def) (simp_all add: set_sta_def)

lemma coalesce_frame:
  assumes "tx_ready md ad p a pkt off xb" and "\<not> px_bswenc a" and "px_encrypt a \<noteq> TKIP"
  shows "\<exists>a' xb'. rtw_xmitframe_coalesce ad pkt a off (Some xb) = Some (SUCCESS, a', Some xb', tx_adapter ad p a) \<and>
    rd_slice (xb_mem xb') (first_pframe off) (length (tx_bytes md ad p a pkt)) = Some (tx_bytes md ad p a pkt) \<and>
    length (xb_mem xb') = length (xb_mem xb) \<and>
    take (first_pframe off) (xb_mem xb') = take (first_pframe off) (xb_mem xb) \<and>
    drop (first_pframe off + max 64 (length (tx_bytes md ad p a pkt))) (xb_mem xb') =
      drop (first_pframe off + max 64 (length (tx_bytes md ad p a pkt))) (xb_mem xb) \<and>
    px_seqnum a' = next_seqnum (sta_of ad p) (px_priority a) \<and> px_nr_frags a' = 1"
proof -
  let ?f = "tx_bytes md ad p a pkt" and ?a = "tx_attrib ad p a pkt" and ?ad = "tx_adapter ad p a"
  let ?xb = "put_frame xb off ?f (64 - length ?f)"
  have r: "px_psta a = Some p" "si_state (sta_of ad p) AND FW_LINKED \<noteq> 0" "first_pframe off + max 64 (length ?f) \<le> length (xb_mem xb)"
    using assms(1) by (simp_all add: tx_ready_def)
  then have fit: "first_pframe off + length ?f + (64 - length ?f) \<le> length (xb_mem xb)"
    "length ?f + (64 - length ?f) = max 64 (length ?f)" by linarith+
  have mic: "xmitframe_addmic ?ad ?a off ?xb = Some (SUCCESS, ?a, ?xb)"
    using r assms(3) by (intro addmic_other) simp_all
  have "rtw_xmitframe_coalesce ad pkt a off (Some xb) = Some (SUCCESS,
      if IS_MCAST (px_ra a) then ?a\<lparr>px_vcs_mode := NONE_VCS\<rparr> else update_attrib_vcs_info ?ad ?a, Some ?xb, ?ad)"
    using assms(2) by (simp add: coalesce_to_loop [OF assms(1)] mic xmitframe_swencrypt_def)
  moreover have "px_seqnum (update_attrib_vcs_info ?ad ?a) = px_seqnum ?a" "px_nr_frags (update_attrib_vcs_info ?ad ?a) = px_nr_frags ?a"
    by (simp_all add: update_attrib_vcs_info_def Let_def split: option.split)
  ultimately show ?thesis using put_frame_at [OF fit(1)] fit(2) by (auto simp: add.assoc)
qed


section \<open>From network stack to network stack\<close>

text \<open>The attributes of a packet that an access point sends to a station of its open network.\<close>

definition open_station :: "adapter \<Rightarrow> nat \<Rightarrow> mac \<Rightarrow> bool" where
  "open_station ap p dst \<longleftrightarrow> tx_mode ap = Some FromAp \<and> \<not> check_fwstate ap WIFI_ADHOC_STATE \<and>
     \<not> check_fwstate ap WIFI_ADHOC_MASTER_STATE \<and> is_mac (cur_bssid ap) \<and> \<not> IS_MCAST dst \<and>
     rtw_get_stainfo (stapriv ap) dst = Some p \<and> si_state (sta_of ap p) AND FW_LINKED \<noteq> 0 \<and>
     \<not> si_qos_option (sta_of ap p) \<and> \<not> si_ieee8021x_blocked (sta_of ap p) \<and>
     sec_dot11AuthAlgrthm (securitypriv ap) = 0 \<and> sec_dot11PrivacyAlgrthm (securitypriv ap) = NO_PRIVACY"

lemma request_of_if: "(if c then request_of ad x else ad) = ad\<lparr>requests := (if c then requests ad @ [x] else requests ad)\<rparr>"
  by (cases ad) (simp add: request_of_def)

lemma requests_twice: "(ad\<lparr>requests := r1\<rparr>)\<lparr>requests := r2\<rparr> = ad\<lparr>requests := r2\<rparr>"
  by (cases ad) simp

lemma special_packet_only: "\<exists>r. special_packet a ad = ad\<lparr>requests := r\<rparr>"
  unfolding special_packet_def Let_def request_of_if requests_twice by blast

lemma check_fwstate_or: "check_fwstate ad (x OR y) \<longleftrightarrow> check_fwstate ad x \<or> check_fwstate ad y"
  by (simp add: check_fwstate_def bit.conj_disj_distrib or_eq_0_iff)

lemma update_attrib_open:
  assumes o: "open_station ap p dst" and m: "is_mac dst" "is_mac src" and t: "t = [hi, lo]"
    and arr: "length (px_iv a0) = 8" "length (px_icv a0) = 8"
  shows "\<exists>a r. update_attrib ap (dst @ src @ t @ payload) a0 = Some (SUCCESS, a, ap\<lparr>requests := r\<rparr>) \<and>
    px_dst a = dst \<and> px_src a = src \<and> px_ra a = dst \<and> px_ta a = cur_bssid ap \<and> px_psta a = Some p \<and> px_pkt_hdrlen a = 14 \<and>
    px_hdrlen a = 24 \<and> px_iv_len a = 0 \<and> px_icv_len a = 0 \<and> px_encrypt a = NO_PRIVACY \<and> \<not> px_bswenc a \<and>
    px_subtype a = WIFI_DATA_TYPE \<and> \<not> px_mdata a \<and> px_ether_type a = unat hi * 256 + unat lo \<and> px_arrays a \<and>
    px_priority a = 0"
proof -
  let ?pkt = "dst @ src @ t @ payload"
  let ?et = "unat hi * 256 + unat lo"
  have len: "\<not> length ?pkt < 14" and et: "?pkt ! 12 = hi" "?pkt ! 13 = lo" and ad: "take 6 ?pkt = dst" "take 6 (drop 6 ?pkt) = src"
    using m t by (simp_all add: is_mac_def nth_append)
  have st: "\<not> check_fwstate ap WIFI_STATION_STATE" "check_fwstate ap WIFI_AP_STATE"
    using o by (auto simp: open_station_def tx_mode_def split: if_splits)
  define a1 where "a1 = tx_addresses ap (a0\<lparr>px_ether_type := ?et, px_dst := dst, px_src := src, px_pctrl := False\<rparr>)"
  define a2 where "a2 = a1\<lparr>px_pktlen := length ?pkt - 14, px_dhcp_pkt := (if ?et = 0x0800 then is_dhcp ?pkt else px_dhcp_pkt a1)\<rparr>"
  have a1: "a1 = a0\<lparr>px_ether_type := ?et, px_dst := dst, px_src := src, px_pctrl := False, px_ra := dst, px_ta := cur_bssid ap\<rparr>"
    using o st by (simp add: a1_def tx_addresses_def open_station_def)
  obtain r where r: "special_packet a2 ap = ap\<lparr>requests := r\<rparr>" using special_packet_only by blast
  have sta: "sta_of (ap\<lparr>requests := r\<rparr>) = sta_of ap" by (simp add: sta_of_def fun_eq_iff)
  have fw: "check_fwstate (ap\<lparr>requests := r\<rparr>) x = check_fwstate ap x" for x by (simp add: check_fwstate_def)
  have ts: "tx_station (ap\<lparr>requests := r\<rparr>) a2 = Some p"
    using o by (simp add: tx_station_def a2_def a1 open_station_def sta fw)
  let ?si = "sta_of ap p"
  define a3 where "a3 = a2\<lparr>px_mac_id := si_mac_id ?si, px_psta := Some p, px_ack_policy := 0, px_pkt_hdrlen := 14,
                        px_hdrlen := 24, px_subtype := WIFI_DATA_TYPE, px_priority := 0\<rparr>"
  have "check_fwstate ap (WIFI_AP_STATE OR WIFI_ADHOC_STATE OR WIFI_ADHOC_MASTER_STATE)"
    using st(2) by (simp only: check_fwstate_or simp_thms)
  then have q: "tx_qos (ap\<lparr>requests := r\<rparr>) ?si ?pkt a3 = Some a3" using o by (simp add: tx_qos_def fw open_station_def)
  define a5 where "a5 = a3\<lparr>px_encrypt := NO_PRIVACY, px_key_idx := sec_PrivacyKeyIndex (securitypriv ap)\<rparr>"
  have e: "tx_encrypt (ap\<lparr>requests := r\<rparr>) ?si a3 = Some a5"
    using o by (simp add: tx_encrypt_def open_station_def GET_ENCRY_ALGO_def a5_def)
  let ?res = "update_attrib_phy_info (a5\<lparr>px_iv_len := 0, px_icv_len := 0, px_bswenc := False\<rparr>) ?si"
  have "update_attrib ap ?pkt a0 = Some (SUCCESS, ?res, ap\<lparr>requests := r\<rparr>)"
    unfolding update_attrib_def Let_def et ad if_not_P [OF len] a1_def [symmetric] a2_def [symmetric] r ts option.case sta
      a3_def [symmetric] q bind.bind_lunit e
    by (simp add: a5_def SET_ICE_IV_LEN_def)
  moreover have "px_arrays ?res" using arr by (simp add: px_arrays_def update_attrib_phy_info_def a5_def a3_def a2_def a1)
  ultimately show ?thesis
    by (intro exI [of _ ?res] exI [of _ r]) (simp add: update_attrib_phy_info_def a5_def a3_def a2_def a1)
qed

lemma tx_bytes_open:
  assumes "tx_hdr FromAp ap (sta_of ap p) a seq = hdr3 0x0208 0 dst (cur_bssid ap) src (push_bit 4 seq)"
    and "seq = next_seqnum (sta_of ap p) (px_priority a)" and "px_iv_len a = 0" "px_icv_len a = 0" "\<not> IS_MCAST (px_ra a)"
    and "frag_chunk (xp_frag_len (xmitpriv ap)) False True a payload = payload" and "drop (px_pkt_hdrlen a) pkt = payload"
  shows "tx_bytes FromAp ap p a pkt = down_frame 0 dst (cur_bssid ap) src (push_bit 4 seq) (snap_hdr (px_ether_type a) @ payload)"
  using assms by (simp add: tx_bytes_def frag_body_def frag_iv_def frag_icv_def down_frame_def)

lemma snap_hdr_rfc1042:
  assumes "[hi, lo] \<notin> {SNAP_ETH_TYPE_IPX, SNAP_ETH_TYPE_APPLETALK_AARP}"
  shows "snap_hdr (unat hi * 256 + unat lo) = rtw_rfc1042_header @ [hi, lo]"
proof -
  have u: "unat hi < 256" "unat lo < 256" using unsigned_less [of hi] unsigned_less [of lo] by simp_all
  have n: "unat hi * 256 + unat lo \<noteq> 0x8137 \<and> unat hi * 256 + unat lo \<noteq> 0x80f3"
  proof (rule ccontr)
    assume "\<not> (unat hi * 256 + unat lo \<noteq> 0x8137 \<and> unat hi * 256 + unat lo \<noteq> 0x80f3)"
    then have "unat hi = 0x81 \<and> unat lo = 0x37 \<or> unat hi = 0x80 \<and> unat lo = 0xf3" using u by presburger
    then have "[hi, lo] = [0x81, 0x37] \<or> [hi, lo] = [0x80, 0xf3]" by (auto simp: word_unat_eq_iff)
    then show False using assms by (auto simp: SNAP_ETH_TYPE_IPX_def SNAP_ETH_TYPE_APPLETALK_AARP_def)
  qed
  have d: "(unat hi * 256 + unat lo) div 256 = unat hi" using u by simp
  have l: "(of_nat (unat hi * 256 + unat lo) :: byte) = lo"
  proof -
    have "unat (of_nat (unat hi * 256 + unat lo) :: byte) = (unat hi * 256 + unat lo) mod 256"
      by (simp only: unat_of_nat take_bit_eq_mod) simp
    then show ?thesis using u by (simp only: word_unat_eq_iff) simp
  qed
  show ?thesis using n d l by (simp add: snap_hdr_def rtw_rfc1042_header_def)
qed

text \<open>The sequence number the access point uses next for best effort traffic.\<close>

definition next_sc :: "adapter \<Rightarrow> nat \<Rightarrow> u16" where
  "next_sc ap p = push_bit 4 (next_seqnum (sta_of ap p) 0)"

lemma next_sc_frag: "next_sc ap p AND 0x0f = 0"
proof -
  have m: "(0x0f :: u16) = mask 4" by (simp add: mask_eq_exp_minus_1)
  show ?thesis unfolding next_sc_def m by (rule bit_word_eqI) (auto simp: bit_simps)
qed

lemma open_tx_ok:
  assumes o: "open_station ap p dst" and m: "is_mac dst" "is_mac src"
    and a: "px_dst a = dst" "px_src a = src" "px_ta a = cur_bssid ap" "px_hdrlen a = 24" "px_encrypt a = NO_PRIVACY"
      "px_subtype a = WIFI_DATA_TYPE" "\<not> px_mdata a"
  shows "tx_ok FromAp ap (sta_of ap p) a"
    "tx_hdr FromAp ap (sta_of ap p) a seq = hdr3 0x0208 0 dst (cur_bssid ap) src (push_bit 4 seq)"
  using assms by (simp_all add: tx_ok_def open_station_def tx_hdr_def tx_fc_def WIFI_DATA_TYPE_def)


text \<open>An access point with one station of an open network.\<close>

definition station_mac :: mac where "station_mac = [2, 0, 0, 0, 0, 2]"

definition ap_adapter :: adapter where
  "ap_adapter = zero_adapter\<lparr>
     stapriv := zero_sta_priv\<lparr>sta_buf := (\<lambda>_. rtw_init_stainfo\<lparr>si_hwaddr := station_mac, si_state := FW_LINKED\<rparr>), sta_hash := (\<lambda>_. [0])\<rparr>,
     xmitpriv := (xmitpriv zero_adapter)\<lparr>xp_frag_len := 2346\<rparr>,
     fw_state := WIFI_AP_STATE OR FW_LINKED, cur_bssid := sample_mac\<rparr>"

lemma ap_adapter_open: "open_station ap_adapter 0 station_mac"
  by (simp add: open_station_def ap_adapter_def zero_adapter_def tx_mode_def check_fwstate_def is_mac_def IS_MCAST_def station_mac_def
      sample_mac_def rtw_get_stainfo_def sta_of_def rtw_init_stainfo_def Let_def FW_LINKED_def WIFI_AP_STATE_def WIFI_STATION_STATE_def
      WIFI_ADHOC_STATE_def WIFI_ADHOC_MASTER_STATE_def)

lemma ap_adapter_facts: "next_sc ap_adapter 0 = 0x10" "xp_frag_len (xmitpriv ap_adapter) = 2346" "cur_bssid ap_adapter = sample_mac"
  by (simp_all add: next_sc_def next_seqnum_def ap_adapter_def sta_of_def rtw_init_stainfo_def zero_adapter_def)


text \<open>The same packet, for the bytes alone.\<close>

definition tx_sample :: pkt_attrib where
  "tx_sample = (sample_px NO_PRIVACY 0 0)\<lparr>px_bswenc := False, px_ra := station_mac, px_dst := station_mac, px_ta := sample_mac,
     px_src := [2, 0, 0, 0, 0, 9], px_ether_type := 0x0800\<rparr>"


end
