(* ===== verification/UsbTx.thy ===== *)
theory UsbTx
  imports TxFrame PowerSave
begin

text \<open>
  From frames to USB transfers (\<open>hal/rtl8192du_xmit.c\<close>, \<open>os_dep/usb_ops_linux.c\<close>): the transmit
  descriptor and its checksum, the aggregation of several frames into one transfer, transfers of
  a single frame, the pools of transmit buffers and the completion of a transfer.  Early mode is
  off: nothing sets \<open>bEarlyModeEnable\<close> but to 0.
\<close>

section \<open>State\<close>

text \<open>
  What the hardware layer and the management layer have set: \<open>HAL_DATA_TYPE\<close>, \<open>dvobj_priv\<close>,
  \<open>registry_priv\<close>, \<open>mlme_ext_priv\<close> and \<open>wifidirect_info\<close>; \<open>hu_single_mac\<close> says
  \<open>MacPhyMode92D == SINGLEMAC_SINGLEPHY\<close> and \<open>hu_p2p\<close> that the P2P state is not \<open>P2P_STATE_NONE\<close>.
\<close>

record hal_usb =
  hu_ishighspeed :: bool
  hu_UsbBulkOutSize :: nat
  hu_UsbTxAggDescNum :: nat
  hu_single_mac :: bool
  hu_INIDATA_RATE :: "nat \<Rightarrow> byte"
  hu_fix_rate :: byte
  hu_tx_rate :: byte
  hu_preamble_mode :: nat
  hu_p2p :: bool
  hu_mp_mode :: bool
  hu_bTxBusyTraffic :: bool
  hu_pnp_bstop_trx :: bool

text \<open>The kernel's answer to \<open>usb_submit_urb\<close>.\<close>

datatype urb_status = UrbOk | UrbNoDev | UrbError

text \<open>
  \<open>us_bufs\<close> are the transmit buffers by index, \<open>us_ext_tag\<close> says which belong to the pool of
  management frames, \<open>us_extbuf\<close> is that pool's free queue; \<open>us_flags\<close> is the queue a buffer was last
  written to; \<open>us_urb\<close> answers the \<open>us_urb_cnt\<close>-th submission.
\<close>

record usb_state =
  us_ad :: adapter
  us_hal :: hal_usb
  us_bufs :: "nat \<Rightarrow> xmit_buf"
  us_ext_tag :: "nat \<Rightarrow> bool"
  us_extbuf :: "nat list"
  us_extbuf_cnt :: int
  us_flags :: "nat \<Rightarrow> nat"
  us_urb :: "nat \<Rightarrow> urb_status"
  us_urb_cnt :: nat

definition set_xp :: "usb_state \<Rightarrow> xmit_priv \<Rightarrow> usb_state" where
  "set_xp us xp = us\<lparr>us_ad := (us_ad us)\<lparr>xmitpriv := xp\<rparr>\<rparr>"

section \<open>Buffers\<close>

definition rtw_alloc_xmitbuf_ext :: "usb_state \<Rightarrow> nat option \<times> usb_state" where
  "rtw_alloc_xmitbuf_ext us =
     (case us_extbuf us of [] \<Rightarrow> (None, us)
      | b # bs \<Rightarrow> (Some b, us\<lparr>us_extbuf := bs, us_extbuf_cnt := us_extbuf_cnt us - 1\<rparr>))"

definition rtw_free_xmitbuf_ext :: "usb_state \<Rightarrow> nat \<Rightarrow> usb_state" where
  "rtw_free_xmitbuf_ext us b =
     us\<lparr>us_extbuf := removeAll b (us_extbuf us) @ [b], us_extbuf_cnt := us_extbuf_cnt us + 1\<rparr>"

definition rtw_alloc_xmitbuf :: "usb_state \<Rightarrow> nat option \<times> usb_state" where
  "rtw_alloc_xmitbuf us =
     (let xp = xmitpriv (us_ad us) in
      case free_xmitbuf_queue xp of [] \<Rightarrow> (None, us)
      | b # bs \<Rightarrow> (Some b, set_xp us (xp\<lparr>free_xmitbuf_queue := bs, free_xmitbuf_cnt := free_xmitbuf_cnt xp - 1\<rparr>)))"

definition rtw_free_xmitbuf :: "usb_state \<Rightarrow> nat \<Rightarrow> usb_state" where
  "rtw_free_xmitbuf us b =
     (if us_ext_tag us b then rtw_free_xmitbuf_ext us b
      else let xp = xmitpriv (us_ad us) in
        set_xp us (xp\<lparr>free_xmitbuf_queue := removeAll b (free_xmitbuf_queue xp) @ [b],
                      free_xmitbuf_cnt := free_xmitbuf_cnt xp + 1\<rparr>))"

definition free_frame :: "usb_state \<Rightarrow> xmit_frame \<Rightarrow> usb_state" where
  "free_frame us f = set_xp us (rtw_free_xmitframe (xmitpriv (us_ad us)) f)"

section \<open>The transmit descriptor\<close>

record tx_desc =
  txdw0 :: u32
  txdw1 :: u32
  txdw2 :: u32
  txdw3 :: u32
  txdw4 :: u32
  txdw5 :: u32
  txdw6 :: u32
  txdw7 :: u32

definition zero_desc :: tx_desc where
  "zero_desc = \<lparr>txdw0 = 0, txdw1 = 0, txdw2 = 0, txdw3 = 0, txdw4 = 0, txdw5 = 0, txdw6 = 0, txdw7 = 0\<rparr>"

definition desc_words :: "tx_desc \<Rightarrow> u32 list" where
  "desc_words d = [txdw0 d, txdw1 d, txdw2 d, txdw3 d, txdw4 d, txdw5 d, txdw6 d, txdw7 d]"

definition desc_bytes :: "tx_desc \<Rightarrow> byte list" where
  "desc_bytes d = concat (map le32_bytes (desc_words d))"

definition desc_halves :: "tx_desc \<Rightarrow> u16 list" where
  "desc_halves d = concat (map (\<lambda>w. [ucast w, ucast (drop_bit 16 w)]) (desc_words d))"

definition rtl8192du_cal_txdesc_chksum :: "tx_desc \<Rightarrow> tx_desc" where
  "rtl8192du_cal_txdesc_chksum d =
     (let d0 = d\<lparr>txdw7 := txdw7 d AND 0xffff0000\<rparr>
      in d0\<lparr>txdw7 := txdw7 d0 OR ucast (foldl (XOR) 0 (desc_halves d0))\<rparr>)"

definition rtw_get_ff_hwaddr :: "nat \<Rightarrow> nat" where
  "rtw_get_ff_hwaddr qsel =
     (if qsel = 0 \<or> qsel = 3 then 2 else if qsel = 1 \<or> qsel = 2 then 3
      else if qsel = 4 \<or> qsel = 5 then 1 else if qsel = 6 \<or> qsel = 7 then 0
      else if qsel = 0x10 then 4 else if qsel = 0x11 then 6 else if qsel = 0x12 then 5 else 2)"

definition urb_zero_packet_chk :: "hal_usb \<Rightarrow> nat \<Rightarrow> bool" where
  "urb_zero_packet_chk hu sz \<longleftrightarrow> (sz + TXDESC_SIZE) mod (if hu_ishighspeed hu then 512 else 64) = 0"

definition fill_txdesc_sectype :: "pkt_attrib \<Rightarrow> u32 \<Rightarrow> u32" where
  "fill_txdesc_sectype a w =
     (if px_encrypt a \<noteq> NO_PRIVACY \<and> \<not> px_bswenc a then
        (case px_encrypt a of
           WEP40 \<Rightarrow> w OR 0x00400000 | WEP104 \<Rightarrow> w OR 0x00400000
         | TKIP \<Rightarrow> w OR 0x00400000 | TKIP_WTMIC \<Rightarrow> w OR 0x00400000
         | AES \<Rightarrow> w OR 0x00c00000 | NO_PRIVACY \<Rightarrow> w)
      else w)"

definition sub_channel :: "nat \<Rightarrow> u32" where
  "sub_channel ch_offset =
     (if ch_offset = HAL_PRIME_CHNL_OFFSET_LOWER then 1 else if ch_offset = HAL_PRIME_CHNL_OFFSET_UPPER then 2
      else if ch_offset = HAL_PRIME_CHNL_OFFSET_DONT_CARE then 0 else 3)"

definition fill_txdesc_vcs :: "pkt_attrib \<Rightarrow> u32 \<Rightarrow> u32" where
  "fill_txdesc_vcs a w =
     (let w1 = w OR (if px_vcs_mode a = RTS_CTS then 0x1000 else if px_vcs_mode a = CTS_TO_SELF then 0x0800 else 0) in
      if px_vcs_mode a \<noteq> 0 then
        w1 OR 0x2000 OR (if px_ht_en a then (if odd (px_bwmode a) then 0x08000000 else 0) OR push_bit 28 (sub_channel (px_ch_offset a))
                         else 0)
      else w1)"

definition fill_txdesc_phy :: "pkt_attrib \<Rightarrow> u32 \<Rightarrow> u32" where
  "fill_txdesc_phy a w =
     (if px_ht_en a then w OR (if odd (px_bwmode a) then 0x02000000 else 0) OR push_bit 20 (sub_channel (px_ch_offset a)) else w)"

definition MRateToHwRate :: "byte \<Rightarrow> byte" where
  "MRateToHwRate rate =
     (case map_of (zip [0x02, 0x04, 0x0B, 0x16, 0x0C, 0x12, 0x18, 0x24, 0x30, 0x48, 0x60, 0x6C]
                       [0x00, 0x01, 0x02, 0x03, 0x04, 0x05, 0x06, 0x07, 0x08, 0x09, 0x0a, 0x0b]) rate of
        None \<Rightarrow> 0 | Some r \<Rightarrow> r)"

text \<open>The identifier of the station's key entry, the queue and the rate table.\<close>

definition desc_ids :: "pkt_attrib \<Rightarrow> u32" where
  "desc_ids a = (of_nat (px_mac_id a) AND 0x1f) OR (push_bit 8 (of_nat (px_qsel a) AND 0x1f) AND 0x00001f00)
     OR (push_bit 16 (of_nat (px_raid a)) AND 0x000f0000)"

definition low_rate_packet :: "pkt_attrib \<Rightarrow> bool" where
  "low_rate_packet a \<longleftrightarrow> px_ether_type a = 0x888e \<or> px_ether_type a = 0x0806 \<or> px_dhcp_pkt a"

definition USERATE :: u32 where "USERATE = 0x100"
definition DISDATAFB :: u32 where "DISDATAFB = 0x400"
definition SGI :: u32 where "SGI = 0x40"

definition desc_rate :: "hal_usb \<Rightarrow> pkt_attrib \<Rightarrow> tx_desc \<Rightarrow> tx_desc" where
  "desc_rate hu a d =
     (if \<not> low_rate_packet a then
        let w4 = fill_txdesc_phy a (fill_txdesc_vcs a (txdw4 d)) OR 0x00000008;
            w5 = txdw5 d OR 0x0001ff00;
            fix = (hu_fix_rate hu \<noteq> 0xFF)
        in d\<lparr>txdw4 := (if fix then w4 OR USERATE OR DISDATAFB else w4),
             txdw5 := (if fix then (if bit (hu_fix_rate hu) 7 then w5 OR SGI else w5 AND NOT SGI) else w5)
                      OR ucast (if fix then hu_fix_rate hu AND 0x3F else hu_INIDATA_RATE hu (px_mac_id a))\<rparr>
      else d\<lparr>txdw1 := txdw1 d OR 0x40,
             txdw4 := txdw4 d OR USERATE OR (if hu_preamble_mode hu = PREAMBLE_SHORT then 0x01000000 else 0),
             txdw5 := txdw5 d OR ucast (MRateToHwRate (hu_tx_rate hu))\<rparr>)"

definition desc_data :: "usb_state \<Rightarrow> pkt_attrib \<Rightarrow> tx_desc" where
  "desc_data us a =
     (let hu = us_hal us;
          d1 = zero_desc\<lparr>txdw1 := fill_txdesc_sectype a (desc_ids a) OR (if px_ampdu_en a then 0x20 else 0x40),
                         txdw3 := push_bit 16 (ucast (px_seqnum a)),
                         txdw4 := (if px_qos_en a then 0x40 else 0)\<rparr>;
          d2 = desc_rate hu a d1
      in if wifi_spec (us_ad us) \<and> hu_p2p hu
         then d2\<lparr>txdw1 := txdw1 d2 OR 0x40, txdw4 := txdw4 d2 OR USERATE, txdw5 := 0x0001ff00 OR 0x4\<rparr> else d2)"

definition desc_mgnt :: "usb_state \<Rightarrow> xmit_frame \<Rightarrow> tx_desc" where
  "desc_mgnt us f =
     (let a = xf_attrib f; hu = us_hal us in
      zero_desc\<lparr>txdw1 := desc_ids a, txdw2 := (if xf_ack_report f then 0x80000 else 0),
                txdw3 := push_bit 16 (ucast (px_seqnum a)), txdw4 := USERATE,
                txdw5 := (if check_fwstate (us_ad us) WIFI_AP_STATE
                          then 0x20000 OR (if hu_p2p hu then 0x00080000 else 0x00180000) else 0)
                         OR ucast (MRateToHwRate (hu_tx_rate hu))\<rparr>)"

definition TXAGG_FRAMETAG :: nat where "TXAGG_FRAMETAG = 8"

definition desc_other :: "usb_state \<Rightarrow> pkt_attrib \<Rightarrow> tx_desc" where
  "desc_other us a =
     zero_desc\<lparr>txdw1 := 4 OR push_bit 16 6, txdw3 := push_bit 16 (ucast (px_seqnum a)), txdw4 := USERATE,
               txdw5 := ucast (MRateToHwRate (hu_tx_rate (us_hal us)))\<rparr>"

text \<open>
  The common part: \<open>off\<close> and \<open>agg\<close> are the frame's \<open>pkt_offset\<close> and \<open>agg_num\<close>.  The 8 shifted by 28
  is \<open>BIT(31)\<close>.
\<close>

definition desc_common :: "pkt_attrib \<Rightarrow> nat \<Rightarrow> nat \<Rightarrow> nat \<Rightarrow> tx_desc \<Rightarrow> tx_desc" where
  "desc_common a off agg sz d =
     d\<lparr>txdw0 := txdw0 d OR (of_nat sz AND 0xffff) OR 0x8c000000 OR (push_bit 16 (of_nat TXDESC_SIZE) AND 0x00ff0000)
                OR (if IS_MCAST (px_ra a) then 0x01000000 else 0),
       txdw1 := txdw1 d OR (if off > 0 then push_bit 26 (of_nat off) AND 0x7c000000 else 0),
       txdw3 := (if px_qos_en a then txdw3 d else txdw3 d OR 0x80000000),
       txdw4 := (if px_qos_en a then txdw4 d else txdw4 d OR 0x80),
       txdw5 := txdw5 d OR (if agg > 1 then push_bit 24 (of_nat agg) AND 0xff000000 else 0)\<rparr>"

text \<open>
  \<open>update_txdesc\<close>: the descriptor, whether it goes eight bytes further (\<open>pull\<close>), and the frame, whose
  \<open>pkt_offset\<close> has eight bits.
\<close>

definition update_txdesc :: "usb_state \<Rightarrow> xmit_frame \<Rightarrow> nat \<Rightarrow> bool \<Rightarrow> tx_desc \<times> bool \<times> xmit_frame" where
  "update_txdesc us f sz bagg_pkt =
     (let pull = (\<not> hu_mp_mode (us_hal us) \<and> \<not> bagg_pkt \<and> \<not> urb_zero_packet_chk (us_hal us) sz);
          f1 = (if pull then f\<lparr>xf_pkt_offset := (xf_pkt_offset f + 255) mod 256\<rparr> else f);
          a = xf_attrib f1; tag = xf_frame_tag f1 mod 16;
          d = (if tag = DATA_FRAMETAG then desc_data us a
               else if tag = MGNT_FRAMETAG then desc_mgnt us f1
               else if tag = TXAGG_FRAMETAG then zero_desc
               else desc_other us a)
      in (rtl8192du_cal_txdesc_chksum (desc_common a (xf_pkt_offset f1) (xf_agg_num f1) sz d), pull, f1))"

text \<open>Writing the descriptor at an offset of a buffer.\<close>

definition put_desc :: "usb_state \<Rightarrow> nat \<Rightarrow> nat \<Rightarrow> tx_desc \<Rightarrow> usb_state option" where
  "put_desc us b off d = do {
     m \<leftarrow> wr_slice (xb_mem (us_bufs us b)) off (desc_bytes d);
     Some (us\<lparr>us_bufs := (us_bufs us)(b := (us_bufs us b)\<lparr>xb_mem := m\<rparr>)\<rparr>) }"

section \<open>Transfers\<close>

definition irp_ac :: "nat \<Rightarrow> bool" where
  "irp_ac addr \<longleftrightarrow> addr < 4"

text \<open>
  \<open>usb_write_port\<close> submits \<open>cnt\<close> bytes of buffer \<open>b\<close> from \<open>off\<close> on (the frame's \<open>buf_addr\<close>).  A refused transfer frees
  the buffer.
\<close>

definition usb_write_port :: "usb_state \<Rightarrow> nat \<Rightarrow> nat \<Rightarrow> nat \<Rightarrow> nat \<Rightarrow> (nat \<times> usb_state) option" where
  "usb_write_port us addr b off cnt =
     (if bDriverStopped (us_ad us) \<or> bSurpriseRemoved (us_ad us) \<or> hu_pnp_bstop_trx (us_hal us)
      then Some (FAIL, rtw_free_xmitbuf us b)
      else
        let xp = xmitpriv (us_ad us);
            us1 = (set_xp us (xp\<lparr>xp_irp_cnt := (if irp_ac addr then (xp_irp_cnt xp)(addr := xp_irp_cnt xp addr + 1) else xp_irp_cnt xp)\<rparr>))
                    \<lparr>us_flags := (us_flags us)(b := if irp_ac addr \<or> addr = 6 then addr else 5), us_urb_cnt := us_urb_cnt us + 1\<rparr>
        in case us_urb us (us_urb_cnt us) of
             UrbOk \<Rightarrow> do {
               bytes \<leftarrow> rd_slice (xb_mem (us_bufs us b)) off cnt;
               Some (SUCCESS, us1\<lparr>us_ad := (us_ad us1)\<lparr>usb_out := usb_out (us_ad us1) @ [(addr, bytes)]\<rparr>\<rparr>) }
           | UrbNoDev \<Rightarrow> Some (FAIL, rtw_free_xmitbuf (us1\<lparr>us_ad := (us_ad us1)\<lparr>bDriverStopped := True\<rparr>\<rparr>) b)
           | UrbError \<Rightarrow> Some (FAIL, rtw_free_xmitbuf us1 b))"

text \<open>
  The end of a transfer: what the status means for the interface.  A status of \<open>-EPIPE\<close> or \<open>-EPROTO\<close> asks
  for a reset, which is not modelled.
\<close>

datatype complete_status = CompOk | CompPipe | CompInprogress | CompNoent | CompConnreset | CompShutdown | CompOther

definition usb_write_port_complete :: "usb_state \<Rightarrow> nat \<Rightarrow> bool \<Rightarrow> complete_status \<Rightarrow> usb_state" where
  "usb_write_port_complete us b cancelled st =
     (let xp = xmitpriv (us_ad us); fl = us_flags us b;
          us1 = set_xp us (xp\<lparr>xp_irp_cnt := (if irp_ac fl then (xp_irp_cnt xp)(fl := xp_irp_cnt xp fl - 1) else xp_irp_cnt xp)\<rparr>);
          ad = us_ad us1;
          us2 = (if bSurpriseRemoved ad \<or> bDriverStopped ad \<or> cancelled then us1
                 else if st = CompShutdown then us1\<lparr>us_ad := ad\<lparr>bDriverStopped := True\<rparr>\<rparr>
                 else if st = CompOther then us1\<lparr>us_ad := ad\<lparr>bSurpriseRemoved := True\<rparr>\<rparr>
                 else us1);
          us3 = rtw_free_xmitbuf us2 b
      in us3\<lparr>us_ad := request_of (us_ad us3) XmitTasklet\<rparr>)"

text \<open>\<open>rtw_issue_addbareq_cmd\<close> of \<open>core/rtw_mlme.c\<close>; a shift beyond the byte gives 0.\<close>

definition rtw_issue_addbareq_cmd :: "usb_state \<Rightarrow> xmit_frame \<Rightarrow> usb_state" where
  "rtw_issue_addbareq_cmd us f =
     (let a = xf_attrib f; ad = us_ad us; prio = px_priority a in
      if IS_MCAST (px_ra a) \<or> \<not> hu_bTxBusyTraffic (us_hal us) then us
      else case attr_sta ad a of None \<Rightarrow> us
      | Some p \<Rightarrow>
          let si = sta_of ad p; ht = si_htpriv si in
          if si_state si AND FW_LINKED = 0 then us
          else if hp_ht_option ht \<and> hp_ampdu_enable ht \<and> \<not> bit (hp_agg_enable_bitmap ht) prio \<and> \<not> bit (hp_candidate_tid_bitmap ht) prio
          then us\<lparr>us_ad := request_of (set_sta ad p (si\<lparr>si_htpriv := ht\<lparr>hp_candidate_tid_bitmap :=
                      hp_candidate_tid_bitmap ht OR push_bit prio 1\<rparr>\<rparr>)) (AddbaReq (px_ra a) prio)\<rparr>
          else us)"

section \<open>A frame in a transfer of its own\<close>

text \<open>
  The loop of \<open>rtw_dump_xframe\<close>: \<open>n\<close> fragments are left; \<open>mem_addr\<close> and \<open>ba\<close>, the frame's \<open>buf_addr\<close>, are
  offsets in the buffer, which starts at a multiple of 4; \<open>inner\<close> is \<open>inner_ret == _SUCCESS\<close>, \<open>ok\<close> is
  \<open>ret == _SUCCESS\<close>.  A fragment size below 0 would be taken for a huge one.
\<close>

fun dump_frags :: "usb_state \<Rightarrow> xmit_frame \<Rightarrow> nat \<Rightarrow> nat \<Rightarrow> nat \<Rightarrow> nat \<Rightarrow> bool \<Rightarrow> bool \<Rightarrow> (bool \<times> usb_state \<times> xmit_frame) option" where
  "dump_frags us f b 0 mem_addr ba inner ok = Some (ok, us, f)"
| "dump_frags us f b (Suc n) mem_addr ba inner ok =
     (let ok1 = (ok \<and> inner); ad = us_ad us; a = xf_attrib f;
          cut = 4 + (if sec_sw_encrypt (securitypriv ad) then 0 else px_icv_len a);
          sz = (if n \<noteq> 0 then xp_frag_len (xmitpriv ad) - cut else px_last_txcmdsz a)
      in if n \<noteq> 0 \<and> xp_frag_len (xmitpriv ad) < cut then None
         else
           let (d, pull, f1) = update_txdesc us f sz False;
               mem1 = (if pull then mem_addr + PACKET_OFFSET_SZ else mem_addr);
               ba1 = (if pull then mem1 else ba);
               w_sz = sz + TXDESC_SIZE + (if pull then 0 else PACKET_OFFSET_SZ)
           in do {
             us1 \<leftarrow> put_desc us b mem1 d;
             (r, us2) \<leftarrow> usb_write_port us1 (rtw_get_ff_hwaddr (px_qsel a)) b ba1 w_sz;
             dump_frags us2 f1 b n (RND4 (mem1 + w_sz)) ba1 (r = SUCCESS) ok1 })"

definition rtw_dump_xframe :: "usb_state \<Rightarrow> xmit_frame \<Rightarrow> nat \<Rightarrow> (nat \<times> usb_state) option" where
  "rtw_dump_xframe us f b =
     (let us0 = (if xf_frame_tag f = DATA_FRAMETAG \<and> \<not> low_rate_packet (xf_attrib f) then rtw_issue_addbareq_cmd us f else us) in do {
        (ok, us1, f1) \<leftarrow> dump_frags us0 f b (px_nr_frags (xf_attrib f)) 0 0 True True;
        Some (if ok then SUCCESS else FAIL, free_frame us1 f1) })"

definition rtl8192du_mgnt_xmit :: "usb_state \<Rightarrow> xmit_frame \<Rightarrow> nat \<Rightarrow> (nat \<times> usb_state) option" where
  "rtl8192du_mgnt_xmit us f b = rtw_dump_xframe us f b"

text \<open>
  \<open>rtw_xmitframe_coalesce\<close> into buffer \<open>b\<close> with \<open>buf_addr\<close> at \<open>off\<close>.  A frame without a packet would be
  an access through a null pointer.
\<close>

definition coalesce_into :: "usb_state \<Rightarrow> xmit_frame \<Rightarrow> nat \<Rightarrow> nat \<Rightarrow> (nat \<times> usb_state \<times> xmit_frame) option" where
  "coalesce_into us f b off =
     (let buf = us_bufs us b in
      case xf_pkt f of None \<Rightarrow> None
      | Some pkt \<Rightarrow>
          if length (xb_mem buf) < off then None
          else do {
            (res, a, xb, ad) \<leftarrow> rtw_xmitframe_coalesce (us_ad us) pkt (xf_attrib f) (xf_pkt_offset f)
                                 (Some \<lparr>xb_addr = xb_addr buf + off, xb_mem = drop off (xb_mem buf)\<rparr>);
            Some (res, us\<lparr>us_ad := ad, us_bufs := (us_bufs us)(b := buf\<lparr>xb_mem := take off (xb_mem buf) @ xb_mem (the xb)\<rparr>)\<rparr>,
                  f\<lparr>xf_attrib := a\<rparr>) })"

definition xmitframe_direct :: "usb_state \<Rightarrow> xmit_frame \<Rightarrow> nat \<Rightarrow> (nat \<times> usb_state \<times> xmit_frame) option" where
  "xmitframe_direct us f b = do {
     (res, us1, f1) \<leftarrow> coalesce_into us f b 0;
     if res = SUCCESS then map_option (\<lambda>(_, us2). (res, us2, f1)) (rtw_dump_xframe us1 f1 b)
     else Some (res, us1, f1) }"

definition FW_UNDER_SURVEY :: u32 where "FW_UNDER_SURVEY = 0x800"

text \<open>\<open>pre_xmitframe\<close>: the result says whether the frame was dealt with; else it is queued.\<close>

definition hal_pre_xmitframe :: "usb_state \<Rightarrow> xmit_frame \<Rightarrow> (bool \<times> usb_state) option" where
  "hal_pre_xmitframe us f =
     (let ad = us_ad us;
          enqueue = (\<lambda>us. case rtw_xmitframe_enqueue (us_ad us) f of (res, ad1) \<Rightarrow>
             if res \<noteq> SUCCESS then (True, free_frame (us\<lparr>us_ad := ad1\<rparr>) f) else (False, us\<lparr>us_ad := ad1\<rparr>))
      in if rtw_txframes_sta_ac_pending ad f > 0 \<or> check_fwstate ad (FW_UNDER_SURVEY OR WIFI_UNDER_LINKING) then Some (enqueue us)
         else case rtw_alloc_xmitbuf us of (None, us1) \<Rightarrow> Some (enqueue us1)
         | (Some b, us1) \<Rightarrow> do {
             (res, us2, f2) \<leftarrow> xmitframe_direct us1 f b;
             Some (True, if res \<noteq> SUCCESS then free_frame (rtw_free_xmitbuf us2 b) f2 else us2) })"

definition rtl8192du_hal_xmit :: "usb_state \<Rightarrow> xmit_frame \<Rightarrow> (bool \<times> usb_state) option" where
  "rtl8192du_hal_xmit us f = hal_pre_xmitframe us f"

section \<open>Aggregation\<close>

definition MAX_XMITBUF_SZ :: nat where "MAX_XMITBUF_SZ = 20480"
definition USB_92D_DUMMY_OFFSET :: nat where "USB_92D_DUMMY_OFFSET = 2"
definition USB_HWDESC_HEADER_LEN :: nat where
  "USB_HWDESC_HEADER_LEN = TXDESC_SIZE + USB_92D_DUMMY_OFFSET * PACKET_OFFSET_SZ"
definition MAX_TX_AGG_PACKET_NUMBER :: nat where "MAX_TX_AGG_PACKET_NUMBER = 255"
definition QSLT_HIGH :: nat where "QSLT_HIGH = 0x11"

definition RND8 :: "nat \<Rightarrow> nat" where
  "RND8 sz = (sz + 7) div 8 * 8"

definition xmitframe_need_length :: "xmit_frame \<Rightarrow> nat" where
  "xmitframe_need_length f =
     (let a = xf_attrib f in px_hdrlen a + px_iv_len a + 8 + px_pktlen a + (if px_bswenc a then px_icv_len a else 0)
        + (if px_encrypt a = TKIP then 8 else 0))"

definition rtw_hal_busagg_qsel_check :: "adapter \<Rightarrow> nat \<Rightarrow> nat \<Rightarrow> bool" where
  "rtw_hal_busagg_qsel_check ad pre_qsel next_qsel \<longleftrightarrow>
     \<not> (check_fwstate ad WIFI_AP_STATE \<and> (pre_qsel = QSLT_HIGH \<or> next_qsel = QSLT_HIGH) \<and> pre_qsel \<noteq> next_qsel)"

definition aggMaxLength :: "usb_state \<Rightarrow> nat" where
  "aggMaxLength us = (if hu_single_mac (us_hal us) then MAX_XMITBUF_SZ else 0x3D00)"

text \<open>
  What the loop keeps: the first frame, the place of the next frame \<open>pbuf\<close>, the end of the last one
  \<open>pbuf_tail\<close>, and the count of descriptors in the current bulk packet.
\<close>

record agg_state =
  ag_first :: xmit_frame
  ag_pbuf :: nat
  ag_tail :: nat
  ag_descCount :: nat
  ag_bulkPtr :: nat

text \<open>The check of the bulk packet; the first result says that the loop ends.\<close>

definition bulk_check :: "hal_usb \<Rightarrow> agg_state \<Rightarrow> bool \<times> agg_state" where
  "bulk_check hu g =
     (if ag_pbuf g < ag_bulkPtr g
      then (ag_descCount g + 1 = hu_UsbTxAggDescNum hu, g\<lparr>ag_descCount := ag_descCount g + 1\<rparr>)
      else (False, g\<lparr>ag_descCount := 0, ag_bulkPtr := (ag_pbuf g div hu_UsbBulkOutSize hu + 1) * hu_UsbBulkOutSize hu\<rparr>))"

text \<open>
  The first frame: frames that cannot be built are dropped; without any frame the buffer goes back.  The service
  queue of a frame without a station would be one at a null pointer.
\<close>

partial_function (option) pick_first :: "usb_state \<Rightarrow> nat \<Rightarrow> (agg_state option \<times> usb_state) option" where
  "pick_first us b =
     (case rtw_dequeue_xframe (us_ad us) of
        (None, ad1) \<Rightarrow> Some (None, rtw_free_xmitbuf (us\<lparr>us_ad := ad1\<rparr>) b)
      | (Some f, ad1) \<Rightarrow>
          (case px_psta (xf_attrib f) of None \<Rightarrow> None | Some p \<Rightarrow> do {
             (res, us1, f1) \<leftarrow> coalesce_into (us\<lparr>us_ad := ad1\<rparr>) (f\<lparr>xf_pkt_offset := USB_92D_DUMMY_OFFSET\<rparr>) b 0;
             if res = FAIL then pick_first (free_frame us1 f1) b
             else let f2 = f1\<lparr>xf_pkt := None\<rparr>; len = xmitframe_need_length f2 + USB_HWDESC_HEADER_LEN in
               Some (Some \<lparr>ag_first = f2, ag_pbuf = RND8 len, ag_tail = len, ag_descCount = 0,
                           ag_bulkPtr = hu_UsbBulkOutSize (us_hal us1)\<rparr>, us1) }))"

text \<open>The next frame of the same station and category, if it may join: it is taken off its queue.\<close>

definition next_agg_frame :: "usb_state \<Rightarrow> agg_state \<Rightarrow> (xmit_frame \<times> nat \<times> usb_state) option" where
  "next_agg_frame us g =
     (let ad = us_ad us; a = xf_attrib (ag_first g); p = the (px_psta a); ac = rtw_get_sta_pending (px_priority a);
          q = get_servq (sta_of ad p) ac
      in case sv_pending q of [] \<Rightarrow> None
      | f # fs \<Rightarrow>
          let len = xmitframe_need_length f + TXDESC_SIZE + (USB_92D_DUMMY_OFFSET - 1) * PACKET_OFFSET_SZ in
          if \<not> rtw_hal_busagg_qsel_check ad (px_qsel a) (px_qsel (xf_attrib f)) then None
          else if ag_pbuf g + RND8 len > aggMaxLength us then None
          else
            let ad1 = set_sta ad p (set_servq (sta_of ad p) ac (q\<lparr>sv_pending := fs, sv_qcnt := sv_qcnt q - 1\<rparr>));
                xp = xmitpriv ad1
            in Some (f, len, us\<lparr>us_ad := ad1\<lparr>xmitpriv := xp\<lparr>
                 hwxmits_accnt := (hwxmits_accnt xp)(ac := hwxmits_accnt xp ac - 1),
                 hw_sta_queue := (if fs = [] then (hw_sta_queue xp)(ac := removeAll p (hw_sta_queue xp ac))
                                  else hw_sta_queue xp)\<rparr>\<rparr>\<rparr>))"

text \<open>A frame that has been built gets its descriptor and is released.\<close>

definition add_agg_frame :: "usb_state \<Rightarrow> agg_state \<Rightarrow> nat \<Rightarrow> xmit_frame \<Rightarrow> nat \<Rightarrow> (agg_state \<times> usb_state) option" where
  "add_agg_frame us g b f len =
     (let (d, _, f1) = update_txdesc us (f\<lparr>xf_pkt := None\<rparr>) (px_last_txcmdsz (xf_attrib f)) True in do {
        us1 \<leftarrow> put_desc us b (ag_pbuf g) d;
        Some (g\<lparr>ag_first := (ag_first g)\<lparr>xf_agg_num := (xf_agg_num (ag_first g) + 1) mod 256\<rparr>,
                ag_tail := ag_pbuf g + len, ag_pbuf := RND8 (ag_pbuf g + len)\<rparr>, free_frame us1 f1) })"

partial_function (option) agg_loop :: "usb_state \<Rightarrow> agg_state \<Rightarrow> nat \<Rightarrow> (agg_state \<times> usb_state) option" where
  "agg_loop us g b =
     (case next_agg_frame us g of None \<Rightarrow> Some (g, us)
      | Some (f, len, us1) \<Rightarrow> do {
          (res, us2, f2) \<leftarrow> coalesce_into us1 (f\<lparr>xf_agg_num := 0, xf_pkt_offset := USB_92D_DUMMY_OFFSET - 1\<rparr>) b (ag_pbuf g);
          if res = FAIL then agg_loop (free_frame us2 f2) g b
          else do {
            (g1, us3) \<leftarrow> add_agg_frame us2 g b f2 len;
            if xf_agg_num (ag_first g1) = MAX_TX_AGG_PACKET_NUMBER then Some (g1, us3)
            else case bulk_check (us_hal us3) g1 of (stop, g2) \<Rightarrow> if stop then Some (g2, us3) else agg_loop us3 g2 b } })"

text \<open>The end: the descriptor of the first frame, whose dummy offset shrinks if the transfer would fill its last packet.\<close>

definition finish_agg :: "usb_state \<Rightarrow> agg_state \<Rightarrow> nat \<Rightarrow> usb_state option" where
  "finish_agg us g b =
     (let f = ag_first g;
          us0 = (if \<not> low_rate_packet (xf_attrib f) then rtw_issue_addbareq_cmd us f else us);
          shrink = (ag_tail g mod hu_UsbBulkOutSize (us_hal us) = 0);
          base = (if shrink then PACKET_OFFSET_SZ else 0);
          f1 = (if shrink then f\<lparr>xf_pkt_offset := (xf_pkt_offset f + 255) mod 256\<rparr> else f);
          (d, _, f2) = update_txdesc us0 f1 (px_last_txcmdsz (xf_attrib f1)) True
      in do {
        us1 \<leftarrow> put_desc us0 b base d;
        (_, us2) \<leftarrow> usb_write_port us1 (rtw_get_ff_hwaddr (px_qsel (xf_attrib f2))) b base (ag_tail g - base);
        Some (free_frame us2 f2) })"

definition rtl8192du_xmitframe_complete :: "usb_state \<Rightarrow> nat option \<Rightarrow> (bool \<times> usb_state) option" where
  "rtl8192du_xmitframe_complete us pxmitbuf =
     (case (case pxmitbuf of Some b \<Rightarrow> (Some b, us) | None \<Rightarrow> rtw_alloc_xmitbuf us) of
        (None, us1) \<Rightarrow> Some (False, us1)
      | (Some b, us1) \<Rightarrow> do {
          (first, us2) \<leftarrow> pick_first us1 b;
          (case first of None \<Rightarrow> Some (False, us2)
           | Some g \<Rightarrow> do {
               (stop, g1) \<leftarrow> Some (bulk_check (us_hal us2) g);
               (g2, us3) \<leftarrow> (if stop then Some (g1, us2) else agg_loop us2 g1 b);
               us4 \<leftarrow> finish_agg us3 g2 b;
               Some (True, us4) }) })"

text \<open>The tasklet: one transfer after the other while there are frames and buffers.\<close>

partial_function (option) xmit_tasklet_loop :: "usb_state \<Rightarrow> usb_state option" where
  "xmit_tasklet_loop us =
     (if bDriverStopped (us_ad us) \<or> bSurpriseRemoved (us_ad us) then Some us
      else do {
        (ret, us1) \<leftarrow> rtl8192du_xmitframe_complete us None;
        if \<not> ret then Some us1 else xmit_tasklet_loop us1 })"

definition rtl8192du_xmit_tasklet :: "usb_state \<Rightarrow> usb_state option" where
  "rtl8192du_xmit_tasklet us = (if check_fwstate (us_ad us) FW_UNDER_SURVEY then Some us else xmit_tasklet_loop us)"

end
