(* ===== verification/UsbTxProofs.thy ===== *)
theory UsbTxProofs
  imports UsbTx TxTheorems
begin

text \<open>
  What an aggregate on the USB looks like: the transfer taken apart by its descriptors gives the
  frames that were built from the queued packets, in their order.
\<close>

section \<open>Reading a descriptor\<close>

definition le32 :: "byte list \<Rightarrow> u32" where
  "le32 bs = get_be32 (bs ! 3) (bs ! 2) (bs ! 1) (bs ! 0)"

lemma le32_le32_bytes: "le32 (le32_bytes w @ x) = w"
proof (rule bit_word_eqI)
  fix n :: nat
  assume n: "n < LENGTH(32)"
  consider "n < 8" | "8 \<le> n" "n < 16" | "16 \<le> n" "n < 24" | "24 \<le> n" "n < 32" using n by fastforce
  then show "bit (le32 (le32_bytes w @ x)) n \<longleftrightarrow> bit w n"
    by cases (auto simp: le32_def le32_bytes_def get_be32_def bit_simps)
qed

lemma length_desc_bytes [simp]: "length (desc_bytes d) = 32"
  by (simp add: desc_bytes_def desc_words_def)

text \<open>Length of the packet, and the place where it starts behind the descriptor.\<close>

definition desc_sz :: "byte list \<Rightarrow> nat" where
  "desc_sz bs = unat (le32 bs AND 0xffff)"

definition desc_start :: "byte list \<Rightarrow> nat" where
  "desc_start bs = unat (drop_bit 16 (le32 bs) AND 0xff) + 8 * unat (drop_bit 26 (le32 (drop 4 bs)) AND 0x1f)"

text \<open>The hardware's view of a transfer: \<open>n\<close> descriptors, each with its frame, at multiples of eight.\<close>

fun agg_frames :: "nat \<Rightarrow> byte list \<Rightarrow> byte list list option" where
  "agg_frames 0 bs = Some []"
| "agg_frames (Suc n) bs =
     (if length bs < 32 then None
      else case rd_slice bs (desc_start bs) (desc_sz bs) of None \<Rightarrow> None
      | Some f \<Rightarrow> map_option ((#) f) (agg_frames n (drop (RND8 (desc_start bs + desc_sz bs)) bs)))"

lemma txdw1_data: "drop_bit 26 (txdw1 (desc_data us a)) AND 0x1f = 0"
proof -
  have i: "drop_bit 26 (desc_ids a) = 0"
    by (simp add: desc_ids_def drop_bit_and drop_bit_or)
  have s: "drop_bit 26 (fill_txdesc_sectype a (desc_ids a)) = 0"
    by (simp add: fill_txdesc_sectype_def drop_bit_or i split: enc_alg.split)
  show ?thesis by (simp add: desc_data_def Let_def desc_rate_def drop_bit_or s zero_desc_def)
qed

lemma txdw0_data: "txdw0 (desc_data us a) = 0"
  by (simp add: desc_data_def Let_def desc_rate_def zero_desc_def)

lemma chksum_words [simp]:
  "txdw0 (rtl8192du_cal_txdesc_chksum d) = txdw0 d" "txdw1 (rtl8192du_cal_txdesc_chksum d) = txdw1 d"
  by (simp_all add: rtl8192du_cal_txdesc_chksum_def Let_def)

lemma foldl_xor: "foldl (XOR) x ws = x XOR foldl (XOR) 0 (ws :: u16 list)"
proof (induction ws arbitrary: x)
  case (Cons w ws)
  show ?case using Cons [of "x XOR w"] Cons [of w] by (simp add: xor.assoc)
qed simp

lemma ucast_or_low: "(ucast ((w AND 0xffff0000) OR ucast c :: u32) :: u16) = c"
  "(ucast (w AND 0xffff0000 :: u32) :: u16) = 0" "(ucast (drop_bit 16 (w AND 0xffff0000 :: u32)) :: u16) = ucast (drop_bit 16 w)"
  "(ucast (drop_bit 16 ((w AND 0xffff0000) OR ucast c :: u32)) :: u16) = ucast (drop_bit 16 w)"
proof -
  have m: "(0xffff0000 :: u32) = push_bit 16 (mask 16)" by (simp add: mask_eq_exp_minus_1)
  show "(ucast ((w AND 0xffff0000) OR ucast c :: u32) :: u16) = c"
    unfolding m by (rule bit_word_eqI) (auto simp: bit_simps)
  show "(ucast (w AND 0xffff0000 :: u32) :: u16) = 0"
    unfolding m by (rule bit_word_eqI) (auto simp: bit_simps)
  show "(ucast (drop_bit 16 (w AND 0xffff0000 :: u32)) :: u16) = ucast (drop_bit 16 w)"
    unfolding m by (rule bit_word_eqI) (auto simp: bit_simps)
  show "(ucast (drop_bit 16 ((w AND 0xffff0000) OR ucast c :: u32)) :: u16) = ucast (drop_bit 16 w)"
    unfolding m by (rule bit_word_eqI) (auto simp: bit_simps dest: bit_imp_le_length)
qed

lemma ucast_and_ffff: "(ucast (x AND 0xffff :: u32) :: u16) = ucast x"
proof -
  have m: "(0xffff :: u32) = mask 16" by (simp add: mask_eq_exp_minus_1)
  show ?thesis unfolding m by (rule bit_word_eqI) (auto simp: bit_simps)
qed

text \<open>The check the hardware makes: the xor of the sixteen halfwords of a descriptor is zero.\<close>

lemma chksum_zero: "foldl (XOR) 0 (desc_halves (rtl8192du_cal_txdesc_chksum d)) = 0"
proof -
  define d0 where "d0 = d\<lparr>txdw7 := txdw7 d AND 0xffff0000\<rparr>"
  define c where "c = foldl (XOR) 0 (desc_halves d0)"
  define pre where "pre = concat (map (\<lambda>w. [ucast w, ucast (drop_bit 16 w) :: u16]) [txdw0 d, txdw1 d, txdw2 d, txdw3 d, txdw4 d, txdw5 d, txdw6 d])"
  have halves: "desc_halves (d0\<lparr>txdw7 := v\<rparr>) = pre @ [ucast v, ucast (drop_bit 16 v)]" for v
    by (simp add: desc_halves_def desc_words_def d0_def pre_def)
  have "d0\<lparr>txdw7 := txdw7 d AND 0xffff0000\<rparr> = d0" by (simp add: d0_def)
  then have h0: "desc_halves d0 = pre @ [0, ucast (drop_bit 16 (txdw7 d))]"
    using halves [of "txdw7 d AND 0xffff0000"] ucast_or_low by simp
  have "rtl8192du_cal_txdesc_chksum d = d0\<lparr>txdw7 := (txdw7 d AND 0xffff0000) OR ucast c\<rparr>"
    unfolding rtl8192du_cal_txdesc_chksum_def Let_def d0_def [symmetric] c_def [symmetric] by (simp add: d0_def)
  then have h: "desc_halves (rtl8192du_cal_txdesc_chksum d) = pre @ [c, ucast (drop_bit 16 (txdw7 d))]"
    by (simp only: halves ucast_or_low)
  have "c = foldl (XOR) 0 pre XOR ucast (drop_bit 16 (txdw7 d))" by (simp add: c_def h0)
  then show ?thesis by (simp add: h xor.assoc xor.left_commute)
qed

lemma unat_mask:
  assumes "sz < 2 ^ n" and "n \<le> 32"
  shows "unat (of_nat sz AND mask n :: u32) = sz"
proof -
  have "sz < 2 ^ 32" using assms power_increasing [of n 32 "2 :: nat"] by simp
  then show ?thesis
    using assms(1) by (simp only: take_bit_eq_mask [symmetric] unsigned_take_bit_eq unat_of_nat) (simp add: take_bit_eq_mod)
qed

lemma desc_common_fields:
  fixes a :: pkt_attrib and agg :: nat and d :: tx_desc
  assumes "txdw0 d = 0" and "drop_bit 26 (txdw1 d) AND 0x1f = 0" and "sz < 65536" and "off < 32"
  defines "e \<equiv> desc_common a off agg sz d"
  shows "unat (txdw0 e AND 0xffff) = sz" "unat (drop_bit 16 (txdw0 e) AND 0xff) = 32" "unat (drop_bit 26 (txdw1 e) AND 0x1f) = off"
proof -
  define mc :: u32 where "mc = (if IS_MCAST (px_ra a) then 0x01000000 else 0)"
  have mc: "mc AND 0xffff = 0" "drop_bit 16 mc AND 0xff = 0" by (simp_all add: mc_def)
  have m: "(0xffff :: u32) = mask 16" "(0x1f :: u32) = mask 5" by (simp_all add: mask_eq_exp_minus_1)
  have w0: "txdw0 e = (of_nat sz AND 0xffff) OR 0x8c000000 OR 0x00200000 OR mc"
    using assms(1) by (simp add: e_def desc_common_def mc_def TXDESC_SIZE_def)
  have "txdw0 e AND 0xffff = of_nat sz AND 0xffff"
    unfolding w0 by (simp add: bit.conj_disj_distrib2 mc and.assoc)
  moreover have "unat (of_nat sz AND 0xffff :: u32) = sz"
    using unat_mask [of sz 16] assms(3) unfolding m by simp
  ultimately show "unat (txdw0 e AND 0xffff) = sz" by simp
  have "drop_bit 16 (txdw0 e) AND 0xff = 0x20"
    unfolding w0 by (simp add: drop_bit_or drop_bit_and bit.conj_disj_distrib2 mc)
  then show "unat (drop_bit 16 (txdw0 e) AND 0xff) = 32" by simp
  have o: "drop_bit 26 (if off > 0 then push_bit 26 (of_nat off) AND 0x7c000000 else 0) AND 0x1f = (of_nat off AND 0x1f :: u32)"
  proof (rule bit_word_eqI)
    fix n :: nat
    assume "n < LENGTH(32)"
    have m2: "(0x7c000000 :: u32) = push_bit 26 (mask 5)" by (simp add: mask_eq_exp_minus_1)
    show "bit (drop_bit 26 (if off > 0 then push_bit 26 (of_nat off) AND 0x7c000000 else 0) AND 0x1f :: u32) n \<longleftrightarrow> bit (of_nat off AND 0x1f :: u32) n"
      unfolding m m2 by (cases "off = 0") (auto simp: bit_simps)
  qed
  have "drop_bit 26 (txdw1 e) AND 0x1f = of_nat off AND 0x1f"
    unfolding e_def desc_common_def using o assms(2) by (simp add: drop_bit_or bit.conj_disj_distrib2)
  moreover have "unat (of_nat off AND 0x1f :: u32) = off"
    using unat_mask [of off 5] assms(4) unfolding m by simp
  ultimately show "unat (drop_bit 26 (txdw1 e) AND 0x1f) = off" by simp
qed

section \<open>Building a frame at a place of the buffer\<close>

text \<open>The attributes after \<open>rtw_xmitframe_coalesce\<close>.\<close>

definition tx_done :: "adapter \<Rightarrow> nat \<Rightarrow> pkt_attrib \<Rightarrow> byte list \<Rightarrow> pkt_attrib" where
  "tx_done ad p a pkt =
     (let a' = tx_attrib ad p a pkt in
      if IS_MCAST (px_ra a) then a'\<lparr>px_vcs_mode := NONE_VCS\<rparr> else update_attrib_vcs_info (tx_adapter ad p a) a')"

lemma coalesce_exact:
  assumes "tx_ready md ad p a pkt off xb" and "\<not> px_bswenc a" and "px_encrypt a \<noteq> TKIP"
  shows "rtw_xmitframe_coalesce ad pkt a off (Some xb) = Some (SUCCESS, tx_done ad p a pkt,
    Some (put_frame xb off (tx_bytes md ad p a pkt) (64 - length (tx_bytes md ad p a pkt))), tx_adapter ad p a)"
proof -
  have "xmitframe_addmic (tx_adapter ad p a) (tx_attrib ad p a pkt) off x = Some (SUCCESS, tx_attrib ad p a pkt, x)" for x
    using assms by (intro addmic_other [where p = p]) (simp_all add: tx_ready_def)
  then show ?thesis using assms(2) by (simp add: coalesce_to_loop [OF assms(1)] xmitframe_swencrypt_def tx_done_def Let_def)
qed

lemma tx_done_keeps [simp]:
  "px_psta (tx_done ad p a pkt) = px_psta a" "px_encrypt (tx_done ad p a pkt) = px_encrypt a"
  "px_bswenc (tx_done ad p a pkt) = px_bswenc a" "px_hdrlen (tx_done ad p a pkt) = px_hdrlen a"
  "px_iv_len (tx_done ad p a pkt) = px_iv_len a" "px_icv_len (tx_done ad p a pkt) = px_icv_len a"
  "px_last_txcmdsz (tx_done ad p a pkt) = px_last_txcmdsz (tx_attrib ad p a pkt)"
  "px_pktlen (tx_done ad p a pkt) = px_pktlen a" "px_priority (tx_done ad p a pkt) = px_priority a"
  "px_qsel (tx_done ad p a pkt) = px_qsel a"
  by (simp_all add: tx_done_def update_attrib_vcs_info_def Let_def split: option.split)
     (simp_all add: tx_attrib_def iv_attrib_def hdr_attrib_def)

text \<open>A frame an aggregate can hold: one fragment, not encrypted by software, for the station \<open>p\<close>.\<close>

definition agg_ok :: "tx_mode \<Rightarrow> adapter \<Rightarrow> nat \<Rightarrow> xmit_frame \<Rightarrow> bool" where
  "agg_ok md ad p f \<longleftrightarrow>
     (let a = xf_attrib f in xf_frame_tag f = DATA_FRAMETAG \<and> xf_pkt f \<noteq> None \<and>
        tx_ok md ad (sta_of ad p) a \<and> px_psta a = Some p \<and> si_state (sta_of ad p) AND FW_LINKED \<noteq> 0 \<and> px_arrays a \<and>
        \<not> px_bswenc a \<and> px_encrypt a \<noteq> TKIP \<and> px_pktlen a = length (drop (px_pkt_hdrlen a) (the (xf_pkt f))) \<and>
        (IS_MCAST (px_ra a) \<or> frag_chunk (xp_frag_len (xmitpriv ad)) False True a (drop (px_pkt_hdrlen a) (the (xf_pkt f))) =
            drop (px_pkt_hdrlen a) (the (xf_pkt f))))"

definition frame_bytes :: "tx_mode \<Rightarrow> adapter \<Rightarrow> nat \<Rightarrow> xmit_frame \<Rightarrow> byte list" where
  "frame_bytes md ad p f = tx_bytes md ad p (xf_attrib f) (the (xf_pkt f))"

lemma agg_ok_chunk:
  assumes "agg_ok md ad p f"
  shows "frag_chunk (xp_frag_len (xmitpriv ad)) (IS_MCAST (px_ra (xf_attrib f))) True (xf_attrib f)
     (drop (px_pkt_hdrlen (xf_attrib f)) (the (xf_pkt f))) = drop (px_pkt_hdrlen (xf_attrib f)) (the (xf_pkt f))"
  using assms by (cases "IS_MCAST (px_ra (xf_attrib f))") (auto simp: agg_ok_def Let_def frag_chunk_def)

lemma frame_bytes_length:
  assumes "agg_ok md ad p f"
  shows "length (frame_bytes md ad p f) = xmitframe_need_length f"
    "px_last_txcmdsz (tx_attrib ad p (xf_attrib f) (the (xf_pkt f))) = xmitframe_need_length f"
proof -
  let ?a = "xf_attrib f"
  note o = assms [unfolded agg_ok_def Let_def]
  have ok: "tx_ok md ad (sta_of ad p) ?a" using o by simp
  have iv: "length (frag_iv ?a b pn) = px_iv_len ?a" for b pn
    using o tx_iv_length [of ?a b pn] by (simp add: frag_iv_def px_arrays_def)
  have icv: "frag_icv ?a = []" using o by (simp add: frag_icv_def)
  show "length (frame_bytes md ad p f) = xmitframe_need_length f"
    using o length_tx_hdr [OF ok] agg_ok_chunk [OF assms]
    by (simp add: frame_bytes_def tx_bytes_def frag_body_def iv icv snap_hdr_def xmitframe_need_length_def Let_def)
  show "px_last_txcmdsz (tx_attrib ad p ?a (the (xf_pkt f))) = xmitframe_need_length f"
    using o agg_ok_chunk [OF assms] by (simp add: tx_attrib_def xmitframe_need_length_def Let_def)
qed

text \<open>What building a frame at \<open>off\<close> does to the memory: the frame is there and nothing before it has changed.\<close>

definition built_mem :: "byte list \<Rightarrow> nat \<Rightarrow> nat \<Rightarrow> byte list \<Rightarrow> byte list" where
  "built_mem m off k fb = take off m @ xb_mem (put_frame \<lparr>xb_addr = 0, xb_mem = drop off m\<rparr> k fb (64 - length fb))"

lemma built_mem_facts:
  assumes "off + first_pframe k + max 64 (length fb) \<le> length m"
  shows "length (built_mem m off k fb) = length m"
    "rd_slice (built_mem m off k fb) (off + first_pframe k) (length fb) = Some fb"
    "i < off + first_pframe k \<Longrightarrow> built_mem m off k fb ! i = m ! i"
proof -
  let ?xb = "\<lparr>xb_addr = 0, xb_mem = drop off m\<rparr>"
  have fit: "first_pframe k + length fb + (64 - length fb) \<le> length (xb_mem ?xb)" using assms by simp
  note pf = put_frame_at [OF fit]
  have off: "off \<le> length m" using assms by simp
  show l: "length (built_mem m off k fb) = length m" using pf(2) off by (simp add: built_mem_def)
  have s: "take (length fb) (drop (first_pframe k) (xb_mem (put_frame ?xb k fb (64 - length fb)))) = fb"
    using pf(1) by (simp add: rd_slice_def split: if_splits)
  have "drop (off + first_pframe k) (built_mem m off k fb) = drop (first_pframe k) (xb_mem (put_frame ?xb k fb (64 - length fb)))"
    using off by (simp add: built_mem_def)
  then show "rd_slice (built_mem m off k fb) (off + first_pframe k) (length fb) = Some fb"
    using s l assms by (simp add: rd_slice_def)
  have "take (off + first_pframe k) (built_mem m off k fb) = take (off + first_pframe k) m"
    using off pf(3) by (simp add: built_mem_def take_add)
  then show "built_mem m off k fb ! i = m ! i" if "i < off + first_pframe k" using that by (metis nth_take)
qed

lemma coalesce_into_ok:
  assumes ok: "agg_ok md (us_ad us) p f" and room: "off + first_pframe (xf_pkt_offset f) + max 64 (xmitframe_need_length f) \<le> length (xb_mem (us_bufs us b))"
  shows "coalesce_into us f b off = Some (SUCCESS,
    us\<lparr>us_ad := tx_adapter (us_ad us) p (xf_attrib f),
       us_bufs := (us_bufs us)(b := (us_bufs us b)\<lparr>xb_mem := built_mem (xb_mem (us_bufs us b)) off (xf_pkt_offset f) (frame_bytes md (us_ad us) p f)\<rparr>)\<rparr>,
    f\<lparr>xf_attrib := tx_done (us_ad us) p (xf_attrib f) (the (xf_pkt f))\<rparr>)"
proof -
  note o = ok [unfolded agg_ok_def Let_def]
  obtain pkt where pkt: "xf_pkt f = Some pkt" using o by auto
  have ready: "tx_ready md (us_ad us) p (xf_attrib f) pkt (xf_pkt_offset f) \<lparr>xb_addr = xa, xb_mem = drop off (xb_mem (us_bufs us b))\<rparr>" for xa
    using o frame_bytes_length(1) [OF ok] room by (auto simp: tx_ready_def pkt frame_bytes_def)
  have mem: "xb_mem (put_frame \<lparr>xb_addr = xa, xb_mem = m\<rparr> k fb n) = xb_mem (put_frame \<lparr>xb_addr = 0, xb_mem = m\<rparr> k fb n)" for xa m k fb n
    by (simp add: put_frame_def)
  have off: "\<not> length (xb_mem (us_bufs us b)) < off" using room by simp
  show ?thesis
    using off o coalesce_exact [OF ready] mem [of "xb_addr (us_bufs us b) + off"]
    by (simp add: coalesce_into_def pkt built_mem_def frame_bytes_def Let_def)
qed

section \<open>Frames laid out in the buffer\<close>

text \<open>
  \<open>laid m e fs tail\<close>: behind the place \<open>e\<close> the frames \<open>fs\<close> follow in \<open>m\<close>, each with its descriptor at the
  next multiple of eight; \<open>tail\<close> is the end of the last one.
\<close>

fun laid :: "byte list \<Rightarrow> nat \<Rightarrow> byte list list \<Rightarrow> nat \<Rightarrow> bool" where
  "laid m e [] tail \<longleftrightarrow> tail = e"
| "laid m e (f # fs) tail \<longleftrightarrow>
     RND8 e + 40 + length f \<le> length m \<and> desc_start (drop (RND8 e) m) = 40 \<and> desc_sz (drop (RND8 e) m) = length f \<and>
     rd_slice m (RND8 e + 40) (length f) = Some f \<and> laid m (RND8 e + 40 + length f) fs tail"

lemma RND8_ge [simp]: "n \<le> RND8 n"
  unfolding RND8_def by presburger

lemma RND8_add: "RND8 (8 * k + n) = 8 * k + RND8 n"
  unfolding RND8_def by presburger

lemma RND8_mult: "\<exists>k. RND8 n = 8 * k"
  by (auto simp: RND8_def)

lemma laid_tail: "laid m e fs tail \<Longrightarrow> e \<le> tail"
proof (induction fs arbitrary: e)
  case (Cons f fs)
  then have "RND8 e + 40 + length f \<le> tail" by simp
  then show ?case using RND8_ge [of e] by linarith
qed simp

lemma laid_in: "laid m e fs tail \<Longrightarrow> fs \<noteq> [] \<Longrightarrow> tail \<le> length m"
proof (induction fs arbitrary: e)
  case (Cons f fs)
  then show ?case by (cases "fs = []") auto
qed simp

lemma slice_same:
  assumes "length m' = length m" and "\<And>i. lo \<le> i \<Longrightarrow> i < hi \<Longrightarrow> m' ! i = m ! i" and "lo \<le> j" and "j + n \<le> hi"
  shows "take n (drop j m') = take n (drop j m)"
  using assms by (intro slice_eqI) auto

lemma desc_same: "take 8 x = take 8 y \<Longrightarrow> 8 \<le> length x \<Longrightarrow> 8 \<le> length y \<Longrightarrow> desc_start x = desc_start y \<and> desc_sz x = desc_sz y"
proof -
  assume t: "take 8 x = take 8 y" "8 \<le> length x" "8 \<le> length y"
  then have "x ! i = y ! i" if "i < 8" for i using that by (metis nth_take)
  then show ?thesis using t by (simp add: desc_start_def desc_sz_def le32_def)
qed

lemma laid_cong:
  assumes "laid m e fs tail" and "length m' = length m" and "\<And>i. e \<le> i \<Longrightarrow> i < tail \<Longrightarrow> m' ! i = m ! i"
  shows "laid m' e fs tail"
  using assms(1,3)
proof (induction fs arbitrary: e)
  case (Cons f fs)
  let ?o = "RND8 e"
  have t: "?o + 40 + length f \<le> tail" using Cons.prems(1) laid_tail by auto
  have s: "take n (drop j m') = take n (drop j m)" if "?o \<le> j" "j + n \<le> ?o + 40 + length f" for j n
  proof (rule slice_same [where lo = ?o and hi = "?o + 40 + length f", OF assms(2) _ that])
    show "m' ! i = m ! i" if "?o \<le> i" "i < ?o + 40 + length f" for i
      using that t RND8_ge [of e] by (intro Cons.prems(2)) linarith+
  qed
  have "desc_start (drop ?o m') = desc_start (drop ?o m) \<and> desc_sz (drop ?o m') = desc_sz (drop ?o m)"
    using s [of ?o 8] Cons.prems(1) assms(2) by (intro desc_same) auto
  moreover have "rd_slice m' (?o + 40) (length f) = rd_slice m (?o + 40) (length f)"
    using s [of "?o + 40" "length f"] assms(2) by (simp add: rd_slice_def)
  moreover have "laid m' (?o + 40 + length f) fs tail"
  proof (rule Cons.IH)
    show "laid m (?o + 40 + length f) fs tail" using Cons.prems(1) by simp
    show "m' ! i = m ! i" if "?o + 40 + length f \<le> i" "i < tail" for i
      using that RND8_ge [of e] by (intro Cons.prems(2)) linarith+
  qed
  ultimately show ?case using Cons.prems(1) assms(2) by simp
qed simp

lemma laid_snoc:
  "laid m e fs tail \<Longrightarrow> laid m tail [f] tail' \<Longrightarrow> laid m e (fs @ [f]) tail'"
  by (induction fs arbitrary: e) auto

lemma agg_frames_laid:
  assumes "laid m e fs tail" and "tail \<le> length m"
  shows "agg_frames (length fs) (take (tail - RND8 e) (drop (RND8 e) m)) = Some fs"
  using assms(1)
proof (induction fs arbitrary: e)
  case (Cons f fs)
  let ?o = "RND8 e" and ?B = "take (tail - RND8 e) (drop (RND8 e) m)"
  have t: "?o + 40 + length f \<le> tail" using Cons.prems laid_tail by auto
  have lB: "length ?B = tail - ?o" using assms(2) t by simp
  have "take 8 ?B = take 8 (drop ?o m)" using t by simp
  then have d: "desc_start ?B = 40" "desc_sz ?B = length f"
  proof -
    have "8 \<le> length ?B" "8 \<le> length (drop ?o m)" using lB t Cons.prems by (simp_all only: length_drop laid.simps) linarith+
    from desc_same [OF \<open>take 8 ?B = take 8 (drop ?o m)\<close> this] show "desc_start ?B = 40" "desc_sz ?B = length f"
      using Cons.prems by simp_all
  qed
  have r: "rd_slice ?B 40 (length f) = Some f"
    using Cons.prems t lB by (auto simp: rd_slice_def drop_take add.commute split: if_splits)
  obtain k where k: "?o = 8 * k" using RND8_mult by blast
  have o': "RND8 (?o + 40 + length f) = ?o + RND8 (40 + length f)" unfolding k using RND8_add [of k "40 + length f"] by (simp add: add.assoc)
  have "drop (RND8 (40 + length f)) ?B = take (tail - RND8 (?o + 40 + length f)) (drop (RND8 (?o + 40 + length f)) m)"
    unfolding o' by (simp add: drop_take add.commute)
  then show ?case using Cons.IH [of "?o + 40 + length f"] Cons.prems d r lB t by simp
qed simp

section \<open>What building and queueing leave alone\<close>

text \<open>The settings a transmission depends on, and the numbers it takes from the station's entry.\<close>

definition env_tx :: "adapter \<Rightarrow> adapter \<Rightarrow> nat \<Rightarrow> bool" where
  "env_tx ad ad' p \<longleftrightarrow> fw_state ad' = fw_state ad \<and> cur_bssid ad' = cur_bssid ad \<and> qos_option ad' = qos_option ad \<and>
     xp_frag_len (xmitpriv ad') = xp_frag_len (xmitpriv ad) \<and> si_state (sta_of ad' p) = si_state (sta_of ad p) \<and>
     si_qos_option (sta_of ad' p) = si_qos_option (sta_of ad p) \<and> wifi_spec ad' = wifi_spec ad \<and>
     bDriverStopped ad' = bDriverStopped ad \<and> bSurpriseRemoved ad' = bSurpriseRemoved ad \<and> usb_out ad' = usb_out ad"

definition same_tx :: "adapter \<Rightarrow> adapter \<Rightarrow> nat \<Rightarrow> bool" where
  "same_tx ad ad' p \<longleftrightarrow> env_tx ad ad' p \<and> si_txseq_tid (sta_of ad' p) = si_txseq_tid (sta_of ad p) \<and>
     si_dot11txpn (sta_of ad' p) = si_dot11txpn (sta_of ad p)"

lemma env_tx_refl [simp]: "env_tx ad ad p" by (simp add: env_tx_def)
lemma env_tx_trans: "env_tx ad ad1 p \<Longrightarrow> env_tx ad1 ad2 p \<Longrightarrow> env_tx ad ad2 p" by (simp add: env_tx_def)
lemma same_tx_refl [simp]: "same_tx ad ad p" by (simp add: same_tx_def)
lemma same_tx_trans: "same_tx ad ad1 p \<Longrightarrow> same_tx ad1 ad2 p \<Longrightarrow> same_tx ad ad2 p" by (auto simp: same_tx_def dest: env_tx_trans)

lemma env_tx_mode: "env_tx ad ad' p \<Longrightarrow> tx_mode ad' = tx_mode ad"
  by (simp add: env_tx_def tx_mode_def check_fwstate_def)

lemma env_tx_ok:
  assumes "env_tx ad ad' p"
  shows "tx_ok md ad' (sta_of ad' p) a = tx_ok md ad (sta_of ad p) a" "tx_addrs md ad' a = tx_addrs md ad a"
    "tx_is_qos md ad' (sta_of ad' p) = tx_is_qos md ad (sta_of ad p)"
proof -
  show q: "tx_is_qos md ad' (sta_of ad' p) = tx_is_qos md ad (sta_of ad p)" using assms by (cases md) (simp_all add: env_tx_def)
  show "tx_addrs md ad' a = tx_addrs md ad a" using assms by (cases md) (simp_all add: env_tx_def)
  show "tx_ok md ad' (sta_of ad' p) a = tx_ok md ad (sta_of ad p) a"
    using q env_tx_mode [OF assms] assms by (simp add: tx_ok_def env_tx_def)
qed

lemma env_agg_ok: "env_tx ad ad' p \<Longrightarrow> agg_ok md ad' p f = agg_ok md ad p f"
  using env_tx_ok(1) [of ad ad' p md "xf_attrib f"] by (simp add: agg_ok_def Let_def env_tx_def)

lemma same_tx_bytes: "same_tx ad ad' p \<Longrightarrow> frame_bytes md ad' p f = frame_bytes md ad p f"
  using env_tx_ok [of ad ad' p] by (simp add: same_tx_def frame_bytes_def tx_bytes_def tx_hdr_def next_seqnum_def env_tx_def)

lemma tx_adapter_env: "env_tx ad (tx_adapter ad p a) p"
  by (simp add: env_tx_def tx_adapter_def) (simp add: set_sta_def hdr_sta_def tx_ampdu_def Let_def)

lemma tx_adapter_same: "same_tx ad ad' p \<Longrightarrow> same_tx (tx_adapter ad p a) (tx_adapter ad' p a) p"
proof -
  assume s: "same_tx ad ad' p"
  have "env_tx (tx_adapter ad p a) (tx_adapter ad' p a) p"
    using s tx_adapter_env [of ad p a] tx_adapter_env [of ad' p a] by (simp add: same_tx_def env_tx_def)
  then show ?thesis using s by (simp add: same_tx_def tx_adapter_def next_seqnum_def)
qed

text \<open>The frames of packets sent one after the other.\<close>

fun tx_frames :: "tx_mode \<Rightarrow> adapter \<Rightarrow> nat \<Rightarrow> xmit_frame list \<Rightarrow> byte list list" where
  "tx_frames md ad p [] = []"
| "tx_frames md ad p (f # fs) = frame_bytes md ad p f # tx_frames md (tx_adapter ad p (xf_attrib f)) p fs"

lemma tx_frames_same: "same_tx ad ad' p \<Longrightarrow> tx_frames md ad' p fs = tx_frames md ad p fs"
  by (induction fs arbitrary: ad ad') (simp_all add: same_tx_bytes tx_adapter_same)

lemma tx_adapter_servq: "get_servq (sta_of (tx_adapter ad p a) q) ac = get_servq (sta_of ad q) ac"
  by (simp add: tx_adapter_def hdr_sta_def tx_ampdu_def get_servq_def Let_def)

lemma rtw_free_xmitframe_keeps: "xp_frag_len (rtw_free_xmitframe xp f) = xp_frag_len xp"
  by (simp add: rtw_free_xmitframe_def Let_def)

lemma free_frame_keeps [simp]:
  "us_bufs (free_frame us f) = us_bufs us" "us_hal (free_frame us f) = us_hal us" "us_urb (free_frame us f) = us_urb us"
  "us_urb_cnt (free_frame us f) = us_urb_cnt us" "sta_of (us_ad (free_frame us f)) = sta_of (us_ad us)"
  "same_tx (us_ad us) (us_ad (free_frame us f)) p"
  by (simp_all add: free_frame_def set_xp_def fun_eq_iff same_tx_def env_tx_def rtw_free_xmitframe_keeps)

section \<open>The loop\<close>

abbreviation us_mem :: "usb_state \<Rightarrow> nat \<Rightarrow> byte list" where
  "us_mem us b \<equiv> xb_mem (us_bufs us b)"

definition data_desc :: "usb_state \<Rightarrow> xmit_frame \<Rightarrow> nat \<Rightarrow> tx_desc" where
  "data_desc us f sz = rtl8192du_cal_txdesc_chksum (desc_common (xf_attrib f) (xf_pkt_offset f) (xf_agg_num f) sz (desc_data us (xf_attrib f)))"

lemma update_txdesc_agg: "xf_frame_tag f = DATA_FRAMETAG \<Longrightarrow> update_txdesc us f sz True = (data_desc us f sz, False, f)"
  by (simp add: update_txdesc_def data_desc_def Let_def DATA_FRAMETAG_def)

lemma data_desc_read:
  assumes "sz < 65536" and "xf_pkt_offset f < 32"
  shows "desc_start (desc_bytes (data_desc us f sz) @ x) = 32 + 8 * xf_pkt_offset f" "desc_sz (desc_bytes (data_desc us f sz) @ x) = sz"
proof -
  let ?d = "data_desc us f sz"
  have b: "desc_bytes ?d @ x = le32_bytes (txdw0 ?d) @ le32_bytes (txdw1 ?d) @ (concat (map le32_bytes [txdw2 ?d, txdw3 ?d, txdw4 ?d, txdw5 ?d, txdw6 ?d, txdw7 ?d]) @ x)"
    by (simp add: desc_bytes_def desc_words_def)
  have r: "le32 (desc_bytes ?d @ x) = txdw0 ?d" "le32 (drop 4 (desc_bytes ?d @ x)) = txdw1 ?d"
    unfolding b by (simp_all add: le32_le32_bytes)
  note f = desc_common_fields [OF txdw0_data [of us "xf_attrib f"] txdw1_data assms, of "xf_attrib f" "xf_agg_num f"]
  show "desc_start (desc_bytes ?d @ x) = 32 + 8 * xf_pkt_offset f" "desc_sz (desc_bytes ?d @ x) = sz"
    unfolding desc_start_def desc_sz_def r by (simp_all add: data_desc_def f)
qed

definition with_desc :: "byte list \<Rightarrow> nat \<Rightarrow> tx_desc \<Rightarrow> byte list" where
  "with_desc m off d = take off m @ desc_bytes d @ drop (off + 32) m"

lemma put_desc_at: "off + 32 \<le> length (us_mem us b) \<Longrightarrow> put_desc us b off d =
    Some (us\<lparr>us_bufs := (us_bufs us)(b := (us_bufs us b)\<lparr>xb_mem := with_desc (us_mem us b) off d\<rparr>)\<rparr>)"
  by (simp add: put_desc_def wr_slice_def with_desc_def)

lemma with_desc_facts:
  assumes "off + 32 \<le> length m"
  shows "length (with_desc m off d) = length m" "drop off (with_desc m off d) = desc_bytes d @ drop (off + 32) m"
    "i < off \<or> off + 32 \<le> i \<Longrightarrow> with_desc m off d ! i = m ! i"
  using assms by (auto simp: with_desc_def nth_append)

text \<open>One more frame behind those that are laid out.\<close>

lemma laid_one:
  fixes us :: usb_state
  assumes d: "xf_pkt_offset f = 1" "length fb < 65536" and room: "RND8 tail + 40 + max 64 (length fb) \<le> length m"
  defines "m' \<equiv> with_desc (built_mem m (RND8 tail) 1 fb) (RND8 tail) (data_desc us f (length fb))"
  shows "laid m' tail [fb] (RND8 tail + 40 + length fb)" "length m' = length m" "i < RND8 tail \<Longrightarrow> m' ! i = m ! i"
proof -
  let ?o = "RND8 tail" and ?bm = "built_mem m (RND8 tail) 1 fb"
  have pf: "first_pframe 1 = 40" by (simp add: first_pframe_def TXDESC_SIZE_def PACKET_OFFSET_SZ_def)
  have room': "?o + first_pframe 1 + max 64 (length fb) \<le> length m" unfolding pf by (rule room)
  note bm = built_mem_facts [OF room']
  have r32: "?o + 32 \<le> length ?bm" using room bm(1) by simp
  note wd = with_desc_facts [OF r32, where d = "data_desc us f (length fb)"]
  show len: "length m' = length m" using wd(1) bm(1) by (simp add: m'_def)
  show "m' ! i = m ! i" if "i < ?o" using that wd(3) bm(3) by (simp add: m'_def)
  have "take (length fb) (drop (?o + 40) m') = take (length fb) (drop (?o + 40) ?bm)"
    using wd(3) len bm(1) by (intro slice_same [where lo = "?o + 40" and hi = "?o + 40 + length fb"]) (auto simp: m'_def)
  then have "rd_slice m' (?o + 40) (length fb) = Some fb"
    using bm(2) len bm(1) unfolding pf rd_slice_def by (simp split: if_splits)
  moreover have "desc_start (drop ?o m') = 40" "desc_sz (drop ?o m') = length fb"
    using data_desc_read [OF d(2), of f us] d(1) unfolding m'_def wd(2) by simp_all
  ultimately show "laid m' tail [fb] (?o + 40 + length fb)" using room len by simp
qed

lemma next_agg_frame_facts:
  assumes n: "next_agg_frame us g = Some (f, len, us1)" and p: "px_psta (xf_attrib (ag_first g)) = Some p"
    and ac: "rtw_get_sta_pending (px_priority (xf_attrib (ag_first g))) = ac"
  shows "len = xmitframe_need_length f + 40" "ag_pbuf g + RND8 len \<le> aggMaxLength us" "same_tx (us_ad us) (us_ad us1) p"
    "us_bufs us1 = us_bufs us" "us_hal us1 = us_hal us" "us_urb us1 = us_urb us" "us_urb_cnt us1 = us_urb_cnt us"
    "sv_pending (get_servq (sta_of (us_ad us) p) ac) = f # sv_pending (get_servq (sta_of (us_ad us1) p) ac)"
  using assms
  by (auto simp: next_agg_frame_def Let_def same_tx_def env_tx_def TXDESC_SIZE_def USB_92D_DUMMY_OFFSET_def PACKET_OFFSET_SZ_def
      set_servq_def set_sta_def sta_of_def split: list.splits if_splits) (auto simp: get_servq_def)

text \<open>One turn of the loop, up to the place where the frame is counted.\<close>

lemma agg_step:
  assumes n: "next_agg_frame us g = Some (f, len, us1)" and p: "px_psta (xf_attrib (ag_first g)) = Some p"
    and ac: "rtw_get_sta_pending (px_priority (xf_attrib (ag_first g))) = ac"
    and ok: "agg_ok md (us_ad us) p f" and pb: "ag_pbuf g = RND8 (ag_tail g)"
    and room: "aggMaxLength us + 64 \<le> length (us_mem us b)" and num: "xf_agg_num (ag_first g) < 255"
  shows "\<exists>us2 f2 g1 us3.
    coalesce_into us1 (f\<lparr>xf_agg_num := 0, xf_pkt_offset := USB_92D_DUMMY_OFFSET - 1\<rparr>) b (ag_pbuf g) = Some (SUCCESS, us2, f2) \<and>
    add_agg_frame us2 g b f2 len = Some (g1, us3) \<and> g1 = g\<lparr>ag_first := (ag_first g)\<lparr>xf_agg_num := xf_agg_num (ag_first g) + 1\<rparr>,
        ag_tail := ag_pbuf g + len, ag_pbuf := RND8 (ag_pbuf g + len)\<rparr> \<and>
    laid (us_mem us3 b) (ag_tail g) [frame_bytes md (us_ad us) p f] (ag_tail g1) \<and> length (us_mem us3 b) = length (us_mem us b) \<and>
    (\<forall>i < ag_tail g. us_mem us3 b ! i = us_mem us b ! i) \<and> ag_tail g1 \<le> length (us_mem us b) \<and>
    same_tx (tx_adapter (us_ad us) p (xf_attrib f)) (us_ad us3) p \<and>
    sv_pending (get_servq (sta_of (us_ad us) p) ac) = f # sv_pending (get_servq (sta_of (us_ad us3) p) ac) \<and>
    us_hal us3 = us_hal us \<and> us_urb us3 = us_urb us \<and> us_urb_cnt us3 = us_urb_cnt us"
proof -
  note nf = next_agg_frame_facts [OF n p ac]
  define f' where "f' = f\<lparr>xf_agg_num := 0, xf_pkt_offset := USB_92D_DUMMY_OFFSET - 1\<rparr>"
  have f': "xf_attrib f' = xf_attrib f" "xf_pkt f' = xf_pkt f" "xf_frame_tag f' = xf_frame_tag f" "xf_pkt_offset f' = 1"
    by (simp_all add: f'_def USB_92D_DUMMY_OFFSET_def)
  have env: "env_tx (us_ad us) (us_ad us1) p" using nf(3) by (simp add: same_tx_def)
  have "agg_ok md (us_ad us1) p f' = agg_ok md (us_ad us1) p f" by (simp add: agg_ok_def f')
  then have ok1: "agg_ok md (us_ad us1) p f'" using ok env_agg_ok [OF env] by simp
  define fb where "fb = frame_bytes md (us_ad us) p f"
  have fb: "frame_bytes md (us_ad us1) p f' = fb" using same_tx_bytes [OF nf(3)] f' by (simp add: fb_def frame_bytes_def)
  have lfb: "length fb = xmitframe_need_length f" using frame_bytes_length(1) [OF ok] by (simp add: fb_def)
  have need': "xmitframe_need_length f' = xmitframe_need_length f" by (simp add: xmitframe_need_length_def f')
  have len: "len = length fb + 40" using nf(1) lfb by simp
  have bound: "RND8 (ag_tail g) + 40 + max 64 (length fb) \<le> length (us_mem us b)"
    using nf(2) RND8_ge [of len] room pb len by linarith
  have "aggMaxLength us \<le> 20480" by (simp add: aggMaxLength_def MAX_XMITBUF_SZ_def)
  then have small: "length fb < 65536" using nf(2) RND8_ge [of len] len by linarith
  have pf: "first_pframe (xf_pkt_offset f') = 40" by (simp add: f' first_pframe_def TXDESC_SIZE_def PACKET_OFFSET_SZ_def)
  define a2 where "a2 = tx_done (us_ad us1) p (xf_attrib f) (the (xf_pkt f))"
  define us2 where "us2 = us1\<lparr>us_ad := tx_adapter (us_ad us1) p (xf_attrib f),
     us_bufs := (us_bufs us)(b := (us_bufs us b)\<lparr>xb_mem := built_mem (us_mem us b) (ag_pbuf g) 1 fb\<rparr>)\<rparr>"
  have c: "coalesce_into us1 f' b (ag_pbuf g) = Some (SUCCESS, us2, f'\<lparr>xf_attrib := a2\<rparr>)"
    using coalesce_into_ok [OF ok1, of "ag_pbuf g" b] bound pb pf
    by (simp add: fb need' lfb [symmetric] us2_def a2_def f' nf(4))
  have last: "px_last_txcmdsz a2 = length fb"
    using frame_bytes_length(2) [OF ok1] by (simp add: a2_def f' need' lfb)
  define f3 where "f3 = f'\<lparr>xf_attrib := a2, xf_pkt := None\<rparr>"
  have f3: "xf_frame_tag f3 = DATA_FRAMETAG" "xf_pkt_offset f3 = 1" using ok by (simp_all add: f3_def f' agg_ok_def Let_def)
  define m' where "m' = with_desc (built_mem (us_mem us b) (RND8 (ag_tail g)) 1 fb) (RND8 (ag_tail g)) (data_desc us2 f3 (length fb))"
  define us2' where "us2' = us2\<lparr>us_bufs := (us_bufs us)(b := (us_bufs us b)\<lparr>xb_mem := m'\<rparr>)\<rparr>"
  note l1 = laid_one [OF f3(2) small bound, where us = us2, folded m'_def]
  have room2: "ag_pbuf g + 32 \<le> length (us_mem us2 b)"
    using built_mem_facts(1) [of "RND8 (ag_tail g)" 1 fb "us_mem us b"] bound pb
    by (simp add: us2_def first_pframe_def TXDESC_SIZE_def PACKET_OFFSET_SZ_def)
  have pd: "put_desc us2 b (ag_pbuf g) (data_desc us2 f3 (length fb)) = Some us2'"
    using put_desc_at [OF room2, of "data_desc us2 f3 (length fb)"] by (simp add: us2'_def us2_def m'_def pb)
  define g1 where "g1 = g\<lparr>ag_first := (ag_first g)\<lparr>xf_agg_num := xf_agg_num (ag_first g) + 1\<rparr>,
        ag_tail := ag_pbuf g + len, ag_pbuf := RND8 (ag_pbuf g + len)\<rparr>"
  have add: "add_agg_frame us2 g b (f'\<lparr>xf_attrib := a2\<rparr>) len = Some (g1, free_frame us2' f3)"
    using update_txdesc_agg [OF f3(1), of us2 "length fb"] pd num by (simp add: add_agg_frame_def f3_def last g1_def)
  have mem3: "us_mem (free_frame us2' f3) b = m'" by (simp add: us2'_def)
  have tail1: "ag_tail g1 = RND8 (ag_tail g) + 40 + length fb" by (simp add: g1_def pb len)
  have "same_tx (tx_adapter (us_ad us) p (xf_attrib f)) (us_ad us2') p"
    using tx_adapter_same [OF nf(3), of "xf_attrib f"] by (simp add: us2'_def us2_def)
  then have s3: "same_tx (tx_adapter (us_ad us) p (xf_attrib f)) (us_ad (free_frame us2' f3)) p"
    by (rule same_tx_trans) simp
  have q3: "get_servq (sta_of (us_ad (free_frame us2' f3)) p) ac = get_servq (sta_of (us_ad us1) p) ac"
    by (simp add: us2'_def us2_def tx_adapter_servq)
  have same: "\<forall>i < ag_tail g. m' ! i = us_mem us b ! i" using l1(3) less_le_trans [OF _ RND8_ge [of "ag_tail g"]] by blast
  show ?thesis
  proof (intro exI conjI)
    show "coalesce_into us1 (f\<lparr>xf_agg_num := 0, xf_pkt_offset := USB_92D_DUMMY_OFFSET - 1\<rparr>) b (ag_pbuf g) =
        Some (SUCCESS, us2, f'\<lparr>xf_attrib := a2\<rparr>)" unfolding f'_def [symmetric] by (rule c)
    show "add_agg_frame us2 g b (f'\<lparr>xf_attrib := a2\<rparr>) len = Some (g1, free_frame us2' f3)" by (rule add)
    show "laid (us_mem (free_frame us2' f3) b) (ag_tail g) [frame_bytes md (us_ad us) p f] (ag_tail g1)"
      unfolding mem3 tail1 fb_def [symmetric] by (rule l1(1))
    show "length (us_mem (free_frame us2' f3) b) = length (us_mem us b)" unfolding mem3 by (rule l1(2))
    show "\<forall>i < ag_tail g. us_mem (free_frame us2' f3) b ! i = us_mem us b ! i" unfolding mem3 by (rule same)
    show "ag_tail g1 \<le> length (us_mem us b)" using bound tail1 by simp
    show "sv_pending (get_servq (sta_of (us_ad us) p) ac) = f # sv_pending (get_servq (sta_of (us_ad (free_frame us2' f3)) p) ac)"
      unfolding q3 by (rule nf(8))
  qed (use s3 nf(5-7) in \<open>simp_all add: g1_def us2'_def us2_def\<close>)
qed

lemma agg_loop_ok:
  assumes "sv_pending (get_servq (sta_of (us_ad us) p) ac) = q" and "\<forall>f \<in> set q. agg_ok md (us_ad us) p f"
    and "px_psta (xf_attrib (ag_first g)) = Some p" and "rtw_get_sta_pending (px_priority (xf_attrib (ag_first g))) = ac"
    and "ag_pbuf g = RND8 (ag_tail g)" and "laid (us_mem us b) e fs (ag_tail g)" and "ag_tail g \<le> length (us_mem us b)"
    and "aggMaxLength us + 64 \<le> length (us_mem us b)" and "xf_agg_num (ag_first g) < 255"
  shows "\<exists>n g' us'. n \<le> length q \<and> agg_loop us g b = Some (g', us') \<and>
    laid (us_mem us' b) e (fs @ tx_frames md (us_ad us) p (take n q)) (ag_tail g') \<and> length (us_mem us' b) = length (us_mem us b) \<and>
    (\<forall>i < ag_tail g. us_mem us' b ! i = us_mem us b ! i) \<and> ag_tail g' \<le> length (us_mem us b) \<and> ag_tail g \<le> ag_tail g' \<and>
    ag_first g' = (ag_first g)\<lparr>xf_agg_num := xf_agg_num (ag_first g) + n\<rparr> \<and> xf_agg_num (ag_first g) + n \<le> 255 \<and>
    sv_pending (get_servq (sta_of (us_ad us') p) ac) = drop n q \<and> env_tx (us_ad us) (us_ad us') p \<and>
    us_hal us' = us_hal us \<and> us_urb us' = us_urb us \<and> us_urb_cnt us' = us_urb_cnt us"
  using assms
proof (induction q arbitrary: us g fs)
  case Nil
  then have "next_agg_frame us g = None" by (simp add: next_agg_frame_def Let_def)
  then have "agg_loop us g b = Some (g, us)" by (subst agg_loop.simps) simp
  then show ?case using Nil.prems by (intro exI [of _ 0] exI [of _ g] exI [of _ us]) simp
next
  case (Cons f0 q)
  show ?case
  proof (cases "next_agg_frame us g")
    case None
    then have "agg_loop us g b = Some (g, us)" by (subst agg_loop.simps) simp
    then show ?thesis using Cons.prems by (intro exI [of _ 0] exI [of _ g] exI [of _ us]) simp
  next
    case (Some x)
    obtain f len us1 where n: "next_agg_frame us g = Some (f, len, us1)" using Some by (cases x) auto
    have f: "f = f0" using next_agg_frame_facts(8) [OF n Cons.prems(3,4)] Cons.prems(1) by simp
    have ok: "agg_ok md (us_ad us) p f" using Cons.prems(2) f by simp
    obtain us2 f2 g1 us3 where st:
      "coalesce_into us1 (f\<lparr>xf_agg_num := 0, xf_pkt_offset := USB_92D_DUMMY_OFFSET - 1\<rparr>) b (ag_pbuf g) = Some (SUCCESS, us2, f2)"
      "add_agg_frame us2 g b f2 len = Some (g1, us3)"
      and g1: "g1 = g\<lparr>ag_first := (ag_first g)\<lparr>xf_agg_num := xf_agg_num (ag_first g) + 1\<rparr>, ag_tail := ag_pbuf g + len, ag_pbuf := RND8 (ag_pbuf g + len)\<rparr>"
      and m: "laid (us_mem us3 b) (ag_tail g) [frame_bytes md (us_ad us) p f] (ag_tail g1)" "length (us_mem us3 b) = length (us_mem us b)"
        "\<forall>i < ag_tail g. us_mem us3 b ! i = us_mem us b ! i" "ag_tail g1 \<le> length (us_mem us b)"
      and s: "same_tx (tx_adapter (us_ad us) p (xf_attrib f)) (us_ad us3) p"
        "sv_pending (get_servq (sta_of (us_ad us) p) ac) = f # sv_pending (get_servq (sta_of (us_ad us3) p) ac)"
        "us_hal us3 = us_hal us" "us_urb us3 = us_urb us" "us_urb_cnt us3 = us_urb_cnt us"
      using agg_step [OF n Cons.prems(3,4) ok Cons.prems(5,8,9)] by blast
    define fs1 where "fs1 = fs @ [frame_bytes md (us_ad us) p f]"
    have "laid (us_mem us3 b) e fs (ag_tail g)"
      using m(3) laid_tail [OF Cons.prems(6)] by (intro laid_cong [OF Cons.prems(6) m(2)]) auto
    then have laid1: "laid (us_mem us3 b) e fs1 (ag_tail g1)" unfolding fs1_def using m(1) by (rule laid_snoc)
    have mono: "ag_tail g \<le> ag_tail g1" using laid_tail [OF m(1)] .
    have q3: "sv_pending (get_servq (sta_of (us_ad us3) p) ac) = q" using s(2) Cons.prems(1) by simp
    have env3: "env_tx (us_ad us) (us_ad us3) p"
    proof (rule env_tx_trans [OF tx_adapter_env])
      show "env_tx (tx_adapter (us_ad us) p (xf_attrib f)) (us_ad us3) p" using s(1) by (simp add: same_tx_def)
    qed
    have l: "agg_loop us g b = (if xf_agg_num (ag_first g1) = MAX_TX_AGG_PACKET_NUMBER then Some (g1, us3)
        else case bulk_check (us_hal us3) g1 of (stop, g2) \<Rightarrow> if stop then Some (g2, us3) else agg_loop us3 g2 b)"
      using n st by (subst agg_loop.simps) simp
    obtain stop g2 where bc: "bulk_check (us_hal us3) g1 = (stop, g2)" by (cases "bulk_check (us_hal us3) g1")
    have g2: "ag_first g2 = ag_first g1" "ag_tail g2 = ag_tail g1" "ag_pbuf g2 = ag_pbuf g1"
      using bc by (auto simp: bulk_check_def split: if_splits)
    have frames: "fs @ tx_frames md (us_ad us) p (take (Suc n) (f0 # q)) = fs1 @ tx_frames md (us_ad us3) p (take n q)" for n
      using tx_frames_same [OF s(1)] by (simp add: fs1_def f)
    show ?thesis
    proof (cases "xf_agg_num (ag_first g1) = MAX_TX_AGG_PACKET_NUMBER \<or> stop")
      case True
      then have "\<exists>g'. agg_loop us g b = Some (g', us3) \<and> ag_first g' = ag_first g1 \<and> ag_tail g' = ag_tail g1"
        using l bc g2 by (cases "xf_agg_num (ag_first g1) = MAX_TX_AGG_PACKET_NUMBER") auto
      then obtain g' where "agg_loop us g b = Some (g', us3)" "ag_first g' = ag_first g1" "ag_tail g' = ag_tail g1" by blast
      then show ?thesis
        using laid1 m(2-4) mono q3 env3 s(3-5) Cons.prems(9) frames [of 0]
        by (intro exI [of _ 1] exI [of _ g'] exI [of _ us3]) (simp add: g1)
    next
      case False
      then have rec: "agg_loop us g b = agg_loop us3 g2 b" using l bc by simp
      have num: "xf_agg_num (ag_first g2) < 255" using False Cons.prems(9) by (simp add: g2 g1 MAX_TX_AGG_PACKET_NUMBER_def)
      have "\<exists>n g' us'. n \<le> length q \<and> agg_loop us3 g2 b = Some (g', us') \<and>
          laid (us_mem us' b) e (fs1 @ tx_frames md (us_ad us3) p (take n q)) (ag_tail g') \<and> length (us_mem us' b) = length (us_mem us3 b) \<and>
          (\<forall>i < ag_tail g2. us_mem us' b ! i = us_mem us3 b ! i) \<and> ag_tail g' \<le> length (us_mem us3 b) \<and> ag_tail g2 \<le> ag_tail g' \<and>
          ag_first g' = (ag_first g2)\<lparr>xf_agg_num := xf_agg_num (ag_first g2) + n\<rparr> \<and> xf_agg_num (ag_first g2) + n \<le> 255 \<and>
          sv_pending (get_servq (sta_of (us_ad us') p) ac) = drop n q \<and> env_tx (us_ad us3) (us_ad us') p \<and>
          us_hal us' = us_hal us3 \<and> us_urb us' = us_urb us3 \<and> us_urb_cnt us' = us_urb_cnt us3"
      proof (rule Cons.IH [OF q3])
        show "\<forall>f \<in> set q. agg_ok md (us_ad us3) p f" using Cons.prems(2) env_agg_ok [OF env3] by simp
        show "px_psta (xf_attrib (ag_first g2)) = Some p" "rtw_get_sta_pending (px_priority (xf_attrib (ag_first g2))) = ac"
          using Cons.prems(3,4) by (simp_all add: g2 g1)
        show "ag_pbuf g2 = RND8 (ag_tail g2)" by (simp add: g2 g1)
        show "laid (us_mem us3 b) e fs1 (ag_tail g2)" using laid1 by (simp add: g2)
        show "ag_tail g2 \<le> length (us_mem us3 b)" using m(2,4) by (simp add: g2)
        show "aggMaxLength us3 + 64 \<le> length (us_mem us3 b)" using Cons.prems(8) m(2) s(3) by (simp add: aggMaxLength_def)
      qed (rule num)
      then obtain n g' us' where r: "n \<le> length q" "agg_loop us3 g2 b = Some (g', us')"
          "laid (us_mem us' b) e (fs1 @ tx_frames md (us_ad us3) p (take n q)) (ag_tail g')" "length (us_mem us' b) = length (us_mem us3 b)"
          "\<forall>i < ag_tail g2. us_mem us' b ! i = us_mem us3 b ! i" "ag_tail g' \<le> length (us_mem us3 b)" "ag_tail g2 \<le> ag_tail g'"
          "ag_first g' = (ag_first g2)\<lparr>xf_agg_num := xf_agg_num (ag_first g2) + n\<rparr>" "xf_agg_num (ag_first g2) + n \<le> 255"
          "sv_pending (get_servq (sta_of (us_ad us') p) ac) = drop n q" "env_tx (us_ad us3) (us_ad us') p"
          "us_hal us' = us_hal us3" "us_urb us' = us_urb us3" "us_urb_cnt us' = us_urb_cnt us3" by blast
      have num': "xf_agg_num (ag_first g2) = xf_agg_num (ag_first g) + 1" by (simp add: g2 g1)
      show ?thesis
      proof (intro exI conjI)
        show "Suc n \<le> length (f0 # q)" using r(1) by simp
        show "agg_loop us g b = Some (g', us')" using rec r(2) by simp
        show "laid (us_mem us' b) e (fs @ tx_frames md (us_ad us) p (take (Suc n) (f0 # q))) (ag_tail g')" unfolding frames by (rule r(3))
        show "length (us_mem us' b) = length (us_mem us b)" using r(4) m(2) by simp
        show "\<forall>i < ag_tail g. us_mem us' b ! i = us_mem us b ! i" using r(5) m(3) mono by (simp add: g2)
        show "ag_tail g' \<le> length (us_mem us b)" using r(6) m(2) by simp
        show "ag_tail g \<le> ag_tail g'" using r(7) mono by (simp add: g2)
        show "ag_first g' = (ag_first g)\<lparr>xf_agg_num := xf_agg_num (ag_first g) + Suc n\<rparr>" using r(8) by (simp add: g2 g1)
        show "xf_agg_num (ag_first g) + Suc n \<le> 255" using r(9) num' by simp
        show "sv_pending (get_servq (sta_of (us_ad us') p) ac) = drop (Suc n) (f0 # q)" using r(10) by simp
        show "env_tx (us_ad us) (us_ad us') p" using env3 r(11) by (rule env_tx_trans)
        show "us_hal us' = us_hal us" "us_urb us' = us_urb us" "us_urb_cnt us' = us_urb_cnt us" using r(12-14) s(3-5) by simp_all
      qed
    qed
  qed
qed

section \<open>The end of an aggregate\<close>

lemma addbareq_keeps [simp]:
  "us_bufs (rtw_issue_addbareq_cmd us f) = us_bufs us" "us_hal (rtw_issue_addbareq_cmd us f) = us_hal us"
  "us_urb (rtw_issue_addbareq_cmd us f) = us_urb us" "us_urb_cnt (rtw_issue_addbareq_cmd us f) = us_urb_cnt us"
  "bDriverStopped (us_ad (rtw_issue_addbareq_cmd us f)) = bDriverStopped (us_ad us)"
  "bSurpriseRemoved (us_ad (rtw_issue_addbareq_cmd us f)) = bSurpriseRemoved (us_ad us)"
  "usb_out (us_ad (rtw_issue_addbareq_cmd us f)) = usb_out (us_ad us)"
  "get_servq (sta_of (us_ad (rtw_issue_addbareq_cmd us f)) p) ac = get_servq (sta_of (us_ad us) p) ac"
  by (auto simp: rtw_issue_addbareq_cmd_def Let_def request_of_def set_sta_def sta_of_def get_servq_def split: option.split)

text \<open>A transfer that is accepted.\<close>

definition usb_ready :: "usb_state \<Rightarrow> bool" where
  "usb_ready us \<longleftrightarrow> \<not> bDriverStopped (us_ad us) \<and> \<not> bSurpriseRemoved (us_ad us) \<and> \<not> hu_pnp_bstop_trx (us_hal us) \<and>
     us_urb us (us_urb_cnt us) = UrbOk"

lemma usb_write_port_ok:
  assumes "usb_ready us" and "off + cnt \<le> length (us_mem us b)"
  shows "\<exists>us'. usb_write_port us addr b off cnt = Some (SUCCESS, us') \<and>
    usb_out (us_ad us') = usb_out (us_ad us) @ [(addr, take cnt (drop off (us_mem us b)))] \<and> sta_of (us_ad us') = sta_of (us_ad us)"
  using assms by (simp add: usb_ready_def usb_write_port_def rd_slice_def Let_def set_xp_def fun_eq_iff sta_of_def)

lemma RND8_split: "8 * k \<le> 48 \<Longrightarrow> RND8 (48 + n) = 8 * k + RND8 (48 - 8 * k + n)"
  using RND8_add [of k "48 - 8 * k + n"] by simp

text \<open>
  The transfer starts at \<open>base\<close>, which is 0 or 8; the first frame is at 48 in the buffer, behind its descriptor
  and the dummy packet offset, the others are laid out behind it.
\<close>

lemma transfer_frames:
  fixes us :: usb_state
  assumes first: "rd_slice m 48 (length fb) = Some fb" and rest: "laid m (48 + length fb) fs tail" "tail \<le> length m"
    and d: "length fb < 65536" "8 * k + 8 * xf_pkt_offset f = 16"
  defines "m' \<equiv> with_desc m (8 * k) (data_desc us f (length fb))"
  shows "agg_frames (Suc (length fs)) (take (tail - 8 * k) (drop (8 * k) m')) = Some (fb # fs)"
proof -
  let ?B = "take (tail - 8 * k) (drop (8 * k) m')"
  have k: "8 * k \<le> 16" "xf_pkt_offset f < 32" "32 + 8 * xf_pkt_offset f = 48 - 8 * k" using d(2) by linarith+
  have t: "48 + length fb \<le> tail" using laid_tail [OF rest(1)] .
  have r32: "8 * k + 32 \<le> length m" using t rest(2) k by linarith
  note wd = with_desc_facts [OF r32, where d = "data_desc us f (length fb)", folded m'_def]
  have lB: "length ?B = tail - 8 * k" using rest(2) wd(1) by simp
  have d8: "take 8 ?B = take 8 (drop (8 * k) m')" using t k by simp
  have l8: "8 \<le> length ?B" "8 \<le> length (drop (8 * k) m')" using lB t k rest(2) wd(1) by simp_all
  have ds: "desc_start ?B = 48 - 8 * k" "desc_sz ?B = length fb"
    using desc_same [OF d8 l8] data_desc_read [OF d(1) k(2), of us] k(3) unfolding wd(2) by simp_all
  have s: "take n (drop j m') = take n (drop j m)" if "48 \<le> j" "j + n \<le> tail" for j n
    using that wd(3) k by (intro slice_same [where lo = 48 and hi = tail, OF wd(1)]) auto
  have r: "rd_slice ?B (48 - 8 * k) (length fb) = Some fb"
    using s [of 48 "length fb"] first t k lB by (auto simp: rd_slice_def drop_take min_def split: if_splits)
  have rest': "laid m' (48 + length fb) fs tail"
    using wd(3) k by (intro laid_cong [OF rest(1) wd(1)]) auto
  have "drop (RND8 (48 - 8 * k + length fb)) ?B = take (tail - RND8 (48 + length fb)) (drop (RND8 (48 + length fb)) m')"
    using RND8_split [of k "length fb"] k(1) by (simp add: drop_take add.commute)
  then show ?thesis
    using agg_frames_laid [OF rest'] rest(2) wd(1) ds r lB t k by simp
qed

lemma shrunk_mod:
  fixes n m :: nat
  assumes "n mod m = 0" and "8 < m" and "8 \<le> n"
  shows "(n - 8) mod m \<noteq> 0"
proof
  assume "(n - 8) mod m = 0"
  then have "m dvd n" "m dvd n - 8" using assms(1) by (simp_all add: dvd_eq_mod_eq_0)
  then have "m dvd n - (n - 8)" by (rule dvd_diff_nat)
  then show False using assms(2,3) by (auto dest: dvd_imp_le)
qed

lemma finish_agg_ok:
  assumes f: "xf_frame_tag (ag_first g) = DATA_FRAMETAG" "xf_pkt_offset (ag_first g) = 2"
      "px_last_txcmdsz (xf_attrib (ag_first g)) = length fb" "length fb < 65536"
    and first: "rd_slice (us_mem us b) 48 (length fb) = Some fb"
    and rest: "laid (us_mem us b) (48 + length fb) fs (ag_tail g)" "ag_tail g \<le> length (us_mem us b)"
    and rdy: "usb_ready us" and bulk: "8 < hu_UsbBulkOutSize (us_hal us)"
  shows "\<exists>us' bytes. finish_agg us g b = Some us' \<and>
    usb_out (us_ad us') = usb_out (us_ad us) @ [(rtw_get_ff_hwaddr (px_qsel (xf_attrib (ag_first g))), bytes)] \<and>
    agg_frames (Suc (length fs)) bytes = Some (fb # fs) \<and> length bytes mod hu_UsbBulkOutSize (us_hal us) \<noteq> 0 \<and>
    length bytes \<le> ag_tail g \<and> sv_pending (get_servq (sta_of (us_ad us') p) ac) = sv_pending (get_servq (sta_of (us_ad us) p) ac)"
proof -
  define us0 where "us0 = (if \<not> low_rate_packet (xf_attrib (ag_first g)) then rtw_issue_addbareq_cmd us (ag_first g) else us)"
  define shrink where "shrink \<longleftrightarrow> ag_tail g mod hu_UsbBulkOutSize (us_hal us) = 0"
  define k :: nat where "k = (if shrink then 1 else 0)"
  define f1 where "f1 = (if shrink then (ag_first g)\<lparr>xf_pkt_offset := 1\<rparr> else ag_first g)"
  have us0: "us_bufs us0 = us_bufs us" "us_hal us0 = us_hal us" "usb_out (us_ad us0) = usb_out (us_ad us)" "usb_ready us0"
      "get_servq (sta_of (us_ad us0) p) ac = get_servq (sta_of (us_ad us) p) ac"
    using rdy by (simp_all add: us0_def usb_ready_def)
  have f1: "xf_frame_tag f1 = DATA_FRAMETAG" "xf_attrib f1 = xf_attrib (ag_first g)" "8 * k + 8 * xf_pkt_offset f1 = 16"
    using f by (simp_all add: f1_def k_def)
  define m' where "m' = with_desc (us_mem us b) (8 * k) (data_desc us0 f1 (length fb))"
  define us1 where "us1 = us0\<lparr>us_bufs := (us_bufs us0)(b := (us_bufs us0 b)\<lparr>xb_mem := m'\<rparr>)\<rparr>"
  have t: "48 + length fb \<le> ag_tail g" using laid_tail [OF rest(1)] .
  have k1: "k \<le> 1" by (simp add: k_def)
  have r32: "8 * k + 32 \<le> length (us_mem us b)" using t rest(2) k1 by linarith
  have pd: "put_desc us0 b (8 * k) (data_desc us0 f1 (length fb)) = Some us1"
    using put_desc_at [of "8 * k" us0 b] r32 by (simp add: us1_def m'_def us0)
  have lm: "length m' = length (us_mem us b)" using with_desc_facts(1) [OF r32] by (simp add: m'_def)
  have "usb_ready us1" using us0(4) by (simp add: us1_def usb_ready_def)
  moreover have "8 * k + (ag_tail g - 8 * k) \<le> length (us_mem us1 b)" using lm rest(2) t k1 by (simp add: us1_def)
  ultimately obtain us2 where w: "usb_write_port us1 (rtw_get_ff_hwaddr (px_qsel (xf_attrib f1))) b (8 * k) (ag_tail g - 8 * k) = Some (SUCCESS, us2)"
      "usb_out (us_ad us2) = usb_out (us_ad us1) @ [(rtw_get_ff_hwaddr (px_qsel (xf_attrib f1)), take (ag_tail g - 8 * k) (drop (8 * k) (us_mem us1 b)))]"
      "sta_of (us_ad us2) = sta_of (us_ad us1)"
    using usb_write_port_ok by blast
  define bytes where "bytes = take (ag_tail g - 8 * k) (drop (8 * k) m')"
  have fin: "finish_agg us g b = Some (free_frame us2 f1)"
  proof -
    have e: "(if shrink then (ag_first g)\<lparr>xf_pkt_offset := (xf_pkt_offset (ag_first g) + 255) mod 256\<rparr> else ag_first g) = f1"
      "(if shrink then PACKET_OFFSET_SZ else 0) = 8 * k"
      using f(2) by (simp_all add: f1_def k_def PACKET_OFFSET_SZ_def)
    have "px_last_txcmdsz (xf_attrib f1) = length fb" using f(3) f1(2) by simp
    then show ?thesis
      unfolding finish_agg_def Let_def us0_def [symmetric] shrink_def [symmetric] e
      using w(1) pd update_txdesc_agg [OF f1(1), of us0 "length fb"] by simp
  qed
  have lb: "length bytes = ag_tail g - 8 * k" using lm rest(2) by (simp add: bytes_def)
  have md: "length bytes mod hu_UsbBulkOutSize (us_hal us) \<noteq> 0"
  proof (cases shrink)
    case True
    then have "(ag_tail g - 8) mod hu_UsbBulkOutSize (us_hal us) \<noteq> 0"
      using t bulk unfolding shrink_def by (intro shrunk_mod) simp_all
    then show ?thesis using True lb by (simp add: k_def)
  next
    case False
    then show ?thesis using lb by (simp add: k_def shrink_def)
  qed
  show ?thesis
  proof (intro exI conjI)
    show "agg_frames (Suc (length fs)) bytes = Some (fb # fs)"
      unfolding bytes_def m'_def by (rule transfer_frames [OF first rest f(4) f1(3)])
    show "usb_out (us_ad (free_frame us2 f1)) = usb_out (us_ad us) @ [(rtw_get_ff_hwaddr (px_qsel (xf_attrib (ag_first g))), bytes)]"
      using w(2) us0(3) f1(2) by (simp add: us1_def bytes_def free_frame_def set_xp_def)
    show "sv_pending (get_servq (sta_of (us_ad (free_frame us2 f1)) p) ac) = sv_pending (get_servq (sta_of (us_ad us) p) ac)"
      using w(3) us0(5) by (simp add: us1_def)
  qed (use fin md lb in simp_all)
qed

section \<open>A whole transfer\<close>

lemma dequeue_stas_keeps:
  "usb_out (snd (dequeue_stas ad ac ps)) = usb_out ad" "bDriverStopped (snd (dequeue_stas ad ac ps)) = bDriverStopped ad"
  "bSurpriseRemoved (snd (dequeue_stas ad ac ps)) = bSurpriseRemoved ad"
  by (induction ps arbitrary: ad) (auto simp: dequeue_one_xmitframe_def Let_def set_sta_def split: list.splits)

lemma dequeue_acs_keeps:
  "usb_out (snd (dequeue_acs ad acs)) = usb_out ad \<and> bDriverStopped (snd (dequeue_acs ad acs)) = bDriverStopped ad \<and>
   bSurpriseRemoved (snd (dequeue_acs ad acs)) = bSurpriseRemoved ad"
proof (induction acs arbitrary: ad)
  case (Cons ac acs)
  obtain r ad1 where d: "dequeue_stas ad ac (hw_sta_queue (xmitpriv ad) ac) = (r, ad1)" by fastforce
  show ?case
    using dequeue_stas_keeps [of ad ac "hw_sta_queue (xmitpriv ad) ac"] Cons.IH [of ad1]
    by (simp add: d split: option.split)
qed simp

lemma dequeue_ready:
  assumes "rtw_dequeue_xframe (us_ad us) = (r, ad)" and "usb_ready us"
  shows "usb_ready (us\<lparr>us_ad := ad\<rparr>)" "usb_out ad = usb_out (us_ad us)"
proof -
  have "ad = snd (dequeue_acs (us_ad us) (if wifi_spec (us_ad us) then irp_order (xp_irp_cnt (xmitpriv (us_ad us))) else [0, 1, 2, 3]))"
    using assms(1) unfolding rtw_dequeue_xframe_def by simp
  with dequeue_acs_keeps show "usb_ready (us\<lparr>us_ad := ad\<rparr>)" "usb_out ad = usb_out (us_ad us)"
    using assms(2) unfolding usb_ready_def by simp_all
qed

text \<open>The frames behind \<open>f\<close> for the same station and category.\<close>

definition queued_behind :: "adapter \<Rightarrow> nat \<Rightarrow> xmit_frame \<Rightarrow> xmit_frame list" where
  "queued_behind ad p f = sv_pending (get_servq (sta_of ad p) (rtw_get_sta_pending (px_priority (xf_attrib f))))"

lemma pick_first_ok:
  assumes deq: "rtw_dequeue_xframe (us_ad us) = (Some f, ad)" and ok: "agg_ok md ad p f"
    and room: "aggMaxLength us + 64 \<le> length (us_mem us b)" "xmitframe_need_length f + 48 \<le> length (us_mem us b)"
  shows "\<exists>g us1. pick_first us b = Some (Some g, us1) \<and>
    xf_attrib (ag_first g) = tx_done ad p (xf_attrib f) (the (xf_pkt f)) \<and> xf_frame_tag (ag_first g) = DATA_FRAMETAG \<and>
    xf_pkt_offset (ag_first g) = 2 \<and> xf_agg_num (ag_first g) = xf_agg_num f \<and>
    ag_tail g = 48 + length (frame_bytes md ad p f) \<and> ag_pbuf g = RND8 (ag_tail g) \<and>
    length (us_mem us1 b) = length (us_mem us b) \<and>
    rd_slice (us_mem us1 b) 48 (length (frame_bytes md ad p f)) = Some (frame_bytes md ad p f) \<and>
    us_ad us1 = tx_adapter ad p (xf_attrib f) \<and> us_hal us1 = us_hal us \<and> us_urb us1 = us_urb us \<and> us_urb_cnt us1 = us_urb_cnt us"
proof -
  define f' where "f' = f\<lparr>xf_pkt_offset := USB_92D_DUMMY_OFFSET\<rparr>"
  define fb where "fb = frame_bytes md ad p f"
  have f': "xf_attrib f' = xf_attrib f" "xf_pkt f' = xf_pkt f" "xf_frame_tag f' = xf_frame_tag f" "xf_pkt_offset f' = 2" "xf_agg_num f' = xf_agg_num f"
    by (simp_all add: f'_def USB_92D_DUMMY_OFFSET_def)
  have ok': "agg_ok md (us_ad (us\<lparr>us_ad := ad\<rparr>)) p f'" using ok by (simp add: agg_ok_def f')
  have pf: "first_pframe 2 = 48" by (simp add: first_pframe_def TXDESC_SIZE_def PACKET_OFFSET_SZ_def)
  have need: "xmitframe_need_length f' = xmitframe_need_length f" by (simp add: xmitframe_need_length_def f')
  have fb: "frame_bytes md ad p f' = fb" "length fb = xmitframe_need_length f"
    using frame_bytes_length(1) [OF ok] by (simp_all add: fb_def frame_bytes_def f')
  have agg: "112 \<le> aggMaxLength us" by (simp add: aggMaxLength_def MAX_XMITBUF_SZ_def)
  have r: "48 + max 64 (length fb) \<le> length (us_mem us b)" using room agg fb(2) by linarith
  have r0: "0 + first_pframe 2 + max 64 (length fb) \<le> length (us_mem us b)" using r by (simp add: pf)
  note bm = built_mem_facts [OF r0]
  define us1 where "us1 = us\<lparr>us_ad := tx_adapter ad p (xf_attrib f),
     us_bufs := (us_bufs us)(b := (us_bufs us b)\<lparr>xb_mem := built_mem (us_mem us b) 0 2 fb\<rparr>)\<rparr>"
  define f2 where "f2 = f'\<lparr>xf_attrib := tx_done ad p (xf_attrib f) (the (xf_pkt f))\<rparr>"
  have c: "coalesce_into (us\<lparr>us_ad := ad\<rparr>) f' b 0 = Some (SUCCESS, us1, f2)"
    using coalesce_into_ok [OF ok', of 0 b] r by (simp add: f' pf fb need us1_def f2_def)
  have ps: "px_psta (xf_attrib f) = Some p" and tag: "xf_frame_tag f = DATA_FRAMETAG" using ok by (simp_all add: agg_ok_def Let_def)
  have len: "xmitframe_need_length (f2\<lparr>xf_pkt := None\<rparr>) + USB_HWDESC_HEADER_LEN = 48 + length fb"
    using fb(2) by (simp add: xmitframe_need_length_def f2_def Let_def USB_HWDESC_HEADER_LEN_def TXDESC_SIZE_def USB_92D_DUMMY_OFFSET_def PACKET_OFFSET_SZ_def)
  have "pick_first us b = Some (Some \<lparr>ag_first = f2\<lparr>xf_pkt := None\<rparr>, ag_pbuf = RND8 (48 + length fb), ag_tail = 48 + length fb,
      ag_descCount = 0, ag_bulkPtr = hu_UsbBulkOutSize (us_hal us1)\<rparr>, us1)"
    by (subst pick_first.simps) (simp add: deq ps f'_def [symmetric] c Let_def len SUCCESS_def FAIL_def)
  then show ?thesis
    using bm(1,2) tag fb(1) pf by (simp add: us1_def f2_def f' fb_def [symmetric])
qed

text \<open>
  C36: an aggregate holds what was queued: of a station's queued packets (one fragment each, not encrypted by software) a first part
  goes out in one transfer, to the queue of the first packet; taken apart by its descriptors it gives the frames of these
  packets in their order, with consecutive sequence numbers; the rest stays queued.  The transfer lies in the buffer and its
  length is no multiple of the packet size of the bulk pipe, so that the device sees its end.
\<close>

theorem usb_aggregate:
  assumes deq: "rtw_dequeue_xframe (us_ad us) = (Some f, ad)"
    and ok: "agg_ok md ad p f" "\<forall>x \<in> set (queued_behind ad p f). agg_ok md ad p x" and num: "xf_agg_num f = 1"
    and rdy: "usb_ready us" and bulk: "8 < hu_UsbBulkOutSize (us_hal us)"
    and room: "aggMaxLength us + 64 \<le> length (us_mem us b)" "xmitframe_need_length f + 48 \<le> length (us_mem us b)" "xmitframe_need_length f < 65536"
  shows "\<exists>n us' bytes. n \<le> length (queued_behind ad p f) \<and> rtl8192du_xmitframe_complete us (Some b) = Some (True, us') \<and>
    usb_out (us_ad us') = usb_out (us_ad us) @ [(rtw_get_ff_hwaddr (px_qsel (xf_attrib f)), bytes)] \<and>
    agg_frames (Suc n) bytes = Some (tx_frames md ad p (f # take n (queued_behind ad p f))) \<and>
    queued_behind (us_ad us') p f = drop n (queued_behind ad p f) \<and>
    length bytes \<le> length (us_mem us b) \<and> length bytes mod hu_UsbBulkOutSize (us_hal us) \<noteq> 0"
proof -
  define ac where "ac = rtw_get_sta_pending (px_priority (xf_attrib f))"
  define fb where "fb = frame_bytes md ad p f"
  define q where "q = queued_behind ad p f"
  obtain g us1 where first: "pick_first us b = Some (Some g, us1)"
    and a: "xf_attrib (ag_first g) = tx_done ad p (xf_attrib f) (the (xf_pkt f))" and tag: "xf_frame_tag (ag_first g) = DATA_FRAMETAG"
      "xf_pkt_offset (ag_first g) = 2" "xf_agg_num (ag_first g) = 1"
    and tail: "ag_tail g = 48 + length fb" "ag_pbuf g = RND8 (ag_tail g)"
    and m: "length (us_mem us1 b) = length (us_mem us b)" "rd_slice (us_mem us1 b) 48 (length fb) = Some fb"
    and e: "us_ad us1 = tx_adapter ad p (xf_attrib f)" "us_hal us1 = us_hal us" "us_urb us1 = us_urb us" "us_urb_cnt us1 = us_urb_cnt us"
    using pick_first_ok [OF deq ok(1) room(1,2)] unfolding fb_def num by blast
  obtain stop g1 where bc: "bulk_check (us_hal us1) g = (stop, g1)" by (cases "bulk_check (us_hal us1) g")
  have g1: "ag_first g1 = ag_first g" "ag_tail g1 = ag_tail g" "ag_pbuf g1 = ag_pbuf g"
    using bc by (auto simp: bulk_check_def split: if_splits)
  have env: "env_tx ad (us_ad us1) p" unfolding e(1) by (rule tx_adapter_env)
  have ps: "px_psta (xf_attrib f) = Some p" using ok(1) by (simp add: agg_ok_def Let_def)
  have fits: "48 + length fb \<le> length (us_mem us b)" using room(2) frame_bytes_length(1) [OF ok(1)] by (simp add: fb_def)
  have "\<exists>n g2 us2. n \<le> length q \<and> (if stop then Some (g1, us1) else agg_loop us1 g1 b) = Some (g2, us2) \<and>
    laid (us_mem us2 b) (48 + length fb) ([] @ tx_frames md (us_ad us1) p (take n q)) (ag_tail g2) \<and> length (us_mem us2 b) = length (us_mem us1 b) \<and>
    (\<forall>i < ag_tail g1. us_mem us2 b ! i = us_mem us1 b ! i) \<and> ag_tail g2 \<le> length (us_mem us1 b) \<and> ag_tail g1 \<le> ag_tail g2 \<and>
    ag_first g2 = (ag_first g1)\<lparr>xf_agg_num := xf_agg_num (ag_first g1) + n\<rparr> \<and> xf_agg_num (ag_first g1) + n \<le> 255 \<and>
    sv_pending (get_servq (sta_of (us_ad us2) p) ac) = drop n q \<and> env_tx (us_ad us1) (us_ad us2) p \<and>
    us_hal us2 = us_hal us1 \<and> us_urb us2 = us_urb us1 \<and> us_urb_cnt us2 = us_urb_cnt us1"
  proof (cases stop)
    case True
    then show ?thesis
      using fits m tail g1 e(1) tag by (intro exI [of _ 0] exI [of _ g1] exI [of _ us1])
        (simp add: q_def queued_behind_def ac_def tx_adapter_servq)
  next
    case False
    show ?thesis unfolding if_not_P [OF False]
    proof (rule agg_loop_ok)
      show "sv_pending (get_servq (sta_of (us_ad us1) p) ac) = q" by (simp add: e(1) tx_adapter_servq q_def queued_behind_def ac_def)
      show "\<forall>f \<in> set q. agg_ok md (us_ad us1) p f" using ok(2) env_agg_ok [OF env] by (simp add: q_def)
      show "px_psta (xf_attrib (ag_first g1)) = Some p" "rtw_get_sta_pending (px_priority (xf_attrib (ag_first g1))) = ac"
        by (simp_all add: g1 a ps ac_def)
      show "ag_pbuf g1 = RND8 (ag_tail g1)" by (simp add: g1 tail)
      show "laid (us_mem us1 b) (48 + length fb) [] (ag_tail g1)" by (simp add: g1 tail)
      show "ag_tail g1 \<le> length (us_mem us1 b)" using fits by (simp add: g1 tail m)
      show "aggMaxLength us1 + 64 \<le> length (us_mem us1 b)" using room(1) e(2) m(1) by (simp add: aggMaxLength_def)
      show "xf_agg_num (ag_first g1) < 255" by (simp add: g1 tag)
    qed
  qed
  then obtain n g2 us2 where l: "n \<le> length q" "(if stop then Some (g1, us1) else agg_loop us1 g1 b) = Some (g2, us2)"
      "laid (us_mem us2 b) (48 + length fb) (tx_frames md (us_ad us1) p (take n q)) (ag_tail g2)" "length (us_mem us2 b) = length (us_mem us b)"
      "\<forall>i < 48 + length fb. us_mem us2 b ! i = us_mem us1 b ! i" "ag_tail g2 \<le> length (us_mem us b)"
      "ag_first g2 = (ag_first g)\<lparr>xf_agg_num := 1 + n\<rparr>" "sv_pending (get_servq (sta_of (us_ad us2) p) ac) = drop n q"
      "env_tx (us_ad us1) (us_ad us2) p" "us_hal us2 = us_hal us" "us_urb us2 = us_urb us" "us_urb_cnt us2 = us_urb_cnt us"
    using g1 tail(1) tag(3) m(1) e(2-4) by auto
  have keep: "take (length fb) (drop 48 (us_mem us2 b)) = take (length fb) (drop 48 (us_mem us1 b))"
    using l(4,5) m(1) by (intro slice_same [where lo = 48 and hi = "48 + length fb"]) auto
  have f2: "xf_frame_tag (ag_first g2) = DATA_FRAMETAG" "xf_pkt_offset (ag_first g2) = 2"
      "px_last_txcmdsz (xf_attrib (ag_first g2)) = length fb" "length fb < 65536" "px_qsel (xf_attrib (ag_first g2)) = px_qsel (xf_attrib f)"
    using l(7) tag a frame_bytes_length [OF ok(1)] room(3) by (simp_all add: fb_def)
  have r48: "rd_slice (us_mem us2 b) 48 (length fb) = Some fb" using m(2) keep l(4) m(1) by (simp add: rd_slice_def split: if_splits)
  have env2: "env_tx ad (us_ad us2) p" using env l(9) by (rule env_tx_trans)
  have rdy2: "usb_ready us2" and out2: "usb_out (us_ad us2) = usb_out (us_ad us)"
    using env2 dequeue_ready [OF deq rdy] l(10-12) by (simp_all add: usb_ready_def env_tx_def)
  have tl2: "ag_tail g2 \<le> length (us_mem us2 b)" using l(4,6) by simp
  have bulk2: "8 < hu_UsbBulkOutSize (us_hal us2)" using bulk l(10) by simp
  obtain us3 bytes where fin: "finish_agg us2 g2 b = Some us3"
      "usb_out (us_ad us3) = usb_out (us_ad us2) @ [(rtw_get_ff_hwaddr (px_qsel (xf_attrib (ag_first g2))), bytes)]"
      "agg_frames (Suc (length (tx_frames md (us_ad us1) p (take n q)))) bytes = Some (fb # tx_frames md (us_ad us1) p (take n q))"
      "length bytes mod hu_UsbBulkOutSize (us_hal us2) \<noteq> 0" "length bytes \<le> ag_tail g2"
      "sv_pending (get_servq (sta_of (us_ad us3) p) ac) = sv_pending (get_servq (sta_of (us_ad us2) p) ac)"
    using finish_agg_ok [OF f2(1-4) r48 l(3) tl2 rdy2 bulk2] by blast
  have len: "length (tx_frames md x p fs) = length fs" for x fs by (induction fs arbitrary: x) simp_all
  have ln: "length (tx_frames md x p (take n q)) = n" for x using l(1) by (simp only: len length_take min_absorb2)
  have c: "rtl8192du_xmitframe_complete us (Some b) = Some (True, us3)"
    using first bc l(2) fin(1) by (simp add: rtl8192du_xmitframe_complete_def)
  show ?thesis
  proof (intro exI conjI)
    show "n \<le> length (queued_behind ad p f)" using l(1) by (simp add: q_def)
    show "agg_frames (Suc n) bytes = Some (tx_frames md ad p (f # take n (queued_behind ad p f)))"
      using fin(3) [unfolded ln] unfolding tx_frames.simps e(1) fb_def q_def .
    show "queued_behind (us_ad us3) p f = drop n (queued_behind ad p f)"
      using fin(6) l(8) by (simp add: queued_behind_def q_def ac_def)
    show "length bytes \<le> length (us_mem us b)" using fin(5) l(6) by simp
  qed (use c fin(2,4) out2 f2(5) l(10) in simp_all)
qed

text \<open>An access point with two packets queued for its station.\<close>

definition agg_sample_frame :: xmit_frame where
  "agg_sample_frame = \<lparr>xf_id = 0, xf_alloc_addr = False, xf_ext_tag = False, xf_attrib = tx_sample\<lparr>px_pktlen := 3\<rparr>,
     xf_pkt = Some (replicate 14 0 @ [1, 2, 3]), xf_frame_tag = DATA_FRAMETAG, xf_pkt_offset = 1, xf_agg_num = 1, xf_ack_report = False\<rparr>"

definition agg_ap :: adapter where
  "agg_ap = ap_adapter\<lparr>
     stapriv := (stapriv ap_adapter)\<lparr>sta_buf := (\<lambda>_. set_servq (sta_of ap_adapter 0) 2
        ((get_servq (sta_of ap_adapter 0) 2)\<lparr>sv_pending := [agg_sample_frame, agg_sample_frame], sv_qcnt := 2\<rparr>))\<rparr>,
     xmitpriv := (xmitpriv ap_adapter)\<lparr>hw_sta_queue := (hw_sta_queue (xmitpriv ap_adapter))(0 := [], 1 := [], 2 := [0])\<rparr>\<rparr>"

definition sample_usb :: usb_state where
  "sample_usb = \<lparr>us_ad = agg_ap,
     us_hal = \<lparr>hu_ishighspeed = True, hu_UsbBulkOutSize = 512, hu_UsbTxAggDescNum = 4, hu_single_mac = False,
       hu_INIDATA_RATE = (\<lambda>_. 0), hu_fix_rate = 0xFF, hu_tx_rate = 2, hu_preamble_mode = 0, hu_p2p = False, hu_mp_mode = False,
       hu_bTxBusyTraffic = False, hu_pnp_bstop_trx = False\<rparr>,
     us_bufs = (\<lambda>_. \<lparr>xb_addr = 0, xb_mem = replicate 20992 0\<rparr>), us_ext_tag = (\<lambda>_. False), us_extbuf = [], us_extbuf_cnt = 0,
     us_flags = (\<lambda>_. 0), us_urb = (\<lambda>_. UrbOk), us_urb_cnt = 0\<rparr>"

lemma agg_sample_frame_ok: "agg_ok FromAp ap_adapter 0 agg_sample_frame"
proof -
  let ?a = "tx_sample\<lparr>px_pktlen := 3\<rparr>"
  have a: "px_dst ?a = station_mac" "px_src ?a = [2, 0, 0, 0, 0, 9]" "px_ta ?a = cur_bssid ap_adapter"
    "px_hdrlen ?a = 24" "px_encrypt ?a = NO_PRIVACY" "px_subtype ?a = WIFI_DATA_TYPE" "\<not> px_mdata ?a"
    by (simp_all add: tx_sample_def sample_px_def ap_adapter_facts WIFI_DATA_TYPE_def)
  have m: "is_mac station_mac" "is_mac [2, 0, 0, 0, 0, 9]" by (simp_all add: is_mac_def station_mac_def)
  have a2: "px_iv_len ?a = 0" "px_icv_len ?a = 0" "\<not> px_bswenc ?a" "px_pkt_hdrlen ?a = 14" "px_psta ?a = Some 0" "px_arrays ?a"
    by (simp_all add: tx_sample_def sample_px_def px_arrays_def)
  have "frag_chunk (xp_frag_len (xmitpriv ap_adapter)) False True ?a [1, 2, 3] = [1, 2, 3]"
    by (simp add: frag_chunk_def frag_mpdu_len_def ap_adapter_facts a a2)
  moreover have "si_state (sta_of ap_adapter 0) AND FW_LINKED \<noteq> 0" using ap_adapter_open by (simp add: open_station_def)
  ultimately show ?thesis
    using open_tx_ok(1) [OF ap_adapter_open m a] a a2 by (simp add: agg_ok_def agg_sample_frame_def Let_def)
qed

lemma agg_ap_dequeue:
  "\<exists>ad. rtw_dequeue_xframe agg_ap = (Some agg_sample_frame, ad) \<and> env_tx ap_adapter ad 0 \<and> queued_behind ad 0 agg_sample_frame = [agg_sample_frame]"
proof -
  have s: "sta_of agg_ap 0 = set_servq (sta_of ap_adapter 0) 2 ((get_servq (sta_of ap_adapter 0) 2)\<lparr>sv_pending := [agg_sample_frame, agg_sample_frame], sv_qcnt := 2\<rparr>)"
    by (simp add: agg_ap_def sta_of_def)
  have q: "sv_pending (get_servq (sta_of agg_ap 0) 2) = [agg_sample_frame, agg_sample_frame]"
    unfolding s by (simp add: set_servq_def get_servq_def)
  have h: "hw_sta_queue (xmitpriv agg_ap) 0 = []" "hw_sta_queue (xmitpriv agg_ap) (Suc 0) = []" "hw_sta_queue (xmitpriv agg_ap) 2 = [0]" "\<not> wifi_spec agg_ap"
    by (simp_all add: agg_ap_def ap_adapter_def zero_adapter_def)
  define ad where "ad = snd (rtw_dequeue_xframe agg_ap)"
  have one: "dequeue_one_xmitframe agg_ap 0 2 = (Some agg_sample_frame, set_sta agg_ap 0 (set_servq (sta_of agg_ap 0) 2
      ((get_servq (sta_of agg_ap 0) 2)\<lparr>sv_pending := [agg_sample_frame], sv_qcnt := sv_qcnt (get_servq (sta_of agg_ap 0) 2) - 1\<rparr>)))"
    by (simp add: dequeue_one_xmitframe_def Let_def q)
  have e0: "env_tx ap_adapter agg_ap 0"
    by (simp add: env_tx_def s) (simp add: agg_ap_def set_servq_def)
  have ac: "rtw_get_sta_pending (px_priority (xf_attrib agg_sample_frame)) = 2"
    by (simp add: agg_sample_frame_def tx_sample_def sample_px_def rtw_get_sta_pending_def)
  have "rtw_dequeue_xframe agg_ap = (Some agg_sample_frame, ad)"
    by (simp add: ad_def rtw_dequeue_xframe_def h one Let_def)
  moreover have "env_tx agg_ap ad 0"
    by (simp add: ad_def rtw_dequeue_xframe_def h one env_tx_def Let_def) (simp add: set_sta_def set_servq_def)
  moreover have "queued_behind ad 0 agg_sample_frame = [agg_sample_frame]"
    by (simp add: ad_def queued_behind_def ac rtw_dequeue_xframe_def h one Let_def get_servq_def set_servq_def)
  ultimately show ?thesis using env_tx_trans [OF e0] by blast
qed

theorem usb_aggregate_witness:
  "\<exists>n us' bytes ad. n \<le> 1 \<and> rtl8192du_xmitframe_complete sample_usb (Some 0) = Some (True, us') \<and>
    usb_out (us_ad us') = [(2, bytes)] \<and>
    agg_frames (Suc n) bytes = Some (tx_frames FromAp ad 0 (agg_sample_frame # take n [agg_sample_frame])) \<and>
    length bytes mod 512 \<noteq> 0"
proof -
  obtain ad where d: "rtw_dequeue_xframe agg_ap = (Some agg_sample_frame, ad)" and e: "env_tx ap_adapter ad 0"
    and q: "queued_behind ad 0 agg_sample_frame = [agg_sample_frame]" using agg_ap_dequeue by blast
  have us: "us_ad sample_usb = agg_ap" "hu_UsbBulkOutSize (us_hal sample_usb) = 512" "length (us_mem sample_usb b) = 20992"
    "us_urb sample_usb n = UrbOk" "\<not> hu_pnp_bstop_trx (us_hal sample_usb)" for b n by (simp_all add: sample_usb_def)
  have ok: "agg_ok FromAp ad 0 agg_sample_frame" using agg_sample_frame_ok env_agg_ok [OF e] by simp
  have need: "xmitframe_need_length agg_sample_frame = 35"
    by (simp add: xmitframe_need_length_def agg_sample_frame_def tx_sample_def sample_px_def)
  have f: "xf_agg_num agg_sample_frame = 1" "rtw_get_ff_hwaddr (px_qsel (xf_attrib agg_sample_frame)) = 2"
    by (simp_all add: agg_sample_frame_def tx_sample_def sample_px_def rtw_get_ff_hwaddr_def)
  have a: "\<not> bDriverStopped agg_ap" "\<not> bSurpriseRemoved agg_ap" "usb_out agg_ap = []"
    by (simp_all add: agg_ap_def ap_adapter_def zero_adapter_def)
  have rdy: "usb_ready sample_usb" by (simp add: usb_ready_def us a)
  have room: "aggMaxLength sample_usb + 64 \<le> length (us_mem sample_usb 0)" "xmitframe_need_length agg_sample_frame + 48 \<le> length (us_mem sample_usb 0)"
    "xmitframe_need_length agg_sample_frame < 65536" "8 < hu_UsbBulkOutSize (us_hal sample_usb)"
    by (simp_all add: us need aggMaxLength_def MAX_XMITBUF_SZ_def)
  have oks: "\<forall>x \<in> set (queued_behind ad 0 agg_sample_frame). agg_ok FromAp ad 0 x" using ok q by simp
  note w = usb_aggregate [OF d [folded us(1)] ok oks f(1) rdy room(4,1-3)]
  show ?thesis using w unfolding us q f(2) a by (auto simp del: agg_frames.simps tx_frames.simps)
qed

end
