(* ===== verification/RxSignal.thy ===== *)
theory RxSignal
  imports XmitQueue Wifi
begin

text \<open>
  Signal strength and quality (\<open>hal/rtl8192d_rxdesc.c\<close>, \<open>include/rtw_recv.h\<close>, the statistics timer of
  \<open>core/rtw_recv.c\<close>): from the physical status before a frame to percentages, their averages over
  a sampling interval and the smoothed values the user sees; that these stay in their ranges and
  follow the signal.
\<close>

section \<open>State\<close>

text \<open>
  What the radio is set to: \<open>pc_cck_highpwr\<close> is \<open>bCckHighPower\<close> while the radio is on, \<open>pc_paths\<close> are
  \<open>bRFPathRxEnable\<close> of the \<open>NumTotalRFPath\<close> paths, \<open>pc_lenovo\<close> is the customer identifier's test.
\<close>

record phy_ctl =
  pc_cck_highpwr :: bool
  pc_lenovo :: bool
  pc_paths :: "bool list"

text \<open>The fields of \<open>rx_pkt_attrib\<close> that describe the signal of one frame.\<close>

record rx_signal =
  rs_RxPWDBAll :: nat
  rs_RecvSignalPower :: int
  rs_signal_qual :: nat
  rs_rx_mimo_signal_qual :: "int list"
  rs_signal_strength :: nat
  rs_rx_rssi :: "nat list"

record signal_stat =
  st_update_req :: bool
  st_avg_val :: nat
  st_total_num :: nat
  st_total_val :: nat

text \<open>
  The fields of \<open>recv_priv\<close>, of \<open>dm_priv\<close> (\<open>rg_PWDB\<close>) and of the stations (\<open>rg_sta_PWDB\<close> is
  \<open>rssi_stat.UndecoratedSmoothedPWDB\<close>).
\<close>

record recv_sig =
  rg_rxpwdb :: int
  rg_RxRssi :: "int list"
  rg_RxSNRdB :: "int list"
  rg_signal_strength_data :: signal_stat
  rg_signal_qual_data :: signal_stat
  rg_signal_strength :: nat
  rg_signal_qual :: nat
  rg_rssi :: int
  rg_PWDB :: u32
  rg_sta_PWDB :: "nat \<Rightarrow> u32"
  rg_sta_rssi :: "nat \<Rightarrow> int"

section \<open>Scales\<close>

definition s8 :: "byte \<Rightarrow> int" where "s8 b = sint b"

definition query_rx_pwr_percentage :: "int \<Rightarrow> nat" where
  "query_rx_pwr_percentage antpower =
     (if antpower \<le> -100 \<or> antpower \<ge> 20 then 0 else if antpower \<ge> 0 then 100 else nat (100 + antpower))"

definition translate_percentage_to_dbm :: "nat \<Rightarrow> int" where
  "translate_percentage_to_dbm idx = int ((idx + 1) div 2) - 95"

definition evm_db2percentage :: "int \<Rightarrow> nat" where
  "evm_db2percentage v =
     (let r0 = (if v \<ge> 0 then 0 else v); r1 = (if r0 \<le> -33 then -33 else r0); r = nat ((0 - r1) * 3)
      in if r = 99 then 100 else r)"

definition signal_scale_mapping :: "int \<Rightarrow> int" where
  "signal_scale_mapping cur_sig =
     (if cur_sig \<ge> 51 \<and> cur_sig \<le> 100 then 100
      else if cur_sig \<ge> 41 \<and> cur_sig \<le> 50 then 80 + (cur_sig - 40) * 2
      else if cur_sig \<ge> 31 \<and> cur_sig \<le> 40 then 66 + (cur_sig - 30)
      else if cur_sig \<ge> 21 \<and> cur_sig \<le> 30 then 54 + (cur_sig - 20)
      else if cur_sig \<ge> 10 \<and> cur_sig \<le> 20 then 42 + (cur_sig - 10) * 2 div 3
      else if cur_sig \<ge> 5 \<and> cur_sig \<le> 9 then 22 + (cur_sig - 5) * 3 div 2
      else if cur_sig \<ge> 1 \<and> cur_sig \<le> 4 then 6 + (cur_sig - 1) * 3 div 2
      else cur_sig)"

section \<open>One frame\<close>

text \<open>The power of a CCK frame from its gain report, and its percentage, adjusted to the OFDM scale.\<close>

definition cck_rx_pwr :: "bool \<Rightarrow> byte \<Rightarrow> int" where
  "cck_rx_pwr highpwr agc =
     (let report = (if highpwr then drop_bit 5 (agc AND 0x60) else drop_bit 6 (agc AND 0xc0));
          gain = (if highpwr then uint (push_bit 1 (agc AND 0x1f)) else uint (agc AND 0x3e))
      in (if report = 3 then -46 else if report = 2 then -26 else if report = 1 then -12 else 16) - gain)"

definition cck_pwdb :: "int \<Rightarrow> nat" where
  "cck_pwdb rx_pwr_all =
     (let p = min 100 (query_rx_pwr_percentage rx_pwr_all + 6)
      in if 34 < p \<and> p \<le> 42 then p - 2 else if 26 < p \<and> p \<le> 34 then p - 6
         else if 14 < p \<and> p \<le> 26 then p - 8 else if 4 < p \<and> p \<le> 14 then p - 4 else p)"

definition five_bars :: "nat \<Rightarrow> nat" where
  "five_bars p = (if p \<ge> 50 then 100 else if p \<ge> 35 then 80 else if p \<ge> 22 then 60 else if p \<ge> 18 then 40 else 20)"

definition cck_quality :: "bool \<Rightarrow> nat \<Rightarrow> byte \<Rightarrow> nat" where
  "cck_quality lenovo pwdb SQ_rpt =
     (if lenovo then five_bars pwdb
      else if pwdb > 40 then 100
      else if SQ_rpt > 64 then 0 else if SQ_rpt < 20 then 100 else (64 - unat SQ_rpt) * 100 div 44)"

text \<open>Writing at an index of an array that has it.\<close>

definition upd :: "'a list \<Rightarrow> nat \<Rightarrow> 'a \<Rightarrow> 'a list option" where
  "upd xs i x = (if i < length xs then Some (xs[i := x]) else None)"

text \<open>
  The loop over the radio paths: \<open>i\<close> is the path, \<open>n\<close> counts the enabled ones, \<open>tot\<close> sums the percentages.
  The gains are at \<open>trsw_gain_X\<close>, the first bytes of the status, the noise ratios at \<open>rxsnr_X\<close>, byte 15.
\<close>

fun rf_paths :: "bool \<Rightarrow> bool \<Rightarrow> bool \<Rightarrow> byte list \<Rightarrow> nat \<Rightarrow> bool list \<Rightarrow> nat \<Rightarrow> nat \<Rightarrow> rx_signal \<Rightarrow> recv_sig \<Rightarrow>
    (nat \<times> nat \<times> rx_signal \<times> recv_sig) option" where
  "rf_paths sta mbss lenovo phy i [] n tot rs rg = Some (n, tot, rs, rg)"
| "rf_paths sta mbss lenovo phy i (en # ps) n tot rs rg = do {
     gain \<leftarrow> rd phy i;
     snr \<leftarrow> rd phy (15 + i);
     (let pwr = uint (gain AND 0x3F) * 2 - 110; rssi = query_rx_pwr_percentage pwr in do {
        rssis \<leftarrow> (if sta \<and> \<not> mbss then Some (rg_RxRssi rg) else upd (rg_RxRssi rg) i pwr);
        pct \<leftarrow> upd (rs_rx_rssi rs) i rssi;
        snrs \<leftarrow> upd (rg_RxSNRdB rg) i (s8 snr div 2);
        rf_paths sta mbss lenovo phy (i + 1) ps (if en then n + 1 else n) (tot + rssi)
          (rs\<lparr>rs_rx_rssi := pct, rs_signal_qual := (if mbss \<and> lenovo \<and> i = 0 then five_bars rssi else rs_signal_qual rs)\<rparr>)
          (rg\<lparr>rg_RxRssi := rssis, rg_RxSNRdB := snrs\<rparr>) }) }"

text \<open>The error vectors at \<open>rxevm_X\<close>, byte 13: \<open>n\<close> streams from \<open>i\<close> on.\<close>

fun evm_streams :: "bool \<Rightarrow> byte list \<Rightarrow> nat \<Rightarrow> nat \<Rightarrow> rx_signal \<Rightarrow> rx_signal option" where
  "evm_streams mbss phy i 0 rs = Some rs"
| "evm_streams mbss phy i (Suc n) rs = do {
     x \<leftarrow> rd phy (13 + i);
     (let evm = evm_db2percentage (s8 x) in do {
        q \<leftarrow> (if mbss then upd (rs_rx_mimo_signal_qual rs) i (s8 (word_of_int (int evm))) else Some (rs_rx_mimo_signal_qual rs));
        evm_streams mbss phy (i + 1) n
          (rs\<lparr>rs_rx_mimo_signal_qual := q, rs_signal_qual := (if mbss \<and> i = 0 then evm else rs_signal_qual rs)\<rparr>) }) }"

text \<open>
  \<open>query_rx_phy_status\<close>: \<open>sta\<close> is \<open>check_fwstate(WIFI_STATION_STATE)\<close>, \<open>mbss\<close> says that the frame is of our
  BSS.  Bytes of the status: \<open>SQ_rpt\<close> 4 and \<open>cck_agc_rpt\<close> 5, \<open>pwdb_all\<close> 4.
\<close>

definition query_rx_phy_status :: "phy_ctl \<Rightarrow> bool \<Rightarrow> bool \<Rightarrow> nat \<Rightarrow> bool \<Rightarrow> byte list \<Rightarrow> rx_signal \<Rightarrow> recv_sig \<Rightarrow> (rx_signal \<times> recv_sig) option" where
  "query_rx_phy_status pc sta mbss mcs_rate rxht phy rs0 rg =
     (let rs = rs0\<lparr>rs_rx_mimo_signal_qual := [-1, -1]\<rparr> in
      if mcs_rate \<le> 3 then do {
        agc \<leftarrow> rd phy 5;
        sq_rpt \<leftarrow> rd phy 4;
        (let pwr = cck_rx_pwr (pc_cck_highpwr pc) agc; pwdb = cck_pwdb pwr; sq = cck_quality (pc_lenovo pc) pwdb sq_rpt;
             rs1 = rs\<lparr>rs_RxPWDBAll := pwdb, rs_RecvSignalPower := pwr\<rparr>;
             rs2 = (if mbss then rs1\<lparr>rs_signal_qual := sq, rs_rx_mimo_signal_qual := [int sq, -1]\<rparr> else rs1)
         in Some (rs2\<lparr>rs_signal_strength := nat (signal_scale_mapping (int pwdb))\<rparr>, rg\<lparr>rg_rxpwdb := pwr\<rparr>)) }
      else do {
        (n, tot, rs1, rg1) \<leftarrow> rf_paths sta mbss (pc_lenovo pc) phy 0 (pc_paths pc) 0 0 rs rg;
        pw \<leftarrow> rd phy 4;
        (let pwr = uint (drop_bit 1 pw AND 0x7f) - 106;
             rs2 = rs1\<lparr>rs_RxPWDBAll := query_rx_pwr_percentage pwr, rs_RecvSignalPower := pwr\<rparr>
         in do {
           rs3 \<leftarrow> (if pc_lenovo pc then Some rs2
                   else evm_streams mbss phy 0 (if rxht \<and> 20 \<le> mcs_rate \<and> mcs_rate \<le> 27 then 2 else 1) rs2);
           Some (if n \<noteq> 0 then rs3\<lparr>rs_signal_strength := nat (signal_scale_mapping (int (tot div n))) mod 256\<rparr> else rs3,
                 rg1\<lparr>rg_rxpwdb := pwr\<rparr>) }) })"

section \<open>Averages\<close>

text \<open>\<open>process_rssi\<close> and \<open>process_link_qual\<close> count a value in the statistics.\<close>

definition stat_add :: "nat \<Rightarrow> signal_stat \<Rightarrow> signal_stat" where
  "stat_add v st0 =
     (let st = (if st_update_req st0 then st0\<lparr>st_total_num := 0, st_total_val := 0, st_update_req := False\<rparr> else st0);
          num = st_total_num st + 1; val = st_total_val st + v
      in st\<lparr>st_total_num := num, st_total_val := val, st_avg_val := val div num\<rparr>)"

definition process_rssi :: "rx_signal \<Rightarrow> recv_sig \<Rightarrow> recv_sig" where
  "process_rssi rs rg = rg\<lparr>rg_signal_strength_data := stat_add (rs_signal_strength rs) (rg_signal_strength_data rg)\<rparr>"

definition process_link_qual :: "rx_signal \<Rightarrow> recv_sig \<Rightarrow> recv_sig" where
  "process_link_qual rs rg = rg\<lparr>rg_signal_qual_data := stat_add (rs_signal_qual rs) (rg_signal_qual_data rg)\<rparr>"

definition Rx_Smooth_Factor :: u32 where "Rx_Smooth_Factor = 20"

text \<open>The smoothed power: the sum is one of unsigned words.\<close>

definition smooth_pwdb :: "u32 \<Rightarrow> nat \<Rightarrow> u32" where
  "smooth_pwdb s0 v =
     (let x = of_nat v; s = (if s0 = 0 then x else s0)
      in if x > s then (s * (Rx_Smooth_Factor - 1) + x) div Rx_Smooth_Factor + 1
         else (s * (Rx_Smooth_Factor - 1) + x) div Rx_Smooth_Factor)"

definition process_PWDB :: "nat option \<Rightarrow> rx_signal \<Rightarrow> recv_sig \<Rightarrow> recv_sig" where
  "process_PWDB psta rs rg =
     (case psta of
        Some p \<Rightarrow> let s = smooth_pwdb (rg_sta_PWDB rg p) (rs_RxPWDBAll rs)
                  in rg\<lparr>rg_sta_PWDB := (rg_sta_PWDB rg)(p := s), rg_PWDB := s\<rparr>
      | None \<Rightarrow> rg\<lparr>rg_PWDB := smooth_pwdb (rg_PWDB rg) (rs_RxPWDBAll rs)\<rparr>)"

definition process_phy_info :: "nat option \<Rightarrow> rx_signal \<Rightarrow> recv_sig \<Rightarrow> recv_sig" where
  "process_phy_info psta rs rg = process_link_qual rs (process_PWDB psta rs (process_rssi rs rg))"

section \<open>Which frames count\<close>

definition WIFI_BEACON :: byte where "WIFI_BEACON = 0x80"

text \<open>
  \<open>rtl8192d_translate_rx_signal_stuff\<close> for a frame \<open>d\<close> with its physical status: \<open>my_bssid\<close> is the address
  of the current network, \<open>rs\<close> the attributes left from the last use of the frame.
\<close>

definition rtl8192d_translate_rx_signal_stuff ::
  "phy_ctl \<Rightarrow> adapter \<Rightarrow> mac \<Rightarrow> bool \<Rightarrow> nat \<Rightarrow> bool \<Rightarrow> byte list \<Rightarrow> byte list option \<Rightarrow> rx_signal \<Rightarrow> recv_sig \<Rightarrow> (rx_signal \<times> recv_sig) option" where
  "rtl8192d_translate_rx_signal_stuff pc ad my_bssid err mcs_rate rxht d phy rs rg =
     (case phy of None \<Rightarrow> Some (rs, rg)
      | Some ph \<Rightarrow> do {
          fc0 \<leftarrow> rd d 0;
          mbss \<leftarrow> (if GetFrameType fc0 = WIFI_CTRL_TYPE \<or> err then Some False
                   else map_option (\<lambda>b. b = my_bssid) (get_hdr_bssid d));
          self \<leftarrow> (if mbss then map_option (\<lambda>a. a = eeprom_mac ad) (get_da d) else Some False);
          (rs1, rg1) \<leftarrow> query_rx_phy_status pc (check_fwstate ad WIFI_STATION_STATE) mbss mcs_rate rxht ph rs rg;
          (if mbss \<and> check_fwstate ad WIFI_AP_STATE then do {
             sa \<leftarrow> get_sa d;
             Some (rs1, case rtw_get_stainfo (stapriv ad) sa of None \<Rightarrow> rg1
                        | Some p \<Rightarrow> process_phy_info (Some p) rs1 (rg1\<lparr>rg_sta_rssi := (rg_sta_rssi rg1)(p := rs_RecvSignalPower rs1)\<rparr>)) }
           else if self \<or> (mbss \<and> GetFrameSubType fc0 = WIFI_BEACON) then do {
             psta \<leftarrow> (if check_fwstate ad (WIFI_ADHOC_STATE OR WIFI_ADHOC_MASTER_STATE)
                      then map_option (rtw_get_stainfo (stapriv ad)) (get_sa d) else Some None);
             Some (rs1, process_phy_info psta rs1 rg1) }
           else Some (rs1, rg1)) })"

section \<open>The statistics timer\<close>

text \<open>A third of the new average, rounded up, at most 100.\<close>

definition blend :: "nat \<Rightarrow> nat \<Rightarrow> nat" where
  "blend avg old =
     (let t = avg + 2 * old; q = (if t mod 3 \<noteq> 0 then t div 3 + 1 else t div 3) in if q > 100 then 100 else q)"

text \<open>
  \<open>rtw_signal_stat_timer_hdl\<close> without the debug override: \<open>off\<close> says that the interface was not long enough
  on its channel to have heard a beacon.
\<close>

definition rtw_signal_stat_timer_hdl :: "adapter \<Rightarrow> bool \<Rightarrow> recv_sig \<Rightarrow> recv_sig" where
  "rtw_signal_stat_timer_hdl ad off rg =
     (let s = rg_signal_strength_data rg; q = rg_signal_qual_data rg;
          rg1 = rg\<lparr>rg_signal_strength_data := s\<lparr>st_update_req := True\<rparr>, rg_signal_qual_data := q\<lparr>st_update_req := True\<rparr>\<rparr>;
          avg_s = (if st_update_req s then 0 else st_avg_val s); num_s = (if st_update_req s then 0 else st_total_num s);
          avg_q = (if st_update_req q then 0 else st_avg_val q)
      in if num_s = 0 \<and> off then rg1
         else if check_fwstate ad WIFI_SITE_MONITOR \<or> \<not> check_fwstate ad FW_LINKED then rg1
         else let tmp_s = blend avg_s (rg_signal_strength rg) in
           rg1\<lparr>rg_signal_strength := tmp_s, rg_rssi := translate_percentage_to_dbm tmp_s,
               rg_signal_qual := blend avg_q (rg_signal_qual rg)\<rparr>)"

section \<open>Ranges\<close>

lemma percentage_le: "query_rx_pwr_percentage x \<le> 100"
  by (auto simp: query_rx_pwr_percentage_def)

lemma scale_le: "0 \<le> x \<Longrightarrow> x \<le> 100 \<Longrightarrow> 0 \<le> signal_scale_mapping x \<and> signal_scale_mapping x \<le> 100"
  by (auto simp: signal_scale_mapping_def)

lemma evm_le: "evm_db2percentage v \<le> 100"
  by (auto simp: evm_db2percentage_def Let_def)

lemma five_bars_le: "five_bars p \<le> 100"
  by (simp add: five_bars_def)

lemma cck_pwdb_le: "cck_pwdb x \<le> 100"
  by (auto simp: cck_pwdb_def Let_def)

lemma cck_quality_le: "cck_quality l p sq \<le> 100"
proof -
  have "(64 - unat sq) * 100 div 44 \<le> 100" if "\<not> sq < 20"
  proof -
    have "20 \<le> unat sq" using that by (simp add: word_less_nat_alt)
    then show ?thesis using div_le_mono [of "(64 - unat sq) * 100" 4400 44] by simp
  qed
  then show ?thesis using five_bars_le [of p] by (simp add: cck_quality_def)
qed

definition sig_ok :: "rx_signal \<Rightarrow> bool" where
  "sig_ok rs \<longleftrightarrow> rs_signal_strength rs \<le> 100 \<and> rs_signal_qual rs \<le> 100 \<and> rs_RxPWDBAll rs \<le> 100"

definition stat_ok :: "signal_stat \<Rightarrow> bool" where
  "stat_ok st \<longleftrightarrow> st_avg_val st \<le> 100 \<and> st_total_val st \<le> 100 * st_total_num st"

definition recv_sig_ok :: "recv_sig \<Rightarrow> bool" where
  "recv_sig_ok rg \<longleftrightarrow> stat_ok (rg_signal_strength_data rg) \<and> stat_ok (rg_signal_qual_data rg) \<and>
     rg_signal_strength rg \<le> 100 \<and> rg_signal_qual rg \<le> 100 \<and> rg_PWDB rg \<le> 100 \<and> (\<forall>p. rg_sta_PWDB rg p \<le> 100)"

text \<open>One path: everything the ranges are about but the quality stays; the percentage is one.\<close>

lemma rf_path_step:
  assumes "rf_paths sta mbss l phy i (en # ps) n tot rs rg = Some r"
  shows "\<exists>rssi rs1 rg1. rssi \<le> 100 \<and> rf_paths sta mbss l phy (i + 1) ps (if en then n + 1 else n) (tot + rssi) rs1 rg1 = Some r \<and>
    rs_signal_strength rs1 = rs_signal_strength rs \<and> (rs_signal_qual rs \<le> 100 \<longrightarrow> rs_signal_qual rs1 \<le> 100) \<and>
    recv_sig_ok rg1 = recv_sig_ok rg"
proof -
  obtain gain :: byte and rssis pct snrs where r: "rf_paths sta mbss l phy (i + 1) ps (if en then n + 1 else n)
      (tot + query_rx_pwr_percentage (uint (gain AND 0x3F) * 2 - 110))
      (rs\<lparr>rs_rx_rssi := pct, rs_signal_qual := (if mbss \<and> l \<and> i = 0 then five_bars (query_rx_pwr_percentage (uint (gain AND 0x3F) * 2 - 110))
         else rs_signal_qual rs)\<rparr>) (rg\<lparr>rg_RxRssi := rssis, rg_RxSNRdB := snrs\<rparr>) = Some r"
    using assms unfolding rf_paths.simps Let_def bind_eq_Some_conv by (elim exE conjE) (rule that)
  define rssi where "rssi = query_rx_pwr_percentage (uint (gain AND 0x3F) * 2 - 110)"
  show ?thesis
  proof (intro exI conjI)
    show "rssi \<le> 100" unfolding rssi_def by (rule percentage_le)
    show "rf_paths sta mbss l phy (i + 1) ps (if en then n + 1 else n) (tot + rssi)
      (rs\<lparr>rs_rx_rssi := pct, rs_signal_qual := (if mbss \<and> l \<and> i = 0 then five_bars rssi else rs_signal_qual rs)\<rparr>)
      (rg\<lparr>rg_RxRssi := rssis, rg_RxSNRdB := snrs\<rparr>) = Some r" unfolding rssi_def by (rule r)
  qed (simp_all add: five_bars_le recv_sig_ok_def)
qed

lemma rf_paths_facts:
  "rf_paths sta mbss l phy i ps n tot rs rg = Some (n', tot', rs', rg') \<Longrightarrow>
    tot' \<le> tot + 100 * length ps \<and> (False \<notin> set ps \<longrightarrow> n' = n + length ps) \<and>
    rs_signal_strength rs' = rs_signal_strength rs \<and> (rs_signal_qual rs \<le> 100 \<longrightarrow> rs_signal_qual rs' \<le> 100) \<and>
    recv_sig_ok rg' = recv_sig_ok rg"
proof (induction ps arbitrary: i n tot rs rg)
  case (Cons en ps)
  obtain rssi rs1 rg1 where s: "rssi \<le> 100" "rs_signal_strength rs1 = rs_signal_strength rs"
      "rs_signal_qual rs \<le> 100 \<longrightarrow> rs_signal_qual rs1 \<le> 100" "recv_sig_ok rg1 = recv_sig_ok rg"
    and r: "rf_paths sta mbss l phy (i + 1) ps (if en then n + 1 else n) (tot + rssi) rs1 rg1 = Some (n', tot', rs', rg')"
    using rf_path_step [OF Cons.prems] by blast
  show ?case using Cons.IH [OF r] s by auto
qed simp

lemma evm_streams_facts:
  "evm_streams mbss phy i n rs = Some rs' \<Longrightarrow> rs_signal_strength rs' = rs_signal_strength rs \<and> rs_RxPWDBAll rs' = rs_RxPWDBAll rs \<and>
    (rs_signal_qual rs \<le> 100 \<longrightarrow> rs_signal_qual rs' \<le> 100)"
proof (induction n arbitrary: i rs)
  case (Suc n)
  then obtain x q where "evm_streams mbss phy (i + 1) n
      (rs\<lparr>rs_rx_mimo_signal_qual := q, rs_signal_qual := (if mbss \<and> i = 0 then evm_db2percentage (s8 x) else rs_signal_qual rs)\<rparr>) = Some rs'"
    unfolding evm_streams.simps Let_def bind_eq_Some_conv by (elim exE conjE) (rule that)
  from Suc.IH [OF this] show ?case using evm_le by auto
qed simp

lemma mean_le: "tot \<le> 100 * n \<Longrightarrow> tot div n \<le> (100 :: nat)"
  using div_le_mono [of tot "100 * n" n] by (cases "n = 0") simp_all

lemma scaled_le: "x \<le> 100 \<Longrightarrow> nat (signal_scale_mapping (int x)) \<le> 100"
  using scale_le [of "int x"] by (simp add: nat_le_iff)

lemma query_ok:
  assumes q: "query_rx_phy_status pc sta mbss mcs ht phy rs rg = Some (rs', rg')" and ok: "sig_ok rs" and en: "False \<notin> set (pc_paths pc)"
  shows "sig_ok rs'" "recv_sig_ok rg' = recv_sig_ok rg"
proof -
  have "sig_ok rs' \<and> recv_sig_ok rg' = recv_sig_ok rg"
  proof (cases "mcs \<le> 3")
    case True
    obtain agc sqr where "(let pwr = cck_rx_pwr (pc_cck_highpwr pc) agc; pwdb = cck_pwdb pwr; sq = cck_quality (pc_lenovo pc) pwdb sqr;
             rs1 = rs\<lparr>rs_rx_mimo_signal_qual := [-1, -1], rs_RxPWDBAll := pwdb, rs_RecvSignalPower := pwr\<rparr>;
             rs2 = (if mbss then rs1\<lparr>rs_signal_qual := sq, rs_rx_mimo_signal_qual := [int sq, -1]\<rparr> else rs1)
         in Some (rs2\<lparr>rs_signal_strength := nat (signal_scale_mapping (int pwdb))\<rparr>, rg\<lparr>rg_rxpwdb := pwr\<rparr>)) = Some (rs', rg')"
      using q True by (simp only: query_rx_phy_status_def Let_def if_True bind_eq_Some_conv) blast
    then show ?thesis
      using ok cck_pwdb_le cck_quality_le scaled_le [OF cck_pwdb_le]
      by (cases mbss) (auto simp: Let_def sig_ok_def recv_sig_ok_def)
  next
    case False
    obtain n tot rs1 rg1 pwr rs3 where p: "rf_paths sta mbss (pc_lenovo pc) phy 0 (pc_paths pc) 0 0 (rs\<lparr>rs_rx_mimo_signal_qual := [-1, -1]\<rparr>) rg = Some (n, tot, rs1, rg1)"
      and e: "(if pc_lenovo pc then Some (rs1\<lparr>rs_RxPWDBAll := query_rx_pwr_percentage pwr, rs_RecvSignalPower := pwr\<rparr>)
         else evm_streams mbss phy 0 (if ht \<and> 20 \<le> mcs \<and> mcs \<le> 27 then 2 else 1)
           (rs1\<lparr>rs_RxPWDBAll := query_rx_pwr_percentage pwr, rs_RecvSignalPower := pwr\<rparr>)) = Some rs3"
      and r: "rs' = (if n \<noteq> 0 then rs3\<lparr>rs_signal_strength := nat (signal_scale_mapping (int (tot div n))) mod 256\<rparr> else rs3)"
        "rg' = rg1\<lparr>rg_rxpwdb := pwr\<rparr>"
      using q False by (simp only: query_rx_phy_status_def Let_def if_False bind_eq_Some_conv prod.case split_paired_Ex option.inject prod.inject) metis
    have f: "tot \<le> 100 * length (pc_paths pc)" "n = length (pc_paths pc)" "rs_signal_strength rs1 \<le> 100" "rs_signal_qual rs1 \<le> 100"
        "recv_sig_ok rg1 = recv_sig_ok rg"
      using rf_paths_facts [OF p] ok en by (simp_all add: sig_ok_def)
    have "rs_signal_strength rs3 \<le> 100" "rs_signal_qual rs3 \<le> 100" "rs_RxPWDBAll rs3 \<le> 100"
    proof -
      let ?rs2 = "rs1\<lparr>rs_RxPWDBAll := query_rx_pwr_percentage pwr, rs_RecvSignalPower := pwr\<rparr>"
      have "rs3 = ?rs2 \<or> (\<exists>k. evm_streams mbss phy 0 k ?rs2 = Some rs3)" using e by (cases "pc_lenovo pc") auto
      then show "rs_signal_strength rs3 \<le> 100" "rs_signal_qual rs3 \<le> 100" "rs_RxPWDBAll rs3 \<le> 100"
        using f(3,4) percentage_le by (auto dest!: evm_streams_facts)
    qed
    moreover have "nat (signal_scale_mapping (int (tot div n))) mod 256 \<le> 100"
      using scaled_le [OF mean_le [of tot n]] f(1,2) by (auto intro: order_trans [OF mod_less_eq_dividend])
    ultimately show ?thesis using r f(5) by (simp add: sig_ok_def recv_sig_ok_def)
  qed
  then show "sig_ok rs'" "recv_sig_ok rg' = recv_sig_ok rg" by blast+
qed

lemma stat_add_ok: "v \<le> 100 \<Longrightarrow> stat_ok st \<Longrightarrow> stat_ok (stat_add v st)"
  using mean_le [of "st_total_val st + v" "Suc (st_total_num st)"]
  by (auto simp: stat_ok_def stat_add_def Let_def)

text \<open>The smoothed power moves towards the new value and never beyond it.\<close>

lemma smooth_unat:
  assumes "unat s \<le> 100" and "v \<le> 100"
  shows "unat (smooth_pwdb s v) =
    (if s = 0 then v else if v > unat s then (unat s * 19 + v) div 20 + 1 else (unat s * 19 + v) div 20)"
proof -
  have v: "unat (of_nat v :: u32) = v" using assms(2) by (simp add: unat_of_nat take_bit_eq_mod)
  have sum: "unat (t * 19 + of_nat v :: u32) = unat t * 19 + v" if "unat t \<le> 100" for t :: u32
  proof -
    have "unat (t * 19 :: u32) = unat t * 19" using that by (subst unat_mult_lem [THEN iffD1]) simp_all
    then show ?thesis using that assms(2) v by (subst unat_add_lem [THEN iffD1]) simp_all
  qed
  have q: "unat ((t * 19 + of_nat v) div 20 :: u32) = (unat t * 19 + v) div 20" if "unat t \<le> 100" for t :: u32
    using sum [OF that] by (simp add: unat_div)
  have q1: "unat ((t * 19 + of_nat v) div 20 + 1 :: u32) = (unat t * 19 + v) div 20 + 1" if "unat t \<le> 100" for t :: u32
    using q [OF that] that assms(2) by (subst unat_add_lem [THEN iffD1]) simp_all
  show ?thesis
    using q [OF assms(1)] q1 [OF assms(1)] q [of "of_nat v"] assms v
    by (auto simp: smooth_pwdb_def Let_def Rx_Smooth_Factor_def word_less_nat_alt)
qed

lemma smooth_pwdb_ok: "unat s \<le> 100 \<Longrightarrow> v \<le> 100 \<Longrightarrow> unat (smooth_pwdb s v) \<le> 100"
  using smooth_unat [of s v] by (auto split: if_splits)

lemma le_100_unat: "(s :: u32) \<le> 100 \<longleftrightarrow> unat s \<le> 100"
  by (simp add: word_le_nat_alt)

lemma process_phy_info_ok:
  assumes "recv_sig_ok rg" and "sig_ok rs"
  shows "recv_sig_ok (process_phy_info psta rs rg)"
  using assms stat_add_ok smooth_pwdb_ok
  by (cases psta) (auto simp: process_phy_info_def process_link_qual_def process_PWDB_def process_rssi_def recv_sig_ok_def sig_ok_def Let_def le_100_unat)

lemma blend_le: "blend a b \<le> 100"
  by (simp add: blend_def Let_def)

lemma timer_ok: "recv_sig_ok rg \<Longrightarrow> recv_sig_ok (rtw_signal_stat_timer_hdl ad off rg)"
  using blend_le by (auto simp: rtw_signal_stat_timer_hdl_def Let_def recv_sig_ok_def stat_ok_def)

lemma translate_ok:
  assumes t: "rtl8192d_translate_rx_signal_stuff pc ad bssid err mcs ht d phy rs rg = Some (rs', rg')"
    and ok: "sig_ok rs" "recv_sig_ok rg" and en: "False \<notin> set (pc_paths pc)"
  shows "sig_ok rs' \<and> recv_sig_ok rg'"
proof (cases phy)
  case None
  then show ?thesis using t ok by (simp add: rtl8192d_translate_rx_signal_stuff_def)
next
  case (Some ph)
  obtain fc0 mbss self rs1 rg1 where q: "query_rx_phy_status pc (check_fwstate ad WIFI_STATION_STATE) mbss mcs ht ph rs rg = Some (rs1, rg1)"
    and r: "(if mbss \<and> check_fwstate ad WIFI_AP_STATE then do {
             sa \<leftarrow> get_sa d;
             Some (rs1, case rtw_get_stainfo (stapriv ad) sa of None \<Rightarrow> rg1
                        | Some p \<Rightarrow> process_phy_info (Some p) rs1 (rg1\<lparr>rg_sta_rssi := (rg_sta_rssi rg1)(p := rs_RecvSignalPower rs1)\<rparr>)) }
           else if self \<or> (mbss \<and> GetFrameSubType fc0 = WIFI_BEACON) then do {
             psta \<leftarrow> (if check_fwstate ad (WIFI_ADHOC_STATE OR WIFI_ADHOC_MASTER_STATE)
                      then map_option (rtw_get_stainfo (stapriv ad)) (get_sa d) else Some None);
             Some (rs1, process_phy_info psta rs1 rg1) }
           else Some (rs1, rg1)) = Some (rs', rg')"
    using t unfolding rtl8192d_translate_rx_signal_stuff_def Some option.case bind_eq_Some_conv split_paired_Ex prod.case
    by (elim exE conjE) (rule that)
  have ok1: "sig_ok rs1" "recv_sig_ok rg1" using query_ok [OF q ok(1) en] ok(2) by simp_all
  then have ok2: "recv_sig_ok (rg1\<lparr>rg_sta_rssi := x\<rparr>)" for x by (simp add: recv_sig_ok_def)
  note pi = process_phy_info_ok [OF _ ok1(1)]
  show ?thesis
  proof (cases "mbss \<and> check_fwstate ad WIFI_AP_STATE")
    case True
    then show ?thesis using r ok1 pi [OF ok2] by (auto simp: bind_eq_Some_conv split: option.splits)
  next
    case False
    then show ?thesis using r ok1 pi [OF ok1(2)] by (auto simp: bind_eq_Some_conv split: if_splits)
  qed
qed

text \<open>
  The arrays have two entries, one for each radio path.  A status of 17 bytes holds every field that is read.
\<close>

definition sig_arrays :: "rx_signal \<Rightarrow> recv_sig \<Rightarrow> bool" where
  "sig_arrays rs rg \<longleftrightarrow> length (rs_rx_rssi rs) = 2 \<and> length (rg_RxRssi rg) = 2 \<and> length (rg_RxSNRdB rg) = 2"

lemma rf_paths_total:
  "sig_arrays rs rg \<Longrightarrow> i + length ps \<le> 2 \<Longrightarrow> 17 \<le> length phy \<Longrightarrow>
   \<exists>n' tot' rs' rg'. rf_paths sta mbss l phy i ps n tot rs rg = Some (n', tot', rs', rg') \<and> sig_arrays rs' rg' \<and>
     length (rs_rx_mimo_signal_qual rs') = length (rs_rx_mimo_signal_qual rs)"
proof (induction ps arbitrary: i n tot rs rg)
  case (Cons en ps)
  have len: "i < length phy" "15 + i < length phy" "i < 2" "i + 1 + length ps \<le> 2" using Cons.prems by simp_all
  let ?pwr = "uint (phy ! i AND 0x3F) * 2 - 110"
  define rg1 where "rg1 = rg\<lparr>rg_RxRssi := (if sta \<and> \<not> mbss then rg_RxRssi rg else (rg_RxRssi rg)[i := ?pwr]),
    rg_RxSNRdB := (rg_RxSNRdB rg)[i := s8 (phy ! (15 + i)) div 2]\<rparr>"
  define rs1 where "rs1 = rs\<lparr>rs_rx_rssi := (rs_rx_rssi rs)[i := query_rx_pwr_percentage ?pwr],
    rs_signal_qual := (if mbss \<and> l \<and> i = 0 then five_bars (query_rx_pwr_percentage ?pwr) else rs_signal_qual rs)\<rparr>"
  have ok: "sig_arrays rs1 rg1" using Cons.prems(1) by (simp add: sig_arrays_def rs1_def rg1_def)
  have "rf_paths sta mbss l phy i (en # ps) n tot rs rg =
      rf_paths sta mbss l phy (i + 1) ps (if en then n + 1 else n) (tot + query_rx_pwr_percentage ?pwr) rs1 rg1"
    using len Cons.prems(1) by (simp add: rd_in upd_def Let_def sig_arrays_def rs1_def rg1_def)
  then show ?case using Cons.IH [OF ok len(4) Cons.prems(3)] by (simp add: rs1_def)
qed simp

lemma evm_streams_total:
  "length (rs_rx_mimo_signal_qual rs) = 2 \<Longrightarrow> i + n \<le> 2 \<Longrightarrow> 17 \<le> length phy \<Longrightarrow>
   \<exists>rs'. evm_streams mbss phy i n rs = Some rs' \<and> rs_rx_rssi rs' = rs_rx_rssi rs"
proof (induction n arbitrary: i rs)
  case (Suc n)
  have len: "13 + i < length phy" "i < 2" "i + 1 + n \<le> 2" using Suc.prems by simp_all
  let ?e = "evm_db2percentage (s8 (phy ! (13 + i)))"
  define rs1 where "rs1 = rs\<lparr>rs_rx_mimo_signal_qual := (if mbss then (rs_rx_mimo_signal_qual rs)[i := s8 (word_of_int (int ?e))]
    else rs_rx_mimo_signal_qual rs), rs_signal_qual := (if mbss \<and> i = 0 then ?e else rs_signal_qual rs)\<rparr>"
  have l: "length (rs_rx_mimo_signal_qual rs1) = 2" using Suc.prems(1) by (simp add: rs1_def)
  have "evm_streams mbss phy i (Suc n) rs = evm_streams mbss phy (i + 1) n rs1"
    using len Suc.prems(1) by (simp add: rd_in upd_def Let_def rs1_def)
  then show ?case using Suc.IH [OF l len(3) Suc.prems(3)] by (simp add: rs1_def)
qed simp

lemma query_total:
  assumes "sig_arrays rs rg" and "length (pc_paths pc) \<le> 2" and "17 \<le> length phy"
  shows "\<exists>rs' rg'. query_rx_phy_status pc sta mbss mcs ht phy rs rg = Some (rs', rg')"
proof (cases "mcs \<le> 3")
  case True
  then show ?thesis using assms(3) by (simp add: query_rx_phy_status_def Let_def rd_in)
next
  case False
  have a: "sig_arrays (rs\<lparr>rs_rx_mimo_signal_qual := [-1, -1]\<rparr>) rg" using assms(1) by (simp add: sig_arrays_def)
  obtain n tot rs1 rg1 where p: "rf_paths sta mbss (pc_lenovo pc) phy 0 (pc_paths pc) 0 0 (rs\<lparr>rs_rx_mimo_signal_qual := [-1, -1]\<rparr>) rg = Some (n, tot, rs1, rg1)"
      "length (rs_rx_mimo_signal_qual rs1) = 2"
    using rf_paths_total [OF a, of 0 "pc_paths pc" phy sta mbss "pc_lenovo pc" 0 0] assms(2,3) by auto
  define pwr where "pwr = uint (drop_bit 1 (phy ! 4) AND 0x7f) - 106"
  let ?rs2 = "rs1\<lparr>rs_RxPWDBAll := query_rx_pwr_percentage pwr, rs_RecvSignalPower := pwr\<rparr>"
  have "(if ht \<and> 20 \<le> mcs \<and> mcs \<le> 27 then 2 else 1) \<le> (2 :: nat)" by simp
  then obtain rs3 where ev: "evm_streams mbss phy 0 (if ht \<and> 20 \<le> mcs \<and> mcs \<le> 27 then 2 else 1) ?rs2 = Some rs3"
    using evm_streams_total [of ?rs2 0 "if ht \<and> 20 \<le> mcs \<and> mcs \<le> 27 then 2 else 1" phy mbss] p(2) assms(3)
    by (auto simp del: evm_streams.simps)
  have rd4: "rd phy 4 = Some (phy ! 4)" using assms(3) by (intro rd_in) simp
  show ?thesis
    unfolding query_rx_phy_status_def Let_def if_not_P [OF False] p(1) bind.bind_lunit prod.case rd4 pwr_def [symmetric] ev
    by (cases "pc_lenovo pc") (simp_all del: evm_streams.simps split del: if_split)
qed

lemma header_total:
  assumes "30 \<le> length d"
  shows "\<exists>x. get_hdr_bssid d = Some x" "\<exists>x. get_da d = Some x" "\<exists>x. get_sa d = Some x"
  using assms
  by (auto simp: get_hdr_bssid_def get_da_def get_sa_def get_tofr_ds_def GetToDs_def GetFrDs_def fc_bit_def get_le16_def
      GetAddr1Ptr_def GetAddr2Ptr_def GetAddr3Ptr_def GetAddr4Ptr_def rd_slice_in)

lemma translate_total:
  assumes "sig_arrays rs rg" and "length (pc_paths pc) \<le> 2" and "17 \<le> length ph" and "30 \<le> length d"
  shows "\<exists>rs' rg'. rtl8192d_translate_rx_signal_stuff pc ad bssid err mcs ht d (Some ph) rs rg = Some (rs', rg')"
proof -
  obtain b da sa where h: "get_hdr_bssid d = Some b" "get_da d = Some da" "get_sa d = Some sa" using header_total [OF assms(4)] by blast
  have fc: "rd d 0 = Some (d ! 0)" using assms(4) by (intro rd_in) linarith
  obtain rs1 rg1 where "query_rx_phy_status pc (check_fwstate ad WIFI_STATION_STATE)
      (\<not> (GetFrameType (d ! 0) = WIFI_CTRL_TYPE \<or> err) \<and> b = bssid) mcs ht ph rs rg = Some (rs1, rg1)"
    using query_total [OF assms(1-3)] by blast
  then show ?thesis
    using h fc by (auto simp: rtl8192d_translate_rx_signal_stuff_def)
qed

section \<open>What the user sees\<close>

text \<open>
  C39: signal percentages: with every counted radio path enabled, the status of a frame (17 bytes before a frame of at least
  30) is read inside its bytes and leaves strength, quality and power of the frame, the averages, the smoothed power of
  every station and the values shown to the user between 0 and 100, also when the statistics timer fires.
\<close>

theorem signal_stays_in_range:
  assumes "sig_ok rs" and "recv_sig_ok rg" and "sig_arrays rs rg" and "False \<notin> set (pc_paths pc)" and "length (pc_paths pc) \<le> 2"
    and "17 \<le> length ph" and "30 \<le> length d"
  shows "\<exists>rs' rg'. rtl8192d_translate_rx_signal_stuff pc ad bssid err mcs ht d (Some ph) rs rg = Some (rs', rg') \<and>
    sig_ok rs' \<and> recv_sig_ok rg' \<and> recv_sig_ok (rtw_signal_stat_timer_hdl ad' off rg')"
proof -
  obtain rs' rg' where t: "rtl8192d_translate_rx_signal_stuff pc ad bssid err mcs ht d (Some ph) rs rg = Some (rs', rg')"
    using translate_total [OF assms(3,5-7)] by blast
  then show ?thesis using translate_ok [OF t assms(1,2,4)] timer_ok by blast
qed

definition sample_stat :: signal_stat where
  "sample_stat = \<lparr>st_update_req = True, st_avg_val = 0, st_total_num = 0, st_total_val = 0\<rparr>"

definition sample_recv_sig :: recv_sig where
  "sample_recv_sig = \<lparr>rg_rxpwdb = 0, rg_RxRssi = [0, 0], rg_RxSNRdB = [0, 0], rg_signal_strength_data = sample_stat,
     rg_signal_qual_data = sample_stat, rg_signal_strength = 0, rg_signal_qual = 0, rg_rssi = 0, rg_PWDB = 0,
     rg_sta_PWDB = (\<lambda>_. 0), rg_sta_rssi = (\<lambda>_. 0)\<rparr>"

definition sample_signal :: rx_signal where
  "sample_signal = \<lparr>rs_RxPWDBAll = 0, rs_RecvSignalPower = 0, rs_signal_qual = 0, rs_rx_mimo_signal_qual = [0, 0],
     rs_signal_strength = 0, rs_rx_rssi = [0, 0]\<rparr>"

theorem signal_stays_in_range_witness:
  "\<exists>rs' rg'. rtl8192d_translate_rx_signal_stuff \<lparr>pc_cck_highpwr = False, pc_lenovo = False, pc_paths = [True, True]\<rparr>
      zero_adapter [1, 2, 3, 4, 5, 6] False 20 True (replicate 40 8) (Some (replicate 28 50)) sample_signal sample_recv_sig = Some (rs', rg') \<and>
    sig_ok rs' \<and> recv_sig_ok rg' \<and> recv_sig_ok (rtw_signal_stat_timer_hdl zero_adapter False rg')"
  by (rule signal_stays_in_range)
    (simp_all add: sig_ok_def recv_sig_ok_def sig_arrays_def stat_ok_def sample_signal_def sample_recv_sig_def sample_stat_def)

text \<open>Following the signal: a value that stays below or above its target comes closer by at least one each time.\<close>

lemma blend_div:
  obtains q r where "v + 2 * s = 3 * q + r" and "r < 3" and "blend v s = min 100 (if r = 0 then q else q + 1)"
proof -
  have "v + 2 * s = 3 * ((v + 2 * s) div 3) + (v + 2 * s) mod 3" by simp
  moreover have "(v + 2 * s) mod 3 < 3" by simp
  moreover have "blend v s = min 100 (if (v + 2 * s) mod 3 = 0 then (v + 2 * s) div 3 else (v + 2 * s) div 3 + 1)"
    by (simp add: blend_def Let_def min_def)
  ultimately show thesis by (rule that)
qed

lemma blend_up: "s \<le> v \<Longrightarrow> v \<le> 100 \<Longrightarrow> min v (s + 1) \<le> blend v s \<and> blend v s \<le> v"
  by (rule blend_div [of v s]) (auto simp: min_def)

lemma blend_down: "v \<le> s \<Longrightarrow> s \<le> 100 \<Longrightarrow> v \<le> blend v s \<and> blend v s \<le> max (v + 2) (s - 1) \<and> blend v s \<le> s"
  by (rule blend_div [of v s]) (auto simp: min_def max_def)

lemma blend_iterate:
  assumes "v \<le> 100" and "s \<le> 100"
  shows "(blend v ^^ n) s \<le> 100 \<and> v \<le> (blend v ^^ n) s + (100 - n) \<and> (blend v ^^ n) s \<le> v + 2 + (100 - n)"
proof (induction n)
  case 0
  then show ?case using assms by simp
next
  case (Suc n)
  let ?s = "(blend v ^^ n) s"
  have "blend v ?s \<le> 100" by (rule blend_le)
  moreover have "v \<le> blend v ?s + (100 - Suc n) \<and> blend v ?s \<le> v + 2 + (100 - Suc n)"
  proof (cases "?s \<le> v")
    case True
    then show ?thesis using blend_up [of ?s v] assms(1) Suc by (auto simp: min_def split: if_splits)
  next
    case False
    then show ?thesis using blend_down [of v ?s] Suc by (auto simp: max_def split: if_splits)
  qed
  ultimately show ?case by simp
qed

lemma smooth_step:
  assumes "unat s \<le> 100" and "v \<le> 100"
  shows "s = 0 \<Longrightarrow> unat (smooth_pwdb s v) = v"
    "s \<noteq> 0 \<Longrightarrow> unat s \<le> v \<Longrightarrow> min v (unat s + 1) \<le> unat (smooth_pwdb s v) \<and> unat (smooth_pwdb s v) \<le> v"
    "v < unat s \<Longrightarrow> v \<le> unat (smooth_pwdb s v) \<and> unat (smooth_pwdb s v) + 1 \<le> unat s"
  using smooth_unat [OF assms] by (auto simp: min_def)

lemma smooth_iterate:
  assumes "v \<le> 100" and "unat s \<le> 100"
  shows "unat (((\<lambda>s. smooth_pwdb s v) ^^ n) s) \<le> 100 \<and> v \<le> unat (((\<lambda>s. smooth_pwdb s v) ^^ n) s) + (100 - n) \<and>
    unat (((\<lambda>s. smooth_pwdb s v) ^^ n) s) \<le> v + (100 - n)"
proof (induction n)
  case 0
  then show ?case using assms by simp
next
  case (Suc n)
  let ?s = "((\<lambda>s. smooth_pwdb s v) ^^ n) s"
  have ok: "unat ?s \<le> 100" using Suc by simp
  consider "?s = 0" | "?s \<noteq> 0" "unat ?s \<le> v" | "v < unat ?s" by linarith
  then show ?case
    using smooth_step [OF ok assms(1)] smooth_pwdb_ok [OF ok assms(1)] Suc by cases (auto simp: min_def split: if_splits)
qed

text \<open>One sampling interval with a frame of the signal \<open>rs\<close>.\<close>

definition sample :: "adapter \<Rightarrow> bool \<Rightarrow> rx_signal \<Rightarrow> recv_sig \<Rightarrow> recv_sig" where
  "sample ad off rs rg = rtw_signal_stat_timer_hdl ad off (process_rssi rs rg)"

lemma sample_iterate:
  assumes "check_fwstate ad FW_LINKED" and "\<not> check_fwstate ad WIFI_SITE_MONITOR" and "st_update_req (rg_signal_strength_data rg)"
  shows "st_update_req (rg_signal_strength_data ((sample ad off rs ^^ n) rg)) \<and>
    rg_signal_strength ((sample ad off rs ^^ n) rg) = (blend (rs_signal_strength rs) ^^ n) (rg_signal_strength rg)"
proof (induction n)
  case (Suc n)
  then show ?case
    using assms(1,2) by (simp add: sample_def rtw_signal_stat_timer_hdl_def process_rssi_def stat_add_def Let_def)
qed (simp add: assms)

text \<open>
  C40: the values shown follow the signal: after 100 sampling intervals in which frames of strength \<open>v\<close> arrived, a linked
  interface shows at least \<open>v\<close> and at most \<open>v + 2\<close> (the rounding up keeps it there), and after 100 frames the smoothed
  power of a station is that of the frames.
\<close>

theorem shown_signal_follows:
  assumes "check_fwstate ad FW_LINKED" and "\<not> check_fwstate ad WIFI_SITE_MONITOR" and "recv_sig_ok rg" and "sig_ok rs"
    and "st_update_req (rg_signal_strength_data rg)"
  shows "rs_signal_strength rs \<le> rg_signal_strength ((sample ad off rs ^^ 100) rg) \<and>
    rg_signal_strength ((sample ad off rs ^^ 100) rg) \<le> rs_signal_strength rs + 2 \<and>
    rg_sta_PWDB ((process_PWDB (Some p) rs ^^ 100) rg) p = of_nat (rs_RxPWDBAll rs)"
proof -
  let ?v = "rs_signal_strength rs" and ?w = "rs_RxPWDBAll rs"
  have v: "?v \<le> 100" "rg_signal_strength rg \<le> 100" "?w \<le> 100" "unat (rg_sta_PWDB rg p) \<le> 100"
    using assms(3,4) by (simp_all add: recv_sig_ok_def sig_ok_def le_100_unat)
  have pw: "rg_sta_PWDB ((process_PWDB (Some p) rs ^^ n) rg) p = ((\<lambda>s. smooth_pwdb s ?w) ^^ n) (rg_sta_PWDB rg p)" for n
    by (induction n) (simp_all add: process_PWDB_def Let_def)
  have "unat (((\<lambda>s. smooth_pwdb s ?w) ^^ 100) (rg_sta_PWDB rg p)) = ?w" using smooth_iterate [OF v(3,4), of 100] by simp
  from arg_cong [OF this, where f = "of_nat :: nat \<Rightarrow> u32"] have "((\<lambda>s. smooth_pwdb s ?w) ^^ 100) (rg_sta_PWDB rg p) = of_nat ?w" by simp
  then show ?thesis
    using blend_iterate [OF v(1,2), of 100] sample_iterate [OF assms(1,2,5), where n = 100 and off = off and rs = rs] pw by simp
qed

theorem shown_signal_follows_witness:
  "rg_signal_strength ((sample (zero_adapter\<lparr>fw_state := FW_LINKED\<rparr>) False (sample_signal\<lparr>rs_signal_strength := 70\<rparr>) ^^ 100) sample_recv_sig) \<ge> 70"
  using shown_signal_follows [of "zero_adapter\<lparr>fw_state := FW_LINKED\<rparr>" sample_recv_sig "sample_signal\<lparr>rs_signal_strength := 70\<rparr>" False]
  by (simp add: check_fwstate_def FW_LINKED_def WIFI_SITE_MONITOR_def sig_ok_def recv_sig_ok_def stat_ok_def sample_signal_def
      sample_recv_sig_def sample_stat_def)

end
