(* ===== verification/RxUsb.thy ===== *)
theory RxUsb
  imports RecvEntry RxSignal
begin

text \<open>
  From USB transfers to received frames (\<open>hal/usb_ops_linux.c\<close>, \<open>hal/rtl8192d_rxdesc.c\<close>): the receive
  descriptor, the loop that takes a transfer apart, and the buffers between the USB
  and the tasklet.  The build has receive aggregation and preallocated buffers.
\<close>

section \<open>The receive descriptor\<close>

definition RXDESC_SIZE :: nat where "RXDESC_SIZE = 24"

definition rd_le32 :: "byte list \<Rightarrow> nat \<Rightarrow> u32 option" where
  "rd_le32 m i = map_option (\<lambda>s. get_be32 (s ! 3) (s ! 2) (s ! 1) (s ! 0)) (rd_slice m i 4)"

text \<open>The part of the attributes only the loop and the signal statistics use.\<close>

record rx_stat =
  rd_physt :: bool
  rd_pkt_len :: nat
  rd_drvinfo_sz :: nat
  rd_shift_sz :: nat
  rd_crc_err :: bool
  rd_icv_err :: bool
  rd_mcs_rate :: nat
  rd_rxht :: bool

text \<open>
  The code of the cipher: 6 and 7 are no ciphers; \<open>validate_recv_data_frame\<close> sets the field anew for every
  data frame.
\<close>

definition enc_of :: "u32 \<Rightarrow> enc_alg" where
  "enc_of w = (if w = 1 then WEP40 else if w = 2 then TKIP else if w = 3 then TKIP_WTMIC else if w = 4 then AES
     else if w = 5 then WEP104 else NO_PRIVACY)"

definition rtl8192d_query_rx_desc_status :: "rx_pkt_attrib \<Rightarrow> u32 \<Rightarrow> u32 \<Rightarrow> u32 \<Rightarrow> u32 \<Rightarrow> rx_pkt_attrib \<times> rx_stat" where
  "rtl8192d_query_rx_desc_status a rxdw0 rxdw1 rxdw2 rxdw3 =
     (a\<lparr>rx_qos := unat (drop_bit 23 rxdw0 AND 0x1), rx_bdecrypted := \<not> bit rxdw0 27,
        rx_encrypt := enc_of (drop_bit 20 rxdw0 AND 0x7), rx_mfrag := unat (drop_bit 27 rxdw1 AND 0x1),
        rx_frag_num := unat (drop_bit 12 rxdw2 AND 0xf)\<rparr>,
      \<lparr>rd_physt = bit rxdw0 26, rd_pkt_len = unat (rxdw0 AND 0x3fff), rd_drvinfo_sz = unat (drop_bit 16 rxdw0 AND 0xf) * 8,
       rd_shift_sz = unat (drop_bit 24 rxdw0 AND 0x3), rd_crc_err = bit rxdw0 14, rd_icv_err = bit rxdw0 15,
       rd_mcs_rate = unat (rxdw3 AND 0x3f), rd_rxht = bit rxdw3 6\<rparr>)"

section \<open>A transfer\<close>

datatype rx_agg_mode = RxAggDisable | RxAggDma | RxAggUsb | RxAggDmaUsb

definition RND128 :: "nat \<Rightarrow> nat" where "RND128 sz = (sz + 127) div 128 * 128"

text \<open>
  The state: \<open>ru_sig\<close> the signal statistics, \<open>ru_attr\<close> the signal attributes of each frame of the pool, left
  from its last use; the settings of the radio, the aggregation mode, the address of the current network;
  \<open>ru_align\<close> is the address modulo 8 of the data of the n-th buffer the kernel gives.
\<close>

record rx_usb =
  ru_ad :: adapter
  ru_sig :: recv_sig
  ru_attr :: "nat \<Rightarrow> rx_signal"
  ru_pc :: phy_ctl
  ru_mode :: rx_agg_mode
  ru_bssid :: mac
  ru_align :: "nat \<Rightarrow> nat"

text \<open>The size of the buffer a frame is copied to.\<close>

definition rx_alloc_sz :: "rx_pkt_attrib \<Rightarrow> nat \<Rightarrow> nat" where
  "rx_alloc_sz a skb_len =
     (if rx_mfrag a = 1 \<and> rx_frag_num a = 0 then if skb_len \<le> 1650 then 1664 else skb_len + 14 else skb_len + 14)"

text \<open>
  The copy of a frame's bytes into a new buffer whose data starts at \<open>align\<close> modulo 8; what lies before the copy is not
  initialised (written here as zeros).  A copy beyond the buffer would be an overrun.
\<close>

definition rx_copy :: "recv_frame \<Rightarrow> rx_pkt_attrib \<Rightarrow> nat \<Rightarrow> byte list \<Rightarrow> recv_frame option" where
  "rx_copy f a align d =
     (let alloc_sz = rx_alloc_sz a (length d); front = (8 - align mod 8) + (if rx_qos a \<noteq> 0 then 6 else 0)
      in if alloc_sz < front + length d then None
         else Some (f\<lparr>rf_attrib := a, rf_head := replicate front 0, rf_data := d, rf_tailroom := alloc_sz - front - length d\<rparr>))"

definition next_offset :: "rx_agg_mode \<Rightarrow> nat \<Rightarrow> nat" where
  "next_offset mode off =
     (case mode of RxAggDma \<Rightarrow> RND128 off mod 65536 | RxAggDmaUsb \<Rightarrow> RND128 off mod 65536
      | RxAggUsb \<Rightarrow> RND4 off mod 65536 | RxAggDisable \<Rightarrow> off)"

text \<open>
  One frame at \<open>pos\<close> of a buffer \<open>m\<close> with \<open>tlen\<close> bytes left of the transfer.  The result is the offset of the next
  one, or \<open>None\<close> when the loop is left; the parameters before \<open>ru\<close> are those of \<open>recv_func\<close>.  A physical status
  (\<open>struct phy_stat\<close>) has 32 bytes.
\<close>

definition recv_one ::
  "(nat \<Rightarrow> mgt_handler) \<Rightarrow> mgt_handler \<Rightarrow> u16 \<Rightarrow> rx_usb \<Rightarrow> byte list \<Rightarrow> nat \<Rightarrow> nat \<Rightarrow> (nat option \<times> rx_usb) option" where
  "recv_one handlers on_auth stale ru m pos tlen =
     (case rtw_alloc_recvframe (ru_ad ru) FreeRecvQueue of
        (None, ad) \<Rightarrow> Some (None, ru\<lparr>ru_ad := ad\<rparr>)
      | (Some f, ad) \<Rightarrow> do {
          w0 \<leftarrow> rd_le32 m pos; w1 \<leftarrow> rd_le32 m (pos + 4); w2 \<leftarrow> rd_le32 m (pos + 8); w3 \<leftarrow> rd_le32 m (pos + 12);
          (a, st) \<leftarrow> Some (rtl8192d_query_rx_desc_status (rf_attrib f) w0 w1 w2 w3);
          (let off = RXDESC_SIZE + rd_drvinfo_sz st + rd_shift_sz st + rd_pkt_len st in
           if rd_pkt_len st = 0 \<or> off > tlen
           then Some (None, ru\<lparr>ru_ad := rtw_free_recvframe ad (f\<lparr>rf_attrib := a\<rparr>)\<rparr>)
           else case skb_get ad of
             (False, ad1) \<Rightarrow> let (_, ad2) = skb_get ad1 in
               Some (None, ru\<lparr>ru_ad := rtw_free_recvframe ad2 (f\<lparr>rf_attrib := a\<rparr>)\<rparr>)
           | (True, ad1) \<Rightarrow> do {
               d \<leftarrow> rd_slice m (pos + rd_shift_sz st + rd_drvinfo_sz st + RXDESC_SIZE) (rd_pkt_len st);
               f1 \<leftarrow> rx_copy f a (ru_align ru (skb_cnt ad)) d;
               (rs, rg) \<leftarrow> rtl8192d_translate_rx_signal_stuff (ru_pc ru) ad1 (ru_bssid ru) (rd_crc_err st \<or> rd_icv_err st)
                            (rd_mcs_rate st) (rd_rxht st) d (if rd_physt st then Some (take 32 (drop (pos + RXDESC_SIZE) m)) else None)
                            (ru_attr ru (rf_id f)) (ru_sig ru);
               (_, ad2) \<leftarrow> recv_func handlers on_auth stale ad1 f1;
               Some (Some (next_offset (ru_mode ru) off),
                     ru\<lparr>ru_ad := ad2, ru_sig := rg, ru_attr := (ru_attr ru)(rf_id f := rs)\<rparr>) }) })"

text \<open>
  The loop of \<open>recvbuf2recvframe\<close>: \<open>tlen\<close> is positive; a transfer whose rest is not positive ends.  \<open>cnt\<close> is the
  16-bit counter of the frames left; at zero it is read again from the descriptor just handled.
\<close>

partial_function (option) recvbuf_loop ::
  "(nat \<Rightarrow> mgt_handler) \<Rightarrow> mgt_handler \<Rightarrow> u16 \<Rightarrow> rx_usb \<Rightarrow> byte list \<Rightarrow> nat \<Rightarrow> nat \<Rightarrow> u16 \<Rightarrow> rx_usb option" where
  "recvbuf_loop handlers on_auth stale ru m pos tlen cnt = do {
     (next, ru1) \<leftarrow> recv_one handlers on_auth stale ru m pos tlen;
     (case next of None \<Rightarrow> Some ru1
      | Some off \<Rightarrow>
          if tlen \<le> off then Some ru1
          else do {
            w2 \<leftarrow> rd_le32 m (pos + 8);
            (let cnt1 = cnt - 1; cnt2 = (if cnt1 = 0 then ucast (drop_bit 16 w2 AND 0xff) else cnt1)
             in if cnt2 > 0 then recvbuf_loop handlers on_auth stale ru1 m (pos + off) (tlen - off) cnt2 else Some ru1) }) }"

definition recvbuf2recvframe ::
  "(nat \<Rightarrow> mgt_handler) \<Rightarrow> mgt_handler \<Rightarrow> u16 \<Rightarrow> rx_usb \<Rightarrow> byte list \<Rightarrow> nat \<Rightarrow> rx_usb option" where
  "recvbuf2recvframe handlers on_auth stale ru m transfer_len = do {
     w2 \<leftarrow> rd_le32 m 8;
     recvbuf_loop handlers on_auth stale ru m 0 transfer_len (ucast (drop_bit 16 w2 AND 0xff)) }"

section \<open>The buffers of the bulk-in pipe\<close>

definition MAX_RECVBUF_SZ :: nat where "MAX_RECVBUF_SZ = 15360"
definition NR_RECVBUFF :: nat where "NR_RECVBUFF = 4"
definition NR_PREALLOC_RECV_SKB :: nat where "NR_PREALLOC_RECV_SKB = 8"

text \<open>
  Receive buffers (\<open>recv_buf\<close>) are numbers below \<open>NR_RECVBUFF\<close>, packet buffers (\<open>sk_buff\<close>) are numbers; \<open>rr_pskb\<close> and \<open>rr_reuse\<close> are the
  fields of a \<open>recv_buf\<close>, \<open>rr_stopped\<close> and \<open>rr_removed\<close> are the adapter's flags, \<open>rr_rx_skb\<close> is \<open>rx_skb_queue\<close> (with the length of the data), \<open>rr_pending\<close> is
  \<open>recv_buf_pending_queue\<close>.  \<open>rr_inflight\<close> are the buffers the USB core has; \<open>rr_alloc\<close> is the kernel's answer to the
  n-th allocation (a new buffer or nothing), \<open>rr_submit\<close> that to the n-th submission (0 or an error).
\<close>

record rx_ring =
  rr_pskb :: "nat \<Rightarrow> nat option"
  rr_reuse :: "nat \<Rightarrow> bool"
  rr_free_skb :: "nat list"
  rr_rx_skb :: "(nat \<times> nat) list"
  rr_pending :: "nat list"
  rr_inflight :: "nat list"
  rr_rx_pending_cnt :: int
  rr_stopped :: bool
  rr_removed :: bool
  rr_cancel :: bool
  rr_pnp_bstop_trx :: bool
  rr_alloc :: "nat \<Rightarrow> nat option"
  rr_alloc_cnt :: nat
  rr_submit :: "nat \<Rightarrow> int"
  rr_submit_cnt :: nat

text \<open>\<open>usb_read_port\<close>: the first part takes a preallocated buffer, the second allocates one if there is none.\<close>

definition take_skb :: "rx_ring \<Rightarrow> nat \<Rightarrow> rx_ring" where
  "take_skb rr b =
     (if \<not> rr_reuse rr b \<or> rr_pskb rr b = None then
        (case rr_free_skb rr of
           [] \<Rightarrow> rr\<lparr>rr_pskb := (rr_pskb rr)(b := None)\<rparr>
         | s # ss \<Rightarrow> rr\<lparr>rr_pskb := (rr_pskb rr)(b := Some s), rr_free_skb := ss, rr_reuse := (rr_reuse rr)(b := True)\<rparr>)
      else rr)"

definition EPERM :: int where "EPERM = 1"

definition submit_rx :: "rx_ring \<Rightarrow> nat \<Rightarrow> nat \<times> rx_ring" where
  "submit_rx rr b =
     (let rr1 = rr\<lparr>rr_rx_pending_cnt := rr_rx_pending_cnt rr + 1, rr_submit_cnt := rr_submit_cnt rr + 1\<rparr>;
          err = rr_submit rr (rr_submit_cnt rr)
      in (if err \<noteq> 0 \<and> err \<noteq> - EPERM then FAIL else SUCCESS, if err = 0 then rr1\<lparr>rr_inflight := rr_inflight rr @ [b]\<rparr> else rr1))"

definition usb_read_port :: "rx_ring \<Rightarrow> nat \<Rightarrow> nat \<times> rx_ring" where
  "usb_read_port rr b =
     (if rr_stopped rr \<or> rr_removed rr \<or> rr_pnp_bstop_trx rr then (FAIL, rr)
      else let rr1 = take_skb rr b in
        if \<not> rr_reuse rr1 b \<or> rr_pskb rr1 b = None then
          let rr2 = rr1\<lparr>rr_alloc_cnt := rr_alloc_cnt rr1 + 1\<rparr> in
          (case rr_alloc rr1 (rr_alloc_cnt rr1) of
             None \<Rightarrow> (FAIL, rr2\<lparr>rr_pskb := (rr_pskb rr1)(b := None), rr_pending := removeAll b (rr_pending rr1) @ [b]\<rparr>)
           | Some s \<Rightarrow> submit_rx (rr2\<lparr>rr_pskb := (rr_pskb rr1)(b := Some s)\<rparr>) b)
        else submit_rx (rr1\<lparr>rr_reuse := (rr_reuse rr1)(b := False)\<rparr>) b)"

text \<open>The end of a request; the status \<open>RxGone\<close> stands for the codes that stop the driver, \<open>RxRetry\<close> for those that are tried again.\<close>

datatype rx_status = RxOk nat | RxGone | RxRetry | RxIgnored

definition usb_read_port_complete :: "rx_ring \<Rightarrow> nat \<Rightarrow> rx_status \<Rightarrow> rx_ring" where
  "usb_read_port_complete rr b st =
     (let rr1 = rr\<lparr>rr_inflight := removeAll b (rr_inflight rr), rr_rx_pending_cnt := rr_rx_pending_cnt rr - 1\<rparr>;
          again = snd (usb_read_port (rr1\<lparr>rr_reuse := (rr_reuse rr1)(b := True)\<rparr>) b)
      in if rr_removed rr \<or> rr_stopped rr \<or> rr_cancel rr then rr1\<lparr>rr_reuse := (rr_reuse rr1)(b := True)\<rparr>
         else case st of
           RxOk len \<Rightarrow>
             if len > MAX_RECVBUF_SZ \<or> len < RXDESC_SIZE then again
             else snd (usb_read_port (rr1\<lparr>rr_rx_skb := rr_rx_skb rr1 @ [(the (rr_pskb rr1 b), len)],
                         rr_pskb := (rr_pskb rr1)(b := None), rr_reuse := (rr_reuse rr1)(b := False)\<rparr>) b)
         | RxGone \<Rightarrow> rr1\<lparr>rr_stopped := True\<rparr>
         | RxRetry \<Rightarrow> again
         | RxIgnored \<Rightarrow> rr1)"

definition usb_read_port_cancel :: "rx_ring \<Rightarrow> rx_ring" where
  "usb_read_port_cancel rr = rr\<lparr>rr_cancel := True, rr_reuse := (\<lambda>b. if b < NR_RECVBUFF then True else rr_reuse rr b)\<rparr>"

text \<open>The loops of \<open>rtl8192du_inirp_init\<close> over the receive buffers from \<open>b\<close> on, and of the tasklet over those without a packet buffer.\<close>

fun inirp_loop :: "rx_ring \<Rightarrow> nat list \<Rightarrow> nat \<times> rx_ring" where
  "inirp_loop rr [] = (SUCCESS, rr)"
| "inirp_loop rr (b # bs) =
     (case usb_read_port rr b of (res, rr1) \<Rightarrow> if res = FAIL then (FAIL, rr1) else inirp_loop rr1 bs)"

definition rtl8192du_inirp_init :: "rx_ring \<Rightarrow> nat \<times> rx_ring" where
  "rtl8192du_inirp_init rr = inirp_loop rr [0..<NR_RECVBUFF]"

partial_function (option) resubmit_loop :: "rx_ring \<Rightarrow> rx_ring option" where
  "resubmit_loop rr =
     (case rr_pending rr of [] \<Rightarrow> Some rr
      | b # bs \<Rightarrow> resubmit_loop (snd (usb_read_port
          (rr\<lparr>rr_pending := bs, rr_pskb := (rr_pskb rr)(b := None), rr_reuse := (rr_reuse rr)(b := False)\<rparr>) b)))"

text \<open>
  The first loop of \<open>rtl8192du_recv_tasklet\<close>: \<open>mem\<close> gives the bytes of a packet buffer.  A packet buffer that is dropped because
  the driver has stopped is released for good.
\<close>

fun tasklet_loop ::
  "(nat \<Rightarrow> mgt_handler) \<Rightarrow> mgt_handler \<Rightarrow> u16 \<Rightarrow> (nat \<Rightarrow> byte list) \<Rightarrow> rx_usb \<Rightarrow> nat list \<Rightarrow> (nat \<times> nat) list \<Rightarrow>
     (rx_usb \<times> nat list \<times> (nat \<times> nat) list) option" where
  "tasklet_loop handlers on_auth stale mem ru free [] = Some (ru, free, [])"
| "tasklet_loop handlers on_auth stale mem ru free ((s, len) # rest) =
     (if bDriverStopped (ru_ad ru) \<or> bSurpriseRemoved (ru_ad ru) then Some (ru, free, rest)
      else do {
        ru1 \<leftarrow> recvbuf2recvframe handlers on_auth stale ru (mem s) len;
        tasklet_loop handlers on_auth stale mem ru1 (free @ [s]) rest })"

definition rtl8192du_recv_tasklet ::
  "(nat \<Rightarrow> mgt_handler) \<Rightarrow> mgt_handler \<Rightarrow> u16 \<Rightarrow> (nat \<Rightarrow> byte list) \<Rightarrow> rx_usb \<Rightarrow> rx_ring \<Rightarrow> (rx_usb \<times> rx_ring) option" where
  "rtl8192du_recv_tasklet handlers on_auth stale mem ru rr = do {
     (ru1, free, rest) \<leftarrow> tasklet_loop handlers on_auth stale mem ru (rr_free_skb rr) (rr_rx_skb rr);
     rr1 \<leftarrow> resubmit_loop (rr\<lparr>rr_free_skb := free, rr_rx_skb := rest, rr_stopped := bDriverStopped (ru_ad ru1),
              rr_removed := bSurpriseRemoved (ru_ad ru1)\<rparr>);
     Some (ru1, rr1) }"

end
