(* ===== verification/RxUsbProofs.thy ===== *)
theory RxUsbProofs
  imports RxUsb RecvTheorems
begin

text \<open>
  A transfer from the USB is taken apart into exactly the frames the hardware put into it, and the
  packet buffers circulate: none is lost, and the tasklet never waits for memory.
\<close>

section \<open>The hardware's layout of a transfer\<close>

text \<open>A frame with its descriptor: four words are read, \<open>rp_info\<close> is the physical status and the padding before the frame.\<close>

record rx_pkt =
  rp_w0 :: u32
  rp_w1 :: u32
  rp_w2 :: u32
  rp_w3 :: u32
  rp_rest :: "byte list"
  rp_info :: "byte list"
  rp_data :: "byte list"

definition rx_pkt_bytes :: "rx_pkt \<Rightarrow> byte list" where
  "rx_pkt_bytes p = le32_bytes (rp_w0 p) @ le32_bytes (rp_w1 p) @ le32_bytes (rp_w2 p) @ le32_bytes (rp_w3 p) @ rp_rest p @ rp_info p @ rp_data p"

definition rx_pkt_desc :: "rx_pkt \<Rightarrow> rx_stat" where
  "rx_pkt_desc p = snd (rtl8192d_query_rx_desc_status undefined (rp_w0 p) (rp_w1 p) (rp_w2 p) (rp_w3 p))"

definition rx_pkt_ok :: "rx_pkt \<Rightarrow> bool" where
  "rx_pkt_ok p \<longleftrightarrow> length (rp_rest p) = 8 \<and> rp_data p \<noteq> [] \<and> rd_pkt_len (rx_pkt_desc p) = length (rp_data p) \<and>
     rd_drvinfo_sz (rx_pkt_desc p) + rd_shift_sz (rx_pkt_desc p) = length (rp_info p) \<and>
     (rd_physt (rx_pkt_desc p) \<longrightarrow> 32 \<le> length (rp_info p))"

fun rx_layout :: "rx_agg_mode \<Rightarrow> rx_pkt list \<Rightarrow> byte list" where
  "rx_layout mode [] = []"
| "rx_layout mode [p] = rx_pkt_bytes p"
| "rx_layout mode (p # q # ps) =
     rx_pkt_bytes p @ replicate (next_offset mode (length (rx_pkt_bytes p)) - length (rx_pkt_bytes p)) 0 @ rx_layout mode (q # ps)"

text \<open>What the driver makes of one of these frames; the first result says whether it goes on.\<close>

definition deliver ::
  "(nat \<Rightarrow> mgt_handler) \<Rightarrow> mgt_handler \<Rightarrow> u16 \<Rightarrow> rx_usb \<Rightarrow> rx_pkt \<Rightarrow> (bool \<times> rx_usb) option" where
  "deliver handlers on_auth stale ru p =
     (case rtw_alloc_recvframe (ru_ad ru) FreeRecvQueue of
        (None, ad) \<Rightarrow> Some (False, ru\<lparr>ru_ad := ad\<rparr>)
      | (Some f, ad) \<Rightarrow>
          let a = fst (rtl8192d_query_rx_desc_status (rf_attrib f) (rp_w0 p) (rp_w1 p) (rp_w2 p) (rp_w3 p)); st = rx_pkt_desc p;
              front = 8 - ru_align ru (skb_cnt ad) mod 8 + (if rx_qos a \<noteq> 0 then 6 else 0)
          in case skb_get ad of
             (False, ad1) \<Rightarrow> Some (False, ru\<lparr>ru_ad := rtw_free_recvframe (snd (skb_get ad1)) (f\<lparr>rf_attrib := a\<rparr>)\<rparr>)
           | (True, ad1) \<Rightarrow> do {
               (rs, rg) \<leftarrow> rtl8192d_translate_rx_signal_stuff (ru_pc ru) ad1 (ru_bssid ru) (rd_crc_err st \<or> rd_icv_err st)
                            (rd_mcs_rate st) (rd_rxht st) (rp_data p) (if rd_physt st then Some (take 32 (rp_info p)) else None)
                            (ru_attr ru (rf_id f)) (ru_sig ru);
               (_, ad2) \<leftarrow> recv_func handlers on_auth stale ad1 (f\<lparr>rf_attrib := a, rf_head := replicate front 0, rf_data := rp_data p,
                            rf_tailroom := rx_alloc_sz a (length (rp_data p)) - front - length (rp_data p)\<rparr>);
               Some (True, ru\<lparr>ru_ad := ad2, ru_sig := rg, ru_attr := (ru_attr ru)(rf_id f := rs)\<rparr>) })"

fun deliver_all ::
  "(nat \<Rightarrow> mgt_handler) \<Rightarrow> mgt_handler \<Rightarrow> u16 \<Rightarrow> rx_usb \<Rightarrow> rx_pkt list \<Rightarrow> rx_usb option" where
  "deliver_all handlers on_auth stale ru [] = Some ru"
| "deliver_all handlers on_auth stale ru (p # ps) = do {
     (go, ru1) \<leftarrow> deliver handlers on_auth stale ru p;
     if go then deliver_all handlers on_auth stale ru1 ps else Some ru1 }"

section \<open>One frame\<close>

lemma get_le32_bytes: "get_be32 (ucast (drop_bit 24 w)) (ucast (drop_bit 16 w)) (ucast (drop_bit 8 w)) (ucast w) = (w :: u32)"
proof (rule bit_word_eqI)
  fix n :: nat
  assume n: "n < LENGTH(32)"
  consider "n < 8" | "8 \<le> n" "n < 16" | "16 \<le> n" "n < 24" | "24 \<le> n" "n < 32" using n by fastforce
  then show "bit (get_be32 (ucast (drop_bit 24 w)) (ucast (drop_bit 16 w)) (ucast (drop_bit 8 w)) (ucast w)) n = bit w n"
    by cases (auto simp: get_be32_def bit_simps)
qed

lemma rd_le32_at: "length pre = i \<Longrightarrow> rd_le32 (pre @ le32_bytes w @ x) i = Some w"
  by (simp add: rd_le32_def rd_slice_def le32_bytes_def get_le32_bytes)

lemma rx_copy_ok: "rx_copy f a align d = Some (f\<lparr>rf_attrib := a, rf_head := replicate (8 - align mod 8 + (if rx_qos a \<noteq> 0 then 6 else 0)) 0,
    rf_data := d, rf_tailroom := rx_alloc_sz a (length d) - (8 - align mod 8 + (if rx_qos a \<noteq> 0 then 6 else 0)) - length d\<rparr>)"
  by (auto simp: rx_copy_def rx_alloc_sz_def Let_def)

lemma query_snd: "snd (rtl8192d_query_rx_desc_status a w0 w1 w2 w3) = snd (rtl8192d_query_rx_desc_status undefined w0 w1 w2 w3)"
  by (simp add: rtl8192d_query_rx_desc_status_def)

lemma length_rx_pkt_bytes:
  "rx_pkt_ok p \<Longrightarrow> length (rx_pkt_bytes p) = RXDESC_SIZE + rd_drvinfo_sz (rx_pkt_desc p) + rd_shift_sz (rx_pkt_desc p) + rd_pkt_len (rx_pkt_desc p)"
  by (simp add: rx_pkt_bytes_def rx_pkt_ok_def RXDESC_SIZE_def)

lemma map_bind2: "map_option g (t \<bind> (\<lambda>(x, y). r x y \<bind> (\<lambda>(u, z). Some (h x y z)))) =
    t \<bind> (\<lambda>(x, y). r x y \<bind> (\<lambda>(u, z). Some (g (h x y z))))"
  by (cases t) (auto simp: map_option_case split: bind_splits option.splits)

lemma recv_one_at:
  assumes ok: "rx_pkt_ok p" and tl: "length (rx_pkt_bytes p) \<le> tlen"
  shows "recv_one handlers on_auth stale ru (pre @ rx_pkt_bytes p @ x) (length pre) tlen =
    map_option (\<lambda>(go, ru1). (if go then Some (next_offset (ru_mode ru) (length (rx_pkt_bytes p))) else None, ru1))
      (deliver handlers on_auth stale ru p)"
proof -
  let ?m = "pre @ rx_pkt_bytes p @ x" and ?n = "length pre" and ?st = "rx_pkt_desc p"
  have w: "rd_le32 ?m ?n = Some (rp_w0 p)" "rd_le32 ?m (?n + 4) = Some (rp_w1 p)" "rd_le32 ?m (?n + 8) = Some (rp_w2 p)"
    "rd_le32 ?m (?n + 12) = Some (rp_w3 p)"
    using rd_le32_at [of pre ?n "rp_w0 p"] rd_le32_at [of "pre @ le32_bytes (rp_w0 p)" "?n + 4" "rp_w1 p"]
      rd_le32_at [of "pre @ le32_bytes (rp_w0 p) @ le32_bytes (rp_w1 p)" "?n + 8" "rp_w2 p"]
      rd_le32_at [of "pre @ le32_bytes (rp_w0 p) @ le32_bytes (rp_w1 p) @ le32_bytes (rp_w2 p)" "?n + 12" "rp_w3 p"]
    by (simp_all add: rx_pkt_bytes_def)
  have q: "rtl8192d_query_rx_desc_status a (rp_w0 p) (rp_w1 p) (rp_w2 p) (rp_w3 p) =
      (fst (rtl8192d_query_rx_desc_status a (rp_w0 p) (rp_w1 p) (rp_w2 p) (rp_w3 p)), ?st)" for a
    using query_snd [of a] by (metis prod.collapse rx_pkt_desc_def)
  have len: "RXDESC_SIZE + rd_drvinfo_sz ?st + rd_shift_sz ?st + rd_pkt_len ?st = length (rx_pkt_bytes p)"
    using length_rx_pkt_bytes [OF ok] by simp
  have pos: "rd_pkt_len ?st \<noteq> 0" using ok by (simp add: rx_pkt_ok_def)
  have d: "rd_slice ?m (?n + rd_shift_sz ?st + rd_drvinfo_sz ?st + RXDESC_SIZE) (rd_pkt_len ?st) = Some (rp_data p)"
    using ok by (simp add: rd_slice_def rx_pkt_bytes_def rx_pkt_ok_def RXDESC_SIZE_def add.assoc add.commute [of "rd_shift_sz ?st"])
  have ph: "take 32 (drop (?n + RXDESC_SIZE) ?m) = take 32 (rp_info p)" if "rd_physt ?st"
    using ok that by (simp add: rx_pkt_bytes_def rx_pkt_ok_def RXDESC_SIZE_def)
  have ph': "(if rd_physt ?st then Some (take 32 (drop (?n + RXDESC_SIZE) ?m)) else None) = (if rd_physt ?st then Some (take 32 (rp_info p)) else None)"
    using ph by simp
  have tl': "\<not> tlen < length (rx_pkt_bytes p)" using tl by simp
  show ?thesis
  proof (cases "rtw_alloc_recvframe (ru_ad ru) FreeRecvQueue")
    case (Pair r ad)
    show ?thesis
    proof (cases r)
      case None
      then show ?thesis by (simp add: recv_one_def deliver_def Pair)
    next
      case (Some f)
      define a where "a = fst (rtl8192d_query_rx_desc_status (rf_attrib f) (rp_w0 p) (rp_w1 p) (rp_w2 p) (rp_w3 p))"
      have qf: "rtl8192d_query_rx_desc_status (rf_attrib f) (rp_w0 p) (rp_w1 p) (rp_w2 p) (rp_w3 p) = (a, ?st)"
        unfolding a_def by (rule q)
      note u = recv_one_def deliver_def Pair Some prod.case option.case w bind.bind_lunit qf fst_conv len Let_def
      show ?thesis
      proof (cases "fst (skb_get ad)")
        case False
        then show ?thesis
          unfolding u using pos tl' by (simp add: skb_get_def)
      next
        case True
        then show ?thesis
          unfolding u d rx_copy_ok ph' using pos tl'
          by (simp add: skb_get_def map_bind2 split del: if_split)
      qed
    qed
  qed
qed

section \<open>The loop over a transfer\<close>

lemma unat_and_le: "unat (w AND m :: u32) \<le> unat m"
proof -
  have "w AND m \<le> m" by (rule word_and_le1)
  then show ?thesis by (simp add: word_le_nat_alt)
qed

lemma rx_pkt_bytes_bound:
  assumes "rx_pkt_ok p"
  shows "24 < length (rx_pkt_bytes p)" "length (rx_pkt_bytes p) \<le> 16530"
proof -
  have "rd_pkt_len (rx_pkt_desc p) \<le> 16383" "rd_drvinfo_sz (rx_pkt_desc p) \<le> 120" "rd_shift_sz (rx_pkt_desc p) \<le> 3"
    using unat_and_le [of "rp_w0 p" "0x3fff"] unat_and_le [of "drop_bit 16 (rp_w0 p)" "0xf"] unat_and_le [of "drop_bit 24 (rp_w0 p)" "0x3"]
    by (simp_all add: rx_pkt_desc_def rtl8192d_query_rx_desc_status_def)
  then show "length (rx_pkt_bytes p) \<le> 16530" using length_rx_pkt_bytes [OF assms] by (simp add: RXDESC_SIZE_def)
  show "24 < length (rx_pkt_bytes p)" using length_rx_pkt_bytes [OF assms] assms by (simp add: RXDESC_SIZE_def rx_pkt_ok_def)
qed

lemma next_offset_ge: "n \<le> 60000 \<Longrightarrow> n \<le> next_offset mode n"
proof -
  assume n: "n \<le> 60000"
  have up: "n \<le> (n + (k - 1)) div k * k \<and> (n + (k - 1)) div k * k < 65536" if "0 < k" "k \<le> 128" for k
    using div_mult_mod_eq [of "n + (k - 1)" k] mod_less_divisor [OF that(1), of "n + (k - 1)"] n that by linarith
  have "n \<le> (n + 127) div 128 * 128" "(n + 127) div 128 * 128 < 65536" "n \<le> (n + 3) div 4 * 4" "(n + 3) div 4 * 4 < 65536"
    using up [of 128] up [of 4] by simp_all
  moreover have "RND4 n = (n + 3) div 4 * 4" unfolding RND4_def by presburger
  ultimately show ?thesis by (cases mode) (simp_all add: next_offset_def RND128_def)
qed

lemma deliver_mode: "deliver h oc st ru p = Some (go, ru1) \<Longrightarrow> ru_mode ru1 = ru_mode ru"
  by (auto simp: deliver_def Let_def skb_get_def split: prod.splits option.splits bind_splits bool.splits if_splits)

lemma rx_layout_pos: "ps \<noteq> [] \<Longrightarrow> \<forall>p \<in> set ps. rx_pkt_ok p \<Longrightarrow> 0 < length (rx_layout mode ps)"
  using rx_pkt_bytes_bound(1) by (cases "(mode, ps)" rule: rx_layout.cases) fastforce+

lemma recvbuf_loop_layout:
  assumes "ps \<noteq> []" and "\<forall>p \<in> set ps. rx_pkt_ok p" and "length ps < 256"
  shows "recvbuf_loop h oc st ru (pre @ rx_layout (ru_mode ru) ps @ x) (length pre) (length (rx_layout (ru_mode ru) ps)) (of_nat (length ps)) =
    deliver_all h oc st ru ps"
  using assms
proof (induction ps arbitrary: ru pre)
  case Nil
  then show ?case by simp
next
  case (Cons p ps)
  have p: "rx_pkt_ok p" using Cons.prems(2) by simp
  let ?b = "rx_pkt_bytes p" and ?off = "next_offset (ru_mode ru) (length (rx_pkt_bytes p))"
  have ge: "length ?b \<le> ?off" using rx_pkt_bytes_bound(2) [OF p] by (intro next_offset_ge) simp
  show ?case
  proof (cases ps)
    case Nil
    have "recv_one h oc st ru (pre @ ?b @ x) (length pre) (length ?b) =
        map_option (\<lambda>(go, ru1). (if go then Some ?off else None, ru1)) (deliver h oc st ru p)"
      by (rule recv_one_at [OF p]) simp
    then show ?thesis
      using ge by (subst recvbuf_loop.simps) (cases "deliver h oc st ru p"; auto simp: Nil)
  next
    case (Cons q qs)
    define lay where "lay = rx_layout (ru_mode ru) ps"
    define pad where "pad = replicate (?off - length ?b) (0 :: byte)"
    have lay: "rx_layout (ru_mode ru) (p # ps) = ?b @ pad @ lay" by (simp add: Cons lay_def pad_def)
    have pos: "0 < length lay" unfolding lay_def using Cons.prems(2) Cons by (intro rx_layout_pos) auto
    define M where "M = pre @ (?b @ pad @ lay) @ x"
    define T where "T = length (?b @ pad @ lay)"
    have one: "recv_one h oc st ru M (length pre) T =
        map_option (\<lambda>(go, ru1). (if go then Some ?off else None, ru1)) (deliver h oc st ru p)"
      using recv_one_at [OF p, of T h oc st ru pre "pad @ lay @ x"] by (simp add: M_def T_def)
    have goal: "recvbuf_loop h oc st ru M (length pre) T (of_nat (length (p # ps))) = deliver_all h oc st ru (p # ps)"
    proof (cases "deliver h oc st ru p")
      case None
      then show ?thesis by (subst recvbuf_loop.simps) (simp add: one)
    next
      case (Some r)
      obtain go ru1 where r: "r = (go, ru1)" by (cases r)
      show ?thesis
      proof (cases go)
        case False
        then show ?thesis using Some r by (subst recvbuf_loop.simps) (simp add: one)
      next
        case True
        have mode: "ru_mode ru1 = ru_mode ru" using deliver_mode Some r by blast
        have w2: "rd_le32 M (length pre + 8) = Some (rp_w2 p)"
          using rd_le32_at [of "pre @ le32_bytes (rp_w0 p) @ le32_bytes (rp_w1 p)" "length pre + 8" "rp_w2 p"]
          by (simp add: rx_pkt_bytes_def M_def)
        have len: "T = ?off + length lay" using ge by (simp add: pad_def T_def)
        have gt: "\<not> T \<le> ?off" "T - ?off = length lay" using len pos by simp_all
        have cnt: "of_nat (length (p # ps)) - 1 = (of_nat (length ps) :: u16)" by simp
        have "length ps < 2 ^ LENGTH(16)" "0 < length ps" using Cons.prems(3) Cons by simp_all
        then have nz: "(of_nat (length ps) :: u16) \<noteq> 0" by (metis less_not_refl of_nat_0 of_nat_inverse unat_0)
        have M2: "M = (pre @ ?b @ pad) @ lay @ x" "length pre + ?off = length (pre @ ?b @ pad)" using ge by (simp_all add: M_def pad_def)
        have "recvbuf_loop h oc st ru M (length pre) T (of_nat (length (p # ps))) =
            recvbuf_loop h oc st ru1 M (length pre + ?off) (length lay) (of_nat (length ps))"
          using nz by (subst recvbuf_loop.simps) (simp add: one Some r True w2 gt cnt word_gt_0 Let_def del: length_Cons)
        also have "\<dots> = deliver_all h oc st ru1 ps"
          unfolding M2 lay_def using Cons.IH [of ru1 "pre @ ?b @ pad"] Cons.prems Cons by (simp add: mode)
        finally show ?thesis using Some r True by simp
      qed
    qed
    then show ?thesis unfolding lay by (simp only: M_def T_def)
  qed
qed


text \<open>Two frames of ten and three bytes without physical status.\<close>

definition sample_rx :: "nat \<Rightarrow> rx_pkt" where
  "sample_rx n = \<lparr>rp_w0 = of_nat n, rp_w1 = 0, rp_w2 = 0x20000, rp_w3 = 0, rp_rest = replicate 8 0, rp_info = [], rp_data = replicate n 8\<rparr>"

definition sample_rx_usb :: rx_usb where
  "sample_rx_usb = \<lparr>ru_ad = zero_adapter, ru_sig = sample_recv_sig, ru_attr = (\<lambda>_. sample_signal),
     ru_pc = \<lparr>pc_cck_highpwr = False, pc_lenovo = False, pc_paths = [True, True]\<rparr>, ru_mode = RxAggDma, ru_bssid = [], ru_align = (\<lambda>_. 0)\<rparr>"


section \<open>The packet buffers circulate\<close>

definition attached :: "rx_ring \<Rightarrow> nat multiset" where
  "attached rr = mset (List.map_filter (rr_pskb rr) [0..<NR_RECVBUFF])"

definition pool :: "rx_ring \<Rightarrow> nat multiset" where
  "pool rr = mset (rr_free_skb rr) + mset (map fst (rr_rx_skb rr)) + attached rr"

text \<open>A buffer waiting for memory has no packet buffer; one the USB core has, has one; a buffer that may be used again says so.\<close>

definition ring_ok :: "rx_ring \<Rightarrow> bool" where
  "ring_ok rr \<longleftrightarrow> distinct (rr_pending rr) \<and> (\<forall>b \<in> set (rr_pending rr). b < NR_RECVBUFF \<and> rr_pskb rr b = None) \<and>
     (\<forall>b \<in> set (rr_inflight rr). b < NR_RECVBUFF \<and> rr_pskb rr b \<noteq> None)"

lemma recvbuff_upt: "[0..<NR_RECVBUFF] = [0, 1, 2, 3]" by (simp add: NR_RECVBUFF_def upt_rec)

lemma less4: "b < NR_RECVBUFF \<longleftrightarrow> b = 0 \<or> b = 1 \<or> b = 2 \<or> b = 3" by (auto simp: NR_RECVBUFF_def)

definition att :: "nat option \<Rightarrow> nat multiset" where "att x = (case x of None \<Rightarrow> {#} | Some s \<Rightarrow> {#s#})"

lemma attached_sum: "attached rr = att (rr_pskb rr 0) + att (rr_pskb rr 1) + att (rr_pskb rr 2) + att (rr_pskb rr 3)"
  by (simp add: attached_def recvbuff_upt List.map_filter_def att_def split: option.split)

lemma attached_upd: "b < NR_RECVBUFF \<Longrightarrow> attached (rr\<lparr>rr_pskb := (rr_pskb rr)(b := x)\<rparr>) + att (rr_pskb rr b) = attached rr + att x"
  by (auto simp: less4 attached_sum)

lemma pool_cong: "rr_free_skb rr = rr_free_skb rr' \<Longrightarrow> rr_rx_skb rr = rr_rx_skb rr' \<Longrightarrow> rr_pskb rr = rr_pskb rr' \<Longrightarrow> pool rr = pool rr'"
  by (simp add: pool_def attached_def)

lemma ring_ok_cong:
  "rr_pending rr = rr_pending rr' \<Longrightarrow> rr_inflight rr = rr_inflight rr' \<Longrightarrow> rr_pskb rr = rr_pskb rr' \<Longrightarrow> ring_ok rr = ring_ok rr'"
  by (simp add: ring_ok_def)

lemma submit_rx_facts:
  "submit_rx rr b = (r, rr') \<Longrightarrow> pool rr' = pool rr \<and> rr_pending rr' = rr_pending rr \<and> rr_free_skb rr' = rr_free_skb rr \<and>
     rr_rx_skb rr' = rr_rx_skb rr \<and> rr_pskb rr' = rr_pskb rr \<and> rr_reuse rr' = rr_reuse rr \<and> set (rr_inflight rr') \<subseteq> insert b (set (rr_inflight rr))"
  by (auto simp: submit_rx_def Let_def pool_def attached_def split: if_splits)

text \<open>A buffer that is handed to \<open>usb_read_port\<close> has no packet buffer, or one that may be used again.\<close>

definition may_read :: "rx_ring \<Rightarrow> nat \<Rightarrow> bool" where
  "may_read rr b \<longleftrightarrow> b < NR_RECVBUFF \<and> (rr_pskb rr b = None \<or> rr_reuse rr b) \<and> b \<notin> set (rr_pending rr) \<and> b \<notin> set (rr_inflight rr)"

lemma take_skb_pool:
  assumes "may_read rr b"
  shows "pool (take_skb rr b) = pool rr" "rr_pending (take_skb rr b) = rr_pending rr" "rr_inflight (take_skb rr b) = rr_inflight rr"
    "rr_rx_skb (take_skb rr b) = rr_rx_skb rr" "c \<noteq> b \<Longrightarrow> rr_pskb (take_skb rr b) c = rr_pskb rr c"
    "\<not> rr_reuse (take_skb rr b) b \<or> rr_pskb (take_skb rr b) b = None \<Longrightarrow> rr_pskb (take_skb rr b) b = None"
proof -
  have b: "b < NR_RECVBUFF" and p: "\<not> rr_reuse rr b \<or> rr_pskb rr b = None \<Longrightarrow> rr_pskb rr b = None"
    using assms by (auto simp: may_read_def)
  have upd: "attached (rr\<lparr>rr_pskb := (rr_pskb rr)(b := x)\<rparr>) = attached rr + att x" if "rr_pskb rr b = None" for x
    using attached_upd [OF b, of rr x] that by (simp add: att_def)
  have a: "attached (rr\<lparr>rr_pskb := f, rr_free_skb := xs, rr_reuse := g\<rparr>) = attached (rr\<lparr>rr_pskb := f\<rparr>)" for f xs g by (simp add: attached_def)
  show "pool (take_skb rr b) = pool rr"
    using p upd a by (auto simp: take_skb_def pool_def att_def split: list.split)
  show "rr_pending (take_skb rr b) = rr_pending rr" "rr_inflight (take_skb rr b) = rr_inflight rr"
    "rr_rx_skb (take_skb rr b) = rr_rx_skb rr" "c \<noteq> b \<Longrightarrow> rr_pskb (take_skb rr b) c = rr_pskb rr c"
    by (auto simp: take_skb_def split: list.split)
  show "\<not> rr_reuse (take_skb rr b) b \<or> rr_pskb (take_skb rr b) b = None \<Longrightarrow> rr_pskb (take_skb rr b) b = None"
    using p by (auto simp: take_skb_def split: list.splits if_splits)
qed

lemma read_port_keeps:
  assumes m: "may_read rr b" and ok: "ring_ok rr" and u: "usb_read_port rr b = (r, rr')"
  shows "ring_ok rr'" "pool rr \<subseteq># pool rr'" "rr_rx_skb rr' = rr_rx_skb rr" "c \<noteq> b \<Longrightarrow> rr_pskb rr' c = rr_pskb rr c"
    "set (rr_inflight rr') \<subseteq> insert b (set (rr_inflight rr))" "set (rr_pending rr') \<subseteq> insert b (set (rr_pending rr))"
    "rr_reuse rr c \<Longrightarrow> c \<noteq> b \<Longrightarrow> rr_reuse rr' c"
proof -
  note t = take_skb_pool [OF m]
  have b: "b < NR_RECVBUFF" "b \<notin> set (rr_pending rr)" "b \<notin> set (rr_inflight rr)" using m by (simp_all add: may_read_def)
  let ?t = "take_skb rr b"
  have reuse: "rr_reuse rr c \<Longrightarrow> c \<noteq> b \<Longrightarrow> rr_reuse ?t c" for c by (auto simp: take_skb_def split: list.split)
  consider (off) "rr' = rr" | (none) "rr_pskb ?t b = None" "rr' = ?t\<lparr>rr_alloc_cnt := rr_alloc_cnt ?t + 1, rr_pskb := (rr_pskb ?t)(b := None),
      rr_pending := removeAll b (rr_pending ?t) @ [b]\<rparr>"
    | (new) s where "rr_pskb ?t b = None" "submit_rx (?t\<lparr>rr_alloc_cnt := rr_alloc_cnt ?t + 1, rr_pskb := (rr_pskb ?t)(b := Some s)\<rparr>) b = (r, rr')"
    | (old) "rr_pskb ?t b \<noteq> None" "submit_rx (?t\<lparr>rr_reuse := (rr_reuse ?t)(b := False)\<rparr>) b = (r, rr')"
  proof -
    show thesis
    proof (cases "rr_stopped rr \<or> rr_removed rr \<or> rr_pnp_bstop_trx rr")
      case True
      then show ?thesis using u off by (simp add: usb_read_port_def)
    next
      case on: False
      show ?thesis
      proof (cases "\<not> rr_reuse ?t b \<or> rr_pskb ?t b = None")
        case need: True
        then have "rr_pskb ?t b = None" by (rule t(6))
        then show ?thesis
          using u on need none new by (cases "rr_alloc ?t (rr_alloc_cnt ?t)") (simp_all add: usb_read_port_def Let_def)
      next
        case False
        then show ?thesis using u on old by (auto simp add: usb_read_port_def Let_def)
      qed
    qed
  qed
  then have "ring_ok rr' \<and> pool rr \<subseteq># pool rr' \<and> rr_rx_skb rr' = rr_rx_skb rr \<and> (c \<noteq> b \<longrightarrow> rr_pskb rr' c = rr_pskb rr c) \<and>
    set (rr_inflight rr') \<subseteq> insert b (set (rr_inflight rr)) \<and> set (rr_pending rr') \<subseteq> insert b (set (rr_pending rr)) \<and>
    (rr_reuse rr c \<longrightarrow> c \<noteq> b \<longrightarrow> rr_reuse rr' c)" for c
  proof cases
    case off
    then show ?thesis using ok by auto
  next
    case none
    have "ring_ok rr'" using ok none t(2,3,5) b by (auto simp: ring_ok_def removeAll_id)
    moreover have "pool rr' = pool rr"
      using t(1) none attached_upd [OF b(1), of ?t None] by (simp add: pool_def att_def attached_def)
    ultimately show ?thesis using none t b reuse by auto
  next
    case new
    note sf = submit_rx_facts [OF new(2)]
    have a: "attached (?t\<lparr>rr_alloc_cnt := rr_alloc_cnt ?t + 1, rr_pskb := (rr_pskb ?t)(b := Some s)\<rparr>) = attached ?t + {#s#}"
      using attached_upd [OF b(1), of ?t "Some s"] new(1) by (simp add: att_def attached_def)
    have "pool rr' = pool ?t + {#s#}" using sf a by (auto simp: pool_def)
    then have "pool rr \<subseteq># pool rr'" using t(1) by simp
    moreover have "ring_ok rr'" using ok sf t(2,3,5) b by (auto simp: ring_ok_def)
    ultimately show ?thesis using sf t b reuse by auto
  next
    case old
    note sf = submit_rx_facts [OF old(2)]
    have "pool rr' = pool rr" using sf t(1) by (simp add: pool_def attached_def)
    moreover have "ring_ok rr'"
    proof -
      have pend: "rr_pending rr' = rr_pending rr" and fl: "set (rr_inflight rr') \<subseteq> insert b (set (rr_inflight rr))"
        and ps: "rr_pskb rr' = rr_pskb ?t" using sf t(2,3) by auto
      have p: "rr_pskb rr' ba = rr_pskb rr ba" if "ba \<noteq> b" for ba using ps t(5) [OF that] by simp
      have "ba < NR_RECVBUFF \<and> rr_pskb rr' ba \<noteq> None" if "ba \<in> set (rr_inflight rr')" for ba
      proof (cases "ba = b")
        case True
        then show ?thesis using old(1) ps b(1) by simp
      next
        case False
        then show ?thesis using that fl ok p [OF False] by (auto simp: ring_ok_def)
      qed
      moreover have "ba < NR_RECVBUFF \<and> rr_pskb rr' ba = None" if "ba \<in> set (rr_pending rr')" for ba
        using that pend ok b(2) p [of ba] by (cases "ba = b") (auto simp: ring_ok_def)
      ultimately show ?thesis using ok pend by (simp add: ring_ok_def)
    qed
    ultimately show ?thesis using sf t b reuse by auto
  qed
  then show "ring_ok rr'" "pool rr \<subseteq># pool rr'" "rr_rx_skb rr' = rr_rx_skb rr" "c \<noteq> b \<Longrightarrow> rr_pskb rr' c = rr_pskb rr c"
    "set (rr_inflight rr') \<subseteq> insert b (set (rr_inflight rr))" "set (rr_pending rr') \<subseteq> insert b (set (rr_pending rr))"
    "rr_reuse rr c \<Longrightarrow> c \<noteq> b \<Longrightarrow> rr_reuse rr' c" by blast+
qed

section \<open>The events\<close>

text \<open>
  \<open>ring_step\<close>: the end of a request, cancelling, the start (with no buffer in use), a change of the flags, the
  tasklet.  The number beside the ring counts the packet buffers the tasklet has dropped because the driver
  had stopped.
\<close>

inductive ring_step :: "nat \<times> rx_ring \<Rightarrow> nat \<times> rx_ring \<Rightarrow> bool" where
  complete: "b \<in> set (rr_inflight rr) \<Longrightarrow> ring_step (d, rr) (d, usb_read_port_complete rr b st)"
| cancel: "ring_step (d, rr) (d, usb_read_port_cancel rr)"
| start: "rr_pending rr = [] \<Longrightarrow> rr_inflight rr = [] \<Longrightarrow> \<forall>b < NR_RECVBUFF. rr_pskb rr b = None \<or> rr_reuse rr b \<Longrightarrow>
    ring_step (d, rr) (d, snd (rtl8192du_inirp_init rr))"
| flags: "ring_step (d, rr) (d, rr\<lparr>rr_stopped := s, rr_removed := r, rr_cancel := c, rr_pnp_bstop_trx := p\<rparr>)"
| tasklet: "tasklet_loop h oc stale mem ru (rr_free_skb rr) (rr_rx_skb rr) = Some (ru1, free, rest) \<Longrightarrow>
    resubmit_loop (rr\<lparr>rr_free_skb := free, rr_rx_skb := rest, rr_stopped := bDriverStopped (ru_ad ru1),
      rr_removed := bSurpriseRemoved (ru_ad ru1)\<rparr>) = Some rr' \<Longrightarrow>
    ring_step (d, rr) (d + (length (rr_free_skb rr) + length (rr_rx_skb rr) - length free - length rest), rr')"

definition ring_inv :: "nat \<times> rx_ring \<Rightarrow> bool" where
  "ring_inv x \<longleftrightarrow> ring_ok (snd x) \<and> NR_PREALLOC_RECV_SKB \<le> size (pool (snd x)) + fst x"

lemma read_port_snd: "usb_read_port rr b = (fst (usb_read_port rr b), snd (usb_read_port rr b))" by simp

lemma complete_keeps:
  assumes ok: "ring_ok rr" and b: "b \<in> set (rr_inflight rr)"
  shows "ring_ok (usb_read_port_complete rr b st) \<and> pool rr \<subseteq># pool (usb_read_port_complete rr b st)"
proof -
  define rr1 where "rr1 = rr\<lparr>rr_inflight := removeAll b (rr_inflight rr), rr_rx_pending_cnt := rr_rx_pending_cnt rr - 1\<rparr>"
  obtain s where s: "rr_pskb rr b = Some s" using ok b by (auto simp: ring_ok_def)
  have b4: "b < NR_RECVBUFF" "b \<notin> set (rr_pending rr)" using ok b s by (auto simp: ring_ok_def)
  have same: "ring_ok (rr1\<lparr>rr_reuse := u\<rparr>)" "pool (rr1\<lparr>rr_reuse := u\<rparr>) = pool rr" "ring_ok rr1" "pool rr1 = pool rr" for u
    using ok by (auto simp: ring_ok_def rr1_def pool_def attached_def)
  have again: "ring_ok (snd (usb_read_port (rr1\<lparr>rr_reuse := (rr_reuse rr1)(b := True)\<rparr>) b)) \<and>
      pool rr \<subseteq># pool (snd (usb_read_port (rr1\<lparr>rr_reuse := (rr_reuse rr1)(b := True)\<rparr>) b))"
  proof -
    have "may_read (rr1\<lparr>rr_reuse := (rr_reuse rr1)(b := True)\<rparr>) b" using b4 by (simp add: may_read_def rr1_def)
    from read_port_keeps(1,2) [OF this same(1) read_port_snd] show ?thesis using same(2) by simp
  qed
  have good: "ring_ok (snd (usb_read_port rr2 b)) \<and> pool rr \<subseteq># pool (snd (usb_read_port rr2 b))"
    if rr2: "rr2 = rr1\<lparr>rr_rx_skb := rr_rx_skb rr1 @ [(the (rr_pskb rr1 b), len)], rr_pskb := (rr_pskb rr1)(b := None), rr_reuse := (rr_reuse rr1)(b := False)\<rparr>" for rr2 len
  proof -
    have mr: "may_read rr2 b" using b4 by (simp add: may_read_def rr1_def rr2)
    have ok2: "ring_ok rr2" using ok by (auto simp: ring_ok_def rr1_def rr2)
    have "pool rr2 = pool rr"
      using attached_upd [OF b4(1), of rr1 None] s by (simp add: pool_def rr2 att_def rr1_def attached_def)
    then show ?thesis using read_port_keeps(1,2) [OF mr ok2 read_port_snd] by simp
  qed
  show ?thesis
    using again good [OF refl] same
    by (cases st) (simp_all add: usb_read_port_complete_def Let_def rr1_def [symmetric], (simp_all add: ring_ok_def pool_def attached_def)?)
qed

lemma tasklet_loop_drops:
  "tasklet_loop h oc stale mem ru free xs = Some (ru1, free1, rest) \<Longrightarrow>
   \<exists>moved gone. free1 = free @ map fst moved \<and> xs = moved @ gone @ rest"
proof (induction h oc stale mem ru free xs rule: tasklet_loop.induct)
  case (2 h oc stale mem ru free s len rest0)
  show ?case
  proof (cases "bDriverStopped (ru_ad ru) \<or> bSurpriseRemoved (ru_ad ru)")
    case True
    then show ?thesis using 2(2) by (intro exI [of _ "[]"] exI [of _ "[(s, len)]"]) simp
  next
    case False
    then obtain ru2 where r: "recvbuf2recvframe h oc stale ru (mem s) len = Some ru2" "tasklet_loop h oc stale mem ru2 (free @ [s]) rest0 = Some (ru1, free1, rest)"
      using 2(2) by (auto split: bind_splits)
    from 2(1) [OF False r] obtain moved gone where "free1 = (free @ [s]) @ map fst moved" "rest0 = moved @ gone @ rest" by blast
    then show ?thesis by (intro exI [of _ "(s, len) # moved"] exI [of _ gone]) simp
  qed
qed auto

text \<open>One turn of the loop over the buffers that wait.\<close>

definition resubmit_one :: "rx_ring \<Rightarrow> nat \<Rightarrow> nat list \<Rightarrow> rx_ring" where
  "resubmit_one rr b bs = rr\<lparr>rr_pending := bs, rr_pskb := (rr_pskb rr)(b := None), rr_reuse := (rr_reuse rr)(b := False)\<rparr>"

lemma resubmit_one_ok:
  assumes ok: "ring_ok rr" and p: "rr_pending rr = b # bs"
  shows "may_read (resubmit_one rr b bs) b" "ring_ok (resubmit_one rr b bs)" "pool (resubmit_one rr b bs) = pool rr"
proof -
  have b: "b < NR_RECVBUFF" "rr_pskb rr b = None" "b \<notin> set bs" using ok p by (auto simp: ring_ok_def)
  show "may_read (resubmit_one rr b bs) b" "ring_ok (resubmit_one rr b bs)"
    using ok p b by (auto simp: resubmit_one_def may_read_def ring_ok_def)
  have "(rr_pskb rr)(b := None) = rr_pskb rr" using b(2) by auto
  then show "pool (resubmit_one rr b bs) = pool rr" by (simp add: resubmit_one_def pool_def attached_def)
qed

lemma resubmit_keeps: "resubmit_loop rr = Some rr' \<Longrightarrow> ring_ok rr \<longrightarrow> ring_ok rr' \<and> pool rr \<subseteq># pool rr'"
proof (induction rr rr' rule: resubmit_loop.raw_induct [rotated, consumes 1, case_names 1])
  case (1 f x y)
  show ?case
  proof (cases "rr_pending x")
    case Nil
    then show ?thesis using 1(2) by simp
  next
    case (Cons b bs)
    have r: "f (snd (usb_read_port (resubmit_one x b bs) b)) = Some y" using 1(2) Cons by (simp add: resubmit_one_def)
    show ?thesis
    proof
      assume ok: "ring_ok x"
      note one = resubmit_one_ok [OF ok Cons]
      note rp = read_port_keeps(1,2) [OF one(1,2) read_port_snd]
      show "ring_ok y \<and> pool x \<subseteq># pool y" using 1(1) [OF r] rp one(3) by (auto intro: subset_mset.order_trans)
    qed
  qed
qed

lemma inirp_keeps:
  "distinct bs \<Longrightarrow> \<forall>b \<in> set bs. may_read rr b \<Longrightarrow> ring_ok rr \<Longrightarrow> ring_ok (snd (inirp_loop rr bs)) \<and> pool rr \<subseteq># pool (snd (inirp_loop rr bs))"
proof (induction bs arbitrary: rr)
  case (Cons b bs)
  obtain r rr1 where u: "usb_read_port rr b = (r, rr1)" by fastforce
  have m: "may_read rr b" using Cons.prems(2) by simp
  note k = read_port_keeps [OF m Cons.prems(3) u]
  have "may_read rr1 c" if c: "c \<in> set bs" for c
  proof -
    have "c \<noteq> b" "may_read rr c" using Cons.prems c by auto
    then show ?thesis using k(4,7) [of c] k(5,6) by (auto simp: may_read_def)
  qed
  then have "ring_ok (snd (inirp_loop rr1 bs)) \<and> pool rr1 \<subseteq># pool (snd (inirp_loop rr1 bs))" using Cons k(1) by simp
  then show ?case using k(1,2) u by (auto intro: subset_mset.order_trans)
qed simp

lemma tasklet_loop_rest:
  "tasklet_loop h oc stale mem ru free xs = Some (ru1, free1, rest) \<Longrightarrow>
   bDriverStopped (ru_ad ru1) \<or> bSurpriseRemoved (ru_ad ru1) \<or> free1 = free @ map fst xs \<and> rest = []"
proof (induction h oc stale mem ru free xs rule: tasklet_loop.induct)
  case (2 h oc stale mem ru free s len rest0)
  show ?case
  proof (cases "bDriverStopped (ru_ad ru) \<or> bSurpriseRemoved (ru_ad ru)")
    case True
    then show ?thesis using 2(2) by auto
  next
    case False
    then obtain ru2 where r: "recvbuf2recvframe h oc stale ru (mem s) len = Some ru2" "tasklet_loop h oc stale mem ru2 (free @ [s]) rest0 = Some (ru1, free1, rest)"
      using 2(2) by (auto split: bind_splits)
    from 2(1) [OF False r] show ?thesis by simp
  qed
qed auto

text \<open>The ring as the second loop of the tasklet finds it.\<close>

definition after_rx :: "rx_ring \<Rightarrow> rx_usb \<Rightarrow> nat list \<Rightarrow> (nat \<times> nat) list \<Rightarrow> rx_ring" where
  "after_rx rr ru free rest = rr\<lparr>rr_free_skb := free, rr_rx_skb := rest, rr_stopped := bDriverStopped (ru_ad ru), rr_removed := bSurpriseRemoved (ru_ad ru)\<rparr>"

lemma after_rx_ok [simp]: "ring_ok (after_rx rr ru free rest) = ring_ok rr" by (simp add: after_rx_def ring_ok_def)

lemma after_rx_pool: "pool (after_rx rr ru free rest) = mset free + mset (map fst rest) + attached rr" by (simp add: after_rx_def pool_def attached_def)

lemma ring_step_inv: "ring_step x y \<Longrightarrow> ring_inv x \<Longrightarrow> ring_inv y"
proof (induction rule: ring_step.induct)
  case (complete b rr d st)
  then have "ring_ok (usb_read_port_complete rr b st)" "size (pool rr) \<le> size (pool (usb_read_port_complete rr b st))"
    using complete_keeps [of rr b st] by (auto simp: ring_inv_def intro: size_mset_mono)
  then show ?case using complete(2) by (simp add: ring_inv_def)
next
  case (cancel d rr)
  then show ?case by (simp add: ring_inv_def usb_read_port_cancel_def ring_ok_def pool_def attached_def)
next
  case (start rr d)
  then have "\<forall>b \<in> set [0..<NR_RECVBUFF]. may_read rr b" by (simp add: may_read_def)
  then have "ring_ok (snd (rtl8192du_inirp_init rr))" "size (pool rr) \<le> size (pool (snd (rtl8192du_inirp_init rr)))"
    using inirp_keeps [of "[0..<NR_RECVBUFF]" rr] start(4) by (auto simp: ring_inv_def rtl8192du_inirp_init_def intro: size_mset_mono)
  then show ?case using start(4) by (simp add: ring_inv_def)
next
  case (flags d rr)
  then show ?case by (simp add: ring_inv_def ring_ok_def pool_def attached_def)
next
  case (tasklet h oc stale mem ru rr ru1 free rest rr' d)
  obtain moved gone where mg: "free = rr_free_skb rr @ map fst moved" "rr_rx_skb rr = moved @ gone @ rest"
    using tasklet_loop_drops [OF tasklet(1)] by blast
  have sz: "size (pool rr) = size (pool (after_rx rr ru1 free rest)) + length gone" by (simp only: after_rx_pool) (simp add: pool_def mg)
  have "ring_ok rr' \<and> pool (after_rx rr ru1 free rest) \<subseteq># pool rr'"
    using resubmit_keeps tasklet(2,3) by (simp add: ring_inv_def after_rx_def [symmetric])
  then show ?case using tasklet(3) sz size_mset_mono [of "pool (after_rx rr ru1 free rest)" "pool rr'"] by (auto simp: ring_inv_def mg)
qed

interpretation ring: invariant_system ring_step ring_inv "\<lambda>_. ()"
  by unfold_locales (auto intro: ring_step_inv)

section \<open>The loop over the waiting buffers\<close>

lemma read_port_off:
  "rr_stopped rr \<or> rr_removed rr \<or> rr_pnp_bstop_trx rr \<Longrightarrow> usb_read_port rr b = (FAIL, rr)"
  by (simp add: usb_read_port_def)

lemma read_port_takes:
  assumes "\<not> (rr_stopped rr \<or> rr_removed rr \<or> rr_pnp_bstop_trx rr)" "rr_pskb rr b = None" "rr_free_skb rr = s # ss"
  shows "rr_pending (snd (usb_read_port rr b)) = rr_pending rr \<and> rr_free_skb (snd (usb_read_port rr b)) = ss"
  using assms by (auto simp: usb_read_port_def take_skb_def submit_rx_def Let_def)

lemma resubmit_returns:
  "ring_ok rr \<Longrightarrow> rr_stopped rr \<or> rr_removed rr \<or> rr_pnp_bstop_trx rr \<or> length (rr_pending rr) \<le> length (rr_free_skb rr) \<Longrightarrow>
   \<exists>rr'. resubmit_loop rr = Some rr' \<and> rr_pending rr' = []"
proof (induction "length (rr_pending rr)" arbitrary: rr)
  case 0
  then show ?case by (simp add: resubmit_loop.simps [of rr])
next
  case (Suc n)
  then obtain b bs where p: "rr_pending rr = b # bs" by (cases "rr_pending rr") auto
  let ?one = "resubmit_one rr b bs" let ?next = "snd (usb_read_port (resubmit_one rr b bs) b)"
  note one = resubmit_one_ok [OF Suc(3) p]
  have loop: "resubmit_loop rr = resubmit_loop ?next" using p by (simp add: resubmit_loop.simps [of rr] resubmit_one_def)
  have ok: "ring_ok ?next" by (rule read_port_keeps(1) [OF one(1,2) read_port_snd])
  have "length (rr_pending ?next) = n \<and> (rr_stopped ?next \<or> rr_removed ?next \<or> rr_pnp_bstop_trx ?next \<or> length (rr_pending ?next) \<le> length (rr_free_skb ?next))"
  proof (cases "rr_stopped rr \<or> rr_removed rr \<or> rr_pnp_bstop_trx rr")
    case True
    then have n: "?next = ?one" by (subst read_port_off) (simp_all add: resubmit_one_def)
    show ?thesis unfolding n using True p Suc(2) by (auto simp add: resubmit_one_def)
  next
    case False
    then obtain s ss where f: "rr_free_skb rr = s # ss" using Suc(4) p by (cases "rr_free_skb rr") auto
    have "rr_pending ?next = bs \<and> rr_free_skb ?next = ss"
      using read_port_takes [of ?one b s ss] False f by (simp add: resubmit_one_def)
    then show ?thesis using Suc(2,4) False p f by simp
  qed
  then have n: "n = length (rr_pending ?next)" "rr_stopped ?next \<or> rr_removed ?next \<or> rr_pnp_bstop_trx ?next \<or> length (rr_pending ?next) \<le> length (rr_free_skb ?next)"
    by blast+
  show ?case unfolding loop by (rule Suc(1) [OF n(1) ok n(2)])
qed

lemma attached_size: "ring_ok rr \<Longrightarrow> size (attached rr) + length (rr_pending rr) \<le> NR_RECVBUFF"
proof -
  assume ok: "ring_ok rr"
  have "set (rr_pending rr) \<subseteq> set (filter (\<lambda>b. rr_pskb rr b = None) [0..<NR_RECVBUFF])" using ok by (auto simp: ring_ok_def)
  then have "length (rr_pending rr) \<le> length (filter (\<lambda>b. rr_pskb rr b = None) [0..<NR_RECVBUFF])"
    using ok by (metis List.finite_set card_mono card_length distinct_card order_trans ring_ok_def)
  moreover have "size (attached rr) = length (filter (\<lambda>b. rr_pskb rr b \<noteq> None) [0..<NR_RECVBUFF])"
    unfolding attached_def List.map_filter_def by (simp only: size_mset length_map comp_def)
  ultimately show ?thesis using sum_length_filter_compl [of "\<lambda>b. rr_pskb rr b = None" "[0..<NR_RECVBUFF]"] by simp
qed


text \<open>A buffer waits for memory, another one's packet has arrived.\<close>

definition sample_ring :: rx_ring where
  "sample_ring = \<lparr>rr_pskb = (\<lambda>b. if b = 0 then None else Some b), rr_reuse = (\<lambda>_. False), rr_free_skb = [], rr_rx_skb = [(4, 24), (5, 24), (6, 24), (7, 24), (8, 24)],
     rr_pending = [0], rr_inflight = [1, 2, 3], rr_rx_pending_cnt = 3, rr_stopped = False, rr_removed = False, rr_cancel = False,
     rr_pnp_bstop_trx = False, rr_alloc = (\<lambda>_. None), rr_alloc_cnt = 0, rr_submit = (\<lambda>_. 0), rr_submit_cnt = 0\<rparr>"


text \<open>The bound is needed: without memory and without a free packet buffer the loop runs for ever, and with it the tasklet.\<close>

theorem resubmit_spins:
  "rr_pending rr \<noteq> [] \<Longrightarrow> rr_free_skb rr = [] \<Longrightarrow> rr_alloc rr = (\<lambda>_. None) \<Longrightarrow> \<not> rr_stopped rr \<Longrightarrow> \<not> rr_removed rr \<Longrightarrow> \<not> rr_pnp_bstop_trx rr \<Longrightarrow>
   resubmit_loop rr = None"
proof -
  have "resubmit_loop rr = Some y \<Longrightarrow> \<not> (rr_pending rr \<noteq> [] \<and> rr_free_skb rr = [] \<and> rr_alloc rr = (\<lambda>_. None) \<and> \<not> rr_stopped rr \<and> \<not> rr_removed rr \<and> \<not> rr_pnp_bstop_trx rr)" for y
  proof (induction rr y rule: resubmit_loop.raw_induct [rotated, consumes 1, case_names 1])
    case (1 f x y)
    show ?case
    proof
      assume a: "rr_pending x \<noteq> [] \<and> rr_free_skb x = [] \<and> rr_alloc x = (\<lambda>_. None) \<and> \<not> rr_stopped x \<and> \<not> rr_removed x \<and> \<not> rr_pnp_bstop_trx x"
      then obtain b bs where p: "rr_pending x = b # bs" by (cases "rr_pending x") auto
      have r: "f (snd (usb_read_port (resubmit_one x b bs) b)) = Some y" using 1(2) p by (simp add: resubmit_one_def)
      from 1(1) [OF r] show False
        using a by (simp add: usb_read_port_def resubmit_one_def take_skb_def Let_def)
    qed
  qed
  then show "rr_pending rr \<noteq> [] \<Longrightarrow> rr_free_skb rr = [] \<Longrightarrow> rr_alloc rr = (\<lambda>_. None) \<Longrightarrow> \<not> rr_stopped rr \<Longrightarrow> \<not> rr_removed rr \<Longrightarrow> \<not> rr_pnp_bstop_trx rr \<Longrightarrow>
    resubmit_loop rr = None" by (cases "resubmit_loop rr") auto
qed

end
