(* ===== verification/Spec2Isabelle.thy ===== *)
theory Spec2Isabelle
  imports Prelude Types StaMgt Arc4 Crc32 Fragments Samples Wep Michael Tkip Aes Ccmp Decache RecvFrame
    Reorder Defrag Wifi XmitQueue PowerSave PowerSaveProofs PowerSaveRuns PowerSaveEvents PowerSaveTheorems
    RecvPath RecvEntry RecvProofs RecvTheorems Ie IeSecurity IeParse IeAttr Bss
    TxHeader TxFrame TxProofs TxTheorems UsbTx UsbTxProofs
    RxSignal RxUsb RxUsbProofs
begin

text \<open>
  A verification library for the RTL8192DU Wi-Fi driver (C, \<open>core/\<close>, \<open>hal/\<close>, \<open>os_dep/\<close>,
  \<open>include/\<close>).  The names of the definitions are those of the C functions; a definition with
  another name is a part of a function (a loop, one branch) and the text beside it says which.

  \<^bold>\<open>How the program is modelled.\<close>  The configuration is the one the Makefile and
  \<open>include/autoconf.h\<close> build: little-endian Linux on USB, AP mode, P2P, HT with receive
  reordering, USB transmit aggregation; no TDLS, no concurrent interfaces, no test mode.  Integers
  whose width matters are words, counters are \<open>int\<close> or \<open>nat\<close>.  A buffer is a list of bytes; an
  access outside it, and an access through a null pointer, is \<open>None\<close>, so that a result \<open>Some\<close>
  means that the function stayed inside its buffers.  A loop that need not end is a
  \<open>partial_function (option)\<close>, and a theorem says when it ends.  The state is the record
  \<open>adapter\<close> of \<open>Types\<close>, passed through every operation; a pool element (station, frame, buffer)
  is an index or a record with an identity, a queue the list of what it links.  The locks of the
  driver make each modelled operation one step; where operations interleave, a list of events
  or a step relation gives their order.

  \<^bold>\<open>The theories.\<close>
  \<^item> \<open>Prelude\<close>, \<open>Types\<close>, \<open>Wifi\<close>, \<open>Samples\<close>: checked buffers, words, the shared structures, header
    fields (\<open>include/wifi.h\<close>), concrete states for the witnesses.
  \<^item> \<open>StaMgt\<close> (\<open>core/rtw_sta_mgt.c\<close>): the station table as pool, hash lists and free queue; every
    operation keeps the table well-formed, lookups refine a map, a release returns all frames.
  \<^item> \<open>Arc4\<close>, \<open>Crc32\<close>, \<open>Fragments\<close>, \<open>Wep\<close>, \<open>Michael\<close>, \<open>Tkip\<close>, \<open>Aes\<close>, \<open>Ccmp\<close> (\<open>core/rtw_security.c\<close>):
    the ciphers on the frames in the transmit and receive buffers; equivalence with reference
    definitions, round trips between the encrypting and the decrypting side, detection of errors,
    uniqueness of the keys derived from packet numbers.
  \<^item> \<open>Decache\<close>, \<open>RecvFrame\<close>, \<open>Reorder\<close>, \<open>Defrag\<close>, \<open>RecvPath\<close>, \<open>RecvEntry\<close>, \<open>RecvProofs\<close>,
    \<open>RecvTheorems\<close> (\<open>core/rtw_recv.c\<close>, \<open>os_dep/recv_linux.c\<close>): duplicate and replay detection,
    Ethernet conversion, A-MSDUs, the reordering window, fragments and their Michael check, the
    checks of addresses and port, \<open>recv_func\<close> as a whole.
  \<^item> \<open>XmitQueue\<close>, \<open>PowerSave\<close>, \<open>PowerSaveEvents\<close>, \<open>PowerSaveProofs\<close>, \<open>PowerSaveRuns\<close>,
    \<open>PowerSaveTheorems\<close> (\<open>core/rtw_xmit.c\<close>, \<open>core/rtw_recv.c\<close>): transmit queues and scheduler,
    the frames an access point holds for sleeping stations; invariants over all runs of the events.
  \<^item> \<open>Ie\<close>, \<open>IeSecurity\<close>, \<open>IeParse\<close>, \<open>IeAttr\<close>, \<open>Bss\<close> (\<open>core/rtw_ieee80211.c\<close>): information elements
    and attributes, written, searched and parsed; round trips, bounds, and inputs on which the
    searches leave their buffer or do not end.
  \<^item> \<open>TxHeader\<close>, \<open>TxFrame\<close>, \<open>TxProofs\<close>, \<open>TxTheorems\<close> (\<open>core/rtw_xmit.c\<close>): the way of a packet into the
    transmit buffer, byte by byte, and its composition with the receive path of the station.
  \<^item> \<open>UsbTx\<close>, \<open>UsbTxProofs\<close> (\<open>hal/rtl8192du_xmit.c\<close>, \<open>os_dep/usb_ops_linux.c\<close>): transmit descriptors, the
    aggregation of queued frames into one USB transfer, transfers of a single frame, their submission
    and completion; what the hardware reads in a transfer is what was queued.
  \<^item> \<open>RxSignal\<close>, \<open>RxUsb\<close>, \<open>RxUsbProofs\<close> (\<open>hal/rtl8192d_rxdesc.c\<close>, \<open>hal/usb_ops_linux.c\<close>): signal strength and
    quality with their averages, the frames of a received transfer, the receive buffers between USB core
    and tasklet; the bounds of the values, the frames delivered, the end of the tasklet's loops.

  \<^bold>\<open>Bounds.\<close>  \<open>partial_function\<close> needs no fuel; the loops with a counter recurse on the counter of
  the code; \<open>coalesce_loop\<close> recurses while the next fragment starts inside the buffer.

  \<^bold>\<open>Not modelled.\<close>  Register programming of the chip and its tables (\<open>hal/*phycfg.c\<close>,
  \<open>hal/*init.c\<close>, \<open>hal/*dm.c\<close>, \<open>hal/Hal8192DUHWImg*.c\<close>): sequences of register writes whose meaning is
  the hardware's.  The glue to the kernel (\<open>os_dep/\<close> but for the functions named above) and the
  ioctl handlers: copies between user requests and structures.  Statistics, traces and LEDs.  TDLS and the
  manufacturing test are not compiled.  Management frames go to handlers that are a parameter of
  \<open>recv_func\<close>: the state machines of \<open>core/rtw_mlme_ext.c\<close> and Wi-Fi Direct (\<open>core/rtw_p2p.c\<close>) rest
  on timers, the command thread and the radio and are left out.
\<close>

end
